(* ===== verification/Ktap_Prelude.thy ===== *)
theory Ktap_Prelude
  imports Main "HOL-Library.Word" "HOL-Library.Monad_Syntax"
begin

text \<open>
  Shared vocabulary of the development: names for the C integer types, the lemma collections
  \<open>bcfield\<close> (instruction fields), \<open>typetag\<close> (value type tags) and \<open>ktap_inv\<close> (invariants), and
  generic facts on words, bit fields, byte lists and index-linked chains.

  Conventions.  A C \<^verbatim>\<open>uint32_t\<close> is a \<open>32 word\<close>, a pointer or a \<^verbatim>\<open>long\<close> a \<open>64 word\<close> (the LP64
  model the kernel module is built for), a byte an \<open>8 word\<close>.  A result of type \<open>'a option\<close> whose
  \<open>None\<close> is documented as a fault stands for undefined behaviour of the C code (a wild read, an
  undefined shift) or for a loop that does not end.
\<close>

unbundle bit_operations_syntax

type_synonym u8 = "8 word"
type_synonym u16 = "16 word"
type_synonym u32 = "32 word"
type_synonym u64 = "64 word"
type_synonym addr = "64 word"

named_theorems bcfield \<open>reading and composing the bit fields of instructions\<close>
named_theorems typetag \<open>type tags of values\<close>
named_theorems ktap_inv \<open>preservation of component invariants\<close>


section \<open>Words and bit fields\<close>

lemma and_ff_take_bit: "(w :: u32) AND 0xff = take_bit 8 w"
  by (simp add: take_bit_eq_mask mask_eq_exp_minus_1)

lemma and_ffff_take_bit: "(w :: u32) AND 0xffff = take_bit 16 w"
  by (simp add: take_bit_eq_mask mask_eq_exp_minus_1)

lemma and_mask64: "(w :: u64) AND 0xffffffff = take_bit 32 w"
  by (simp add: take_bit_eq_mask mask_eq_exp_minus_1)

lemma bit_below_exp:
  fixes w :: "'a::len word"
  assumes "unat w < 2 ^ k" and "bit w n"
  shows "n < k"
proof -
  have "take_bit k w = w"
    using assms(1)
    by (intro word_eq_iff_unsigned [where ?'a = nat, THEN iffD2])
      (simp add: unsigned_take_bit_eq take_bit_nat_eq_self)
  with assms(2) show ?thesis by (metis bit_take_bit_iff)
qed

lemma bit_below_256: "(w :: u32) < 256 \<Longrightarrow> bit w n \<Longrightarrow> n < 8"
  by (rule bit_below_exp [where w = w]) (auto simp: word_less_nat_alt)

lemma bit_below_65536: "(w :: u32) < 65536 \<Longrightarrow> bit w n \<Longrightarrow> n < 16"
  by (rule bit_below_exp [where w = w]) (auto simp: word_less_nat_alt)

lemma take_bit_word_bound: "k < LENGTH('a) \<Longrightarrow> unat (take_bit k (w :: 'a::len word)) < 2 ^ k"
  by (simp add: unsigned_take_bit_eq)

lemma unat_add_of_nat:
  fixes w :: "'a::len word"
  assumes "unat w + n < 2 ^ LENGTH('a)"
  shows "unat (w + of_nat n) = unat w + n"
proof -
  have "n < 2 ^ LENGTH('a)" using assms by linarith
  then show ?thesis using assms
    by (simp add: unat_word_ariths unsigned_of_nat take_bit_nat_eq_self)
qed

lemma scast_small_nat: "n < 2 ^ 31 \<Longrightarrow> (scast (of_nat n :: u32) :: u64) = of_nat n"
proof -
  assume "n < 2 ^ 31"
  then have "sint (of_nat n :: u32) = int n"
    by (simp add: signed_of_nat signed_take_bit_int_eq_self)
  then show ?thesis by (simp add: scast_eq)
qed

lemma unat_ucast_32_64 [simp]: "unat (ucast (k :: u32) :: u64) = unat k"
proof -
  have "unat k < 2 ^ 64" using unsigned_less [of k, where ?'a = nat] by simp
  then show ?thesis by (simp add: unsigned_ucast_eq take_bit_nat_eq_self)
qed

lemma small_u64_cast:
  fixes n :: u64
  assumes "unat n < 2 ^ 32"
  shows "ucast (ucast n :: u32) = n"
proof -
  have "unat (ucast n :: u32) = unat n" using assms by (simp add: unsigned_ucast_eq take_bit_nat_eq_self)
  then show ?thesis by (simp add: word_unat_eq_iff)
qed

lemma sint_of_nat32: "n < 2 ^ 31 \<Longrightarrow> sint (of_nat n :: u32) = int n"
  by (simp add: signed_of_nat signed_take_bit_int_eq_self)

lemma unat_of_nat32: "n < 2 ^ 32 \<Longrightarrow> unat (of_nat n :: u32) = n"
  by (simp add: unsigned_of_nat take_bit_nat_eq_self)

lemma unat_and_not_mask: "unat ((w :: u32) AND NOT (mask n)) = unat w div 2 ^ n * 2 ^ n"
proof -
  have b: "unat w div 2 ^ n * 2 ^ n < 2 ^ 32"
    by (rule le_less_trans [OF div_times_less_eq_dividend]) (use unsigned_less [of w, where ?'a = nat] in simp)
  have "w AND NOT (mask n) = push_bit n (drop_bit n w)"
    by (rule bit_word_eqI) (auto simp: bit_simps)
  moreover have "unat (drop_bit n w) = unat w div 2 ^ n" 
    using unat_drop_bit_eq [of n w] drop_bit_eq_div [of n "unat w"] by simp
  moreover have "unat (push_bit n (drop_bit n w)) = take_bit 32 (push_bit n (unat (drop_bit n w)))"
    using unsigned_push_bit_eq [of n "drop_bit n w", where ?'a = nat] by simp
  ultimately have "unat (w AND NOT (mask n)) = take_bit 32 (unat w div 2 ^ n * 2 ^ n)"
    by (simp only: push_bit_eq_mult)
  then show ?thesis using b by (simp add: take_bit_nat_eq_self)
qed

lemma unat_and_not_15: "unat ((w :: u32) AND NOT 15) = unat w div 16 * 16"
  using unat_and_not_mask [of w 4] by (simp add: mask_eq_exp_minus_1)

lemma unat_and_not_1: "unat ((w :: u32) AND NOT 1) = unat w div 2 * 2"
  using unat_and_not_mask [of w 1] by (simp add: mask_eq_exp_minus_1)

end
