(* ===== verification/Ktap_Values.thy ===== *)
theory Ktap_Values
  imports Ktap_Prelude
begin

text \<open>
  Values of the virtual machine (\<^verbatim>\<open>include/ktap_types.h\<close>, \<^verbatim>\<open>runtime/kp_obj.h\<close>, \<^verbatim>\<open>runtime/kp_obj.c\<close>).

  A C \<^verbatim>\<open>ktap_val_t\<close> is a type tag next to a union whose members share eight bytes: an object
  pointer, a C function pointer, a number, or two half words.  The model keeps that layout: a
  value is the tag and the 64 bits of the union, so a read of the "wrong" member, which the code
  does in places, reads the bits that are there.
\<close>

section \<open>Type tags\<close>

definition KTAP_TNIL :: u32 where [typetag]: "KTAP_TNIL = NOT 0"
definition KTAP_TFALSE :: u32 where [typetag]: "KTAP_TFALSE = NOT 1"
definition KTAP_TTRUE :: u32 where [typetag]: "KTAP_TTRUE = NOT 2"
definition KTAP_TNUM :: u32 where [typetag]: "KTAP_TNUM = NOT 3"
definition KTAP_TLIGHTUD :: u32 where [typetag]: "KTAP_TLIGHTUD = NOT 4"
definition KTAP_TSTR :: u32 where [typetag]: "KTAP_TSTR = NOT 5"
definition KTAP_TUPVAL :: u32 where [typetag]: "KTAP_TUPVAL = NOT 6"
definition KTAP_TTHREAD :: u32 where [typetag]: "KTAP_TTHREAD = NOT 7"
definition KTAP_TPROTO :: u32 where [typetag]: "KTAP_TPROTO = NOT 8"
definition KTAP_TFUNC :: u32 where [typetag]: "KTAP_TFUNC = NOT 9"
definition KTAP_TCFUNC :: u32 where [typetag]: "KTAP_TCFUNC = NOT 10"
definition KTAP_TCDATA :: u32 where [typetag]: "KTAP_TCDATA = NOT 11"
definition KTAP_TTAB :: u32 where [typetag]: "KTAP_TTAB = NOT 12"
definition KTAP_TUDATA :: u32 where [typetag]: "KTAP_TUDATA = NOT 13"
definition KTAP_TEVENTSTR :: u32 where [typetag]: "KTAP_TEVENTSTR = NOT 14"
definition KTAP_TKSTACK :: u32 where [typetag]: "KTAP_TKSTACK = NOT 15"
definition KTAP_TKIP :: u32 where [typetag]: "KTAP_TKIP = NOT 16"
definition KTAP_TUIP :: u32 where [typetag]: "KTAP_TUIP = NOT 17"
definition KTAP_TNUMX :: u32 where [typetag]: "KTAP_TNUMX = NOT 18"

lemma tags_distinct [simp]:
  "KTAP_TNIL \<noteq> KTAP_TFALSE" "KTAP_TNIL \<noteq> KTAP_TTRUE" "KTAP_TNIL \<noteq> KTAP_TNUM" "KTAP_TNIL \<noteq> KTAP_TLIGHTUD" "KTAP_TNIL \<noteq> KTAP_TSTR" "KTAP_TNIL \<noteq> KTAP_TPROTO" "KTAP_TNIL \<noteq> KTAP_TFUNC" "KTAP_TNIL \<noteq> KTAP_TCFUNC" "KTAP_TNIL \<noteq> KTAP_TTAB" "KTAP_TNIL \<noteq> KTAP_TEVENTSTR" "KTAP_TNIL \<noteq> KTAP_TKSTACK" "KTAP_TNIL \<noteq> KTAP_TKIP"
  "KTAP_TFALSE \<noteq> KTAP_TNIL" "KTAP_TFALSE \<noteq> KTAP_TTRUE" "KTAP_TFALSE \<noteq> KTAP_TNUM" "KTAP_TFALSE \<noteq> KTAP_TLIGHTUD" "KTAP_TFALSE \<noteq> KTAP_TSTR" "KTAP_TFALSE \<noteq> KTAP_TPROTO" "KTAP_TFALSE \<noteq> KTAP_TFUNC" "KTAP_TFALSE \<noteq> KTAP_TCFUNC" "KTAP_TFALSE \<noteq> KTAP_TTAB" "KTAP_TFALSE \<noteq> KTAP_TEVENTSTR" "KTAP_TFALSE \<noteq> KTAP_TKSTACK" "KTAP_TFALSE \<noteq> KTAP_TKIP"
  "KTAP_TTRUE \<noteq> KTAP_TNIL" "KTAP_TTRUE \<noteq> KTAP_TFALSE" "KTAP_TTRUE \<noteq> KTAP_TNUM" "KTAP_TTRUE \<noteq> KTAP_TLIGHTUD" "KTAP_TTRUE \<noteq> KTAP_TSTR" "KTAP_TTRUE \<noteq> KTAP_TPROTO" "KTAP_TTRUE \<noteq> KTAP_TFUNC" "KTAP_TTRUE \<noteq> KTAP_TCFUNC" "KTAP_TTRUE \<noteq> KTAP_TTAB" "KTAP_TTRUE \<noteq> KTAP_TEVENTSTR" "KTAP_TTRUE \<noteq> KTAP_TKSTACK" "KTAP_TTRUE \<noteq> KTAP_TKIP"
  "KTAP_TNUM \<noteq> KTAP_TNIL" "KTAP_TNUM \<noteq> KTAP_TFALSE" "KTAP_TNUM \<noteq> KTAP_TTRUE" "KTAP_TNUM \<noteq> KTAP_TLIGHTUD" "KTAP_TNUM \<noteq> KTAP_TSTR" "KTAP_TNUM \<noteq> KTAP_TPROTO" "KTAP_TNUM \<noteq> KTAP_TFUNC" "KTAP_TNUM \<noteq> KTAP_TCFUNC" "KTAP_TNUM \<noteq> KTAP_TTAB" "KTAP_TNUM \<noteq> KTAP_TEVENTSTR" "KTAP_TNUM \<noteq> KTAP_TKSTACK" "KTAP_TNUM \<noteq> KTAP_TKIP"
  "KTAP_TLIGHTUD \<noteq> KTAP_TNIL" "KTAP_TLIGHTUD \<noteq> KTAP_TFALSE" "KTAP_TLIGHTUD \<noteq> KTAP_TTRUE" "KTAP_TLIGHTUD \<noteq> KTAP_TNUM" "KTAP_TLIGHTUD \<noteq> KTAP_TSTR" "KTAP_TLIGHTUD \<noteq> KTAP_TPROTO" "KTAP_TLIGHTUD \<noteq> KTAP_TFUNC" "KTAP_TLIGHTUD \<noteq> KTAP_TCFUNC" "KTAP_TLIGHTUD \<noteq> KTAP_TTAB" "KTAP_TLIGHTUD \<noteq> KTAP_TEVENTSTR" "KTAP_TLIGHTUD \<noteq> KTAP_TKSTACK" "KTAP_TLIGHTUD \<noteq> KTAP_TKIP"
  "KTAP_TSTR \<noteq> KTAP_TNIL" "KTAP_TSTR \<noteq> KTAP_TFALSE" "KTAP_TSTR \<noteq> KTAP_TTRUE" "KTAP_TSTR \<noteq> KTAP_TNUM" "KTAP_TSTR \<noteq> KTAP_TLIGHTUD" "KTAP_TSTR \<noteq> KTAP_TPROTO" "KTAP_TSTR \<noteq> KTAP_TFUNC" "KTAP_TSTR \<noteq> KTAP_TCFUNC" "KTAP_TSTR \<noteq> KTAP_TTAB" "KTAP_TSTR \<noteq> KTAP_TEVENTSTR" "KTAP_TSTR \<noteq> KTAP_TKSTACK" "KTAP_TSTR \<noteq> KTAP_TKIP"
  "KTAP_TPROTO \<noteq> KTAP_TNIL" "KTAP_TPROTO \<noteq> KTAP_TFALSE" "KTAP_TPROTO \<noteq> KTAP_TTRUE" "KTAP_TPROTO \<noteq> KTAP_TNUM" "KTAP_TPROTO \<noteq> KTAP_TLIGHTUD" "KTAP_TPROTO \<noteq> KTAP_TSTR" "KTAP_TPROTO \<noteq> KTAP_TFUNC" "KTAP_TPROTO \<noteq> KTAP_TCFUNC" "KTAP_TPROTO \<noteq> KTAP_TTAB" "KTAP_TPROTO \<noteq> KTAP_TEVENTSTR" "KTAP_TPROTO \<noteq> KTAP_TKSTACK" "KTAP_TPROTO \<noteq> KTAP_TKIP"
  "KTAP_TFUNC \<noteq> KTAP_TNIL" "KTAP_TFUNC \<noteq> KTAP_TFALSE" "KTAP_TFUNC \<noteq> KTAP_TTRUE" "KTAP_TFUNC \<noteq> KTAP_TNUM" "KTAP_TFUNC \<noteq> KTAP_TLIGHTUD" "KTAP_TFUNC \<noteq> KTAP_TSTR" "KTAP_TFUNC \<noteq> KTAP_TPROTO" "KTAP_TFUNC \<noteq> KTAP_TCFUNC" "KTAP_TFUNC \<noteq> KTAP_TTAB" "KTAP_TFUNC \<noteq> KTAP_TEVENTSTR" "KTAP_TFUNC \<noteq> KTAP_TKSTACK" "KTAP_TFUNC \<noteq> KTAP_TKIP"
  "KTAP_TCFUNC \<noteq> KTAP_TNIL" "KTAP_TCFUNC \<noteq> KTAP_TFALSE" "KTAP_TCFUNC \<noteq> KTAP_TTRUE" "KTAP_TCFUNC \<noteq> KTAP_TNUM" "KTAP_TCFUNC \<noteq> KTAP_TLIGHTUD" "KTAP_TCFUNC \<noteq> KTAP_TSTR" "KTAP_TCFUNC \<noteq> KTAP_TPROTO" "KTAP_TCFUNC \<noteq> KTAP_TFUNC" "KTAP_TCFUNC \<noteq> KTAP_TTAB" "KTAP_TCFUNC \<noteq> KTAP_TEVENTSTR" "KTAP_TCFUNC \<noteq> KTAP_TKSTACK" "KTAP_TCFUNC \<noteq> KTAP_TKIP"
  "KTAP_TTAB \<noteq> KTAP_TNIL" "KTAP_TTAB \<noteq> KTAP_TFALSE" "KTAP_TTAB \<noteq> KTAP_TTRUE" "KTAP_TTAB \<noteq> KTAP_TNUM" "KTAP_TTAB \<noteq> KTAP_TLIGHTUD" "KTAP_TTAB \<noteq> KTAP_TSTR" "KTAP_TTAB \<noteq> KTAP_TPROTO" "KTAP_TTAB \<noteq> KTAP_TFUNC" "KTAP_TTAB \<noteq> KTAP_TCFUNC" "KTAP_TTAB \<noteq> KTAP_TEVENTSTR" "KTAP_TTAB \<noteq> KTAP_TKSTACK" "KTAP_TTAB \<noteq> KTAP_TKIP"
  "KTAP_TEVENTSTR \<noteq> KTAP_TNIL" "KTAP_TEVENTSTR \<noteq> KTAP_TFALSE" "KTAP_TEVENTSTR \<noteq> KTAP_TTRUE" "KTAP_TEVENTSTR \<noteq> KTAP_TNUM" "KTAP_TEVENTSTR \<noteq> KTAP_TLIGHTUD" "KTAP_TEVENTSTR \<noteq> KTAP_TSTR" "KTAP_TEVENTSTR \<noteq> KTAP_TPROTO" "KTAP_TEVENTSTR \<noteq> KTAP_TFUNC" "KTAP_TEVENTSTR \<noteq> KTAP_TCFUNC" "KTAP_TEVENTSTR \<noteq> KTAP_TTAB" "KTAP_TEVENTSTR \<noteq> KTAP_TKSTACK" "KTAP_TEVENTSTR \<noteq> KTAP_TKIP"
  "KTAP_TKSTACK \<noteq> KTAP_TNIL" "KTAP_TKSTACK \<noteq> KTAP_TFALSE" "KTAP_TKSTACK \<noteq> KTAP_TTRUE" "KTAP_TKSTACK \<noteq> KTAP_TNUM" "KTAP_TKSTACK \<noteq> KTAP_TLIGHTUD" "KTAP_TKSTACK \<noteq> KTAP_TSTR" "KTAP_TKSTACK \<noteq> KTAP_TPROTO" "KTAP_TKSTACK \<noteq> KTAP_TFUNC" "KTAP_TKSTACK \<noteq> KTAP_TCFUNC" "KTAP_TKSTACK \<noteq> KTAP_TTAB" "KTAP_TKSTACK \<noteq> KTAP_TEVENTSTR" "KTAP_TKSTACK \<noteq> KTAP_TKIP"
  "KTAP_TKIP \<noteq> KTAP_TNIL" "KTAP_TKIP \<noteq> KTAP_TFALSE" "KTAP_TKIP \<noteq> KTAP_TTRUE" "KTAP_TKIP \<noteq> KTAP_TNUM" "KTAP_TKIP \<noteq> KTAP_TLIGHTUD" "KTAP_TKIP \<noteq> KTAP_TSTR" "KTAP_TKIP \<noteq> KTAP_TPROTO" "KTAP_TKIP \<noteq> KTAP_TFUNC" "KTAP_TKIP \<noteq> KTAP_TCFUNC" "KTAP_TKIP \<noteq> KTAP_TTAB" "KTAP_TKIP \<noteq> KTAP_TEVENTSTR" "KTAP_TKIP \<noteq> KTAP_TKSTACK"
  by (simp_all add: typetag)

record ktap_val =
  itype :: u32
  vbits :: u64

definition is_nil :: "ktap_val \<Rightarrow> bool" where "is_nil v \<longleftrightarrow> itype v = KTAP_TNIL"
definition is_false :: "ktap_val \<Rightarrow> bool" where "is_false v \<longleftrightarrow> itype v = KTAP_TFALSE"
definition is_true :: "ktap_val \<Rightarrow> bool" where "is_true v \<longleftrightarrow> itype v = KTAP_TTRUE"
definition is_bool :: "ktap_val \<Rightarrow> bool" where "is_bool v \<longleftrightarrow> is_false v \<or> is_true v"
definition is_string :: "ktap_val \<Rightarrow> bool" where "is_string v \<longleftrightarrow> itype v = KTAP_TSTR"
definition is_number :: "ktap_val \<Rightarrow> bool" where "is_number v \<longleftrightarrow> itype v = KTAP_TNUM"
definition is_table :: "ktap_val \<Rightarrow> bool" where "is_table v \<longleftrightarrow> itype v = KTAP_TTAB"
definition is_proto :: "ktap_val \<Rightarrow> bool" where "is_proto v \<longleftrightarrow> itype v = KTAP_TPROTO"
definition is_function :: "ktap_val \<Rightarrow> bool" where "is_function v \<longleftrightarrow> itype v = KTAP_TFUNC"
definition is_cfunc :: "ktap_val \<Rightarrow> bool" where "is_cfunc v \<longleftrightarrow> itype v = KTAP_TCFUNC"
definition is_eventstr :: "ktap_val \<Rightarrow> bool" where "is_eventstr v \<longleftrightarrow> itype v = KTAP_TEVENTSTR"
definition is_kip :: "ktap_val \<Rightarrow> bool" where "is_kip v \<longleftrightarrow> itype v = KTAP_TKIP"

lemmas is_type_defs = is_nil_def is_false_def is_true_def is_bool_def is_string_def is_number_def
  is_table_def is_proto_def is_function_def is_cfunc_def is_eventstr_def is_kip_def

definition boolvalue :: "ktap_val \<Rightarrow> u32" where "boolvalue v = KTAP_TFALSE - itype v"

definition set_nil :: "ktap_val \<Rightarrow> ktap_val" where "set_nil v = v\<lparr>itype := KTAP_TNIL\<rparr>"
definition set_bool :: "ktap_val \<Rightarrow> u32 \<Rightarrow> ktap_val" where
  "set_bool v x = v\<lparr>itype := KTAP_TFALSE - x\<rparr>"

text \<open>The setters that write both fields are constructors of a fresh value.\<close>

definition set_number :: "u64 \<Rightarrow> ktap_val" where
  "set_number n = \<lparr>itype = KTAP_TNUM, vbits = n\<rparr>"
definition set_string :: "addr \<Rightarrow> ktap_val" where
  "set_string s = \<lparr>itype = KTAP_TSTR, vbits = s\<rparr>"
definition set_table :: "addr \<Rightarrow> ktap_val" where
  "set_table t = \<lparr>itype = KTAP_TTAB, vbits = t\<rparr>"
definition set_proto :: "addr \<Rightarrow> ktap_val" where
  "set_proto p = \<lparr>itype = KTAP_TPROTO, vbits = p\<rparr>"
definition set_func :: "addr \<Rightarrow> ktap_val" where
  "set_func f = \<lparr>itype = KTAP_TFUNC, vbits = f\<rparr>"
definition set_cfunc :: "addr \<Rightarrow> ktap_val" where
  "set_cfunc f = \<lparr>itype = KTAP_TCFUNC, vbits = f\<rparr>"
definition set_ip :: "u64 \<Rightarrow> ktap_val" where
  "set_ip a = \<lparr>itype = KTAP_TKIP, vbits = a\<rparr>"

text \<open>
  \<^verbatim>\<open>set_kstack\<close> writes the two half words at the bottom of the union and leaves the rest.
\<close>

definition set_kstack :: "ktap_val \<Rightarrow> u16 \<Rightarrow> u16 \<Rightarrow> ktap_val" where
  "set_kstack v depth skip =
     \<lparr>itype = KTAP_TKSTACK,
      vbits = (vbits v AND NOT (mask 32)) OR ucast depth OR push_bit 16 (ucast skip)\<rparr>"

definition stack_depth :: "ktap_val \<Rightarrow> u16" where "stack_depth v = ucast (vbits v)"
definition stack_skip :: "ktap_val \<Rightarrow> u16" where "stack_skip v = ucast (drop_bit 16 (vbits v))"

definition set_eventstr :: "ktap_val \<Rightarrow> ktap_val" where
  "set_eventstr v = v\<lparr>itype := KTAP_TEVENTSTR\<rparr>"

abbreviation nvalue :: "ktap_val \<Rightarrow> u64" where "nvalue v \<equiv> vbits v"
abbreviation rawtsvalue :: "ktap_val \<Rightarrow> addr" where "rawtsvalue v \<equiv> vbits v"

definition kp_niltv :: ktap_val where "kp_niltv = \<lparr>itype = KTAP_TNIL, vbits = 0\<rparr>"


section \<open>Equality of values\<close>

text \<open>
  \<^verbatim>\<open>kp_obj_rawequal\<close> compares two values of the same tag.  For light user data the macro
  \<^verbatim>\<open>pvalue(o)\<close> is \<^verbatim>\<open>(&val_(o).p)\<close>, the address of the slot and not the pointer in it, so the
  comparison asks whether the two operands are the same slot: \<open>same\<close>.
\<close>

definition kp_obj_rawequal :: "bool \<Rightarrow> ktap_val \<Rightarrow> ktap_val \<Rightarrow> bool" where
  "kp_obj_rawequal same t1 t2 =
     (let ty = itype t1 in
      if ty = KTAP_TNIL \<or> ty = KTAP_TTRUE \<or> ty = KTAP_TFALSE then True
      else if ty = KTAP_TNUM then nvalue t1 = nvalue t2
      else if ty = KTAP_TLIGHTUD then same
      else if ty = KTAP_TFUNC then vbits t1 = vbits t2
      else if ty = KTAP_TSTR then rawtsvalue t1 = rawtsvalue t2
      else if ty = KTAP_TTAB then vbits t1 = vbits t2
      else vbits t1 = vbits t2)"

definition kp_obj_equal :: "bool \<Rightarrow> ktap_val \<Rightarrow> ktap_val \<Rightarrow> bool" where
  "kp_obj_equal same t1 t2 \<longleftrightarrow> itype t1 = itype t2 \<and> kp_obj_rawequal same t1 t2"

text \<open>
  What a value is as a key or under comparison: the tag, and the bits unless the tag alone
  determines the value.
\<close>

definition val_key :: "ktap_val \<Rightarrow> u32 \<times> u64" where
  "val_key v = (itype v, if is_nil v \<or> is_bool v then 0 else vbits v)"

lemma kp_obj_equal_iff:
  assumes "itype t1 \<noteq> KTAP_TLIGHTUD"
  shows "kp_obj_equal same t1 t2 \<longleftrightarrow> val_key t1 = val_key t2"
  using assms by (auto simp: kp_obj_equal_def kp_obj_rawequal_def val_key_def Let_def is_type_defs)

lemma kp_obj_equal_lightud:
  assumes "itype t1 = KTAP_TLIGHTUD"
  shows "kp_obj_equal same t1 t2 \<longleftrightarrow> itype t2 = KTAP_TLIGHTUD \<and> same"
  using assms by (auto simp: kp_obj_equal_def kp_obj_rawequal_def Let_def typetag)

lemma type_of_setters [simp]:
  "itype (set_number n) = KTAP_TNUM" "itype (set_string s) = KTAP_TSTR" "itype (set_table t) = KTAP_TTAB"
  "itype (set_func f) = KTAP_TFUNC" "itype (set_cfunc f) = KTAP_TCFUNC" "itype (set_proto p) = KTAP_TPROTO"
  "itype (set_nil v) = KTAP_TNIL" "itype kp_niltv = KTAP_TNIL" "itype (set_ip n) = KTAP_TKIP"
  "itype (set_kstack v d k) = KTAP_TKSTACK" "itype (set_eventstr v) = KTAP_TEVENTSTR"
  by (simp_all add: set_number_def set_string_def set_table_def set_func_def set_cfunc_def
      set_proto_def set_nil_def kp_niltv_def set_ip_def set_kstack_def set_eventstr_def)

lemma bits_of_setters [simp]:
  "vbits (set_number n) = n" "vbits (set_string s) = s" "vbits (set_table t) = t"
  "vbits (set_func f) = f" "vbits (set_cfunc f) = f" "vbits (set_proto p) = p" "vbits (set_ip n) = n"
  "vbits (set_nil v) = vbits v" "vbits kp_niltv = 0"
  by (simp_all add: set_number_def set_string_def set_table_def set_func_def set_cfunc_def
      set_proto_def set_nil_def kp_niltv_def set_ip_def)

lemma is_nil_setters [simp]:
  "is_nil (set_nil v)" "is_nil kp_niltv" "\<not> is_nil (set_number n)" "\<not> is_nil (set_string s)"
  "\<not> is_nil (set_table t)" "\<not> is_nil (set_func f)" "\<not> is_nil (set_cfunc f)"
  by (simp_all add: is_type_defs typetag)

end
