(* ===== verification/Ktap_Mempool.thy ===== *)
theory Ktap_Mempool
  imports Ktap_Values
begin

text \<open>
  The global state shared by the runtime components (\<^verbatim>\<open>ktap_global_state_t\<close> of
  \<^verbatim>\<open>include/ktap_types.h\<close>, restricted to the fields the modelled components use), the error path
  \<^verbatim>\<open>kp_error\<close> of \<^verbatim>\<open>runtime/ktap.h\<close>, and the string memory pool of \<^verbatim>\<open>runtime/kp_mempool.c\<close>.
\<close>

section \<open>Global state\<close>

text \<open>
  A string object: header and characters.  The characters are followed in memory by a zero byte.
  \<open>strobjs\<close> is the memory that holds the string objects, by address; address 0 is \<^verbatim>\<open>NULL\<close>.
\<close>

record ktap_str =
  s_nextgc :: addr
  s_reserved :: u8
  s_hash :: u32
  s_len :: nat
  s_chars :: "u8 list"

datatype ktap_status = KTAP_RUNNING | KTAP_TRACE_END | KTAP_EXIT | KTAP_ERROR

record ktap_global =
  mempool :: addr
  mp_freepos :: addr
  mp_size :: u32
  strhash :: "addr list"
  strmask :: u32
  strnum :: nat
  strobjs :: "addr \<Rightarrow> ktap_str option"
  gstatus :: ktap_status
  mainstop :: bool
  glog :: "string list"

text \<open>
  \<^verbatim>\<open>kp_printf\<close> is observed as a log of messages.  \<^verbatim>\<open>kp_error\<close> prints, asks the main thread to
  stop (\<^verbatim>\<open>kp_vm_try_to_exit\<close> sets the state to \<^verbatim>\<open>KTAP_EXIT\<close>) and then sets \<^verbatim>\<open>KTAP_ERROR\<close>.
\<close>

definition kp_printf :: "string \<Rightarrow> ktap_global \<Rightarrow> ktap_global" where
  "kp_printf msg g = g\<lparr>glog := glog g @ [msg]\<rparr>"

definition kp_vm_try_to_exit :: "ktap_global \<Rightarrow> ktap_global" where
  "kp_vm_try_to_exit g = g\<lparr>mainstop := True, gstatus := KTAP_EXIT\<rparr>"

definition kp_error :: "string \<Rightarrow> ktap_global \<Rightarrow> ktap_global" where
  "kp_error msg g = (kp_vm_try_to_exit (kp_printf (''error: '' @ msg) g))\<lparr>gstatus := KTAP_ERROR\<rparr>"

lemma kp_error_frame [simp]:
  "mempool (kp_error m g) = mempool g" "mp_freepos (kp_error m g) = mp_freepos g"
  "mp_size (kp_error m g) = mp_size g" "strhash (kp_error m g) = strhash g"
  "strmask (kp_error m g) = strmask g" "strnum (kp_error m g) = strnum g"
  "strobjs (kp_error m g) = strobjs g" "gstatus (kp_error m g) = KTAP_ERROR" "mainstop (kp_error m g)"
  by (simp_all add: kp_error_def kp_vm_try_to_exit_def kp_printf_def)

definition ENOMEM :: int where "ENOMEM = 12"


section \<open>The memory pool\<close>

text \<open>
  The kernel's \<^verbatim>\<open>unlikely(x)\<close> is \<^verbatim>\<open>__builtin_expect(!!(x), 0)\<close>: its value is 0 or 1.  The bound check
  of \<^verbatim>\<open>kp_mempool_alloc\<close> closes the macro's parenthesis before the comparison, so it compares that
  truth value, not the end of the allocation, with the end of the pool.
\<close>

definition unlikely :: "u64 \<Rightarrow> u64" where "unlikely x = (if x \<noteq> 0 then 1 else 0)"

definition kp_mempool_alloc :: "ktap_global \<Rightarrow> u32 \<Rightarrow> addr \<times> ktap_global" where
  "kp_mempool_alloc g sz =
     (let freepos = mp_freepos g in
      if unlikely (freepos + scast sz) > mempool g + scast (mp_size g) then (0, g)
      else (freepos, g\<lparr>mp_freepos := freepos + scast sz\<rparr>))"

definition kp_mempool_destroy :: "ktap_global \<Rightarrow> ktap_global" where
  "kp_mempool_destroy g =
     (if mempool g = 0 then g else g\<lparr>mempool := 0, mp_freepos := 0, mp_size := 0\<rparr>)"

text \<open>\<open>vm\<close> is what \<^verbatim>\<open>vmalloc\<close> returned, 0 on failure.\<close>

definition kp_mempool_init :: "addr \<Rightarrow> ktap_global \<Rightarrow> u32 \<Rightarrow> int \<times> ktap_global" where
  "kp_mempool_init vm g sz =
     (let g1 = g\<lparr>mempool := vm\<rparr> in
      if vm = 0 then (- ENOMEM, g1)
      else (0, g1\<lparr>mp_freepos := vm, mp_size := sz * 1024\<rparr>))"

lemma unlikely_le_1: "unlikely x \<le> 1"
  by (simp add: unlikely_def)

lemma kp_mempool_alloc_succeeds:
  assumes "mempool g + scast (mp_size g) \<noteq> 0"
  shows "kp_mempool_alloc g sz =
     (mp_freepos g, g\<lparr>mp_freepos := mp_freepos g + scast sz\<rparr>)"
proof -
  have "1 \<le> mempool g + scast (mp_size g)"
    using assms by (metis word_less_1 linorder_not_less)
  with unlikely_le_1 have "\<not> unlikely (mp_freepos g + scast sz) > mempool g + scast (mp_size g)"
    by (meson leD order_trans)
  then show ?thesis by (simp add: kp_mempool_alloc_def Let_def)
qed

text \<open>
  successive allocations from the pool are adjacent and do not overlap, and the block returned
  starts at the old free position, as long as the addresses do not wrap around.
\<close>

theorem mempool_bump:
  assumes "mempool g + scast (mp_size g) \<noteq> 0" and "m < 2 ^ 31" and "n < 2 ^ 31"
    and "unat (mp_freepos g) + m + n < 2 ^ 64"
    and "kp_mempool_alloc g (of_nat m) = (p, g1)" and "kp_mempool_alloc g1 (of_nat n) = (q, g2)"
  shows "p = mp_freepos g \<and> unat q = unat p + m \<and> unat (mp_freepos g2) = unat q + n \<and>
         mempool g2 = mempool g \<and> mp_size g2 = mp_size g"
proof -
  have g1: "p = mp_freepos g" "g1 = g\<lparr>mp_freepos := mp_freepos g + of_nat m\<rparr>"
    using assms(1,2,5) by (auto simp: kp_mempool_alloc_succeeds scast_small_nat)
  moreover have "q = mp_freepos g1" "g2 = g1\<lparr>mp_freepos := mp_freepos g1 + of_nat n\<rparr>"
    using assms(1,3,6) g1 by (auto simp: kp_mempool_alloc_succeeds scast_small_nat)
  moreover have "unat (mp_freepos g + of_nat m) = unat (mp_freepos g) + m"
    using assms(4) by (intro unat_add_of_nat) simp
  moreover from this have "unat (mp_freepos g + of_nat m + of_nat n) = unat (mp_freepos g) + m + n"
    using assms(4) by (subst unat_add_of_nat) simp_all
  ultimately show ?thesis by simp
qed

definition pool_example :: ktap_global where
  "pool_example = \<lparr>mempool = 0x1000, mp_freepos = 0x1000, mp_size = 1024, strhash = [], strmask = 0,
     strnum = 0, strobjs = (\<lambda>_. None), gstatus = KTAP_RUNNING, mainstop = False, glog = []\<rparr>"

theorem mempool_bump_witness:
  "fst (kp_mempool_alloc pool_example (of_nat 40)) = 0x1000 \<and>
   unat (fst (kp_mempool_alloc (snd (kp_mempool_alloc pool_example (of_nat 40))) (of_nat 30))) = 0x1000 + 40"
  using mempool_bump [of pool_example 40 30 _ _ _ _, OF _ _ _ _ prod.collapse [symmetric] prod.collapse [symmetric]]
  by (simp add: pool_example_def)

text \<open>
  The bound check of the pool is ineffective.  A freshly initialised pool of \<open>k\<close> kilobytes
  hands out a block of any size, even one that ends beyond the pool: the allocation is never
  refused and the free position moves past the end of the pool.
\<close>

theorem mempool_alloc_overruns:
  assumes "vm \<noteq> 0" and "k * 1024 < 2 ^ 31" and "unat vm + k * 1024 < 2 ^ 64"
    and "n < 2 ^ 31" and "k * 1024 < n" and "unat vm + n < 2 ^ 64"
    and "kp_mempool_init vm g (of_nat k) = (0, g1)" and "kp_mempool_alloc g1 (of_nat n) = (p, g2)"
  shows "p = vm \<and> unat (mp_freepos g2) > unat (mempool g2) + unat (mp_size g2)"
proof -
  have g1: "g1 = g\<lparr>mempool := vm, mp_freepos := vm, mp_size := of_nat (k * 1024)\<rparr>"
    using assms(1,7) by (simp add: kp_mempool_init_def Let_def)
  have "unat (vm + of_nat (k * 1024)) = unat vm + k * 1024"
    using assms(3) by (intro unat_add_of_nat) simp
  then have "vm + of_nat (k * 1024) \<noteq> 0"
    using assms(1) by (metis add_is_0 unat_0 unat_eq_zero)
  then have "mempool g1 + scast (mp_size g1) \<noteq> 0"
    using scast_small_nat [OF assms(2)] unfolding g1 by (simp del: of_nat_mult)
  then have "p = vm" "g2 = g1\<lparr>mp_freepos := vm + of_nat n\<rparr>"
    using assms(4,8) by (auto simp: kp_mempool_alloc_succeeds scast_small_nat g1)
  moreover have "unat (vm + of_nat n) = unat vm + n"
    using assms(6) by (intro unat_add_of_nat) simp
  moreover have "unat (of_nat (k * 1024) :: u32) = k * 1024"
    using assms(2) by (simp add: unsigned_of_nat take_bit_nat_eq_self del: of_nat_mult)
  ultimately show ?thesis using assms(5) unfolding g1 by (simp del: of_nat_mult)
qed

theorem mempool_alloc_overruns_witness:
  "fst (kp_mempool_alloc (snd (kp_mempool_init 0x1000 pool_example (of_nat 1))) (of_nat 2000)) = 0x1000 \<and>
   unat (mp_freepos (snd (kp_mempool_alloc (snd (kp_mempool_init 0x1000 pool_example (of_nat 1))) (of_nat 2000))))
   > 0x1000 + 1024"
  using mempool_alloc_overruns [where vm = "0x1000" and k = 1 and n = 2000 and g = pool_example
      and ?g1.0 = "snd (kp_mempool_init 0x1000 pool_example (of_nat 1))",
      OF _ _ _ _ _ _ _ prod.collapse [symmetric]]
  by (simp add: pool_example_def kp_mempool_init_def kp_mempool_alloc_def unlikely_def Let_def)

end
