(* ===== verification/Ktap_Str.thy ===== *)
theory Ktap_Str
  imports Ktap_Mempool
begin

text \<open>
  String objects of the runtime (\<^verbatim>\<open>runtime/kp_str.c\<close>): comparison, hashing and interning.  Every
  string the virtual machine handles is interned, so that equality of strings is equality of
  pointers; the theorems below establish exactly that for non-empty strings.
\<close>

section \<open>Comparison\<close>

text \<open>
  The C library's \<^verbatim>\<open>strcmp\<close> and \<^verbatim>\<open>strlen\<close> on the characters from some position on; the end of the
  list is the terminating zero byte.
\<close>

definition c_char :: "u8 list \<Rightarrow> u8" where
  "c_char s = (case s of [] \<Rightarrow> 0 | c # _ \<Rightarrow> c)"

function c_strcmp :: "u8 list \<Rightarrow> u8 list \<Rightarrow> int" where
  "c_strcmp cs ct =
     (if c_char cs \<noteq> c_char ct then (if c_char cs < c_char ct then -1 else 1)
      else if c_char cs = 0 then 0
      else c_strcmp (tl cs) (tl ct))"
  by pat_completeness auto
termination
  by (relation "measure (\<lambda>(cs, ct). length cs)") (auto simp: c_char_def split: list.splits)

declare c_strcmp.simps [simp del]

definition c_strlen :: "u8 list \<Rightarrow> nat" where
  "c_strlen s = length (takeWhile (\<lambda>c. c \<noteq> 0) s)"

text \<open>\<^verbatim>\<open>kp_str_cmp\<close>: \<open>l\<close> and \<open>r\<close> are the remaining characters, their lengths are \<^verbatim>\<open>ll\<close> and \<^verbatim>\<open>lr\<close>.\<close>

function kp_str_cmp :: "u8 list \<Rightarrow> u8 list \<Rightarrow> int" where
  "kp_str_cmp l r =
     (let temp = c_strcmp l r in
      if temp \<noteq> 0 then temp
      else let len = c_strlen l in
        if len = length r then (if len = length l then 0 else 1)
        else if len = length l then -1
        else kp_str_cmp (drop (len + 1) l) (drop (len + 1) r))"
  by pat_completeness auto
termination
proof (relation "measure (\<lambda>(l, r). length l)")
  fix l r :: "u8 list" and temp len
  assume "len = c_strlen l" and "len \<noteq> length l"
  then have "length l \<noteq> 0" by (auto simp: c_strlen_def)
  then show "((drop (len + 1) l, drop (len + 1) r), l, r) \<in> measure (\<lambda>(l, r). length l)"
    by simp
qed auto

declare kp_str_cmp.simps [simp del]

text \<open>The order \<^verbatim>\<open>kp_str_cmp\<close> is meant to decide: lexicographic on unsigned bytes.\<close>

fun byte_lex :: "u8 list \<Rightarrow> u8 list \<Rightarrow> int" where
  "byte_lex [] [] = 0"
| "byte_lex [] (_ # _) = -1"
| "byte_lex (_ # _) [] = 1"
| "byte_lex (x # xs) (y # ys) = (if x < y then -1 else if x = y then byte_lex xs ys else 1)"

text \<open>
  \<^verbatim>\<open>str_fastcmp\<close> compares four bytes at a time and may look at up to three bytes past the end, so
  its arguments are views of memory from a position on.  A shift by the full width is undefined in
  C: the fault value \<open>None\<close>.
\<close>

definition read_u32 :: "(nat \<Rightarrow> u8) \<Rightarrow> nat \<Rightarrow> u32" where
  "read_u32 m i = ucast (m i) OR push_bit 8 (ucast (m (i + 1))) OR
     push_bit 16 (ucast (m (i + 2))) OR push_bit 24 (ucast (m (i + 3)))"

function str_fastcmp_from :: "(nat \<Rightarrow> u8) \<Rightarrow> (nat \<Rightarrow> u8) \<Rightarrow> nat \<Rightarrow> nat \<Rightarrow> u32 option" where
  "str_fastcmp_from a b len i =
     (let v = read_u32 a i XOR read_u32 b i in
      if v \<noteq> 0 then
        (let d = int i - int len in
         if d \<ge> - 3 then
           (if 32 + d * 8 < 32 then Some (push_bit (nat (32 + d * 8)) v) else None)
         else Some 1)
      else if i + 4 < len then str_fastcmp_from a b len (i + 4)
      else Some 0)"
  by pat_completeness auto
termination
  by (relation "measure (\<lambda>(a, b, len, i). len - i)") auto

declare str_fastcmp_from.simps [simp del]

definition str_fastcmp :: "(nat \<Rightarrow> u8) \<Rightarrow> (nat \<Rightarrow> u8) \<Rightarrow> nat \<Rightarrow> u32 option" where
  "str_fastcmp a b len = str_fastcmp_from a b len 0"


section \<open>Hashing and interning\<close>

abbreviation (input) STRING_HASHLIMIT :: nat where "STRING_HASHLIMIT \<equiv> 5"
abbreviation (input) KP_MAX_STR :: nat where "KP_MAX_STR \<equiv> 512"
abbreviation (input) KP_MAX_STRNUM :: nat where "KP_MAX_STRNUM \<equiv> 9999"

function str_hash_loop :: "u8 list \<Rightarrow> nat \<Rightarrow> nat \<Rightarrow> u32 \<Rightarrow> u32" where
  "str_hash_loop str step l1 h =
     (if l1 \<ge> step \<and> step > 0 then
        str_hash_loop str step (l1 - step)
          (h XOR (push_bit 5 h + drop_bit 2 h + ucast (str ! (l1 - 1))))
      else h)"
  by pat_completeness auto
termination
  by (relation "measure (\<lambda>(str, step, l1, h). l1)") auto

declare str_hash_loop.simps [simp del]

definition kp_str_hash :: "u8 list \<Rightarrow> u32" where
  "kp_str_hash str =
     (let len = length str in
      str_hash_loop str (drop_bit STRING_HASHLIMIT len + 1) len (201236 XOR of_nat len))"

text \<open>
  The argument of \<^verbatim>\<open>kp_str_new\<close>: the \<open>len\<close> characters at the pointer, the bytes that happen to
  follow them in memory and those that follow the terminator of an interned object, which only
  \<^verbatim>\<open>str_fastcmp\<close> can see, and whether the end of the string is too close to a page boundary for
  the fast comparison.
\<close>

record str_arg =
  sa_bytes :: "u8 list"
  sa_after :: "nat \<Rightarrow> u8"
  sa_objafter :: "addr \<Rightarrow> nat \<Rightarrow> u8"
  sa_slow :: bool

definition mem_view :: "u8 list \<Rightarrow> (nat \<Rightarrow> u8) \<Rightarrow> nat \<Rightarrow> u8" where
  "mem_view bs after i = (if i < length bs then bs ! i else after (i - length bs))"

definition obj_view :: "str_arg \<Rightarrow> addr \<Rightarrow> ktap_str \<Rightarrow> nat \<Rightarrow> u8" where
  "obj_view sa p s = mem_view (s_chars s @ [0]) (sa_objafter sa p)"

text \<open>The comparison of one candidate of the chain, by the fast or the slow path.\<close>

definition str_match :: "str_arg \<Rightarrow> addr \<Rightarrow> ktap_str \<Rightarrow> bool option" where
  "str_match sa p s =
     (let len = length (sa_bytes sa) in
      if s_len s \<noteq> len then Some False
      else if sa_slow sa then Some (sa_bytes sa = take len (s_chars s))
      else map_option (\<lambda>r. r = 0)
             (str_fastcmp (mem_view (sa_bytes sa) (sa_after sa)) (obj_view sa p s) len))"

text \<open>
  The walk along the hash chain: \<open>None\<close> is a fault (a dangling link, an undefined shift) or a walk
  longer than the fuel; \<open>Some 0\<close> means not found.
\<close>

fun str_chain_find :: "ktap_global \<Rightarrow> str_arg \<Rightarrow> nat \<Rightarrow> addr \<Rightarrow> addr option" where
  "str_chain_find g sa 0 o' = None"
| "str_chain_find g sa (Suc n) o' =
     (if o' = 0 then Some 0
      else do {
        s \<leftarrow> strobjs g o';
        eq \<leftarrow> str_match sa o' s;
        if eq then Some o' else str_chain_find g sa n (s_nextgc s)
      })"

text \<open>\<^verbatim>\<open>sizeof(ktap_str_t)\<close> is 24 in the LP64 model.\<close>

abbreviation (input) sizeof_ktap_str :: nat where "sizeof_ktap_str \<equiv> 24"

definition kp_str_new :: "ktap_global \<Rightarrow> str_arg \<Rightarrow> (addr \<times> ktap_global) option" where
  "kp_str_new g sa =
     (let str = sa_bytes sa; len = length str; h = kp_str_hash str in
      if len \<ge> KP_MAX_STR then Some (0, g)
      else
        (let b = unat (h AND strmask g) in
         if b \<ge> length (strhash g) then None
         else do {
           found \<leftarrow> str_chain_find g sa (Suc (strnum g)) (strhash g ! b);
           if found \<noteq> 0 then Some (found, g)
           else
             (let (s, g1) = kp_mempool_alloc g (of_nat (sizeof_ktap_str + len + 1)) in
              if s = 0 then Some (0, g1)
              else
                (let o' = \<lparr>s_nextgc = strhash g1 ! b, s_reserved = 0, s_hash = h, s_len = len, s_chars = str\<rparr>;
                     g2 = g1\<lparr>strobjs := (strobjs g1)(s \<mapsto> o'), strhash := (strhash g1)[b := s],
                             strnum := strnum g1 + 1\<rparr>
                 in if strnum g1 > KP_MAX_STRNUM
                    then Some (0, kp_error ''exceed max string number 9999'' g2)
                    else Some (s, g2)))
         }))"

text \<open>\<open>zalloc_ok\<close>: whether \<^verbatim>\<open>kp_zalloc\<close> delivered the table.  The old table is not freed nor rehashed.\<close>

definition kp_str_resize :: "bool \<Rightarrow> ktap_global \<Rightarrow> u32 \<Rightarrow> int \<times> ktap_global" where
  "kp_str_resize zalloc_ok g newmask =
     (if \<not> zalloc_ok then (- ENOMEM, kp_error ''kzalloc failed'' g)
      else (0, g\<lparr>strmask := newmask, strhash := replicate (unat (newmask + 1)) 0\<rparr>))"

definition kp_str_freeall :: "ktap_global \<Rightarrow> ktap_global" where
  "kp_str_freeall g = g\<lparr>strhash := []\<rparr>"


section \<open>Correctness of the comparisons\<close>


lemma c_char_simps [simp]: "c_char [] = 0" "c_char (x # xs) = x"
  by (simp_all add: c_char_def)

lemma c_strcmp_step: "x \<noteq> 0 \<Longrightarrow> c_strcmp (x # xs) (x # ys) = c_strcmp xs ys"
  by (simp add: c_strcmp.simps [of "x # xs"])

lemma c_strcmp_stop:
  "\<not> (c_char l = c_char r \<and> c_char l \<noteq> 0) \<Longrightarrow>
   c_strcmp l r = (if c_char l = c_char r then 0 else if c_char l < c_char r then -1 else 1)"
  by (auto simp: c_strcmp.simps [of l r])

lemma c_strcmp_nonzero: "c_strcmp l r \<noteq> 0 \<Longrightarrow> c_strcmp l r = byte_lex l r"
proof (induction l r rule: c_strcmp.induct)
  case (1 l r)
  show ?case
  proof (cases "c_char l = c_char r \<and> c_char l \<noteq> 0")
    case True
    then obtain x xs ys where "l = x # xs" "r = x # ys" "x \<noteq> 0"
      by (cases l; cases r) auto
    then show ?thesis using 1 by (simp add: c_strcmp_step)
  next
    case False
    then show ?thesis using "1.prems"
      by (cases l; cases r) (auto simp: c_strcmp_stop word_neq_0_conv split: if_splits)
  qed
qed

lemma c_strcmp_zero:
  "c_strcmp l r = 0 \<Longrightarrow>
   c_strlen r = c_strlen l \<and> byte_lex l r = byte_lex (drop (c_strlen l) l) (drop (c_strlen l) r)"
proof (induction l r rule: c_strcmp.induct)
  case (1 l r)
  show ?case
  proof (cases "c_char l = c_char r \<and> c_char l \<noteq> 0")
    case True
    then obtain x xs ys where "l = x # xs" "r = x # ys" "x \<noteq> 0"
      by (cases l; cases r) auto
    then show ?thesis using 1 by (simp add: c_strcmp_step c_strlen_def)
  next
    case False
    then show ?thesis using "1.prems"
      by (cases l; cases r) (auto simp: c_strlen_def c_strcmp_stop split: if_splits)
  qed
qed

lemma drop_c_strlen: "drop (c_strlen l) l = [] \<or> (\<exists>t. drop (c_strlen l) l = 0 # t)"
  by (induction l) (auto simp: c_strlen_def)

lemma c_strlen_le: "c_strlen l \<le> length l"
  by (simp add: c_strlen_def length_takeWhile_le)

text \<open>
  C20: \<^verbatim>\<open>kp_str_cmp\<close>, which compares segment by segment between embedded zero bytes, decides the
  lexicographic order on unsigned bytes, whatever zero bytes the strings contain.
\<close>

theorem kp_str_cmp_lex: "kp_str_cmp l r = byte_lex l r"
proof (induction l r rule: kp_str_cmp.induct)
  case (1 l r)
  let ?n = "c_strlen l"
  show ?case
  proof (cases "c_strcmp l r = 0")
    case True
    note z = c_strcmp_zero [OF True]
    have le: "?n \<le> length l" "?n \<le> length r"
      using c_strlen_le [of l] c_strlen_le [of r] z by auto
    consider "?n = length r" | "?n = length l" "?n \<noteq> length r"
      | "?n \<noteq> length l" "?n \<noteq> length r" by blast
    then show ?thesis
    proof cases
      case 3
      with le have "drop ?n l \<noteq> []" "drop ?n r \<noteq> []" by auto
      then obtain t u where tu: "drop ?n l = 0 # t" "drop ?n r = 0 # u"
        using drop_c_strlen [of l] drop_c_strlen [of r] z by auto
      then have "drop (?n + 1) l = t" "drop (?n + 1) r = u"
        by (simp_all add: drop_Suc tl_drop [symmetric])
      then show ?thesis
        using 1 [OF refl _ refl] True 3 z tu by (simp add: kp_str_cmp.simps [of l r] Let_def)
    next
      case 1
      then show ?thesis using le z True
        by (cases "drop ?n l") (auto simp: kp_str_cmp.simps [of l r] Let_def)
    next
      case 2
      then show ?thesis using le z True
        by (cases "drop ?n r") (auto simp: kp_str_cmp.simps [of l r] Let_def)
    qed
  next
    case False
    with c_strcmp_nonzero [OF False] show ?thesis by (simp add: kp_str_cmp.simps [of l r] Let_def)
  qed
qed

lemma bit_read_u32:
  "bit (read_u32 m i) n \<longleftrightarrow> n < 32 \<and> bit (m (i + n div 8)) (n mod 8)"
proof -
  have top: "bit (x :: u8) k \<Longrightarrow> k < 8" for x k using bit_imp_le_length [of x k] by simp
  consider "n < 8" | "8 \<le> n" "n < 16" | "16 \<le> n" "n < 24" | "24 \<le> n" "n < 32" | "32 \<le> n"
    by linarith
  then show ?thesis
  proof cases
    case 1
    then show ?thesis by (auto simp: read_u32_def bit_simps)
  next
    case 2
    then have "n div 8 = 1" "n mod 8 = n - 8" by presburger+
    with 2 show ?thesis by (auto simp: read_u32_def bit_simps dest: top)
  next
    case 3
    then have "n div 8 = 2" "n mod 8 = n - 16" by presburger+
    with 3 show ?thesis by (auto simp: read_u32_def bit_simps dest: top)
  next
    case 4
    then have "n div 8 = 3" "n mod 8 = n - 24" by presburger+
    with 4 show ?thesis by (auto simp: read_u32_def bit_simps dest: top)
  next
    case 5
    then show ?thesis using bit_imp_le_length [of "read_u32 m i" n] by auto
  qed
qed

lemma byte_bits_eq: "(x :: u8) = y \<longleftrightarrow> (\<forall>n<8. bit x n = bit y n)"
  by (auto intro!: bit_word_eqI)

lemma read_u32_low_eq:
  assumes "k \<le> 4"
  shows "(\<forall>n<8 * k. bit (read_u32 a i) n = bit (read_u32 b i) n) \<longleftrightarrow> (\<forall>j<k. a (i + j) = b (i + j))"
proof
  assume L: "\<forall>n<8 * k. bit (read_u32 a i) n = bit (read_u32 b i) n"
  show "\<forall>j<k. a (i + j) = b (i + j)"
  proof (intro allI impI)
    fix j assume j: "j < k"
    show "a (i + j) = b (i + j)"
      unfolding byte_bits_eq
    proof (intro allI impI)
      fix n :: nat assume "n < 8"
      then have "8 * j + n < 8 * k" "(8 * j + n) div 8 = j" "(8 * j + n) mod 8 = n" using j by auto
      moreover from this(1) assms have "8 * j + n < 32" by linarith
      ultimately show "bit (a (i + j)) n = bit (b (i + j)) n"
        using L [rule_format, of "8 * j + n"] by (simp add: bit_read_u32)
    qed
  qed
next
  assume "\<forall>j<k. a (i + j) = b (i + j)"
  then show "\<forall>n<8 * k. bit (read_u32 a i) n = bit (read_u32 b i) n"
    by (auto simp: bit_read_u32)
qed

lemma read_u32_eq_iff: "read_u32 a i = read_u32 b i \<longleftrightarrow> (\<forall>j<4. a (i + j) = b (i + j))"
  using read_u32_low_eq [of 4 a i b] by (auto intro!: bit_word_eqI)

lemma xor_zero_iff: "(x :: u32) XOR y = 0 \<longleftrightarrow> x = y"
  by (auto simp: bit_eq_iff bit_simps)

lemma push_bit_zero_iff:
  fixes v :: u32
  assumes "m \<le> 32"
  shows "push_bit (32 - m) v = 0 \<longleftrightarrow> (\<forall>n<m. \<not> bit v n)"
proof
  assume z: "push_bit (32 - m) v = 0"
  show "\<forall>n<m. \<not> bit v n"
  proof (intro allI impI)
    fix n assume "n < m"
    with assms have "32 - m \<le> 32 - m + n" "32 - m + n < 32" by linarith+
    then have "bit (push_bit (32 - m) v) (32 - m + n) = bit v n"
      unfolding bit_push_bit_iff by simp
    then show "\<not> bit v n" using z by simp
  qed
next
  assume "\<forall>n<m. \<not> bit v n"
  then show "push_bit (32 - m) v = 0" by (intro bit_word_eqI) (auto simp: bit_simps)
qed

lemma all_offset: "(\<forall>j<k. P (i + j)) \<longleftrightarrow> (\<forall>j. i \<le> j \<and> j < i + k \<longrightarrow> P j)" for i k :: nat
proof
  assume H: "\<forall>j<k. P (i + j)"
  show "\<forall>j. i \<le> j \<and> j < i + k \<longrightarrow> P j"
  proof (intro allI impI)
    fix j assume "i \<le> j \<and> j < i + k"
    then have "j - i < k" "i + (j - i) = j" by auto
    with H show "P j" by metis
  qed
qed auto

lemma str_fastcmp_from_ok:
  "i < len \<Longrightarrow> \<exists>r. str_fastcmp_from a b len i = Some r \<and> (r = 0 \<longleftrightarrow> (\<forall>j. i \<le> j \<and> j < len \<longrightarrow> a j = b j))"
proof (induction a b len i rule: str_fastcmp_from.induct)
  case (1 a b len i)
  let ?v = "read_u32 a i XOR read_u32 b i"
  show ?case
  proof (cases "?v = 0")
    case True
    then have eq: "\<forall>j<4. a (i + j) = b (i + j)" by (simp only: xor_zero_iff read_u32_eq_iff)
    then have seg: "a j = b j" if "i \<le> j" "j < i + 4" for j
      using eq that unfolding all_offset [where P = "\<lambda>j. a j = b j"] by blast
    then have "(\<forall>j. i \<le> j \<and> j < len \<longrightarrow> a j = b j) \<longleftrightarrow> (\<forall>j. i + 4 \<le> j \<and> j < len \<longrightarrow> a j = b j)"
      by (meson add_leD1 not_le)
    then show ?thesis
      using 1 True by (cases "i + 4 < len") (auto simp: str_fastcmp_from.simps [of a b len i] Let_def seg)
  next
    case v: False
    show ?thesis
    proof (cases "int i - int len \<ge> -3")
      case True
      define k where "k = len - i"
      with True 1 have k: "0 < k" "k \<le> 3" "len = i + k" by auto
      then have n: "nat (32 + (int i - int len) * 8) = 32 - 8 * k" by auto
      have "push_bit (32 - 8 * k) ?v = 0 \<longleftrightarrow> (\<forall>n<8*k. bit (read_u32 a i) n = bit (read_u32 b i) n)"
        using k by (subst push_bit_zero_iff) (auto simp: bit_simps)
      also have "\<dots> \<longleftrightarrow> (\<forall>j<k. a (i + j) = b (i + j))" using k by (intro read_u32_low_eq) simp
      also have "\<dots> \<longleftrightarrow> (\<forall>j. i \<le> j \<and> j < len \<longrightarrow> a j = b j)"
        unfolding k(3) by (rule all_offset)
      finally have iff: "push_bit (32 - 8 * k) ?v = 0 \<longleftrightarrow> (\<forall>j. i \<le> j \<and> j < len \<longrightarrow> a j = b j)" .
      have "32 + (int i - int len) * 8 < 32" using k by simp
      then have "str_fastcmp_from a b len i = Some (push_bit (32 - 8 * k) ?v)"
        unfolding str_fastcmp_from.simps [of a b len i] Let_def n using v True by simp
      with iff show ?thesis by blast
    next
      case False
      then have "i + 3 < len" by simp
      moreover obtain j where "j < 4" "a (i + j) \<noteq> b (i + j)" using v unfolding xor_zero_iff read_u32_eq_iff by blast
      ultimately have "\<not> (\<forall>j. i \<le> j \<and> j < len \<longrightarrow> a j = b j)" by (auto intro!: exI [of _ "i + j"])
      then show ?thesis using v False by (auto simp: str_fastcmp_from.simps [of a b len i] Let_def)
    qed
  qed
qed


lemma str_fastcmp_views:
  assumes "len > 0" and "length a = len" and "length b = len"
  shows "\<exists>r. str_fastcmp (mem_view a x) (mem_view (b @ c) y) len = Some r \<and> (r = 0 \<longleftrightarrow> a = b)"
proof -
  have "(\<forall>j. 0 \<le> j \<and> j < len \<longrightarrow> mem_view a x j = mem_view (b @ c) y j) \<longleftrightarrow> a = b"
    using assms by (auto simp: mem_view_def nth_append list_eq_iff_nth_eq)
  with str_fastcmp_from_ok [OF assms(1), of "mem_view a x" "mem_view (b @ c) y"] show ?thesis
    unfolding str_fastcmp_def by simp
qed

definition sa_ok :: "str_arg \<Rightarrow> bool" where
  "sa_ok sa \<longleftrightarrow> sa_bytes sa \<noteq> [] \<or> sa_slow sa"

lemma str_match_ok:
  assumes "sa_ok sa" and "s_len s = length (s_chars s)"
  shows "str_match sa p s = Some (s_chars s = sa_bytes sa)"
proof (cases "s_len s = length (sa_bytes sa) \<and> \<not> sa_slow sa")
  case True
  with assms have "length (sa_bytes sa) > 0" by (auto simp: sa_ok_def)
  with True assms(2) obtain r where
    "str_fastcmp (mem_view (sa_bytes sa) (sa_after sa)) (obj_view sa p s) (length (sa_bytes sa)) = Some r"
    "r = 0 \<longleftrightarrow> sa_bytes sa = s_chars s"
    using str_fastcmp_views [of "length (sa_bytes sa)" "sa_bytes sa" "s_chars s" "sa_after sa" "[0]" "sa_objafter sa p"]
    unfolding obj_view_def by auto
  with True show ?thesis by (auto simp: str_match_def Let_def)
next
  case False
  show ?thesis
  proof (cases "s_len s = length (sa_bytes sa)")
    case True
    with False assms(2) show ?thesis by (simp add: str_match_def Let_def eq_commute)
  next
    case ne: False
    with assms(2) have "s_chars s \<noteq> sa_bytes sa" by auto
    with ne show ?thesis by (simp add: str_match_def Let_def)
  qed
qed

section \<open>The invariant of the string table\<close>

fun str_chain :: "(addr \<Rightarrow> ktap_str option) \<Rightarrow> addr \<Rightarrow> addr list \<Rightarrow> bool" where
  "str_chain m p [] \<longleftrightarrow> p = 0"
| "str_chain m p (q # qs) \<longleftrightarrow>
     p = q \<and> q \<noteq> 0 \<and> (case m q of None \<Rightarrow> False | Some s \<Rightarrow> str_chain m (s_nextgc s) qs)"

definition str_obj_ok :: "ktap_str \<Rightarrow> bool" where
  "str_obj_ok s \<longleftrightarrow> s_len s = length (s_chars s) \<and> s_hash s = kp_str_hash (s_chars s) \<and>
     length (s_chars s) < KP_MAX_STR"

definition str_bucket :: "ktap_global \<Rightarrow> u8 list \<Rightarrow> nat" where
  "str_bucket g cs = unat (kp_str_hash cs AND strmask g)"

lemma str_bucket_frame [simp]:
  "str_bucket (g\<lparr>mp_freepos := a\<rparr>) = str_bucket g" "str_bucket (g\<lparr>strobjs := b\<rparr>) = str_bucket g"
  "str_bucket (g\<lparr>strhash := c\<rparr>) = str_bucket g" "str_bucket (g\<lparr>strnum := d\<rparr>) = str_bucket g"
  "str_bucket (kp_error m g) = str_bucket g"
  by (simp_all add: str_bucket_def fun_eq_iff)

definition str_table :: "ktap_global \<Rightarrow> (nat \<Rightarrow> addr list) \<Rightarrow> bool" where
  "str_table g cs \<longleftrightarrow>
     length (strhash g) = Suc (unat (strmask g)) \<and>
     (\<forall>b < length (strhash g). str_chain (strobjs g) (strhash g ! b) (cs b) \<and> distinct (cs b)) \<and>
     (\<forall>p s. strobjs g p = Some s \<longrightarrow>
        str_obj_ok s \<and> p \<in> set (cs (str_bucket g (s_chars s))) \<and> p \<noteq> 0 \<and> p < mp_freepos g) \<and>
     (\<forall>p q s t. strobjs g p = Some s \<longrightarrow> strobjs g q = Some t \<longrightarrow>
        s_chars s = s_chars t \<longrightarrow> s_chars s \<noteq> [] \<longrightarrow> p = q) \<and>
     finite (dom (strobjs g)) \<and> card (dom (strobjs g)) = strnum g"

lemma str_tableD:
  assumes "str_table g cs" and "strobjs g p = Some s"
  shows "str_obj_ok s" "p \<in> set (cs (str_bucket g (s_chars s)))" "p \<noteq> 0" "p < mp_freepos g"
  using assms by (simp_all add: str_table_def)

definition str_inv :: "ktap_global \<Rightarrow> bool" where
  "str_inv g \<longleftrightarrow> (\<exists>cs. str_table g cs)"

lemma str_chain_dom: "str_chain m p ps \<Longrightarrow> set ps \<subseteq> dom m"
  by (induction ps arbitrary: p) (auto split: option.splits)

lemma str_chain_upd: "q \<notin> dom m \<Longrightarrow> str_chain m p ps \<Longrightarrow> str_chain (m(q \<mapsto> s)) p ps"
  by (induction ps arbitrary: p) (auto split: option.splits)

lemma and_mask_bound: "unat ((h :: u32) AND m) < Suc (unat m)"
proof -
  have "h AND m \<le> m" by (simp add: word_and_le1)
  then show ?thesis by (simp add: word_le_nat_alt)
qed

lemma str_chain_find_ok:
  assumes "sa_ok sa" and "\<forall>p s. strobjs g p = Some s \<longrightarrow> s_len s = length (s_chars s)"
  shows "str_chain (strobjs g) o' ps \<Longrightarrow> length ps < n \<Longrightarrow>
     \<exists>r. str_chain_find g sa n o' = Some r \<and>
         (r = 0 \<and> (\<forall>p\<in>set ps. \<forall>s. strobjs g p = Some s \<longrightarrow> s_chars s \<noteq> sa_bytes sa) \<or>
          r \<noteq> 0 \<and> r \<in> set ps \<and> (\<exists>s. strobjs g r = Some s \<and> s_chars s = sa_bytes sa))"
proof (induction ps arbitrary: o' n)
  case Nil
  then show ?case by (cases n) auto
next
  case (Cons q qs)
  then obtain s n' where s: "strobjs g q = Some s" "str_chain (strobjs g) (s_nextgc s) qs" "o' = q" "q \<noteq> 0"
    and n: "n = Suc n'" "length qs < n'"
    by (cases n) (auto split: option.splits)
  have m: "str_match sa q s = Some (s_chars s = sa_bytes sa)"
    using str_match_ok assms s(1) by simp
  show ?case
  proof (cases "s_chars s = sa_bytes sa")
    case True
    then show ?thesis using s n m by (intro exI [of _ q]) auto
  next
    case False
    with Cons.IH [OF s(2) n(2)] show ?thesis using s n m by auto
  qed
qed

lemma chain_length_le:
  assumes "str_table g cs" "b < length (strhash g)"
  shows "length (cs b) \<le> strnum g"
proof -
  have "set (cs b) \<subseteq> dom (strobjs g)" "distinct (cs b)" "finite (dom (strobjs g))"
    using assms str_chain_dom by (auto simp: str_table_def) blast
  then have "length (cs b) \<le> card (dom (strobjs g))"
    by (metis card_mono distinct_card)
  then show ?thesis using assms by (simp add: str_table_def)
qed

text \<open>What \<open>kp_str_new\<close> does on a well-formed table, in terms of the contents of the objects.\<close>

definition pool_ready :: "ktap_global \<Rightarrow> nat \<Rightarrow> bool" where
  "pool_ready g n \<longleftrightarrow> mempool g + scast (mp_size g) \<noteq> 0 \<and> mp_freepos g \<noteq> 0 \<and>
     unat (mp_freepos g) + n < 2 ^ 64"

lemma kp_str_new_cases:
  assumes inv: "str_table g cs" and ok: "sa_ok sa" and len: "length (sa_bytes sa) < KP_MAX_STR"
    and pool: "pool_ready g (sizeof_ktap_str + length (sa_bytes sa) + 1)"
  defines "b \<equiv> str_bucket g (sa_bytes sa)"
  shows "(\<exists>p s. p \<noteq> 0 \<and> strobjs g p = Some s \<and> s_chars s = sa_bytes sa \<and> kp_str_new g sa = Some (p, g)) \<or>
    (\<forall>p s. strobjs g p = Some s \<longrightarrow> s_chars s \<noteq> sa_bytes sa) \<and>
    (let n = mp_freepos g; s = \<lparr>s_nextgc = strhash g ! b, s_reserved = 0, s_hash = kp_str_hash (sa_bytes sa),
           s_len = length (sa_bytes sa), s_chars = sa_bytes sa\<rparr>;
         g' = g\<lparr>mp_freepos := n + of_nat (sizeof_ktap_str + length (sa_bytes sa) + 1),
                strobjs := (strobjs g)(n \<mapsto> s), strhash := (strhash g)[b := n], strnum := strnum g + 1\<rparr>
     in kp_str_new g sa = (if strnum g > KP_MAX_STRNUM
          then Some (0, kp_error ''exceed max string number 9999'' g') else Some (n, g')))"
proof -
  have b: "b < length (strhash g)" using inv and_mask_bound by (simp add: b_def str_bucket_def str_table_def)
  have chain: "str_chain (strobjs g) (strhash g ! b) (cs b)" using inv b by (simp add: str_table_def)
  have fuel: "length (cs b) < Suc (strnum g)" using chain_length_le [OF inv b] by simp
  have lens: "\<forall>p s. strobjs g p = Some s \<longrightarrow> s_len s = length (s_chars s)"
    using inv by (auto simp: str_table_def str_obj_ok_def)
  obtain r where r: "str_chain_find g sa (Suc (strnum g)) (strhash g ! b) = Some r"
    and cases: "r = 0 \<and> (\<forall>p\<in>set (cs b). \<forall>s. strobjs g p = Some s \<longrightarrow> s_chars s \<noteq> sa_bytes sa) \<or>
          r \<noteq> 0 \<and> r \<in> set (cs b) \<and> (\<exists>s. strobjs g r = Some s \<and> s_chars s = sa_bytes sa)"
    using str_chain_find_ok [OF ok lens chain fuel] by blast
  have new: "kp_mempool_alloc g (of_nat (sizeof_ktap_str + length (sa_bytes sa) + 1)) =
      (mp_freepos g, g\<lparr>mp_freepos := mp_freepos g + of_nat (sizeof_ktap_str + length (sa_bytes sa) + 1)\<rparr>)"
    using pool len by (subst kp_mempool_alloc_succeeds) (simp_all add: pool_ready_def scast_small_nat del: of_nat_add)
  show ?thesis
  proof (cases "r = 0")
    case True
    have "s_chars s \<noteq> sa_bytes sa" if "strobjs g p = Some s" for p s
    proof
      assume "s_chars s = sa_bytes sa"
      with str_tableD(2) [OF inv that] have "p \<in> set (cs b)" by (simp add: b_def)
      with that True cases \<open>s_chars s = sa_bytes sa\<close> show False by auto
    qed
    moreover have "mp_freepos g \<noteq> 0" using pool by (simp add: pool_ready_def)
    ultimately show ?thesis using r True b new len
      by (simp add: kp_str_new_def Let_def b_def str_bucket_def)
  next
    case False
    with cases obtain s where "strobjs g r = Some s" "s_chars s = sa_bytes sa" by auto
    then show ?thesis using r False b len
      by (intro disjI1 exI [of _ r] exI [of _ s]) (simp add: kp_str_new_def Let_def b_def str_bucket_def)
  qed
qed

lemma str_table_error [simp]: "str_table (kp_error m g) cs \<longleftrightarrow> str_table g cs"
  by (simp add: str_table_def)

lemma str_table_insert:
  assumes inv: "str_table g cs" and fresh: "\<And>p s. strobjs g p = Some s \<Longrightarrow> s_chars s \<noteq> str"
    and len: "length str < KP_MAX_STR" and n: "n = mp_freepos g" "n \<noteq> 0" and "n < fp"
    and b: "b = str_bucket g str"
  shows "str_table (g\<lparr>mp_freepos := fp, strobjs := (strobjs g)(n \<mapsto>
            \<lparr>s_nextgc = strhash g ! b, s_reserved = 0, s_hash = kp_str_hash str, s_len = length str, s_chars = str\<rparr>),
            strhash := (strhash g)[b := n], strnum := strnum g + 1\<rparr>) (cs(b := n # cs b))"
    (is "str_table ?g ?cs")
proof -
  let ?s = "\<lparr>s_nextgc = strhash g ! b, s_reserved = 0, s_hash = kp_str_hash str, s_len = length str, s_chars = str\<rparr>"
  have n': "n \<notin> dom (strobjs g)" using inv n by (auto simp: str_table_def)
  have bl: "b < length (strhash g)" using inv and_mask_bound b by (simp add: str_bucket_def str_table_def)
  have dom: "set (cs i) \<subseteq> dom (strobjs g)" if "i < length (strhash g)" for i
    using that inv str_chain_dom by (auto simp: str_table_def) blast
  have chains: "str_chain (strobjs ?g) (strhash ?g ! i) (?cs i) \<and> distinct (?cs i)" if "i < length (strhash ?g)" for i
    using that inv bl n' n(2) dom [of b] str_chain_upd [OF n'] by (auto simp: str_table_def nth_list_update)
  have objs: "str_obj_ok s \<and> p \<in> set (?cs (str_bucket ?g (s_chars s))) \<and> p \<noteq> 0 \<and> p < mp_freepos ?g"
    if "strobjs ?g p = Some s" for p s
  proof (cases "p = n")
    case True
    then show ?thesis using that len n assms(6) b by (auto simp: str_obj_ok_def)
  next
    case False
    then have "strobjs g p = Some s" using that by simp
    with inv have "str_obj_ok s" "p \<in> set (cs (str_bucket g (s_chars s)))" "p \<noteq> 0" "p < n"
      using n by (auto simp: str_table_def)
    then show ?thesis using assms(6) by auto
  qed
  have uniq: "p = q" if "strobjs ?g p = Some s" "strobjs ?g q = Some t" "s_chars s = s_chars t" "s_chars s \<noteq> []"
    for p q s t
    using that inv fresh by (auto simp: str_table_def split: if_splits) metis+
  have card: "finite (dom (strobjs ?g)) \<and> card (dom (strobjs ?g)) = strnum ?g"
    using inv n' by (auto simp: str_table_def card_insert_disjoint)
  have len: "length (strhash ?g) = Suc (unat (strmask ?g))" using inv by (simp add: str_table_def)
  show ?thesis unfolding str_table_def using len chains objs uniq card by blast
qed

lemma pool_grows:
  assumes "pool_ready g (sizeof_ktap_str + k + 1)"
  shows "mp_freepos g < mp_freepos g + of_nat (sizeof_ktap_str + k + 1)"
  using unat_add_of_nat [of "mp_freepos g" "sizeof_ktap_str + k + 1"] assms
  by (simp add: pool_ready_def word_less_nat_alt)

definition str_content :: "ktap_global \<Rightarrow> addr \<Rightarrow> u8 list option" where
  "str_content g p = map_option s_chars (strobjs g p)"

definition str_ready :: "ktap_global \<Rightarrow> str_arg \<Rightarrow> bool" where
  "str_ready g sa \<longleftrightarrow> sa_ok sa \<and> length (sa_bytes sa) < KP_MAX_STR \<and>
     pool_ready g (sizeof_ktap_str + length (sa_bytes sa) + 1) \<and> strnum g \<le> KP_MAX_STRNUM"

lemma kp_str_new_spec:
  assumes inv: "str_inv g" and ready: "str_ready g sa"
  shows "\<exists>p g'. kp_str_new g sa = Some (p, g') \<and> p \<noteq> 0 \<and> str_inv g' \<and>
     (\<exists>s. strobjs g' = (strobjs g)(p \<mapsto> s) \<and> s_chars s = sa_bytes sa) \<and>
     (\<forall>q s. strobjs g q = Some s \<longrightarrow> strobjs g' q = Some s) \<and>
     strnum g' = (if \<exists>q s. strobjs g q = Some s \<and> s_chars s = sa_bytes sa then strnum g else strnum g + 1)"
proof -
  obtain cs where cs: "str_table g cs" using inv by (auto simp: str_inv_def)
  note assms = inv ready [unfolded str_ready_def, THEN conjunct1]
    ready [unfolded str_ready_def, THEN conjunct2, THEN conjunct1]
    ready [unfolded str_ready_def, THEN conjunct2, THEN conjunct2, THEN conjunct1]
    ready [unfolded str_ready_def, THEN conjunct2, THEN conjunct2, THEN conjunct2]
  let ?b = "str_bucket g (sa_bytes sa)"
  show ?thesis
    using kp_str_new_cases [OF cs assms(2-4)]
  proof (elim disjE conjE)
    assume "\<exists>p s. p \<noteq> 0 \<and> strobjs g p = Some s \<and> s_chars s = sa_bytes sa \<and> kp_str_new g sa = Some (p, g)"
    then obtain p s where "p \<noteq> 0" "strobjs g p = Some s" "s_chars s = sa_bytes sa" "kp_str_new g sa = Some (p, g)"
      by blast
    then show ?thesis using assms(1)
      by (intro exI [of _ p] exI [of _ g]) (auto simp: fun_upd_triv intro!: exI [of _ s])
  next
    assume fresh: "\<forall>p s. strobjs g p = Some s \<longrightarrow> s_chars s \<noteq> sa_bytes sa"
    assume new: "let n = mp_freepos g; s = \<lparr>s_nextgc = strhash g ! ?b, s_reserved = 0, s_hash = kp_str_hash (sa_bytes sa),
           s_len = length (sa_bytes sa), s_chars = sa_bytes sa\<rparr>;
         g' = g\<lparr>mp_freepos := n + of_nat (sizeof_ktap_str + length (sa_bytes sa) + 1),
                strobjs := (strobjs g)(n \<mapsto> s), strhash := (strhash g)[?b := n], strnum := strnum g + 1\<rparr>
     in kp_str_new g sa = (if strnum g > KP_MAX_STRNUM
          then Some (0, kp_error ''exceed max string number 9999'' g') else Some (n, g'))"
    have n: "mp_freepos g \<noteq> 0" using assms(4) by (simp add: pool_ready_def)
    have "strobjs g (mp_freepos g) = None"
      using str_tableD(4) [OF cs, of "mp_freepos g"] by (cases "strobjs g (mp_freepos g)") auto
    moreover note str_table_insert [OF cs fresh [rule_format] assms(3) refl n pool_grows [OF assms(4)] refl]
    ultimately show ?thesis using new assms(5) fresh n
      by (auto simp: Let_def str_inv_def intro!: exI)
  qed
qed


section \<open>The interface: interned strings\<close>

text \<open>
  What the rest of the runtime relies on: interning returns a handle of the given content, keeps
  the content of all handles, and handles of a proper content are unique.
\<close>

locale intern_table =
  fixes intern :: "'g \<Rightarrow> 'a \<Rightarrow> ('p \<times> 'g) option"
    and inv :: "'g \<Rightarrow> bool"
    and ready :: "'g \<Rightarrow> 'a \<Rightarrow> bool"
    and content :: "'g \<Rightarrow> 'p \<Rightarrow> 'c option"
    and key :: "'a \<Rightarrow> 'c"
    and proper :: "'c \<Rightarrow> bool"
  assumes intern_ok: "inv g \<Longrightarrow> ready g a \<Longrightarrow>
      \<exists>p g'. intern g a = Some (p, g') \<and> inv g' \<and> content g' p = Some (key a) \<and> content g \<subseteq>\<^sub>m content g'"
    and unique: "inv g \<Longrightarrow> content g p = Some c \<Longrightarrow> content g q = Some c \<Longrightarrow> proper c \<Longrightarrow> p = q"
begin

lemma intern_result:
  assumes "inv g" "ready g a" "intern g a = Some (p, g')"
  shows "inv g'" "content g' p = Some (key a)" "content g q = Some c \<Longrightarrow> content g' q = Some c"
  using intern_ok [OF assms(1,2)] assms(3) by (auto simp: map_le_def dom_def)

lemma handle_eq_iff:
  assumes "inv g" "ready g a" "intern g a = Some (p, g1)" "ready g1 b" "intern g1 b = Some (q, g2)"
    and "proper (key a)"
  shows "p = q \<longleftrightarrow> key a = key b"
proof -
  note 1 = intern_result [OF assms(1-3)]
  note 2 = intern_result [OF 1(1) assms(4,5)]
  have "content g2 p = Some (key a)" "content g2 q = Some (key b)" using 1 2 by auto
  then show ?thesis using unique [OF 2(1)] assms(6) by auto
qed

lemma intern_again:
  assumes "inv g" "ready g a" "intern g a = Some (p, g1)" "ready g1 b" "intern g1 b = Some (q, g2)"
    and "proper (key a)" "key b = key a"
  shows "q = p"
  using handle_eq_iff [OF assms(1-6)] assms(7) by simp

end

lemma kp_str_new_intern_ok:
  assumes "str_inv g" "str_ready g sa"
  shows "\<exists>p g'. kp_str_new g sa = Some (p, g') \<and> str_inv g' \<and> str_content g' p = Some (sa_bytes sa) \<and>
    str_content g \<subseteq>\<^sub>m str_content g'"
  using kp_str_new_spec [OF assms] by (fastforce simp: str_content_def map_le_def)

interpretation strtab: intern_table kp_str_new str_inv str_ready str_content sa_bytes "\<lambda>c. c \<noteq> []"
proof
  fix g sa
  assume "str_inv g" "str_ready g sa"
  then show "\<exists>p g'. kp_str_new g sa = Some (p, g') \<and> str_inv g' \<and> str_content g' p = Some (sa_bytes sa) \<and>
    str_content g \<subseteq>\<^sub>m str_content g'"
    by (rule kp_str_new_intern_ok)
next
  fix g p q and c :: "u8 list"
  assume "str_inv g" "str_content g p = Some c" "str_content g q = Some c" "c \<noteq> []"
  then show "p = q" by (auto simp: str_inv_def str_table_def str_content_def)
qed

text \<open>
  C10: interning on a well-formed string table.  \<^verbatim>\<open>kp_str_new\<close> ends without a fault and returns a
  non-null object; the table stays well formed, the new contents are the old ones with the
  returned pointer mapped to the given characters, and a new object is created exactly when the
  content was not there.
\<close>

theorem kp_str_new_interns:
  assumes "str_inv g" and "str_ready g sa"
  shows "\<exists>p g'. kp_str_new g sa = Some (p, g') \<and> p \<noteq> 0 \<and> str_inv g' \<and>
     str_content g' = (str_content g)(p \<mapsto> sa_bytes sa) \<and>
     strnum g' = (if sa_bytes sa \<in> ran (str_content g) then strnum g else strnum g + 1)"
proof -
  obtain p g' s where new: "kp_str_new g sa = Some (p, g')" "p \<noteq> 0" "str_inv g'"
    "strobjs g' = (strobjs g)(p \<mapsto> s)" "s_chars s = sa_bytes sa"
    and num: "strnum g' = (if \<exists>q s. strobjs g q = Some s \<and> s_chars s = sa_bytes sa then strnum g else strnum g + 1)"
    using kp_str_new_spec [OF assms] by blast
  have "str_content g' = (str_content g)(p \<mapsto> sa_bytes sa)"
    using new(4,5) by (auto simp: str_content_def fun_eq_iff)
  moreover have "sa_bytes sa \<in> ran (str_content g) \<longleftrightarrow> (\<exists>q s. strobjs g q = Some s \<and> s_chars s = sa_bytes sa)"
    by (auto simp: ran_def str_content_def)
  ultimately show ?thesis using new num by auto
qed

lemma kp_str_resize_inv:
  assumes "strobjs g = Map.empty" "strnum g = 0" "unat newmask + 1 < 2 ^ 32"
  shows "str_inv (snd (kp_str_resize True g newmask))"
proof -
  have "unat (newmask + 1) = Suc (unat newmask)"
    using unat_add_of_nat [of newmask 1] assms(3) by simp
  then have "str_table (snd (kp_str_resize True g newmask)) (\<lambda>_. [])"
    using assms by (simp add: str_table_def kp_str_resize_def del: replicate_Suc)
  then show ?thesis by (auto simp: str_inv_def)
qed

text \<open>A table of four buckets, as \<open>kp_str_resize\<close> leaves it on an empty pool, and two arguments.\<close>

definition str_example :: ktap_global where
  "str_example = snd (kp_str_resize True pool_example 3)"

definition abc_arg :: str_arg where
  "abc_arg = \<lparr>sa_bytes = [97, 98, 99], sa_after = (\<lambda>_. 0), sa_objafter = (\<lambda>_ _. 0), sa_slow = False\<rparr>"

definition abd_arg :: str_arg where
  "abd_arg = \<lparr>sa_bytes = [97, 98, 100], sa_after = (\<lambda>_. 7), sa_objafter = (\<lambda>_ _. 9), sa_slow = False\<rparr>"

lemma str_example_inv: "str_inv str_example"
  unfolding str_example_def by (rule kp_str_resize_inv) (simp_all add: pool_example_def)

lemma str_example_ready: "str_ready str_example abc_arg"
  by (simp add: str_ready_def sa_ok_def abc_arg_def pool_ready_def str_example_def kp_str_resize_def
      pool_example_def)

theorem kp_str_new_interns_witness:
  "\<exists>p g'. kp_str_new str_example abc_arg = Some (p, g') \<and> p \<noteq> 0 \<and> str_inv g' \<and>
     str_content g' = (str_content str_example)(p \<mapsto> [97, 98, 99]) \<and> strnum g' = 1"
  using kp_str_new_interns [OF str_example_inv str_example_ready]
  by (simp add: abc_arg_def str_example_def kp_str_resize_def pool_example_def str_content_def ran_def)

text \<open>
  string equality is pointer equality.  Of two non-empty strings interned one after the other,
  the returned pointers are equal exactly when the characters are.
\<close>

theorem interned_pointer_equality:
  assumes "str_inv g" "str_ready g a" "kp_str_new g a = Some (p, g1)"
    and "str_ready g1 b" "kp_str_new g1 b = Some (q, g2)" and "sa_bytes a \<noteq> []"
  shows "p = q \<longleftrightarrow> sa_bytes a = sa_bytes b"
  by (rule strtab.handle_eq_iff [OF assms])

definition abc_global :: ktap_global where
  "abc_global = snd (the (kp_str_new str_example abc_arg))"

lemma abc_interned: "kp_str_new str_example abc_arg = Some (0x1000, abc_global)"
  by code_simp

definition abd_global :: ktap_global where
  "abd_global = snd (the (kp_str_new abc_global abd_arg))"

lemma abd_interned: "kp_str_new abc_global abd_arg = Some (0x101c, abd_global)"
  by code_simp

lemma abc_global_fields:
  "mp_freepos abc_global = 0x101c" "mempool abc_global = 0x1000" "mp_size abc_global = 1024" "strnum abc_global = 1"
  by code_simp+

lemma abd_ready: "str_ready abc_global abd_arg"
  by (simp add: str_ready_def sa_ok_def abd_arg_def pool_ready_def abc_global_fields)

theorem interned_pointer_equality_witness:
  "(0x1000 :: addr) = 0x101c \<longleftrightarrow> sa_bytes abc_arg = sa_bytes abd_arg"
  using interned_pointer_equality [OF str_example_inv str_example_ready abc_interned abd_ready abd_interned]
  by (simp add: abc_arg_def)

definition empty_arg :: "u8 \<Rightarrow> bool \<Rightarrow> str_arg" where
  "empty_arg c slow = \<lparr>sa_bytes = [], sa_after = (\<lambda>_. c), sa_objafter = (\<lambda>_ _. 0), sa_slow = slow\<rparr>"

text \<open>
  the fast comparison faults on empty strings.  Interning the empty string twice through the
  fast path, with a different byte after the terminator of the stored object and after the
  argument, reaches a shift by the full width of the word, which C leaves undefined; the slow
  path returns the stored object.
\<close>

theorem empty_string_fault:
  "\<exists>p g. kp_str_new str_example (empty_arg 0 True) = Some (p, g) \<and> p \<noteq> 0 \<and>
     kp_str_new g (empty_arg 1 False) = None \<and> kp_str_new g (empty_arg 1 True) = Some (p, g)"
proof -
  let ?r = "the (kp_str_new str_example (empty_arg 0 True))"
  have "kp_str_new str_example (empty_arg 0 True) = Some (fst ?r, snd ?r)" by code_simp
  moreover have "fst ?r \<noteq> 0" by code_simp
  moreover have "kp_str_new (snd ?r) (empty_arg 1 False) = None" by code_simp
  moreover have "kp_str_new (snd ?r) (empty_arg 1 True) = Some (fst ?r, snd ?r)" by code_simp
  ultimately show ?thesis by blast
qed

end
