(* ===== verification/Ktap_Tab.thy ===== *)
theory Ktap_Tab
  imports Ktap_Str
begin

text \<open>
  Tables of the runtime (\<^verbatim>\<open>runtime/kp_tab.c\<close>, \<^verbatim>\<open>runtime/kp_tab.h\<close>): an array part for the keys
  \<^verbatim>\<open>0 .. asize-1\<close> and a hash part of \<^verbatim>\<open>hmask+1\<close> nodes chained by index, with Brent's variation for
  the insertion of new keys.  A node pointer is the index of the node in the node array, \<^verbatim>\<open>NULL\<close>
  is \<open>None\<close>; \<^verbatim>\<open>freetop\<close> is an index too.  A table without a hash part (\<^verbatim>\<open>hbits = 0\<close>) has an
  uninitialised node pointer, so its node list is empty and every access to a node is a fault.

  Each operation holds the table's spinlock from beginning to end, so it is one step of the state.
  The result \<open>None\<close> is a fault (a wild read) or an endless chain.
\<close>

section \<open>State\<close>

record ktap_node =
  n_val :: ktap_val
  n_key :: ktap_val
  n_next :: "nat option"

record ktap_tab =
  tarray :: "ktap_val list"
  tnode :: "ktap_node list"
  freetop :: nat
  asize :: u32
  hmask :: u32
  hnum :: u32

text \<open>
  What the operations obtain from outside: the blocks \<^verbatim>\<open>vmalloc\<close> returns, with whatever they
  contain, \<^verbatim>\<open>None\<close> on failure; whether \<^verbatim>\<open>kp_obj_new\<close> delivers the header; the uninitialised
  \<^verbatim>\<open>hnum\<close> of the header.
\<close>

record tab_mem =
  tm_obj :: bool
  tm_array :: "nat \<Rightarrow> ktap_val list option"
  tm_node :: "nat \<Rightarrow> ktap_node list option"
  tm_hnum :: u32

text \<open>
  The tracing context of the thread: the current event, if any, with \<^verbatim>\<open>kp_event_stringify\<close>; and the
  kernel's \<^verbatim>\<open>save_stack_trace\<close> and \<^verbatim>\<open>sprint_symbol\<close>, with the bytes around the print buffer.
\<close>

record tab_env =
  env_event :: "(ktap_global \<Rightarrow> (addr \<times> ktap_global) option) option"
  env_trace :: "u16 \<Rightarrow> u16 \<Rightarrow> u64 list"
  env_symbol :: "u64 \<Rightarrow> u8 list"
  env_arg :: str_arg


section \<open>Hashing\<close>

abbreviation (input) HASH_BIAS :: u32 where "HASH_BIAS \<equiv> - 0x04c11db7"

definition kp_rol :: "u32 \<Rightarrow> nat \<Rightarrow> u32" where
  "kp_rol x n = push_bit n x OR drop_bit (32 - n) x"

definition hashrot :: "u32 \<Rightarrow> u32 \<Rightarrow> u32" where
  "hashrot lo hi =
     (let lo1 = lo XOR hi; hi1 = kp_rol hi 14;
          lo2 = lo1 - hi1; hi2 = kp_rol hi1 5;
          hi3 = hi2 XOR lo2; hi4 = hi3 - kp_rol lo2 13
      in hi4)"

definition hashmask :: "ktap_tab \<Rightarrow> u32 \<Rightarrow> nat" where
  "hashmask t hash = unat (hash AND hmask t)"

definition hashstr :: "ktap_global \<Rightarrow> ktap_tab \<Rightarrow> addr \<Rightarrow> nat option" where
  "hashstr g t s = map_option (\<lambda>o'. hashmask t (s_hash o')) (strobjs g s)"

definition hashnum :: "ktap_tab \<Rightarrow> ktap_val \<Rightarrow> nat" where
  "hashnum t o' = hashmask t (hashrot (ucast (vbits o' AND 0xffffffff)) 0)"

definition hashgcref :: "ktap_tab \<Rightarrow> ktap_val \<Rightarrow> nat" where
  "hashgcref t o' =
     (let lo = ucast (vbits o' AND 0xffffffff) in hashmask t (hashrot lo (lo + HASH_BIAS)))"

definition hashkey :: "ktap_global \<Rightarrow> ktap_tab \<Rightarrow> ktap_val \<Rightarrow> nat option" where
  "hashkey g t key =
     (if is_string key then hashstr g t (rawtsvalue key)
      else if is_number key then Some (hashnum t key)
      else if is_bool key then Some (hashmask t (boolvalue key))
      else Some (hashgcref t key))"


section \<open>Creation\<close>

abbreviation (input) KP_MAX_HBITS :: u32 where "KP_MAX_HBITS \<equiv> 26"
abbreviation (input) KP_MAX_ASIZE :: u32 where "KP_MAX_ASIZE \<equiv> 0x8000001"

definition newhpart :: "tab_mem \<Rightarrow> ktap_global \<Rightarrow> ktap_tab \<Rightarrow> u32 \<Rightarrow> int \<times> ktap_tab \<times> ktap_global" where
  "newhpart tm g t hbits =
     (if hbits > KP_MAX_HBITS then (-1, t, kp_error ''table overflow'' g)
      else
        (let hsize = push_bit (unat hbits) 1 :: u32 in
         case tm_node tm (unat hsize) of
           None \<Rightarrow> (- ENOMEM, t, g)
         | Some node \<Rightarrow> (0, t\<lparr>freetop := unat hsize, tnode := node, hmask := hsize - 1\<rparr>, g)))"

definition clear_node :: "ktap_node \<Rightarrow> ktap_node" where
  "clear_node n = n\<lparr>n_next := None, n_key := set_nil (n_key n), n_val := set_nil (n_val n)\<rparr>"

definition clearhpart :: "ktap_tab \<Rightarrow> ktap_tab" where
  "clearhpart t = t\<lparr>tnode := map clear_node (tnode t), hnum := 0\<rparr>"

definition clearapart :: "ktap_tab \<Rightarrow> ktap_tab" where
  "clearapart t = t\<lparr>tarray := map set_nil (tarray t)\<rparr>"

text \<open>
  \<^verbatim>\<open>newtab\<close> writes through the pointer of \<^verbatim>\<open>kp_obj_new\<close> before anything checks it: the fault \<open>None\<close>.
  The result \<open>Some (None, _)\<close> is the \<^verbatim>\<open>NULL\<close> the function returns.
\<close>

definition newtab :: "tab_mem \<Rightarrow> ktap_global \<Rightarrow> u32 \<Rightarrow> u32 \<Rightarrow> (ktap_tab option \<times> ktap_global) option" where
  "newtab tm g asize' hbits =
     (if \<not> tm_obj tm then None
      else
        (let t = \<lparr>tarray = [], tnode = [], freetop = 0, asize = 0, hmask = 0, hnum = tm_hnum tm\<rparr> in
         if asize' > 0 \<and> asize' > KP_MAX_ASIZE then Some (None, kp_error ''table overflow'' g)
         else
           (case (if asize' > 0 then map_option (\<lambda>a. t\<lparr>tarray := a, asize := asize'\<rparr>) (tm_array tm (unat asize'))
                  else Some t) of
              None \<Rightarrow> Some (None, g)
            | Some t1 \<Rightarrow>
                if hbits \<noteq> 0 then
                  (let (r, t2, g2) = newhpart tm g t1 hbits in
                   if r \<noteq> 0 then Some (None, g2) else Some (Some t2, g2))
                else Some (Some t1, g))))"

definition kp_tab_new :: "tab_mem \<Rightarrow> ktap_global \<Rightarrow> u32 \<Rightarrow> u32 \<Rightarrow> (ktap_tab option \<times> ktap_global) option" where
  "kp_tab_new tm g asize' hbits =
     do {
       (r, g1) \<leftarrow> newtab tm g asize' hbits;
       case r of
         None \<Rightarrow> Some (None, g1)
       | Some t \<Rightarrow>
           (let t1 = clearapart t in
            Some (Some (if hmask t1 > 0 then clearhpart t1 else t1), g1))
     }"

abbreviation (input) TABLE_NARR_ENTRIES :: u32 where "TABLE_NARR_ENTRIES \<equiv> 255"
abbreviation (input) TABLE_NREC_ENTRIES :: u32 where "TABLE_NREC_ENTRIES \<equiv> 2048"

text \<open>
  \<^verbatim>\<open>__builtin_clz\<close> of a non-zero word: the number of leading zero bits.  \<^verbatim>\<open>FLS\<close> xors it with 31.
\<close>

fun clz_from :: "nat \<Rightarrow> u32 \<Rightarrow> nat" where
  "clz_from 0 x = 32"
| "clz_from (Suc i) x = (if bit x i then 31 - i else clz_from i x)"

definition FLS :: "u32 \<Rightarrow> u32" where
  "FLS x = of_nat (clz_from 32 x) XOR 31"

definition hsize2hbits :: "u32 \<Rightarrow> u32" where
  "hsize2hbits s = (if s \<noteq> 0 then (if s = 1 then 1 else 1 + FLS (s - 1)) else 0)"

definition kp_tab_new_ah :: "tab_mem \<Rightarrow> ktap_global \<Rightarrow> u32 \<Rightarrow> u32 \<Rightarrow> (ktap_tab option \<times> ktap_global) option" where
  "kp_tab_new_ah tm g a h =
     (let (a', h') = (if a = 0 \<and> h = 0 then (TABLE_NARR_ENTRIES, TABLE_NREC_ENTRIES) else (a, h)) in
      kp_tab_new tm g (if 0 <s a' then a' + 1 else 0) (hsize2hbits h'))"

definition kp_tab_clear :: "ktap_tab \<Rightarrow> ktap_tab" where
  "kp_tab_clear t =
     (let t1 = clearapart t in
      if hmask t1 > 0 then clearhpart (t1\<lparr>freetop := unat (hmask t1 + 1)\<rparr>) else t1)"


section \<open>Lookup\<close>

text \<open>
  The loop every lookup is made of: follow the chain from node \<open>i\<close> until a node satisfies the
  test.  \<open>Some None\<close> means the chain ended.
\<close>

fun node_walk :: "(ktap_node \<Rightarrow> bool) \<Rightarrow> ktap_node list \<Rightarrow> nat \<Rightarrow> nat \<Rightarrow> nat option option" where
  "node_walk P ns 0 i = None"
| "node_walk P ns (Suc fuel) i =
     (if i \<ge> length ns then None
      else if P (ns ! i) then Some (Some i)
      else case n_next (ns ! i) of None \<Rightarrow> Some None | Some j \<Rightarrow> node_walk P ns fuel j)"

definition chain_find :: "(ktap_node \<Rightarrow> bool) \<Rightarrow> ktap_tab \<Rightarrow> nat \<Rightarrow> nat option option" where
  "chain_find P t i = node_walk P (tnode t) (length (tnode t)) i"

definition key_is_int :: "u32 \<Rightarrow> ktap_node \<Rightarrow> bool" where
  "key_is_int key n \<longleftrightarrow> is_number (n_key n) \<and> nvalue (n_key n) = ucast key"

definition key_is_str :: "addr \<Rightarrow> ktap_node \<Rightarrow> bool" where
  "key_is_str key n \<longleftrightarrow> is_string (n_key n) \<and> rawtsvalue (n_key n) = key"

definition key_is_val :: "ktap_val \<Rightarrow> ktap_node \<Rightarrow> bool" where
  "key_is_val key n \<longleftrightarrow> kp_obj_equal False (n_key n) key"

definition node_result :: "ktap_tab \<Rightarrow> nat option \<Rightarrow> ktap_val" where
  "node_result t r = (case r of None \<Rightarrow> kp_niltv | Some i \<Rightarrow> n_val (tnode t ! i))"

definition tab_getinth :: "ktap_tab \<Rightarrow> u32 \<Rightarrow> ktap_val option" where
  "tab_getinth t key =
     map_option (node_result t) (chain_find (key_is_int key) t (hashnum t (set_number (ucast key))))"

definition tab_getint :: "ktap_tab \<Rightarrow> u32 \<Rightarrow> ktap_val option" where
  "tab_getint t key =
     (if key < asize t then
        (if unat key < length (tarray t) then Some (tarray t ! unat key) else None)
      else tab_getinth t key)"

definition tab_getstr :: "ktap_global \<Rightarrow> ktap_tab \<Rightarrow> addr \<Rightarrow> ktap_val option" where
  "tab_getstr g t key =
     do {
       i \<leftarrow> hashstr g t key;
       r \<leftarrow> chain_find (key_is_str key) t i;
       Some (node_result t r)
     }"

definition tab_genlookup :: "ktap_global \<Rightarrow> ktap_tab \<Rightarrow> ktap_val \<Rightarrow> ktap_val option" where
  "tab_genlookup g t key =
     do {
       i \<leftarrow> hashkey g t key;
       r \<leftarrow> chain_find (key_is_val key) t i;
       Some (node_result t r)
     }"

definition tab_get :: "tab_env \<Rightarrow> ktap_global \<Rightarrow> ktap_tab \<Rightarrow> ktap_val \<Rightarrow> (ktap_val \<times> ktap_global) option" where
  "tab_get env g t key =
     (if is_string key then map_option (\<lambda>v. (v, g)) (tab_getstr g t (rawtsvalue key))
      else if is_number key then
        (let nk = nvalue key; k = ucast nk :: u32 in
         if nk = ucast k then map_option (\<lambda>v. (v, g)) (tab_getint t k)
         else map_option (\<lambda>v. (v, g)) (tab_genlookup g t key))
      else if is_eventstr key then
        (case env_event env of
           None \<Rightarrow> Some (kp_niltv, kp_error ''cannot stringify event str in invalid context'' g)
         | Some stringify \<Rightarrow>
             do {
               (ts, g1) \<leftarrow> stringify g;
               if ts = 0 then Some (kp_niltv, g1)
               else map_option (\<lambda>v. (v, g1)) (tab_getstr g1 t (rawtsvalue key))
             })
      else if \<not> is_nil key then map_option (\<lambda>v. (v, g)) (tab_genlookup g t key)
      else Some (kp_niltv, g))"

definition kp_tab_getint :: "ktap_tab \<Rightarrow> u32 \<Rightarrow> ktap_val option" where
  "kp_tab_getint t key = tab_getint t key"

definition kp_tab_getstr :: "ktap_global \<Rightarrow> ktap_tab \<Rightarrow> addr \<Rightarrow> ktap_val option" where
  "kp_tab_getstr g t key = tab_getstr g t key"

definition kp_tab_get :: "tab_env \<Rightarrow> ktap_global \<Rightarrow> ktap_tab \<Rightarrow> ktap_val \<Rightarrow> (ktap_val \<times> ktap_global) option" where
  "kp_tab_get env g t key = tab_get env g t key"


section \<open>Insertion\<close>

text \<open>
  The search for a free node: downwards from \<^verbatim>\<open>freetop\<close> to the first node with a nil key.
  \<open>Some None\<close>: no free node; \<open>None\<close>: a wild read.
\<close>

fun find_free :: "ktap_node list \<Rightarrow> nat \<Rightarrow> nat option option" where
  "find_free ns 0 = Some None"
| "find_free ns (Suc i) =
     (if i \<ge> length ns then None
      else if is_nil (n_key (ns ! i)) then Some (Some i)
      else find_free ns i)"

text \<open>The predecessor of node \<open>n\<close> in the chain from \<open>c\<close>.\<close>

fun find_pred :: "ktap_node list \<Rightarrow> nat \<Rightarrow> nat \<Rightarrow> nat \<Rightarrow> nat option" where
  "find_pred ns 0 c n = None"
| "find_pred ns (Suc fuel) c n =
     (if c \<ge> length ns then None
      else case n_next (ns ! c) of
          None \<Rightarrow> None
        | Some c' \<Rightarrow> if c' = n then Some c else find_pred ns fuel c' n)"

definition set_next :: "ktap_node list \<Rightarrow> nat \<Rightarrow> nat option \<Rightarrow> ktap_node list" where
  "set_next ns i p = ns[i := (ns ! i)\<lparr>n_next := p\<rparr>]"

text \<open>
  The rechaining loop: every string key with a value behind the moved node whose main position is
  \<open>n\<close> is moved into the chain of \<open>n\<close>.
\<close>

fun rechain :: "ktap_global \<Rightarrow> ktap_tab \<Rightarrow> nat \<Rightarrow> nat \<Rightarrow> ktap_node list \<Rightarrow> nat \<Rightarrow> ktap_node list option" where
  "rechain g t n 0 ns fr = None"
| "rechain g t n (Suc fuel) ns fr =
     (if fr \<ge> length ns then None
      else case n_next (ns ! fr) of
          None \<Rightarrow> Some ns
        | Some nn \<Rightarrow>
            if nn \<ge> length ns then None
            else if is_string (n_key (ns ! nn)) \<and> \<not> is_nil (n_val (ns ! nn)) then
              (case hashstr g t (rawtsvalue (n_key (ns ! nn))) of
                 None \<Rightarrow> None
               | Some h \<Rightarrow>
                   if h = n then
                     rechain g t n fuel
                       (let ns1 = set_next ns fr (n_next (ns ! nn));
                            ns2 = set_next ns1 nn (n_next (ns1 ! n))
                        in set_next ns2 n (Some nn)) fr
                   else rechain g t n fuel ns nn)
            else rechain g t n fuel ns nn)"

text \<open>
  A pointer to a value, as the setters return it: an array slot or the value of a node.
\<close>

datatype slot = SlotArr nat | SlotNode nat

fun slot_read :: "ktap_tab \<Rightarrow> slot \<Rightarrow> ktap_val" where
  "slot_read t (SlotArr i) = tarray t ! i"
| "slot_read t (SlotNode i) = n_val (tnode t ! i)"

fun slot_write :: "ktap_tab \<Rightarrow> slot \<Rightarrow> ktap_val \<Rightarrow> ktap_tab" where
  "slot_write t (SlotArr i) v = t\<lparr>tarray := (tarray t)[i := v]\<rparr>"
| "slot_write t (SlotNode i) v = t\<lparr>tnode := (tnode t)[i := (tnode t ! i)\<lparr>n_val := v\<rparr>]\<rparr>"

type_synonym set_result = "(slot option \<times> ktap_tab \<times> ktap_global) option"

definition put_key :: "ktap_tab \<Rightarrow> ktap_node list \<Rightarrow> nat \<Rightarrow> ktap_val \<Rightarrow> ktap_tab" where
  "put_key t ns n key = t\<lparr>tnode := ns[n := (ns ! n)\<lparr>n_key := key\<rparr>], hnum := hnum t + 1\<rparr>"

definition kp_tab_newkey :: "ktap_global \<Rightarrow> ktap_tab \<Rightarrow> ktap_val \<Rightarrow> set_result" where
  "kp_tab_newkey g t key =
     do {
       n \<leftarrow> hashkey g t key;
       if n \<ge> length (tnode t) then None
       else if \<not> is_nil (n_val (tnode t ! n)) \<or> hmask t = 0 then
         do {
           fr \<leftarrow> find_free (tnode t) (freetop t);
           case fr of
             None \<Rightarrow> Some (None, t, kp_error ''table overflow'' g)
           | Some freenode \<Rightarrow>
               do {
                 collide \<leftarrow> hashkey g t (n_key (tnode t ! n));
                 (let t1 = t\<lparr>freetop := freenode\<rparr>; ns = tnode t in
                  if collide \<noteq> n then
                    do {
                      pred \<leftarrow> find_pred ns (length ns) collide n;
                      (let ns1 = set_next ns pred (Some freenode);
                           ns2 = ns1[freenode := ns1 ! n];
                           ns3 = ns2[n := (ns2 ! n)\<lparr>n_next := None, n_val := set_nil (n_val (ns2 ! n))\<rparr>]
                       in do {
                         ns4 \<leftarrow> rechain g t1 n (length ns) ns3 freenode;
                         Some (Some (SlotNode n), put_key t1 ns4 n key, g)
                       })
                    }
                  else
                    (let ns1 = set_next ns freenode (n_next (ns ! n));
                         ns2 = set_next ns1 n (Some freenode)
                     in Some (Some (SlotNode freenode), put_key t1 ns2 freenode key, g)))
               }
         }
       else Some (Some (SlotNode n), put_key t (tnode t) n key, g)
     }"

definition tab_setinth :: "ktap_global \<Rightarrow> ktap_tab \<Rightarrow> u32 \<Rightarrow> set_result" where
  "tab_setinth g t key =
     (let k = set_number (ucast key) in
      do {
        r \<leftarrow> chain_find (key_is_int key) t (hashnum t k);
        case r of Some i \<Rightarrow> Some (Some (SlotNode i), t, g) | None \<Rightarrow> kp_tab_newkey g t k
      })"

definition tab_setint :: "ktap_global \<Rightarrow> ktap_tab \<Rightarrow> u32 \<Rightarrow> set_result" where
  "tab_setint g t key =
     (if key < asize t then
        (if unat key < length (tarray t) then Some (Some (SlotArr (unat key)), t, g) else None)
      else tab_setinth g t key)"

definition tab_setstr :: "ktap_global \<Rightarrow> ktap_tab \<Rightarrow> addr \<Rightarrow> set_result" where
  "tab_setstr g t key =
     do {
       i \<leftarrow> hashstr g t key;
       r \<leftarrow> chain_find (key_is_str key) t i;
       case r of Some i \<Rightarrow> Some (Some (SlotNode i), t, g) | None \<Rightarrow> kp_tab_newkey g t (set_string key)
     }"

text \<open>\<^verbatim>\<open>kp_obj_kstack2str\<close> of \<^verbatim>\<open>kp_obj.c\<close>: the symbols of the backtrace, one per line, interned.\<close>

definition kp_obj_kstack2str :: "tab_env \<Rightarrow> ktap_global \<Rightarrow> u16 \<Rightarrow> u16 \<Rightarrow> (addr \<times> ktap_global) option" where
  "kp_obj_kstack2str env g depth skip =
     (let entries = takeWhile (\<lambda>a. a \<noteq> NOT 0) (env_trace env depth skip);
          btstr = concat (map (\<lambda>a. env_symbol env a @ [10]) entries)
      in kp_str_new g ((env_arg env)\<lparr>sa_bytes := btstr\<rparr>))"

definition tab_setgen :: "ktap_global \<Rightarrow> ktap_tab \<Rightarrow> ktap_val \<Rightarrow> set_result" where
  "tab_setgen g t key =
     do {
       i \<leftarrow> hashkey g t key;
       r \<leftarrow> chain_find (key_is_val key) t i;
       case r of Some i \<Rightarrow> Some (Some (SlotNode i), t, g) | None \<Rightarrow> kp_tab_newkey g t key
     }"

definition tab_set :: "tab_env \<Rightarrow> ktap_global \<Rightarrow> ktap_tab \<Rightarrow> ktap_val \<Rightarrow> set_result" where
  "tab_set env g t key =
     (if is_string key then tab_setstr g t (rawtsvalue key)
      else if is_number key then
        (let nk = nvalue key; k = ucast nk :: u32 in
         if nk = ucast k then tab_setint g t k else tab_setgen g t key)
      else if itype key = KTAP_TKSTACK then
        do {
          (bt, g1) \<leftarrow> kp_obj_kstack2str env g (stack_depth key) (stack_skip key);
          if bt = 0 then Some (None, t, g1) else tab_setstr g1 t bt
        }
      else if is_eventstr key then
        (case env_event env of
           None \<Rightarrow> Some (None, t, kp_error ''cannot stringify event str in invalid context'' g)
         | Some stringify \<Rightarrow>
             do {
               (ts, g1) \<leftarrow> stringify g;
               if ts = 0 then Some (None, t, g1) else tab_setstr g1 t ts
             })
      else if is_nil key then Some (None, t, kp_error ''table nil index'' g)
      else tab_setgen g t key)"

text \<open>What the callers do with the slot: store, or add a number.\<close>

definition store_slot :: "ktap_val \<Rightarrow> set_result \<Rightarrow> (ktap_tab \<times> ktap_global) option" where
  "store_slot v r =
     map_option (\<lambda>(s, t, g). case s of None \<Rightarrow> (t, g) | Some s' \<Rightarrow> (slot_write t s' v, g)) r"

definition incr_slot :: "u64 \<Rightarrow> set_result \<Rightarrow> (ktap_tab \<times> ktap_global) option" where
  "incr_slot n r =
     map_option (\<lambda>(s, t, g).
       case s of
         None \<Rightarrow> (t, g)
       | Some s' \<Rightarrow>
           let v = slot_read t s' in
           if is_number v then (slot_write t s' (set_number (nvalue v + n)), g)
           else if is_nil v then (slot_write t s' (set_number n), g)
           else (t, kp_error (''use '' @ [CHR 39, CHR 43, CHR 61, CHR 39] @ '' operator on non-number value'') g)) r"

definition kp_tab_setint :: "ktap_global \<Rightarrow> ktap_tab \<Rightarrow> u32 \<Rightarrow> ktap_val \<Rightarrow> (ktap_tab \<times> ktap_global) option" where
  "kp_tab_setint g t key v = store_slot v (tab_setint g t key)"

definition kp_tab_incrint :: "ktap_global \<Rightarrow> ktap_tab \<Rightarrow> u32 \<Rightarrow> u64 \<Rightarrow> (ktap_tab \<times> ktap_global) option" where
  "kp_tab_incrint g t key n = incr_slot n (tab_setint g t key)"

definition kp_tab_setstr :: "ktap_global \<Rightarrow> ktap_tab \<Rightarrow> addr \<Rightarrow> ktap_val \<Rightarrow> (ktap_tab \<times> ktap_global) option" where
  "kp_tab_setstr g t key v = store_slot v (tab_setstr g t key)"

definition kp_tab_incrstr :: "ktap_global \<Rightarrow> ktap_tab \<Rightarrow> addr \<Rightarrow> u64 \<Rightarrow> (ktap_tab \<times> ktap_global) option" where
  "kp_tab_incrstr g t key n = incr_slot n (tab_setstr g t key)"

definition kp_tab_set ::
    "tab_env \<Rightarrow> ktap_global \<Rightarrow> ktap_tab \<Rightarrow> ktap_val \<Rightarrow> ktap_val \<Rightarrow> (ktap_tab \<times> ktap_global) option" where
  "kp_tab_set env g t key v = store_slot v (tab_set env g t key)"

definition kp_tab_incr ::
    "tab_env \<Rightarrow> ktap_global \<Rightarrow> ktap_tab \<Rightarrow> ktap_val \<Rightarrow> u64 \<Rightarrow> (ktap_tab \<times> ktap_global) option" where
  "kp_tab_incr env g t key n = incr_slot n (tab_set env g t key)"



section \<open>Duplication\<close>

text \<open>
  \<^verbatim>\<open>kp_tab_dup\<close> copies into a table of the default size: an array part with more than 256 entries is
  written past the end of the new array, and a table without a hash part has its uninitialised
  node pointer read; both are faults.
\<close>

fun dup_nodes :: "tab_env \<Rightarrow> ktap_global \<Rightarrow> ktap_tab \<Rightarrow> ktap_node list \<Rightarrow> (ktap_tab \<times> ktap_global) option" where
  "dup_nodes env g t [] = Some (t, g)"
| "dup_nodes env g t (n # ns) =
     (if is_nil (n_key n) then dup_nodes env g t ns
      else do {
        (t1, g1) \<leftarrow> kp_tab_set env g t (n_key n) (n_val n);
        dup_nodes env g1 t1 ns
      })"

definition kp_tab_dup ::
    "tab_mem \<Rightarrow> tab_env \<Rightarrow> ktap_global \<Rightarrow> ktap_tab \<Rightarrow> (ktap_tab option \<times> ktap_global) option" where
  "kp_tab_dup tm env g kt =
     do {
       (r, g1) \<leftarrow> kp_tab_new_ah tm g 0 0;
       case r of
         None \<Rightarrow> Some (None, g1)
       | Some t \<Rightarrow>
           if unat (asize kt) > length (tarray t) \<or> unat (asize kt) > length (tarray kt) then None
           else if length (tnode kt) \<le> unat (hmask kt) then None
           else do {
             (t2, g2) \<leftarrow> dup_nodes env g1
                (t\<lparr>tarray := take (unat (asize kt)) (tarray kt) @ drop (unat (asize kt)) (tarray t)\<rparr>)
                (take (Suc (unat (hmask kt))) (tnode kt));
             Some (Some t2, g2)
           }
     }"


section \<open>Traversal and length\<close>

definition keyindex :: "ktap_global \<Rightarrow> ktap_tab \<Rightarrow> ktap_val \<Rightarrow> (u32 \<times> ktap_global) option" where
  "keyindex g t key =
     (let k = ucast (nvalue key) :: u32 in
      if is_number key \<and> k < asize t \<and> nvalue key = ucast k then Some (k, g)
      else if \<not> is_nil key then
        do {
          i \<leftarrow> hashkey g t key;
          r \<leftarrow> chain_find (key_is_val key) t i;
          case r of
            Some n \<Rightarrow> Some (asize t + of_nat n, g)
          | None \<Rightarrow> Some (0, kp_error ''table next index'' g)
        }
      else Some (NOT 0, g))"

text \<open>The two loops of \<^verbatim>\<open>kp_tab_next\<close>: the first non-nil slot of the array from \<open>i\<close>, then of the nodes.\<close>

definition next_array :: "ktap_tab \<Rightarrow> nat \<Rightarrow> nat option" where
  "next_array t i = List.find (\<lambda>j. \<not> is_nil (tarray t ! j)) [i..<unat (asize t)]"

definition next_node :: "ktap_tab \<Rightarrow> nat \<Rightarrow> nat option" where
  "next_node t i = List.find (\<lambda>j. \<not> is_nil (n_val (tnode t ! j))) [i..<Suc (unat (hmask t))]"

definition kp_tab_next ::
    "ktap_global \<Rightarrow> ktap_tab \<Rightarrow> ktap_val \<Rightarrow> ((ktap_val \<times> ktap_val) option \<times> ktap_global) option" where
  "kp_tab_next g t key =
     do {
       (i0, g1) \<leftarrow> keyindex g t key;
       (let i = i0 + 1 in
        if i < asize t \<and> length (tarray t) < unat (asize t) then None
        else case next_array t (unat i) of
            Some j \<Rightarrow> Some (Some (set_number (of_nat j), tarray t ! j), g1)
          | None \<Rightarrow>
              (let i2 = (if i < asize t then asize t else i) - asize t in
               if i2 \<le> hmask t \<and> length (tnode t) \<le> unat (hmask t) then None
               else case next_node t (unat i2) of
                   Some j \<Rightarrow> Some (Some (n_key (tnode t ! j), n_val (tnode t ! j)), g1)
                 | None \<Rightarrow> Some (None, g1)))
     }"

definition kp_tab_len :: "ktap_tab \<Rightarrow> nat option" where
  "kp_tab_len t =
     (if length (tarray t) < unat (asize t) \<or> length (tnode t) \<le> unat (hmask t) then None
      else Some (length (filter (\<lambda>v. \<not> is_nil v) (take (unat (asize t)) (tarray t))) +
                 length (filter (\<lambda>n. \<not> is_nil (n_key n)) (take (Suc (unat (hmask t))) (tnode t)))))"

end
