(* ===== verification/Ktap_Tab_Correct.thy ===== *)
theory Ktap_Tab_Correct
  imports Ktap_Tab
begin

text \<open>
  Correctness of the tables of \<^verbatim>\<open>runtime/kp_tab.c\<close>: the invariant of the hash part, that the insertion
  with Brent's variation keeps it, and that a well-formed table is a finite map from keys to
  values on which \<^verbatim>\<open>kp_tab_get\<close>, \<^verbatim>\<open>kp_tab_set\<close>, \<^verbatim>\<open>kp_tab_incr\<close> and \<^verbatim>\<open>kp_tab_next\<close> are lookup, update,
  addition and enumeration.
\<close>

section \<open>Chains of nodes\<close>

fun npath :: "ktap_node list \<Rightarrow> nat option \<Rightarrow> nat list \<Rightarrow> bool" where
  "npath ns x [] \<longleftrightarrow> x = None"
| "npath ns x (i # is) \<longleftrightarrow> x = Some i \<and> i < length ns \<and> npath ns (n_next (ns ! i)) is"

lemma npath_unique: "npath ns x p \<Longrightarrow> npath ns x q \<Longrightarrow> p = q"
proof (induction p arbitrary: x q)
  case Nil
  then show ?case by (cases q) auto
next
  case (Cons i p)
  then show ?case by (cases q) auto
qed

lemma npath_suffix: "npath ns x p \<Longrightarrow> i \<in> set p \<Longrightarrow> \<exists>q. npath ns (Some i) (i # q) \<and> length q < length p"
  by (induction p arbitrary: x) (auto, force+)

lemma npath_distinct: "npath ns x p \<Longrightarrow> distinct p"
proof (induction p arbitrary: x)
  case (Cons i p)
  have "i \<notin> set p"
  proof
    assume "i \<in> set p"
    with Cons.prems obtain q where q: "npath ns (Some i) (i # q)" "length q < length p"
      using npath_suffix [of ns "n_next (ns ! i)" p i] by auto
    with Cons.prems have "p = q" using npath_unique [of ns "Some i" "i # p" "i # q"] by simp
    with q show False by simp
  qed
  with Cons show ?case by auto
qed simp

lemma npath_bound: "npath ns x p \<Longrightarrow> i \<in> set p \<Longrightarrow> i < length ns"
  by (induction p arbitrary: x) auto

lemma npath_length: "npath ns x p \<Longrightarrow> length p \<le> length ns"
  using npath_distinct [of ns x p] npath_bound [of ns x p]
  by (metis card_lessThan card_mono distinct_card finite_lessThan lessThan_iff subsetI)

lemma npath_pred: "npath ns (Some a) p \<Longrightarrow> b \<in> set p \<Longrightarrow> b = a \<or> (\<exists>j<length ns. n_next (ns ! j) = Some b)"
proof (induction p arbitrary: a)
  case (Cons i p)
  then show ?case by (cases "n_next (ns ! i)"; cases p) auto
qed simp

lemma npath_map:
  assumes "\<And>i. i \<in> set p \<Longrightarrow> sw i < length ns' \<and> n_next (ns' ! sw i) = map_option sw (n_next (ns ! i))"
  shows "npath ns x p \<Longrightarrow> npath ns' (map_option sw x) (map sw p)"
  using assms by (induction p arbitrary: x) auto

lemma npath_cong:
  assumes "length ns' = length ns" "\<And>i. i < length ns \<Longrightarrow> n_next (ns' ! i) = n_next (ns ! i)"
  shows "npath ns' x p \<longleftrightarrow> npath ns x p"
  using assms by (induction p arbitrary: x) auto

lemma npath_insert:
  assumes "length ns' = length ns" "fr < length ns" "fr \<notin> set p"
    and "n_next (ns' ! n) = Some fr" "n_next (ns' ! fr) = n_next (ns ! n)"
    and "\<And>i. i < length ns \<Longrightarrow> i \<noteq> n \<Longrightarrow> i \<noteq> fr \<Longrightarrow> n_next (ns' ! i) = n_next (ns ! i)"
  shows "npath ns x p \<Longrightarrow> npath ns' x (concat (map (\<lambda>i. if i = n then [n, fr] else [i]) p))"
  using assms by (induction p arbitrary: x) auto

definition reaches :: "ktap_node list \<Rightarrow> nat \<Rightarrow> nat \<Rightarrow> bool" where
  "reaches ns a b \<longleftrightarrow> (\<exists>p. npath ns (Some a) p \<and> b \<in> set p)"

lemma reaches_refl: "npath ns (Some a) p \<Longrightarrow> reaches ns a a"
  unfolding reaches_def by (intro exI [of _ p], cases p) auto

lemma reaches_cong:
  assumes "length ns' = length ns" "\<And>i. i < length ns \<Longrightarrow> n_next (ns' ! i) = n_next (ns ! i)"
  shows "reaches ns' a b \<longleftrightarrow> reaches ns a b"
  using npath_cong [OF assms] by (simp add: reaches_def)

section \<open>The walk and the searches on well-formed chains\<close>

lemma node_walk_find:
  "npath ns (Some i) p \<Longrightarrow> length p \<le> fuel \<Longrightarrow>
   node_walk P ns fuel i = Some (List.find (\<lambda>j. P (ns ! j)) p)"
proof (induction fuel arbitrary: i p)
  case (Suc fuel)
  then obtain q where q: "p = i # q" "i < length ns" "npath ns (n_next (ns ! i)) q" "length q \<le> fuel"
    by (cases p) auto
  show ?case
  proof (cases "n_next (ns ! i)")
    case None
    with q show ?thesis by (cases q) auto
  next
    case (Some j)
    with q Suc.IH [of j q] show ?thesis by auto
  qed
qed (auto elim: npath.elims)

lemma find_pred_ok:
  "npath ns (Some c) p \<Longrightarrow> n \<in> set p \<Longrightarrow> c \<noteq> n \<Longrightarrow> length p \<le> fuel \<Longrightarrow>
    \<exists>q. find_pred ns fuel c n = Some q \<and> q < length ns \<and> n_next (ns ! q) = Some n"
proof (induction fuel arbitrary: c p)
  case (Suc fuel)
  then obtain r where r: "p = c # r" "c < length ns" "npath ns (n_next (ns ! c)) r" "n \<in> set r" "length r \<le> fuel"
    by (cases p) auto
  then obtain d where d: "n_next (ns ! c) = Some d" by (cases r) auto
  then show ?case using r Suc.IH [of d r] by auto
qed auto

lemma find_free_ok:
  assumes "ft \<le> length ns"
  shows "(\<exists>i. find_free ns ft = Some (Some i) \<and> i < ft \<and> is_nil (n_key (ns ! i)) \<and>
             (\<forall>j. i < j \<longrightarrow> j < ft \<longrightarrow> \<not> is_nil (n_key (ns ! j)))) \<or>
         find_free ns ft = Some None \<and> (\<forall>j<ft. \<not> is_nil (n_key (ns ! j)))"
  using assms
proof (induction ft)
  case (Suc i)
  then show ?case by (cases "is_nil (n_key (ns ! i))") (auto simp: less_Suc_eq)
qed simp

section \<open>The invariant of the hash part\<close>

text \<open>
  \<open>M\<close> is the main position of a key.  The chains are acyclic and disjoint; every key is in the chain
  that starts at its main position (\<open>homed\<close>), and the key at that position is at home there too
  (\<open>main_owned\<close>); a node with a nil key is empty and unlinked; there is no free node from \<^verbatim>\<open>freetop\<close> on;
  no key is stored twice.
\<close>

definition acyclic_links :: "ktap_node list \<Rightarrow> bool" where
  "acyclic_links ns \<longleftrightarrow> (\<forall>i<length ns. \<exists>p. npath ns (Some i) p)"

definition one_pred :: "ktap_node list \<Rightarrow> bool" where
  "one_pred ns \<longleftrightarrow> (\<forall>i<length ns. \<forall>k<length ns. \<forall>j. n_next (ns ! i) = Some j \<longrightarrow> n_next (ns ! k) = Some j \<longrightarrow> i = k)"

definition homed :: "(ktap_val \<Rightarrow> nat) \<Rightarrow> ktap_node list \<Rightarrow> bool" where
  "homed M ns \<longleftrightarrow> (\<forall>i<length ns. \<not> is_nil (n_key (ns ! i)) \<longrightarrow>
     M (n_key (ns ! i)) < length ns \<and> reaches ns (M (n_key (ns ! i))) i)"

definition main_owned :: "(ktap_val \<Rightarrow> nat) \<Rightarrow> ktap_node list \<Rightarrow> bool" where
  "main_owned M ns \<longleftrightarrow> (\<forall>i<length ns. \<not> is_nil (n_key (ns ! i)) \<longrightarrow>
     \<not> is_nil (n_key (ns ! M (n_key (ns ! i)))) \<and> M (n_key (ns ! M (n_key (ns ! i)))) = M (n_key (ns ! i)))"

definition nil_unlinked :: "ktap_node list \<Rightarrow> bool" where
  "nil_unlinked ns \<longleftrightarrow> (\<forall>i<length ns. is_nil (n_key (ns ! i)) \<longrightarrow>
     is_nil (n_val (ns ! i)) \<and> n_next (ns ! i) = None \<and> (\<forall>j<length ns. n_next (ns ! j) \<noteq> Some i))"

definition free_below :: "ktap_node list \<Rightarrow> nat \<Rightarrow> bool" where
  "free_below ns ft \<longleftrightarrow> ft \<le> length ns \<and> (\<forall>i. ft \<le> i \<longrightarrow> i < length ns \<longrightarrow> \<not> is_nil (n_key (ns ! i)))"

definition keys_unique :: "ktap_node list \<Rightarrow> bool" where
  "keys_unique ns \<longleftrightarrow> (\<forall>i<length ns. \<forall>j<length ns. \<not> is_nil (n_key (ns ! i)) \<longrightarrow>
     val_key (n_key (ns ! i)) = val_key (n_key (ns ! j)) \<longrightarrow> i = j)"

definition nodes_inv :: "(ktap_val \<Rightarrow> nat) \<Rightarrow> ktap_node list \<Rightarrow> nat \<Rightarrow> bool" where
  "nodes_inv M ns ft \<longleftrightarrow> acyclic_links ns \<and> one_pred ns \<and> homed M ns \<and> main_owned M ns \<and>
     nil_unlinked ns \<and> free_below ns ft \<and> keys_unique ns"

lemma nodes_invD:
  assumes "nodes_inv M ns ft"
  shows "acyclic_links ns" "one_pred ns" "homed M ns" "main_owned M ns" "nil_unlinked ns" "free_below ns ft"
    "keys_unique ns"
  using assms by (simp_all add: nodes_inv_def)

lemma one_predD: "one_pred ns \<Longrightarrow> i < length ns \<Longrightarrow> k < length ns \<Longrightarrow> n_next (ns ! i) = Some j \<Longrightarrow>
    n_next (ns ! k) = Some j \<Longrightarrow> i = k"
  unfolding one_pred_def by blast

lemma homedD: "homed M ns \<Longrightarrow> i < length ns \<Longrightarrow> \<not> is_nil (n_key (ns ! i)) \<Longrightarrow>
    M (n_key (ns ! i)) < length ns \<and> reaches ns (M (n_key (ns ! i))) i"
  unfolding homed_def by blast

lemma main_ownedD: "main_owned M ns \<Longrightarrow> i < length ns \<Longrightarrow> \<not> is_nil (n_key (ns ! i)) \<Longrightarrow>
    \<not> is_nil (n_key (ns ! M (n_key (ns ! i)))) \<and> M (n_key (ns ! M (n_key (ns ! i)))) = M (n_key (ns ! i))"
  unfolding main_owned_def by blast

lemma nil_unlinkedD: "nil_unlinked ns \<Longrightarrow> i < length ns \<Longrightarrow> is_nil (n_key (ns ! i)) \<Longrightarrow>
    is_nil (n_val (ns ! i)) \<and> n_next (ns ! i) = None"
  "nil_unlinked ns \<Longrightarrow> i < length ns \<Longrightarrow> is_nil (n_key (ns ! i)) \<Longrightarrow> j < length ns \<Longrightarrow> n_next (ns ! j) \<noteq> Some i"
  unfolding nil_unlinked_def by blast+

lemma no_self_link:
  assumes "acyclic_links ns" "n < length ns"
  shows "n_next (ns ! n) \<noteq> Some n"
proof
  assume loop: "n_next (ns ! n) = Some n"
  obtain p where "npath ns (Some n) p" using assms by (auto simp: acyclic_links_def)
  moreover from this obtain q where "p = n # q" by (cases p) auto
  ultimately show False using loop npath_unique [of ns "Some n" "n # q" q] by simp
qed

lemma keys_uniqueD: "keys_unique ns \<Longrightarrow> i < length ns \<Longrightarrow> j < length ns \<Longrightarrow> \<not> is_nil (n_key (ns ! i)) \<Longrightarrow>
    val_key (n_key (ns ! i)) = val_key (n_key (ns ! j)) \<Longrightarrow> i = j"
  unfolding keys_unique_def by blast

lemma nodes_inv_cong:
  assumes "nodes_inv M ns ft" "length ns' = length ns"
    and "\<And>i. i < length ns \<Longrightarrow> n_next (ns' ! i) = n_next (ns ! i) \<and> n_key (ns' ! i) = n_key (ns ! i) \<and>
       (is_nil (n_key (ns ! i)) \<longrightarrow> is_nil (n_val (ns' ! i)))"
  shows "nodes_inv M ns' ft"
proof -
  have r: "reaches ns' a b = reaches ns a b" "npath ns' x p = npath ns x p" for a b x p
    using assms(2,3) by (auto intro!: reaches_cong npath_cong)
  note inv = nodes_invD [OF assms(1)]
  have "acyclic_links ns'" using inv(1) by (simp add: acyclic_links_def r assms(2))
  moreover have "one_pred ns'" using one_predD [OF inv(2)] assms(3) unfolding one_pred_def assms(2) by simp
  moreover have "homed M ns'" using homedD [OF inv(3)] assms(3) unfolding homed_def assms(2) r by simp
  moreover have "main_owned M ns'"
    using main_ownedD [OF inv(4)] homedD [OF inv(3)] assms(3) unfolding main_owned_def assms(2) by simp
  moreover have "nil_unlinked ns'"
    using nil_unlinkedD [OF inv(5)] assms(3) unfolding nil_unlinked_def assms(2) by simp
  moreover have "free_below ns' ft" using inv(6) assms(3) unfolding free_below_def assms(2) by simp
  moreover have "keys_unique ns'" using keys_uniqueD [OF inv(7)] assms(3) unfolding keys_unique_def assms(2) by simp
  ultimately show ?thesis by (simp add: nodes_inv_def)
qed

section \<open>Insertion of a new key keeps the invariant\<close>

text \<open>The new key has not been in the table.\<close>

definition fresh_key :: "ktap_node list \<Rightarrow> ktap_val \<Rightarrow> bool" where
  "fresh_key ns k \<longleftrightarrow> (\<forall>i<length ns. \<not> is_nil (n_key (ns ! i)) \<longrightarrow> val_key (n_key (ns ! i)) \<noteq> val_key k)"

lemma val_key_nil: "val_key a = val_key b \<Longrightarrow> is_nil a = is_nil b"
  by (auto simp: val_key_def is_type_defs)

lemma keys_unique_upd:
  assumes "keys_unique ns" "fresh_key ns k" "length ns' = length ns" "\<not> is_nil k" "m < length ns"
    and "f ` ({..<length ns} - {m}) \<subseteq> {..<length ns}" "inj_on f ({..<length ns} - {m})"
    and "n_key (ns' ! m) = k" "\<And>i. i < length ns \<Longrightarrow> i \<noteq> m \<Longrightarrow> n_key (ns' ! i) = n_key (ns ! f i)"
  shows "keys_unique ns'"
proof -
  have fr: "val_key (n_key (ns ! f i)) \<noteq> val_key k" if "i < length ns" "i \<noteq> m" for i
  proof
    assume eq: "val_key (n_key (ns ! f i)) = val_key k"
    moreover have "f i < length ns" using that assms(6) by auto
    ultimately show False using assms(2,4) val_key_nil [OF eq] by (auto simp: fresh_key_def)
  qed
  show ?thesis unfolding keys_unique_def assms(3)
  proof (intro allI impI)
    fix i j
    assume ij: "i < length ns" "j < length ns" "\<not> is_nil (n_key (ns' ! i))"
      and eq: "val_key (n_key (ns' ! i)) = val_key (n_key (ns' ! j))"
    show "i = j"
    proof (cases "i = m \<or> j = m")
      case True
      then show ?thesis using ij eq fr assms(8,9) by metis
    next
      case False
      then have "f i < length ns" "f j < length ns" using ij assms(6) by auto
      with False ij eq assms(9) have "f i = f j" using keys_uniqueD [OF assms(1)] by metis
      with False ij assms(7) show ?thesis by (auto dest: inj_onD)
    qed
  qed
qed

lemma newkey_in_place:
  assumes inv: "nodes_inv M ns ft" and n: "n < length ns" "M k = n" and "\<not> is_nil k" "fresh_key ns k"
  defines "ns' \<equiv> ns[n := (ns ! n)\<lparr>n_key := k\<rparr>]"
  shows "nodes_inv M ns' ft"
proof -
  note inv = nodes_invD [OF inv]
  have l: "length ns' = length ns" by (simp add: ns'_def)
  have nx: "n_next (ns' ! i) = n_next (ns ! i)" if "i < length ns" for i
    using that by (cases "i = n") (simp_all add: ns'_def)
  have ky: "n_key (ns' ! i) = (if i = n then k else n_key (ns ! i))" "n_val (ns' ! i) = n_val (ns ! i)"
    if "i < length ns" for i
    using that n by (auto simp: ns'_def nth_list_update)
  have r: "reaches ns' a b = reaches ns a b" "npath ns' x p = npath ns x p" for a b x p
    using l nx by (auto intro!: reaches_cong npath_cong)
  have "acyclic_links ns'" using inv(1) by (simp add: acyclic_links_def r l)
  moreover have "one_pred ns'" using one_predD [OF inv(2)] nx unfolding one_pred_def l by simp
  moreover have "homed M ns'"
    unfolding homed_def l r
  proof (intro allI impI)
    fix i assume i: "i < length ns" "\<not> is_nil (n_key (ns' ! i))"
    obtain p where "npath ns (Some n) p" using inv(1) n by (auto simp: acyclic_links_def)
    then have "reaches ns n n" by (rule reaches_refl)
    then show "M (n_key (ns' ! i)) < length ns \<and> reaches ns (M (n_key (ns' ! i))) i"
      using i homedD [OF inv(3), of i] n by (auto simp: ky split: if_splits)
  qed
  moreover have "main_owned M ns'"
    unfolding main_owned_def l
  proof (intro allI impI)
    fix i assume i: "i < length ns" "\<not> is_nil (n_key (ns' ! i))"
    show "\<not> is_nil (n_key (ns' ! M (n_key (ns' ! i)))) \<and> M (n_key (ns' ! M (n_key (ns' ! i)))) = M (n_key (ns' ! i))"
    proof (cases "i = n")
      case True
      then show ?thesis using n assms(4) by (simp add: ky)
    next
      case False
      with i have "\<not> is_nil (n_key (ns ! i))" by (simp add: ky)
      with i False n assms(4) homedD [OF inv(3), of i] main_ownedD [OF inv(4), of i] show ?thesis by (simp add: ky)
    qed
  qed
  moreover have "nil_unlinked ns'"
    using nil_unlinkedD [OF inv(5)] assms(4) unfolding nil_unlinked_def l by (simp add: ky nx)
  moreover have "free_below ns' ft" using inv(6) assms(4) unfolding free_below_def l by (simp add: ky)
  moreover have "keys_unique ns'"
    by (rule keys_unique_upd [OF inv(7) assms(5) l assms(4) n(1), where f = "\<lambda>i. i"]) (auto simp: ky n)
  ultimately show ?thesis by (simp add: nodes_inv_def)
qed

lemma newkey_use_free:
  assumes inv: "nodes_inv M ns ft" and n: "n < length ns" "M k = n" and "\<not> is_nil k" "fresh_key ns k"
    and nk: "\<not> is_nil (n_key (ns ! n))" "M (n_key (ns ! n)) = n"
    and fr: "fr < ft" "is_nil (n_key (ns ! fr))" "\<And>j. fr < j \<Longrightarrow> j < ft \<Longrightarrow> \<not> is_nil (n_key (ns ! j))"
  defines "ns2 \<equiv> set_next (set_next ns fr (n_next (ns ! n))) n (Some fr)"
  defines "ns' \<equiv> ns2[fr := (ns2 ! fr)\<lparr>n_key := k\<rparr>]"
  shows "nodes_inv M ns' fr"
proof -
  note inv = nodes_invD [OF inv]
  have ft: "ft \<le> length ns" using inv(6) by (simp add: free_below_def)
  have frl: "fr < length ns" using fr ft by simp
  have ne: "fr \<noteq> n" using nk fr by auto
  have l: "length ns' = length ns" by (simp add: ns'_def ns2_def set_next_def)
  have nx: "n_next (ns' ! i) = (if i = fr then n_next (ns ! n) else if i = n then Some fr else n_next (ns ! i))"
    if "i < length ns" for i
    using that n frl ne by (auto simp: ns'_def ns2_def set_next_def nth_list_update)
  have ky: "n_key (ns' ! i) = (if i = fr then k else n_key (ns ! i))" "n_val (ns' ! i) = n_val (ns ! i)"
    if "i < length ns" for i
    using that n frl ne by (auto simp: ns'_def ns2_def set_next_def nth_list_update)
  have nofr: "n_next (ns ! j) \<noteq> Some fr" if "j < length ns" for j
    using nil_unlinkedD(2) [OF inv(5) frl fr(2) that] .
  have path: "npath ns' (Some a) (concat (map (\<lambda>i. if i = n then [n, fr] else [i]) p))"
    if "npath ns (Some a) p" "a \<noteq> fr" for a p
  proof (rule npath_insert [OF l frl _ _ _ _ that(1)])
    show "fr \<notin> set p" using npath_pred [OF that(1)] nofr that(2) by auto
  qed (use nx n frl ne in auto)
  have reach: "reaches ns' a b" if "reaches ns a b" "a \<noteq> fr" for a b
    using that path unfolding reaches_def by (fastforce split: if_splits)
  obtain q where q: "npath ns (Some n) (n # q)"
    using inv(1) n unfolding acyclic_links_def by (metis npath.simps(1) npath.simps(2) neq_Nil_conv option.inject option.distinct(1))
  have npath_n: "npath ns' (Some n) (n # fr # concat (map (\<lambda>i. if i = n then [n, fr] else [i]) q))"
    using path [OF q] ne by simp
  have "acyclic_links ns'"
    unfolding acyclic_links_def l
  proof (intro allI impI)
    fix i assume i: "i < length ns"
    show "\<exists>p. npath ns' (Some i) p"
    proof (cases "i = fr")
      case True
      from npath_n have "npath ns' (Some fr) (fr # concat (map (\<lambda>i. if i = n then [n, fr] else [i]) q))" by simp
      with True show ?thesis by blast
    next
      case False
      with i inv(1) path show ?thesis unfolding acyclic_links_def by blast
    qed
  qed
  moreover have "one_pred ns'"
    unfolding one_pred_def l using one_predD [OF inv(2)] nofr n frl ne nil_unlinkedD(1) [OF inv(5) frl fr(2)]
    by (auto simp: nx split: if_splits)
  moreover have "homed M ns'"
    unfolding homed_def l
  proof (intro allI impI)
    fix i assume i: "i < length ns" "\<not> is_nil (n_key (ns' ! i))"
    show "M (n_key (ns' ! i)) < length ns \<and> reaches ns' (M (n_key (ns' ! i))) i"
    proof (cases "i = fr")
      case True
      have "reaches ns' n fr" unfolding reaches_def by (rule exI, rule conjI, rule npath_n) simp
      then show ?thesis using True frl n by (simp add: ky)
    next
      case False
      with i have nn: "\<not> is_nil (n_key (ns ! i))" by (simp add: ky)
      then have "M (n_key (ns ! i)) \<noteq> fr" using main_ownedD [OF inv(4) i(1) nn] fr(2) by auto
      then show ?thesis using False i nn homedD [OF inv(3) i(1) nn] reach by (simp add: ky)
    qed
  qed
  moreover have "main_owned M ns'"
    unfolding main_owned_def l
  proof (intro allI impI)
    fix i assume i: "i < length ns" "\<not> is_nil (n_key (ns' ! i))"
    show "\<not> is_nil (n_key (ns' ! M (n_key (ns' ! i)))) \<and> M (n_key (ns' ! M (n_key (ns' ! i)))) = M (n_key (ns' ! i))"
    proof (cases "i = fr")
      case True
      then show ?thesis using n nk frl ne by (simp add: ky)
    next
      case False
      with i have nn: "\<not> is_nil (n_key (ns ! i))" by (simp add: ky)
      note m = homedD [OF inv(3) i(1) nn] main_ownedD [OF inv(4) i(1) nn]
      then have "M (n_key (ns ! i)) \<noteq> fr" using fr(2) by auto
      then show ?thesis using False i m by (simp add: ky)
    qed
  qed
  moreover have "nil_unlinked ns'"
    unfolding nil_unlinked_def l
  proof (intro allI impI)
    fix i assume i: "i < length ns" "is_nil (n_key (ns' ! i))"
    then have "i \<noteq> fr" using assms(4) by (auto simp: ky)
    with i have nn: "is_nil (n_key (ns ! i))" "i \<noteq> n" using nk by (auto simp: ky)
    then show "is_nil (n_val (ns' ! i)) \<and> n_next (ns' ! i) = None \<and> (\<forall>j<length ns. n_next (ns' ! j) \<noteq> Some i)"
      using i \<open>i \<noteq> fr\<close> nil_unlinkedD [OF inv(5) i(1) nn(1)] n by (auto simp: ky nx)
  qed
  moreover have "free_below ns' fr"
    unfolding free_below_def l
  proof (intro conjI allI impI)
    fix i assume i: "fr \<le> i" "i < length ns"
    show "\<not> is_nil (n_key (ns' ! i))"
      using i fr(3) [of i] inv(6) assms(4) by (cases "i < ft"; cases "i = fr") (auto simp: ky free_below_def)
  qed (use frl in simp)
  moreover have "keys_unique ns'"
    by (rule keys_unique_upd [OF inv(7) assms(5) l assms(4) frl, where f = "\<lambda>i. i"]) (auto simp: ky frl)
  ultimately show ?thesis by (simp add: nodes_inv_def)
qed

lemma newkey_move:
  assumes inv: "nodes_inv M ns ft" and n: "n < length ns" "M k = n" and "\<not> is_nil k" "fresh_key ns k"
    and nk: "\<not> is_nil (n_key (ns ! n))" "M (n_key (ns ! n)) \<noteq> n"
    and fr: "fr < ft" "is_nil (n_key (ns ! fr))" "\<And>j. fr < j \<Longrightarrow> j < ft \<Longrightarrow> \<not> is_nil (n_key (ns ! j))"
    and pd: "pd < length ns" "n_next (ns ! pd) = Some n"
    and l: "length ns' = length ns"
    and nx: "\<And>i. i < length ns \<Longrightarrow> n_next (ns' ! i) = (if i = fr then n_next (ns ! n) else if i = n then None
       else if i = pd then Some fr else n_next (ns ! i))"
    and ky: "\<And>i. i < length ns \<Longrightarrow> n_key (ns' ! i) = (if i = fr then n_key (ns ! n) else if i = n then k else n_key (ns ! i))"
    and vl: "\<And>i. i < length ns \<Longrightarrow> i \<noteq> fr \<Longrightarrow> i \<noteq> n \<Longrightarrow> n_val (ns' ! i) = n_val (ns ! i)"
  shows "nodes_inv M ns' fr"
proof -
  note inv = nodes_invD [OF inv]
  have ft: "ft \<le> length ns" using inv(6) by (simp add: free_below_def)
  have frl: "fr < length ns" using fr ft by simp
  have ne: "fr \<noteq> n" using nk fr by auto
  have nofr: "n_next (ns ! j) \<noteq> Some fr" if "j < length ns" for j
    using nil_unlinkedD(2) [OF inv(5) frl fr(2) that] .
  have frn: "n_next (ns ! fr) = None" using nil_unlinkedD(1) [OF inv(5) frl fr(2)] by simp
  have prn: "pd \<noteq> fr" using frn pd by auto
  note self = no_self_link [OF inv(1) n(1)]
  define sw where "sw = (\<lambda>i. if i = n then fr else i)"
  have step: "sw i < length ns' \<and> n_next (ns' ! sw i) = map_option sw (n_next (ns ! i))"
    if "i < length ns" "i \<noteq> fr" for i
  proof (cases "n_next (ns ! i)")
    case None
    then show ?thesis using that n frl pd l by (auto simp: sw_def nx)
  next
    case (Some j)
    then show ?thesis using that n frl pd l self one_predD [OF inv(2) that(1) pd(1)] by (auto simp: sw_def nx)
  qed
  have path: "npath ns' (Some (sw a)) (map sw p)" if "npath ns (Some a) p" "a \<noteq> fr" for a p
  proof -
    have "fr \<notin> set p" using npath_pred [OF that(1)] nofr that(2) by auto
    then show ?thesis using npath_map [of p sw ns' ns "Some a"] that(1) step npath_bound [OF that(1)] by auto
  qed
  have reach: "reaches ns' (sw a) (sw b)" if "reaches ns a b" "a \<noteq> fr" for a b
    using that path unfolding reaches_def by fastforce
  have pn: "npath ns' (Some n) [n]" using n ne by (simp add: nx l)
  have "acyclic_links ns'"
    unfolding acyclic_links_def l
  proof (intro allI impI)
    fix i assume i: "i < length ns"
    define a where "a = (if i = fr then n else i)"
    have "i = n \<or> (a < length ns \<and> a \<noteq> fr \<and> i = sw a)"
      using i n ne by (auto simp: a_def sw_def)
    then show "\<exists>p. npath ns' (Some i) p" using pn path inv(1) unfolding acyclic_links_def by blast
  qed
  moreover have "one_pred ns'"
    unfolding one_pred_def l
  proof (intro allI impI)
    fix i j m assume ij: "i < length ns" "j < length ns" "n_next (ns' ! i) = Some m" "n_next (ns' ! j) = Some m"
    have np: "n_next (ns ! i) \<noteq> Some n" if "i < length ns" "i \<noteq> pd" for i
      using one_predD [OF inv(2) that(1) pd(1)] that pd by auto
    show "i = j"
      using ij one_predD [OF inv(2)] nofr n frl pd np by (auto simp: nx split: if_splits)
  qed
  moreover have mm: "M (n_key (ns ! i)) \<noteq> n \<and> M (n_key (ns ! i)) \<noteq> fr" if "i < length ns" "\<not> is_nil (n_key (ns ! i))" for i
    using main_ownedD [OF inv(4) that] nk fr(2) by auto
  moreover have "homed M ns'"
    unfolding homed_def l
  proof (intro allI impI)
    fix i assume i: "i < length ns" "\<not> is_nil (n_key (ns' ! i))"
    show "M (n_key (ns' ! i)) < length ns \<and> reaches ns' (M (n_key (ns' ! i))) i"
    proof (cases "i = n")
      case True
      then show ?thesis using n ne reaches_refl [OF pn] by (simp add: ky)
    next
      case False
      define b where "b = (if i = fr then n else i)"
      have b: "b < length ns" "\<not> is_nil (n_key (ns ! b))" "sw b = i" "n_key (ns' ! i) = n_key (ns ! b)"
        using i False n nk by (auto simp: b_def sw_def ky split: if_splits)
      show ?thesis using homedD [OF inv(3) b(1,2)] reach [of "M (n_key (ns ! b))" b] mm [OF b(1,2)] b(3,4)
        by (auto simp: sw_def)
    qed
  qed
  moreover have "main_owned M ns'"
    unfolding main_owned_def l
  proof (intro allI impI)
    fix i assume i: "i < length ns" "\<not> is_nil (n_key (ns' ! i))"
    show "\<not> is_nil (n_key (ns' ! M (n_key (ns' ! i)))) \<and> M (n_key (ns' ! M (n_key (ns' ! i)))) = M (n_key (ns' ! i))"
    proof (cases "i = n")
      case True
      then show ?thesis using n ne assms(4) by (simp add: ky)
    next
      case False
      define b where "b = (if i = fr then n else i)"
      have b: "b < length ns" "\<not> is_nil (n_key (ns ! b))" "n_key (ns' ! i) = n_key (ns ! b)"
        using i False n nk by (auto simp: b_def ky split: if_splits)
      show ?thesis using homedD [OF inv(3) b(1,2)] main_ownedD [OF inv(4) b(1,2)] mm [OF b(1,2)]
        by (simp add: ky b(3))
    qed
  qed
  moreover have "nil_unlinked ns'"
    unfolding nil_unlinked_def l
  proof (intro allI impI)
    fix i assume i: "i < length ns" "is_nil (n_key (ns' ! i))"
    then have ii: "i \<noteq> fr" "i \<noteq> n" using assms(4) nk by (auto simp: ky split: if_splits)
    with i have nn: "is_nil (n_key (ns ! i))" by (auto simp: ky)
    have "i \<noteq> pd" using nil_unlinkedD(1) [OF inv(5) i(1) nn] pd by auto
    then show "is_nil (n_val (ns' ! i)) \<and> n_next (ns' ! i) = None \<and> (\<forall>j<length ns. n_next (ns' ! j) \<noteq> Some i)"
      using i ii nil_unlinkedD [OF inv(5) i(1) nn] n vl by (auto simp: nx)
  qed
  moreover have "free_below ns' fr"
    unfolding free_below_def l
  proof (intro conjI allI impI)
    fix i assume i: "fr \<le> i" "i < length ns"
    show "\<not> is_nil (n_key (ns' ! i))"
      using i fr(3) [of i] inv(6) assms(4) nk by (cases "i < ft"; cases "i = fr") (auto simp: ky free_below_def)
  qed (use frl in simp)
  moreover have "keys_unique ns'"
    by (rule keys_unique_upd [OF inv(7) assms(5) l assms(4) n(1), where f = "\<lambda>i. if i = fr then n else i"])
      (use ne in \<open>auto simp: ky n inj_on_def\<close>)
  ultimately show ?thesis by (simp add: nodes_inv_def)
qed

section \<open>The invariant and the abstraction of a table\<close>

definition key_ok :: "ktap_global \<Rightarrow> ktap_val \<Rightarrow> bool" where
  "key_ok g k \<longleftrightarrow> \<not> is_nil k \<and> itype k \<noteq> KTAP_TLIGHTUD \<and> (is_string k \<longrightarrow> strobjs g (rawtsvalue k) \<noteq> None)"

definition main_pos :: "ktap_global \<Rightarrow> ktap_tab \<Rightarrow> ktap_val \<Rightarrow> nat" where
  "main_pos g t k = the (hashkey g t k)"

definition arr_key :: "ktap_tab \<Rightarrow> u32 \<times> u64 \<Rightarrow> bool" where
  "arr_key t vk \<longleftrightarrow> fst vk = KTAP_TNUM \<and> unat (snd vk) < unat (asize t)"

definition tab_inv :: "ktap_global \<Rightarrow> ktap_tab \<Rightarrow> bool" where
  "tab_inv g t \<longleftrightarrow> hmask t \<noteq> 0 \<and> length (tnode t) = Suc (unat (hmask t)) \<and> length (tarray t) = unat (asize t) \<and>
     nodes_inv (main_pos g t) (tnode t) (freetop t) \<and>
     (\<forall>i<length (tnode t). \<not> is_nil (n_key (tnode t ! i)) \<longrightarrow>
        key_ok g (n_key (tnode t ! i)) \<and> \<not> arr_key t (val_key (n_key (tnode t ! i))))"

definition nonnil :: "ktap_val \<Rightarrow> ktap_val option" where
  "nonnil v = (if is_nil v then None else Some v)"

definition live_node :: "u32 \<times> u64 \<Rightarrow> ktap_node \<Rightarrow> bool" where
  "live_node vk n \<longleftrightarrow> \<not> is_nil (n_key n) \<and> \<not> is_nil (n_val n) \<and> val_key (n_key n) = vk"

definition tab_live :: "ktap_node list \<Rightarrow> u32 \<times> u64 \<Rightarrow> ktap_val option" where
  "tab_live ns vk = map_option n_val (List.find (live_node vk) ns)"

text \<open>The finite map a table stands for: keys by their tag and bits, values that are not nil.\<close>

definition tab_abs :: "ktap_tab \<Rightarrow> u32 \<times> u64 \<Rightarrow> ktap_val option" where
  "tab_abs t vk = (if arr_key t vk then nonnil (tarray t ! unat (snd vk)) else tab_live (tnode t) vk)"

lemma live_iff:
  assumes "keys_unique ns"
  shows "tab_live ns vk = Some v \<longleftrightarrow> (\<exists>i<length ns. live_node vk (ns ! i) \<and> n_val (ns ! i) = v)"
proof
  assume "tab_live ns vk = Some v"
  then show "\<exists>i<length ns. live_node vk (ns ! i) \<and> n_val (ns ! i) = v"
    by (auto simp: tab_live_def find_Some_iff)
next
  assume "\<exists>i<length ns. live_node vk (ns ! i) \<and> n_val (ns ! i) = v"
  then obtain i where i: "i < length ns" "live_node vk (ns ! i)" "n_val (ns ! i) = v" by auto
  then have "\<not> live_node vk (ns ! j)" if "j < i" for j
    using that keys_uniqueD [OF assms, of j i] by (auto simp: live_node_def)
  with i have "List.find (live_node vk) ns = Some (ns ! i)" by (auto simp: find_Some_iff)
  with i show "tab_live ns vk = Some v" by (simp add: tab_live_def)
qed

lemma live_cong:
  assumes "keys_unique ns" "keys_unique ns'"
    and "\<And>v. (\<exists>i<length ns'. live_node vk (ns' ! i) \<and> n_val (ns' ! i) = v) \<longleftrightarrow>
             (\<exists>i<length ns. live_node vk (ns ! i) \<and> n_val (ns ! i) = v)"
  shows "tab_live ns' vk = tab_live ns vk"
proof -
  have "tab_live ns' vk = Some v \<longleftrightarrow> tab_live ns vk = Some v" for v
    using live_iff [OF assms(1)] live_iff [OF assms(2)] assms(3) by simp
  then show ?thesis by (metis option.exhaust)
qed

section \<open>Main positions\<close>

lemma hashkey_ok: "key_ok g k \<Longrightarrow> hashkey g t k = Some (main_pos g t k)"
  by (auto simp: key_ok_def main_pos_def hashkey_def hashstr_def)

lemma hashmask_bound: "hashmask t h < Suc (unat (hmask t))"
  unfolding hashmask_def by (rule and_mask_bound)

lemma main_pos_bound: "key_ok g k \<Longrightarrow> main_pos g t k < Suc (unat (hmask t))"
  using hashmask_bound
  by (auto simp: key_ok_def main_pos_def hashkey_def hashstr_def hashnum_def hashgcref_def Let_def)

lemma main_pos_cong: "val_key a = val_key b \<Longrightarrow> \<not> is_nil a \<Longrightarrow> main_pos g t a = main_pos g t b"
  by (auto simp: val_key_def main_pos_def hashkey_def hashnum_def hashgcref_def boolvalue_def is_type_defs Let_def
      split: if_splits)

lemma main_pos_frame: "hmask t' = hmask t \<Longrightarrow> strobjs g' = strobjs g \<Longrightarrow> main_pos g' t' = main_pos g t"
  by (simp add: fun_eq_iff main_pos_def hashkey_def hashstr_def hashmask_def hashnum_def hashgcref_def)

lemma main_pos_num: "main_pos g t (set_number n) = hashnum t (set_number n)"
  by (simp add: main_pos_def hashkey_def is_type_defs typetag)

lemma main_pos_str: "hashstr g t s = Some i \<Longrightarrow> main_pos g t (set_string s) = i"
  by (simp add: main_pos_def hashkey_def is_type_defs)

section \<open>The rechaining loop does nothing\<close>

lemma rechain_id:
  assumes "\<And>i. i \<in> set (tl p) \<Longrightarrow> is_string (n_key (ns ! i)) \<Longrightarrow> \<exists>h. hashstr g t (rawtsvalue (n_key (ns ! i))) = Some h \<and> h \<noteq> n"
  shows "npath ns (Some fr) p \<Longrightarrow> length p \<le> fuel \<Longrightarrow> rechain g t n fuel ns fr = Some ns"
  using assms
proof (induction fuel arbitrary: fr p)
  case (Suc fuel)
  then obtain q where q: "p = fr # q" "fr < length ns" "npath ns (n_next (ns ! fr)) q" "length q \<le> fuel"
    by (cases p) auto
  show ?case
  proof (cases "n_next (ns ! fr)")
    case None
    with q show ?thesis by simp
  next
    case (Some j)
    with q obtain r where r: "q = j # r" by (cases q) auto
    have "rechain g t n fuel ns j = Some ns"
      by (rule Suc.IH [of j q]) (use q Some r Suc.prems(3) in auto)
    moreover have "is_string (n_key (ns ! j)) \<Longrightarrow> \<exists>h. hashstr g t (rawtsvalue (n_key (ns ! j))) = Some h \<and> h \<noteq> n"
      using Suc.prems(3) [of j] q r by simp
    moreover have "j < length ns" using q r by simp
    ultimately show ?thesis using q Some by auto
  qed
qed (auto elim: npath.elims)

lemma tab_invD:
  assumes "tab_inv g t"
  shows "hmask t \<noteq> 0" "length (tnode t) = Suc (unat (hmask t))" "length (tarray t) = unat (asize t)"
    "nodes_inv (main_pos g t) (tnode t) (freetop t)"
    "i < length (tnode t) \<Longrightarrow> \<not> is_nil (n_key (tnode t ! i)) \<Longrightarrow> key_ok g (n_key (tnode t ! i))"
    "i < length (tnode t) \<Longrightarrow> \<not> is_nil (n_key (tnode t ! i)) \<Longrightarrow> \<not> arr_key t (val_key (n_key (tnode t ! i)))"
  using assms by (simp_all add: tab_inv_def)

lemma tab_invI:
  assumes "tab_inv g t" "nodes_inv (main_pos g t) ns ft" "length ns = length (tnode t)"
    and "\<And>i. i < length ns \<Longrightarrow> is_nil (n_key (ns ! i)) \<or> n_key (ns ! i) = k \<or> (\<exists>j<length ns. n_key (ns ! i) = n_key (tnode t ! j))"
    and "key_ok g k" "\<not> arr_key t (val_key k)"
    and t': "hmask t' = hmask t" "asize t' = asize t" "tarray t' = tarray t" "tnode t' = ns" "freetop t' = ft"
  shows "tab_inv g t'"
proof -
  have "main_pos g t' = main_pos g t" using t' by (intro main_pos_frame) auto
  moreover have "arr_key t' = arr_key t" using t' by (simp add: arr_key_def fun_eq_iff)
  moreover have "key_ok g (n_key (ns ! i)) \<and> \<not> arr_key t (val_key (n_key (ns ! i)))"
    if "i < length ns" "\<not> is_nil (n_key (ns ! i))" for i
    using assms(4) [OF that(1)] that assms(3,5,6) tab_invD(5,6) [OF assms(1)] by auto
  ultimately show ?thesis using tab_invD(1-3) [OF assms(1)] assms(2,3) t' by (simp add: tab_inv_def)
qed

text \<open>What a successful insertion gives: an empty slot under the new key, the contents unchanged.\<close>

definition free_nodes :: "ktap_tab \<Rightarrow> nat" where
  "free_nodes t = card {i. i < length (tnode t) \<and> is_nil (n_key (tnode t ! i))}"

lemma free_nodes_loses_one:
  assumes "length (tnode t') = length (tnode t)"
    and "\<And>j. j < length (tnode t) \<Longrightarrow> j \<noteq> x \<Longrightarrow> is_nil (n_key (tnode t ! j)) \<Longrightarrow> is_nil (n_key (tnode t' ! j))"
  shows "free_nodes t \<le> Suc (free_nodes t')"
proof -
  let ?F = "\<lambda>t. {i. i < length (tnode t) \<and> is_nil (n_key (tnode t ! i))}"
  have "?F t \<subseteq> insert x (?F t')" using assms by auto
  then have "card (?F t) \<le> card (insert x (?F t'))" by (intro card_mono) auto
  also have "\<dots> \<le> Suc (card (?F t'))" by (rule card_insert_le_m1) auto
  finally show ?thesis by (simp add: free_nodes_def)
qed

definition key_added :: "ktap_global \<Rightarrow> ktap_tab \<Rightarrow> ktap_val \<Rightarrow> nat \<Rightarrow> ktap_tab \<Rightarrow> bool" where
  "key_added g t k i t' \<longleftrightarrow> tab_inv g t' \<and> i < length (tnode t') \<and> n_key (tnode t' ! i) = k \<and>
     is_nil (n_val (tnode t' ! i)) \<and> tab_live (tnode t') = tab_live (tnode t) \<and> tarray t' = tarray t \<and>
     asize t' = asize t \<and> hmask t' = hmask t \<and> hnum t' = hnum t + 1 \<and>
     free_nodes t \<le> Suc (free_nodes t')"

lemma live_swap:
  assumes "keys_unique ns" "keys_unique ns'" "length ns' = length ns"
    and "\<And>i. i < length ns \<Longrightarrow> \<not> is_nil (n_val (ns ! i)) \<Longrightarrow>
        \<exists>j<length ns. n_key (ns' ! j) = n_key (ns ! i) \<and> n_val (ns' ! j) = n_val (ns ! i)"
    and "\<And>j. j < length ns \<Longrightarrow> \<not> is_nil (n_val (ns' ! j)) \<Longrightarrow>
        \<exists>i<length ns. n_key (ns' ! j) = n_key (ns ! i) \<and> n_val (ns' ! j) = n_val (ns ! i)"
  shows "tab_live ns' = tab_live ns"
proof
  fix vk
  show "tab_live ns' vk = tab_live ns vk"
    by (rule live_cong [OF assms(1,2)]) (use assms(3-5) in \<open>auto simp: live_node_def; metis\<close>)
qed

lemma key_addedI:
  assumes inv: "tab_inv g t" and k: "key_ok g k" "\<not> arr_key t (val_key k)"
    and ni: "nodes_inv (main_pos g t) (tnode t') (freetop t')" and l: "length (tnode t') = length (tnode t)"
    and fr: "hmask t' = hmask t" "asize t' = asize t" "tarray t' = tarray t" "hnum t' = hnum t + 1"
    and i: "i < length (tnode t)" "n_key (tnode t' ! i) = k" "is_nil (n_val (tnode t' ! i))"
    and f: "\<And>j. j < length (tnode t) \<Longrightarrow> j \<noteq> i \<Longrightarrow> f j < length (tnode t) \<and>
        n_key (tnode t' ! j) = n_key (tnode t ! f j) \<and> n_val (tnode t' ! j) = n_val (tnode t ! f j)"
    and onto: "\<And>j. j < length (tnode t) \<Longrightarrow> \<not> is_nil (n_val (tnode t ! j)) \<Longrightarrow> \<exists>m<length (tnode t). m \<noteq> i \<and> f m = j"
    and free: "\<And>j. j < length (tnode t) \<Longrightarrow> j \<noteq> x \<Longrightarrow> is_nil (n_key (tnode t ! j)) \<Longrightarrow> is_nil (n_key (tnode t' ! j))"
  shows "key_added g t k i t'"
proof -
  have "tab_inv g t'"
    by (rule tab_invI [OF inv ni l _ k]) (use f i fr l in auto)
  moreover have "tab_live (tnode t') = tab_live (tnode t)"
  proof (rule live_swap [OF _ nodes_invD(7) [OF ni] l])
    show "keys_unique (tnode t)" using nodes_invD(7) tab_invD(4) [OF inv] .
    show "\<exists>m<length (tnode t). n_key (tnode t' ! m) = n_key (tnode t ! j) \<and> n_val (tnode t' ! m) = n_val (tnode t ! j)"
      if "j < length (tnode t)" "\<not> is_nil (n_val (tnode t ! j))" for j
      using onto [OF that] f by metis
    show "\<exists>m<length (tnode t). n_key (tnode t' ! j) = n_key (tnode t ! m) \<and> n_val (tnode t' ! j) = n_val (tnode t ! m)"
      if "j < length (tnode t)" "\<not> is_nil (n_val (tnode t' ! j))" for j
      using f [OF that(1)] that i by (cases "j = i") auto
  qed
  ultimately show ?thesis using i l fr free_nodes_loses_one [OF l free] by (simp add: key_added_def)
qed

lemma newkey_place_ok:
  assumes inv: "tab_inv g t" and k: "key_ok g k" "\<not> arr_key t (val_key k)" "fresh_key (tnode t) k"
    and n: "n = main_pos g t k" "is_nil (n_val (tnode t ! n))"
  shows "kp_tab_newkey g t k = Some (Some (SlotNode n), put_key t (tnode t) n k, g) \<and>
    key_added g t k n (put_key t (tnode t) n k)"
proof -
  have nl: "n < length (tnode t)" using main_pos_bound [OF k(1)] tab_invD(2) [OF inv] n by simp
  have "nodes_inv (main_pos g t) (tnode (put_key t (tnode t) n k)) (freetop t)"
    using newkey_in_place [OF tab_invD(4) [OF inv] nl n(1) [symmetric] _ k(3)] k(1)
    by (simp add: put_key_def key_ok_def)
  then have "key_added g t k n (put_key t (tnode t) n k)"
    by (intro key_addedI [OF inv k(1,2), where f = "\<lambda>j. j" and x = n]) (use nl n in \<open>auto simp: put_key_def\<close>)
  then show ?thesis
    using hashkey_ok [OF k(1)] nl n tab_invD(1) [OF inv] by (simp add: kp_tab_newkey_def)
qed

lemma newkey_free_ok:
  assumes inv: "tab_inv g t" and k: "key_ok g k" "\<not> arr_key t (val_key k)" "fresh_key (tnode t) k"
    and n: "n = main_pos g t k" "\<not> is_nil (n_val (tnode t ! n))"
    and fr: "find_free (tnode t) (freetop t) = Some (Some fr)" "fr < freetop t" "is_nil (n_key (tnode t ! fr))"
      "\<And>j. fr < j \<Longrightarrow> j < freetop t \<Longrightarrow> \<not> is_nil (n_key (tnode t ! j))"
    and home: "main_pos g t (n_key (tnode t ! n)) = n"
  shows "\<exists>t'. kp_tab_newkey g t k = Some (Some (SlotNode fr), t', g) \<and> key_added g t k fr t'"
proof -
  let ?ns = "tnode t"
  note N = nodes_invD [OF tab_invD(4) [OF inv]]
  have nl: "n < length ?ns" using main_pos_bound [OF k(1)] tab_invD(2) [OF inv] n by simp
  have nkn: "\<not> is_nil (n_key (?ns ! n))" using n(2) nil_unlinkedD(1) [OF N(5) nl] by auto
  have frl: "fr < length ?ns" using fr(2) N(6) by (simp add: free_below_def)
  have frv: "is_nil (n_val (?ns ! fr))" using nil_unlinkedD(1) [OF N(5) frl fr(3)] by simp
  have ne: "fr \<noteq> n" using nkn fr by auto
  define ns2 where "ns2 = set_next (set_next ?ns fr (n_next (?ns ! n))) n (Some fr)"
  define t' where "t' = put_key (t\<lparr>freetop := fr\<rparr>) ns2 fr k"
  have l: "length (tnode t') = length ?ns" by (simp add: t'_def put_key_def ns2_def set_next_def)
  have frame: "hmask t' = hmask t" "asize t' = asize t" "tarray t' = tarray t" "hnum t' = hnum t + 1"
    by (simp_all add: t'_def put_key_def)
  have nth: "n_key (tnode t' ! i) = (if i = fr then k else n_key (?ns ! i))"
    "n_val (tnode t' ! i) = n_val (?ns ! i)" if "i < length ?ns" for i
    using that nl frl ne by (auto simp: t'_def put_key_def ns2_def set_next_def nth_list_update)
  have "nodes_inv (main_pos g t) (tnode t') (freetop t')"
    using newkey_use_free [OF tab_invD(4) [OF inv] nl n(1) [symmetric] _ k(3) nkn home fr(2,3,4)] k(1)
    by (simp add: t'_def ns2_def put_key_def key_ok_def)
  then have "key_added g t k fr t'"
    by (rule key_addedI [OF inv k(1,2) _ l, where f = "\<lambda>j. j" and x = fr])
      (use frl frv n(2) frame in \<open>auto simp: nth\<close>)
  moreover have "kp_tab_newkey g t k = Some (Some (SlotNode fr), t', g)"
    using hashkey_ok [OF k(1)] nl n hashkey_ok [OF tab_invD(5) [OF inv nl nkn]] fr(1) home
    by (simp add: kp_tab_newkey_def t'_def ns2_def Let_def)
  ultimately show ?thesis by blast
qed

lemma newkey_move_ok:
  assumes inv: "tab_inv g t" and k: "key_ok g k" "\<not> arr_key t (val_key k)" "fresh_key (tnode t) k"
    and n: "n = main_pos g t k" "\<not> is_nil (n_val (tnode t ! n))"
    and fr: "find_free (tnode t) (freetop t) = Some (Some fr)" "fr < freetop t" "is_nil (n_key (tnode t ! fr))"
      "\<And>j. fr < j \<Longrightarrow> j < freetop t \<Longrightarrow> \<not> is_nil (n_key (tnode t ! j))"
    and home: "main_pos g t (n_key (tnode t ! n)) \<noteq> n"
  shows "\<exists>t'. kp_tab_newkey g t k = Some (Some (SlotNode n), t', g) \<and> key_added g t k n t'"
proof -
  let ?ns = "tnode t" and ?M = "main_pos g t"
  note N = nodes_invD [OF tab_invD(4) [OF inv]]
  have nl: "n < length ?ns" using main_pos_bound [OF k(1)] tab_invD(2) [OF inv] n by simp
  have nkn: "\<not> is_nil (n_key (?ns ! n))" using n(2) nil_unlinkedD(1) [OF N(5) nl] by auto
  have frl: "fr < length ?ns" using fr(2) N(6) by (simp add: free_below_def)
  have frv: "is_nil (n_val (?ns ! fr))" "n_next (?ns ! fr) = None"
    using nil_unlinkedD(1) [OF N(5) frl fr(3)] by simp_all
  have ne: "fr \<noteq> n" using nkn fr by auto
  let ?c = "?M (n_key (?ns ! n))"
  obtain p where p: "npath ?ns (Some ?c) p" "n \<in> set p"
    using homedD [OF N(3) nl nkn] by (auto simp: reaches_def)
  obtain pd where pd: "find_pred ?ns (length ?ns) ?c n = Some pd" "pd < length ?ns" "n_next (?ns ! pd) = Some n"
    using find_pred_ok [OF p home npath_length [OF p(1)]] by auto
  have predn: "pd \<noteq> fr" "pd \<noteq> n"
    using frv pd no_self_link [OF N(1) nl] by auto
  define ns1 where "ns1 = set_next ?ns pd (Some fr)"
  define ns2 where "ns2 = ns1[fr := ns1 ! n]"
  define ns3 where "ns3 = ns2[n := (ns2 ! n)\<lparr>n_next := None, n_val := set_nil (n_val (ns2 ! n))\<rparr>]"
  define t1 where "t1 = t\<lparr>freetop := fr\<rparr>"
  define t' where "t' = put_key t1 ns3 n k"
  have l: "length ns3 = length ?ns" "length (tnode t') = length ?ns"
    by (simp_all add: t'_def put_key_def ns3_def ns2_def ns1_def set_next_def)
  have frame: "hmask t' = hmask t" "asize t' = asize t" "tarray t' = tarray t" "hnum t' = hnum t + 1" "freetop t' = fr"
    by (simp_all add: t'_def put_key_def t1_def)
  have nx: "n_next (ns3 ! i) = (if i = fr then n_next (?ns ! n) else if i = n then None
       else if i = pd then Some fr else n_next (?ns ! i))"
    and ky: "n_key (ns3 ! i) = (if i = fr then n_key (?ns ! n) else n_key (?ns ! i))"
    and vl: "n_val (ns3 ! i) = (if i = fr then n_val (?ns ! n) else if i = n then set_nil (n_val (?ns ! n)) else n_val (?ns ! i))"
    if "i < length ?ns" for i
    using that nl frl pd(2) ne predn by (auto simp: ns3_def ns2_def ns1_def set_next_def nth_list_update)
  have nth: "n_next (tnode t' ! i) = n_next (ns3 ! i)" "n_val (tnode t' ! i) = n_val (ns3 ! i)"
    "n_key (tnode t' ! i) = (if i = n then k else n_key (ns3 ! i))" if "i < length ?ns" for i
    using that nl l by (auto simp: t'_def put_key_def nth_list_update)
  have ni: "nodes_inv ?M (tnode t') (freetop t')"
    unfolding frame
    by (rule newkey_move [OF tab_invD(4) [OF inv] nl n(1) [symmetric] _ k(3) nkn home fr(2,3,4) pd(2,3) l(2)])
      (use k(1) ne in \<open>auto simp: nth nx ky vl key_ok_def\<close>)
  have onto: "\<exists>m<length ?ns. m \<noteq> n \<and> (if m = fr then n else m) = j"
    if "j < length ?ns" "\<not> is_nil (n_val (?ns ! j))" for j
    using that frv frl ne by (intro exI [of _ "if j = n then fr else j"]) auto
  have "key_added g t k n t'"
    by (rule key_addedI [OF inv k(1,2) ni l(2), where f = "\<lambda>j. if j = fr then n else j" and x = fr, OF _ _ _ _ _ _ _ _ onto])
      (use nl frl ne frame frv nkn in \<open>auto simp: nth ky vl\<close>)
  moreover have "rechain g t1 n (length ?ns) ns3 fr = Some ns3"
  proof -
    obtain q where q: "npath ns3 (Some fr) q"
      using nodes_invD(1) [OF ni] npath_cong [of "tnode t'" ns3 "Some fr"] l nth(1) frl
      unfolding acyclic_links_def by auto
    then obtain r where r: "q = fr # r" by (cases q) auto
    have str: "\<exists>h. hashstr g t1 (rawtsvalue (n_key (ns3 ! i))) = Some h \<and> h \<noteq> n"
      if i: "i \<in> set (tl q)" and str: "is_string (n_key (ns3 ! i))" for i
    proof -
      have il: "i < length ?ns" "i \<noteq> fr" using npath_bound [OF q] npath_distinct [OF q] i r l by auto
      then obtain j where j: "j < length ?ns" "n_next (ns3 ! j) = Some i" using npath_pred [OF q, of i] i r l by auto
      have "n_next (ns3 ! j) \<noteq> Some n"
      proof (cases "j = fr \<or> j = n \<or> j = pd")
        case True
        then show ?thesis using nx [OF j(1)] no_self_link [OF N(1) nl] ne by auto
      next
        case False
        then show ?thesis using nx [OF j(1)] one_predD [OF N(2) j(1) pd(2) _ pd(3)] by auto
      qed
      then have "i \<noteq> n" using j(2) by auto
      then have s: "\<not> is_nil (n_key (?ns ! i))" "is_string (n_key (?ns ! i))" "n_key (ns3 ! i) = n_key (?ns ! i)"
        using str il ky by (auto simp: is_type_defs)
      then have "?M (n_key (?ns ! i)) \<noteq> n" using main_ownedD [OF N(4) il(1) s(1)] home by auto
      moreover have "hashstr g t1 (rawtsvalue (n_key (?ns ! i))) = Some (?M (n_key (?ns ! i)))"
        using hashkey_ok [OF tab_invD(5) [OF inv il(1) s(1)]] s(2)
        by (simp add: hashkey_def hashstr_def hashmask_def t1_def)
      ultimately show ?thesis using s(3) by simp
    qed
    show ?thesis by (rule rechain_id [OF str q]) (use npath_length [OF q] l in auto)
  qed
  then have "kp_tab_newkey g t k = Some (Some (SlotNode n), t', g)"
    using hashkey_ok [OF k(1)] nl n hashkey_ok [OF tab_invD(5) [OF inv nl nkn]] fr(1) home pd(1)
    by (simp add: kp_tab_newkey_def t'_def t1_def ns3_def ns2_def ns1_def Let_def)
  ultimately show ?thesis by blast
qed

lemma newkey_ok:
  assumes inv: "tab_inv g t" and k: "key_ok g k" "\<not> arr_key t (val_key k)" "fresh_key (tnode t) k"
  shows "(\<exists>i t'. kp_tab_newkey g t k = Some (Some (SlotNode i), t', g) \<and> key_added g t k i t') \<or>
     kp_tab_newkey g t k = Some (None, t, kp_error ''table overflow'' g) \<and>
     (\<forall>i<length (tnode t). \<not> is_nil (n_key (tnode t ! i)))"
proof (cases "is_nil (n_val (tnode t ! main_pos g t k))")
  case True
  then show ?thesis using newkey_place_ok [OF inv k refl] by blast
next
  case False
  have nl: "main_pos g t k < length (tnode t)" using main_pos_bound [OF k(1)] tab_invD(2) [OF inv] by simp
  have free: "free_below (tnode t) (freetop t)" using nodes_invD(6) tab_invD(4) [OF inv] .
  then have "freetop t \<le> length (tnode t)" by (simp add: free_below_def)
  then consider fr where "find_free (tnode t) (freetop t) = Some (Some fr)" "fr < freetop t" "is_nil (n_key (tnode t ! fr))"
      "\<And>j. fr < j \<Longrightarrow> j < freetop t \<Longrightarrow> \<not> is_nil (n_key (tnode t ! j))"
    | "find_free (tnode t) (freetop t) = Some None" "\<forall>j<freetop t. \<not> is_nil (n_key (tnode t ! j))"
    using find_free_ok by blast
  then show ?thesis
  proof cases
    case 1
    then show ?thesis using newkey_free_ok [OF inv k refl False 1] newkey_move_ok [OF inv k refl False 1] by blast
  next
    case 2
    then have "\<forall>i<length (tnode t). \<not> is_nil (n_key (tnode t ! i))"
      using free unfolding free_below_def by (metis not_le)
    then show ?thesis using hashkey_ok [OF k(1)] nl False 2 by (simp add: kp_tab_newkey_def)
  qed
qed

section \<open>Lookup\<close>

lemma chain_find_ok:
  assumes inv: "tab_inv g t" and k: "key_ok g k"
    and P: "\<And>i. i < length (tnode t) \<Longrightarrow>
       P (tnode t ! i) \<longleftrightarrow> \<not> is_nil (n_key (tnode t ! i)) \<and> val_key (n_key (tnode t ! i)) = val_key k"
  obtains (found) i where "chain_find P t (main_pos g t k) = Some (Some i)" "i < length (tnode t)"
      "\<not> is_nil (n_key (tnode t ! i))" "val_key (n_key (tnode t ! i)) = val_key k"
    | (absent) "chain_find P t (main_pos g t k) = Some None" "fresh_key (tnode t) k"
proof -
  let ?ns = "tnode t"
  note N = nodes_invD [OF tab_invD(4) [OF inv]]
  have n: "main_pos g t k < length ?ns" using main_pos_bound [OF k] tab_invD(2) [OF inv] by simp
  obtain p where p: "npath ?ns (Some (main_pos g t k)) p" using N(1) n by (auto simp: acyclic_links_def)
  have walk: "chain_find P t (main_pos g t k) = Some (List.find (\<lambda>j. P (?ns ! j)) p)"
    unfolding chain_find_def by (rule node_walk_find [OF p npath_length [OF p]])
  show ?thesis
  proof (cases "List.find (\<lambda>j. P (?ns ! j)) p")
    case None
    have "fresh_key ?ns k"
      unfolding fresh_key_def
    proof (intro allI impI notI)
      fix i assume i: "i < length ?ns" "\<not> is_nil (n_key (?ns ! i))" "val_key (n_key (?ns ! i)) = val_key k"
      then have "main_pos g t (n_key (?ns ! i)) = main_pos g t k" using main_pos_cong by blast
      then have "i \<in> set p" using homedD [OF N(3) i(1,2)] npath_unique [OF p] by (auto simp: reaches_def)
      then show False using None P [OF i(1)] i by (auto simp: find_None_iff)
    qed
    then show ?thesis using absent walk None by simp
  next
    case (Some i)
    then have "i \<in> set p" "P (?ns ! i)" by (auto simp: find_Some_iff)
    then show ?thesis using found [of i] walk Some P [of i] npath_bound [OF p] by simp
  qed
qed

lemma key_is_int_iff: "key_is_int key n \<longleftrightarrow> \<not> is_nil (n_key n) \<and> val_key (n_key n) = val_key (set_number (ucast key))"
  by (auto simp: key_is_int_def val_key_def is_type_defs split: if_splits)

lemma key_is_str_iff: "key_is_str key n \<longleftrightarrow> \<not> is_nil (n_key n) \<and> val_key (n_key n) = val_key (set_string key)"
  by (auto simp: key_is_str_def val_key_def is_type_defs split: if_splits)

lemma key_is_val_iff:
  assumes "key_ok g k"
  shows "key_is_val k n \<longleftrightarrow> \<not> is_nil (n_key n) \<and> val_key (n_key n) = val_key k"
proof (cases "itype (n_key n) = KTAP_TLIGHTUD")
  case True
  then show ?thesis using assms by (auto simp: key_is_val_def kp_obj_equal_lightud key_ok_def val_key_def)
next
  case False
  then show ?thesis using assms val_key_nil [of "n_key n" k]
    by (auto simp: key_is_val_def kp_obj_equal_iff key_ok_def)
qed

lemma tab_live_at:
  assumes "keys_unique ns" "i < length ns" "\<not> is_nil (n_key (ns ! i))"
  shows "tab_live ns (val_key (n_key (ns ! i))) = nonnil (n_val (ns ! i))"
proof (cases "is_nil (n_val (ns ! i))")
  case True
  have "\<not> live_node (val_key (n_key (ns ! i))) (ns ! j)" if "j < length ns" for j
    using keys_uniqueD [OF assms(1) assms(2) that assms(3)] True by (auto simp: live_node_def)
  then have "tab_live ns (val_key (n_key (ns ! i))) \<noteq> Some v" for v
    unfolding live_iff [OF assms(1)] by blast
  then show ?thesis using True by (cases "tab_live ns (val_key (n_key (ns ! i)))") (auto simp: nonnil_def)
next
  case False
  then show ?thesis using live_iff [OF assms(1)] assms by (auto simp: live_node_def nonnil_def)
qed

lemma tab_live_fresh: "fresh_key ns k \<Longrightarrow> tab_live ns (val_key k) = None"
  by (auto simp: tab_live_def find_None_iff live_node_def fresh_key_def in_set_conv_nth)

section \<open>Writing through a slot\<close>

lemma node_slot_write:
  assumes inv: "tab_inv g t" and i: "i < length (tnode t)" "\<not> is_nil (n_key (tnode t ! i))"
    and t': "t' = slot_write t (SlotNode i) v"
  shows "tab_inv g t'" "tab_abs t' = (tab_abs t)(val_key (n_key (tnode t ! i)) := nonnil v)"
proof -
  let ?k = "n_key (tnode t ! i)"
  have nth: "n_key (tnode t' ! j) = n_key (tnode t ! j)" "n_next (tnode t' ! j) = n_next (tnode t ! j)"
    "n_val (tnode t' ! j) = (if j = i then v else n_val (tnode t ! j))"
    if "j < length (tnode t)" for j using that i t' by (auto simp: nth_list_update)
  have fr: "hmask t' = hmask t" "asize t' = asize t" "tarray t' = tarray t" "freetop t' = freetop t"
    "length (tnode t') = length (tnode t)" using t' by simp_all
  have ni: "nodes_inv (main_pos g t) (tnode t') (freetop t)"
    by (rule nodes_inv_cong [OF tab_invD(4) [OF inv] fr(5)])
      (use nth i nil_unlinkedD(1) [OF nodes_invD(5) [OF tab_invD(4) [OF inv]]] in auto)
  show "tab_inv g t'"
    by (rule tab_invI [OF inv ni fr(5), where k = ?k]) (use nth fr i tab_invD(5,6) [OF inv i] in auto)
  note u = nodes_invD(7) [OF ni] nodes_invD(7) [OF tab_invD(4) [OF inv]]
  have "tab_live (tnode t') vk = (if vk = val_key ?k then nonnil v else tab_live (tnode t) vk)" for vk
  proof (cases "vk = val_key ?k")
    case True
    then show ?thesis using tab_live_at [OF u(1), of i] i nth fr by simp
  next
    case False
    have "tab_live (tnode t') vk = tab_live (tnode t) vk"
      by (rule live_cong [OF u(2,1)]) (use False nth fr in \<open>auto simp: live_node_def; metis\<close>)
    with False show ?thesis by simp
  qed
  moreover have "arr_key t' = arr_key t" using fr by (simp add: arr_key_def fun_eq_iff)
  ultimately show "tab_abs t' = (tab_abs t)(val_key ?k := nonnil v)"
    using tab_invD(6) [OF inv i] fr by (intro ext) (simp add: tab_abs_def)
qed

lemma arr_slot_write:
  assumes inv: "tab_inv g t" and k: "arr_key t vk" and t': "t' = slot_write t (SlotArr (unat (snd vk))) v"
  shows "tab_inv g t'" "tab_abs t' = (tab_abs t)(vk := nonnil v)"
proof -
  have fr: "hmask t' = hmask t" "asize t' = asize t" "tnode t' = tnode t" "freetop t' = freetop t"
    "length (tarray t') = length (tarray t)" using t' by simp_all
  have mp: "main_pos g t' = main_pos g t" using fr by (intro main_pos_frame) auto
  show "tab_inv g t'" using inv fr mp by (simp add: tab_inv_def arr_key_def)
  have len: "unat (snd vk) < length (tarray t)" using k tab_invD(3) [OF inv] by (simp add: arr_key_def)
  have "tab_abs t' vk' = ((tab_abs t)(vk := nonnil v)) vk'" for vk'
  proof (cases "vk' = vk")
    case True
    then show ?thesis using k len fr t' by (simp add: tab_abs_def arr_key_def)
  next
    case False
    then have "arr_key t vk' \<Longrightarrow> unat (snd vk') \<noteq> unat (snd vk)"
      using k by (auto simp: arr_key_def prod_eq_iff word_unat_eq_iff)
    with False show ?thesis using k len fr t' by (auto simp: tab_abs_def arr_key_def)
  qed
  then show "tab_abs t' = (tab_abs t)(vk := nonnil v)" by blast
qed

section \<open>Setting and getting\<close>

text \<open>
  The contract of the slot a setter returns for key \<open>k\<close>: it holds the value of the key, and writing
  it is the update of the map.
\<close>

definition slot_for :: "ktap_global \<Rightarrow> ktap_tab \<Rightarrow> u32 \<times> u64 \<Rightarrow> slot \<Rightarrow> ktap_tab \<Rightarrow> bool" where
  "slot_for g t vk s t' \<longleftrightarrow> tab_inv g t' \<and> tab_abs t' = tab_abs t \<and> nonnil (slot_read t' s) = tab_abs t vk \<and>
     (\<forall>v. tab_inv g (slot_write t' s v) \<and> tab_abs (slot_write t' s v) = (tab_abs t)(vk := nonnil v) \<and>
          free_nodes t \<le> Suc (free_nodes (slot_write t' s v)))"

definition tab_full :: "ktap_tab \<Rightarrow> bool" where
  "tab_full t \<longleftrightarrow> (\<forall>n\<in>set (tnode t). \<not> is_nil (n_key n))"

definition set_ok :: "ktap_global \<Rightarrow> ktap_tab \<Rightarrow> u32 \<times> u64 \<Rightarrow> set_result \<Rightarrow> bool" where
  "set_ok g t vk r \<longleftrightarrow> (\<exists>s t'. r = Some (Some s, t', g) \<and> slot_for g t vk s t') \<or>
     r = Some (None, t, kp_error ''table overflow'' g) \<and> tab_full t \<and> tab_abs t vk = None \<and> \<not> arr_key t vk"

lemma free_nodes_write [simp]:
  "free_nodes (t\<lparr>tarray := a\<rparr>) = free_nodes t"
  "free_nodes (t\<lparr>tnode := (tnode t)[i := (tnode t ! i)\<lparr>n_val := v\<rparr>]\<rparr>) = free_nodes t"
proof -
  have "n_key ((tnode t)[i := (tnode t ! i)\<lparr>n_val := v\<rparr>] ! j) = n_key (tnode t ! j)" for j
    by (cases "i < length (tnode t)"; cases "i = j") (simp_all add: list_update_beyond not_less)
  then show "free_nodes (t\<lparr>tnode := (tnode t)[i := (tnode t ! i)\<lparr>n_val := v\<rparr>]\<rparr>) = free_nodes t"
    by (simp add: free_nodes_def)
qed (simp add: free_nodes_def)

lemma slot_for_node:
  assumes "tab_inv g t'" "tab_abs t' = tab_abs t" "i < length (tnode t')" "\<not> is_nil (n_key (tnode t' ! i))"
    "val_key (n_key (tnode t' ! i)) = vk" "free_nodes t \<le> Suc (free_nodes t')"
  shows "slot_for g t vk (SlotNode i) t'"
proof -
  have "nonnil (n_val (tnode t' ! i)) = tab_abs t' vk"
    using tab_live_at [OF nodes_invD(7) [OF tab_invD(4) [OF assms(1)]] assms(3,4)] tab_invD(6) [OF assms(1,3,4)] assms(5)
    by (simp add: tab_abs_def)
  then show ?thesis using node_slot_write [OF assms(1,3,4) refl] assms by (simp add: slot_for_def)
qed

lemma slot_for_arr: "tab_inv g t \<Longrightarrow> arr_key t vk \<Longrightarrow> slot_for g t vk (SlotArr (unat (snd vk))) t"
  using arr_slot_write [OF _ _ refl] by (simp add: slot_for_def tab_abs_def)

lemma find_or_newkey_ok:
  assumes inv: "tab_inv g t" and k: "key_ok g k" "\<not> arr_key t (val_key k)"
    and P: "\<And>n. P n \<longleftrightarrow> \<not> is_nil (n_key n) \<and> val_key (n_key n) = val_key k"
  shows "set_ok g t (val_key k) (do {
      r \<leftarrow> chain_find P t (main_pos g t k);
      case r of Some i \<Rightarrow> Some (Some (SlotNode i), t, g) | None \<Rightarrow> kp_tab_newkey g t k})"
proof (rule chain_find_ok [OF inv k(1), of P])
  show "P (tnode t ! i) \<longleftrightarrow> \<not> is_nil (n_key (tnode t ! i)) \<and> val_key (n_key (tnode t ! i)) = val_key k" for i
    by (rule P)
next
  fix i
  assume found: "chain_find P t (main_pos g t k) = Some (Some i)" "i < length (tnode t)"
    "\<not> is_nil (n_key (tnode t ! i))" "val_key (n_key (tnode t ! i)) = val_key k"
  then show ?thesis using slot_for_node [OF inv refl found(2-4)] le_Suc_eq by (auto simp: set_ok_def)
next
  assume absent: "chain_find P t (main_pos g t k) = Some None" "fresh_key (tnode t) k"
  have none: "tab_abs t (val_key k) = None" using tab_live_fresh [OF absent(2)] k(2) by (simp add: tab_abs_def)
  show ?thesis
    using newkey_ok [OF inv k absent(2)]
  proof (elim disjE exE conjE)
    fix i t' assume new: "kp_tab_newkey g t k = Some (Some (SlotNode i), t', g)" "key_added g t k i t'"
    then have "tab_abs t' = tab_abs t" by (simp add: key_added_def tab_abs_def fun_eq_iff arr_key_def)
    then have "slot_for g t (val_key k) (SlotNode i) t'"
      using new(2) k(1) by (intro slot_for_node) (simp_all add: key_added_def key_ok_def)
    then show ?thesis using new(1) absent(1) by (auto simp: set_ok_def)
  next
    assume "kp_tab_newkey g t k = Some (None, t, kp_error ''table overflow'' g)"
      "\<forall>i<length (tnode t). \<not> is_nil (n_key (tnode t ! i))"
    then show ?thesis using absent(1) none k(2) by (auto simp: set_ok_def tab_full_def in_set_conv_nth)
  qed
qed

lemma tab_setstr_ok:
  assumes "tab_inv g t" "strobjs g s \<noteq> None"
  shows "set_ok g t (val_key (set_string s)) (tab_setstr g t s)"
proof -
  have k: "key_ok g (set_string s)" "\<not> arr_key t (val_key (set_string s))"
    using assms(2) by (auto simp: key_ok_def is_type_defs arr_key_def val_key_def)
  have "hashstr g t s = Some (main_pos g t (set_string s))"
    using hashkey_ok [OF k(1), of t] by (simp add: hashkey_def is_type_defs)
  then show ?thesis
    using find_or_newkey_ok [OF assms(1) k key_is_str_iff] by (simp add: tab_setstr_def)
qed

lemma num_key_ok: "key_ok g (set_number n)"
  by (simp add: key_ok_def is_type_defs)

lemma val_key_num: "is_number k \<Longrightarrow> val_key k = (KTAP_TNUM, vbits k)"
  by (auto simp: val_key_def is_type_defs)

lemma tab_setint_ok:
  assumes "tab_inv g t"
  shows "set_ok g t (val_key (set_number (ucast key))) (tab_setint g t key)"
proof (cases "key < asize t")
  case True
  then have a: "arr_key t (val_key (set_number (ucast key)))"
    by (simp add: arr_key_def val_key_num is_type_defs word_less_nat_alt)
  have u: "unat (snd (val_key (set_number (ucast key)))) = unat key"
    by (simp add: val_key_num is_type_defs)
  have "unat key < length (tarray t)" using True tab_invD(3) [OF assms] by (simp add: word_less_nat_alt)
  then show ?thesis using True slot_for_arr [OF assms a] by (auto simp: set_ok_def tab_setint_def u)
next
  case False
  then have "\<not> arr_key t (val_key (set_number (ucast key)))"
    by (simp add: arr_key_def val_key_num is_type_defs word_less_nat_alt)
  then show ?thesis
    using False find_or_newkey_ok [OF assms num_key_ok _ key_is_int_iff]
    by (simp add: tab_setint_def tab_setinth_def Let_def main_pos_num)
qed

text \<open>Keys the table stores as they are: no backtraces and no event strings.\<close>

definition plain_key :: "ktap_global \<Rightarrow> ktap_val \<Rightarrow> bool" where
  "plain_key g k \<longleftrightarrow> key_ok g k \<and> itype k \<noteq> KTAP_TKSTACK \<and> \<not> is_eventstr k"

lemma not_arr_big:
  assumes "is_number k" "nvalue k \<noteq> ucast (ucast (nvalue k) :: u32)"
  shows "\<not> arr_key t (val_key k)"
proof
  assume "arr_key t (val_key k)"
  then have "unat (nvalue k) < unat (asize t)" using assms(1) by (simp add: arr_key_def val_key_num)
  moreover have "unat (asize t) < 2 ^ 32" using unsigned_less [of "asize t", where ?'a = nat] by simp
  ultimately show False using small_u64_cast [of "nvalue k"] assms(2) by (simp del: One_nat_def)
qed

lemma tab_setgen_ok:
  assumes "tab_inv g t" "key_ok g k" "\<not> arr_key t (val_key k)"
  shows "set_ok g t (val_key k) (tab_setgen g t k)"
  using find_or_newkey_ok [OF assms key_is_val_iff [OF assms(2)]] hashkey_ok [OF assms(2)]
  by (simp add: tab_setgen_def)

lemma set_string_eta: "is_string k \<Longrightarrow> val_key (set_string (rawtsvalue k)) = val_key k"
  by (simp add: val_key_def is_type_defs)

lemma set_number_eta: "is_number k \<Longrightarrow> val_key (set_number (nvalue k)) = val_key k"
  by (simp add: val_key_def is_type_defs)

lemma tab_set_ok:
  assumes inv: "tab_inv g t" and k: "plain_key g k"
  shows "set_ok g t (val_key k) (tab_set env g t k)"
proof -
  have ok: "key_ok g k" using k by (simp add: plain_key_def)
  consider "is_string k" | "is_number k" "nvalue k = ucast (ucast (nvalue k) :: u32)"
    | "is_number k" "nvalue k \<noteq> ucast (ucast (nvalue k) :: u32)" | "\<not> is_string k" "\<not> is_number k" by blast
  then show ?thesis
  proof cases
    case 1
    then show ?thesis using tab_setstr_ok [OF inv, of "rawtsvalue k"] ok set_string_eta [OF 1]
      by (simp add: tab_set_def key_ok_def)
  next
    case 2
    then have "\<not> is_string k" by (auto simp: is_type_defs)
    moreover have "val_key (set_number (ucast (ucast (nvalue k) :: u32))) = val_key k"
      using 2 set_number_eta [OF 2(1)] by simp
    ultimately show ?thesis using 2 tab_setint_ok [OF inv, of "ucast (nvalue k)"] by (simp add: tab_set_def Let_def)
  next
    case 3
    then have "\<not> is_string k" by (auto simp: is_type_defs)
    then show ?thesis using 3 tab_setgen_ok [OF inv ok not_arr_big [OF 3]] by (simp add: tab_set_def Let_def)
  next
    case 4
    then have "\<not> arr_key t (val_key k)" by (auto simp: arr_key_def val_key_def is_type_defs)
    then show ?thesis using 4 k tab_setgen_ok [OF inv ok] by (simp add: tab_set_def plain_key_def key_ok_def)
  qed
qed

text \<open>The getters, by the same analysis.\<close>

lemma find_value_ok:
  assumes inv: "tab_inv g t" and k: "key_ok g k" "\<not> arr_key t (val_key k)"
    and P: "\<And>n. P n \<longleftrightarrow> \<not> is_nil (n_key n) \<and> val_key (n_key n) = val_key k"
  shows "\<exists>r. chain_find P t (main_pos g t k) = Some r \<and> nonnil (node_result t r) = tab_abs t (val_key k)"
proof (rule chain_find_ok [OF inv k(1), of P])
  show "P (tnode t ! i) \<longleftrightarrow> \<not> is_nil (n_key (tnode t ! i)) \<and> val_key (n_key (tnode t ! i)) = val_key k" for i
    by (rule P)
next
  fix i
  assume found: "chain_find P t (main_pos g t k) = Some (Some i)" "i < length (tnode t)"
    "\<not> is_nil (n_key (tnode t ! i))" "val_key (n_key (tnode t ! i)) = val_key k"
  then show ?thesis using slot_for_node [OF inv refl found(2-4)] le_Suc_eq by (simp add: slot_for_def node_result_def)
next
  assume absent: "chain_find P t (main_pos g t k) = Some None" "fresh_key (tnode t) k"
  then show ?thesis using tab_live_fresh [OF absent(2)] k(2) by (simp add: tab_abs_def node_result_def nonnil_def)
qed

lemma tab_getstr_ok:
  assumes "tab_inv g t" "strobjs g s \<noteq> None"
  shows "\<exists>v. tab_getstr g t s = Some v \<and> nonnil v = tab_abs t (val_key (set_string s))"
proof -
  have k: "key_ok g (set_string s)" "\<not> arr_key t (val_key (set_string s))"
    using assms(2) by (auto simp: key_ok_def is_type_defs arr_key_def val_key_def)
  have "hashstr g t s = Some (main_pos g t (set_string s))"
    using hashkey_ok [OF k(1), of t] by (simp add: hashkey_def is_type_defs)
  then show ?thesis using find_value_ok [OF assms(1) k key_is_str_iff] by (auto simp: tab_getstr_def)
qed

lemma tab_getint_ok:
  assumes "tab_inv g t"
  shows "\<exists>v. tab_getint t key = Some v \<and> nonnil v = tab_abs t (val_key (set_number (ucast key)))"
proof -
  have ak: "arr_key t (val_key (set_number (ucast key))) \<longleftrightarrow> key < asize t"
    by (simp add: arr_key_def val_key_num is_type_defs word_less_nat_alt)
  show ?thesis
  proof (cases "key < asize t")
    case True
    then have "unat key < length (tarray t)" using tab_invD(3) [OF assms] by (simp add: word_less_nat_alt)
    then show ?thesis using True ak by (simp add: tab_getint_def tab_abs_def val_key_num is_type_defs)
  next
    case False
    then show ?thesis
      using find_value_ok [OF assms num_key_ok [of g "ucast key"] _ key_is_int_iff [of key]] ak
      by (auto simp: tab_getint_def tab_getinth_def main_pos_num)
  qed
qed

lemma tab_genlookup_ok:
  assumes "tab_inv g t" "key_ok g k" "\<not> arr_key t (val_key k)"
  shows "\<exists>v. tab_genlookup g t k = Some v \<and> nonnil v = tab_abs t (val_key k)"
  using find_value_ok [OF assms key_is_val_iff [OF assms(2)]] hashkey_ok [OF assms(2)]
  by (auto simp: tab_genlookup_def)

lemma tab_get_ok:
  assumes inv: "tab_inv g t" and k: "plain_key g k"
  shows "\<exists>v. tab_get env g t k = Some (v, g) \<and> nonnil v = tab_abs t (val_key k)"
proof -
  have ok: "key_ok g k" using k by (simp add: plain_key_def)
  consider "is_string k" | "is_number k" "nvalue k = ucast (ucast (nvalue k) :: u32)"
    | "is_number k" "nvalue k \<noteq> ucast (ucast (nvalue k) :: u32)" | "\<not> is_string k" "\<not> is_number k" by blast
  then show ?thesis
  proof cases
    case 1
    then show ?thesis using tab_getstr_ok [OF inv, of "rawtsvalue k"] ok set_string_eta [OF 1]
      by (auto simp: tab_get_def key_ok_def)
  next
    case 2
    then have "\<not> is_string k" by (auto simp: is_type_defs)
    moreover have "val_key (set_number (ucast (ucast (nvalue k) :: u32))) = val_key k"
      using 2 set_number_eta [OF 2(1)] by simp
    ultimately show ?thesis using 2 tab_getint_ok [OF inv, of "ucast (nvalue k)"] by (auto simp: tab_get_def Let_def)
  next
    case 3
    then have "\<not> is_string k" by (auto simp: is_type_defs)
    then show ?thesis using 3 tab_genlookup_ok [OF inv ok not_arr_big [OF 3]] by (auto simp: tab_get_def Let_def)
  next
    case 4
    then have "\<not> arr_key t (val_key k)" by (auto simp: arr_key_def val_key_def is_type_defs)
    then show ?thesis using 4 k tab_genlookup_ok [OF inv ok] by (auto simp: tab_get_def plain_key_def key_ok_def)
  qed
qed

section \<open>Creation and clearing\<close>

lemma nodes_inv_empty:
  assumes "\<And>n. n \<in> set ns \<Longrightarrow> is_nil (n_key n) \<and> is_nil (n_val n) \<and> n_next n = None"
  shows "nodes_inv M ns (length ns)"
proof -
  have i: "is_nil (n_key (ns ! i))" "is_nil (n_val (ns ! i))" "n_next (ns ! i) = None" if "i < length ns" for i
    using assms [of "ns ! i"] that by auto
  have "\<exists>p. npath ns (Some i) p" if "i < length ns" for i
    using i that by (intro exI [of _ "[i]"]) simp
  then show ?thesis
    by (simp add: nodes_inv_def acyclic_links_def one_pred_def homed_def main_owned_def nil_unlinked_def
        free_below_def keys_unique_def i)
qed

lemma tab_live_empty: "(\<And>n. n \<in> set ns \<Longrightarrow> is_nil (n_key n)) \<Longrightarrow> tab_live ns = Map.empty"
  by (auto simp: tab_live_def fun_eq_iff find_None_iff live_node_def)

lemma cleared_tab:
  assumes "hmask t \<noteq> 0" "length (tnode t) = Suc (unat (hmask t))" "length (tarray t) = unat (asize t)"
    and "\<And>n. n \<in> set (tnode t) \<Longrightarrow> is_nil (n_key n) \<and> is_nil (n_val n) \<and> n_next n = None"
    and "\<And>v. v \<in> set (tarray t) \<Longrightarrow> is_nil v" and "freetop t = length (tnode t)"
  shows "tab_inv g t \<and> tab_abs t = Map.empty \<and> free_nodes t = length (tnode t)"
proof (intro conjI)
  have nil: "is_nil (n_key (tnode t ! i))" if "i < length (tnode t)" for i using assms(4) that by simp
  then show "tab_inv g t" using assms nodes_inv_empty [of "tnode t", OF assms(4)] by (simp add: tab_inv_def)
  have "{i. i < length (tnode t) \<and> is_nil (n_key (tnode t ! i))} = {..<length (tnode t)}" using nil by auto
  then show "free_nodes t = length (tnode t)" by (simp add: free_nodes_def)
  have "is_nil (tarray t ! i)" if "i < unat (asize t)" for i using assms(3,5) that by simp
  then show "tab_abs t = Map.empty"
    using tab_live_empty [of "tnode t"] assms(4) by (auto simp: tab_abs_def fun_eq_iff nonnil_def arr_key_def)
qed

definition mem_sized :: "tab_mem \<Rightarrow> bool" where
  "mem_sized tm \<longleftrightarrow> (\<forall>n a. tm_array tm n = Some a \<longrightarrow> length a = n) \<and> (\<forall>n a. tm_node tm n = Some a \<longrightarrow> length a = n)"

lemma hsize_facts:
  fixes hbits :: u32
  assumes "hbits \<le> 26" "hbits \<noteq> 0"
  shows "unat (push_bit (unat hbits) 1 :: u32) = 2 ^ unat hbits" "(push_bit (unat hbits) 1 :: u32) - 1 \<noteq> 0"
    "Suc (unat ((push_bit (unat hbits) 1 :: u32) - 1)) = 2 ^ unat hbits"
proof -
  have b: "unat hbits \<le> 26" "unat hbits > 0" using assms by (simp_all add: word_le_nat_alt unat_gt_0)
  have p: "(2 :: nat) ^ unat hbits < 2 ^ 32" using b by (intro power_strict_increasing) simp_all
  show u: "unat (push_bit (unat hbits) 1 :: u32) = 2 ^ unat hbits"
    using p unat_add_of_nat [of "0 :: u32" "2 ^ unat hbits"] by simp
  have "(2 :: nat) \<le> 2 ^ unat hbits" using b(2) by (metis One_nat_def Suc_leI one_le_numeral power_increasing power_one_right)
  then have "push_bit (unat hbits) (1 :: u32) \<noteq> 0" using u by (metis not_numeral_le_zero unat_0)
  then have "unat ((push_bit (unat hbits) 1 :: u32) - 1) = 2 ^ unat hbits - 1"
    using u by (simp add: unat_minus_one)
  with \<open>2 \<le> 2 ^ unat hbits\<close> show "(push_bit (unat hbits) 1 :: u32) - 1 \<noteq> 0"
    "Suc (unat ((push_bit (unat hbits) 1 :: u32) - 1)) = 2 ^ unat hbits"
    by (auto simp: unat_eq_zero [symmetric])
qed

lemma kp_tab_new_ok:
  assumes "mem_sized tm" "kp_tab_new tm g as hbits = Some (Some t, g')" "hbits \<noteq> 0"
  shows "tab_inv g t \<and> tab_abs t = Map.empty \<and> g' = g \<and> length (tnode t) = 2 ^ unat hbits \<and> asize t = as \<and>
    free_nodes t = 2 ^ unat hbits"
proof -
  obtain t0 where t0: "newtab tm g as hbits = Some (Some t0, g')"
    "t = (if hmask (clearapart t0) > 0 then clearhpart (clearapart t0) else clearapart t0)"
    using assms(2) by (auto simp: kp_tab_new_def Let_def split: option.splits bind_splits)
  then have hb: "hbits \<le> 26" "g' = g" and len: "length (tarray t0) = unat as" "asize t0 = as"
    and h: "tm_node tm (unat (push_bit (unat hbits) 1 :: u32)) = Some (tnode t0)"
      "freetop t0 = unat (push_bit (unat hbits) 1 :: u32)" "hmask t0 = push_bit (unat hbits) 1 - 1"
    using assms(1,3)
    by (auto simp: newtab_def newhpart_def Let_def mem_sized_def ENOMEM_def unat_eq_zero word_gt_0
        split: if_splits option.splits prod.splits)
  note f = hsize_facts [OF hb(1) assms(3)]
  have nl: "length (tnode t0) = 2 ^ unat hbits" using h(1) assms(1) f(1) by (auto simp: mem_sized_def)
  have t: "t = clearhpart (clearapart t0)" using t0(2) h(3) f(2) by (simp add: clearapart_def word_gt_0)
  have "tab_inv g t \<and> tab_abs t = Map.empty \<and> free_nodes t = length (tnode t)"
    by (rule cleared_tab)
      (use t h f nl len in \<open>auto simp: clearhpart_def clearapart_def clear_node_def\<close>)
  then show ?thesis using t nl len hb by (simp add: clearhpart_def clearapart_def)
qed

lemma kp_tab_clear_ok:
  assumes "hmask t \<noteq> 0" "length (tnode t) = Suc (unat (hmask t))" "length (tarray t) = unat (asize t)"
    "unat (hmask t) < 2 ^ 32 - 1"
  shows "tab_inv g (kp_tab_clear t) \<and> tab_abs (kp_tab_clear t) = Map.empty \<and>
    free_nodes (kp_tab_clear t) = length (tnode (kp_tab_clear t))"
proof (rule cleared_tab)
  have "unat (hmask t + 1) = Suc (unat (hmask t))"
    using unat_add_of_nat [of "hmask t" 1] assms(4) by simp
  then show "freetop (kp_tab_clear t) = length (tnode (kp_tab_clear t))"
    using assms by (simp add: kp_tab_clear_def clearhpart_def clearapart_def word_gt_0)
qed (use assms in \<open>auto simp: kp_tab_clear_def clearhpart_def clearapart_def clear_node_def word_gt_0 split: if_splits\<close>)

end
