(* ===== verification/Ktap_Tab_Map.thy ===== *)
theory Ktap_Tab_Map
  imports Ktap_Tab_Correct
begin

text \<open>
  What the table operations of \<^verbatim>\<open>runtime/kp_tab.c\<close> mean to their callers: the interface of a keyed
  store with bounded capacity, its interpretation on \<^verbatim>\<open>kp_tab_set\<close> and \<^verbatim>\<open>kp_tab_get\<close>, and the properties of
  creation, storing, lookup, increment, duplication and traversal.
\<close>

section \<open>The interface: a keyed store of bounded capacity\<close>

locale keyed_store =
  fixes inv :: "'g \<Rightarrow> 't \<Rightarrow> bool"
    and content :: "'t \<Rightarrow> 'k \<Rightarrow> 'v option"
    and ok :: "'g \<Rightarrow> 'x \<Rightarrow> bool"
    and key :: "'x \<Rightarrow> 'k"
    and seen :: "'w \<Rightarrow> 'v option"
    and put :: "'g \<Rightarrow> 't \<Rightarrow> 'x \<Rightarrow> 'w \<Rightarrow> ('t \<times> 'g) option"
    and get :: "'g \<Rightarrow> 't \<Rightarrow> 'x \<Rightarrow> ('w \<times> 'g) option"
    and free :: "'t \<Rightarrow> nat"
  assumes put_law: "inv g t \<Longrightarrow> ok g x \<Longrightarrow> free t > 0 \<Longrightarrow>
      \<exists>t'. put g t x w = Some (t', g) \<and> inv g t' \<and> content t' = (content t)(key x := seen w) \<and> free t \<le> Suc (free t')"
    and get_law: "inv g t \<Longrightarrow> ok g x \<Longrightarrow> \<exists>w. get g t x = Some (w, g) \<and> seen w = content t (key x)"
begin

fun put_all :: "'g \<Rightarrow> 't \<Rightarrow> ('x \<times> 'w) list \<Rightarrow> ('t \<times> 'g) option" where
  "put_all g t [] = Some (t, g)"
| "put_all g t ((x, w) # xs) = do { (t1, g1) \<leftarrow> put g t x w; put_all g1 t1 xs }"

lemma put_all_ok:
  assumes "inv g t" "\<And>x w. (x, w) \<in> set xs \<Longrightarrow> ok g x" "length xs \<le> free t"
  shows "\<exists>t'. put_all g t xs = Some (t', g) \<and> inv g t' \<and>
     content t' = fold (\<lambda>(x, w) m. m(key x := seen w)) xs (content t) \<and> free t \<le> free t' + length xs"
  using assms
proof (induction xs arbitrary: t)
  case (Cons a xs)
  obtain x w where a: "a = (x, w)" by (cases a)
  obtain t1 where t1: "put g t x w = Some (t1, g)" "inv g t1" "content t1 = (content t)(key x := seen w)"
    "free t \<le> Suc (free t1)"
    using put_law [of g t x w] Cons.prems a by auto
  have "length xs \<le> free t1" using Cons.prems(3) t1(4) by simp
  moreover have "\<And>x w. (x, w) \<in> set xs \<Longrightarrow> ok g x" using Cons.prems(2) by auto
  ultimately obtain t' where "put_all g t1 xs = Some (t', g)" "inv g t'"
    "content t' = fold (\<lambda>(x, w) m. m(key x := seen w)) xs (content t1)" "free t1 \<le> free t' + length xs"
    using Cons.IH [OF t1(2)] by blast
  then show ?case using t1 a by (intro exI [of _ t']) (simp add: fun_upd_def)
qed auto

lemma get_after_put:
  assumes "inv g t" "ok g x" "ok g y" "free t > 0" "put g t x w = Some (t', g')"
  shows "\<exists>u. get g' t' y = Some (u, g') \<and> seen u = (if key y = key x then seen w else content t (key y))"
proof -
  have "g' = g" "inv g t'" "content t' = (content t)(key x := seen w)"
    using put_law [OF assms(1,2,4), of w] assms(5) by auto
  then show ?thesis using get_law [of g t' y] assms(3) by auto
qed

end

lemma not_full: "free_nodes t > 0 \<Longrightarrow> \<not> tab_full t"
proof
  assume "free_nodes t > 0" "tab_full t"
  then have "{i. i < length (tnode t) \<and> is_nil (n_key (tnode t ! i))} = {}" by (auto simp: tab_full_def)
  then have "free_nodes t = 0" unfolding free_nodes_def by (simp only: card.empty)
  then show False using \<open>free_nodes t > 0\<close> by simp
qed

interpretation tabmap: keyed_store tab_inv tab_abs plain_key val_key nonnil "kp_tab_set env" "kp_tab_get env" free_nodes
  for env
proof
  fix g t x w
  assume "tab_inv g t" "plain_key g x" "0 < free_nodes t"
  then show "\<exists>t'. kp_tab_set env g t x w = Some (t', g) \<and> tab_inv g t' \<and> tab_abs t' = (tab_abs t)(val_key x := nonnil w) \<and>
     free_nodes t \<le> Suc (free_nodes t')"
    using tab_set_ok [of g t x env] not_full [of t]
    by (auto simp: set_ok_def kp_tab_set_def store_slot_def slot_for_def)
next
  fix g t x
  assume "tab_inv g t" "plain_key g x"
  then show "\<exists>w. kp_tab_get env g t x = Some (w, g) \<and> nonnil w = tab_abs t (val_key x)"
    using tab_get_ok [of g t x env] by (simp add: kp_tab_get_def)
qed

section \<open>Duplication\<close>

definition node_pairs :: "ktap_node list \<Rightarrow> (ktap_val \<times> ktap_val) list" where
  "node_pairs ns = map (\<lambda>n. (n_key n, n_val n)) (filter (\<lambda>n. \<not> is_nil (n_key n)) ns)"

lemma dup_nodes_put_all: "dup_nodes env g t ns = tabmap.put_all env g t (node_pairs ns)"
proof (induction ns arbitrary: g t)
  case (Cons n ns)
  then show ?case by (cases "kp_tab_set env g t (n_key n) (n_val n)") (auto simp: node_pairs_def)
qed (simp add: node_pairs_def)

lemma fold_pairs_lookup:
  fixes m :: "u32 \<times> u64 \<Rightarrow> ktap_val option"
  assumes "keys_unique ns"
  shows "fold (\<lambda>(x, w) m. m(val_key x := nonnil w)) (node_pairs ns) m =
     (\<lambda>vk. if \<exists>n\<in>set ns. \<not> is_nil (n_key n) \<and> val_key (n_key n) = vk then tab_live ns vk else m vk)"
  using assms
proof (induction ns arbitrary: m)
  case (Cons n ns)
  have u: "keys_unique ns"
    unfolding keys_unique_def
  proof (intro allI impI)
    fix i j assume "i < length ns" "j < length ns" "\<not> is_nil (n_key (ns ! i))" "val_key (n_key (ns ! i)) = val_key (n_key (ns ! j))"
    then show "i = j" using keys_uniqueD [OF Cons.prems, of "Suc i" "Suc j"] by simp
  qed
  have nx: "val_key (n_key n') \<noteq> val_key (n_key n)" if n': "n' \<in> set ns" "\<not> is_nil (n_key n')" for n'
  proof
    assume eq: "val_key (n_key n') = val_key (n_key n)"
    obtain i where "i < length ns" "ns ! i = n'" using n'(1) unfolding in_set_conv_nth by blast
    then show False using keys_uniqueD [OF Cons.prems, of "Suc i" 0] n'(2) eq by simp
  qed
  have live: "tab_live (n # ns) vk = (if live_node vk n then Some (n_val n) else tab_live ns vk)" for vk
    by (simp add: tab_live_def)
  have fr: "tab_live ns (val_key (n_key n)) = None" if "\<not> is_nil (n_key n)"
    using nx by (auto simp: tab_live_def find_None_iff live_node_def)
  show ?case
  proof (cases "is_nil (n_key n)")
    case True
    then show ?thesis using Cons.IH [OF u, of m] live by (auto simp: node_pairs_def live_node_def fun_eq_iff)
  next
    case False
    then show ?thesis using Cons.IH [OF u, of "m(val_key (n_key n) := nonnil (n_val n))"] live fr nx
      by (auto simp: node_pairs_def live_node_def fun_eq_iff nonnil_def)
  qed
qed (simp add: node_pairs_def)

definition stored_plain :: "ktap_global \<Rightarrow> ktap_tab \<Rightarrow> bool" where
  "stored_plain g t \<longleftrightarrow> (\<forall>n\<in>set (tnode t). \<not> is_nil (n_key n) \<longrightarrow> plain_key g (n_key n))"

lemma tab_live_none:
  "(\<And>n. n \<in> set ns \<Longrightarrow> \<not> is_nil (n_key n) \<Longrightarrow> val_key (n_key n) \<noteq> vk) \<Longrightarrow> tab_live ns vk = None"
  by (auto simp: tab_live_def find_None_iff live_node_def)

lemma default_table:
  assumes "mem_sized tm" "tm_obj tm" "tm_array tm 256 = Some a" "tm_node tm 2048 = Some ns"
  obtains t where "kp_tab_new_ah tm g 0 0 = Some (Some t, g)" "tab_inv g t" "tab_abs t = Map.empty"
    "asize t = 256" "length (tnode t) = 2048" "length (tarray t) = 256" "free_nodes t = 2048"
    "\<And>v. v \<in> set (tarray t) \<Longrightarrow> is_nil v" "\<And>n. n \<in> set (tnode t) \<Longrightarrow> is_nil (n_key n)"
proof -
  have hb: "hsize2hbits 2048 = 11" by code_simp
  have ah: "kp_tab_new_ah tm g 0 0 = kp_tab_new tm g 256 11"
    by (simp add: kp_tab_new_ah_def hb word_sless_alt)
  define t where "t = clearhpart (clearapart \<lparr>tarray = a, tnode = ns, freetop = 2048, asize = 256, hmask = 2047, hnum = tm_hnum tm\<rparr>)"
  have "newhpart tm g t' 11 = (0, t'\<lparr>freetop := 2048, tnode := ns, hmask := 2047\<rparr>, g)" for t'
    using assms(4) by (simp add: newhpart_def Let_def)
  then have new: "kp_tab_new tm g 256 11 = Some (Some t, g)"
    using assms by (simp add: kp_tab_new_def newtab_def Let_def t_def clearapart_def)
  have len: "length a = 256" "length ns = 2048" using assms(1,3,4) by (auto simp: mem_sized_def)
  have nil: "is_nil v" if "v \<in> set (tarray t)" for v using that by (auto simp: t_def clearapart_def clearhpart_def)
  have nilk: "is_nil (n_key n)" if "n \<in> set (tnode t)" for n using that by (auto simp: t_def clearhpart_def clearapart_def clear_node_def)
  show ?thesis
    using kp_tab_new_ok [OF assms(1) new] new ah len nil nilk that [of t] by (simp add: t_def clearhpart_def clearapart_def)
qed

lemma kp_tab_dup_abs:
  assumes kt: "tab_inv g kt" "stored_plain g kt" "asize kt \<le> 256" "length (node_pairs (tnode kt)) \<le> 2048"
    and tm: "mem_sized tm" "tm_obj tm" "tm_array tm 256 = Some a" "tm_node tm 2048 = Some ns"
  shows "\<exists>t. kp_tab_dup tm env g kt = Some (Some t, g) \<and> tab_inv g t \<and> tab_abs t = tab_abs kt"
proof -
  obtain t where t: "kp_tab_new_ah tm g 0 0 = Some (Some t, g)" "tab_inv g t" "asize t = 256"
    "length (tarray t) = 256" "free_nodes t = 2048"
    "\<And>v. v \<in> set (tarray t) \<Longrightarrow> is_nil v" "\<And>n. n \<in> set (tnode t) \<Longrightarrow> is_nil (n_key n)"
    by (rule default_table [OF tm, of g]) blast
  have ka: "unat (asize kt) \<le> 256" "length (tarray kt) = unat (asize kt)"
    using kt(3) tab_invD(3) [OF kt(1)] by (simp_all add: word_le_nat_alt)
  define arr where "arr = take (unat (asize kt)) (tarray kt) @ drop (unat (asize kt)) (tarray t)"
  define t1 where "t1 = t\<lparr>tarray := arr\<rparr>"
  have arr: "length arr = 256" using ka t(4) by (simp add: arr_def)
  have mp: "main_pos g t1 = main_pos g t" by (intro main_pos_frame) (simp_all add: t1_def)
  have inv1: "tab_inv g t1"
    using t(2,3) arr mp by (simp add: tab_inv_def t1_def arr_key_def)
  have abs1: "tab_abs t1 vk = (if arr_key kt vk then nonnil (tarray kt ! unat (snd vk)) else None)" for vk
  proof -
    have "tab_live (tnode t) vk = None" using t(7) by (intro tab_live_none) auto
    moreover have "is_nil (tarray t ! i)" if "i < 256" for i using t(4,6) that by simp
    ultimately show ?thesis using ka t(3,4)
      by (auto simp: tab_abs_def t1_def arr_key_def arr_def nth_append nonnil_def)
  qed
  have "length (node_pairs (tnode kt)) \<le> free_nodes t1" using kt(4) t(5) by (simp add: t1_def)
  moreover have "plain_key g x" if "(x, w) \<in> set (node_pairs (tnode kt))" for x w
    using that kt(2) by (auto simp: node_pairs_def stored_plain_def)
  ultimately obtain t2 where t2: "dup_nodes env g t1 (tnode kt) = Some (t2, g)" "tab_inv g t2"
    "tab_abs t2 = fold (\<lambda>(x, w) m. m(val_key x := nonnil w)) (node_pairs (tnode kt)) (tab_abs t1)"
    unfolding dup_nodes_put_all using tabmap.put_all_ok [OF inv1, of "node_pairs (tnode kt)" env] by blast
  have u: "keys_unique (tnode kt)" using nodes_invD(7) tab_invD(4) [OF kt(1)] .
  have look: "tab_abs t2 vk = (if \<exists>n\<in>set (tnode kt). \<not> is_nil (n_key n) \<and> val_key (n_key n) = vk
     then tab_live (tnode kt) vk else tab_abs t1 vk)" for vk
    unfolding t2(3) fold_pairs_lookup [OF u] ..
  have "tab_abs t2 vk = tab_abs kt vk" for vk
  proof (cases "\<exists>n\<in>set (tnode kt). \<not> is_nil (n_key n) \<and> val_key (n_key n) = vk")
    case True
    then have "\<not> arr_key kt vk" using tab_invD(6) [OF kt(1)] by (auto simp: in_set_conv_nth)
    then show ?thesis unfolding look if_P [OF True] by (simp add: tab_abs_def)
  next
    case False
    then have "tab_live (tnode kt) vk = None" by (intro tab_live_none) auto
    then show ?thesis unfolding look if_not_P [OF False] abs1 by (simp add: tab_abs_def)
  qed
  then have "tab_abs t2 = tab_abs kt" by blast
  moreover have "kp_tab_dup tm env g kt = Some (Some t2, g)"
    using t(1,4) t2(1) ka tab_invD(2) [OF kt(1)] by (simp add: kp_tab_dup_def t1_def arr_def)
  ultimately show ?thesis using t2(2) by blast
qed

section \<open>Traversal\<close>

text \<open>The virtual sequence of slots a traversal runs through: the array, then the nodes.\<close>

definition slot_live :: "ktap_tab \<Rightarrow> nat \<Rightarrow> bool" where
  "slot_live t p \<longleftrightarrow> (if p < unat (asize t) then \<not> is_nil (tarray t ! p)
     else \<not> is_nil (n_val (tnode t ! (p - unat (asize t)))))"

definition slot_entry :: "ktap_tab \<Rightarrow> nat \<Rightarrow> ktap_val \<times> ktap_val" where
  "slot_entry t p = (if p < unat (asize t) then (set_number (of_nat p), tarray t ! p)
     else (n_key (tnode t ! (p - unat (asize t))), n_val (tnode t ! (p - unat (asize t)))))"

definition slot_count :: "ktap_tab \<Rightarrow> nat" where
  "slot_count t = unat (asize t) + length (tnode t)"

lemma find_append:
  "List.find P (xs @ ys) = (case List.find P xs of None \<Rightarrow> List.find P ys | Some x \<Rightarrow> Some x)"
  by (induction xs) auto

lemma find_shift: "List.find P [i + k..<j + k] = map_option (\<lambda>x. x + k) (List.find (\<lambda>x. P (x + k)) [i..<j])"
proof -
  have "[i + k..<j + k] = map (\<lambda>x. x + k) [i..<j]" by (rule nth_equalityI) auto
  moreover have "List.find P (map f xs) = map_option f (List.find (P \<circ> f) xs)" for f :: "nat \<Rightarrow> nat" and xs
    by (induction xs) auto
  ultimately show ?thesis by (simp add: comp_def)
qed

lemma next_from:
  assumes inv: "tab_inv g t" and size: "slot_count t < 2 ^ 32"
    and ki: "keyindex g t k = Some (i0, g')" "unat (i0 + 1) = p" "p \<le> slot_count t"
  shows "kp_tab_next g t k = Some (map_option (slot_entry t) (List.find (slot_live t) [p..<slot_count t]), g')"
proof -
  let ?A = "unat (asize t)" and ?N = "length (tnode t)"
  have N: "?N = Suc (unat (hmask t))" "length (tarray t) = ?A" using tab_invD [OF inv] by auto
  have lt: "i0 + 1 < asize t \<longleftrightarrow> p < ?A" using ki(2) by (simp add: word_less_nat_alt)
  have split: "[p..<slot_count t] = [p..<?A] @ [max p ?A..<slot_count t]"
  proof (cases "p \<le> ?A")
    case True
    then show ?thesis using upt_add_eq_append [of p ?A ?N] by (simp add: slot_count_def max_def)
  qed (simp add: max_def)
  have fa: "List.find (slot_live t) [p..<?A] = next_array t p"
    unfolding next_array_def by (intro find_cong) (auto simp: slot_live_def)
  have fn: "List.find (slot_live t) [max p ?A..<slot_count t] = map_option (\<lambda>x. x + ?A) (next_node t (p - ?A))"
  proof -
    have "max p ?A = p - ?A + ?A" "slot_count t = ?N + ?A" by (simp_all add: slot_count_def)
    moreover have "(\<lambda>x. slot_live t (x + ?A)) = (\<lambda>x. \<not> is_nil (n_val (tnode t ! x)))" by (simp add: slot_live_def)
    ultimately show ?thesis by (simp only: find_shift next_node_def N(1) [symmetric])
  qed
  have i2: "unat ((if i0 + 1 < asize t then asize t else i0 + 1) - asize t) = p - ?A"
  proof (cases "p < ?A")
    case True
    then show ?thesis using lt by simp
  next
    case False
    then have "asize t \<le> i0 + 1" using ki(2) by (simp add: word_le_nat_alt)
    then show ?thesis using False lt ki(2) by (simp add: unat_sub)
  qed
  show ?thesis
  proof (cases "next_array t p")
    case None
    then have "List.find (slot_live t) [p..<slot_count t] = map_option (\<lambda>x. x + ?A) (next_node t (p - ?A))"
      using split fa fn by (simp add: find_append)
    then show ?thesis using ki(1,2) None N i2
      by (auto simp: kp_tab_next_def Let_def slot_entry_def split: option.splits)
  next
    case (Some j)
    then have "j < ?A" by (auto simp: next_array_def find_Some_iff)
    moreover have "List.find (slot_live t) [p..<slot_count t] = Some j" using split fa Some by (simp add: find_append)
    ultimately show ?thesis using ki(1,2) Some N by (simp add: kp_tab_next_def Let_def slot_entry_def)
  qed
qed


lemma keyindex_nil: "is_nil k \<Longrightarrow> keyindex g t k = Some (NOT 0, g)"
  by (auto simp: keyindex_def Let_def is_type_defs)

lemma keyindex_entry:
  assumes inv: "tab_inv g t" and size: "slot_count t < 2 ^ 32" and p: "p < slot_count t" "slot_live t p"
    and plain: "stored_plain g t"
  shows "keyindex g t (fst (slot_entry t p)) = Some (of_nat p, g)"
proof (cases "p < unat (asize t)")
  case True
  have "p < 2 ^ 32" using size p by simp
  then have "unat (of_nat p :: u64) = p" "unat (of_nat p :: u32) = p"
    by (simp_all add: unsigned_of_nat take_bit_nat_eq_self)
  moreover from this \<open>p < 2 ^ 32\<close> have "ucast (of_nat p :: u64) = (of_nat p :: u32)"
    by (simp add: word_unat_eq_iff unsigned_ucast_eq take_bit_nat_eq_self)
  ultimately show ?thesis using True
    by (simp add: keyindex_def slot_entry_def is_type_defs Let_def word_less_nat_alt word_unat_eq_iff)
next
  case False
  define i where "i = p - unat (asize t)"
  have i: "i < length (tnode t)" "p = unat (asize t) + i" using p False by (auto simp: i_def slot_count_def)
  let ?k = "n_key (tnode t ! i)"
  have "\<not> is_nil (n_val (tnode t ! i))" using p(2) False by (simp add: slot_live_def i_def)
  then have nk: "\<not> is_nil ?k" using nil_unlinkedD(1) [OF nodes_invD(5) [OF tab_invD(4) [OF inv]] i(1)] by auto
  note ok = tab_invD(5,6) [OF inv i(1) nk]
  have na: "\<not> (is_number ?k \<and> ucast (nvalue ?k) < asize t \<and> nvalue ?k = ucast (ucast (nvalue ?k) :: u32))"
    using ok(2) by (auto simp: arr_key_def val_key_num word_less_nat_alt) (metis unat_ucast_32_64)
  have "chain_find (key_is_val ?k) t (main_pos g t ?k) = Some (Some i)"
  proof (rule chain_find_ok [OF inv ok(1), of "key_is_val ?k"])
    show "key_is_val ?k (tnode t ! j) \<longleftrightarrow> \<not> is_nil (n_key (tnode t ! j)) \<and> val_key (n_key (tnode t ! j)) = val_key ?k" for j
      by (rule key_is_val_iff [OF ok(1)])
  next
    fix j assume "chain_find (key_is_val ?k) t (main_pos g t ?k) = Some (Some j)" "j < length (tnode t)"
      "\<not> is_nil (n_key (tnode t ! j))" "val_key (n_key (tnode t ! j)) = val_key ?k"
    then show ?thesis using keys_uniqueD [OF nodes_invD(7) [OF tab_invD(4) [OF inv]], of j i] i(1) by simp
  next
    assume "fresh_key (tnode t) ?k"
    then show ?thesis using i(1) nk by (auto simp: fresh_key_def)
  qed
  then show ?thesis using na nk hashkey_ok [OF ok(1), of t] False i(2)
    by (auto simp: keyindex_def Let_def slot_entry_def)
qed

text \<open>Iterating \<^verbatim>\<open>kp_tab_next\<close> from a key on, as \<^verbatim>\<open>for k, v in pairs(t)\<close> does.\<close>

fun tab_iter :: "ktap_global \<Rightarrow> ktap_tab \<Rightarrow> nat \<Rightarrow> ktap_val \<Rightarrow> (ktap_val \<times> ktap_val) list option" where
  "tab_iter g t 0 k = None"
| "tab_iter g t (Suc fuel) k =
     do {
       (r, g1) \<leftarrow> kp_tab_next g t k;
       case r of None \<Rightarrow> Some [] | Some (k', v') \<Rightarrow> map_option (Cons (k', v')) (tab_iter g1 t fuel k')
     }"

lemma tab_iter_from:
  assumes inv: "tab_inv g t" and size: "slot_count t < 2 ^ 32" and plain: "stored_plain g t"
  shows "keyindex g t k = Some (i0, g) \<Longrightarrow> unat (i0 + 1) = p \<Longrightarrow> p \<le> slot_count t \<Longrightarrow> slot_count t - p < fuel \<Longrightarrow>
    tab_iter g t fuel k = Some (map (slot_entry t) (filter (slot_live t) [p..<slot_count t]))"
proof (induction fuel arbitrary: k i0 p)
  case (Suc fuel)
  note nx = next_from [OF inv size Suc.prems(1-3)]
  show ?case
  proof (cases "List.find (slot_live t) [p..<slot_count t]")
    case None
    then have "filter (slot_live t) [p..<slot_count t] = []" by (auto simp: find_None_iff filter_empty_conv)
    then show ?thesis using nx None by simp
  next
    case (Some q)
    then obtain i where i: "i < slot_count t - p" "slot_live t q" "q = p + i" "\<forall>j<i. \<not> slot_live t (p + j)"
      by (auto simp: find_Some_iff)
    have q: "q < slot_count t" using i by simp
    have "[p..<slot_count t] = [p..<q] @ q # [Suc q..<slot_count t]"
      using upt_add_eq_append [of p q "slot_count t - q"] upt_conv_Cons [OF q] i q by simp
    moreover have "filter (slot_live t) [p..<q] = []"
      using i(3,4) by (auto simp: filter_empty_conv) (metis le_add_diff_inverse nat_add_left_cancel_less)
    ultimately have fl: "filter (slot_live t) [p..<slot_count t] = q # filter (slot_live t) [Suc q..<slot_count t]"
      using i(2) by simp
    have "Suc q < 2 ^ 32" using q size by simp
    then have "unat (of_nat (Suc q) :: u32) = Suc q"
      by (simp add: unsigned_of_nat take_bit_nat_eq_self del: of_nat_Suc)
    then have "unat (of_nat q + 1 :: u32) = Suc q" by (simp add: add.commute)
    then have "tab_iter g t fuel (fst (slot_entry t q)) = Some (map (slot_entry t) (filter (slot_live t) [Suc q..<slot_count t]))"
      using Suc.IH [OF keyindex_entry [OF inv size q i(2) plain]] q i Suc.prems(4) by simp
    then show ?thesis using nx Some fl by (cases "slot_entry t q") simp
  qed
qed simp

section \<open>Sizes\<close>

lemma clz_from_ok:
  "n \<le> 32 \<Longrightarrow> \<exists>m<n. bit x m \<Longrightarrow> \<exists>i<n. clz_from n x = 31 - i \<and> bit x i \<and> (\<forall>m. i < m \<longrightarrow> m < n \<longrightarrow> \<not> bit x m)"
proof (induction n)
  case (Suc n)
  show ?case
  proof (cases "bit x n")
    case True
    then show ?thesis by (intro exI [of _ n]) auto
  next
    case False
    then have "\<exists>m<n. bit x m" using Suc.prems(2) less_Suc_eq by auto
    then show ?thesis using Suc.IH Suc.prems(1) False by (auto simp: less_Suc_eq)
  qed
qed simp

lemma xor_31: "i < 32 \<Longrightarrow> (of_nat (31 - i) :: u32) XOR 31 = of_nat i"
proof -
  have "\<forall>i\<in>set [0..<32]. (of_nat (31 - i) :: u32) XOR 31 = of_nat i" by code_simp
  then show "i < 32 \<Longrightarrow> (of_nat (31 - i) :: u32) XOR 31 = of_nat i" by simp
qed

lemma FLS_bounds:
  assumes "x \<noteq> 0"
  shows "unat (FLS x) < 32" "2 ^ unat (FLS x) \<le> unat x" "unat x < 2 ^ Suc (unat (FLS x))"
proof -
  have "\<exists>m<32. bit x m" using assms bit_imp_le_length [of x] by (auto simp: bit_eq_iff) 
  then obtain i where i: "i < 32" "clz_from 32 x = 31 - i" "bit x i" "\<forall>m. i < m \<longrightarrow> m < 32 \<longrightarrow> \<not> bit x m"
    using clz_from_ok [of 32 x] by auto
  have f: "unat (FLS x) = i" using i xor_31 [OF i(1)] by (simp add: FLS_def unsigned_of_nat take_bit_nat_eq_self)
  then show "unat (FLS x) < 32" using i by simp
  have "bit (unat x) i" using i(1,3) by (simp add: bit_unsigned_iff)
  then have "odd (unat x div 2 ^ i)" by (simp add: bit_iff_odd)
  then have "unat x div 2 ^ i \<noteq> 0" by (intro notI) simp
  then show "2 ^ unat (FLS x) \<le> unat x" unfolding f by (simp add: div_eq_0_iff not_less)
  have "take_bit (Suc i) x = x"
    using i(4) bit_imp_le_length [of x] by (intro bit_word_eqI) (auto simp: bit_simps less_Suc_eq not_less_eq)
  then have "unat x = take_bit (Suc i) (unat x)" by (metis unsigned_take_bit_eq)
  then show "unat x < 2 ^ Suc (unat (FLS x))" unfolding f by (metis take_bit_nat_less_exp)
qed

lemma hsize2hbits_enough:
  assumes "s \<noteq> 0"
  shows "unat s \<le> 2 ^ unat (hsize2hbits s)" "s \<noteq> 1 \<Longrightarrow> 2 ^ unat (hsize2hbits s) < 2 * unat s" "hsize2hbits s \<noteq> 0"
proof -
  have "unat s \<le> 2 ^ unat (hsize2hbits s) \<and> (s \<noteq> 1 \<longrightarrow> 2 ^ unat (hsize2hbits s) < 2 * unat s) \<and> hsize2hbits s \<noteq> 0"
  proof (cases "s = 1")
    case False
    then have ne: "s - 1 \<noteq> 0" by simp
    note b = FLS_bounds [OF ne]
    have u: "unat (s - 1) = unat s - 1" "unat s > 0" using assms by (simp_all add: unat_minus_one unat_gt_0)
    have "unat (FLS (s - 1) + of_nat 1) = unat (FLS (s - 1)) + 1"
      by (rule unat_add_of_nat) (use b(1) in simp)
    then have "unat (1 + FLS (s - 1)) = Suc (unat (FLS (s - 1)))"
      by (simp only: of_nat_1 add.commute [of 1] Suc_eq_plus1)
    then have hb: "unat (hsize2hbits s) = Suc (unat (FLS (s - 1)))" using False assms by (simp add: hsize2hbits_def)
    then have "hsize2hbits s \<noteq> 0" by (metis nat.distinct(1) unat_0)
    moreover have "unat s \<le> 2 ^ unat (hsize2hbits s)" unfolding hb using b(3) u by linarith
    moreover have "2 ^ unat (hsize2hbits s) < 2 * unat s" unfolding hb using b(2) u by simp
    ultimately show ?thesis by blast
  qed (simp add: hsize2hbits_def)
  then show "unat s \<le> 2 ^ unat (hsize2hbits s)" "s \<noteq> 1 \<Longrightarrow> 2 ^ unat (hsize2hbits s) < 2 * unat s" "hsize2hbits s \<noteq> 0"
    by auto
qed


section \<open>Properties\<close>

text \<open>
  C6: on a well-formed table \<^verbatim>\<open>kp_tab_set\<close> ends without a fault and is the update of the map the table
  stands for (storing nil removes the key); the only other outcome is the overflow error, reported
  when every node of the hash part carries a key and the key is new, and then nothing changes.
\<close>

theorem tab_set_refines_map:
  assumes "tab_inv g t" and "plain_key g k"
  shows "\<exists>t' g'. kp_tab_set env g t k v = Some (t', g') \<and>
     (g' = g \<and> tab_inv g t' \<and> tab_abs t' = (tab_abs t)(val_key k := nonnil v) \<or>
      g' = kp_error ''table overflow'' g \<and> t' = t \<and> tab_full t \<and> tab_abs t (val_key k) = None)"
  using tab_set_ok [OF assms, of env] by (auto simp: set_ok_def kp_tab_set_def store_slot_def slot_for_def)

text \<open>A table of two nodes and two array slots, and a key string for it.\<close>

definition two_mem :: tab_mem where
  "two_mem = \<lparr>tm_obj = True, tm_array = (\<lambda>n. Some (replicate n kp_niltv)),
     tm_node = (\<lambda>n. Some (replicate n \<lparr>n_val = kp_niltv, n_key = set_number 9, n_next = Some 1\<rparr>)), tm_hnum = 0\<rparr>"

definition two_tab :: ktap_tab where
  "two_tab = the (fst (the (kp_tab_new two_mem pool_example 2 1)))"

definition no_env :: tab_env where
  "no_env = \<lparr>env_event = None, env_trace = (\<lambda>_ _. []), env_symbol = (\<lambda>_. []), env_arg = abc_arg\<rparr>"

lemma two_mem_sized: "mem_sized two_mem"
  by (auto simp: mem_sized_def two_mem_def)

lemma two_tab_new: "kp_tab_new two_mem pool_example 2 1 = Some (Some two_tab, pool_example)"
  by code_simp

lemma two_tab_ok: "tab_inv pool_example two_tab" "tab_abs two_tab = Map.empty" "asize two_tab = 2"
  "length (tnode two_tab) = 2"
  using kp_tab_new_ok [OF two_mem_sized two_tab_new] by simp_all

lemma five_plain: "plain_key g (set_number 5)"
  by (simp add: plain_key_def num_key_ok is_type_defs)

theorem tab_set_refines_map_witness:
  "\<exists>t'. kp_tab_set no_env pool_example two_tab (set_number 5) (set_number 7) = Some (t', pool_example) \<and>
     tab_abs t' = [(KTAP_TNUM, 5) \<mapsto> set_number 7]"
proof -
  have "\<not> tab_full two_tab" by code_simp
  then show ?thesis
    using tab_set_refines_map [OF two_tab_ok(1) five_plain, of no_env "set_number 7"] two_tab_ok(2)
    by (auto simp: val_key_num is_type_defs nonnil_def)
qed

text \<open>
  C7: on a well-formed table \<^verbatim>\<open>kp_tab_get\<close> ends without a fault, changes nothing and returns the value
  of the key in the map, nil when there is none.
\<close>

theorem tab_get_refines_map:
  assumes "tab_inv g t" and "plain_key g k"
  shows "\<exists>v. kp_tab_get env g t k = Some (v, g) \<and> nonnil v = tab_abs t (val_key k)"
  by (rule tabmap.get_law [OF assms])

theorem tab_get_refines_map_witness:
  "\<exists>v. kp_tab_get no_env pool_example two_tab (set_number 5) = Some (v, pool_example) \<and> is_nil v"
  using tab_get_refines_map [OF two_tab_ok(1) five_plain, of no_env] two_tab_ok(2)
  by (auto simp: nonnil_def split: if_splits)

lemma nonnil_number: "nonnil (set_number n) = Some (set_number n)"
  by (simp add: nonnil_def)

text \<open>
  C11: \<^verbatim>\<open>kp_tab_incr\<close> adds to the number under the key with the wrap-around of 64 bits, starts from the
  given number when the key is absent, and reports an error without changing the map when the
  value is not a number.
\<close>

theorem tab_incr_refines_map:
  assumes "tab_inv g t" and "plain_key g k" and "free_nodes t > 0"
  shows "\<exists>t' g'. kp_tab_incr env g t k n = Some (t', g') \<and> tab_inv g t' \<and>
     (case tab_abs t (val_key k) of
        None \<Rightarrow> g' = g \<and> tab_abs t' = (tab_abs t)(val_key k \<mapsto> set_number n)
      | Some v \<Rightarrow> if is_number v then g' = g \<and> tab_abs t' = (tab_abs t)(val_key k \<mapsto> set_number (nvalue v + n))
          else gstatus g' = KTAP_ERROR \<and> tab_abs t' = tab_abs t)"
proof -
  obtain s t1 where s: "tab_set env g t k = Some (Some s, t1, g)" "slot_for g t (val_key k) s t1"
    using tab_set_ok [OF assms(1,2), of env] not_full [OF assms(3)] by (auto simp: set_ok_def)
  then have rd: "nonnil (slot_read t1 s) = tab_abs t (val_key k)" by (simp add: slot_for_def)
  have wr: "tab_inv g (slot_write t1 s v)" "tab_abs (slot_write t1 s v) = (tab_abs t)(val_key k := nonnil v)" for v
    using s(2) by (simp_all add: slot_for_def)
  have t1: "tab_inv g t1" "tab_abs t1 = tab_abs t" using s(2) by (simp_all add: slot_for_def)
  consider "is_number (slot_read t1 s)" | "is_nil (slot_read t1 s)" "\<not> is_number (slot_read t1 s)"
    | "\<not> is_nil (slot_read t1 s)" "\<not> is_number (slot_read t1 s)" by blast
  then show ?thesis
  proof cases
    case 1
    then have "tab_abs t (val_key k) = Some (slot_read t1 s)" using rd by (auto simp: nonnil_def is_type_defs)
    then show ?thesis using 1 wr by (simp add: kp_tab_incr_def s(1) incr_slot_def Let_def nonnil_number)
  next
    case 2
    then have "tab_abs t (val_key k) = None" using rd by (simp add: nonnil_def)
    then show ?thesis using 2 wr by (simp add: kp_tab_incr_def s(1) incr_slot_def Let_def nonnil_number)
  next
    case 3
    then have "tab_abs t (val_key k) = Some (slot_read t1 s)" using rd by (simp add: nonnil_def)
    then show ?thesis using 3 t1 by (simp add: kp_tab_incr_def s(1) incr_slot_def Let_def)
  qed
qed

theorem tab_incr_refines_map_witness:
  "\<exists>t'. kp_tab_incr no_env pool_example two_tab (set_number 5) 3 = Some (t', pool_example) \<and>
     tab_abs t' = [(KTAP_TNUM, 5) \<mapsto> set_number 3]"
proof -
  have "\<exists>i<2. is_nil (n_key (tnode two_tab ! i))" by code_simp
  then have "free_nodes two_tab > 0" using two_tab_ok(4) by (auto simp: free_nodes_def card_gt_0_iff)
  then show ?thesis
    using tab_incr_refines_map [OF two_tab_ok(1) five_plain, of no_env 3] two_tab_ok(2)
    by (auto simp: val_key_num is_type_defs)
qed

text \<open>
  C15: a new table of \<open>2 ^ hbits\<close> nodes takes any sequence of that many stores, whatever the keys,
  without overflow, and then stands for the map built by these updates.
\<close>

theorem tab_new_capacity:
  assumes "mem_sized tm" and "kp_tab_new tm g as hbits = Some (Some t, g')" and "hbits \<noteq> 0"
    and "\<And>n. n \<in> set ns \<Longrightarrow> \<not> is_nil (n_key n) \<and> plain_key g (n_key n)" and "length ns \<le> 2 ^ unat hbits"
  shows "\<exists>t'. dup_nodes env g t ns = Some (t', g) \<and> tab_inv g t' \<and>
     tab_abs t' = fold (\<lambda>n m. m(val_key (n_key n) := nonnil (n_val n))) ns Map.empty"
proof -
  note new = kp_tab_new_ok [OF assms(1-3)]
  have np: "node_pairs ns = map (\<lambda>n. (n_key n, n_val n)) ns"
    using assms(4) by (simp add: node_pairs_def filter_id_conv)
  have pk: "plain_key g x" if "(x, w) \<in> set (node_pairs ns)" for x w using that assms(4) by (auto simp: np)
  have len: "length (node_pairs ns) \<le> free_nodes t" using new assms(5) by (simp add: np)
  obtain t' where "tabmap.put_all env g t (node_pairs ns) = Some (t', g)" "tab_inv g t'"
    "tab_abs t' = fold (\<lambda>(x, w) m. m(val_key x := nonnil w)) (node_pairs ns) (tab_abs t)"
    using tabmap.put_all_ok [OF conjunct1 [OF new], of "node_pairs ns" env] pk len by blast
  then show ?thesis
    using new by (intro exI [of _ t']) (simp add: dup_nodes_put_all np fold_map comp_def)
qed

definition two_nodes :: "ktap_node list" where
  "two_nodes = [\<lparr>n_val = set_number 1, n_key = set_number 5, n_next = None\<rparr>,
                \<lparr>n_val = set_number 2, n_key = set_number 0, n_next = None\<rparr>]"

theorem tab_new_capacity_witness:
  "\<exists>t'. dup_nodes no_env pool_example two_tab two_nodes = Some (t', pool_example) \<and> tab_inv pool_example t' \<and>
     tab_abs t' = [(KTAP_TNUM, 5) \<mapsto> set_number 1, (KTAP_TNUM, 0) \<mapsto> set_number 2]"
proof -
  have "\<not> is_nil (n_key n) \<and> plain_key pool_example (n_key n)" if "n \<in> set two_nodes" for n
    using that by (auto simp: two_nodes_def plain_key_def num_key_ok is_type_defs)
  then show ?thesis
    using tab_new_capacity [OF two_mem_sized two_tab_new, of two_nodes no_env]
    by (simp add: two_nodes_def val_key_num is_number_def nonnil_number)
qed

text \<open>
  \<^verbatim>\<open>kp_tab_dup\<close> of a well-formed table that fits the default size (256 array slots, 2048 nodes) is
  a well-formed table that stands for the same map.
\<close>

theorem tab_dup_same_map:
  assumes "tab_inv g kt" and "stored_plain g kt" and "asize kt \<le> 256"
    and "length (node_pairs (tnode kt)) \<le> 2048" and "mem_sized tm" and "tm_obj tm"
    and "tm_array tm 256 = Some a" and "tm_node tm 2048 = Some ns"
  shows "\<exists>t. kp_tab_dup tm env g kt = Some (Some t, g) \<and> tab_inv g t \<and> tab_abs t = tab_abs kt"
  by (rule kp_tab_dup_abs [OF assms])

theorem tab_dup_same_map_witness:
  "\<exists>t. kp_tab_dup two_mem no_env pool_example two_tab = Some (Some t, pool_example) \<and> tab_abs t = Map.empty"
proof -
  have p: "stored_plain pool_example two_tab" "length (node_pairs (tnode two_tab)) = 0" by code_simp+
  have "tm_array two_mem 256 = Some (replicate 256 kp_niltv)"
    "tm_node two_mem 2048 = Some (replicate 2048 \<lparr>n_val = kp_niltv, n_key = set_number 9, n_next = Some 1\<rparr>)"
    "tm_obj two_mem" by (simp_all only: two_mem_def tab_mem.simps)
  moreover have "asize two_tab \<le> 256" by (simp add: two_tab_ok(3))
  ultimately show ?thesis
    using tab_dup_same_map [OF two_tab_ok(1) p(1) _ _ two_mem_sized, of _ _ no_env] two_tab_ok(2) p(2) by fastforce
qed

lemma entry_arr_key:
  assumes inv: "tab_inv g t" and p: "p < slot_count t" "slot_live t p"
  shows "arr_key t (val_key (fst (slot_entry t p))) \<longleftrightarrow> p < unat (asize t)"
    and "tab_abs t (val_key (fst (slot_entry t p))) = Some (snd (slot_entry t p))"
proof -
  let ?k = "fst (slot_entry t p)"
  have "(arr_key t (val_key ?k) \<longleftrightarrow> p < unat (asize t)) \<and> tab_abs t (val_key ?k) = Some (snd (slot_entry t p))"
  proof (cases "p < unat (asize t)")
    case True
    then have "p < 2 ^ 64" using unsigned_less [of "asize t", where ?'a = nat] by simp
    then have "unat (of_nat p :: u64) = p" by (simp add: unsigned_of_nat take_bit_nat_eq_self)
    then show ?thesis using True p(2)
      by (simp add: slot_entry_def val_key_num is_number_def arr_key_def tab_abs_def slot_live_def nonnil_def)
  next
    case False
    define i where "i = p - unat (asize t)"
    have i: "i < length (tnode t)" "\<not> is_nil (n_val (tnode t ! i))" "slot_entry t p = (n_key (tnode t ! i), n_val (tnode t ! i))"
      using p False by (auto simp: i_def slot_count_def slot_live_def slot_entry_def)
    then have nk: "\<not> is_nil (n_key (tnode t ! i))"
      using nil_unlinkedD(1) [OF nodes_invD(5) [OF tab_invD(4) [OF inv]] i(1)] by auto
    show ?thesis
      using False i tab_invD(6) [OF inv i(1) nk] tab_live_at [OF nodes_invD(7) [OF tab_invD(4) [OF inv]] i(1) nk]
      by (simp add: tab_abs_def nonnil_def)
  qed
  then show "arr_key t (val_key ?k) \<longleftrightarrow> p < unat (asize t)" "tab_abs t (val_key ?k) = Some (snd (slot_entry t p))" by auto
qed

lemma entry_inj:
  assumes inv: "tab_inv g t" and p: "p < slot_count t" "slot_live t p" and q: "q < slot_count t" "slot_live t q"
    and eq: "val_key (fst (slot_entry t p)) = val_key (fst (slot_entry t q))"
  shows "p = q"
proof (cases "p < unat (asize t)")
  case True
  then have q': "q < unat (asize t)" using entry_arr_key(1) [OF inv p] entry_arr_key(1) [OF inv q] eq by simp
  have "p < 2 ^ 64" "q < 2 ^ 64" using True q' unsigned_less [of "asize t", where ?'a = nat] by simp_all
  moreover have "(of_nat p :: u64) = of_nat q" using eq True q' by (simp add: slot_entry_def val_key_num is_number_def)
  then have "unat (of_nat p :: u64) = unat (of_nat q :: u64)" by simp
  ultimately show ?thesis by (simp add: unsigned_of_nat take_bit_nat_eq_self)
next
  case False
  then have q': "\<not> q < unat (asize t)" using entry_arr_key(1) [OF inv p] entry_arr_key(1) [OF inv q] eq by simp
  define i j where "i = p - unat (asize t)" and "j = q - unat (asize t)"
  have i: "i < length (tnode t)" "j < length (tnode t)" "\<not> is_nil (n_val (tnode t ! i))"
    "val_key (n_key (tnode t ! i)) = val_key (n_key (tnode t ! j))"
    using p q eq False q' by (auto simp: i_def j_def slot_count_def slot_live_def slot_entry_def)
  then have "\<not> is_nil (n_key (tnode t ! i))"
    using nil_unlinkedD(1) [OF nodes_invD(5) [OF tab_invD(4) [OF inv]] i(1)] by auto
  then have "i = j" using keys_uniqueD [OF nodes_invD(7) [OF tab_invD(4) [OF inv]] i(1,2)] i(4) by blast
  then show ?thesis using False q' by (simp add: i_def j_def)
qed

lemma abs_entry:
  assumes inv: "tab_inv g t" and v: "tab_abs t vk = Some v"
  shows "\<exists>p < slot_count t. slot_live t p \<and> val_key (fst (slot_entry t p)) = vk \<and> snd (slot_entry t p) = v"
proof (cases "arr_key t vk")
  case True
  then have "(of_nat (unat (snd vk)) :: u64) = snd vk" by simp
  then show ?thesis using True v
    by (intro exI [of _ "unat (snd vk)"])
      (auto simp: tab_abs_def nonnil_def arr_key_def slot_count_def slot_live_def slot_entry_def val_key_num is_number_def
        prod_eq_iff split: if_splits)
next
  case False
  then obtain i where "i < length (tnode t)" "live_node vk (tnode t ! i)" "n_val (tnode t ! i) = v"
    using v live_iff [OF nodes_invD(7) [OF tab_invD(4) [OF inv]]] by (auto simp: tab_abs_def)
  then show ?thesis
    by (intro exI [of _ "unat (asize t) + i"]) (auto simp: slot_count_def slot_live_def slot_entry_def live_node_def)
qed

text \<open>
  C16: a traversal with \<^verbatim>\<open>kp_tab_next\<close> from nil ends, and visits every entry of the map exactly once.
\<close>

theorem tab_next_visits_all:
  assumes inv: "tab_inv g t" and plain: "stored_plain g t" and size: "slot_count t < 2 ^ 32" and "is_nil k"
  shows "\<exists>es. tab_iter g t (Suc (slot_count t)) k = Some es \<and> distinct (map (val_key \<circ> fst) es) \<and>
     (\<forall>vk v. tab_abs t vk = Some v \<longleftrightarrow> (\<exists>k'. (k', v) \<in> set es \<and> val_key k' = vk))"
proof -
  let ?A = "unat (asize t)" and ?ps = "filter (slot_live t) [0..<slot_count t]"
  have "tab_iter g t (Suc (slot_count t)) k = Some (map (slot_entry t) ?ps)"
    by (rule tab_iter_from [OF inv size plain keyindex_nil [OF assms(4)]]) simp_all
  moreover have "distinct (map (val_key \<circ> fst) (map (slot_entry t) ?ps))"
    unfolding map_map by (auto simp: distinct_map inj_on_def intro!: entry_inj [OF inv])
  moreover have "tab_abs t vk = Some v \<longleftrightarrow> (\<exists>k'. (k', v) \<in> set (map (slot_entry t) ?ps) \<and> val_key k' = vk)" for vk v
  proof
    assume "tab_abs t vk = Some v"
    then obtain p where "p < slot_count t" "slot_live t p" "val_key (fst (slot_entry t p)) = vk" "snd (slot_entry t p) = v"
      using abs_entry [OF inv] by blast
    then show "\<exists>k'. (k', v) \<in> set (map (slot_entry t) ?ps) \<and> val_key k' = vk"
      by (intro exI [of _ "fst (slot_entry t p)"]) (auto intro!: image_eqI [of _ _ p])
  next
    assume "\<exists>k'. (k', v) \<in> set (map (slot_entry t) ?ps) \<and> val_key k' = vk"
    then obtain p where "p < slot_count t" "slot_live t p" "val_key (fst (slot_entry t p)) = vk" "snd (slot_entry t p) = v"
      by auto (metis fst_conv snd_conv)
    then show "tab_abs t vk = Some v" using entry_arr_key(2) [OF inv] by auto
  qed
  ultimately show ?thesis by blast
qed

theorem tab_next_visits_all_witness:
  "\<exists>es. tab_iter pool_example two_tab 5 kp_niltv = Some es \<and> distinct (map (val_key \<circ> fst) es)"
proof -
  have p: "stored_plain pool_example two_tab" "slot_count two_tab = 4" by code_simp+
  show ?thesis
    using tab_next_visits_all [OF two_tab_ok(1) p(1), of kp_niltv] p(2) by auto
qed


text \<open>
  the hash part \<^verbatim>\<open>kp_tab_new_ah\<close> allocates for \<open>h\<close> requested entries has at least \<open>h\<close> nodes and, beyond
  the minimum of two, fewer than twice as many; the array part has one slot more than requested;
  the new table is well formed and empty.
\<close>

theorem tab_new_ah_sizes:
  assumes "mem_sized tm" and "kp_tab_new_ah tm g a h = Some (Some t, g')" and "h \<noteq> 0" and "0 <s a"
  shows "tab_inv g t \<and> tab_abs t = Map.empty \<and> g' = g \<and> unat h \<le> length (tnode t) \<and>
     (h \<noteq> 1 \<longrightarrow> length (tnode t) < 2 * unat h) \<and> asize t = a + 1 \<and> free_nodes t = length (tnode t)"
proof -
  have "kp_tab_new tm g (a + 1) (hsize2hbits h) = Some (Some t, g')"
    using assms(2-4) by (simp add: kp_tab_new_ah_def)
  from kp_tab_new_ok [OF assms(1) this] hsize2hbits_enough [OF assms(3)] show ?thesis by simp
qed

theorem tab_new_ah_sizes_witness:
  "\<exists>t. kp_tab_new_ah two_mem pool_example 3 5 = Some (Some t, pool_example) \<and> length (tnode t) < 10"
proof -
  define t where "t = the (fst (the (kp_tab_new_ah two_mem pool_example 3 5)))"
  have new: "kp_tab_new_ah two_mem pool_example 3 5 = Some (Some t, pool_example)" unfolding t_def by code_simp
  moreover have "(0 :: u32) <s 3" by (simp add: word_sless_alt)
  ultimately show ?thesis using tab_new_ah_sizes [OF two_mem_sized new] by simp
qed

text \<open>
  a table created without a hash part (\<^verbatim>\<open>hbits = 0\<close>), as the loader makes for a constant table
  without hash entries, has an uninitialised node pointer: \<^verbatim>\<open>kp_tab_len\<close>, a lookup of a key outside
  the array and, given memory for the copy, \<^verbatim>\<open>kp_tab_dup\<close> all read through it.
\<close>

theorem tab_without_hash_faults:
  assumes "kp_tab_new tm g as 0 = Some (Some t, g')" and "as \<le> k"
    and "mem_sized tm" and "tm_array tm 256 = Some a" and "tm_node tm 2048 = Some ns"
  shows "kp_tab_len t = None \<and> kp_tab_getint t k = None \<and> kp_tab_dup tm env g t = None"
proof -
  have t: "tnode t = []" "asize t = as" and obj: "tm_obj tm"
    using assms(1)
    by (auto simp: kp_tab_new_def newtab_def Let_def clearapart_def word_gt_0 split: if_splits option.splits bind_splits)
  obtain t2 where "kp_tab_new_ah tm g 0 0 = Some (Some t2, g)" using default_table [OF assms(3) obj assms(4,5), of g] by blast
  then have "kp_tab_dup tm env g t = None" using t by (simp add: kp_tab_dup_def)
  moreover have "kp_tab_getint t k = None"
    using t assms(2) by (simp add: kp_tab_getint_def tab_getint_def tab_getinth_def chain_find_def not_less)
  ultimately show ?thesis using t by (simp add: kp_tab_len_def)
qed

theorem tab_without_hash_faults_witness:
  "kp_tab_len (the (fst (the (kp_tab_new two_mem pool_example 4 0)))) = None"
proof -
  define t where "t = the (fst (the (kp_tab_new two_mem pool_example 4 0)))"
  have new: "kp_tab_new two_mem pool_example 4 0 = Some (Some t, pool_example)" unfolding t_def by code_simp
  have "tm_array two_mem 256 = Some (replicate 256 kp_niltv)"
    "tm_node two_mem 2048 = Some (replicate 2048 \<lparr>n_val = kp_niltv, n_key = set_number 9, n_next = Some 1\<rparr>)"
    by (simp_all only: two_mem_def tab_mem.simps)
  then show ?thesis using tab_without_hash_faults [OF new _ two_mem_sized, of 4] by (simp add: t_def)
qed

definition ev_env :: tab_env where
  "ev_env = \<lparr>env_event = Some (\<lambda>g. kp_str_new g abc_arg), env_trace = (\<lambda>_ _. [0x4000]), env_symbol = (\<lambda>_. [102, 110]),
     env_arg = abc_arg\<rparr>"

text \<open>
  a value stored under a backtrace or an event string cannot be read back through the same key.
  \<^verbatim>\<open>tab_set\<close> converts both to strings; \<^verbatim>\<open>tab_get\<close> looks a backtrace up by its bits and finds nil, and for
  an event string passes the unconverted bits of the key as the string pointer.
\<close>

theorem tab_get_special_keys:
  "\<exists>env t1 g1 t2 g2. kp_tab_set env str_example two_tab (set_kstack kp_niltv 1 0) (set_number 7) = Some (t1, g1) \<and>
     gstatus g1 = KTAP_RUNNING \<and> kp_tab_get env g1 t1 (set_kstack kp_niltv 1 0) = Some (kp_niltv, g1) \<and>
     kp_tab_set env str_example two_tab (set_eventstr kp_niltv) (set_number 7) = Some (t2, g2) \<and>
     gstatus g2 = KTAP_RUNNING \<and> kp_tab_get env g2 t2 (set_eventstr kp_niltv) = None"
proof -
  let ?r1 = "the (kp_tab_set ev_env str_example two_tab (set_kstack kp_niltv 1 0) (set_number 7))"
  let ?r2 = "the (kp_tab_set ev_env str_example two_tab (set_eventstr kp_niltv) (set_number 7))"
  have "kp_tab_set ev_env str_example two_tab (set_kstack kp_niltv 1 0) (set_number 7) = Some (fst ?r1, snd ?r1)"
    by code_simp
  moreover have "gstatus (snd ?r1) = KTAP_RUNNING" by code_simp
  moreover have "kp_tab_get ev_env (snd ?r1) (fst ?r1) (set_kstack kp_niltv 1 0) = Some (kp_niltv, snd ?r1)" by code_simp
  moreover have "kp_tab_set ev_env str_example two_tab (set_eventstr kp_niltv) (set_number 7) = Some (fst ?r2, snd ?r2)"
    by code_simp
  moreover have "gstatus (snd ?r2) = KTAP_RUNNING" by code_simp
  moreover have "kp_tab_get ev_env (snd ?r2) (fst ?r2) (set_eventstr kp_niltv) = None" by code_simp
  ultimately show ?thesis by blast
qed

end
