(* ===== verification/Ktap_Fmt.thy ===== *)
theory Ktap_Fmt
  imports Ktap_Str "HOL-Library.Sublist"
begin

text \<open>
  Formatted output (\<^verbatim>\<open>kp_str_fmt\<close> and its helpers in \<^verbatim>\<open>runtime/kp_str.c\<close>), the implementation of
  \<^verbatim>\<open>printf\<close> for scripts.  The kernel's \<^verbatim>\<open>trace_seq\<close> functions are observed as a list of calls.
  A format string is the list of characters from the current position on; its end is the
  terminating zero byte.
\<close>

datatype seq_call =
    SeqPutc u8
  | SeqPrintf "u8 list" u64
  | SeqPrintfStr "u8 list" "u8 list"
  | SeqSymbol u64
  | SeqPuts "u8 list"

definition L_ESC :: u8 where "L_ESC = 37"

text \<open>The characters \<^verbatim>\<open>-+ #0\<close>; \<^verbatim>\<open>sizeof(FLAGS)\<close> counts the terminator.\<close>

definition FLAGS :: "u8 list" where "FLAGS = [45, 43, 32, 35, 48]"

definition INTFRMLEN :: "u8 list" where "INTFRMLEN = [108, 108]"

abbreviation (input) sizeof_FLAGS :: nat where "sizeof_FLAGS \<equiv> 6"
abbreviation (input) MAX_FORMAT :: nat where "MAX_FORMAT \<equiv> 6 + 3 + 10"

definition c_isdigit :: "u8 \<Rightarrow> bool" where "c_isdigit c \<longleftrightarrow> 48 \<le> c \<and> c \<le> 57"

definition skip_digit :: "u8 list \<Rightarrow> u8 list" where
  "skip_digit p = (if c_isdigit (c_char p) then tl p else p)"

text \<open>
  \<^verbatim>\<open>scanformat\<close>: \<open>Inl\<close> is the \<^verbatim>\<open>NULL\<close> it returns after reporting an error, \<open>Inr (p, form)\<close> the position of
  the conversion character and the contents of \<^verbatim>\<open>form\<close> without its terminator.
\<close>

definition scanformat :: "ktap_global \<Rightarrow> u8 list \<Rightarrow> ktap_global + u8 list \<times> u8 list" where
  "scanformat g strfrmt =
     (let p = dropWhile (\<lambda>c. c \<in> set FLAGS) strfrmt in
      if length strfrmt - length p \<ge> sizeof_FLAGS then Inl (kp_error ''invalid format (repeated flags)'' g)
      else
        (let p1 = skip_digit (skip_digit p);
             p2 = (if c_char p1 = 46 then skip_digit (skip_digit (tl p1)) else p1)
         in if c_isdigit (c_char p2) then Inl (kp_error ''invalid format (width or precision too long)'' g)
            else Inr (p2, L_ESC # take (length strfrmt - length p2) strfrmt @ [c_char p2])))"

definition addlenmod :: "u8 list \<Rightarrow> u8 list \<Rightarrow> u8 list" where
  "addlenmod form lenmod =
     (let l = c_strlen form; spec = form ! (l - 1)
      in take (l - 1) form @ takeWhile (\<lambda>c. c \<noteq> 0) lenmod @ [spec])"

definition arg_error :: "ktap_global \<Rightarrow> ktap_global" where
  "arg_error g = kp_error ''bad argument (no value)'' g"

text \<open>
  One conversion: the output and either the end of the call with its return value or the position
  after the conversion character.  \<open>None\<close> is a fault: \<^verbatim>\<open>scanformat\<close> returned \<^verbatim>\<open>NULL\<close>, which the caller
  dereferences, or a string argument is not a string object.  \<open>evstr\<close> is \<^verbatim>\<open>kp_event_tostr\<close>, which
  formats the current event with the kernel's functions and fails outside a tracing context.
\<close>

datatype fmt_step = FmtReturn int | FmtNext "u8 list"

type_synonym fmt_result = "(fmt_step \<times> seq_call list \<times> ktap_global) option"

definition fmt_number :: "(u64 \<Rightarrow> seq_call) \<Rightarrow> ktap_val \<Rightarrow> ktap_global \<Rightarrow> u8 list \<Rightarrow> fmt_result" where
  "fmt_number out v g rest =
     (if \<not> is_number v then Some (FmtReturn (-1), [], kp_error ''wrong type of argument'' g)
      else Some (FmtNext rest, [out (nvalue v)], g))"

definition fmt_string ::
    "(ktap_global \<Rightarrow> u8 list option \<times> ktap_global) \<Rightarrow> u8 list \<Rightarrow> ktap_val \<Rightarrow> ktap_global \<Rightarrow> u8 list \<Rightarrow> fmt_result" where
  "fmt_string evstr form v g rest =
     (if is_nil v then Some (FmtReturn 0, [SeqPuts [110, 105, 108]], g)
      else if is_eventstr v then
        (case evstr g of
           (None, g1) \<Rightarrow> Some (FmtReturn (-1), [], g1)
         | (Some s, g1) \<Rightarrow>
             (case evstr g1 of
                (None, _) \<Rightarrow> None
              | (Some s', g2) \<Rightarrow> Some (FmtReturn 0, [SeqPuts s'], g2)))
      else if \<not> is_string v then Some (FmtReturn (-1), [], kp_error ''wrong type of argument'' g)
      else (case strobjs g (rawtsvalue v) of
              None \<Rightarrow> None
            | Some o' \<Rightarrow>
                if 46 \<notin> set (takeWhile (\<lambda>c. c \<noteq> 0) form) \<and> s_len o' \<ge> 100
                then Some (FmtNext rest, [SeqPuts (s_chars o')], g)
                else Some (FmtNext rest, [SeqPrintfStr form (s_chars o')], g)))"

definition fmt_item ::
    "(ktap_global \<Rightarrow> u8 list option \<times> ktap_global) \<Rightarrow> ktap_val \<Rightarrow> ktap_global \<Rightarrow> u8 list \<Rightarrow> fmt_result" where
  "fmt_item evstr v g strfrmt =
     (case scanformat g strfrmt of
        Inl _ \<Rightarrow> None
      | Inr (p, form) \<Rightarrow>
          (let c = c_char p; rest = tl p in
           if c = 99 then fmt_number (SeqPrintf form) v g rest
           else if c = 100 \<or> c = 105 then fmt_number (SeqPrintf (addlenmod form INTFRMLEN)) v g rest
           else if c = 112 then fmt_number SeqSymbol v g rest
           else if c = 111 \<or> c = 117 \<or> c = 120 \<or> c = 88 then fmt_number (SeqPrintf (addlenmod form INTFRMLEN)) v g rest
           else if c = 115 then fmt_string evstr form v g rest
           else Some (FmtReturn (-1), [], kp_error ''invalid option to format'' g)))"

text \<open>
  The loop of \<^verbatim>\<open>kp_str_fmt\<close> over the remaining format and arguments.  \<open>args\<close> are the arguments after
  the format; the fuel is the length of the format plus one.
\<close>

fun fmt_loop ::
    "(ktap_global \<Rightarrow> u8 list option \<times> ktap_global) \<Rightarrow> nat \<Rightarrow> ktap_val list \<Rightarrow> ktap_global \<Rightarrow> u8 list \<Rightarrow>
     seq_call list \<Rightarrow> (int \<times> seq_call list \<times> ktap_global) option" where
  "fmt_loop evstr 0 args g f out = None"
| "fmt_loop evstr (Suc fuel) args g f out =
     (case f of
        [] \<Rightarrow> Some (0, out, g)
      | c # f1 \<Rightarrow>
          if c \<noteq> L_ESC then fmt_loop evstr fuel args g f1 (out @ [SeqPutc c])
          else if c_char f1 = L_ESC then fmt_loop evstr fuel args g (tl f1) (out @ [SeqPutc (c_char f1)])
          else (case args of
                  [] \<Rightarrow> Some (-1, out, arg_error g)
                | v # args1 \<Rightarrow>
                    (case fmt_item evstr v g f1 of
                       None \<Rightarrow> None
                     | Some (FmtReturn r, o', g1) \<Rightarrow> Some (r, out @ o', g1)
                     | Some (FmtNext f2, o', g1) \<Rightarrow> fmt_loop evstr fuel args1 g1 f2 (out @ o'))))"

definition kp_str_fmt ::
    "(ktap_global \<Rightarrow> u8 list option \<times> ktap_global) \<Rightarrow> ktap_val list \<Rightarrow> ktap_global \<Rightarrow>
     (int \<times> seq_call list \<times> ktap_global) option" where
  "kp_str_fmt evstr args g =
     (case args of
        [] \<Rightarrow> None
      | fmt # rest \<Rightarrow>
          (case strobjs g (rawtsvalue fmt) of
             None \<Rightarrow> None
           | Some o' \<Rightarrow> fmt_loop evstr (Suc (length (s_chars o'))) rest g (s_chars o') []))"

section \<open>Correctness\<close>

lemma skip_digit_length: "length p \<le> Suc (length (skip_digit p))"
  by (auto simp: skip_digit_def)

lemma skip_digit_suffix: "suffix (skip_digit p) p"
  by (simp add: skip_digit_def)

lemma suffix_eq_drop: "suffix p f \<Longrightarrow> p = drop (length f - length p) f"
  by (auto simp: suffix_def)

text \<open>The scanned part of a format: at most five flags, two digits, a point and two digits.\<close>

lemma scanformat_bounds:
  assumes "scanformat g f = Inr (p, form)"
  shows "length form \<le> 12" "suffix p f" "\<not> c_isdigit (c_char p)" "length f - length p \<le> 10"
    "form = L_ESC # take (length f - length p) f @ [c_char p]"
proof -
  define q where "q = dropWhile (\<lambda>c. c \<in> set FLAGS) f"
  define p1 where "p1 = skip_digit (skip_digit q)"
  define p2 where "p2 = (if c_char p1 = 46 then skip_digit (skip_digit (tl p1)) else p1)"
  have s: "length f - length q < 6" "p = p2" "\<not> c_isdigit (c_char p2)"
    "form = L_ESC # take (length f - length p2) f @ [c_char p2]"
    using assms by (auto simp: scanformat_def Let_def q_def p1_def p2_def split: if_splits)
  have "suffix q f" by (simp add: q_def suffix_dropWhile)
  moreover have "suffix p1 q" unfolding p1_def using skip_digit_suffix suffix_order.trans by blast
  moreover have "suffix (skip_digit (skip_digit (tl p1))) p1"
    using skip_digit_suffix suffix_order.trans suffix_tl by metis
  ultimately have "suffix p2 f" unfolding p2_def using suffix_order.trans by (metis (full_types))
  moreover have "length q \<le> length p2 + 5"
    using skip_digit_length [of q] skip_digit_length [of "skip_digit q"]
      skip_digit_length [of "tl p1"] skip_digit_length [of "skip_digit (tl p1)"]
    unfolding p2_def p1_def by auto
  then have short: "length f - length p2 \<le> 10" using s(1) by linarith
  moreover from this have "length form \<le> 12" unfolding s(4) by simp
  ultimately show "length form \<le> 12" "suffix p f" "\<not> c_isdigit (c_char p)" "length f - length p \<le> 10"
    "form = L_ESC # take (length f - length p) f @ [c_char p]"
    using s by simp_all
qed

text \<open>
  the buffer \<^verbatim>\<open>form\<close> of \<^verbatim>\<open>MAX_FORMAT\<close> bytes is never overrun: what \<^verbatim>\<open>scanformat\<close> copies, with the
  length modifier \<^verbatim>\<open>addlenmod\<close> adds and the terminating zero byte, fits for every format string.
\<close>

theorem format_spec_fits:
  assumes "scanformat g f = Inr (p, form)"
  shows "length form + 1 \<le> MAX_FORMAT \<and> length (addlenmod form INTFRMLEN) + 1 \<le> MAX_FORMAT"
proof -
  have "length form \<le> 12" using scanformat_bounds [OF assms] by simp
  moreover have "c_strlen form \<le> length form" by (rule c_strlen_le)
  ultimately show ?thesis by (simp add: addlenmod_def Let_def INTFRMLEN_def)
qed

text \<open>The format \<^verbatim>\<open>%-+ #012.34d\<close> without its percent sign.\<close>

definition long_format :: "u8 list" where
  "long_format = [45, 43, 32, 35, 48, 49, 50, 46, 51, 52, 100]"

theorem format_spec_fits_witness:
  "\<exists>p form. scanformat pool_example long_format = Inr (p, form) \<and> length (addlenmod form INTFRMLEN) + 1 = 15 \<and>
     length (addlenmod form INTFRMLEN) + 1 \<le> 19"
proof -
  have "scanformat pool_example long_format = Inr ([100], L_ESC # long_format)"
    by (simp add: scanformat_def long_format_def Let_def FLAGS_def skip_digit_def c_isdigit_def)
  moreover have "length (addlenmod (L_ESC # long_format) INTFRMLEN) + 1 = 15" by code_simp
  ultimately show ?thesis using format_spec_fits [of pool_example long_format "[100]"] by auto
qed

section \<open>Formats of literals and conversions\<close>

text \<open>
  A format as a script writes it: characters, percent signs and conversions, with flags, up to two digits of
  width and a precision of up to two digits, each with the argument it prints.
\<close>

record fmt_conv =
  cv_flags :: "u8 list"
  cv_width :: "u8 list"
  cv_prec :: "u8 list option"
  cv_char :: u8

datatype fmt_piece = FmtChar u8 | FmtPercent | FmtConv fmt_conv ktap_val

definition conv_spec :: "fmt_conv \<Rightarrow> u8 list" where
  "conv_spec k = cv_flags k @ cv_width k @ (case cv_prec k of None \<Rightarrow> [] | Some p \<Rightarrow> 46 # p)"

definition piece_text :: "fmt_piece \<Rightarrow> u8 list" where
  "piece_text x =
     (case x of FmtChar c \<Rightarrow> [c] | FmtPercent \<Rightarrow> [L_ESC, L_ESC] | FmtConv k _ \<Rightarrow> L_ESC # conv_spec k @ [cv_char k])"

definition piece_args :: "fmt_piece \<Rightarrow> ktap_val list" where
  "piece_args x = (case x of FmtConv _ v \<Rightarrow> [v] | _ \<Rightarrow> [])"

definition short_digits :: "u8 list \<Rightarrow> bool" where
  "short_digits ds \<longleftrightarrow> length ds \<le> 2 \<and> list_all c_isdigit ds"

definition piece_ok :: "ktap_global \<Rightarrow> fmt_piece \<Rightarrow> bool" where
  "piece_ok g x =
     (case x of
        FmtChar c \<Rightarrow> c \<noteq> L_ESC
      | FmtPercent \<Rightarrow> True
      | FmtConv k v \<Rightarrow>
          list_all (\<lambda>c. c \<in> set FLAGS) (cv_flags k) \<and> length (cv_flags k) \<le> 5 \<and> short_digits (cv_width k) \<and>
          (cv_width k = [] \<or> hd (cv_width k) \<noteq> 48) \<and> (case cv_prec k of None \<Rightarrow> True | Some p \<Rightarrow> short_digits p) \<and>
          (if cv_char k = 115 then is_string v \<and> strobjs g (rawtsvalue v) \<noteq> None
           else cv_char k \<in> set [99, 100, 105, 112, 111, 117, 120, 88] \<and> is_number v))"

text \<open>What is printed: integers with the length modifier, addresses as symbols, long strings without a precision directly.\<close>

definition piece_out :: "ktap_global \<Rightarrow> fmt_piece \<Rightarrow> seq_call" where
  "piece_out g x =
     (case x of
        FmtChar c \<Rightarrow> SeqPutc c
      | FmtPercent \<Rightarrow> SeqPutc L_ESC
      | FmtConv k v \<Rightarrow>
          if cv_char k = 115 then
            (let chars = s_chars (the (strobjs g (rawtsvalue v))) in
             if cv_prec k = None \<and> 100 \<le> s_len (the (strobjs g (rawtsvalue v))) then SeqPuts chars
             else SeqPrintfStr (L_ESC # conv_spec k @ [115]) chars)
          else if cv_char k = 99 then SeqPrintf (L_ESC # conv_spec k @ [99]) (nvalue v)
          else if cv_char k = 112 then SeqSymbol (nvalue v)
          else SeqPrintf (L_ESC # conv_spec k @ INTFRMLEN @ [cv_char k]) (nvalue v))"

lemma skip_two_digits:
  assumes "short_digits ds" "\<not> c_isdigit (c_char r)"
  shows "skip_digit (skip_digit (ds @ r)) = r"
proof -
  consider "ds = []" | a where "ds = [a]" | a b where "ds = [a, b]"
    using assms(1) by (cases ds; cases "tl ds") (auto simp: short_digits_def)
  then show ?thesis using assms by cases (auto simp: skip_digit_def short_digits_def)
qed

lemma dropWhile_flags:
  "list_all P fl \<Longrightarrow> r \<noteq> [] \<Longrightarrow> \<not> P (hd r) \<Longrightarrow> dropWhile P (fl @ r) = r"
  by (induction fl) (auto simp: dropWhile_eq_self_iff)

lemma conv_char:
  assumes "piece_ok g (FmtConv k v)"
  shows "\<not> c_isdigit (cv_char k)" "cv_char k \<notin> set FLAGS" "cv_char k \<noteq> 46" "cv_char k \<noteq> 0"
  using assms by (auto simp: piece_ok_def c_isdigit_def FLAGS_def split: if_splits)

lemma scanformat_conv:
  assumes ok: "piece_ok g (FmtConv k v)"
  shows "scanformat g' (conv_spec k @ cv_char k # rest) = Inr (cv_char k # rest, L_ESC # conv_spec k @ [cv_char k])"
proof -
  note c = conv_char [OF ok]
  let ?pp = "case cv_prec k of None \<Rightarrow> [] | Some p \<Rightarrow> 46 # p" and ?e = "cv_char k # rest"
  have o: "list_all (\<lambda>c. c \<in> set FLAGS) (cv_flags k)" "length (cv_flags k) \<le> 5" "short_digits (cv_width k)"
    "cv_width k = [] \<or> hd (cv_width k) \<noteq> 48" "\<And>p. cv_prec k = Some p \<Longrightarrow> short_digits p"
    using ok by (auto simp: piece_ok_def)
  have nd: "\<not> c_isdigit (c_char (?pp @ ?e))" using c by (auto simp: c_isdigit_def split: option.split)
  have "hd (cv_width k @ ?pp @ ?e) \<notin> set FLAGS"
    using o(3,4) c(2) by (cases "cv_width k") (auto simp: short_digits_def c_isdigit_def FLAGS_def split: option.split)
  then have d: "dropWhile (\<lambda>c. c \<in> set FLAGS) (cv_flags k @ cv_width k @ ?pp @ ?e) = cv_width k @ ?pp @ ?e"
    using o(1) by (intro dropWhile_flags) auto
  have w: "skip_digit (skip_digit (cv_width k @ ?pp @ ?e)) = ?pp @ ?e" by (rule skip_two_digits [OF o(3) nd])
  have p: "(if c_char (?pp @ ?e) = 46 then skip_digit (skip_digit (tl (?pp @ ?e))) else ?pp @ ?e) = ?e"
    using c(1,3) skip_two_digits [OF o(5), of _ ?e] by (auto split: option.split)
  show ?thesis unfolding conv_spec_def scanformat_def append_assoc Let_def d w p using o(2) c(1) by simp
qed

lemma conv_spec_no_zero: "piece_ok g (FmtConv k v) \<Longrightarrow> 0 \<notin> set (conv_spec k)"
  by (auto simp: piece_ok_def conv_spec_def short_digits_def list_all_iff c_isdigit_def FLAGS_def split: option.splits)

lemma addlenmod_form: "0 \<notin> set xs \<Longrightarrow> c \<noteq> 0 \<Longrightarrow> addlenmod (L_ESC # xs @ [c]) INTFRMLEN = L_ESC # xs @ INTFRMLEN @ [c]"
proof -
  assume "0 \<notin> set xs" "c \<noteq> 0"
  then have "takeWhile (\<lambda>c. c \<noteq> 0) (L_ESC # xs @ [c]) = L_ESC # xs @ [c]" by (subst takeWhile_eq_all_conv) (auto simp: L_ESC_def)
  then have "c_strlen (L_ESC # xs @ [c]) = length xs + 2" unfolding c_strlen_def by simp
  then show ?thesis by (simp add: addlenmod_def INTFRMLEN_def nth_append)
qed

lemma fmt_item_conv:
  assumes ok: "piece_ok g (FmtConv k v)"
  shows "fmt_item evstr v g (conv_spec k @ cv_char k # rest) = Some (FmtNext rest, [piece_out g (FmtConv k v)], g)"
proof -
  note sc = scanformat_conv [OF ok, of g rest] and nz = conv_spec_no_zero [OF ok] and c = conv_char [OF ok]
  have al: "addlenmod (L_ESC # conv_spec k @ [cv_char k]) INTFRMLEN = L_ESC # conv_spec k @ INTFRMLEN @ [cv_char k]"
    by (rule addlenmod_form [OF nz c(4)])
  show ?thesis
  proof (cases "cv_char k = 115")
    case False
    then have n: "is_number v" "cv_char k \<in> set [99, 100, 105, 112, 111, 117, 120, 88]" using ok by (simp_all add: piece_ok_def)
    then show ?thesis using False al by (auto simp: fmt_item_def sc fmt_number_def piece_out_def)
  next
    case True
    obtain o' where o: "is_string v" "strobjs g (rawtsvalue v) = Some o'" using ok True by (auto simp: piece_ok_def)
    then have t: "\<not> is_nil v" "\<not> is_eventstr v" by (auto simp: is_string_def is_nil_def is_eventstr_def)
    have "takeWhile (\<lambda>c. c \<noteq> 0) (L_ESC # conv_spec k @ [115]) = L_ESC # conv_spec k @ [115]"
      using nz by (subst takeWhile_eq_all_conv) (auto simp: L_ESC_def)
    moreover have "46 \<in> set (L_ESC # conv_spec k @ [115]) \<longleftrightarrow> cv_prec k \<noteq> None"
      using ok by (auto simp: piece_ok_def conv_spec_def short_digits_def list_all_iff c_isdigit_def FLAGS_def L_ESC_def split: option.splits)
    ultimately have "fmt_string evstr (L_ESC # conv_spec k @ [115]) v g rest = Some (FmtNext rest, [piece_out g (FmtConv k v)], g)"
      unfolding fmt_string_def piece_out_def using True o t by (auto simp: Let_def)
    then show ?thesis using True sc by (simp add: fmt_item_def)
  qed
qed

lemma fmt_loop_rounds:
  "c \<noteq> L_ESC \<Longrightarrow> fmt_loop evstr (Suc n) args g (c # f) out = fmt_loop evstr n args g f (out @ [SeqPutc c])"
  "fmt_loop evstr (Suc n) args g (L_ESC # L_ESC # f) out = fmt_loop evstr n args g f (out @ [SeqPutc L_ESC])"
  "c_char f1 \<noteq> L_ESC \<Longrightarrow> fmt_item evstr v g f1 = Some (FmtNext f2, o', g1) \<Longrightarrow>
     fmt_loop evstr (Suc n) (v # args) g (L_ESC # f1) out = fmt_loop evstr n args g1 f2 (out @ o')"
  by simp_all

lemma conv_first: "piece_ok g (FmtConv k v) \<Longrightarrow> c_char (conv_spec k @ cv_char k # f) \<noteq> L_ESC"
proof -
  assume ok: "piece_ok g (FmtConv k v)"
  then have "L_ESC \<notin> set (conv_spec k @ [cv_char k])"
    by (auto simp: piece_ok_def conv_spec_def short_digits_def list_all_iff c_isdigit_def FLAGS_def L_ESC_def split: option.splits if_splits)
  then show ?thesis by (cases "conv_spec k") auto
qed

lemma piece_simps:
  "piece_text (FmtChar c) = [c]" "piece_text FmtPercent = [L_ESC, L_ESC]" "piece_text (FmtConv k v) = L_ESC # conv_spec k @ [cv_char k]"
  "piece_args (FmtChar c) = []" "piece_args FmtPercent = []" "piece_args (FmtConv k v) = [v]"
  by (simp_all add: piece_text_def piece_args_def)

lemma fmt_loop_pieces:
  "list_all (piece_ok g) ps \<Longrightarrow>
   fmt_loop evstr (Suc (length (concat (map piece_text ps)) + n)) (concat (map piece_args ps) @ extra) g (concat (map piece_text ps)) out =
     Some (0, out @ map (piece_out g) ps, g)"
proof (induction ps arbitrary: n out)
  case (Cons x ps)
  let ?f = "concat (map piece_text ps)" and ?a = "concat (map piece_args ps) @ extra"
  have IH: "fmt_loop evstr (Suc (length ?f + m)) ?a g ?f (out @ [piece_out g x]) = Some (0, (out @ [piece_out g x]) @ map (piece_out g) ps, g)" for m
    using Cons.prems by (intro Cons.IH) simp
  show ?case
  proof (cases x)
    case (FmtConv k v)
    then have ok: "piece_ok g (FmtConv k v)" using Cons.prems by simp
    have "fmt_loop evstr (Suc (Suc (length ?f + (length (conv_spec k) + 1 + n)))) (v # ?a) g (L_ESC # conv_spec k @ cv_char k # ?f) out =
        Some (0, (out @ [piece_out g x]) @ map (piece_out g) ps, g)"
      unfolding fmt_loop_rounds(3) [OF conv_first [OF ok] fmt_item_conv [OF ok]] using IH [of "length (conv_spec k) + 1 + n"]
      by (simp add: FmtConv del: fmt_loop.simps)
    then show ?thesis using FmtConv by (simp add: piece_simps algebra_simps del: fmt_loop.simps)
  next
    case FmtPercent
    have "fmt_loop evstr (Suc (Suc (length ?f + (1 + n)))) ?a g (L_ESC # L_ESC # ?f) out = Some (0, (out @ [piece_out g x]) @ map (piece_out g) ps, g)"
      using IH [of "1 + n"] FmtPercent unfolding fmt_loop_rounds(2) by (simp add: piece_out_def del: fmt_loop.simps)
    then show ?thesis using FmtPercent by (simp add: piece_simps del: fmt_loop.simps)
  next
    case (FmtChar c)
    have "c \<noteq> L_ESC" using Cons.prems FmtChar by (simp add: piece_ok_def)
    then have "fmt_loop evstr (Suc (Suc (length ?f + n))) ?a g (c # ?f) out = Some (0, (out @ [piece_out g x]) @ map (piece_out g) ps, g)"
      using IH [of n] FmtChar unfolding fmt_loop_rounds(1) [OF \<open>c \<noteq> L_ESC\<close>] by (simp add: piece_out_def del: fmt_loop.simps)
    then show ?thesis using FmtChar by (simp add: piece_simps del: fmt_loop.simps)
  qed
qed simp

text \<open>
  C24: \<^verbatim>\<open>kp_str_fmt\<close> prints what the format says.  For a format that consists of characters, percent signs and conversions (\<^verbatim>\<open>c d i o u x X p\<close>
  with a number, \<^verbatim>\<open>s\<close> with a string; at most five flags, two digits of width and two of precision), and the arguments of the conversions in their
  order, possibly followed by more, it returns 0 without an error, and its output is that of the pieces one after the other: the whole
  format is consumed, every conversion takes its own argument, integers get the length modifier, and a string of 100 characters or more without a
  precision is put directly.
\<close>

theorem str_fmt_prints:
  assumes "strobjs g (rawtsvalue fmt) = Some o'" "s_chars o' = concat (map piece_text ps)" "list_all (piece_ok g) ps"
  shows "kp_str_fmt evstr (fmt # concat (map piece_args ps) @ extra) g = Some (0, map (piece_out g) ps, g)"
  using fmt_loop_pieces [OF assms(3), of evstr 0 extra "[]"] assms(1,2) by (simp add: kp_str_fmt_def del: fmt_loop.simps)

text \<open>A global state whose only string is the format \<open>f\<close>, at address 64.\<close>

definition fmt_global :: "u8 list \<Rightarrow> ktap_global" where
  "fmt_global f = pool_example\<lparr>strobjs := [64 \<mapsto>
     \<lparr>s_nextgc = 0, s_reserved = 0, s_hash = kp_str_hash f, s_len = length f, s_chars = f\<rparr>]\<rparr>"

definition no_event :: "ktap_global \<Rightarrow> u8 list option \<times> ktap_global" where
  "no_event g = (None, kp_error ''cannot stringify event str in invalid context'' g)"

text \<open>The format \<^verbatim>\<open>n=%-5d%%\<close> with the number 7.\<close>

theorem str_fmt_prints_witness:
  "kp_str_fmt no_event [set_string 64, set_number 7] (fmt_global [110, 61, 37, 45, 53, 100, 37, 37]) =
     Some (0, [SeqPutc 110, SeqPutc 61, SeqPrintf [37, 45, 53, 108, 108, 100] 7, SeqPutc 37], fmt_global [110, 61, 37, 45, 53, 100, 37, 37])"
  using str_fmt_prints [of "fmt_global [110, 61, 37, 45, 53, 100, 37, 37]" "set_string 64" _
      "[FmtChar 110, FmtChar 61, FmtConv \<lparr>cv_flags = [45], cv_width = [53], cv_prec = None, cv_char = 100\<rparr> (set_number 7), FmtPercent]" no_event "[]"]
  by (simp add: fmt_global_def piece_text_def piece_args_def piece_ok_def piece_out_def conv_spec_def short_digits_def c_isdigit_def FLAGS_def
      L_ESC_def INTFRMLEN_def is_number_def)

lemma fmt_literal:
  "L_ESC \<notin> set pre \<Longrightarrow>
   fmt_loop evstr (length pre + fuel) args g (pre @ f) out = fmt_loop evstr fuel args g f (out @ map SeqPutc pre)"
  by (induction pre arbitrary: out) auto

text \<open>
  two conversions do not do what the script asked for.  A nil argument of \<^verbatim>\<open>%s\<close> prints \<open>nil\<close>
  and ends the call with success, so the rest of the format is lost; and a conversion with six or
  more flags makes \<^verbatim>\<open>scanformat\<close> return the null pointer that \<^verbatim>\<open>kp_str_fmt\<close> dereferences.
\<close>

theorem str_fmt_bad_conversions:
  assumes "L_ESC \<notin> set pre" and "is_nil v" and "n \<ge> 6"
  shows "kp_str_fmt evstr [set_string 64, v] (fmt_global (pre @ [L_ESC, 115] @ post)) =
           Some (0, map SeqPutc pre @ [SeqPuts [110, 105, 108]], fmt_global (pre @ [L_ESC, 115] @ post)) \<and>
         kp_str_fmt evstr [set_string 64, v] (fmt_global (pre @ [L_ESC] @ replicate n 48 @ post)) = None"
proof
  let ?g = "fmt_global (pre @ [L_ESC, 115] @ post)"
  have ne: "(115 :: u8) \<noteq> L_ESC" by (simp add: L_ESC_def)
  have "scanformat ?g (115 # post) = Inr (115 # post, [L_ESC, 115])"
    by (simp add: scanformat_def Let_def FLAGS_def skip_digit_def c_isdigit_def)
  then have it: "fmt_item evstr v ?g (115 # post) = Some (FmtReturn 0, [SeqPuts [110, 105, 108]], ?g)"
    using assms(2) by (simp add: fmt_item_def fmt_string_def)
  have "fmt_loop evstr (length pre + Suc (Suc (Suc (length post)))) [v] ?g (pre @ L_ESC # 115 # post) [] =
      Some (0, map SeqPutc pre @ [SeqPuts [110, 105, 108]], ?g)"
    by (subst fmt_literal [OF assms(1)]) (use it ne in simp)
  then show "kp_str_fmt evstr [set_string 64, v] ?g = Some (0, map SeqPutc pre @ [SeqPuts [110, 105, 108]], ?g)"
    by (simp add: kp_str_fmt_def fmt_global_def del: fmt_loop.simps)
next
  let ?f = "replicate n 48 @ post" and ?g = "fmt_global (pre @ [L_ESC] @ replicate n 48 @ post)"
  have "length (dropWhile (\<lambda>c. c \<in> set FLAGS) ?f) \<le> length post"
    by (induction n) (simp_all add: FLAGS_def dropWhile_append length_dropWhile_le)
  then have "length ?f - length (dropWhile (\<lambda>c. c \<in> set FLAGS) ?f) \<ge> 6" using assms(3) by simp
  then have "fmt_item evstr v ?g ?f = None" by (simp add: fmt_item_def scanformat_def Let_def)
  moreover have "c_char ?f \<noteq> L_ESC" using assms(3) by (cases n) (simp_all add: L_ESC_def)
  ultimately have "fmt_loop evstr (length pre + Suc (Suc (length ?f))) [v] ?g (pre @ L_ESC # ?f) [] = None"
    by (subst fmt_literal [OF assms(1)]) simp
  then show "kp_str_fmt evstr [set_string 64, v] ?g = None"
    by (simp add: kp_str_fmt_def fmt_global_def del: fmt_loop.simps)
qed

theorem str_fmt_bad_conversions_witness:
  "kp_str_fmt no_event [set_string 64, kp_niltv] (fmt_global [97, 37, 115, 98]) =
     Some (0, [SeqPutc 97, SeqPuts [110, 105, 108]], fmt_global [97, 37, 115, 98]) \<and>
   kp_str_fmt no_event [set_string 64, kp_niltv] (fmt_global ([97, 37] @ replicate 6 48 @ [100])) = None"
  using str_fmt_bad_conversions [of "[97]" kp_niltv 6 no_event "[98]"]
    str_fmt_bad_conversions [of "[97]" kp_niltv 6 no_event "[100]"]
  by (simp add: L_ESC_def)

end
