(* ===== verification/Ktap_Hist.thy ===== *)
theory Ktap_Hist
  imports Ktap_Tab_Map "HOL-Library.Multiset"
begin

text \<open>
  Histogram printing of tables (\<^verbatim>\<open>kp_tab_print_hist\<close>, \<^verbatim>\<open>tab_histdump\<close> in \<^verbatim>\<open>runtime/kp_tab.c\<close>).  The kernel's
  \<^verbatim>\<open>sort\<close> is a parameter; of the output, each row is kept as its key, the number of \<^verbatim>\<open>@\<close> characters and
  the count.
\<close>

datatype hist_line = HistRow ktap_val nat u64 | HistMore

text \<open>\<^verbatim>\<open>hist_record_cmp\<close> orders by decreasing value; numbers are signed.\<close>

definition hist_record_cmp :: "ktap_val \<times> ktap_val \<Rightarrow> ktap_val \<times> ktap_val \<Rightarrow> int" where
  "hist_record_cmp i j =
     (let n1 = nvalue (snd i); n2 = nvalue (snd j)
      in if n1 = n2 then 0 else if n1 <s n2 then 1 else -1)"

text \<open>
  The two loops that copy the entries into \<^verbatim>\<open>sort_mem\<close>: \<open>Inl\<close> when a value is not a number.
\<close>

fun hist_copy :: "(ktap_val \<times> ktap_val) list \<Rightarrow> unit + (ktap_val \<times> ktap_val) list" where
  "hist_copy [] = Inr []"
| "hist_copy (e # es) =
     (if is_nil (snd e) then hist_copy es
      else if \<not> is_number (snd e) then Inl ()
      else case hist_copy es of Inl u \<Rightarrow> Inl u | Inr rs \<Rightarrow> Inr (e # rs))"

definition hist_entries :: "ktap_tab \<Rightarrow> (ktap_val \<times> ktap_val) list" where
  "hist_entries t =
     map (\<lambda>i. (set_number (of_nat i), tarray t ! i)) [0..<unat (asize t)] @
     map (\<lambda>n. (n_key n, n_val n)) (take (Suc (unat (hmask t))) (tnode t))"

text \<open>The 32-bit sum, and the number of \<^verbatim>\<open>@\<close> characters, computed in unsigned 64-bit arithmetic.\<close>

definition hist_sum :: "(ktap_val \<times> ktap_val) list \<Rightarrow> u32" where
  "hist_sum es = foldl (\<lambda>s e. s + ucast (nvalue (snd e))) 0 es"

definition hist_ratio :: "u64 \<Rightarrow> u32 \<Rightarrow> u64" where
  "hist_ratio num sm = scast (ucast (num * 38 div scast sm) :: u32)"

text \<open>
  The printing loop.  \<open>None\<close>: the division by a zero sum, or a \<^verbatim>\<open>memset\<close> of more than the 38
  characters of \<^verbatim>\<open>dist_str\<close> before its terminator.
\<close>

fun hist_rows :: "u32 \<Rightarrow> int \<Rightarrow> (ktap_val \<times> ktap_val) list \<Rightarrow> (hist_line list \<times> int) option" where
  "hist_rows sm shownums [] = Some ([], shownums)"
| "hist_rows sm shownums (e # es) =
     (if shownums - 1 = 0 then Some ([], 0)
      else if sm = 0 then None
      else
        (let num = nvalue (snd e); ratio = hist_ratio num sm in
         if ratio > 38 then None
         else do {
           (ls, s) \<leftarrow> hist_rows sm (shownums - 1) es;
           Some ((if is_string (fst e) \<or> is_number (fst e) \<or> is_kip (fst e)
                  then HistRow (fst e) (unat ratio) num # ls else ls), s)
         }))"

text \<open>
  \<open>kmalloc_ok\<close>: whether \<^verbatim>\<open>sort_mem\<close> could be allocated; it has room for \<^verbatim>\<open>asize + hnum\<close> records.
  \<open>sort_fn\<close> is the kernel's \<^verbatim>\<open>sort\<close>, called with the comparison function of the source.
\<close>

type_synonym hist_record = "ktap_val \<times> ktap_val"
type_synonym hist_sort = "(hist_record \<Rightarrow> hist_record \<Rightarrow> int) \<Rightarrow> hist_record list \<Rightarrow> hist_record list"

definition tab_histdump ::
    "hist_sort \<Rightarrow> bool \<Rightarrow> ktap_global \<Rightarrow> ktap_tab \<Rightarrow> int \<Rightarrow> (hist_line list \<times> ktap_global) option" where
  "tab_histdump sort_fn kmalloc_ok g t shownums =
     (if \<not> kmalloc_ok then Some ([], g)
      else if length (tarray t) < unat (asize t) \<or> length (tnode t) \<le> unat (hmask t) then None
      else case hist_copy (hist_entries t) of
          Inl _ \<Rightarrow> Some ([], kp_error ''print_hist only can print number'' g)
        | Inr es \<Rightarrow>
            if length es > unat (asize t + hnum t) then None
            else do {
              (ls, s) \<leftarrow> hist_rows (hist_sum es) shownums (sort_fn hist_record_cmp es);
              Some (ls @ (if s = 0 \<and> es \<noteq> [] then [HistMore] else []), g)
            })"

definition kp_tab_print_hist ::
    "hist_sort \<Rightarrow> bool \<Rightarrow> ktap_global \<Rightarrow> ktap_tab \<Rightarrow> int \<Rightarrow> (hist_line list \<times> ktap_global) option" where
  "kp_tab_print_hist sort_fn kmalloc_ok g t n = tab_histdump sort_fn kmalloc_ok (kp_printf ''value Distribution count'' g) t n"

section \<open>The order of the rows\<close>

text \<open>
  What the kernel documents of \<^verbatim>\<open>sort\<close>: given a comparison function that is total and transitive, the
  array is permuted so that no element compares greater than a later one.
\<close>

definition comparator :: "('a \<Rightarrow> 'a \<Rightarrow> int) \<Rightarrow> bool" where
  "comparator cmp \<longleftrightarrow> (\<forall>a b. cmp a b \<le> 0 \<or> cmp b a \<le> 0) \<and>
     (\<forall>a b c. cmp a b \<le> 0 \<longrightarrow> cmp b c \<le> 0 \<longrightarrow> cmp a c \<le> 0)"

definition kernel_sort :: "(('a \<Rightarrow> 'a \<Rightarrow> int) \<Rightarrow> 'a list \<Rightarrow> 'a list) \<Rightarrow> bool" where
  "kernel_sort f \<longleftrightarrow> (\<forall>cmp xs. comparator cmp \<longrightarrow>
     mset (f cmp xs) = mset xs \<and> sorted_wrt (\<lambda>a b. cmp a b \<le> 0) (f cmp xs))"

lemma hist_record_cmp_le: "hist_record_cmp i j \<le> 0 \<longleftrightarrow> sint (nvalue (snd j)) \<le> sint (nvalue (snd i))"
  by (auto simp: hist_record_cmp_def Let_def word_sless_alt)

lemma hist_record_cmp_comparator: "comparator hist_record_cmp"
  by (auto simp: comparator_def hist_record_cmp_le)

text \<open>Insertion sort is such a function.\<close>

fun insert_by :: "('a \<Rightarrow> 'a \<Rightarrow> int) \<Rightarrow> 'a \<Rightarrow> 'a list \<Rightarrow> 'a list" where
  "insert_by cmp x [] = [x]"
| "insert_by cmp x (y # ys) = (if cmp x y \<le> 0 then x # y # ys else y # insert_by cmp x ys)"

definition sort_by :: "('a \<Rightarrow> 'a \<Rightarrow> int) \<Rightarrow> 'a list \<Rightarrow> 'a list" where
  "sort_by cmp xs = foldr (insert_by cmp) xs []"

lemma mset_insert_by: "mset (insert_by cmp x xs) = add_mset x (mset xs)"
  by (induction xs) auto

lemma set_insert_by: "set (insert_by cmp x xs) = insert x (set xs)"
  by (induction xs) auto

lemma sorted_insert_by:
  assumes "comparator cmp" "sorted_wrt (\<lambda>a b. cmp a b \<le> 0) xs"
  shows "sorted_wrt (\<lambda>a b. cmp a b \<le> 0) (insert_by cmp x xs)"
  using assms(2)
proof (induction xs)
  case (Cons y ys)
  have tot: "cmp a b \<le> 0 \<or> cmp b a \<le> 0" and tr: "cmp a b \<le> 0 \<Longrightarrow> cmp b c \<le> 0 \<Longrightarrow> cmp a c \<le> 0" for a b c
    using assms(1) unfolding comparator_def by blast+
  show ?case using Cons tot [of x y] tr [of x y] by (auto simp: set_insert_by)
qed simp

lemma sort_by_kernel_sort: "kernel_sort sort_by"
  unfolding kernel_sort_def
proof (intro allI impI conjI)
  fix cmp :: "'a \<Rightarrow> 'a \<Rightarrow> int" and xs
  assume c: "comparator cmp"
  show "mset (sort_by cmp xs) = mset xs" by (induction xs) (auto simp: sort_by_def mset_insert_by)
  show "sorted_wrt (\<lambda>a b. cmp a b \<le> 0) (sort_by cmp xs)"
    by (induction xs) (auto simp: sort_by_def sorted_insert_by [OF c])
qed

section \<open>Correctness\<close>

lemma hist_copy_numbers:
  assumes "\<forall>e\<in>set es. is_nil (snd e) \<or> is_number (snd e)"
  shows "hist_copy es = Inr (filter (\<lambda>e. \<not> is_nil (snd e)) es)"
  using assms by (induction es) auto

lemma hist_sum_foldl: "unat (foldl (\<lambda>s e. s + ucast (nvalue (snd e))) (a :: u32) es) =
    unat a + sum_list (map (\<lambda>e. unat (nvalue (snd e))) es)"
  if "unat a + sum_list (map (\<lambda>e. unat (nvalue (snd e))) es) < 2 ^ 32"
  using that
proof (induction es arbitrary: a)
  case (Cons e es)
  let ?n = "unat (nvalue (snd e))"
  have "(ucast (nvalue (snd e)) :: u32) = of_nat ?n" by (simp add: word_unat_eq_iff unsigned_ucast_eq unsigned_of_nat)
  moreover have "unat (a + of_nat ?n) = unat a + ?n" using Cons.prems by (intro unat_add_of_nat) simp
  ultimately show ?case using Cons.IH [of "a + of_nat ?n"] Cons.prems by (simp add: add.assoc)
qed simp

lemma hist_ratio_eq:
  assumes "unat num \<le> unat sm" "unat sm < 2 ^ 31" "sm \<noteq> 0"
  shows "unat (hist_ratio num sm) = unat num * 38 div unat sm" "unat num * 38 div unat sm \<le> 38"
proof -
  have s: "(scast sm :: u64) = of_nat (unat sm)"
    using scast_small_nat [OF assms(2)] by simp
  then have us: "unat (scast sm :: u64) = unat sm"
    using assms(2) by (simp add: unsigned_of_nat take_bit_nat_eq_self)
  have "unat num * 38 < 2 ^ 64" using assms(1,2) by simp
  then have "unat (num * 38) = unat num * 38" by (simp add: unat_word_ariths)
  then have d: "unat (num * 38 div scast sm) = unat num * 38 div unat sm"
    by (simp add: unat_div_distrib us)
  have "0 < unat sm" using assms(3) by (simp add: unat_gt_0)
  then have le: "unat num * 38 div unat sm \<le> 38"
    using assms(1) by (metis div_le_mono div_mult_self1_is_m mult.commute mult_le_mono1)
  define q where "q = unat num * 38 div unat sm"
  have "num * 38 div scast sm = of_nat (unat (num * 38 div scast sm))" by simp
  then have "num * 38 div scast sm = of_nat q" unfolding d q_def .
  moreover have "(ucast (of_nat q :: u64) :: u32) = of_nat q"
    using le by (simp add: q_def [symmetric] word_unat_eq_iff unsigned_ucast_eq unsigned_of_nat take_bit_nat_eq_self)
  ultimately have "hist_ratio num sm = of_nat q"
    using le scast_small_nat [of q] by (simp add: hist_ratio_def q_def [symmetric])
  then show "unat (hist_ratio num sm) = unat num * 38 div unat sm"
    using le by (simp add: q_def [symmetric] unsigned_of_nat take_bit_nat_eq_self)
  show "unat num * 38 div unat sm \<le> 38" by (rule le)
qed

text \<open>The row printed for a record when the values add up to \<open>tot\<close>, and the mark behind the last row.\<close>

definition hist_row :: "nat \<Rightarrow> hist_record \<Rightarrow> hist_line" where
  "hist_row tot e = HistRow (fst e) (unat (nvalue (snd e)) * 38 div tot) (nvalue (snd e))"

lemma hist_rows_ok:
  assumes "sm \<noteq> 0" "unat sm < 2 ^ 31" "shownums \<ge> 1"
    and "\<And>e. e \<in> set es \<Longrightarrow> unat (nvalue (snd e)) \<le> unat sm"
    and "\<And>e. e \<in> set es \<Longrightarrow> is_string (fst e) \<or> is_number (fst e) \<or> is_kip (fst e)"
  shows "\<exists>s. hist_rows sm shownums es = Some (map (hist_row (unat sm)) (take (nat (shownums - 1)) es), s) \<and>
    (s = 0 \<longleftrightarrow> shownums \<le> int (length es))"
  using assms(3-5)
proof (induction es arbitrary: shownums)
  case (Cons e es)
  show ?case
  proof (cases "shownums = 1")
    case False
    then have "shownums - 1 \<ge> 1" using Cons.prems(1) by simp
    then obtain s where
      "hist_rows sm (shownums - 1) es = Some (map (hist_row (unat sm)) (take (nat (shownums - 2)) es), s)"
      "s = 0 \<longleftrightarrow> shownums - 1 \<le> int (length es)"
      using Cons.IH [of "shownums - 1"] Cons.prems by auto
    moreover have "unat (hist_ratio (nvalue (snd e)) sm) = unat (nvalue (snd e)) * 38 div unat sm"
      "\<not> 38 < hist_ratio (nvalue (snd e)) sm"
      using hist_ratio_eq [of "nvalue (snd e)" sm] assms(1,2) Cons.prems(2) [of e] by (auto simp: word_less_nat_alt)
    moreover have "nat (shownums - 1) = Suc (nat (shownums - 2))" using False Cons.prems(1) by simp
    ultimately show ?thesis using False assms(1) Cons.prems(3) [of e] by (auto simp: Let_def hist_row_def)
  qed simp
qed simp

text \<open>
  C25: for a table whose values are numbers that add up, read as unsigned, to a total that is
  positive and below \<open>2 ^ 31\<close>, and whose keys have one of the three printable types, and for any
  kernel \<^verbatim>\<open>sort\<close> that orders by its comparison function, the histogram is printed without a fault: the
  entries in descending order of their counts, cut to the first \<open>shownums - 1\<close>, each with its key, its
  count and a bar of \<open>38 * count div total \<le> 38\<close> characters, and a last line with dots exactly when entries were
  left out.
\<close>

theorem histdump_ok:
  assumes "tab_inv g t" and "\<And>e. e \<in> set (hist_entries t) \<Longrightarrow> is_nil (snd e) \<or> is_number (snd e)"
    and es: "es = filter (\<lambda>e. \<not> is_nil (snd e)) (hist_entries t)"
    and tot: "tot = sum_list (map (\<lambda>e. unat (nvalue (snd e))) es)" and "0 < tot" and "tot < 2 ^ 31"
    and "\<And>e. e \<in> set es \<Longrightarrow> is_string (fst e) \<or> is_number (fst e) \<or> is_kip (fst e)"
    and "length es \<le> unat (asize t + hnum t)" and "shownums \<ge> 1"
    and srt: "kernel_sort sort_fn"
  shows "\<exists>rows left. mset (rows @ left) = mset es \<and>
     sorted_wrt (\<lambda>a b. sint (nvalue (snd b)) \<le> sint (nvalue (snd a))) (rows @ left) \<and>
     length rows = min (nat (shownums - 1)) (length es) \<and>
     (\<forall>e\<in>set rows. unat (nvalue (snd e)) * 38 div tot \<le> 38) \<and>
     tab_histdump sort_fn True g t shownums =
       Some (map (hist_row tot) rows @ (if left \<noteq> [] then [HistMore] else []), g)"
proof -
  let ?r = "sort_fn hist_record_cmp es"
  have ms: "mset ?r = mset es" and so: "sorted_wrt (\<lambda>a b. hist_record_cmp a b \<le> 0) ?r"
    using srt hist_record_cmp_comparator unfolding kernel_sort_def by blast+
  have st: "set ?r = set es" and ln: "length ?r = length es" using ms by (metis set_mset_mset, metis size_mset)
  have cp: "hist_copy (hist_entries t) = Inr es" using hist_copy_numbers assms(2) es by blast
  have sm: "unat (hist_sum es) = tot" using hist_sum_foldl [of 0 es] assms(6) tot by (simp add: hist_sum_def)
  have le: "unat (nvalue (snd e)) \<le> unat (hist_sum es)" if "e \<in> set ?r" for e
    using that st member_le_sum_list [of "unat (nvalue (snd e))" "map (\<lambda>e. unat (nvalue (snd e))) es"] unfolding sm tot by auto
  have nz: "hist_sum es \<noteq> 0" using sm assms(5) by (metis less_irrefl unat_0)
  obtain s where s: "hist_rows (hist_sum es) shownums ?r = Some (map (hist_row tot) (take (nat (shownums - 1)) ?r), s)"
    "s = 0 \<longleftrightarrow> shownums \<le> int (length es)"
    using hist_rows_ok [OF nz _ assms(9), of ?r] le assms(6,7) sm st ln by auto
  have bar: "unat (nvalue (snd e)) * 38 div tot \<le> 38" if "e \<in> set ?r" for e
    using hist_ratio_eq(2) [OF le [OF that] _ nz] assms(6) sm by simp
  have ne: "s = 0 \<and> es \<noteq> [] \<longleftrightarrow> drop (nat (shownums - 1)) ?r \<noteq> []" using s(2) ln assms(9) by auto
  have "tab_histdump sort_fn True g t shownums = Some (map (hist_row tot) (take (nat (shownums - 1)) ?r) @
      (if drop (nat (shownums - 1)) ?r \<noteq> [] then [HistMore] else []), g)"
    using cp tab_invD(2,3) [OF assms(1)] assms(8) s(1) ne [symmetric] by (simp add: tab_histdump_def)
  then show ?thesis
    using ms so ln bar
    by (intro exI [of _ "take (nat (shownums - 1)) ?r"] exI [of _ "drop (nat (shownums - 1)) ?r"])
      (auto simp: hist_record_cmp_le dest: in_set_takeD)
qed

definition hist_tab :: "u64 \<Rightarrow> u64 \<Rightarrow> ktap_tab" where
  "hist_tab a b = fst (the (kp_tab_setint pool_example (fst (the (kp_tab_setint pool_example two_tab 0 (set_number a)))) 1
     (set_number b)))"

text \<open>
  A histogram of the two counts 5 and -4 writes past the end of \<^verbatim>\<open>dist_str\<close>, and one of the counts
  4 and -4 divides by zero.
\<close>

theorem histdump_negative_overflows:
  "tab_histdump sort_by True pool_example (hist_tab 5 (- 4)) 10 = None \<and>
   tab_histdump sort_by True pool_example (hist_tab 4 (- 4)) 10 = None"
proof
  show "tab_histdump sort_by True pool_example (hist_tab 5 (- 4)) 10 = None" by code_simp
  show "tab_histdump sort_by True pool_example (hist_tab 4 (- 4)) 10 = None" by code_simp
qed

text \<open>The table of the counts 5 and 3.\<close>

lemma hist_tab_inv: "tab_inv pool_example (hist_tab 5 3)"
proof -
  define t1 where "t1 = fst (the (kp_tab_setint pool_example two_tab 0 (set_number 5)))"
  have a1: "kp_tab_setint pool_example two_tab 0 (set_number 5) = Some (slot_write two_tab (SlotArr 0) (set_number 5), pool_example)"
    by code_simp
  have k: "arr_key two_tab (KTAP_TNUM, 0)" by code_simp
  have t1: "t1 = slot_write two_tab (SlotArr (unat (snd (KTAP_TNUM, 0 :: u64)))) (set_number 5)" using a1 by (simp add: t1_def)
  note i1 = arr_slot_write(1) [OF two_tab_ok(1) k t1]
  have a2: "kp_tab_setint pool_example t1 1 (set_number 3) = Some (slot_write t1 (SlotArr 1) (set_number 3), pool_example)"
    unfolding t1_def by code_simp
  have k2: "arr_key t1 (KTAP_TNUM, 1)" unfolding t1_def by code_simp
  have "hist_tab 5 3 = slot_write t1 (SlotArr (unat (snd (KTAP_TNUM, 1 :: u64)))) (set_number 3)"
    using a2 by (simp add: hist_tab_def t1_def)
  from arr_slot_write(1) [OF i1 k2 this] show ?thesis .
qed

theorem histdump_ok_witness:
  "\<exists>rows left. length rows = 2 \<and>
     sorted_wrt (\<lambda>a b. sint (nvalue (snd b)) \<le> sint (nvalue (snd a))) (rows @ left) \<and>
     tab_histdump sort_by True pool_example (hist_tab 5 3) 10 =
       Some (map (hist_row 8) rows @ (if left \<noteq> [] then [HistMore] else []), pool_example)"
proof -
  let ?es = "[(set_number 0, set_number 5), (set_number 1, set_number 3)]"
  have all: "\<forall>e\<in>set (hist_entries (hist_tab 5 3)). is_nil (snd e) \<or> is_number (snd e)" by code_simp
  have es: "?es = filter (\<lambda>e. \<not> is_nil (snd e)) (hist_entries (hist_tab 5 3))" by code_simp
  have kk: "is_string (fst e) \<or> is_number (fst e) \<or> is_kip (fst e)" if "e \<in> set ?es" for e
    using that by (auto simp: is_number_def)
  have len: "length ?es \<le> unat (asize (hist_tab 5 3) + hnum (hist_tab 5 3))" by code_simp
  have tot: "8 = sum_list (map (\<lambda>e. unat (nvalue (snd e))) ?es)" by simp
  have "\<exists>rows left. mset (rows @ left) = mset ?es \<and>
     sorted_wrt (\<lambda>a b. sint (nvalue (snd b)) \<le> sint (nvalue (snd a))) (rows @ left) \<and>
     length rows = min (nat (10 - 1)) (length ?es) \<and>
     (\<forall>e\<in>set rows. unat (nvalue (snd e)) * 38 div 8 \<le> 38) \<and>
     tab_histdump sort_by True pool_example (hist_tab 5 3) 10 =
       Some (map (hist_row 8) rows @ (if left \<noteq> [] then [HistMore] else []), pool_example)"
    by (rule histdump_ok [OF hist_tab_inv bspec [OF all] es tot _ _ kk len _ sort_by_kernel_sort]) simp_all
  then obtain rows left where "length rows = min (nat (10 - 1)) (length ?es)"
    "sorted_wrt (\<lambda>a b. sint (nvalue (snd b)) \<le> sint (nvalue (snd a))) (rows @ left)"
    "tab_histdump sort_by True pool_example (hist_tab 5 3) 10 =
       Some (map (hist_row 8) rows @ (if left \<noteq> [] then [HistMore] else []), pool_example)" by blast
  then show ?thesis by (intro exI [of _ rows] exI [of _ left] conjI) simp_all
qed

end
