(* ===== verification/Ktap_Bytecode.thy ===== *)
theory Ktap_Bytecode
  imports Ktap_Prelude
begin

text \<open>
  The bytecode instruction format of \<^verbatim>\<open>include/ktap_bc.h\<close>: the accessor and composer macros of a
  32-bit instruction word, the in-place byte and half-word patches the parser and the validator
  apply, the opcode table \<^verbatim>\<open>BCDEF\<close> with its packed operand modes, and the ordering assertions the
  code generator relies on (the C macro \<^verbatim>\<open>KP_STATIC_ASSERT\<close> is defined empty, so the build never
  checks them).
\<close>

section \<open>Instruction words\<close>

type_synonym bcins = u32

definition BCBIAS_J :: u32 where "BCBIAS_J = 0x8000"

definition NO_JMP :: u32 where "NO_JMP = NOT 0"

definition bc_op :: "bcins \<Rightarrow> u32" where "bc_op i = i AND 0xff"
definition bc_a :: "bcins \<Rightarrow> u32" where "bc_a i = drop_bit 8 i AND 0xff"
definition bc_b :: "bcins \<Rightarrow> u32" where "bc_b i = drop_bit 24 i"
definition bc_c :: "bcins \<Rightarrow> u32" where "bc_c i = drop_bit 16 i AND 0xff"
definition bc_d :: "bcins \<Rightarrow> u32" where "bc_d i = drop_bit 16 i"

text \<open>\<^verbatim>\<open>bc_j\<close> is a signed distance, \<^verbatim>\<open>(ptrdiff_t)bc_d(i)-BCBIAS_J\<close>.\<close>

definition bc_j :: "bcins \<Rightarrow> int" where "bc_j i = uint (bc_d i) - uint BCBIAS_J"

definition BCINS_ABC :: "u32 \<Rightarrow> u32 \<Rightarrow> u32 \<Rightarrow> u32 \<Rightarrow> bcins" where
  "BCINS_ABC o' a b c = o' OR push_bit 8 a OR push_bit 24 b OR push_bit 16 c"

definition BCINS_AD :: "u32 \<Rightarrow> u32 \<Rightarrow> u32 \<Rightarrow> bcins" where
  "BCINS_AD o' a d = o' OR push_bit 8 a OR push_bit 16 d"

definition BCINS_AJ :: "u32 \<Rightarrow> u32 \<Rightarrow> int \<Rightarrow> bcins" where
  "BCINS_AJ o' a j = BCINS_AD o' a (word_of_int j + BCBIAS_J)"

text \<open>
  \<^verbatim>\<open>setbc_byte\<close> stores one byte of the instruction in place; on a little-endian host byte \<open>ofs\<close>
  holds the bits \<open>8 * ofs\<close> and up.  \<^verbatim>\<open>setbc_d\<close> stores the upper half word.
\<close>

definition setbc_byte :: "bcins \<Rightarrow> u32 \<Rightarrow> nat \<Rightarrow> bcins" where
  "setbc_byte p x ofs =
     (p AND NOT (push_bit (8 * ofs) 0xff)) OR push_bit (8 * ofs) (x AND 0xff)"

definition setbc_op :: "bcins \<Rightarrow> u32 \<Rightarrow> bcins" where "setbc_op p x = setbc_byte p x 0"
definition setbc_a :: "bcins \<Rightarrow> u32 \<Rightarrow> bcins" where "setbc_a p x = setbc_byte p x 1"
definition setbc_b :: "bcins \<Rightarrow> u32 \<Rightarrow> bcins" where "setbc_b p x = setbc_byte p x 3"
definition setbc_c :: "bcins \<Rightarrow> u32 \<Rightarrow> bcins" where "setbc_c p x = setbc_byte p x 2"

definition setbc_d :: "bcins \<Rightarrow> u32 \<Rightarrow> bcins" where
  "setbc_d p x = (p AND 0xffff) OR push_bit 16 (x AND 0xffff)"

definition setbc_j :: "bcins \<Rightarrow> int \<Rightarrow> bcins" where
  "setbc_j p x = setbc_d p (word_of_int x + BCBIAS_J)"


section \<open>Opcodes and operand modes\<close>

text \<open>The enumeration \<^verbatim>\<open>BCOp\<close>: the opcode numbers in the order of \<^verbatim>\<open>BCDEF\<close>.\<close>

abbreviation (input) BC_ISLT :: nat where "BC_ISLT \<equiv> 0"
abbreviation (input) BC_ISGE :: nat where "BC_ISGE \<equiv> 1"
abbreviation (input) BC_ISLE :: nat where "BC_ISLE \<equiv> 2"
abbreviation (input) BC_ISGT :: nat where "BC_ISGT \<equiv> 3"
abbreviation (input) BC_ISEQV :: nat where "BC_ISEQV \<equiv> 4"
abbreviation (input) BC_ISNEV :: nat where "BC_ISNEV \<equiv> 5"
abbreviation (input) BC_ISEQS :: nat where "BC_ISEQS \<equiv> 6"
abbreviation (input) BC_ISNES :: nat where "BC_ISNES \<equiv> 7"
abbreviation (input) BC_ISEQN :: nat where "BC_ISEQN \<equiv> 8"
abbreviation (input) BC_ISNEN :: nat where "BC_ISNEN \<equiv> 9"
abbreviation (input) BC_ISEQP :: nat where "BC_ISEQP \<equiv> 10"
abbreviation (input) BC_ISNEP :: nat where "BC_ISNEP \<equiv> 11"
abbreviation (input) BC_ISTC :: nat where "BC_ISTC \<equiv> 12"
abbreviation (input) BC_ISFC :: nat where "BC_ISFC \<equiv> 13"
abbreviation (input) BC_IST :: nat where "BC_IST \<equiv> 14"
abbreviation (input) BC_ISF :: nat where "BC_ISF \<equiv> 15"
abbreviation (input) BC_ISTYPE :: nat where "BC_ISTYPE \<equiv> 16"
abbreviation (input) BC_ISNUM :: nat where "BC_ISNUM \<equiv> 17"
abbreviation (input) BC_MOV :: nat where "BC_MOV \<equiv> 18"
abbreviation (input) BC_NOT :: nat where "BC_NOT \<equiv> 19"
abbreviation (input) BC_UNM :: nat where "BC_UNM \<equiv> 20"
abbreviation (input) BC_ADDVN :: nat where "BC_ADDVN \<equiv> 21"
abbreviation (input) BC_SUBVN :: nat where "BC_SUBVN \<equiv> 22"
abbreviation (input) BC_MULVN :: nat where "BC_MULVN \<equiv> 23"
abbreviation (input) BC_DIVVN :: nat where "BC_DIVVN \<equiv> 24"
abbreviation (input) BC_MODVN :: nat where "BC_MODVN \<equiv> 25"
abbreviation (input) BC_ADDNV :: nat where "BC_ADDNV \<equiv> 26"
abbreviation (input) BC_SUBNV :: nat where "BC_SUBNV \<equiv> 27"
abbreviation (input) BC_MULNV :: nat where "BC_MULNV \<equiv> 28"
abbreviation (input) BC_DIVNV :: nat where "BC_DIVNV \<equiv> 29"
abbreviation (input) BC_MODNV :: nat where "BC_MODNV \<equiv> 30"
abbreviation (input) BC_ADDVV :: nat where "BC_ADDVV \<equiv> 31"
abbreviation (input) BC_SUBVV :: nat where "BC_SUBVV \<equiv> 32"
abbreviation (input) BC_MULVV :: nat where "BC_MULVV \<equiv> 33"
abbreviation (input) BC_DIVVV :: nat where "BC_DIVVV \<equiv> 34"
abbreviation (input) BC_MODVV :: nat where "BC_MODVV \<equiv> 35"
abbreviation (input) BC_POW :: nat where "BC_POW \<equiv> 36"
abbreviation (input) BC_CAT :: nat where "BC_CAT \<equiv> 37"
abbreviation (input) BC_KSTR :: nat where "BC_KSTR \<equiv> 38"
abbreviation (input) BC_KCDATA :: nat where "BC_KCDATA \<equiv> 39"
abbreviation (input) BC_KSHORT :: nat where "BC_KSHORT \<equiv> 40"
abbreviation (input) BC_KNUM :: nat where "BC_KNUM \<equiv> 41"
abbreviation (input) BC_KPRI :: nat where "BC_KPRI \<equiv> 42"
abbreviation (input) BC_KNIL :: nat where "BC_KNIL \<equiv> 43"
abbreviation (input) BC_UGET :: nat where "BC_UGET \<equiv> 44"
abbreviation (input) BC_USETV :: nat where "BC_USETV \<equiv> 45"
abbreviation (input) BC_UINCV :: nat where "BC_UINCV \<equiv> 46"
abbreviation (input) BC_USETS :: nat where "BC_USETS \<equiv> 47"
abbreviation (input) BC_USETN :: nat where "BC_USETN \<equiv> 48"
abbreviation (input) BC_UINCN :: nat where "BC_UINCN \<equiv> 49"
abbreviation (input) BC_USETP :: nat where "BC_USETP \<equiv> 50"
abbreviation (input) BC_UCLO :: nat where "BC_UCLO \<equiv> 51"
abbreviation (input) BC_FNEW :: nat where "BC_FNEW \<equiv> 52"
abbreviation (input) BC_TNEW :: nat where "BC_TNEW \<equiv> 53"
abbreviation (input) BC_TDUP :: nat where "BC_TDUP \<equiv> 54"
abbreviation (input) BC_GGET :: nat where "BC_GGET \<equiv> 55"
abbreviation (input) BC_GSET :: nat where "BC_GSET \<equiv> 56"
abbreviation (input) BC_GINC :: nat where "BC_GINC \<equiv> 57"
abbreviation (input) BC_TGETV :: nat where "BC_TGETV \<equiv> 58"
abbreviation (input) BC_TGETS :: nat where "BC_TGETS \<equiv> 59"
abbreviation (input) BC_TGETB :: nat where "BC_TGETB \<equiv> 60"
abbreviation (input) BC_TGETR :: nat where "BC_TGETR \<equiv> 61"
abbreviation (input) BC_TSETV :: nat where "BC_TSETV \<equiv> 62"
abbreviation (input) BC_TINCV :: nat where "BC_TINCV \<equiv> 63"
abbreviation (input) BC_TSETS :: nat where "BC_TSETS \<equiv> 64"
abbreviation (input) BC_TINCS :: nat where "BC_TINCS \<equiv> 65"
abbreviation (input) BC_TSETB :: nat where "BC_TSETB \<equiv> 66"
abbreviation (input) BC_TINCB :: nat where "BC_TINCB \<equiv> 67"
abbreviation (input) BC_TSETM :: nat where "BC_TSETM \<equiv> 68"
abbreviation (input) BC_TSETR :: nat where "BC_TSETR \<equiv> 69"
abbreviation (input) BC_CALLM :: nat where "BC_CALLM \<equiv> 70"
abbreviation (input) BC_CALL :: nat where "BC_CALL \<equiv> 71"
abbreviation (input) BC_CALLMT :: nat where "BC_CALLMT \<equiv> 72"
abbreviation (input) BC_CALLT :: nat where "BC_CALLT \<equiv> 73"
abbreviation (input) BC_ITERC :: nat where "BC_ITERC \<equiv> 74"
abbreviation (input) BC_ITERN :: nat where "BC_ITERN \<equiv> 75"
abbreviation (input) BC_VARG :: nat where "BC_VARG \<equiv> 76"
abbreviation (input) BC_ISNEXT :: nat where "BC_ISNEXT \<equiv> 77"
abbreviation (input) BC_RETM :: nat where "BC_RETM \<equiv> 78"
abbreviation (input) BC_RET :: nat where "BC_RET \<equiv> 79"
abbreviation (input) BC_RET0 :: nat where "BC_RET0 \<equiv> 80"
abbreviation (input) BC_RET1 :: nat where "BC_RET1 \<equiv> 81"
abbreviation (input) BC_FORI :: nat where "BC_FORI \<equiv> 82"
abbreviation (input) BC_JFORI :: nat where "BC_JFORI \<equiv> 83"
abbreviation (input) BC_FORL :: nat where "BC_FORL \<equiv> 84"
abbreviation (input) BC_IFORL :: nat where "BC_IFORL \<equiv> 85"
abbreviation (input) BC_JFORL :: nat where "BC_JFORL \<equiv> 86"
abbreviation (input) BC_ITERL :: nat where "BC_ITERL \<equiv> 87"
abbreviation (input) BC_IITERL :: nat where "BC_IITERL \<equiv> 88"
abbreviation (input) BC_JITERL :: nat where "BC_JITERL \<equiv> 89"
abbreviation (input) BC_LOOP :: nat where "BC_LOOP \<equiv> 90"
abbreviation (input) BC_ILOOP :: nat where "BC_ILOOP \<equiv> 91"
abbreviation (input) BC_JLOOP :: nat where "BC_JLOOP \<equiv> 92"
abbreviation (input) BC_JMP :: nat where "BC_JMP \<equiv> 93"
abbreviation (input) BC_FUNCF :: nat where "BC_FUNCF \<equiv> 94"
abbreviation (input) BC_IFUNCF :: nat where "BC_IFUNCF \<equiv> 95"
abbreviation (input) BC_JFUNCF :: nat where "BC_JFUNCF \<equiv> 96"
abbreviation (input) BC_FUNCV :: nat where "BC_FUNCV \<equiv> 97"
abbreviation (input) BC_IFUNCV :: nat where "BC_IFUNCV \<equiv> 98"
abbreviation (input) BC_JFUNCV :: nat where "BC_JFUNCV \<equiv> 99"
abbreviation (input) BC_FUNCC :: nat where "BC_FUNCC \<equiv> 100"
abbreviation (input) BC_FUNCCW :: nat where "BC_FUNCCW \<equiv> 101"
abbreviation (input) BC_VARGN :: nat where "BC_VARGN \<equiv> 102"
abbreviation (input) BC_VARGSTR :: nat where "BC_VARGSTR \<equiv> 103"
abbreviation (input) BC_VPROBENAME :: nat where "BC_VPROBENAME \<equiv> 104"
abbreviation (input) BC_VPID :: nat where "BC_VPID \<equiv> 105"
abbreviation (input) BC_VTID :: nat where "BC_VTID \<equiv> 106"
abbreviation (input) BC_VUID :: nat where "BC_VUID \<equiv> 107"
abbreviation (input) BC_VCPU :: nat where "BC_VCPU \<equiv> 108"
abbreviation (input) BC_VEXECNAME :: nat where "BC_VEXECNAME \<equiv> 109"
abbreviation (input) BC_GFUNC :: nat where "BC_GFUNC \<equiv> 110"

abbreviation (input) BC__MAX :: nat where "BC__MAX \<equiv> 111"

datatype BCMode =
  BCMnone | BCMdst | BCMbase | BCMvar | BCMrbase | BCMuv
| BCMlit | BCMlits | BCMpri | BCMnum | BCMstr | BCMtab | BCMfunc
| BCMjump | BCMcdata

text \<open>The metamethod column; \<open>MM_none\<close> is \<^verbatim>\<open>MM____\<close>, equal to \<^verbatim>\<open>MM__MAX\<close>.\<close>

datatype MMS =
  MM_lt | MM_le | MM_eq | MM_unm | MM_add | MM_sub | MM_mul | MM_div | MM_mod | MM_pow
| MM_concat | MM_gc | MM_index | MM_newindex | MM_call | MM_none

fun bcmode_num :: "BCMode \<Rightarrow> nat" where
  "bcmode_num BCMnone = 0"
| "bcmode_num BCMdst = 1"
| "bcmode_num BCMbase = 2"
| "bcmode_num BCMvar = 3"
| "bcmode_num BCMrbase = 4"
| "bcmode_num BCMuv = 5"
| "bcmode_num BCMlit = 6"
| "bcmode_num BCMlits = 7"
| "bcmode_num BCMpri = 8"
| "bcmode_num BCMnum = 9"
| "bcmode_num BCMstr = 10"
| "bcmode_num BCMtab = 11"
| "bcmode_num BCMfunc = 12"
| "bcmode_num BCMjump = 13"
| "bcmode_num BCMcdata = 14"

fun mms_num :: "MMS \<Rightarrow> nat" where
  "mms_num MM_lt = 0"
| "mms_num MM_le = 1"
| "mms_num MM_eq = 2"
| "mms_num MM_unm = 3"
| "mms_num MM_add = 4"
| "mms_num MM_sub = 5"
| "mms_num MM_mul = 6"
| "mms_num MM_div = 7"
| "mms_num MM_mod = 8"
| "mms_num MM_pow = 9"
| "mms_num MM_concat = 10"
| "mms_num MM_gc = 11"
| "mms_num MM_index = 12"
| "mms_num MM_newindex = 13"
| "mms_num MM_call = 14"
| "mms_num MM_none = 15"

text \<open>\<^verbatim>\<open>BCDEF\<close>: name, mode of A, mode of B, mode of C or D, metamethod.\<close>

definition bcdef :: "(string \<times> BCMode \<times> BCMode \<times> BCMode \<times> MMS) list" where
  "bcdef =
    [(''ISLT'', BCMvar, BCMnone, BCMvar, MM_lt),
     (''ISGE'', BCMvar, BCMnone, BCMvar, MM_lt),
     (''ISLE'', BCMvar, BCMnone, BCMvar, MM_le),
     (''ISGT'', BCMvar, BCMnone, BCMvar, MM_le),
     (''ISEQV'', BCMvar, BCMnone, BCMvar, MM_eq),
     (''ISNEV'', BCMvar, BCMnone, BCMvar, MM_eq),
     (''ISEQS'', BCMvar, BCMnone, BCMstr, MM_eq),
     (''ISNES'', BCMvar, BCMnone, BCMstr, MM_eq),
     (''ISEQN'', BCMvar, BCMnone, BCMnum, MM_eq),
     (''ISNEN'', BCMvar, BCMnone, BCMnum, MM_eq),
     (''ISEQP'', BCMvar, BCMnone, BCMpri, MM_eq),
     (''ISNEP'', BCMvar, BCMnone, BCMpri, MM_eq),
     (''ISTC'', BCMdst, BCMnone, BCMvar, MM_none),
     (''ISFC'', BCMdst, BCMnone, BCMvar, MM_none),
     (''IST'', BCMnone, BCMnone, BCMvar, MM_none),
     (''ISF'', BCMnone, BCMnone, BCMvar, MM_none),
     (''ISTYPE'', BCMvar, BCMnone, BCMlit, MM_none),
     (''ISNUM'', BCMvar, BCMnone, BCMlit, MM_none),
     (''MOV'', BCMdst, BCMnone, BCMvar, MM_none),
     (''NOT'', BCMdst, BCMnone, BCMvar, MM_none),
     (''UNM'', BCMdst, BCMnone, BCMvar, MM_unm),
     (''ADDVN'', BCMdst, BCMvar, BCMnum, MM_add),
     (''SUBVN'', BCMdst, BCMvar, BCMnum, MM_sub),
     (''MULVN'', BCMdst, BCMvar, BCMnum, MM_mul),
     (''DIVVN'', BCMdst, BCMvar, BCMnum, MM_div),
     (''MODVN'', BCMdst, BCMvar, BCMnum, MM_mod),
     (''ADDNV'', BCMdst, BCMvar, BCMnum, MM_add),
     (''SUBNV'', BCMdst, BCMvar, BCMnum, MM_sub),
     (''MULNV'', BCMdst, BCMvar, BCMnum, MM_mul),
     (''DIVNV'', BCMdst, BCMvar, BCMnum, MM_div),
     (''MODNV'', BCMdst, BCMvar, BCMnum, MM_mod),
     (''ADDVV'', BCMdst, BCMvar, BCMvar, MM_add),
     (''SUBVV'', BCMdst, BCMvar, BCMvar, MM_sub),
     (''MULVV'', BCMdst, BCMvar, BCMvar, MM_mul),
     (''DIVVV'', BCMdst, BCMvar, BCMvar, MM_div),
     (''MODVV'', BCMdst, BCMvar, BCMvar, MM_mod),
     (''POW'', BCMdst, BCMvar, BCMvar, MM_pow),
     (''CAT'', BCMdst, BCMrbase, BCMrbase, MM_concat),
     (''KSTR'', BCMdst, BCMnone, BCMstr, MM_none),
     (''KCDATA'', BCMdst, BCMnone, BCMcdata, MM_none),
     (''KSHORT'', BCMdst, BCMnone, BCMlits, MM_none),
     (''KNUM'', BCMdst, BCMnone, BCMnum, MM_none),
     (''KPRI'', BCMdst, BCMnone, BCMpri, MM_none),
     (''KNIL'', BCMbase, BCMnone, BCMbase, MM_none),
     (''UGET'', BCMdst, BCMnone, BCMuv, MM_none),
     (''USETV'', BCMuv, BCMnone, BCMvar, MM_none),
     (''UINCV'', BCMuv, BCMnone, BCMvar, MM_none),
     (''USETS'', BCMuv, BCMnone, BCMstr, MM_none),
     (''USETN'', BCMuv, BCMnone, BCMnum, MM_none),
     (''UINCN'', BCMuv, BCMnone, BCMnum, MM_none),
     (''USETP'', BCMuv, BCMnone, BCMpri, MM_none),
     (''UCLO'', BCMrbase, BCMnone, BCMjump, MM_none),
     (''FNEW'', BCMdst, BCMnone, BCMfunc, MM_gc),
     (''TNEW'', BCMdst, BCMnone, BCMlit, MM_gc),
     (''TDUP'', BCMdst, BCMnone, BCMtab, MM_gc),
     (''GGET'', BCMdst, BCMnone, BCMstr, MM_index),
     (''GSET'', BCMvar, BCMnone, BCMstr, MM_newindex),
     (''GINC'', BCMvar, BCMnone, BCMstr, MM_newindex),
     (''TGETV'', BCMdst, BCMvar, BCMvar, MM_index),
     (''TGETS'', BCMdst, BCMvar, BCMstr, MM_index),
     (''TGETB'', BCMdst, BCMvar, BCMlit, MM_index),
     (''TGETR'', BCMdst, BCMvar, BCMvar, MM_index),
     (''TSETV'', BCMvar, BCMvar, BCMvar, MM_newindex),
     (''TINCV'', BCMvar, BCMvar, BCMvar, MM_newindex),
     (''TSETS'', BCMvar, BCMvar, BCMstr, MM_newindex),
     (''TINCS'', BCMvar, BCMvar, BCMstr, MM_newindex),
     (''TSETB'', BCMvar, BCMvar, BCMlit, MM_newindex),
     (''TINCB'', BCMvar, BCMvar, BCMlit, MM_newindex),
     (''TSETM'', BCMbase, BCMnone, BCMnum, MM_newindex),
     (''TSETR'', BCMvar, BCMvar, BCMvar, MM_newindex),
     (''CALLM'', BCMbase, BCMlit, BCMlit, MM_call),
     (''CALL'', BCMbase, BCMlit, BCMlit, MM_call),
     (''CALLMT'', BCMbase, BCMnone, BCMlit, MM_call),
     (''CALLT'', BCMbase, BCMnone, BCMlit, MM_call),
     (''ITERC'', BCMbase, BCMlit, BCMlit, MM_call),
     (''ITERN'', BCMbase, BCMlit, BCMlit, MM_call),
     (''VARG'', BCMbase, BCMlit, BCMlit, MM_none),
     (''ISNEXT'', BCMbase, BCMnone, BCMjump, MM_none),
     (''RETM'', BCMbase, BCMnone, BCMlit, MM_none),
     (''RET'', BCMrbase, BCMnone, BCMlit, MM_none),
     (''RET0'', BCMrbase, BCMnone, BCMlit, MM_none),
     (''RET1'', BCMrbase, BCMnone, BCMlit, MM_none),
     (''FORI'', BCMbase, BCMnone, BCMjump, MM_none),
     (''JFORI'', BCMbase, BCMnone, BCMjump, MM_none),
     (''FORL'', BCMbase, BCMnone, BCMjump, MM_none),
     (''IFORL'', BCMbase, BCMnone, BCMjump, MM_none),
     (''JFORL'', BCMbase, BCMnone, BCMlit, MM_none),
     (''ITERL'', BCMbase, BCMnone, BCMjump, MM_none),
     (''IITERL'', BCMbase, BCMnone, BCMjump, MM_none),
     (''JITERL'', BCMbase, BCMnone, BCMlit, MM_none),
     (''LOOP'', BCMrbase, BCMnone, BCMjump, MM_none),
     (''ILOOP'', BCMrbase, BCMnone, BCMjump, MM_none),
     (''JLOOP'', BCMrbase, BCMnone, BCMlit, MM_none),
     (''JMP'', BCMrbase, BCMnone, BCMjump, MM_none),
     (''FUNCF'', BCMrbase, BCMnone, BCMnone, MM_none),
     (''IFUNCF'', BCMrbase, BCMnone, BCMnone, MM_none),
     (''JFUNCF'', BCMrbase, BCMnone, BCMlit, MM_none),
     (''FUNCV'', BCMrbase, BCMnone, BCMnone, MM_none),
     (''IFUNCV'', BCMrbase, BCMnone, BCMnone, MM_none),
     (''JFUNCV'', BCMrbase, BCMnone, BCMlit, MM_none),
     (''FUNCC'', BCMrbase, BCMnone, BCMnone, MM_none),
     (''FUNCCW'', BCMrbase, BCMnone, BCMnone, MM_none),
     (''VARGN'', BCMdst, BCMnone, BCMlit, MM_none),
     (''VARGSTR'', BCMdst, BCMnone, BCMlit, MM_none),
     (''VPROBENAME'', BCMdst, BCMnone, BCMlit, MM_none),
     (''VPID'', BCMdst, BCMnone, BCMlit, MM_none),
     (''VTID'', BCMdst, BCMnone, BCMlit, MM_none),
     (''VUID'', BCMdst, BCMnone, BCMlit, MM_none),
     (''VCPU'', BCMdst, BCMnone, BCMlit, MM_none),
     (''VEXECNAME'', BCMdst, BCMnone, BCMlit, MM_none),
     (''GFUNC'', BCMdst, BCMnone, BCMnone, MM_none)]"

definition bc_names :: "string list" where "bc_names = map fst bcdef"

text \<open>\<^verbatim>\<open>BCMODE\<close> packs the modes of one opcode into a 16-bit word; \<open>bc_mode\<close> is the C array.\<close>

fun BCMODE :: "string \<times> BCMode \<times> BCMode \<times> BCMode \<times> MMS \<Rightarrow> u16" where
  "BCMODE (_, ma, mb, mc, mm) =
     of_nat (bcmode_num ma) OR push_bit 3 (of_nat (bcmode_num mb))
     OR push_bit 7 (of_nat (bcmode_num mc)) OR push_bit 11 (of_nat (mms_num mm))"

definition bc_mode :: "u16 list" where "bc_mode = map BCMODE bcdef"

definition bcmode_a :: "nat \<Rightarrow> u16" where "bcmode_a op = (bc_mode ! op) AND 7"
definition bcmode_b :: "nat \<Rightarrow> u16" where "bcmode_b op = drop_bit 3 (bc_mode ! op) AND 15"
definition bcmode_c :: "nat \<Rightarrow> u16" where "bcmode_c op = drop_bit 7 (bc_mode ! op) AND 15"
definition bcmode_hasd :: "nat \<Rightarrow> bool" where
  "bcmode_hasd op \<longleftrightarrow> (bc_mode ! op) AND push_bit 3 15 = push_bit 3 (of_nat (bcmode_num BCMnone))"
definition bcmode_mm :: "nat \<Rightarrow> u16" where "bcmode_mm op = drop_bit 11 (bc_mode ! op)"

definition bc_isret :: "nat \<Rightarrow> bool" where
  "bc_isret op \<longleftrightarrow> op = BC_RETM \<or> op = BC_RET \<or> op = BC_RET0 \<or> op = BC_RET1"


section \<open>Field algebra\<close>

lemmas bc_get_defs = bc_op_def bc_a_def bc_b_def bc_c_def bc_d_def
lemmas bc_set_defs = setbc_op_def setbc_a_def setbc_b_def setbc_c_def setbc_d_def setbc_byte_def

lemma byte_mask: "(0xff :: u32) = mask 8" and half_mask: "(0xffff :: u32) = mask 16"
  by (simp_all add: mask_eq_exp_minus_1)

lemma take_byte_id: "w < 256 \<Longrightarrow> take_bit 8 w = w" and take_half_id: "w < 65536 \<Longrightarrow> take_bit 16 w = w"
  for w :: u32
  by (auto intro!: bit_word_eqI simp: bit_simps dest: bit_below_256 bit_below_65536)

lemma bc_fields_ABC_take:
  fixes o' a b c :: u32
  defines "i \<equiv> BCINS_ABC (take_bit 8 o') (take_bit 8 a) (take_bit 8 b) (take_bit 8 c)"
  shows "bc_op i = take_bit 8 o'" "bc_a i = take_bit 8 a" "bc_b i = take_bit 8 b" "bc_c i = take_bit 8 c"
  unfolding bc_get_defs i_def BCINS_ABC_def byte_mask
  by (auto intro!: bit_word_eqI simp: bit_simps)

lemma bc_fields_AD_take:
  fixes o' a d :: u32
  defines "i \<equiv> BCINS_AD (take_bit 8 o') (take_bit 8 a) (take_bit 16 d)"
  shows "bc_op i = take_bit 8 o'" "bc_a i = take_bit 8 a" "bc_d i = take_bit 16 d"
  unfolding bc_get_defs i_def BCINS_AD_def byte_mask
  by (auto intro!: bit_word_eqI simp: bit_simps)

lemma bc_fields_ABC [bcfield]:
  assumes "o' < 256" and "a < 256" and "b < 256" and "c < 256"
  shows "bc_op (BCINS_ABC o' a b c) = o'" and "bc_a (BCINS_ABC o' a b c) = a"
    and "bc_b (BCINS_ABC o' a b c) = b" and "bc_c (BCINS_ABC o' a b c) = c"
  using bc_fields_ABC_take [of o' a b c] by (simp_all add: take_byte_id assms)

lemma bc_fields_AD [bcfield]:
  assumes "o' < 256" and "a < 256" and "d < 65536"
  shows "bc_op (BCINS_AD o' a d) = o'" and "bc_a (BCINS_AD o' a d) = a"
    and "bc_d (BCINS_AD o' a d) = d"
  using bc_fields_AD_take [of o' a d] by (simp_all add: take_byte_id take_half_id assms)

lemma bc_ABC_of_fields [bcfield]: "BCINS_ABC (bc_op i) (bc_a i) (bc_b i) (bc_c i) = i"
proof (rule bit_word_eqI)
  fix n assume "n < LENGTH(32)"
  then show "bit (BCINS_ABC (bc_op i) (bc_a i) (bc_b i) (bc_c i)) n = bit i n"
    unfolding bc_get_defs BCINS_ABC_def byte_mask
    by (cases "n < 8"; cases "n < 16"; cases "n < 24") (auto simp: bit_simps)
qed

lemma bc_field_bounds:
  "bc_op i < 256" "bc_a i < 256" "bc_b i < 256" "bc_c i < 256" "bc_d i < 65536"
proof -
  have "unat (take_bit 8 w) < 256" for w :: u32
    using take_bit_word_bound [of 8 w] by simp
  then show "bc_op i < 256" "bc_a i < 256" "bc_c i < 256"
    by (simp_all add: bc_get_defs and_ff_take_bit word_less_nat_alt)
  have "unat i < 4294967296" using unsigned_less [of i] by simp
  then show "bc_b i < 256" "bc_d i < 65536"
    by (simp_all add: bc_get_defs word_less_nat_alt unsigned_drop_bit_eq drop_bit_eq_div unat_div_distrib)
qed

lemma bit_u32_less: "bit (w :: u32) n \<Longrightarrow> n < 32" and bit_u16_less: "bit (v :: u16) n \<Longrightarrow> n < 16"
  using bit_imp_le_length [of w n] bit_imp_le_length [of v n] by simp_all

lemma setbc_op_fields [bcfield]:
  "bc_op (setbc_op i x) = x AND 0xff" "bc_a (setbc_op i x) = bc_a i" "bc_d (setbc_op i x) = bc_d i"
  unfolding bc_get_defs bc_set_defs byte_mask
  by (auto intro!: bit_word_eqI simp: bit_simps) (drule bit_u32_less, simp)

lemma setbc_a_fields [bcfield]:
  "bc_a (setbc_a i x) = x AND 0xff" "bc_op (setbc_a i x) = bc_op i" "bc_d (setbc_a i x) = bc_d i"
  unfolding bc_get_defs bc_set_defs byte_mask
  by (auto intro!: bit_word_eqI simp: bit_simps) (drule bit_u32_less, simp)

lemma setbc_d_fields [bcfield]:
  "bc_d (setbc_d i x) = x AND 0xffff" "bc_op (setbc_d i x) = bc_op i" "bc_a (setbc_d i x) = bc_a i"
  unfolding bc_get_defs bc_set_defs byte_mask half_mask
  by (auto intro!: bit_word_eqI simp: bit_simps)

lemma length_bcdef: "length bcdef = BC__MAX"
  by (simp add: bcdef_def)

lemma bc_j_AJ [bcfield]:
  assumes "o' < 256" and "a < 256" and "- 32768 \<le> j" and "j \<le> 32767"
  shows "bc_j (BCINS_AJ o' a j) = j"
proof -
  have u: "uint (word_of_int j + BCBIAS_J) = j + 32768"
    using assms(3,4) by (simp add: BCBIAS_J_def uint_word_ariths unsigned_of_int take_bit_eq_mod mod_simps)
  then have "word_of_int j + BCBIAS_J < 65536"
    using assms(4) by (simp add: word_less_def)
  then show ?thesis
    using assms(1,2) u by (simp add: bc_j_def BCINS_AJ_def bcfield BCBIAS_J_def)
qed

lemma bcdef_mode_a_small: "list_all (\<lambda>(_, ma, _, _, _). bcmode_num ma \<le> 7) bcdef"
  by (simp add: bcdef_def)

lemma BCMODE_unpack_take:
  fixes x y z m :: u16
  defines "w \<equiv> take_bit 3 x OR push_bit 3 (take_bit 4 y) OR push_bit 7 (take_bit 4 z) OR push_bit 11 (take_bit 4 m)"
  shows "w AND mask 3 = take_bit 3 x" "drop_bit 3 w AND mask 4 = take_bit 4 y"
    "drop_bit 7 w AND mask 4 = take_bit 4 z" "drop_bit 11 w = take_bit 4 m"
  unfolding w_def by (auto intro!: bit_word_eqI simp: bit_simps)

lemma BCMODE_unpack:
  assumes "x < 8" "y < 16" "z < 16" "m < 16"
  defines "w \<equiv> (of_nat x :: u16) OR push_bit 3 (of_nat y) OR push_bit 7 (of_nat z) OR push_bit 11 (of_nat m)"
  shows "w AND 7 = of_nat x" "drop_bit 3 w AND 15 = of_nat y" "drop_bit 7 w AND 15 = of_nat z"
    "drop_bit 11 w = of_nat m"
proof -
  have m: "(7 :: u16) = mask 3" "(15 :: u16) = mask 4"
    by (simp_all add: mask_eq_exp_minus_1)
  have b: "take_bit 3 (of_nat x :: u16) = of_nat x" "take_bit 4 (of_nat y :: u16) = of_nat y"
    "take_bit 4 (of_nat z :: u16) = of_nat z" "take_bit 4 (of_nat m :: u16) = of_nat m"
    using assms(1-4) by (simp_all add: take_bit_of_nat take_bit_nat_eq_self)
  show "w AND 7 = of_nat x" "drop_bit 3 w AND 15 = of_nat y" "drop_bit 7 w AND 15 = of_nat z"
    "drop_bit 11 w = of_nat m"
    using BCMODE_unpack_take [of "of_nat x" "of_nat y" "of_nat z" "of_nat m"]
    unfolding w_def m b by simp_all
qed

lemma bcmode_num_less: "bcmode_num m < 16" and mms_num_less: "mms_num mm < 16"
  by (cases m; simp) (cases mm; simp)

lemma hasd_shift: "(w :: u16) AND push_bit 3 15 = 0 \<longleftrightarrow> drop_bit 3 w AND 15 = 0"
proof -
  have m: "(15 :: u16) = mask 4" by (simp add: mask_eq_exp_minus_1)
  have "w AND push_bit 3 (mask 4) = push_bit 3 (drop_bit 3 w AND mask 4)"
    by (auto intro!: bit_word_eqI simp: bit_simps)
  moreover have "drop_bit 3 w AND mask 4 = drop_bit 3 (w AND push_bit 3 (mask 4))"
    by (auto intro!: bit_word_eqI simp: bit_simps)
  ultimately show ?thesis unfolding m by (metis push_bit_of_0 drop_bit_of_0)
qed

section \<open>Properties\<close>

text \<open>
  Encoding and decoding of instructions are inverse.  Operands that fit their field are read
  back unchanged from a composed \<^verbatim>\<open>ABC\<close>, \<^verbatim>\<open>AD\<close> or \<^verbatim>\<open>AJ\<close> instruction, and every 32-bit word is
  recomposed exactly from its four byte fields.
\<close>

theorem bcins_roundtrip:
  assumes "o' < 256" and "a < 256" and "b < 256" and "c < 256" and "d < 65536"
    and "- 32768 \<le> j" and "j \<le> 32767"
  shows "(bc_op (BCINS_ABC o' a b c) = o' \<and> bc_a (BCINS_ABC o' a b c) = a \<and>
          bc_b (BCINS_ABC o' a b c) = b \<and> bc_c (BCINS_ABC o' a b c) = c) \<and>
         (bc_op (BCINS_AD o' a d) = o' \<and> bc_a (BCINS_AD o' a d) = a \<and> bc_d (BCINS_AD o' a d) = d) \<and>
         bc_j (BCINS_AJ o' a j) = j \<and>
         BCINS_ABC (bc_op i) (bc_a i) (bc_b i) (bc_c i) = i"
  using assms by (simp add: bcfield)

theorem bcins_roundtrip_witness:
  "bc_b (BCINS_ABC 71 3 2 1) = 2 \<and> bc_j (BCINS_AJ 71 3 (- 5)) = - 5"
  using bcins_roundtrip [of 71 3 2 1 0 "- 5"] by simp

text \<open>
  the packed operand-mode word of every opcode decodes to exactly the columns of its row in
  \<^verbatim>\<open>BCDEF\<close>, and \<^verbatim>\<open>bcmode_hasd\<close> holds exactly for the opcodes without a B operand.
\<close>

theorem bcmode_decodes_table:
  assumes "op < BC__MAX" and "bcdef ! op = (s, ma, mb, mc, mm)"
  shows "bcmode_a op = of_nat (bcmode_num ma) \<and> bcmode_b op = of_nat (bcmode_num mb) \<and>
         bcmode_c op = of_nat (bcmode_num mc) \<and> bcmode_mm op = of_nat (mms_num mm) \<and>
         (bcmode_hasd op \<longleftrightarrow> mb = BCMnone)"
proof -
  have w: "bc_mode ! op = BCMODE (s, ma, mb, mc, mm)"
    using assms by (simp add: bc_mode_def length_bcdef)
  have "bcmode_num ma \<le> 7"
    using bcdef_mode_a_small assms by (force simp: list_all_length length_bcdef)
  then have u: "bcmode_a op = of_nat (bcmode_num ma)" "bcmode_b op = of_nat (bcmode_num mb)"
    "bcmode_c op = of_nat (bcmode_num mc)" "bcmode_mm op = of_nat (mms_num mm)"
    using BCMODE_unpack [of "bcmode_num ma" "bcmode_num mb" "bcmode_num mc" "mms_num mm"]
    by (simp_all add: bcmode_a_def bcmode_b_def bcmode_c_def bcmode_mm_def w bcmode_num_less mms_num_less)
  have "bcmode_hasd op \<longleftrightarrow> bcmode_b op = 0"
    using hasd_shift [of "bc_mode ! op"] by (simp add: bcmode_hasd_def bcmode_b_def)
  also have "\<dots> \<longleftrightarrow> mb = BCMnone"
    unfolding u by (cases mb) simp_all
  finally show ?thesis using u by simp
qed

theorem bcmode_decodes_table_witness:
  "bcdef ! 71 = (''CALL'', BCMbase, BCMlit, BCMlit, MM_call) \<and> \<not> bcmode_hasd 71 \<and> bcmode_b 71 = 6"
  using bcmode_decodes_table [of 71 "''CALL''" BCMbase BCMlit BCMlit MM_call] by (simp add: bcdef_def)

text \<open>
  the ordering constraints between opcode numbers that the header states as static assertions,
  and that the code generator uses arithmetically (inverting a comparison with \<^verbatim>\<open>op^1\<close>, turning a
  call into a tail call), hold of the table.
\<close>

theorem bc_static_asserts:
  "length bcdef = BC__MAX \<and> distinct bc_names \<and>
   (xor BC_ISEQV 1 = BC_ISNEV \<and> xor BC_ISEQS 1 = BC_ISNES \<and> xor BC_ISEQN 1 = BC_ISNEN \<and>
    xor BC_ISEQP 1 = BC_ISNEP \<and> xor BC_ISLT 1 = BC_ISGE \<and> xor BC_ISLE 1 = BC_ISGT \<and>
    xor BC_ISLT 3 = BC_ISGT) \<and>
   BC_IST - BC_ISTC = BC_ISF - BC_ISFC \<and> BC_CALLT - BC_CALL = BC_CALLMT - BC_CALLM \<and>
   map (\<lambda>i. bc_names ! i) [BC_CALLMT + 1, BC_RETM + 1, BC_FORL + 1, BC_FORL + 2, BC_ITERL + 1,
      BC_ITERL + 2, BC_LOOP + 1, BC_LOOP + 2, BC_FUNCF + 1, BC_FUNCF + 2, BC_FUNCV + 1, BC_FUNCV + 2]
   = [''CALLT'', ''RET'', ''IFORL'', ''JFORL'', ''IITERL'', ''JITERL'', ''ILOOP'', ''JLOOP'',
      ''IFUNCF'', ''JFUNCF'', ''IFUNCV'', ''JFUNCV'']"
  by (simp add: bc_names_def bcdef_def)

end
