(* ===== verification/Ktap_Util.thy ===== *)
theory Ktap_Util
  imports Ktap_Tab
begin

text \<open>
  The compiler's own runtime (\<^verbatim>\<open>userspace/kp_util.c\<close>, \<^verbatim>\<open>kp_util.h\<close>): character classes, string buffers, the array of
  interned strings, the constant tables, which are searched linearly, and glob patterns.  Names that the
  kernel module uses too carry the prefix \<open>u\<close>.  Allocation succeeds, as the code assumes.
\<close>

section \<open>Character classes\<close>

abbreviation (input) KP_CHAR_CNTRL :: u8 where "KP_CHAR_CNTRL \<equiv> 0x01"
abbreviation (input) KP_CHAR_SPACE :: u8 where "KP_CHAR_SPACE \<equiv> 0x02"
abbreviation (input) KP_CHAR_PUNCT :: u8 where "KP_CHAR_PUNCT \<equiv> 0x04"
abbreviation (input) KP_CHAR_DIGIT :: u8 where "KP_CHAR_DIGIT \<equiv> 0x08"
abbreviation (input) KP_CHAR_XDIGIT :: u8 where "KP_CHAR_XDIGIT \<equiv> 0x10"
abbreviation (input) KP_CHAR_UPPER :: u8 where "KP_CHAR_UPPER \<equiv> 0x20"
abbreviation (input) KP_CHAR_LOWER :: u8 where "KP_CHAR_LOWER \<equiv> 0x40"
abbreviation (input) KP_CHAR_IDENT :: u8 where "KP_CHAR_IDENT \<equiv> 0x80"

definition kp_char_bits :: "u8 list" where
  "kp_char_bits =
    0 #
    [1,  1,  1,  1,  1,  1,  1,  1,  1,  3,  3,  3,  3,  3,  1,  1,
     1,  1,  1,  1,  1,  1,  1,  1,  1,  1,  1,  1,  1,  1,  1,  1,
     2,  4,  4,  4,  4,  4,  4,  4,  4,  4,  4,  4,  4,  4,  4,  4,
   152,152,152,152,152,152,152,152,152,152,  4,  4,  4,  4,  4,  4,
     4,176,176,176,176,176,176,160,160,160,160,160,160,160,160,160,
   160,160,160,160,160,160,160,160,160,160,160,  4,  4,  4,  4,132,
     4,208,208,208,208,208,208,192,192,192,192,192,192,192,192,192,
   192,192,192,192,192,192,192,192,192,192,192,  4,  4,  4,  4,  1] @
   replicate 128 128"

text \<open>\<^verbatim>\<open>(kp_char_bits+1)[c]\<close> with \<open>c\<close> from -1 (the end of the input) to 255.\<close>

definition kp_char_isa :: "int \<Rightarrow> u8 \<Rightarrow> bool" where
  "kp_char_isa c t \<longleftrightarrow> kp_char_bits ! nat (c + 1) AND t \<noteq> 0"

abbreviation kp_char_isdigit :: "int \<Rightarrow> bool" where "kp_char_isdigit c \<equiv> kp_char_isa c KP_CHAR_DIGIT"
abbreviation kp_char_isxdigit :: "int \<Rightarrow> bool" where "kp_char_isxdigit c \<equiv> kp_char_isa c KP_CHAR_XDIGIT"
abbreviation kp_char_isspace :: "int \<Rightarrow> bool" where "kp_char_isspace c \<equiv> kp_char_isa c KP_CHAR_SPACE"
abbreviation kp_char_isident :: "int \<Rightarrow> bool" where "kp_char_isident c \<equiv> kp_char_isa c KP_CHAR_IDENT"
abbreviation kp_char_iscntrl :: "int \<Rightarrow> bool" where "kp_char_iscntrl c \<equiv> kp_char_isa c KP_CHAR_CNTRL"


section \<open>String buffers\<close>

text \<open>
  The block and the write position; \<^verbatim>\<open>p\<close> is null after \<^verbatim>\<open>kp_buf_init\<close>.  The contents of fresh memory are a
  parameter.  \<open>None\<close>: a null or freed pointer is used, a byte is written behind the block, or a doubled length
  leaves the range of an \<^verbatim>\<open>int\<close>.  The sizes asked for are C integers: \<open>c_int\<close> is what an \<^verbatim>\<open>int\<close> keeps of a count.
\<close>

definition c_int :: "nat \<Rightarrow> int" where
  "c_int n = sint (of_nat n :: u32)"

lemma c_int_small: "n < 2 ^ 31 \<Longrightarrow> c_int n = int n"
  by (simp add: c_int_def sint_of_nat32)

record sbuf =
  sb_mem :: "u8 list"
  sb_p :: "nat option"

definition kp_buf_init :: "(nat \<Rightarrow> u8) \<Rightarrow> sbuf" where
  "kp_buf_init ju = \<lparr>sb_mem = map ju [0..<200], sb_p = None\<rparr>"

definition kp_buf_reset :: "sbuf \<Rightarrow> sbuf" where
  "kp_buf_reset sb = sb\<lparr>sb_p := Some 0\<rparr>"

definition realloc_bytes :: "(nat \<Rightarrow> u8) \<Rightarrow> nat \<Rightarrow> u8 list \<Rightarrow> u8 list" where
  "realloc_bytes ju n mem = take n mem @ map ju [length mem..<n]"

definition kp_buf_more :: "(nat \<Rightarrow> u8) \<Rightarrow> sbuf \<Rightarrow> int \<Rightarrow> sbuf option" where
  "kp_buf_more ju sb sz =
     do {
       old_len \<leftarrow> sb_p sb;
       if sz > int (length (sb_mem sb)) - int old_len then
         (if old_len * 2 = 0 \<or> 2 ^ 31 \<le> old_len * 2 then None
          else Some (sb\<lparr>sb_mem := realloc_bytes ju (old_len * 2) (sb_mem sb)\<rparr>))
       else Some sb
     }"

text \<open>\<^verbatim>\<open>kp_buf_need\<close> looks at the block only; a position that is still null stays unusable.\<close>

definition kp_buf_need :: "(nat \<Rightarrow> u8) \<Rightarrow> sbuf \<Rightarrow> int \<Rightarrow> sbuf" where
  "kp_buf_need ju sb sz =
     (if sz > int (length (sb_mem sb)) then sb\<lparr>sb_mem := realloc_bytes ju (nat sz) (sb_mem sb)\<rparr> else sb)"

text \<open>\<^verbatim>\<open>kp_buf_wmem\<close> and the writes through a copy of \<^verbatim>\<open>p\<close>, with the \<^verbatim>\<open>setsbufP\<close> that ends them.\<close>

definition buf_put :: "u8 list \<Rightarrow> sbuf \<Rightarrow> sbuf option" where
  "buf_put b sb =
     do {
       p \<leftarrow> sb_p sb;
       if p + length b \<le> length (sb_mem sb)
       then Some \<lparr>sb_mem = take p (sb_mem sb) @ b @ drop (p + length b) (sb_mem sb), sb_p = Some (p + length b)\<rparr>
       else None
     }"

text \<open>Bytes put behind the buffer's contents after room was asked for \<open>sz\<close> bytes.\<close>

definition buf_write :: "(nat \<Rightarrow> u8) \<Rightarrow> nat \<Rightarrow> u8 list \<Rightarrow> sbuf \<Rightarrow> sbuf option" where
  "buf_write ju sz b sb = Option.bind (kp_buf_more ju sb (c_int sz)) (buf_put b)"

definition kp_buf_putb :: "(nat \<Rightarrow> u8) \<Rightarrow> sbuf \<Rightarrow> u8 \<Rightarrow> sbuf option" where
  "kp_buf_putb ju sb c =
     do {
       sb \<leftarrow> kp_buf_more ju sb 1;
       p \<leftarrow> sb_p sb;
       if p < length (sb_mem sb) then Some \<lparr>sb_mem = (sb_mem sb)[p := c], sb_p = Some (Suc p)\<rparr> else None
     }"

text \<open>The bytes \<^verbatim>\<open>kp_buf_str\<close> interns.\<close>

definition kp_buf_str :: "sbuf \<Rightarrow> u8 list option" where
  "kp_buf_str sb = map_option (\<lambda>p. take p (sb_mem sb)) (sb_p sb)"

text \<open>ULEB128, as the compiler writes line and variable information.\<close>

function strfmt_wuleb128 :: "u32 \<Rightarrow> u8 list" where
  "strfmt_wuleb128 v =
     (if v \<ge> 0x80 then ucast ((v AND 0x7f) OR 0x80) # strfmt_wuleb128 (drop_bit 7 v) else [ucast v])"
  by pat_completeness auto
termination
proof (relation "measure unat")
  fix v :: u32 assume "0x80 \<le> v"
  then have "0 < unat v" by (auto simp: word_le_nat_alt)
  then have "unat v div 2 ^ 7 < unat v" by simp
  then show "(drop_bit 7 v, v) \<in> measure unat" by (metis drop_bit_eq_div in_measure unat_drop_bit_eq)
qed simp

declare strfmt_wuleb128.simps [simp del]


section \<open>Interned strings\<close>

text \<open>The array, its size and the objects (pointer and bytes) in it; \<open>alloc\<close> is the pointer \<^verbatim>\<open>malloc\<close> returns.\<close>

record strtab =
  st_objs :: "(addr \<times> u8 list) list"
  st_size :: nat

definition ukp_str_resize :: strtab where
  "ukp_str_resize = \<lparr>st_objs = [], st_size = 1000\<rparr>"

definition stringtable_search :: "strtab \<Rightarrow> u8 list \<Rightarrow> addr option" where
  "stringtable_search t str = map_option fst (List.find (\<lambda>(_, s). length str = length s \<and> str = s) (st_objs t))"

definition stringtable_insert :: "strtab \<Rightarrow> addr \<times> u8 list \<Rightarrow> strtab option" where
  "stringtable_insert t ts =
     (if length (st_objs t) < st_size t then
        (let t = t\<lparr>st_objs := st_objs t @ [ts]\<rparr> in
         Some (if length (st_objs t) = st_size t then t\<lparr>st_size := st_size t * 2\<rparr> else t))
      else None)"

definition ukp_str_new :: "(strtab \<Rightarrow> addr) \<Rightarrow> strtab \<Rightarrow> u8 list \<Rightarrow> (addr \<times> strtab) option" where
  "ukp_str_new alloc t str =
     (case stringtable_search t str of
        Some a \<Rightarrow> Some (a, t)
      | None \<Rightarrow> map_option (\<lambda>t'. (alloc t, t')) (stringtable_insert t (alloc t, str)))"


section \<open>Tables of constants\<close>

text \<open>
  Equality as the compiler has it: the tag of the second operand is compared only for booleans.  \<open>same\<close>: the
  operands are one slot (see \<open>kp_obj_rawequal\<close>).
\<close>

definition ukp_obj_equal :: "bool \<Rightarrow> ktap_val \<Rightarrow> ktap_val \<Rightarrow> bool" where
  "ukp_obj_equal same t1 t2 =
     (let ty = itype t1 in
      if ty = KTAP_TNIL then True
      else if ty = KTAP_TNUM then nvalue t1 = nvalue t2
      else if ty = KTAP_TTRUE \<or> ty = KTAP_TFALSE then itype t1 = itype t2
      else if ty = KTAP_TLIGHTUD then same
      else vbits t1 = vbits t2)"

definition ukey_match :: "ktap_val \<Rightarrow> ktap_val \<Rightarrow> bool" where
  "ukey_match key v =
     (if itype key = KTAP_TNUM then is_number v \<and> nvalue key = nvalue v
      else if itype key = KTAP_TSTR then is_string v \<and> rawtsvalue key = rawtsvalue v
      else ukp_obj_equal False key v)"

text \<open>The node of a key (\<open>None\<close>: \<^verbatim>\<open>niltv\<close>).\<close>

definition ukp_tab_find :: "ktap_tab \<Rightarrow> ktap_val \<Rightarrow> nat option" where
  "ukp_tab_find t key =
     (if itype key = KTAP_TNIL then None
      else List.find (\<lambda>i. ukey_match key (n_key (tnode t ! i))) [0..<Suc (unat (hmask t))])"

definition ukp_tab_get :: "ktap_tab \<Rightarrow> ktap_val \<Rightarrow> ktap_val" where
  "ukp_tab_get t key = (case ukp_tab_find t key of None \<Rightarrow> kp_niltv | Some i \<Rightarrow> n_val (tnode t ! i))"

definition ukp_tab_getstr :: "ktap_tab \<Rightarrow> addr \<Rightarrow> ktap_val" where
  "ukp_tab_getstr t ts =
     (case List.find (\<lambda>i. is_string (n_key (tnode t ! i)) \<and> ts = rawtsvalue (n_key (tnode t ! i))) [0..<Suc (unat (hmask t))] of
        None \<Rightarrow> kp_niltv | Some i \<Rightarrow> n_val (tnode t ! i))"

definition zero_node :: ktap_node where
  "zero_node = \<lparr>n_val = \<lparr>itype = 0, vbits = 0\<rparr>, n_key = \<lparr>itype = 0, vbits = 0\<rparr>, n_next = None\<rparr>"

text \<open>
  Growth: when no node is free the array is doubled, with zeroed nodes.  A node has 40 bytes; \<open>None\<close>: the size, an
  \<^verbatim>\<open>int\<close>, overflows.
\<close>

definition ugrow :: "ktap_tab \<Rightarrow> ktap_tab option" where
  "ugrow t =
     (if freetop t = 0 then
        (if Suc (unat (hmask t)) * 40 * 2 < 2 ^ 31 then
           Some (t\<lparr>tnode := tnode t @ replicate (Suc (unat (hmask t))) zero_node, freetop := Suc (unat (hmask t)) * 2,
                   hmask := (hmask t + 1) * 2 - 1\<rparr>)
         else None)
      else Some t)"

definition ukp_tab_setvalue :: "ktap_tab \<Rightarrow> ktap_val \<Rightarrow> ktap_val \<Rightarrow> ktap_tab option" where
  "ukp_tab_setvalue t key v =
     (case ukp_tab_find t key of
        Some i \<Rightarrow> Some (t\<lparr>tnode := (tnode t)[i := (tnode t ! i)\<lparr>n_val := v\<rparr>]\<rparr>)
      | None \<Rightarrow>
          do {
            t \<leftarrow> ugrow t;
            let n = freetop t - 1;
            Some (t\<lparr>tnode := (tnode t)[n := (tnode t ! n)\<lparr>n_key := key, n_val := v\<rparr>], freetop := n\<rparr>)
          })"

text \<open>The node whose value the caller may write, and the table.\<close>

definition ukp_tab_set :: "ktap_tab \<Rightarrow> ktap_val \<Rightarrow> (nat \<times> ktap_tab) option" where
  "ukp_tab_set t key =
     (case ukp_tab_find t key of
        Some i \<Rightarrow> Some (i, t)
      | None \<Rightarrow>
          do {
            t \<leftarrow> ugrow t;
            let n = freetop t - 1;
            Some (n, t\<lparr>tnode := (tnode t)[n := (tnode t ! n)\<lparr>n_key := key, n_val := set_nil (n_val (tnode t ! n))\<rparr>],
                       freetop := n\<rparr>)
          })"

definition ukp_tab_new :: "(nat \<Rightarrow> ktap_node) \<Rightarrow> ktap_tab" where
  "ukp_tab_new ju =
     \<lparr>tarray = [], tnode = map (\<lambda>i. (ju i)\<lparr>n_val := set_nil (n_val (ju i)), n_key := set_nil (n_key (ju i))\<rparr>) [0..<1024],
      freetop = 1024, asize = 0, hmask = 1023, hnum = 0\<rparr>"


section \<open>Glob patterns\<close>

text \<open>
  Strings end with their list.  \<open>None\<close>: the pattern is read behind its terminating zero.  Characters are signed.
  The result of a class: whether it matches, and the pattern behind it (not set after an error).
\<close>

definition close_class :: "bool \<Rightarrow> bool \<Rightarrow> u8 list \<Rightarrow> (bool \<times> u8 list) option" where
  "close_class complement ret pat =
     (case dropWhile (\<lambda>x. x \<noteq> 93) pat of
        [] \<Rightarrow> Some (False, [])
      | _ # rest \<Rightarrow> Some ((if complement then \<not> ret else ret), rest))"

fun class_loop :: "bool \<Rightarrow> u8 \<Rightarrow> u8 \<Rightarrow> u8 list \<Rightarrow> (bool \<times> u8 list) option" where
  "class_loop complement c prev [] = Some (False, [])"
| "class_loop complement c prev (x # pat) =
     (if x = 93 then close_class complement False (x # pat)
      else if x = 45 \<and> (pat = [] \<or> hd pat \<noteq> 93) then
        (let hi = (case pat of [] \<Rightarrow> 0 | y # _ \<Rightarrow> y) in
         if prev \<le>s c \<and> c \<le>s hi then close_class complement True (x # pat)
         else if hi <s prev then Some (False, [])
         else case pat of [] \<Rightarrow> None | y # rest \<Rightarrow> class_loop complement c y rest)
      else if x = c then close_class complement True pat
      else class_loop complement c x pat)"

definition match_charclass :: "u8 list \<Rightarrow> u8 \<Rightarrow> (bool \<times> u8 list) option" where
  "match_charclass pat c =
     (let (complement, pat) = (case pat of x # rest \<Rightarrow> if x = 33 then (True, rest) else (False, pat) | [] \<Rightarrow> (False, [])) in
      case pat of
        [] \<Rightarrow> None
      | x # rest \<Rightarrow> if x = c then close_class complement True rest else class_loop complement c x rest)"

definition c_isspace :: "u8 \<Rightarrow> bool" where "c_isspace c \<longleftrightarrow> c = 32 \<or> 9 \<le> c \<and> c \<le> 13"

lemma close_class_length: "close_class k r pat = Some (b, rest) \<Longrightarrow> length rest \<le> length pat"
  using length_dropWhile_le [of "\<lambda>x. x \<noteq> 93" pat] by (auto simp: close_class_def split: list.splits)

lemma class_loop_length: "class_loop k c p pat = Some (b, rest) \<Longrightarrow> length rest \<le> length pat"
proof (induction k c p pat rule: class_loop.induct)
  case (2 k c p x pat)
  then show ?case
    by (auto simp: Let_def split: if_splits list.splits dest!: close_class_length intro: le_SucI)
qed simp

lemma match_charclass_length: "match_charclass pat c = Some (b, rest) \<Longrightarrow> length rest \<le> length pat"
  by (auto simp: match_charclass_def split: list.splits if_splits dest!: close_class_length class_loop_length)

text \<open>\<open>glob_tails\<close> is the loop of the wild card over the rest of the string.\<close>

fun glob_tails :: "(u8 list \<Rightarrow> bool option) \<Rightarrow> u8 list \<Rightarrow> bool option" where
  "glob_tails m [] = Some False"
| "glob_tails m (c # str) = (case m (c # str) of None \<Rightarrow> None | Some True \<Rightarrow> Some True | Some False \<Rightarrow> glob_tails m str)"


lemma glob_tails_cong [fundef_cong]: "(\<And>s. m s = m' s) \<Longrightarrow> xs = ys \<Longrightarrow> glob_tails m xs = glob_tails m' ys"
proof -
  assume "\<And>s. m s = m' s" "xs = ys"
  then have "m = m'" by auto
  then show ?thesis using \<open>xs = ys\<close> by simp
qed

lemma drop_stars_length: "length (dropWhile (\<lambda>x. x = 42) pat) \<le> length pat"
  by (rule length_dropWhile_le)

function match_glob :: "bool \<Rightarrow> u8 list \<Rightarrow> u8 list \<Rightarrow> bool option" where
  "match_glob ign str [] = Some (str = [])"
| "match_glob ign [] (p # ps) = Some (p = 42 \<and> dropWhile (\<lambda>x. x = 42) ps = [])"
| "match_glob ign (c # s) (p # ps) =
     (if p = 42 then
        (if dropWhile (\<lambda>x. x = 42) ps = [] then Some True
         else glob_tails (\<lambda>s. match_glob ign s (dropWhile (\<lambda>x. x = 42) ps)) (c # s))
      else if ign \<and> c_isspace c then match_glob ign s (p # ps)
      else if ign \<and> c_isspace p then match_glob ign (c # s) ps
      else if p = 63 then match_glob ign s ps
      else if p = 91 then
        (case match_charclass ps c of
           None \<Rightarrow> None
         | Some (ok, rest) \<Rightarrow> if ok then match_glob ign s rest else Some False)
      else if p = 92 then (if ps \<noteq> [] \<and> c = hd ps then match_glob ign s (tl ps) else Some False)
      else if c = p then match_glob ign s ps
      else Some False)"
  by pat_completeness simp_all
termination
proof (relation "measures [\<lambda>(_, _, pat). length pat, \<lambda>(_, str, _). length str]", goal_cases)
  case (6 ign c s p ps a ok rest)
  then show ?case using match_charclass_length [of ps c ok rest] by auto
qed (simp_all add: drop_stars_length less_Suc_eq_le)

declare match_glob.simps [simp del]

definition strglobmatch :: "u8 list \<Rightarrow> u8 list \<Rightarrow> bool option" where
  "strglobmatch str pat = match_glob False str pat"

end
