(* ===== verification/Ktap_BcWrite.thy ===== *)
theory Ktap_BcWrite
  imports Ktap_Bytecode Ktap_Util
begin

text \<open>
  The bytecode dump format and its writer (\<^verbatim>\<open>userspace/kp_bcwrite.c\<close>, the dump constants of
  \<^verbatim>\<open>include/ktap_bc.h\<close>).  The compiler side keeps its objects in its own heap; the writer only reads
  them, so a prototype is a tree with the contents of its strings and tables.  The writer assembles each
  chunk in a buffer of \<^verbatim>\<open>kp_util.c\<close>, with the room it asks for; a write behind the block is the
  fault \<open>None\<close>.  The bytes of a dump are defined next to it, and a writer that does not fault sends those.
\<close>

section \<open>Little-endian words\<close>

definition le16 :: "u16 \<Rightarrow> u8 list" where
  "le16 w = [ucast w, ucast (drop_bit 8 w)]"

definition le32 :: "u32 \<Rightarrow> u8 list" where
  "le32 w = [ucast w, ucast (drop_bit 8 w), ucast (drop_bit 16 w), ucast (drop_bit 24 w)]"

definition le64 :: "u64 \<Rightarrow> u8 list" where
  "le64 w = le32 (ucast w) @ le32 (ucast (drop_bit 32 w))"

definition de16 :: "u8 list \<Rightarrow> u16" where
  "de16 b = ucast (b ! 0) OR push_bit 8 (ucast (b ! 1))"

definition de32 :: "u8 list \<Rightarrow> u32" where
  "de32 b = ucast (b ! 0) OR push_bit 8 (ucast (b ! 1)) OR push_bit 16 (ucast (b ! 2)) OR push_bit 24 (ucast (b ! 3))"

definition de64 :: "u8 list \<Rightarrow> u64" where
  "de64 b = ucast (de32 (take 4 b)) OR push_bit 32 (ucast (de32 (drop 4 b)))"

lemma le_lengths [simp]: "length (le16 v) = 2" "length (le32 w) = 4" "length (le64 x) = 8"
  by (simp_all add: le16_def le32_def le64_def)

lemma de16_le16 [simp]: "de16 (le16 w) = w"
  by (rule bit_word_eqI) (auto simp: de16_def le16_def bit_simps)

lemma de32_le32 [simp]: "de32 (le32 w) = w"
proof (rule bit_word_eqI)
  fix n assume "n < LENGTH(32)"
  then consider "n < 8" | "8 \<le> n" "n < 16" | "16 \<le> n" "n < 24" | "24 \<le> n" "n < 32" by fastforce
  then show "bit (de32 (le32 w)) n = bit w n"
  proof cases
    case 2
    then have "n - 8 < 32 \<and> n - 8 < 8" by linarith
    with 2 show ?thesis by (simp add: de32_def le32_def bit_simps)
  next
    case 3
    then have "n - 16 < 32 \<and> n - 16 < 8 \<and> \<not> n - 8 < 8" by linarith
    with 3 show ?thesis by (simp add: de32_def le32_def bit_simps)
  next
    case 4
    then have "n - 24 < 32 \<and> n - 24 < 8 \<and> \<not> n - 16 < 8 \<and> \<not> n - 8 < 8" by linarith
    with 4 show ?thesis by (simp add: de32_def le32_def bit_simps)
  qed (simp add: de32_def le32_def bit_simps)
qed

lemma de64_le64 [simp]: "de64 (le64 w) = w"
proof (rule bit_word_eqI)
  fix n assume n: "n < LENGTH(64)"
  have "n < 32 \<or> (32 \<le> n \<and> n - 32 < 32)" using n by simp linarith
  then show "bit (de64 (le64 w)) n = bit w n"
    using n by (auto simp: de64_def le64_def bit_simps)
qed


section \<open>The objects of the compiler\<close>

text \<open>A value of a template table or number constant: a tag alone, a number, or a string.\<close>

datatype tval = TPri u32 | TNum u64 | TStr "u8 list"

definition tval_nil :: "tval \<Rightarrow> bool" where "tval_nil v \<longleftrightarrow> v = TPri KTAP_TNIL"

record utab =
  ut_array :: "tval list"
  ut_node :: "(tval \<times> tval) list"

text \<open>
  A prototype: flags, number of parameters, frame size, upvalue references, collectable constants
  in the order of their memory, number constants, the instructions without the function header,
  and the debug information (first line, number of lines, bytes).
\<close>

datatype kgc = KgcStr "u8 list" | KgcTab utab | KgcChild uproto
  and uproto = UProto (up_flags: u8) (up_numparams: u8) (up_framesize: u8) (up_uv: "u16 list")
    (up_kgc: "kgc list") (up_knum: "tval list") (up_bc: "u32 list") (up_dbg: "(u32 \<times> u32 \<times> u8 list) option")

abbreviation (input) PROTO_CHILD :: u8 where "PROTO_CHILD \<equiv> 1"
abbreviation (input) PROTO_VARARG :: u8 where "PROTO_VARARG \<equiv> 2"
abbreviation (input) PROTO_FFI :: u8 where "PROTO_FFI \<equiv> 4"

abbreviation (input) BCDUMP_KGC_CHILD :: u32 where "BCDUMP_KGC_CHILD \<equiv> 0"
abbreviation (input) BCDUMP_KGC_TAB :: u32 where "BCDUMP_KGC_TAB \<equiv> 1"
abbreviation (input) BCDUMP_KGC_STR :: u32 where "BCDUMP_KGC_STR \<equiv> 5"
abbreviation (input) BCDUMP_KTAB_NIL :: u32 where "BCDUMP_KTAB_NIL \<equiv> 0"
abbreviation (input) BCDUMP_KTAB_NUM :: u32 where "BCDUMP_KTAB_NUM \<equiv> 4"
abbreviation (input) BCDUMP_KTAB_STR :: u32 where "BCDUMP_KTAB_STR \<equiv> 5"
abbreviation (input) BCDUMP_HEAD1 :: u8 where "BCDUMP_HEAD1 \<equiv> 0x15"
abbreviation (input) BCDUMP_HEAD2 :: u8 where "BCDUMP_HEAD2 \<equiv> 0x22"
abbreviation (input) BCDUMP_HEAD3 :: u8 where "BCDUMP_HEAD3 \<equiv> 0x06"
abbreviation (input) BCDUMP_VERSION :: u8 where "BCDUMP_VERSION \<equiv> 1"
abbreviation (input) BCDUMP_F_BE :: u8 where "BCDUMP_F_BE \<equiv> 1"
abbreviation (input) BCDUMP_F_STRIP :: u8 where "BCDUMP_F_STRIP \<equiv> 2"
abbreviation (input) BCDUMP_F_FFI :: u8 where "BCDUMP_F_FFI \<equiv> 4"


section \<open>The writer\<close>

definition bcwrite_uint32 :: "u32 \<Rightarrow> u8 list" where "bcwrite_uint32 v = le32 v"

text \<open>\<open>ju\<close> is the contents of fresh memory.  Eleven bytes are asked for, and a number takes twelve.\<close>

definition bcwrite_ktabk :: "(nat \<Rightarrow> u8) \<Rightarrow> tval \<Rightarrow> sbuf \<Rightarrow> sbuf option" where
  "bcwrite_ktabk ju o' sb =
     do {
       sb \<leftarrow> kp_buf_more ju sb (1 + 10);
       case o' of
         TStr s \<Rightarrow> buf_write ju (5 + length s) (bcwrite_uint32 (BCDUMP_KTAB_STR + of_nat (length s)) @ s) sb
       | TNum n \<Rightarrow> buf_put (bcwrite_uint32 BCDUMP_KTAB_NUM @ le64 n) sb
       | TPri t \<Rightarrow> buf_put (bcwrite_uint32 (BCDUMP_KTAB_NIL + NOT t)) sb
     }"

definition ktab_narray :: "utab \<Rightarrow> nat" where
  "ktab_narray t = length (dropWhile tval_nil (rev (ut_array t)))"

definition ktab_hash :: "utab \<Rightarrow> (tval \<times> tval) list" where
  "ktab_hash t = (if length (ut_node t) > 1 then filter (\<lambda>n. \<not> tval_nil (snd n)) (ut_node t) else [])"

fun bcwrite_loop :: "('a \<Rightarrow> sbuf \<Rightarrow> sbuf option) \<Rightarrow> 'a list \<Rightarrow> sbuf \<Rightarrow> sbuf option" where
  "bcwrite_loop f [] sb = Some sb"
| "bcwrite_loop f (x # xs) sb = Option.bind (f x sb) (bcwrite_loop f xs)"

definition bcwrite_ktab :: "(nat \<Rightarrow> u8) \<Rightarrow> utab \<Rightarrow> sbuf \<Rightarrow> sbuf option" where
  "bcwrite_ktab ju t sb =
     do {
       sb \<leftarrow> buf_put (bcwrite_uint32 (of_nat (ktab_narray t)) @ bcwrite_uint32 (of_nat (length (ktab_hash t)))) sb;
       sb \<leftarrow> bcwrite_loop (bcwrite_ktabk ju) (take (ktab_narray t) (ut_array t)) sb;
       bcwrite_loop (\<lambda>n sb. do { sb \<leftarrow> bcwrite_ktabk ju (fst n) sb; bcwrite_ktabk ju (snd n) sb }) (rev (ktab_hash t)) sb
     }"

text \<open>One constant: for a child one byte is asked for and four are written.\<close>

definition bcwrite_kgc1 :: "(nat \<Rightarrow> u8) \<Rightarrow> kgc \<Rightarrow> sbuf \<Rightarrow> sbuf option" where
  "bcwrite_kgc1 ju o' sb =
     (case o' of
        KgcStr s \<Rightarrow> buf_write ju (5 + length s) (bcwrite_uint32 (BCDUMP_KGC_STR + of_nat (length s)) @ s) sb
      | KgcChild _ \<Rightarrow> buf_write ju 1 (bcwrite_uint32 BCDUMP_KGC_CHILD) sb
      | KgcTab t \<Rightarrow> Option.bind (buf_write ju (1 + 2 * 5) (bcwrite_uint32 BCDUMP_KGC_TAB) sb) (bcwrite_ktab ju t))"

definition bcwrite_kgc :: "(nat \<Rightarrow> u8) \<Rightarrow> kgc list \<Rightarrow> sbuf \<Rightarrow> sbuf option" where
  "bcwrite_kgc ju ks = bcwrite_loop (bcwrite_kgc1 ju) ks"

text \<open>The number constants: values that are not numbers are skipped.\<close>

definition knum_bytes :: "tval list \<Rightarrow> u8 list" where
  "knum_bytes ns = concat (map (\<lambda>n. case n of TNum v \<Rightarrow> le64 v | _ \<Rightarrow> []) ns)"

definition bcwrite_knum :: "(nat \<Rightarrow> u8) \<Rightarrow> tval list \<Rightarrow> sbuf \<Rightarrow> sbuf option" where
  "bcwrite_knum ju ns = buf_write ju (10 * length ns) (knum_bytes ns)"

definition bcwrite_bytecode :: "u32 list \<Rightarrow> u8 list" where
  "bcwrite_bytecode bc = concat (map le32 bc)"

text \<open>The header of a chunk behind its length, with the instructions and upvalue references.\<close>

definition dbg_info :: "bool \<Rightarrow> uproto \<Rightarrow> u8 list" where
  "dbg_info strip pt = (if strip then [] else case up_dbg pt of None \<Rightarrow> [] | Some (_, _, d) \<Rightarrow> d)"

definition proto_head :: "bool \<Rightarrow> uproto \<Rightarrow> u8 list" where
  "proto_head strip pt =
     [up_flags pt AND (PROTO_CHILD OR PROTO_VARARG OR PROTO_FFI), up_numparams pt, up_framesize pt,
      of_nat (length (up_uv pt))] @
     bcwrite_uint32 (of_nat (length (up_kgc pt))) @ bcwrite_uint32 (of_nat (length (up_knum pt))) @
     bcwrite_uint32 (of_nat (length (up_bc pt))) @
     (if strip then []
      else case up_dbg pt of
          None \<Rightarrow> bcwrite_uint32 0
        | Some (first, num, d) \<Rightarrow>
            bcwrite_uint32 (of_nat (length d)) @
            (if d = [] then [] else bcwrite_uint32 first @ bcwrite_uint32 num)) @
     bcwrite_bytecode (up_bc pt) @ concat (map le16 (up_uv pt))"

text \<open>The part of \<^verbatim>\<open>bcwrite_proto\<close> that fills the buffer, from its fifth byte on.\<close>

definition bcwrite_own :: "(nat \<Rightarrow> u8) \<Rightarrow> bool \<Rightarrow> uproto \<Rightarrow> sbuf \<Rightarrow> sbuf option" where
  "bcwrite_own ju strip pt sb =
     do {
       let sb = kp_buf_need ju sb (c_int (5 + 4 + 6 * 5 + length (up_bc pt) * 4 + length (up_uv pt) * 2));
       sb \<leftarrow> buf_put (proto_head strip pt) (sb\<lparr>sb_p := Some 4\<rparr>);
       sb \<leftarrow> bcwrite_kgc ju (up_kgc pt) sb;
       sb \<leftarrow> bcwrite_knum ju (up_knum pt) sb;
       if dbg_info strip pt \<noteq> [] then buf_write ju (length (dbg_info strip pt)) (dbg_info strip pt) sb else Some sb
     }"

record 'w bcwrite_ctx =
  bw_sb :: sbuf
  bw_status :: int
  bw_wdata :: 'w

text \<open>The length is filled in and the buffer passed to the callback, as long as that has returned 0.\<close>

definition bcwrite_pass :: "(u8 list \<Rightarrow> 'w \<Rightarrow> int \<times> 'w) \<Rightarrow> 'w bcwrite_ctx \<Rightarrow> 'w bcwrite_ctx option" where
  "bcwrite_pass wfunc c =
     (if bw_status c \<noteq> 0 then Some c
      else do {
        len \<leftarrow> sb_p (bw_sb c);
        let mem = bcwrite_uint32 (of_nat (len - 4)) @ drop 4 (sb_mem (bw_sb c));
        let (st, d) = wfunc (take len mem) (bw_wdata c);
        Some \<lparr>bw_sb = (bw_sb c)\<lparr>sb_mem := mem\<rparr>, bw_status = st, bw_wdata = d\<rparr>
      })"

text \<open>
  \<^verbatim>\<open>bcwrite_proto\<close>: the children first, from the last constant to the first, then the prototype.
\<close>

fun bcwrite_proto :: "(nat \<Rightarrow> u8) \<Rightarrow> bool \<Rightarrow> (u8 list \<Rightarrow> 'w \<Rightarrow> int \<times> 'w) \<Rightarrow> uproto \<Rightarrow> 'w bcwrite_ctx \<Rightarrow> 'w bcwrite_ctx option"
  and bcwrite_children :: "(nat \<Rightarrow> u8) \<Rightarrow> bool \<Rightarrow> (u8 list \<Rightarrow> 'w \<Rightarrow> int \<times> 'w) \<Rightarrow> kgc list \<Rightarrow> 'w bcwrite_ctx \<Rightarrow> 'w bcwrite_ctx option"
  and bcwrite_child :: "(nat \<Rightarrow> u8) \<Rightarrow> bool \<Rightarrow> (u8 list \<Rightarrow> 'w \<Rightarrow> int \<times> 'w) \<Rightarrow> kgc \<Rightarrow> 'w bcwrite_ctx \<Rightarrow> 'w bcwrite_ctx option" where
  "bcwrite_proto ju strip wfunc (UProto fl np fs uv ks kn bc dbg) c =
     do {
       c \<leftarrow> (if fl AND PROTO_CHILD \<noteq> 0 then bcwrite_children ju strip wfunc ks c else Some c);
       sb \<leftarrow> bcwrite_own ju strip (UProto fl np fs uv ks kn bc dbg) (bw_sb c);
       bcwrite_pass wfunc (c\<lparr>bw_sb := sb\<rparr>)
     }"
| "bcwrite_children ju strip wfunc [] c = Some c"
| "bcwrite_children ju strip wfunc (k # ks) c = Option.bind (bcwrite_children ju strip wfunc ks c) (bcwrite_child ju strip wfunc k)"
| "bcwrite_child ju strip wfunc (KgcChild pt) c = bcwrite_proto ju strip wfunc pt c"
| "bcwrite_child ju strip wfunc (KgcStr s) c = Some c"
| "bcwrite_child ju strip wfunc (KgcTab t) c = Some c"

definition header_bytes :: "bool \<Rightarrow> u8 list \<Rightarrow> u8 list" where
  "header_bytes strip name =
     [BCDUMP_HEAD1, BCDUMP_HEAD2, BCDUMP_HEAD3, BCDUMP_VERSION, if strip then BCDUMP_F_STRIP else 0] @
     (if strip then [] else bcwrite_uint32 (of_nat (length name)) @ name)"

text \<open>The header is written from the start of the block, through a pointer that is not stored in the buffer.\<close>

definition bcwrite_header ::
    "(nat \<Rightarrow> u8) \<Rightarrow> bool \<Rightarrow> (u8 list \<Rightarrow> 'w \<Rightarrow> int \<times> 'w) \<Rightarrow> u8 list \<Rightarrow> 'w bcwrite_ctx \<Rightarrow> 'w bcwrite_ctx option" where
  "bcwrite_header ju strip wfunc name c =
     do {
       let sb0 = kp_buf_need ju (bw_sb c) (c_int (5 + 5 + length name));
       sb \<leftarrow> buf_put (header_bytes strip name) (sb0\<lparr>sb_p := Some 0\<rparr>);
       b \<leftarrow> kp_buf_str sb;
       let (st, d) = wfunc b (bw_wdata c);
       Some \<lparr>bw_sb = sb\<lparr>sb_p := sb_p sb0\<rparr>, bw_status = st, bw_wdata = d\<rparr>
     }"

definition bcwrite_footer :: "(u8 list \<Rightarrow> 'w \<Rightarrow> int \<times> 'w) \<Rightarrow> 'w bcwrite_ctx \<Rightarrow> 'w bcwrite_ctx" where
  "bcwrite_footer wfunc c =
     (if bw_status c = 0 then let (st, d) = wfunc [0] (bw_wdata c) in c\<lparr>bw_status := st, bw_wdata := d\<rparr> else c)"

definition kp_bcwrite ::
    "(nat \<Rightarrow> u8) \<Rightarrow> uproto \<Rightarrow> u8 list \<Rightarrow> (u8 list \<Rightarrow> 'w \<Rightarrow> int \<times> 'w) \<Rightarrow> 'w \<Rightarrow> bool \<Rightarrow> (int \<times> 'w) option" where
  "kp_bcwrite ju pt name wfunc d strip =
     do {
       c \<leftarrow> bcwrite_header ju strip wfunc name \<lparr>bw_sb = kp_buf_need ju (kp_buf_init ju) 1024, bw_status = 0, bw_wdata = d\<rparr>;
       c \<leftarrow> bcwrite_proto ju strip wfunc pt c;
       let c = bcwrite_footer wfunc c;
       Some (bw_status c, bw_wdata c)
     }"


section \<open>The bytes of a dump\<close>

definition ktabk_bytes :: "tval \<Rightarrow> u8 list" where
  "ktabk_bytes o' =
     (case o' of
        TStr s \<Rightarrow> bcwrite_uint32 (BCDUMP_KTAB_STR + of_nat (length s)) @ s
      | TNum n \<Rightarrow> bcwrite_uint32 BCDUMP_KTAB_NUM @ le64 n
      | TPri t \<Rightarrow> bcwrite_uint32 (BCDUMP_KTAB_NIL + NOT t))"

definition ktab_bytes :: "utab \<Rightarrow> u8 list" where
  "ktab_bytes t =
     bcwrite_uint32 (of_nat (ktab_narray t)) @ bcwrite_uint32 (of_nat (length (ktab_hash t))) @
     concat (map ktabk_bytes (take (ktab_narray t) (ut_array t))) @
     concat (map (\<lambda>n. ktabk_bytes (fst n) @ ktabk_bytes (snd n)) (rev (ktab_hash t)))"

definition kgc1_bytes :: "kgc \<Rightarrow> u8 list" where
  "kgc1_bytes o' =
     (case o' of
        KgcStr s \<Rightarrow> bcwrite_uint32 (BCDUMP_KGC_STR + of_nat (length s)) @ s
      | KgcChild _ \<Rightarrow> bcwrite_uint32 BCDUMP_KGC_CHILD
      | KgcTab t \<Rightarrow> bcwrite_uint32 BCDUMP_KGC_TAB @ ktab_bytes t)"

definition kgc_bytes :: "kgc list \<Rightarrow> u8 list" where
  "kgc_bytes ks = concat (map kgc1_bytes ks)"

text \<open>The chunk of one prototype after its length field.\<close>

definition body_bytes :: "bool \<Rightarrow> uproto \<Rightarrow> u8 list" where
  "body_bytes strip pt = proto_head strip pt @ kgc_bytes (up_kgc pt) @ knum_bytes (up_knum pt) @ dbg_info strip pt"

definition chunk_bytes :: "bool \<Rightarrow> uproto \<Rightarrow> u8 list" where
  "chunk_bytes strip pt =
     (let body = body_bytes strip pt in bcwrite_uint32 (of_nat (length body)) @ body)"

text \<open>The prototypes in the order of their chunks.\<close>

fun proto_order :: "uproto \<Rightarrow> uproto list"
  and kgcs_order :: "kgc list \<Rightarrow> uproto list"
  and kgc_order :: "kgc \<Rightarrow> uproto list" where
  "proto_order (UProto fl np fs uv ks kn bc dbg) =
     (if fl AND PROTO_CHILD \<noteq> 0 then kgcs_order ks else []) @ [UProto fl np fs uv ks kn bc dbg]"
| "kgcs_order [] = []"
| "kgcs_order (k # ks) = kgcs_order ks @ kgc_order k"
| "kgc_order (KgcChild pt) = proto_order pt"
| "kgc_order (KgcStr s) = []"
| "kgc_order (KgcTab t) = []"

definition bc_dump :: "bool \<Rightarrow> u8 list \<Rightarrow> uproto \<Rightarrow> u8 list" where
  "bc_dump strip name pt = header_bytes strip name @ concat (map (chunk_bytes strip) (proto_order pt)) @ [0]"

text \<open>The callback of the compiler's main program appends to a file.\<close>

definition write_append :: "u8 list \<Rightarrow> u8 list \<Rightarrow> int \<times> u8 list" where
  "write_append chunk file = (0, file @ chunk)"

text \<open>The chunks as the callback gets them.\<close>

definition bc_send :: "(u8 list \<Rightarrow> 'w \<Rightarrow> int \<times> 'w) \<Rightarrow> u8 list \<Rightarrow> int \<times> 'w \<Rightarrow> int \<times> 'w" where
  "bc_send wfunc chunk s = (if fst s = 0 then wfunc chunk (snd s) else s)"


section \<open>What the buffer holds\<close>

definition buf_has :: "sbuf \<Rightarrow> u8 list \<Rightarrow> bool" where
  "buf_has sb xs \<longleftrightarrow> sb_p sb = Some (length xs) \<and> take (length xs) (sb_mem sb) = xs"

lemma buf_has_length: "buf_has sb xs \<Longrightarrow> length xs \<le> length (sb_mem sb)"
  unfolding buf_has_def by (metis length_take min.cobounded1)

lemma buf_has_more: "buf_has sb xs \<Longrightarrow> kp_buf_more ju sb n = Some sb' \<Longrightarrow> buf_has sb' xs"
  using buf_has_length [of sb xs]
  by (auto simp: kp_buf_more_def buf_has_def realloc_bytes_def min_def split: if_splits)

lemma buf_has_put: "buf_has sb xs \<Longrightarrow> buf_put b sb = Some sb' \<Longrightarrow> buf_has sb' (xs @ b)"
  using buf_has_length [of sb xs] by (auto simp: buf_put_def buf_has_def min_def split: if_splits)

lemma buf_has_write: "buf_has sb xs \<Longrightarrow> buf_write ju n b sb = Some sb' \<Longrightarrow> buf_has sb' (xs @ b)"
  by (auto simp: buf_write_def split: bind_splits intro: buf_has_put buf_has_more)

lemma buf_has_loop:
  assumes "\<And>x xs sb sb'. buf_has sb xs \<Longrightarrow> f x sb = Some sb' \<Longrightarrow> buf_has sb' (xs @ b x)"
  shows "buf_has sb xs \<Longrightarrow> bcwrite_loop f ys sb = Some sb' \<Longrightarrow> buf_has sb' (xs @ concat (map b ys))"
proof (induction ys arbitrary: sb xs)
  case (Cons y ys)
  from Cons.prems(2) obtain sb1 where "f y sb = Some sb1" "bcwrite_loop f ys sb1 = Some sb'" by (auto split: bind_splits)
  then show ?case using Cons.IH [of sb1 "xs @ b y"] assms [OF Cons.prems(1)] by auto
qed simp

lemma buf_has_ktabk: "buf_has sb xs \<Longrightarrow> bcwrite_ktabk ju v sb = Some sb' \<Longrightarrow> buf_has sb' (xs @ ktabk_bytes v)"
  by (auto simp: bcwrite_ktabk_def ktabk_bytes_def split: bind_splits tval.splits
      dest: buf_has_more intro: buf_has_put buf_has_write)

lemma buf_has_ktab:
  assumes "buf_has sb xs" "bcwrite_ktab ju t sb = Some sb'"
  shows "buf_has sb' (xs @ ktab_bytes t)"
proof -
  let ?h = "bcwrite_uint32 (of_nat (ktab_narray t)) @ bcwrite_uint32 (of_nat (length (ktab_hash t)))"
  let ?f = "\<lambda>n sb. Option.bind (bcwrite_ktabk ju (fst n) sb) (bcwrite_ktabk ju (snd n))"
  obtain sb1 sb2 where s: "buf_put ?h sb = Some sb1" "bcwrite_loop (bcwrite_ktabk ju) (take (ktab_narray t) (ut_array t)) sb1 = Some sb2"
    "bcwrite_loop ?f (rev (ktab_hash t)) sb2 = Some sb'"
    using assms(2) by (auto simp: bcwrite_ktab_def split: bind_splits)
  have f: "buf_has s' (ys @ ktabk_bytes (fst n) @ ktabk_bytes (snd n))" if "buf_has s ys" "?f n s = Some s'" for s ys n s'
  proof -
    obtain s1 where "bcwrite_ktabk ju (fst n) s = Some s1" "bcwrite_ktabk ju (snd n) s1 = Some s'" using \<open>?f n s = Some s'\<close> by (auto split: bind_splits)
    then show ?thesis using buf_has_ktabk [OF buf_has_ktabk [OF \<open>buf_has s ys\<close>]] by (metis append_assoc)
  qed
  note 1 = buf_has_put [OF assms(1) s(1)]
  note 2 = buf_has_loop [OF buf_has_ktabk 1 s(2)]
  from buf_has_loop [where b = "\<lambda>n. ktabk_bytes (fst n) @ ktabk_bytes (snd n)", OF f 2 s(3)] show ?thesis
    by (simp add: ktab_bytes_def)
qed

lemma buf_has_kgc1: "buf_has sb xs \<Longrightarrow> bcwrite_kgc1 ju k sb = Some sb' \<Longrightarrow> buf_has sb' (xs @ kgc1_bytes k)"
  using buf_has_write buf_has_ktab
  by (fastforce simp: bcwrite_kgc1_def kgc1_bytes_def simp flip: append_assoc split: bind_splits kgc.splits)

lemma buf_has_kgc: "buf_has sb xs \<Longrightarrow> bcwrite_kgc ju ks sb = Some sb' \<Longrightarrow> buf_has sb' (xs @ kgc_bytes ks)"
  unfolding bcwrite_kgc_def kgc_bytes_def by (rule buf_has_loop [OF buf_has_kgc1])

text \<open>A chunk behind its first four bytes.\<close>

lemma buf_has_own:
  assumes "bcwrite_own ju strip pt sb = Some sb'"
  shows "\<exists>h. length h = 4 \<and> buf_has sb' (h @ body_bytes strip pt)"
proof -
  define sb0 where "sb0 = kp_buf_need ju sb (c_int (5 + 4 + 6 * 5 + length (up_bc pt) * 4 + length (up_uv pt) * 2))"
  let ?h = "take 4 (sb_mem sb0)" and ?d = "dbg_info strip pt"
  obtain sb1 sb2 sb3 where s: "buf_put (proto_head strip pt) (sb0\<lparr>sb_p := Some 4\<rparr>) = Some sb1" "bcwrite_kgc ju (up_kgc pt) sb1 = Some sb2"
    "bcwrite_knum ju (up_knum pt) sb2 = Some sb3" "(if ?d \<noteq> [] then buf_write ju (length ?d) ?d sb3 else Some sb3) = Some sb'"
    using assms unfolding bcwrite_own_def Let_def sb0_def [symmetric] by (auto split: bind_splits)
  have l: "length ?h = 4" using s(1) by (auto simp: buf_put_def split: if_splits)
  then have "buf_has (sb0\<lparr>sb_p := Some 4\<rparr>) ?h" by (simp add: buf_has_def)
  from buf_has_kgc [OF buf_has_put [OF this s(1)] s(2)] s(3)
  have "buf_has sb3 ((?h @ proto_head strip pt) @ kgc_bytes (up_kgc pt) @ knum_bytes (up_knum pt))"
    by (auto simp: bcwrite_knum_def simp flip: append_assoc dest: buf_has_write)
  then have "buf_has sb' (?h @ body_bytes strip pt)"
    using s(4) by (cases "?d = []") (auto simp: body_bytes_def simp flip: append_assoc dest: buf_has_write)
  with l show ?thesis by blast
qed

lemma bcwrite_pass_send:
  assumes "buf_has (bw_sb c) (h @ body_bytes strip pt)" "length h = 4" "bcwrite_pass wfunc c = Some c'"
  shows "(bw_status c', bw_wdata c') = bc_send wfunc (chunk_bytes strip pt) (bw_status c, bw_wdata c)"
proof -
  have "take (length (body_bytes strip pt)) (drop 4 (sb_mem (bw_sb c))) = body_bytes strip pt"
    using assms(1,2) unfolding buf_has_def by (metis add_diff_cancel_left' append_eq_conv_conj drop_take length_append)
  then show ?thesis using assms
    by (auto simp: bcwrite_pass_def bc_send_def buf_has_def chunk_bytes_def Let_def bcwrite_uint32_def split: if_splits prod.splits)
qed

lemma bcwrite_proto_send:
  "bcwrite_proto ju strip wfunc pt c = Some c' \<Longrightarrow>
     (bw_status c', bw_wdata c') = fold (bc_send wfunc) (map (chunk_bytes strip) (proto_order pt)) (bw_status c, bw_wdata c)"
  "bcwrite_children ju strip wfunc ks c = Some c' \<Longrightarrow>
     (bw_status c', bw_wdata c') = fold (bc_send wfunc) (map (chunk_bytes strip) (kgcs_order ks)) (bw_status c, bw_wdata c)"
  "bcwrite_child ju strip wfunc k c = Some c' \<Longrightarrow>
     (bw_status c', bw_wdata c') = fold (bc_send wfunc) (map (chunk_bytes strip) (kgc_order k)) (bw_status c, bw_wdata c)"
proof (induction pt and ks and k arbitrary: c c' and c c' and c c' rule: proto_order_kgcs_order_kgc_order.induct)
  case (1 fl np fs uv ks kn bc dbg)
  let ?pt = "UProto fl np fs uv ks kn bc dbg"
  obtain c1 sb where s: "(if fl AND PROTO_CHILD \<noteq> 0 then bcwrite_children ju strip wfunc ks c else Some c) = Some c1"
    "bcwrite_own ju strip ?pt (bw_sb c1) = Some sb" "bcwrite_pass wfunc (c1\<lparr>bw_sb := sb\<rparr>) = Some c'"
    using "1.prems" by (auto split: bind_splits)
  obtain h where h: "length h = 4" "buf_has sb (h @ body_bytes strip ?pt)" using buf_has_own [OF s(2)] by blast
  then have "(bw_status c', bw_wdata c') = bc_send wfunc (chunk_bytes strip ?pt) (bw_status c1, bw_wdata c1)"
    using bcwrite_pass_send [OF _ h(1) s(3)] by simp
  then show ?case using s(1) "1.IH" [of c c1] by (auto split: if_splits)
next
  case (3 k ks)
  then obtain c1 where "bcwrite_children ju strip wfunc ks c = Some c1" "bcwrite_child ju strip wfunc k c1 = Some c'" by (auto split: bind_splits)
  with "3.IH" show ?case by auto
qed auto

text \<open>A writer that does not fault passes the dump to the callback, header first.\<close>

lemma kp_bcwrite_sends:
  assumes "kp_bcwrite ju pt name wfunc d strip = Some r"
  shows "r = fold (bc_send wfunc) (header_bytes strip name # map (chunk_bytes strip) (proto_order pt) @ [[0]]) (0, d)"
proof -
  obtain c1 c2 where s: "bcwrite_header ju strip wfunc name \<lparr>bw_sb = kp_buf_need ju (kp_buf_init ju) 1024, bw_status = 0, bw_wdata = d\<rparr> = Some c1"
    "bcwrite_proto ju strip wfunc pt c1 = Some c2" "r = (bw_status (bcwrite_footer wfunc c2), bw_wdata (bcwrite_footer wfunc c2))"
    using assms by (auto simp: kp_bcwrite_def Let_def split: bind_splits)
  have h: "(bw_status c1, bw_wdata c1) = bc_send wfunc (header_bytes strip name) (0, d)"
    using s(1) by (auto simp: bcwrite_header_def Let_def buf_put_def kp_buf_str_def bc_send_def split: bind_splits if_splits prod.splits)
  have "r = bc_send wfunc [0] (bw_status c2, bw_wdata c2)"
    using s(3) by (simp add: bc_send_def bcwrite_footer_def Let_def split: prod.splits)
  then show ?thesis using bcwrite_proto_send(1) [OF s(2)] h by simp
qed

lemma kp_bcwrite_append:
  assumes "kp_bcwrite ju pt name write_append [] strip = Some r"
  shows "r = (0, bc_dump strip name pt)"
proof -
  have "fold (bc_send write_append) cs (0, d) = (0, d @ concat cs)" for cs d
    by (induction cs arbitrary: d) (simp_all add: bc_send_def write_append_def)
  then show ?thesis using kp_bcwrite_sends [OF assms] by (simp add: bc_dump_def del: fold.simps)
qed


section \<open>Chunks that fit the first block\<close>

text \<open>
  The block starts with 1024 bytes.  A chunk that stays below, with the spare room the writer asks for, is written
  without moving the block.
\<close>

definition chunk_fits :: "bool \<Rightarrow> uproto \<Rightarrow> bool" where
  "chunk_fits strip pt \<longleftrightarrow>
     length (proto_head strip pt) + length (kgc_bytes (up_kgc pt)) + 10 * length (up_knum pt) + length (dbg_info strip pt) + 23 \<le> 1024"

definition wr_room :: "sbuf \<Rightarrow> u8 list \<Rightarrow> bool" where
  "wr_room sb xs \<longleftrightarrow> buf_has sb xs \<and> 1024 \<le> length (sb_mem sb)"

lemma wr_room_more: "wr_room sb xs \<Longrightarrow> int (length xs) + n \<le> 1024 \<Longrightarrow> kp_buf_more ju sb n = Some sb"
  by (auto simp: wr_room_def buf_has_def kp_buf_more_def)

lemma wr_room_put:
  assumes "wr_room sb xs" "length xs + length b \<le> 1024"
  shows "\<exists>sb'. buf_put b sb = Some sb' \<and> wr_room sb' (xs @ b)"
  using assms by (auto simp: wr_room_def buf_has_def buf_put_def min_def)

lemma wr_room_write:
  assumes "wr_room sb xs" "length xs + n \<le> 1024" "length xs + length b \<le> 1024"
  shows "\<exists>sb'. buf_write ju n b sb = Some sb' \<and> wr_room sb' (xs @ b)"
  using wr_room_put [OF assms(1,3)] wr_room_more [OF assms(1), of "int n"] assms(2) by (simp add: buf_write_def c_int_small)

lemma wr_room_loop:
  assumes "\<And>x xs sb. wr_room sb xs \<Longrightarrow> length xs + length (b x) + 7 \<le> 1024 \<Longrightarrow> \<exists>sb'. f x sb = Some sb' \<and> wr_room sb' (xs @ b x)"
  shows "wr_room sb xs \<Longrightarrow> length xs + length (concat (map b ys)) + 7 \<le> 1024 \<Longrightarrow>
    \<exists>sb'. bcwrite_loop f ys sb = Some sb' \<and> wr_room sb' (xs @ concat (map b ys))"
proof (induction ys arbitrary: sb xs)
  case (Cons y ys)
  obtain sb1 where s: "f y sb = Some sb1" "wr_room sb1 (xs @ b y)" using assms [OF Cons.prems(1), of y] Cons.prems(2) by auto
  then show ?case using Cons.IH [OF s(2)] Cons.prems(2) by auto
qed simp

lemma wr_room_ktabk:
  assumes "wr_room sb xs" "length xs + length (ktabk_bytes v) + 7 \<le> 1024"
  shows "\<exists>sb'. bcwrite_ktabk ju v sb = Some sb' \<and> wr_room sb' (xs @ ktabk_bytes v)"
proof -
  have "4 \<le> length (ktabk_bytes v)" by (auto simp: ktabk_bytes_def bcwrite_uint32_def split: tval.split)
  then have m: "kp_buf_more ju sb 11 = Some sb" using wr_room_more [OF assms(1), of 11] assms(2) by auto
  show ?thesis
  proof (cases v)
    case (TStr s)
    then show ?thesis using m assms wr_room_write [OF assms(1), of "5 + length s" "ktabk_bytes v" ju]
      by (simp add: bcwrite_ktabk_def ktabk_bytes_def bcwrite_uint32_def)
  qed (use m assms wr_room_put [OF assms(1), of "ktabk_bytes v"] in \<open>simp_all add: bcwrite_ktabk_def ktabk_bytes_def\<close>)
qed

lemma wr_room_ktab:
  assumes "wr_room sb xs" "length xs + length (ktab_bytes t) + 7 \<le> 1024"
  shows "\<exists>sb'. bcwrite_ktab ju t sb = Some sb' \<and> wr_room sb' (xs @ ktab_bytes t)"
proof -
  let ?h = "bcwrite_uint32 (of_nat (ktab_narray t)) @ bcwrite_uint32 (of_nat (length (ktab_hash t)))"
  let ?f = "\<lambda>n sb. Option.bind (bcwrite_ktabk ju (fst n) sb) (bcwrite_ktabk ju (snd n))" and ?b = "\<lambda>n. ktabk_bytes (fst n) @ ktabk_bytes (snd n)"
  have f: "\<exists>s'. ?f n s = Some s' \<and> wr_room s' (ys @ ?b n)" if r: "wr_room s ys" "length ys + length (?b n) + 7 \<le> 1024" for n ys s
  proof -
    obtain s1 where "bcwrite_ktabk ju (fst n) s = Some s1" "wr_room s1 (ys @ ktabk_bytes (fst n))"
      using wr_room_ktabk [OF r(1), of "fst n" ju] r(2) by auto
    then show ?thesis using wr_room_ktabk [of s1 "ys @ ktabk_bytes (fst n)" "snd n" ju] r(2) by auto
  qed
  obtain sb1 where 1: "buf_put ?h sb = Some sb1" "wr_room sb1 (xs @ ?h)"
    using wr_room_put [OF assms(1), of ?h] assms(2) by (auto simp: ktab_bytes_def)
  obtain sb2 where 2: "bcwrite_loop (bcwrite_ktabk ju) (take (ktab_narray t) (ut_array t)) sb1 = Some sb2"
    "wr_room sb2 ((xs @ ?h) @ concat (map ktabk_bytes (take (ktab_narray t) (ut_array t))))"
    using wr_room_loop [of ktabk_bytes "bcwrite_ktabk ju", OF wr_room_ktabk 1(2), of "take (ktab_narray t) (ut_array t)"] assms(2) by (auto simp: ktab_bytes_def)
  obtain sb3 where 3: "bcwrite_loop ?f (rev (ktab_hash t)) sb2 = Some sb3"
    "wr_room sb3 (((xs @ ?h) @ concat (map ktabk_bytes (take (ktab_narray t) (ut_array t)))) @ concat (map ?b (rev (ktab_hash t))))"
    using wr_room_loop [of ?b ?f, OF f 2(2), of "rev (ktab_hash t)"] assms(2) by (auto simp: ktab_bytes_def)
  show ?thesis using 1(1) 2(1) 3 by (simp add: bcwrite_ktab_def ktab_bytes_def)
qed

lemma wr_room_kgc1:
  assumes "wr_room sb xs" "length xs + length (kgc1_bytes k) + 7 \<le> 1024"
  shows "\<exists>sb'. bcwrite_kgc1 ju k sb = Some sb' \<and> wr_room sb' (xs @ kgc1_bytes k)"
proof (cases k)
  case (KgcTab t)
  obtain sb1 where 1: "buf_write ju 11 (bcwrite_uint32 BCDUMP_KGC_TAB) sb = Some sb1" "wr_room sb1 (xs @ bcwrite_uint32 BCDUMP_KGC_TAB)"
    using wr_room_write [OF assms(1), of 11 "bcwrite_uint32 BCDUMP_KGC_TAB" ju] assms(2) KgcTab by (auto simp: kgc1_bytes_def bcwrite_uint32_def)
  then show ?thesis using wr_room_ktab [OF 1(2), of t ju] assms(2) KgcTab by (auto simp: bcwrite_kgc1_def kgc1_bytes_def)
qed (use assms wr_room_write [OF assms(1)] in \<open>simp_all add: bcwrite_kgc1_def kgc1_bytes_def bcwrite_uint32_def\<close>)

lemma wr_room_kgc:
  "wr_room sb xs \<Longrightarrow> length xs + length (kgc_bytes ks) + 7 \<le> 1024 \<Longrightarrow>
    \<exists>sb'. bcwrite_kgc ju ks sb = Some sb' \<and> wr_room sb' (xs @ kgc_bytes ks)"
  unfolding bcwrite_kgc_def kgc_bytes_def by (rule wr_room_loop [OF wr_room_kgc1])

lemma length_knum_bytes: "length (knum_bytes ns) \<le> 8 * length ns"
  by (induction ns) (auto simp: knum_bytes_def split: tval.split)

lemma length_proto_head: "16 + 4 * length (up_bc pt) + 2 * length (up_uv pt) \<le> length (proto_head strip pt)"
proof -
  have "length (concat (map le32 bc)) = 4 * length bc" for bc by (induction bc) auto
  moreover have "length (concat (map le16 uv)) = 2 * length uv" for uv by (induction uv) auto
  ultimately show ?thesis by (simp add: proto_head_def bcwrite_uint32_def bcwrite_bytecode_def split: option.split)
qed

lemma bcwrite_own_fits:
  assumes "chunk_fits strip pt" "1024 \<le> length (sb_mem sb)"
  shows "\<exists>sb'. bcwrite_own ju strip pt sb = Some sb' \<and> 1024 \<le> length (sb_mem sb')"
proof -
  let ?n = "5 + 4 + 6 * 5 + length (up_bc pt) * 4 + length (up_uv pt) * 2" and ?d = "dbg_info strip pt"
  note len = assms(1) [unfolded chunk_fits_def] length_proto_head [of pt strip] length_knum_bytes [of "up_knum pt"]
  have need: "kp_buf_need ju sb (c_int ?n) = sb" using len assms(2) by (simp add: kp_buf_need_def c_int_small)
  let ?h = "take 4 (sb_mem sb)" and ?b = "proto_head strip pt"
  have h: "wr_room (sb\<lparr>sb_p := Some 4\<rparr>) ?h" "length ?h = 4" using assms(2) by (simp_all add: wr_room_def buf_has_def)
  then obtain sb1 where 1: "buf_put ?b (sb\<lparr>sb_p := Some 4\<rparr>) = Some sb1" "wr_room sb1 (?h @ ?b)"
    using wr_room_put [OF h(1), of ?b] len by auto
  then obtain sb2 where 2: "bcwrite_kgc ju (up_kgc pt) sb1 = Some sb2" "wr_room sb2 ((?h @ ?b) @ kgc_bytes (up_kgc pt))"
    using wr_room_kgc [OF 1(2), of "up_kgc pt" ju] len h(2) by auto
  then obtain sb3 where 3: "bcwrite_knum ju (up_knum pt) sb2 = Some sb3"
    "wr_room sb3 (((?h @ ?b) @ kgc_bytes (up_kgc pt)) @ knum_bytes (up_knum pt))"
    using wr_room_write [OF 2(2), of "10 * length (up_knum pt)" "knum_bytes (up_knum pt)" ju] len h(2)
    by (auto simp: bcwrite_knum_def)
  show ?thesis using 1(1) 2(1) 3 len h(2) wr_room_write [OF 3(2), of "length ?d" ?d ju] unfolding bcwrite_own_def Let_def need
    by (auto simp: wr_room_def)
qed

lemma bcwrite_proto_fits:
  "list_all (chunk_fits strip) (proto_order pt) \<Longrightarrow> 1024 \<le> length (sb_mem (bw_sb c)) \<Longrightarrow>
     \<exists>c'. bcwrite_proto ju strip wfunc pt c = Some c' \<and> 1024 \<le> length (sb_mem (bw_sb c'))"
  "list_all (chunk_fits strip) (kgcs_order ks) \<Longrightarrow> 1024 \<le> length (sb_mem (bw_sb c)) \<Longrightarrow>
     \<exists>c'. bcwrite_children ju strip wfunc ks c = Some c' \<and> 1024 \<le> length (sb_mem (bw_sb c'))"
  "list_all (chunk_fits strip) (kgc_order k) \<Longrightarrow> 1024 \<le> length (sb_mem (bw_sb c)) \<Longrightarrow>
     \<exists>c'. bcwrite_child ju strip wfunc k c = Some c' \<and> 1024 \<le> length (sb_mem (bw_sb c'))"
proof (induction pt and ks and k arbitrary: c and c and c rule: proto_order_kgcs_order_kgc_order.induct)
  case (1 fl np fs uv ks kn bc dbg)
  let ?pt = "UProto fl np fs uv ks kn bc dbg"
  obtain c1 where 1: "(if fl AND PROTO_CHILD \<noteq> 0 then bcwrite_children ju strip wfunc ks c else Some c) = Some c1"
    "1024 \<le> length (sb_mem (bw_sb c1))" using "1.IH" [of c] "1.prems" by (cases "fl AND PROTO_CHILD = 0") auto
  obtain sb where 2: "bcwrite_own ju strip ?pt (bw_sb c1) = Some sb" "1024 \<le> length (sb_mem sb)"
    using bcwrite_own_fits [of strip ?pt "bw_sb c1" ju, OF _ 1(2)] "1.prems"(1) by auto
  obtain h where "buf_has sb (h @ body_bytes strip ?pt)" using buf_has_own [OF 2(1)] by blast
  then show ?case using 1 2
    by (auto simp: bcwrite_pass_def buf_has_def bcwrite_uint32_def split: prod.split)
next
  case (3 k ks)
  then obtain c1 where "bcwrite_children ju strip wfunc ks c = Some c1" "1024 \<le> length (sb_mem (bw_sb c1))" by force
  with 3 show ?case by simp
qed auto

lemma kp_bcwrite_fits:
  assumes "list_all (chunk_fits strip) (proto_order pt)" "strip \<or> length name < 2 ^ 31 - 10"
  shows "kp_bcwrite ju pt name wfunc d strip \<noteq> None"
proof -
  let ?sb = "kp_buf_need ju (kp_buf_init ju) 1024" and ?n = "c_int (5 + 5 + length name)"
  have m: "length (sb_mem ?sb) = 1024" by (simp add: kp_buf_need_def kp_buf_init_def realloc_bytes_def)
  have l: "length (sb_mem (kp_buf_need ju ?sb ?n)) = (if ?n > 1024 then nat ?n else 1024)"
    using m by (auto simp: kp_buf_need_def realloc_bytes_def)
  have h: "length (header_bytes strip name) \<le> length (sb_mem (kp_buf_need ju ?sb ?n))"
    using l assms(2) by (auto simp: header_bytes_def bcwrite_uint32_def c_int_small)
  have l2: "1024 \<le> length (sb_mem (kp_buf_need ju ?sb ?n))" using l by auto
  obtain st d' where w: "wfunc (header_bytes strip name) d = (st, d')" by fastforce
  obtain c where c: "bcwrite_header ju strip wfunc name \<lparr>bw_sb = ?sb, bw_status = 0, bw_wdata = d\<rparr> = Some c"
    "1024 \<le> length (sb_mem (bw_sb c))"
    using h l2 w by (auto simp: bcwrite_header_def Let_def buf_put_def kp_buf_str_def)
  then show ?thesis using bcwrite_proto_fits(1) [OF assms(1) c(2), of ju wfunc] by (auto simp: kp_bcwrite_def Let_def)
qed

text \<open>
  Asking for room once doubles the bytes written so far, whatever was asked for.  A prototype with 72 number
  constants or more, each loaded by one instruction in front of the return, is written behind the end of the block.
\<close>

theorem bcwrite_knum_overflows:
  assumes "72 \<le> length kn" "length kn \<le> 65536" "length bc = length kn + 1" "\<forall>v\<in>set kn. \<exists>n. v = TNum n" "length name \<le> 1000"
  shows "kp_bcwrite ju (UProto fl np fs [] [] kn bc dbg) name wfunc d strip = None"
proof -
  let ?pt = "UProto fl np fs [] [] kn bc dbg" and ?sb = "kp_buf_need ju (kp_buf_init ju) 1024" and ?n = "c_int (5 + 5 + length name)"
  have l: "length (sb_mem (kp_buf_need ju ?sb ?n)) = 1024"
    using assms(5) by (simp add: kp_buf_need_def kp_buf_init_def realloc_bytes_def c_int_small)
  have hl: "length (header_bytes strip name) \<le> 1024" using assms(5) by (simp add: header_bytes_def bcwrite_uint32_def)
  obtain st d' where w: "wfunc (header_bytes strip name) d = (st, d')" by fastforce
  obtain c where c: "bcwrite_header ju strip wfunc name \<lparr>bw_sb = ?sb, bw_status = 0, bw_wdata = d\<rparr> = Some c"
    "length (sb_mem (bw_sb c)) = 1024"
    using hl l w by (auto simp: bcwrite_header_def Let_def buf_put_def kp_buf_str_def)
  have kl: "length (knum_bytes kn) = 8 * length kn" using assms(4) by (induction kn) (auto simp: knum_bytes_def)
  have bl: "length (concat (map le32 xs)) = 4 * length xs" for xs by (induction xs) auto
  define p where "p = 4 + length (proto_head strip ?pt)"
  have p: "24 + 4 * length kn \<le> p" "p \<le> 36 + 4 * length kn"
    using assms(3) bl by (auto simp: p_def proto_head_def bcwrite_uint32_def bcwrite_bytecode_def split: option.split)
  let ?sb0 = "kp_buf_need ju (bw_sb c) (c_int (43 + 4 * length kn))"
  have m: "length (sb_mem ?sb0) = max 1024 (43 + 4 * length kn)"
    using c(2) assms(2) by (auto simp: kp_buf_need_def realloc_bytes_def c_int_small)
  have put: "p \<le> length (sb_mem sb1) \<and> sb_p sb1 = Some p \<and> length (sb_mem sb1) = max 1024 (43 + 4 * length kn)"
    if "buf_put (proto_head strip ?pt) (?sb0\<lparr>sb_p := Some 4\<rparr>) = Some sb1" for sb1
    using that m by (auto simp: buf_put_def p_def split: if_splits)
  have none: "bcwrite_knum ju kn sb1 = None" if "sb_p sb1 = Some p" "length (sb_mem sb1) = max 1024 (43 + 4 * length kn)" "p \<le> length (sb_mem sb1)" for sb1
  proof -
    have more: "kp_buf_more ju sb1 (c_int (10 * length kn)) = Some (sb1\<lparr>sb_mem := realloc_bytes ju (p * 2) (sb_mem sb1)\<rparr>)"
      using that assms(1,2) p by (simp add: kp_buf_more_def c_int_small)
    then show ?thesis using that kl p assms(1)
      by (simp add: bcwrite_knum_def buf_write_def buf_put_def realloc_bytes_def)
  qed
  have sz: "5 + 4 + 6 * 5 + length (up_bc ?pt) * 4 + length (up_uv ?pt) * 2 = 43 + 4 * length kn" using assms(3) by simp
  have "bcwrite_own ju strip ?pt (bw_sb c) = None"
    unfolding bcwrite_own_def Let_def sz using none put by (auto simp: bcwrite_kgc_def split: bind_splits option.splits)
  then show ?thesis using c(1) by (simp add: kp_bcwrite_def)
qed

theorem bcwrite_knum_overflows_witness:
  "kp_bcwrite (\<lambda>_. 0) (UProto 0 0 1 [] [] (map (\<lambda>i. TNum (of_nat i)) [0..<72]) (replicate 73 0x44) None) [109] write_append [] False = None"
  by (rule bcwrite_knum_overflows) (auto simp: image_iff)

end
