(* ===== verification/Ktap_BcRead.thy ===== *)
theory Ktap_BcRead
  imports Ktap_BcWrite Ktap_Tab_Map
begin

text \<open>
  The bytecode loader of the kernel module (\<^verbatim>\<open>runtime/kp_bcread.c\<close>).  The context holds the bytes
  that remain between \<^verbatim>\<open>p\<close> and \<^verbatim>\<open>pe\<close> and the prototypes pushed on the thread's stack above the saved
  top.  A read beyond the end of the buffer (\<^verbatim>\<open>kp_assert\<close> is empty in this build), a block of a size
  that is negative or wraps around, a push beyond the last stack slot and a write through a null
  pointer are the fault \<open>None\<close>; an error that the code reports is a value.
\<close>

section \<open>Loaded prototypes\<close>

datatype lkgc = LStr addr | LTab ktap_tab | LChild lproto
  and lproto = LProto (lp_flags: u8) (lp_numparams: u8) (lp_framesize: u8) (lp_bc: "u32 list") (lp_uv: "u16 list")
    (lp_kgc: "lkgc list") (lp_knum: "ktap_val list") (lp_chunkname: addr) (lp_firstline: u32) (lp_numline: u32)
    (lp_dbg: "(u8 list \<times> u8 list \<times> u8 list) option") (lp_sizept: u32)

text \<open>
  The debug information is the line table, what follows it (\<^verbatim>\<open>uvinfo\<close>) and the variable information
  (\<^verbatim>\<open>varinfo\<close>), each up to the end of the block.
\<close>

record bcread_ctx =
  rd_flags :: u32
  rd_p :: "u8 list"
  rd_chunkname :: addr
  rd_stk :: "lproto list"
  rd_g :: ktap_global

text \<open>
  What the loader takes from outside: the bytes around the characters of a string at a position of
  the buffer, the memory for objects (\<^verbatim>\<open>kp_obj_new\<close>), the uninitialised local values of \<^verbatim>\<open>bcread_ktab\<close>,
  and the number of stack slots above the saved top.
\<close>

record bcread_env =
  be_arg :: "nat \<Rightarrow> str_arg"
  be_obj :: "u32 \<Rightarrow> bool"
  be_junk :: ktap_val
  be_room :: nat
  be_tabmem :: tab_mem
  be_tabenv :: tab_env


section \<open>Input buffer\<close>

definition bcread_swap :: "bcread_ctx \<Rightarrow> bool" where
  "bcread_swap c \<longleftrightarrow> rd_flags c AND ucast BCDUMP_F_BE \<noteq> 0"

definition bswap :: "u32 \<Rightarrow> u32" where "bswap x = de32 (rev (le32 x))"

definition bswap16 :: "u16 \<Rightarrow> u16" where "bswap16 x = drop_bit 8 x OR push_bit 8 x"

definition bcread_error :: "string \<Rightarrow> bcread_ctx \<Rightarrow> bcread_ctx" where
  "bcread_error em c = c\<lparr>rd_g := kp_error em (rd_g c)\<rparr>"

definition KP_ERR_BCFMT :: string where "KP_ERR_BCFMT = ''cannot load incompatible bytecode''"
definition KP_ERR_BCBAD :: string where "KP_ERR_BCBAD = ''cannot load malformed bytecode''"

text \<open>The length is a signed 32-bit integer.\<close>

definition bcread_mem :: "u32 \<Rightarrow> bcread_ctx \<Rightarrow> (u8 list \<times> bcread_ctx) option" where
  "bcread_mem len c =
     (if 0 \<le> sint len \<and> unat len \<le> length (rd_p c)
      then Some (take (unat len) (rd_p c), c\<lparr>rd_p := drop (unat len) (rd_p c)\<rparr>)
      else None)"

definition bcread_byte :: "bcread_ctx \<Rightarrow> (u8 \<times> bcread_ctx) option" where
  "bcread_byte c = (case rd_p c of [] \<Rightarrow> None | b # bs \<Rightarrow> Some (b, c\<lparr>rd_p := bs\<rparr>))"

definition bcread_uint32 :: "bcread_ctx \<Rightarrow> (u32 \<times> bcread_ctx) option" where
  "bcread_uint32 c = do { (b, c) \<leftarrow> bcread_mem 4 c; Some (de32 b, c) }"

text \<open>A string of \<open>len\<close> characters at the current position, interned; address 0 is \<^verbatim>\<open>NULL\<close>.\<close>

definition bcread_str :: "bcread_env \<Rightarrow> u32 \<Rightarrow> bcread_ctx \<Rightarrow> (addr \<times> bcread_ctx) option" where
  "bcread_str e len c =
     do {
       (b, c1) \<leftarrow> bcread_mem len c;
       (s, g) \<leftarrow> kp_str_new (rd_g c1) ((be_arg e (length (rd_p c)))\<lparr>sa_bytes := b\<rparr>);
       Some (s, c1\<lparr>rd_g := g\<rparr>)
     }"


section \<open>Constants\<close>

text \<open>
  The constants of the two enumerations are signed: a type code with the top bit set is below
  \<^verbatim>\<open>BCDUMP_KTAB_STR\<close>.  The result \<open>None\<close> of the pair is a non-zero return value.
\<close>

definition bcread_ktabk :: "bcread_env \<Rightarrow> ktap_val \<Rightarrow> bcread_ctx \<Rightarrow> (ktap_val option \<times> bcread_ctx) option" where
  "bcread_ktabk e o' c =
     do {
       (tp, c) \<leftarrow> bcread_uint32 c;
       if sint tp \<ge> sint BCDUMP_KTAB_STR then do {
         (ts, c) \<leftarrow> bcread_str e (tp - BCDUMP_KTAB_STR) c;
         Some (if ts = 0 then None else Some (set_string ts), c)
       }
       else if tp = BCDUMP_KTAB_NUM then do {
         (b, c) \<leftarrow> bcread_mem 8 c;
         Some (Some (set_number (de64 b)), c)
       }
       else Some (Some (o'\<lparr>itype := NOT tp\<rparr>), c)
     }"

fun bcread_karray ::
    "bcread_env \<Rightarrow> nat \<Rightarrow> nat \<Rightarrow> ktap_tab \<Rightarrow> bcread_ctx \<Rightarrow> (ktap_tab option \<times> bcread_ctx) option" where
  "bcread_karray e i 0 t c = Some (Some t, c)"
| "bcread_karray e i (Suc n) t c =
     (if i < length (tarray t) then
        do {
          (v, c) \<leftarrow> bcread_ktabk e (tarray t ! i) c;
          case v of None \<Rightarrow> Some (None, c)
          | Some v \<Rightarrow> bcread_karray e (Suc i) n (t\<lparr>tarray := (tarray t)[i := v]\<rparr>) c
        }
      else None)"

fun bcread_khash ::
    "bcread_env \<Rightarrow> nat \<Rightarrow> ktap_tab \<Rightarrow> bcread_ctx \<Rightarrow> (ktap_tab option \<times> bcread_ctx) option" where
  "bcread_khash e 0 t c = Some (Some t, c)"
| "bcread_khash e (Suc n) t c =
     do {
       (key, c) \<leftarrow> bcread_ktabk e (be_junk e) c;
       case key of None \<Rightarrow> Some (None, c)
       | Some key \<Rightarrow> do {
           (v, c) \<leftarrow> bcread_ktabk e (be_junk e) c;
           case v of None \<Rightarrow> Some (None, c)
           | Some v \<Rightarrow> do {
               (t, g) \<leftarrow> kp_tab_set (be_tabenv e) (rd_g c) t key v;
               bcread_khash e n t (c\<lparr>rd_g := g\<rparr>)
             }
         }
     }"

definition bcread_ktab :: "bcread_env \<Rightarrow> bcread_ctx \<Rightarrow> (ktap_tab option \<times> bcread_ctx) option" where
  "bcread_ktab e c =
     do {
       (narray, c) \<leftarrow> bcread_uint32 c;
       (nhash, c) \<leftarrow> bcread_uint32 c;
       (t, g) \<leftarrow> kp_tab_new (be_tabmem e) (rd_g c) narray (hsize2hbits nhash);
       let c = c\<lparr>rd_g := g\<rparr> in
       case t of None \<Rightarrow> Some (None, c)
       | Some t \<Rightarrow> do {
           (t, c) \<leftarrow> bcread_karray e 0 (unat narray) t c;
           case t of None \<Rightarrow> Some (None, c) | Some t \<Rightarrow> bcread_khash e (unat nhash) t c
         }
     }"

definition bcread_kgc1 :: "bcread_env \<Rightarrow> bcread_ctx \<Rightarrow> (lkgc option \<times> bcread_ctx) option" where
  "bcread_kgc1 e c =
     do {
       (tp, c) \<leftarrow> bcread_uint32 c;
       if sint tp \<ge> sint BCDUMP_KGC_STR then do {
         (s, c) \<leftarrow> bcread_str e (tp - BCDUMP_KGC_STR) c;
         Some (if s = 0 then None else Some (LStr s), c)
       }
       else if tp = BCDUMP_KGC_TAB then do {
         (t, c) \<leftarrow> bcread_ktab e c;
         Some (map_option LTab t, c)
       }
       else if tp = BCDUMP_KGC_CHILD then
         Some (case rd_stk c of
             [] \<Rightarrow> (None, bcread_error KP_ERR_BCBAD c)
           | pt # stk \<Rightarrow> (Some (LChild pt), c\<lparr>rd_stk := stk\<rparr>))
       else Some (None, bcread_error KP_ERR_BCBAD c)
     }"

fun bcread_kgc :: "bcread_env \<Rightarrow> nat \<Rightarrow> bcread_ctx \<Rightarrow> (lkgc list option \<times> bcread_ctx) option" where
  "bcread_kgc e 0 c = Some (Some [], c)"
| "bcread_kgc e (Suc n) c =
     do {
       (k, c) \<leftarrow> bcread_kgc1 e c;
       case k of None \<Rightarrow> Some (None, c)
       | Some k \<Rightarrow> do { (ks, c) \<leftarrow> bcread_kgc e n c; Some (map_option (Cons k) ks, c) }
     }"

fun bcread_knum :: "nat \<Rightarrow> bcread_ctx \<Rightarrow> (ktap_val list \<times> bcread_ctx) option" where
  "bcread_knum 0 c = Some ([], c)"
| "bcread_knum (Suc n) c =
     do {
       (b, c) \<leftarrow> bcread_mem 8 c;
       (ns, c) \<leftarrow> bcread_knum n c;
       Some (set_number (de64 b) # ns, c)
     }"


section \<open>Prototypes\<close>

text \<open>The words of a block, four or two bytes each.\<close>

definition words32 :: "nat \<Rightarrow> u8 list \<Rightarrow> u32 list" where
  "words32 n b = map (\<lambda>i. de32 (take 4 (drop (4 * i) b))) [0..<n]"

definition words16 :: "nat \<Rightarrow> u8 list \<Rightarrow> u16 list" where
  "words16 n b = map (\<lambda>i. de16 (take 2 (drop (2 * i) b))) [0..<n]"

definition bcread_bytecode :: "u8 \<Rightarrow> u8 \<Rightarrow> u32 \<Rightarrow> bcread_ctx \<Rightarrow> (u32 list \<times> bcread_ctx) option" where
  "bcread_bytecode flags framesize sizebc c =
     do {
       (b, c) \<leftarrow> bcread_mem ((sizebc - 1) * 4) c;
       let bc = words32 (unat (sizebc - 1)) b in
       Some (BCINS_AD (of_nat (if flags AND PROTO_VARARG \<noteq> 0 then BC_FUNCV else BC_FUNCF)) (ucast framesize) 0 #
             (if bcread_swap c then map bswap bc else bc), c)
     }"

definition bcread_uv :: "u8 \<Rightarrow> bcread_ctx \<Rightarrow> (u16 list \<times> bcread_ctx) option" where
  "bcread_uv sizeuv c =
     (if sizeuv \<noteq> 0 then
        do {
          (b, c) \<leftarrow> bcread_mem (ucast sizeuv * 2) c;
          let uv = words16 (unat sizeuv) b in
          Some (if bcread_swap c then map bswap16 uv else uv, c)
        }
      else Some ([], c))"

text \<open>The line table is swapped in place: the first \<open>n\<close> entries of two or four bytes.\<close>

definition bcread_dbg :: "u32 \<Rightarrow> u32 \<Rightarrow> u32 \<Rightarrow> bcread_ctx \<Rightarrow> (u8 list \<times> bcread_ctx) option" where
  "bcread_dbg sizebc numline sizedbg c =
     do {
       (b, c) \<leftarrow> bcread_mem sizedbg c;
       let n = unat (sizebc - 1) in
       if bcread_swap c \<and> sint numline \<ge> 256 then
         (if sint numline < 65536 then
            (if 2 * n \<le> length b then Some (concat (map (\<lambda>w. le16 (bswap16 w)) (words16 n b)) @ drop (2 * n) b, c) else None)
          else
            (if 4 * n \<le> length b then Some (concat (map (\<lambda>w. le32 (bswap w)) (words32 n b)) @ drop (4 * n) b, c) else None))
       else Some (b, c)
     }"

text \<open>\<^verbatim>\<open>bcread_varinfo\<close>: skip \<open>n\<close> zero-terminated names; the end of the block is a fault.\<close>

fun skip_names :: "nat \<Rightarrow> u8 list \<Rightarrow> u8 list option" where
  "skip_names n [] = None"
| "skip_names n (b # bs) = (if b \<noteq> 0 then skip_names n bs else if n \<le> 1 then Some bs else skip_names (n - 1) bs)"

definition bcread_varinfo :: "u8 \<Rightarrow> u8 list \<Rightarrow> u8 list option" where
  "bcread_varinfo sizeuv uvinfo = (if sizeuv \<noteq> 0 then skip_names (unat sizeuv) uvinfo else Some uvinfo)"

definition lineinfo_shift :: "u32 \<Rightarrow> nat" where
  "lineinfo_shift numline = (if sint numline < 256 then 0 else if sint numline < 65536 then 1 else 2)"

text \<open>
  The layout of the block as the code computes it, in 32-bit arithmetic: the header of 96 bytes, the
  instructions, the collectable constants (8 bytes each, ending at \<open>ofsk\<close>), the numbers (16 bytes), the
  upvalue references and the debug bytes.
\<close>

definition proto_layout :: "u32 \<Rightarrow> u32 \<Rightarrow> u32 \<Rightarrow> u32 \<Rightarrow> u32 \<Rightarrow> u32 \<times> u32 \<times> u32 \<times> u32" where
  "proto_layout sizebc sizekgc sizekn sizeuv sizedbg =
     (let sizept = 96 + sizebc * 4 + sizekgc * 8;
          ofsk = (sizept + 15) AND NOT 15;
          ofsuv = ofsk + sizekn * 16;
          ofsdbg = ofsuv + ((sizeuv + 1) AND NOT 1) * 2
      in (ofsk, ofsuv, ofsdbg, ofsdbg + sizedbg))"

text \<open>
  The offsets the sizes ask for.  When the true size of the block does not fit a positive integer
  the arrays overlap or leave the block: the loader's writes are the fault \<open>None\<close>.
\<close>

abbreviation (input) sizeof_ktap_proto :: nat where "sizeof_ktap_proto \<equiv> 96"

definition ofs_k :: "nat \<Rightarrow> nat \<Rightarrow> nat" where
  "ofs_k sizebc sizekgc = (sizeof_ktap_proto + sizebc * 4 + sizekgc * 8 + 15) div 16 * 16"

definition ofs_uv :: "nat \<Rightarrow> nat \<Rightarrow> nat \<Rightarrow> nat" where
  "ofs_uv sizebc sizekgc sizekn = ofs_k sizebc sizekgc + sizekn * 16"

definition ofs_dbg :: "nat \<Rightarrow> nat \<Rightarrow> nat \<Rightarrow> nat \<Rightarrow> nat" where
  "ofs_dbg sizebc sizekgc sizekn sizeuv = ofs_uv sizebc sizekgc sizekn + (sizeuv + 1) div 2 * 2 * 2"

definition size_pt :: "nat \<Rightarrow> nat \<Rightarrow> nat \<Rightarrow> nat \<Rightarrow> nat \<Rightarrow> nat" where
  "size_pt sizebc sizekgc sizekn sizeuv sizedbg = ofs_dbg sizebc sizekgc sizekn sizeuv + sizedbg"

definition bcread_proto :: "bcread_env \<Rightarrow> bcread_ctx \<Rightarrow> (lproto option \<times> bcread_ctx) option" where
  "bcread_proto e c =
     do {
       (flags, c) \<leftarrow> bcread_byte c;
       (numparams, c) \<leftarrow> bcread_byte c;
       (framesize, c) \<leftarrow> bcread_byte c;
       (sizeuv, c) \<leftarrow> bcread_byte c;
       (sizekgc, c) \<leftarrow> bcread_uint32 c;
       (sizekn, c) \<leftarrow> bcread_uint32 c;
       (nbc, c) \<leftarrow> bcread_uint32 c;
       let sizebc = nbc + 1 in
       do {
         (sizedbg, firstline, numline, c) \<leftarrow>
           (if rd_flags c AND ucast BCDUMP_F_STRIP = 0 then
              do {
                (sizedbg, c) \<leftarrow> bcread_uint32 c;
                if sizedbg \<noteq> 0 then do {
                  (firstline, c) \<leftarrow> bcread_uint32 c;
                  (numline, c) \<leftarrow> bcread_uint32 c;
                  Some (sizedbg, firstline, numline, c)
                }
                else Some (0, 0, 0, c)
              }
            else Some (0, 0, 0, c));
         let sz = size_pt (unat sizebc) (unat sizekgc) (unat sizekn) (unat sizeuv) (unat sizedbg) in
         if sizebc = 0 \<or> sz \<ge> 2 ^ 31 \<or> \<not> be_obj e (of_nat sz) then None
         else do {
           (bc, c) \<leftarrow> bcread_bytecode flags framesize sizebc c;
           (uv, c) \<leftarrow> bcread_uv sizeuv c;
           (kgc, c) \<leftarrow> bcread_kgc e (unat sizekgc) c;
           case kgc of None \<Rightarrow> Some (None, c)
           | Some kgc \<Rightarrow> do {
               (knum, c) \<leftarrow> bcread_knum (unat sizekn) c;
               (dbg, c) \<leftarrow>
                 (if sizedbg \<noteq> 0 then do {
                    (li, c) \<leftarrow> bcread_dbg sizebc numline sizedbg c;
                    let uvinfo = drop (push_bit (lineinfo_shift numline) (unat (sizebc - 1))) li in
                    do { varinfo \<leftarrow> bcread_varinfo sizeuv uvinfo; Some (Some (li, uvinfo, varinfo), c) }
                  }
                  else Some (None, c));
               Some (Some (LProto flags numparams framesize bc uv kgc knum (rd_chunkname c) firstline numline
                             dbg (snd (snd (snd (proto_layout sizebc sizekgc sizekn (ucast sizeuv) sizedbg))))), c)
             }
         }
       }
     }"


section \<open>The dump\<close>

text \<open>The bytes of \<^verbatim>\<open>"striped"\<close>.\<close>

definition striped :: "u8 list" where "striped = [115, 116, 114, 105, 112, 101, 100]"

text \<open>The conditions of the header are evaluated from left to right and stop at the first mismatch.\<close>

fun match_bytes :: "u8 list \<Rightarrow> bcread_ctx \<Rightarrow> (bool \<times> bcread_ctx) option" where
  "match_bytes [] c = Some (True, c)"
| "match_bytes (x # xs) c = do { (b, c) \<leftarrow> bcread_byte c; if b \<noteq> x then Some (False, c) else match_bytes xs c }"

definition bcread_header :: "bcread_env \<Rightarrow> bcread_ctx \<Rightarrow> (bool \<times> bcread_ctx) option" where
  "bcread_header e c =
     do {
       (ok, c) \<leftarrow> match_bytes [BCDUMP_HEAD1, BCDUMP_HEAD2, BCDUMP_HEAD3, BCDUMP_VERSION] c;
       if \<not> ok then Some (False, c)
       else do {
         (fl, c) \<leftarrow> bcread_byte c;
         let flags = ucast fl :: u32; c = c\<lparr>rd_flags := flags\<rparr> in
         if flags AND NOT 7 \<noteq> 0 then Some (False, c)
         else if flags AND ucast BCDUMP_F_FFI \<noteq> 0 then Some (False, c)
         else do {
           (name, c) \<leftarrow>
             (if flags AND ucast BCDUMP_F_STRIP \<noteq> 0 then
                do {
                  (s, g) \<leftarrow> kp_str_new (rd_g c) ((be_arg e 0)\<lparr>sa_bytes := striped\<rparr>);
                  Some (s, c\<lparr>rd_g := g\<rparr>)
                }
              else do { (len, c) \<leftarrow> bcread_uint32 c; bcread_str e len c });
           Some (name \<noteq> 0, c\<lparr>rd_chunkname := name\<rparr>)
         }
       }
     }"

text \<open>
  The loop over the prototypes.  The outer \<open>None\<close> says that \<open>fuel\<close> rounds were not enough, the inner one is a
  fault; \<open>True\<close> when the loop ends by \<^verbatim>\<open>break\<close>, \<open>False\<close> when it returns \<^verbatim>\<open>NULL\<close>.
\<close>

fun bcread_loop :: "bcread_env \<Rightarrow> nat \<Rightarrow> bcread_ctx \<Rightarrow> (bool \<times> bcread_ctx) option option" where
  "bcread_loop e 0 c = None"
| "bcread_loop e (Suc fuel) c =
     (if rd_p c \<noteq> [] \<and> hd (rd_p c) = 0 then Some (Some (True, c\<lparr>rd_p := tl (rd_p c)\<rparr>))
      else case bcread_uint32 c of None \<Rightarrow> Some None
      | Some (len, c) \<Rightarrow>
          if len = 0 then Some (Some (True, c))
          else case bcread_proto e c of None \<Rightarrow> Some None
          | Some (None, c1) \<Rightarrow> Some (Some (False, c1))
          | Some (Some pt, c1) \<Rightarrow>
              if int (length (rd_p c)) - int (length (rd_p c1)) \<noteq> sint len
              then Some (Some (False, bcread_error KP_ERR_BCBAD c1))
              else if length (rd_stk c1) < be_room e then bcread_loop e fuel (c1\<lparr>rd_stk := pt # rd_stk c1\<rparr>)
              else Some None)"

text \<open>
  One round per byte that is left and one more are enough for the loop, as \<open>Ktap_BcTrip\<close> shows: the outer \<open>None\<close> does not
  occur here.
\<close>

definition kp_bcread ::
    "bcread_env \<Rightarrow> ktap_global \<Rightarrow> u8 list \<Rightarrow> (lproto option \<times> ktap_global) option" where
  "kp_bcread e g buff =
     (let c = \<lparr>rd_flags = 0, rd_p = buff, rd_chunkname = 0, rd_stk = [], rd_g = g\<rparr> in
      do {
        (ok, c) \<leftarrow> bcread_header e c;
        if \<not> ok then Some (None, rd_g (bcread_error KP_ERR_BCFMT c))
        else do {
          r \<leftarrow> bcread_loop e (Suc (length (rd_p c))) c;
          (ok, c) \<leftarrow> r;
          if \<not> ok then Some (None, rd_g c)
          else
            (case rd_stk c of
               [pt] \<Rightarrow>
                 if sint (2 * of_nat (length (rd_p c)) :: u32) > 0
                 then Some (None, rd_g (bcread_error KP_ERR_BCBAD c))
                 else Some (Some pt, rd_g c)
             | _ \<Rightarrow> Some (None, rd_g (bcread_error KP_ERR_BCBAD c)))
        }
      })"

end
