(* ===== verification/Ktap_BcTrip.thy ===== *)
theory Ktap_BcTrip
  imports Ktap_BcRead
begin

text \<open>
  The bytecode dump as the interface between the compiler and the kernel module: what
  \<^verbatim>\<open>userspace/kp_bcwrite.c\<close> writes, \<^verbatim>\<open>runtime/kp_bcread.c\<close> loads.  The readers are shown to invert the
  writers one by one, from words and strings through template tables and constants to chunks; the
  round trip is the induction over the tree of prototypes.  Then come the cases in which the loader
  refuses or misreads a dump, the layout of the loaded block and the termination of the loop.
\<close>

text \<open>A context with the given remaining bytes and global state.\<close>

definition rd_at :: "bcread_ctx \<Rightarrow> u8 list \<Rightarrow> ktap_global \<Rightarrow> bcread_ctx" where
  "rd_at c p g = c\<lparr>rd_p := p, rd_g := g\<rparr>"

lemma rd_at_simps [simp]:
  "rd_p (rd_at c p g) = p" "rd_g (rd_at c p g) = g" "rd_stk (rd_at c p g) = rd_stk c"
  "rd_flags (rd_at c p g) = rd_flags c" "rd_chunkname (rd_at c p g) = rd_chunkname c"
  "(rd_at c p g)\<lparr>rd_p := p'\<rparr> = rd_at c p' g" "(rd_at c p g)\<lparr>rd_g := g'\<rparr> = rd_at c p g'"
  "(rd_at c p g)\<lparr>rd_stk := s\<rparr> = rd_at (c\<lparr>rd_stk := s\<rparr>) p g"
  "(rd_at c p g)\<lparr>rd_flags := f\<rparr> = rd_at (c\<lparr>rd_flags := f\<rparr>) p g"
  "(rd_at c p g)\<lparr>rd_chunkname := n\<rparr> = rd_at (c\<lparr>rd_chunkname := n\<rparr>) p g"
  "bcread_swap (rd_at c p g) = bcread_swap c"
  by (simp_all add: rd_at_def bcread_swap_def)

lemma bcread_mem_app:
  assumes "length bs < 2 ^ 31" "len = of_nat (length bs)"
  shows "bcread_mem len (rd_at c (bs @ r) g) = Some (bs, rd_at c (r) g)"
  using assms sint_of_nat32 [of "length bs"] unat_of_nat32 [of "length bs"] by (simp add: bcread_mem_def)

lemma bcread_byte_app [simp]: "bcread_byte (rd_at c (b # r) g) = Some (b, rd_at c (r) g)"
  by (simp add: bcread_byte_def)

lemma bcread_uint32_app [simp]: "bcread_uint32 (rd_at c (le32 v @ r) g) = Some (v, rd_at c (r) g)"
  by (simp add: bcread_uint32_def bcread_mem_app [of "le32 v" 4])

lemma bcread_mem8_app [simp]: "bcread_mem 8 (rd_at c (le64 v @ r) g) = Some (le64 v, rd_at c (r) g)"
  by (simp add: bcread_mem_app [of "le64 v" 8])

lemma chunks_nth:
  assumes "\<And>x. length (f x) = k" "i < length xs"
  shows "take k (drop (k * i) (concat (map f xs))) = f (xs ! i)"
  using assms(2)
proof (induction xs arbitrary: i)
  case (Cons x xs)
  then show ?case using assms(1) by (cases i) auto
qed simp

lemma words32_le: "words32 (length ws) (concat (map le32 ws)) = ws"
  by (rule nth_equalityI) (simp_all add: words32_def chunks_nth)

lemma words16_le: "words16 (length ws) (concat (map le16 ws)) = ws"
  by (rule nth_equalityI) (simp_all add: words16_def chunks_nth)

lemma length_chunks: "(\<And>x. length (f x) = k) \<Longrightarrow> length (concat (map f xs)) = k * length xs"
  by (induction xs) auto


text \<open>Enough pool and string numbers to intern the strings of a list one after the other.\<close>

definition str_budget :: "ktap_global \<Rightarrow> u8 list list \<Rightarrow> bool" where
  "str_budget g ss \<longleftrightarrow> str_inv g \<and> mempool g + scast (mp_size g) \<noteq> 0 \<and> mp_freepos g \<noteq> 0 \<and>
     unat (mp_freepos g) + sum_list (map (\<lambda>s. 25 + length s) ss) < 2 ^ 64 \<and>
     strnum g + length ss \<le> 10000 \<and> list_all (\<lambda>s. length s < 512) ss"

lemma str_budget_step:
  assumes "str_budget g (s # ss)" "sa_bytes sa = s" "sa_ok sa"
  shows "\<exists>p g'. kp_str_new g sa = Some (p, g') \<and> p \<noteq> 0 \<and> str_budget g' ss \<and>
     str_content g' p = Some s \<and> strobjs g \<subseteq>\<^sub>m strobjs g'"
proof -
  obtain cs where cs: "str_table g cs" using assms(1) by (auto simp: str_budget_def str_inv_def)
  have len: "length (sa_bytes sa) < 512" using assms(1,2) by (simp add: str_budget_def)
  have pool: "pool_ready g (24 + length (sa_bytes sa) + 1)"
    using assms(1,2) by (simp add: pool_ready_def str_budget_def)
  have num: "\<not> strnum g > 9999" using assms(1) by (simp add: str_budget_def)
  let ?b = "str_bucket g (sa_bytes sa)" and ?n = "mp_freepos g"
  let ?s = "\<lparr>s_nextgc = strhash g ! ?b, s_reserved = 0, s_hash = kp_str_hash (sa_bytes sa),
           s_len = length (sa_bytes sa), s_chars = sa_bytes sa\<rparr>"
  let ?g = "g\<lparr>mp_freepos := ?n + of_nat (24 + length (sa_bytes sa) + 1),
                strobjs := (strobjs g)(?n \<mapsto> ?s), strhash := (strhash g)[?b := ?n], strnum := strnum g + 1\<rparr>"
  define g1 where "g1 = ?g"
  have "(\<exists>p s. p \<noteq> 0 \<and> strobjs g p = Some s \<and> s_chars s = sa_bytes sa \<and> kp_str_new g sa = Some (p, g)) \<or>
      (\<forall>p s. strobjs g p = Some s \<longrightarrow> s_chars s \<noteq> sa_bytes sa) \<and> kp_str_new g sa = Some (?n, g1)"
    using kp_str_new_cases [OF cs assms(3) len pool] unfolding Let_def if_not_P [OF num] g1_def .
  then consider (old) p s' where "p \<noteq> 0" "strobjs g p = Some s'" "s_chars s' = sa_bytes sa" "kp_str_new g sa = Some (p, g)"
    | (new) "\<forall>p s. strobjs g p = Some s \<longrightarrow> s_chars s \<noteq> sa_bytes sa" "kp_str_new g sa = Some (?n, g1)"
    by blast
  then show ?thesis
  proof cases
    case old
    then show ?thesis using assms(1,2) by (intro exI [of _ p] exI [of _ g]) (auto simp: str_budget_def str_content_def)
  next
    case new
    have inv: "str_inv g1" "?n \<noteq> 0"
      using kp_str_new_spec [of g sa] new(2) assms(1,3) len pool num
      by (auto simp: str_ready_def str_budget_def)
    have "?n + of_nat (24 + length (sa_bytes sa) + 1) \<noteq> 0"
      "unat (?n + of_nat (24 + length (sa_bytes sa) + 1)) = unat ?n + (25 + length s)"
      using pool_grows [OF pool] unat_add_of_nat [of ?n "24 + length (sa_bytes sa) + 1"] pool assms(2)
      by (auto simp: pool_ready_def)
    then have "str_budget g1 ss" using assms(1) inv by (simp add: str_budget_def algebra_simps g1_def)
    moreover have "strobjs g ?n = None"
      using str_tableD(4) [OF cs, of ?n] by (cases "strobjs g ?n") auto
    then have "strobjs g \<subseteq>\<^sub>m strobjs g1" by (auto simp: map_le_def dom_def g1_def)
    ultimately show ?thesis using new(2) inv(2) assms(2)
      by (intro exI [of _ ?n] exI [of _ g1]) (simp add: str_content_def g1_def)
  qed
qed

lemma str_budget_weaken: "str_budget g (ss @ ts) \<Longrightarrow> str_budget g ts"
  by (auto simp: str_budget_def)

definition arg_ok :: "bcread_env \<Rightarrow> u8 list \<Rightarrow> bool" where
  "arg_ok e s \<longleftrightarrow> s \<noteq> [] \<or> (\<forall>n. sa_slow (be_arg e n))"

lemma arg_ok_sa: "arg_ok e s \<Longrightarrow> sa_ok ((be_arg e n)\<lparr>sa_bytes := s\<rparr>)"
  by (auto simp: arg_ok_def sa_ok_def)

lemma bcread_str_app:
  assumes "str_budget g (s # ss)" "arg_ok e s" "len = of_nat (length s)"
  shows "\<exists>p g'. bcread_str e len (rd_at c (s @ r) g) = Some (p, rd_at c r g') \<and> p \<noteq> 0 \<and> str_budget g' ss \<and>
     str_content g' p = Some s \<and> strobjs g \<subseteq>\<^sub>m strobjs g'"
proof -
  have "length s < 2 ^ 31" using assms(1) by (simp add: str_budget_def)
  then show ?thesis
    using str_budget_step [OF assms(1) _ arg_ok_sa [OF assms(2)], of "length (s @ r)"] bcread_mem_app [OF _ assms(3), where c = c and r = r and g = g]
    by (force simp: bcread_str_def)
qed

section \<open>Template tables\<close>

lemma main_pos_mono:
  assumes "strobjs g \<subseteq>\<^sub>m strobjs g'" "key_ok g k"
  shows "main_pos g' t k = main_pos g t k" "key_ok g' k"
proof -
  have str: "is_string k \<Longrightarrow> strobjs g' (rawtsvalue k) = strobjs g (rawtsvalue k) \<and> strobjs g (rawtsvalue k) \<noteq> None"
    using assms by (auto simp: key_ok_def map_le_def dom_def)
  then show "main_pos g' t k = main_pos g t k" by (simp add: main_pos_def hashkey_def hashstr_def)
  show "key_ok g' k" using str assms(2) by (auto simp: key_ok_def)
qed

lemma tab_inv_mono:
  assumes "strobjs g \<subseteq>\<^sub>m strobjs g'" "tab_inv g t"
  shows "tab_inv g' t"
proof -
  have mp: "main_pos g' t (n_key (tnode t ! i)) = main_pos g t (n_key (tnode t ! i))"
    "key_ok g' (n_key (tnode t ! i))" if "i < length (tnode t)" "\<not> is_nil (n_key (tnode t ! i))" for i
    using main_pos_mono [OF assms(1)] assms(2) that by (auto simp: tab_inv_def)
  have M: "main_pos g t (n_key (tnode t ! i)) < length (tnode t)"
    "\<not> is_nil (n_key (tnode t ! main_pos g t (n_key (tnode t ! i))))"
    if "i < length (tnode t)" "\<not> is_nil (n_key (tnode t ! i))" for i
    using assms(2) that homedD main_ownedD unfolding tab_inv_def nodes_inv_def by blast+
  have "nodes_inv (main_pos g' t) (tnode t) (freetop t)"
    using assms(2) mp M by (simp add: tab_inv_def nodes_inv_def homed_def main_owned_def)
  then show ?thesis using assms(2) mp by (simp add: tab_inv_def)
qed

fun tval_strs :: "tval \<Rightarrow> u8 list list" where
  "tval_strs (TStr s) = [s]"
| "tval_strs (TNum n) = []"
| "tval_strs (TPri t) = []"

fun tval_ok :: "bcread_env \<Rightarrow> tval \<Rightarrow> bool" where
  "tval_ok e (TStr s) \<longleftrightarrow> arg_ok e s"
| "tval_ok e (TNum n) \<longleftrightarrow> True"
| "tval_ok e (TPri t) \<longleftrightarrow> sint (NOT t) < 4"

fun val_repr :: "ktap_global \<Rightarrow> tval \<Rightarrow> ktap_val \<Rightarrow> bool" where
  "val_repr g (TStr s) v \<longleftrightarrow> (\<exists>p. v = set_string p \<and> str_content g p = Some s)"
| "val_repr g (TNum n) v \<longleftrightarrow> v = set_number n"
| "val_repr g (TPri t) v \<longleftrightarrow> itype v = t"

lemma content_mono: "strobjs g \<subseteq>\<^sub>m strobjs g' \<Longrightarrow> str_content g p = Some s \<Longrightarrow> str_content g' p = Some s"
  by (auto simp: str_content_def map_le_def dom_def)

lemma val_repr_mono: "strobjs g \<subseteq>\<^sub>m strobjs g' \<Longrightarrow> val_repr g tv v \<Longrightarrow> val_repr g' tv v"
  by (cases tv) (auto intro: content_mono)

lemma reprs_mono:
  "strobjs g \<subseteq>\<^sub>m strobjs g' \<Longrightarrow> list_all2 (val_repr g) tvs vs \<Longrightarrow> list_all2 (val_repr g') tvs vs"
  using val_repr_mono list_all2_mono by blast

lemma bcread_ktabk_app:
  assumes "str_budget g (tval_strs tv @ ss)" "tval_ok e tv"
  shows "\<exists>v g'. bcread_ktabk e o' (rd_at c (ktabk_bytes tv @ r) g) = Some (Some v, rd_at c r g') \<and>
     val_repr g' tv v \<and> str_budget g' ss \<and> strobjs g \<subseteq>\<^sub>m strobjs g'"
proof (cases tv)
  case (TStr s)
  have len: "length s < 512" using assms(1) TStr by (simp add: str_budget_def)
  have "sint (of_nat (5 + length s) :: u32) = 5 + int (length s)" using sint_of_nat32 [of "5 + length s"] len by simp
  then have "sint (5 + of_nat (length s) :: u32) = 5 + int (length s)" by simp
  moreover obtain p g' where "bcread_str e (of_nat (length s)) (rd_at c (s @ r) g) = Some (p, rd_at c r g')"
     "p \<noteq> 0" "str_budget g' ss" "str_content g' p = Some s" "strobjs g \<subseteq>\<^sub>m strobjs g'"
    using bcread_str_app [of g s ss e "of_nat (length s)" c r] assms TStr by auto
  ultimately show ?thesis using TStr
    by (intro exI [of _ "set_string p"] exI [of _ g']) (auto simp: bcread_ktabk_def ktabk_bytes_def bcwrite_uint32_def)
next
  case (TNum n)
  then show ?thesis using assms
    by (intro exI [of _ "set_number n"] exI [of _ g]) (simp add: bcread_ktabk_def ktabk_bytes_def bcwrite_uint32_def)
next
  case (TPri t)
  then have "sint (NOT t) < 4" "NOT t \<noteq> 4" using assms(2) by auto
  then show ?thesis using assms TPri
    by (auto simp: bcread_ktabk_def ktabk_bytes_def bcwrite_uint32_def)
qed

lemma bcread_karray_app:
  assumes "length (tarray t) = i + length tvs" "str_budget g (concat (map tval_strs tvs) @ ss)"
    "list_all (tval_ok e) tvs"
  shows "\<exists>vs g'. bcread_karray e i (length tvs) t (rd_at c (concat (map ktabk_bytes tvs) @ r) g) =
        Some (Some (t\<lparr>tarray := take i (tarray t) @ vs\<rparr>), rd_at c r g') \<and>
     list_all2 (val_repr g') tvs vs \<and> str_budget g' ss \<and> strobjs g \<subseteq>\<^sub>m strobjs g'"
  using assms
proof (induction tvs arbitrary: i t g)
  case Nil
  then show ?case by (intro exI [of _ "[]"] exI [of _ g]) simp
next
  case (Cons tv tvs)
  let ?R = "concat (map ktabk_bytes tvs) @ r"
  obtain v g1 where v: "bcread_ktabk e (tarray t ! i) (rd_at c (ktabk_bytes tv @ ?R) g) = Some (Some v, rd_at c ?R g1)"
    "val_repr g1 tv v" "str_budget g1 (concat (map tval_strs tvs) @ ss)" "strobjs g \<subseteq>\<^sub>m strobjs g1"
    using bcread_ktabk_app [of g tv "concat (map tval_strs tvs) @ ss" e "tarray t ! i" c ?R] Cons.prems by auto
  let ?t = "t\<lparr>tarray := (tarray t)[i := v]\<rparr>"
  obtain vs g2 where vs: "bcread_karray e (Suc i) (length tvs) ?t (rd_at c (?R) g1) =
        Some (Some (?t\<lparr>tarray := take (Suc i) (tarray ?t) @ vs\<rparr>), rd_at c r g2)"
     "list_all2 (val_repr g2) tvs vs" "str_budget g2 ss" "strobjs g1 \<subseteq>\<^sub>m strobjs g2"
    using Cons.IH [of ?t "Suc i" g1] Cons.prems v(3) by auto
  have "take (Suc i) ((tarray t)[i := v]) = take i (tarray t) @ [v]"
    using Cons.prems(1) by (simp add: take_Suc_conv_app_nth)
  then show ?case using v vs Cons.prems(1) map_le_trans [OF v(4) vs(4)] val_repr_mono [OF vs(4) v(2)]
    by (intro exI [of _ "v # vs"] exI [of _ g2]) simp
qed

definition key_tval_ok :: "bcread_env \<Rightarrow> tval \<Rightarrow> bool" where
  "key_tval_ok e k \<longleftrightarrow> tval_ok e k \<and> \<not> tval_nil k"

lemma repr_plain_key:
  assumes "key_tval_ok e tv" "val_repr g tv v"
  shows "plain_key g v"
proof (cases tv)
  case (TPri t)
  then have "sint (NOT t) < 4" "t \<noteq> KTAP_TNIL" using assms by (auto simp: key_tval_ok_def tval_nil_def)
  then have "t \<noteq> KTAP_TLIGHTUD" "t \<noteq> KTAP_TKSTACK" "t \<noteq> KTAP_TEVENTSTR" "t \<noteq> KTAP_TSTR" by (auto simp: typetag)
  then show ?thesis using TPri assms \<open>t \<noteq> KTAP_TNIL\<close> by (auto simp: plain_key_def key_ok_def is_type_defs)
qed (use assms in \<open>auto simp: plain_key_def key_ok_def is_type_defs set_string_def set_number_def str_content_def\<close>)

definition kv_puts :: "(ktap_val \<times> ktap_val) list \<Rightarrow> (u32 \<times> u64 \<Rightarrow> ktap_val option) \<Rightarrow> u32 \<times> u64 \<Rightarrow> ktap_val option" where
  "kv_puts ws = fold (\<lambda>(k, v) m. m(val_key k := nonnil v)) ws"

lemma bcread_khash_app:
  assumes "tab_inv g t" "length kvs \<le> free_nodes t"
    "str_budget g (concat (map (\<lambda>kv. tval_strs (fst kv) @ tval_strs (snd kv)) kvs) @ ss)"
    "list_all (\<lambda>kv. key_tval_ok e (fst kv) \<and> tval_ok e (snd kv)) kvs"
  shows "\<exists>t' ws g'. bcread_khash e (length kvs) t
        (rd_at c (concat (map (\<lambda>n. ktabk_bytes (fst n) @ ktabk_bytes (snd n)) kvs) @ r) g) =
        Some (Some t', rd_at c r g') \<and> tab_inv g' t' \<and>
     list_all2 (\<lambda>kv w. val_repr g' (fst kv) (fst w) \<and> val_repr g' (snd kv) (snd w)) kvs ws \<and>
     tab_abs t' = kv_puts ws (tab_abs t) \<and>
     str_budget g' ss \<and> strobjs g \<subseteq>\<^sub>m strobjs g'"
  using assms
proof (induction kvs arbitrary: t g)
  case Nil
  then show ?case by (intro exI [of _ t] exI [of _ "[]"] exI [of _ g]) (simp add: kv_puts_def)
next
  case (Cons kv kvs)
  obtain k v where kv: "kv = (k, v)" by (cases kv)
  let ?W = "\<lambda>n. ktabk_bytes (fst n) @ ktabk_bytes (snd n)" and ?S = "\<lambda>kv. tval_strs (fst kv) @ tval_strs (snd kv)"
  let ?R = "concat (map ?W kvs) @ r" and ?B = "concat (map ?S kvs) @ ss"
  obtain k' g1 where k: "bcread_ktabk e (be_junk e) (rd_at c (ktabk_bytes k @ ktabk_bytes v @ ?R) g) =
        Some (Some k', rd_at c (ktabk_bytes v @ ?R) g1)"
    "val_repr g1 k k'" "str_budget g1 (tval_strs v @ ?B)" "strobjs g \<subseteq>\<^sub>m strobjs g1"
    using bcread_ktabk_app [of g k "tval_strs v @ ?B" e "be_junk e" c "ktabk_bytes v @ ?R"] Cons.prems kv
    by (auto simp: key_tval_ok_def)
  obtain v' g2 where v: "bcread_ktabk e (be_junk e) (rd_at c (ktabk_bytes v @ ?R) g1) =
        Some (Some v', rd_at c (?R) g2)"
    "val_repr g2 v v'" "str_budget g2 ?B" "strobjs g1 \<subseteq>\<^sub>m strobjs g2"
    using bcread_ktabk_app [of g1 v ?B e "be_junk e" c ?R] k(3) Cons.prems kv by auto
  have k2: "val_repr g2 k k'" using val_repr_mono [OF v(4) k(2)] .
  have key: "plain_key g2 k'" using repr_plain_key [OF _ k2] Cons.prems(4) kv by auto
  have t2: "tab_inv g2 t" using tab_inv_mono map_le_trans [OF k(4) v(4)] Cons.prems(1) by blast
  obtain t1 where t1: "kp_tab_set (be_tabenv e) g2 t k' v' = Some (t1, g2)" "tab_inv g2 t1"
      "tab_abs t1 = (tab_abs t)(val_key k' := nonnil v')" "free_nodes t \<le> Suc (free_nodes t1)"
    using tabmap.put_law [OF t2 key] Cons.prems(2) by auto
  obtain t' ws g' where r: "bcread_khash e (length kvs) t1 (rd_at c (?R) g2) =
        Some (Some t', rd_at c r g')" "tab_inv g' t'"
     "list_all2 (\<lambda>kv w. val_repr g' (fst kv) (fst w) \<and> val_repr g' (snd kv) (snd w)) kvs ws"
     "tab_abs t' = kv_puts ws (tab_abs t1)"
     "str_budget g' ss" "strobjs g2 \<subseteq>\<^sub>m strobjs g'"
    using Cons.IH [OF t1(2) _ v(3)] t1(4) Cons.prems(2,4) by auto
  have "bcread_khash e (length (kv # kvs)) t (rd_at c (concat (map ?W (kv # kvs)) @ r) g) =
        Some (Some t', rd_at c r g')"
    using k(1) v(1) t1(1) r(1) kv by simp
  then show ?case
    using r(2,3,5) kv val_repr_mono [OF r(6)] k2 v(2) map_le_trans [OF map_le_trans [OF k(4) v(4)] r(6)]
    by (intro exI [of _ t'] exI [of _ "(k', v') # ws"] exI [of _ g']) (simp add: r(4) t1(3) kv_puts_def)
qed

text \<open>The memory the loader needs: \<^verbatim>\<open>vmalloc\<close> and \<^verbatim>\<open>kp_obj_new\<close> deliver what is asked for.\<close>

definition mem_total :: "bcread_env \<Rightarrow> bool" where
  "mem_total e \<longleftrightarrow> mem_sized (be_tabmem e) \<and> tm_obj (be_tabmem e) \<and>
     (\<forall>n. tm_array (be_tabmem e) n \<noteq> None \<and> tm_node (be_tabmem e) n \<noteq> None) \<and> (\<forall>n. be_obj e n)"

definition ktab_strs :: "utab \<Rightarrow> u8 list list" where
  "ktab_strs t = concat (map tval_strs (take (ktab_narray t) (ut_array t))) @
     concat (map (\<lambda>kv. tval_strs (fst kv) @ tval_strs (snd kv)) (rev (ktab_hash t)))"

definition ktab_ok :: "bcread_env \<Rightarrow> utab \<Rightarrow> bool" where
  "ktab_ok e t \<longleftrightarrow> ktab_narray t \<le> 0x8000001 \<and> length (ktab_hash t) \<le> 2 ^ 25 \<and>
     list_all (tval_ok e) (take (ktab_narray t) (ut_array t)) \<and>
     list_all (\<lambda>kv. key_tval_ok e (fst kv) \<and> tval_ok e (snd kv)) (ktab_hash t)"

text \<open>
  A loaded table: the array entries and the pairs stand for those of the template, and the map of
  the table is that of the array with the pairs stored in the order of the dump.  Without pairs
  the table has no nodes.
\<close>

definition arr_map :: "ktap_val list \<Rightarrow> u32 \<times> u64 \<Rightarrow> ktap_val option" where
  "arr_map vs vk = (if fst vk = KTAP_TNUM \<and> unat (snd vk) < length vs then nonnil (vs ! unat (snd vk)) else None)"

definition ktab_loaded :: "ktap_global \<Rightarrow> utab \<Rightarrow> ktap_tab \<Rightarrow> bool" where
  "ktab_loaded g t lt \<longleftrightarrow>
     (\<exists>vs ws. list_all2 (val_repr g) (take (ktab_narray t) (ut_array t)) vs \<and>
        list_all2 (\<lambda>kv w. val_repr g (fst kv) (fst w) \<and> val_repr g (snd kv) (snd w)) (rev (ktab_hash t)) ws \<and>
        (if ktab_hash t = [] then tarray lt = vs \<and> asize lt = of_nat (length vs) \<and> tnode lt = []
         else tab_inv g lt \<and> tab_abs lt = kv_puts ws (arr_map vs)))"

lemma ktab_narray_le: "ktab_narray t \<le> length (ut_array t)"
  unfolding ktab_narray_def by (metis length_dropWhile_le length_rev)

lemma hbits_le:
  assumes "0 < n" "n \<le> 2 ^ 25"
  shows "hsize2hbits (of_nat n) \<le> 26" "hsize2hbits (of_nat n) \<noteq> 0"
    "n \<le> 2 ^ unat (hsize2hbits (of_nat n))"
proof -
  have u: "unat (of_nat n :: u32) = n" using assms(2) by (intro unat_of_nat32) simp
  then have ne: "(of_nat n :: u32) \<noteq> 0" using assms(1) by auto
  note h = hsize2hbits_enough [OF ne]
  show "hsize2hbits (of_nat n) \<noteq> 0" by (rule h(3))
  show "n \<le> 2 ^ unat (hsize2hbits (of_nat n))" using h(1) u by simp
  show "hsize2hbits (of_nat n) \<le> 26"
  proof (cases "n = 1")
    case False
    then have "(of_nat n :: u32) \<noteq> 1" using u by (metis unat_1)
    then have "2 ^ unat (hsize2hbits (of_nat n)) < (2 :: nat) ^ 26" using h(2) u assms(2) by simp
    then have "unat (hsize2hbits (of_nat n)) < 26" by (metis One_nat_def Suc_1 lessI nat_power_less_imp_less zero_less_numeral)
    then show ?thesis by (simp add: word_le_nat_alt)
  qed (simp add: hsize2hbits_def)
qed

lemma kp_tab_new_total:
  assumes "mem_total e" "as \<le> 0x8000001" "hbits \<le> 26"
  shows "\<exists>t. kp_tab_new (be_tabmem e) g as hbits = Some (Some t, g) \<and> length (tarray t) = unat as \<and> asize t = as \<and>
     (hbits = 0 \<longrightarrow> tnode t = [] \<and> hmask t = 0)"
proof -
  obtain a where a: "tm_array (be_tabmem e) (unat as) = Some a" "length a = unat as"
    using assms(1) unfolding mem_total_def mem_sized_def by (metis option.exhaust)
  obtain ns where n: "tm_node (be_tabmem e) (unat (push_bit (unat hbits) 1 :: u32)) = Some ns"
    using assms(1) unfolding mem_total_def by (metis option.exhaust)
  have obj: "tm_obj (be_tabmem e)" using assms(1) by (simp add: mem_total_def)
  show ?thesis
    using a n obj assms(2,3)
    by (auto simp: kp_tab_new_def newtab_def newhpart_def Let_def clearapart_def clearhpart_def word_gt_0 not_less unat_eq_zero)
qed

lemma tab_abs_array:
  assumes "tab_inv g t" "tab_abs t = Map.empty" "length vs = length (tarray t)"
  shows "tab_inv g (t\<lparr>tarray := vs\<rparr>)" "tab_abs (t\<lparr>tarray := vs\<rparr>) = arr_map vs" "free_nodes (t\<lparr>tarray := vs\<rparr>) = free_nodes t"
proof -
  have mp: "main_pos g (t\<lparr>tarray := vs\<rparr>) = main_pos g t"
    by (simp add: fun_eq_iff main_pos_def hashkey_def hashstr_def hashnum_def hashgcref_def hashmask_def Let_def)
  show inv: "tab_inv g (t\<lparr>tarray := vs\<rparr>)" using assms(1,3) mp by (simp add: tab_inv_def arr_key_def)
  show "free_nodes (t\<lparr>tarray := vs\<rparr>) = free_nodes t" by (simp add: free_nodes_def)
  have len: "length vs = unat (asize t)" using assms(1,3) by (simp add: tab_inv_def)
  have "tab_live (tnode t) vk = None" if na: "\<not> (fst vk = KTAP_TNUM \<and> unat (snd vk) < unat (asize t))" for vk
    using na fun_cong [OF assms(2), of vk] by (auto simp: tab_abs_def arr_key_def split: if_splits)
  then show "tab_abs (t\<lparr>tarray := vs\<rparr>) = arr_map vs"
    using len by (auto simp: fun_eq_iff tab_abs_def arr_map_def arr_key_def)
qed

lemma bcread_ktab_app:
  assumes "mem_total e" "ktab_ok e t" "str_budget g (ktab_strs t @ ss)"
  shows "\<exists>lt g'. bcread_ktab e (rd_at c (ktab_bytes t @ r) g) = Some (Some lt, rd_at c r g') \<and>
     ktab_loaded g' t lt \<and> str_budget g' ss \<and> strobjs g \<subseteq>\<^sub>m strobjs g'"
proof -
  let ?A = "take (ktab_narray t) (ut_array t)" and ?H = "rev (ktab_hash t)"
  let ?na = "of_nat (ktab_narray t) :: u32" and ?nh = "of_nat (length (ktab_hash t)) :: u32"
  let ?S = "\<lambda>kv. tval_strs (fst kv) @ tval_strs (snd kv)"
  have na: "length ?A = ktab_narray t" "unat ?na = ktab_narray t" "?na \<le> 0x8000001"
    using ktab_narray_le [of t] assms(2) unat_of_nat32 [of "ktab_narray t"]
    by (simp_all add: ktab_ok_def word_le_nat_alt)
  have nh: "unat ?nh = length ?H" using assms(2) unat_of_nat32 [of "length (ktab_hash t)"] by (simp add: ktab_ok_def)
  have hb: "hsize2hbits ?nh \<le> 26" "ktab_hash t \<noteq> [] \<Longrightarrow> hsize2hbits ?nh \<noteq> 0"
    "length (ktab_hash t) \<le> 2 ^ unat (hsize2hbits ?nh)" "ktab_hash t = [] \<Longrightarrow> hsize2hbits ?nh = 0"
    using hbits_le [of "length (ktab_hash t)"] assms(2)
    by (cases "ktab_hash t = []"; simp add: ktab_ok_def hsize2hbits_def)+
  obtain t0 where t0: "kp_tab_new (be_tabmem e) g ?na (hsize2hbits ?nh) = Some (Some t0, g)"
    "length (tarray t0) = length ?A" "asize t0 = ?na" "hsize2hbits ?nh = 0 \<longrightarrow> tnode t0 = [] \<and> hmask t0 = 0"
    using kp_tab_new_total [OF assms(1) na(3) hb(1)] na by auto
  let ?R = "concat (map (\<lambda>n. ktabk_bytes (fst n) @ ktabk_bytes (snd n)) ?H) @ r"
  obtain vs g1 where vs: "bcread_karray e 0 (length ?A) t0 (rd_at c (concat (map ktabk_bytes ?A) @ ?R) g) =
        Some (Some (t0\<lparr>tarray := take 0 (tarray t0) @ vs\<rparr>), rd_at c ?R g1)"
     "list_all2 (val_repr g1) ?A vs" "str_budget g1 (concat (map ?S ?H) @ ss)" "strobjs g \<subseteq>\<^sub>m strobjs g1"
    using bcread_karray_app [of t0 0 ?A g "concat (map ?S ?H) @ ss" e c ?R] t0(2) assms(2,3)
    by (auto simp: ktab_strs_def ktab_ok_def)
  have lv: "length vs = length ?A" using list_all2_lengthD [OF vs(2)] by simp
  have "\<exists>lt g'. bcread_khash e (length ?H) (t0\<lparr>tarray := vs\<rparr>) (rd_at c ?R g1) = Some (Some lt, rd_at c r g') \<and>
      ktab_loaded g' t lt \<and> str_budget g' ss \<and> strobjs g1 \<subseteq>\<^sub>m strobjs g'"
  proof (cases "ktab_hash t = []")
    case True
    then show ?thesis using vs(2,3) t0 hb(4) lv na(1)
      by (intro exI [of _ "t0\<lparr>tarray := vs\<rparr>"] exI [of _ g1]) (auto simp: ktab_loaded_def)
  next
    case False
    have ms: "mem_sized (be_tabmem e)" using assms(1) by (simp add: mem_total_def)
    note n = kp_tab_new_ok [OF ms t0(1) hb(2) [OF False]]
    note a = tab_abs_array [of g t0 vs]
    have inv: "tab_inv g1 (t0\<lparr>tarray := vs\<rparr>)" using tab_inv_mono [OF vs(4)] a(1) n lv t0(2) by simp
    have free: "length ?H \<le> free_nodes (t0\<lparr>tarray := vs\<rparr>)" using a(3) n lv t0(2) hb(3) by simp
    have ok: "list_all (\<lambda>kv. key_tval_ok e (fst kv) \<and> tval_ok e (snd kv)) ?H" using assms(2) by (simp add: ktab_ok_def)
    obtain lt ws g' where l: "bcread_khash e (length ?H) (t0\<lparr>tarray := vs\<rparr>) (rd_at c ?R g1) = Some (Some lt, rd_at c r g')"
      "tab_inv g' lt" "list_all2 (\<lambda>kv w. val_repr g' (fst kv) (fst w) \<and> val_repr g' (snd kv) (snd w)) ?H ws"
      "tab_abs lt = kv_puts ws (tab_abs (t0\<lparr>tarray := vs\<rparr>))" "str_budget g' ss" "strobjs g1 \<subseteq>\<^sub>m strobjs g'"
      using bcread_khash_app [OF inv free vs(3) ok] by blast
    then have "ktab_loaded g' t lt"
      using False reprs_mono [OF l(6) vs(2)] a(2) n lv t0(2) by (auto simp: ktab_loaded_def)
    then show ?thesis using l by blast
  qed
  then obtain lt g' where "bcread_khash e (length ?H) (t0\<lparr>tarray := vs\<rparr>) (rd_at c ?R g1) = Some (Some lt, rd_at c r g')"
      "ktab_loaded g' t lt" "str_budget g' ss" "strobjs g1 \<subseteq>\<^sub>m strobjs g'" by (elim exE conjE)
  then show ?thesis using vs t0(1) na(1,2) nh map_le_trans [OF vs(4)]
    by (intro exI [of _ lt] exI [of _ g']) (simp add: bcread_ktab_def ktab_bytes_def bcwrite_uint32_def)
qed

lemma ktab_loaded_mono: "strobjs g \<subseteq>\<^sub>m strobjs g' \<Longrightarrow> ktab_loaded g t lt \<Longrightarrow> ktab_loaded g' t lt"
proof -
  assume le: "strobjs g \<subseteq>\<^sub>m strobjs g'" and l: "ktab_loaded g t lt"
  have m: "list_all2 (\<lambda>kv w. val_repr g (fst kv) (fst w) \<and> val_repr g (snd kv) (snd w)) xs ws \<Longrightarrow>
     list_all2 (\<lambda>kv w. val_repr g' (fst kv) (fst w) \<and> val_repr g' (snd kv) (snd w)) xs ws" for xs ws
    using val_repr_mono [OF le] by (auto elim!: list_all2_mono)
  from l obtain vs ws where w: "list_all2 (val_repr g) (take (ktab_narray t) (ut_array t)) vs"
     "list_all2 (\<lambda>kv w. val_repr g (fst kv) (fst w) \<and> val_repr g (snd kv) (snd w)) (rev (ktab_hash t)) ws"
     "if ktab_hash t = [] then tarray lt = vs \<and> asize lt = of_nat (length vs) \<and> tnode lt = []
      else tab_inv g lt \<and> tab_abs lt = kv_puts ws (arr_map vs)"
    unfolding ktab_loaded_def by blast
  show ?thesis unfolding ktab_loaded_def
    using reprs_mono [OF le w(1)] m [OF w(2)] w(3) tab_inv_mono [OF le, of lt]
    by (intro exI [of _ vs] exI [of _ ws]) (simp split: if_splits)
qed

section \<open>Constants and prototypes\<close>

fun kgc_strs :: "kgc \<Rightarrow> u8 list list" where
  "kgc_strs (KgcStr s) = [s]"
| "kgc_strs (KgcTab t) = ktab_strs t"
| "kgc_strs (KgcChild pt) = []"

fun kgc_ok :: "bcread_env \<Rightarrow> kgc \<Rightarrow> bool" where
  "kgc_ok e (KgcStr s) \<longleftrightarrow> arg_ok e s"
| "kgc_ok e (KgcTab t) \<longleftrightarrow> ktab_ok e t"
| "kgc_ok e (KgcChild pt) \<longleftrightarrow> True"

fun kgc_children :: "kgc list \<Rightarrow> uproto list" where
  "kgc_children [] = []"
| "kgc_children (KgcChild pt # ks) = pt # kgc_children ks"
| "kgc_children (KgcStr s # ks) = kgc_children ks"
| "kgc_children (KgcTab t # ks) = kgc_children ks"

definition func_header :: "uproto \<Rightarrow> u32" where
  "func_header pt = BCINS_AD (of_nat (if up_flags pt AND PROTO_VARARG \<noteq> 0 then BC_FUNCV else BC_FUNCF)) (ucast (up_framesize pt)) 0"

definition dbg_loaded :: "bool \<Rightarrow> uproto \<Rightarrow> lproto \<Rightarrow> bool" where
  "dbg_loaded strip pt lp \<longleftrightarrow>
     (case up_dbg pt of
        Some (first, num, d) \<Rightarrow>
          if strip \<or> d = [] then lp_dbg lp = None
          else lp_firstline lp = first \<and> lp_numline lp = num \<and>
            (let uvinfo = drop (push_bit (lineinfo_shift num) (length (up_bc pt))) d in
             \<exists>varinfo. bcread_varinfo (of_nat (length (up_uv pt))) uvinfo = Some varinfo \<and> lp_dbg lp = Some (d, uvinfo, varinfo))
      | None \<Rightarrow> lp_dbg lp = None)"

text \<open>The loaded prototype is the written one, constant by constant and child by child.\<close>

fun proto_loaded :: "bool \<Rightarrow> ktap_global \<Rightarrow> addr \<Rightarrow> uproto \<Rightarrow> lproto \<Rightarrow> bool"
  and kgcs_loaded :: "bool \<Rightarrow> ktap_global \<Rightarrow> addr \<Rightarrow> kgc list \<Rightarrow> lkgc list \<Rightarrow> bool"
  and kgc_loaded :: "bool \<Rightarrow> ktap_global \<Rightarrow> addr \<Rightarrow> kgc \<Rightarrow> lkgc \<Rightarrow> bool" where
  "proto_loaded strip g nm (UProto fl np fs uv ks kn bc dbg) lp \<longleftrightarrow>
     lp_flags lp = fl AND 7 \<and> lp_numparams lp = np \<and> lp_framesize lp = fs \<and>
     lp_bc lp = func_header (UProto fl np fs uv ks kn bc dbg) # bc \<and> lp_uv lp = uv \<and>
     kgcs_loaded strip g nm ks (lp_kgc lp) \<and> list_all2 (val_repr g) kn (lp_knum lp) \<and> lp_chunkname lp = nm \<and>
     dbg_loaded strip (UProto fl np fs uv ks kn bc dbg) lp"
| "kgcs_loaded strip g nm [] lks \<longleftrightarrow> lks = []"
| "kgcs_loaded strip g nm (k # ks) lks \<longleftrightarrow>
     (case lks of [] \<Rightarrow> False | lk # lks' \<Rightarrow> kgc_loaded strip g nm k lk \<and> kgcs_loaded strip g nm ks lks')"
| "kgc_loaded strip g nm (KgcStr s) lk \<longleftrightarrow> (\<exists>p. lk = LStr p \<and> str_content g p = Some s)"
| "kgc_loaded strip g nm (KgcTab t) lk \<longleftrightarrow> (\<exists>lt. lk = LTab lt \<and> ktab_loaded g t lt)"
| "kgc_loaded strip g nm (KgcChild pt) lk \<longleftrightarrow> (\<exists>lp. lk = LChild lp \<and> proto_loaded strip g nm pt lp)"

lemma loaded_mono:
  assumes "strobjs g \<subseteq>\<^sub>m strobjs g'"
  shows "proto_loaded strip g nm pt lp \<Longrightarrow> proto_loaded strip g' nm pt lp"
    and "kgcs_loaded strip g nm ks lks \<Longrightarrow> kgcs_loaded strip g' nm ks lks"
    and "kgc_loaded strip g nm k lk \<Longrightarrow> kgc_loaded strip g' nm k lk"
  using assms
proof (induction strip g nm pt lp and strip g nm ks lks and strip g nm k lk
    rule: proto_loaded_kgcs_loaded_kgc_loaded.induct)
  case (1 strip g nm fl np fs uv ks kn bc dbg lp)
  then show ?case using reprs_mono [OF "1.prems"(2)] by simp
qed (auto intro: content_mono ktab_loaded_mono split: list.splits)

lemma bcread_kgc_app:
  assumes "mem_total e" "list_all (kgc_ok e) ks" "str_budget g (concat (map kgc_strs ks) @ ss)"
    "list_all2 (proto_loaded strip g nm) (kgc_children ks) lps" "rd_stk c = lps @ stk"
  shows "\<exists>lks g'. bcread_kgc e (length ks) (rd_at c (kgc_bytes ks @ r) g) =
        Some (Some lks, rd_at (c\<lparr>rd_stk := stk\<rparr>) r g') \<and> kgcs_loaded strip g' nm ks lks \<and>
     str_budget g' ss \<and> strobjs g \<subseteq>\<^sub>m strobjs g'"
  using assms(2-5)
proof (induction ks arbitrary: g c lps)
  case Nil
  then have "c\<lparr>rd_stk := stk\<rparr> = c" by simp
  then show ?case using Nil by (intro exI [of _ "[]"] exI [of _ g]) (simp add: kgc_bytes_def)
next
  case (Cons k ks)
  let ?R = "kgc_bytes ks @ r" and ?B = "concat (map kgc_strs ks) @ ss"
  have split: "kgc_bytes (k # ks) @ r = kgc1_bytes k @ ?R" by (simp add: kgc_bytes_def)
  have "\<exists>lk c' g1 lps'. bcread_kgc1 e (rd_at c (kgc1_bytes k @ ?R) g) = Some (Some lk, rd_at c' ?R g1) \<and>
      c'\<lparr>rd_stk := stk\<rparr> = c\<lparr>rd_stk := stk\<rparr> \<and> rd_stk c' = lps' @ stk \<and>
      list_all2 (proto_loaded strip g nm) (kgc_children ks) lps' \<and>
      kgc_loaded strip g1 nm k lk \<and> str_budget g1 ?B \<and> strobjs g \<subseteq>\<^sub>m strobjs g1"
  proof (cases k)
    case (KgcStr s)
    have len: "length s < 512" using Cons.prems(2) KgcStr by (simp add: str_budget_def)
    have "sint (of_nat (5 + length s) :: u32) = 5 + int (length s)" using sint_of_nat32 [of "5 + length s"] len by simp
    then have sl: "sint (5 + of_nat (length s) :: u32) = 5 + int (length s)" by simp
    obtain p g1 where "bcread_str e (of_nat (length s)) (rd_at c (s @ ?R) g) = Some (p, rd_at c ?R g1)"
      "p \<noteq> 0" "str_budget g1 ?B" "str_content g1 p = Some s" "strobjs g \<subseteq>\<^sub>m strobjs g1"
      using bcread_str_app [of g s ?B e "of_nat (length s)" c ?R] Cons.prems KgcStr by auto
    then show ?thesis using KgcStr sl Cons.prems(3,4)
      by (intro exI [of _ "LStr p"] exI [of _ c] exI [of _ g1] exI [of _ lps])
        (simp add: bcread_kgc1_def kgc1_bytes_def bcwrite_uint32_def)
  next
    case (KgcTab t)
    obtain lt g1 where "bcread_ktab e (rd_at c (ktab_bytes t @ ?R) g) = Some (Some lt, rd_at c ?R g1)"
      "ktab_loaded g1 t lt" "str_budget g1 ?B" "strobjs g \<subseteq>\<^sub>m strobjs g1"
      using bcread_ktab_app [OF assms(1), of t g ?B c ?R] Cons.prems KgcTab by auto
    then show ?thesis using KgcTab Cons.prems(3,4)
      by (intro exI [of _ "LTab lt"] exI [of _ c] exI [of _ g1] exI [of _ lps])
        (simp add: bcread_kgc1_def kgc1_bytes_def bcwrite_uint32_def)
  next
    case (KgcChild pt)
    then obtain lp lps' where l: "lps = lp # lps'" "proto_loaded strip g nm pt lp"
      "list_all2 (proto_loaded strip g nm) (kgc_children ks) lps'"
      using Cons.prems(3) by (auto simp: list_all2_Cons1)
    then show ?thesis using KgcChild Cons.prems(2,4)
      by (intro exI [of _ "LChild lp"] exI [of _ "c\<lparr>rd_stk := lps' @ stk\<rparr>"] exI [of _ g] exI [of _ lps'])
        (simp add: bcread_kgc1_def kgc1_bytes_def bcwrite_uint32_def)
  qed
  then obtain lk c' g1 lps' where k: "bcread_kgc1 e (rd_at c (kgc1_bytes k @ ?R) g) = Some (Some lk, rd_at c' ?R g1)"
    "c'\<lparr>rd_stk := stk\<rparr> = c\<lparr>rd_stk := stk\<rparr>" "rd_stk c' = lps' @ stk"
    "list_all2 (proto_loaded strip g nm) (kgc_children ks) lps'"
    "kgc_loaded strip g1 nm k lk" "str_budget g1 ?B" "strobjs g \<subseteq>\<^sub>m strobjs g1" by blast
  have "list_all2 (proto_loaded strip g1 nm) (kgc_children ks) lps'"
    using k(4) loaded_mono(1) [OF k(7)] list_all2_mono by blast
  then obtain lks g2 where r: "bcread_kgc e (length ks) (rd_at c' ?R g1) = Some (Some lks, rd_at (c'\<lparr>rd_stk := stk\<rparr>) r g2)"
    "kgcs_loaded strip g2 nm ks lks" "str_budget g2 ss" "strobjs g1 \<subseteq>\<^sub>m strobjs g2"
    using Cons.IH [of g1 lps' c'] Cons.prems(1) k(3,6) by auto
  then show ?case using k(1,2) split loaded_mono(3) [OF r(4) k(5)] map_le_trans [OF k(7) r(4)]
    by (intro exI [of _ "lk # lks"] exI [of _ g2]) simp
qed

lemma bcread_knum_app:
  assumes "list_all (\<lambda>n. \<exists>v. n = TNum v) kn"
  shows "\<exists>vs. bcread_knum (length kn) (rd_at c (knum_bytes kn @ r) g) = Some (vs, rd_at c r g) \<and>
    list_all2 (val_repr g') kn vs"
  using assms
proof (induction kn)
  case Nil
  then show ?case by (simp add: knum_bytes_def)
next
  case (Cons n kn)
  then obtain v vs where "n = TNum v" "bcread_knum (length kn) (rd_at c (knum_bytes kn @ r) g) = Some (vs, rd_at c r g)"
    "list_all2 (val_repr g') kn vs" by auto
  then show ?case by (intro exI [of _ "set_number v # vs"]) (simp add: knum_bytes_def)
qed

definition dbg_numline :: "uproto \<Rightarrow> u32" where
  "dbg_numline pt = (case up_dbg pt of None \<Rightarrow> 0 | Some (_, num, _) \<Rightarrow> num)"

text \<open>
  What the compiler has to guarantee of a prototype: counts and sizes within the fields of the dump,
  number constants that are numbers, the child flag, upvalue names in the debug information, and a
  length of the chunk whose low byte is not zero.
\<close>

definition proto_ok :: "bcread_env \<Rightarrow> bool \<Rightarrow> uproto \<Rightarrow> bool" where
  "proto_ok e strip pt \<longleftrightarrow>
     length (up_uv pt) < 256 \<and> list_all (kgc_ok e) (up_kgc pt) \<and>
     list_all (\<lambda>n. case n of TNum _ \<Rightarrow> True | _ \<Rightarrow> False) (up_knum pt) \<and>
     size_pt (Suc (length (up_bc pt))) (length (up_kgc pt)) (length (up_knum pt)) (length (up_uv pt))
       (length (dbg_info strip pt)) < 2 ^ 31 \<and>
     (kgc_children (up_kgc pt) \<noteq> [] \<longrightarrow> up_flags pt AND 1 \<noteq> 0) \<and>
     (dbg_info strip pt \<noteq> [] \<longrightarrow>
        bcread_varinfo (of_nat (length (up_uv pt)))
          (drop (push_bit (lineinfo_shift (dbg_numline pt)) (length (up_bc pt))) (dbg_info strip pt)) \<noteq> None) \<and>
     length (body_bytes strip pt) mod 256 \<noteq> 0 \<and> length (body_bytes strip pt) < 2 ^ 31"

lemma size_pt_parts:
  assumes "size_pt (Suc nbc) nkgc nkn nuv ndbg < 2 ^ 31"
  shows "4 * nbc < 2 ^ 31" "nkgc < 2 ^ 31" "nkn < 2 ^ 31" "ndbg < 2 ^ 31" "2 * nuv < 2 ^ 31"
proof -
  have r: "x \<le> (x + 15) div 16 * 16" "y \<le> (y + 1) div 2 * 2" for x y :: nat by presburger+
  note s = assms [unfolded size_pt_def ofs_dbg_def ofs_uv_def ofs_k_def] r(1) [of "96 + Suc nbc * 4 + nkgc * 8"] r(2) [of nuv]
  show "4 * nbc < 2 ^ 31" using s by simp
  show "nkgc < 2 ^ 31" using s by simp
  show "nkn < 2 ^ 31" using s by simp
  show "ndbg < 2 ^ 31" using s by simp
  show "2 * nuv < 2 ^ 31" using s by simp
qed

lemma flags_and: "((fl :: u8) AND 7) AND 2 = fl AND 2"
  by (simp add: and.assoc)

lemma bcread_bytecode_app:
  assumes "4 * length bc < 2 ^ 31" "\<not> bcread_swap c"
  shows "bcread_bytecode fl fs (of_nat (length bc) + 1) (rd_at c (bcwrite_bytecode bc @ r) g) =
    Some (BCINS_AD (of_nat (if fl AND PROTO_VARARG \<noteq> 0 then BC_FUNCV else BC_FUNCF)) (ucast fs) 0 # bc, rd_at c r g)"
proof -
  have "length (bcwrite_bytecode bc) = 4 * length bc" unfolding bcwrite_bytecode_def by (rule length_chunks) simp
  then have m: "bcread_mem (of_nat (length bc) * 4) (rd_at c (bcwrite_bytecode bc @ r) g) = Some (bcwrite_bytecode bc, rd_at c r g)"
    using assms(1) by (intro bcread_mem_app) (simp_all add: mult.commute)
  have u: "unat (of_nat (length bc) :: u32) = length bc" using assms(1) by (intro unat_of_nat32) simp
  show ?thesis using m u assms(2) by (simp add: bcread_bytecode_def words32_le bcwrite_bytecode_def)
qed

lemma bcread_uv_app:
  assumes "length uv < 256" "\<not> bcread_swap c"
  shows "bcread_uv (of_nat (length uv)) (rd_at c (concat (map le16 uv) @ r) g) = Some (uv, rd_at c r g)"
proof -
  let ?n = "of_nat (length uv) :: u8"
  have u: "unat ?n = length uv" using assms(1) by (simp add: unsigned_of_nat take_bit_nat_eq_self)
  have z: "?n = 0 \<longleftrightarrow> uv = []" using u by (metis length_0_conv unat_0 unat_eq_zero)
  have "length (concat (map le16 uv)) = 2 * length uv" by (rule length_chunks) simp
  moreover have "ucast ?n = (of_nat (length uv) :: u32)" using u by (metis of_nat_unat)
  ultimately have m: "bcread_mem (ucast ?n * 2) (rd_at c (concat (map le16 uv) @ r) g) = Some (concat (map le16 uv), rd_at c r g)"
    using assms(1) by (intro bcread_mem_app) (simp_all add: mult.commute)
  show ?thesis using m u z assms(2) by (auto simp: bcread_uv_def words16_le)
qed

lemma bcread_dbg_app:
  assumes "length d < 2 ^ 31" "\<not> bcread_swap c"
  shows "bcread_dbg sizebc numline (of_nat (length d)) (rd_at c (d @ r) g) = Some (d, rd_at c r g)"
  using assms bcread_mem_app [OF assms(1) refl, of c r g] by (simp add: bcread_dbg_def)

lemma bcread_proto_app:
  assumes e: "mem_total e" and ok: "proto_ok e strip pt" and b: "str_budget g (concat (map kgc_strs (up_kgc pt)) @ ss)"
    and ch: "list_all2 (proto_loaded strip g (rd_chunkname c)) (kgc_children (up_kgc pt)) lps" "rd_stk c = lps @ stk"
    and fl: "rd_flags c = (if strip then 2 else 0)"
  shows "\<exists>lp g'. bcread_proto e (rd_at c (body_bytes strip pt @ r) g) = Some (Some lp, rd_at (c\<lparr>rd_stk := stk\<rparr>) r g') \<and>
     proto_loaded strip g' (rd_chunkname c) pt lp \<and> str_budget g' ss \<and> strobjs g \<subseteq>\<^sub>m strobjs g'"
proof -
  obtain fl np fs uv ks kn bc dbg where pt: "pt = UProto fl np fs uv ks kn bc dbg" by (cases pt)
  let ?d = "dbg_info strip pt" and ?c = "c\<lparr>rd_stk := stk\<rparr>"
  let ?sz = "size_pt (Suc (length bc)) (length ks) (length kn) (length uv) (length ?d)"
  note ok' = ok [unfolded proto_ok_def pt, simplified]
  have sz: "?sz < 2 ^ 31" using ok by (simp add: proto_ok_def pt)
  note parts = size_pt_parts [OF sz]
  have u: "unat (of_nat (length ks) :: u32) = length ks" "unat (of_nat (length kn) :: u32) = length kn"
    "unat (of_nat (length ?d) :: u32) = length ?d" "unat (of_nat (length bc) + 1 :: u32) = Suc (length bc)"
    using parts unat_of_nat32 [of "length ks"] unat_of_nat32 [of "length kn"] unat_of_nat32 [of "length ?d"]
      unat_of_nat32 [of "Suc (length bc)"] by (simp_all add: add.commute)
  have uu: "unat (of_nat (length uv) :: u8) = length uv"
    using ok' by (simp add: unsigned_of_nat take_bit_nat_eq_self)
  have ns: "(of_nat (length bc) + 1 :: u32) \<noteq> 0" using u(4) by (metis nat.distinct(1) unat_0)
  have sw: "\<not> bcread_swap c" "\<not> bcread_swap ?c" using fl by (simp_all add: bcread_swap_def)
  have obj: "be_obj e n" for n using e by (simp add: mem_total_def)
  have kn: "list_all (\<lambda>n. \<exists>v. n = TNum v) kn"
  proof -
    have "(case n of TNum _ \<Rightarrow> True | _ \<Rightarrow> False) \<Longrightarrow> \<exists>v. n = TNum v" for n by (cases n) auto
    then show ?thesis using ok by (auto simp: proto_ok_def pt list_all_iff)
  qed
  let ?R2 = "knum_bytes kn @ ?d @ r"
  obtain lks g' where k: "bcread_kgc e (length ks) (rd_at c (kgc_bytes ks @ ?R2) g) = Some (Some lks, rd_at ?c ?R2 g')"
    "kgcs_loaded strip g' (rd_chunkname c) ks lks" "str_budget g' ss" "strobjs g \<subseteq>\<^sub>m strobjs g'"
    using bcread_kgc_app [OF e, of ks g ss strip "rd_chunkname c" lps c stk ?R2] ok' b ch pt by auto
  obtain ns where n: "bcread_knum (length kn) (rd_at ?c ?R2 g') = Some (ns, rd_at ?c (?d @ r) g')" "list_all2 (val_repr g') kn ns"
    using bcread_knum_app [OF kn, of ?c "?d @ r" g' g'] by auto
  note rd = bcread_bytecode_app [OF parts(1) sw(1)] bcread_uv_app [OF _ sw(1)] bcread_dbg_app [OF parts(4) sw(2)]
  note sim = bcread_proto_def body_bytes_def proto_head_def dbg_info_def bcwrite_uint32_def Let_def pt sz [unfolded pt] u uu ns obj rd k(1) n(1) ok'
    flags_and
  have "\<exists>lp. bcread_proto e (rd_at c (body_bytes strip pt @ r) g) = Some (Some lp, rd_at ?c r g') \<and>
     proto_loaded strip g' (rd_chunkname c) pt lp"
  proof (cases "?d = []")
    case True
    then have d: "strip \<or> dbg = None \<or> (\<exists>first num. dbg = Some (first, num, []))"
      by (auto simp: dbg_info_def pt split: if_splits option.splits)
    show ?thesis
      using d True fl sz k(1,2) n
      by (elim disjE) (auto simp: sim func_header_def dbg_loaded_def split: option.splits)
  next
    case False
    then obtain first num dd where d: "\<not> strip" "dbg = Some (first, num, dd)" "?d = dd" "dd \<noteq> []"
      by (auto simp: dbg_info_def pt split: if_splits option.splits)
    have ne: "(of_nat (length dd) :: u32) \<noteq> 0" using d(3,4) u(3) by (metis length_0_conv unat_0)
    obtain vi where vi: "bcread_varinfo (of_nat (length uv)) (drop (push_bit (lineinfo_shift num) (length bc)) dd) = Some vi"
      using ok d by (auto simp: proto_ok_def pt dbg_numline_def)
    have ub: "unat (of_nat (length bc) :: u32) = length bc" using parts(1) by (intro unat_of_nat32) simp
    show ?thesis
      using d fl k(2) n(2) ne vi sz ub
      by (auto simp: bcread_proto_def body_bytes_def proto_head_def dbg_info_def bcwrite_uint32_def Let_def pt u [unfolded d(3)] uu ns obj
          rd [unfolded d(3)] ok' [THEN conjunct1] k(1) [unfolded d(3)] n(1) [unfolded d(3)] flags_and func_header_def dbg_loaded_def)
  qed
  then show ?thesis using k by blast
qed

section \<open>The whole dump\<close>

text \<open>The strings in the order they are interned.\<close>

definition own_strs :: "uproto \<Rightarrow> u8 list list" where
  "own_strs pt = concat (map kgc_strs (up_kgc pt))"

definition protos_strs :: "uproto list \<Rightarrow> u8 list list" where
  "protos_strs pts = concat (map own_strs pts)"

lemma protos_strs_simps [simp]:
  "protos_strs [] = []" "protos_strs (pt # pts) = own_strs pt @ protos_strs pts"
  "protos_strs (xs @ ys) = protos_strs xs @ protos_strs ys"
  by (simp_all add: protos_strs_def)

lemma chunk_bytes_first:
  assumes "length (body_bytes strip pt) mod 256 \<noteq> 0"
  shows "chunk_bytes strip pt @ r \<noteq> []" "hd (chunk_bytes strip pt @ r) \<noteq> 0"
proof -
  have "hd (chunk_bytes strip pt @ r) = ucast (of_nat (length (body_bytes strip pt)) :: u32)"
    by (simp add: chunk_bytes_def Let_def bcwrite_uint32_def le32_def)
  moreover have "unat (ucast (of_nat (length (body_bytes strip pt)) :: u32) :: u8) = length (body_bytes strip pt) mod 256"
    by (simp add: unsigned_ucast_eq unsigned_of_nat take_bit_nat_def mod_mod_cancel)
  ultimately show "hd (chunk_bytes strip pt @ r) \<noteq> 0" using assms by (metis unat_0)
  show "chunk_bytes strip pt @ r \<noteq> []" by (simp add: chunk_bytes_def Let_def bcwrite_uint32_def le32_def)
qed

text \<open>One round of the loop on one chunk.\<close>

lemma bcread_loop_step:
  assumes e: "mem_total e" and ok: "proto_ok e strip pt" and b: "str_budget g (own_strs pt @ ss)"
    and ch: "list_all2 (proto_loaded strip g (rd_chunkname c)) (kgc_children (up_kgc pt)) lps" "rd_stk c = lps @ stk"
    and fl: "rd_flags c = (if strip then 2 else 0)" and room: "length stk < be_room e"
  shows "\<exists>lp g'. bcread_loop e (Suc n) (rd_at c (chunk_bytes strip pt @ r) g) =
       bcread_loop e n (rd_at (c\<lparr>rd_stk := lp # stk\<rparr>) r g') \<and>
     proto_loaded strip g' (rd_chunkname c) pt lp \<and> str_budget g' ss \<and> strobjs g \<subseteq>\<^sub>m strobjs g'"
proof -
  let ?b = "body_bytes strip pt"
  have len: "length ?b mod 256 \<noteq> 0" "length ?b < 2 ^ 31" using ok by (auto simp: proto_ok_def)
  have "unat (of_nat (length ?b) :: u32) = length ?b" using len(2) by (intro unat_of_nat32) simp
  moreover have "length ?b \<noteq> 0" using len(1) by (metis mod_0)
  ultimately have ne: "(of_nat (length ?b) :: u32) \<noteq> 0" by (metis unat_0)
  obtain lp g' where p: "bcread_proto e (rd_at c (?b @ r) g) = Some (Some lp, rd_at (c\<lparr>rd_stk := stk\<rparr>) r g')"
     "proto_loaded strip g' (rd_chunkname c) pt lp" "str_budget g' ss" "strobjs g \<subseteq>\<^sub>m strobjs g'"
    using bcread_proto_app [OF e ok _ ch fl, of ss r] b by (auto simp: own_strs_def)
  have w: "chunk_bytes strip pt @ r = le32 (of_nat (length ?b)) @ ?b @ r"
    by (simp add: chunk_bytes_def Let_def bcwrite_uint32_def)
  have "bcread_loop e (Suc n) (rd_at c (chunk_bytes strip pt @ r) g) =
       bcread_loop e n (rd_at (c\<lparr>rd_stk := lp # stk\<rparr>) r g')"
    using chunk_bytes_first [OF len(1), of r] p(1) ne room sint_of_nat32 [OF len(2)] by (simp add: w)
  then show ?thesis using p by blast
qed

declare bcread_loop.simps [simp del]

definition order_ok :: "bcread_env \<Rightarrow> bool \<Rightarrow> ktap_global \<Rightarrow> uproto list \<Rightarrow> u8 list list \<Rightarrow> nat \<Rightarrow> bool" where
  "order_ok e strip g pts ss d \<longleftrightarrow> list_all (proto_ok e strip) pts \<and> str_budget g (protos_strs pts @ ss) \<and>
     d + length pts \<le> be_room e"

lemma bcread_loop_order:
  assumes e: "mem_total e"
  shows "order_ok e strip g (proto_order pt) ss (length (rd_stk c)) \<Longrightarrow> rd_flags c = (if strip then 2 else 0) \<Longrightarrow>
     \<exists>lp g'. bcread_loop e (length (proto_order pt) + n) (rd_at c (concat (map (chunk_bytes strip) (proto_order pt)) @ r) g) =
        bcread_loop e n (rd_at (c\<lparr>rd_stk := lp # rd_stk c\<rparr>) r g') \<and>
      proto_loaded strip g' (rd_chunkname c) pt lp \<and> str_budget g' ss \<and> strobjs g \<subseteq>\<^sub>m strobjs g'"
    and "order_ok e strip g (kgcs_order ks) ss (length (rd_stk c)) \<Longrightarrow> rd_flags c = (if strip then 2 else 0) \<Longrightarrow>
     \<exists>lps g'. bcread_loop e (length (kgcs_order ks) + n) (rd_at c (concat (map (chunk_bytes strip) (kgcs_order ks)) @ r) g) =
        bcread_loop e n (rd_at (c\<lparr>rd_stk := lps @ rd_stk c\<rparr>) r g') \<and> length lps \<le> length (kgcs_order ks) \<and>
      list_all2 (proto_loaded strip g' (rd_chunkname c)) (kgc_children ks) lps \<and> str_budget g' ss \<and> strobjs g \<subseteq>\<^sub>m strobjs g'"
    and "order_ok e strip g (kgc_order k) ss (length (rd_stk c)) \<Longrightarrow> rd_flags c = (if strip then 2 else 0) \<Longrightarrow>
     \<exists>lps g'. bcread_loop e (length (kgc_order k) + n) (rd_at c (concat (map (chunk_bytes strip) (kgc_order k)) @ r) g) =
        bcread_loop e n (rd_at (c\<lparr>rd_stk := lps @ rd_stk c\<rparr>) r g') \<and> length lps \<le> length (kgc_order k) \<and>
      list_all2 (proto_loaded strip g' (rd_chunkname c)) (kgc_children [k]) lps \<and> str_budget g' ss \<and> strobjs g \<subseteq>\<^sub>m strobjs g'"
proof (induction pt and ks and k arbitrary: g ss c n r and g ss c n r and g ss c n r
    rule: proto_order_kgcs_order_kgc_order.induct)
  case (1 fl np fs uv ks kn bc dbg)
  let ?pt = "UProto fl np fs uv ks kn bc dbg" and ?W = "\<lambda>pts. concat (map (chunk_bytes strip) pts)"
  have ok: "proto_ok e strip ?pt" using "1.prems"(1) by (simp add: order_ok_def)
  have "\<exists>lps g1. bcread_loop e (length (proto_order ?pt) + n) (rd_at c (?W (proto_order ?pt) @ r) g) =
        bcread_loop e (Suc n) (rd_at (c\<lparr>rd_stk := lps @ rd_stk c\<rparr>) (chunk_bytes strip ?pt @ r) g1) \<and>
      list_all2 (proto_loaded strip g1 (rd_chunkname c)) (kgc_children ks) lps \<and>
      str_budget g1 (own_strs ?pt @ ss) \<and> strobjs g \<subseteq>\<^sub>m strobjs g1"
  proof (cases "fl AND PROTO_CHILD \<noteq> 0")
    case True
    have oo: "order_ok e strip g (kgcs_order ks) (own_strs ?pt @ ss) (length (rd_stk c))"
      using "1.prems"(1) True by (simp add: order_ok_def)
    show ?thesis
      using "1.IH" [OF True oo "1.prems"(2), of "Suc n" "chunk_bytes strip ?pt @ r"] True by auto
  next
    case False
    then have "kgc_children ks = []" using ok by (auto simp: proto_ok_def)
    then show ?thesis using False "1.prems"(1)
      by (intro exI [of _ "[]"] exI [of _ g]) (simp add: order_ok_def)
  qed
  then obtain lps g1 where l: "bcread_loop e (length (proto_order ?pt) + n) (rd_at c (?W (proto_order ?pt) @ r) g) =
        bcread_loop e (Suc n) (rd_at (c\<lparr>rd_stk := lps @ rd_stk c\<rparr>) (chunk_bytes strip ?pt @ r) g1)"
      "list_all2 (proto_loaded strip g1 (rd_chunkname c)) (kgc_children ks) lps"
      "str_budget g1 (own_strs ?pt @ ss)" "strobjs g \<subseteq>\<^sub>m strobjs g1" by blast
  have room: "length (rd_stk c) < be_room e" using "1.prems"(1) by (simp add: order_ok_def)
  obtain lp g' where "bcread_loop e (Suc n) (rd_at (c\<lparr>rd_stk := lps @ rd_stk c\<rparr>) (chunk_bytes strip ?pt @ r) g1) =
       bcread_loop e n (rd_at (c\<lparr>rd_stk := lp # rd_stk c\<rparr>) r g')"
     "proto_loaded strip g' (rd_chunkname c) ?pt lp" "str_budget g' ss" "strobjs g1 \<subseteq>\<^sub>m strobjs g'"
    using bcread_loop_step [OF e ok l(3), of "c\<lparr>rd_stk := lps @ rd_stk c\<rparr>" lps "rd_stk c" n r] l(2) "1.prems"(2) room
    by auto
  then show ?case using l(1) map_le_trans [OF l(4)] by (intro exI [of _ lp] exI [of _ g']) simp
next
  case 2
  then show ?case by (intro exI [of _ "[]"] exI [of _ g]) (simp add: order_ok_def)
next
  case (3 k ks)
  let ?W = "\<lambda>pts. concat (map (chunk_bytes strip) pts)"
  have ok: "order_ok e strip g (kgcs_order ks) (protos_strs (kgc_order k) @ ss) (length (rd_stk c))"
    using "3.prems" by (simp add: order_ok_def)
  obtain lps g1 where l: "bcread_loop e (length (kgcs_order ks) + (length (kgc_order k) + n))
        (rd_at c (?W (kgcs_order ks) @ ?W (kgc_order k) @ r) g) =
        bcread_loop e (length (kgc_order k) + n) (rd_at (c\<lparr>rd_stk := lps @ rd_stk c\<rparr>) (?W (kgc_order k) @ r) g1)"
      "length lps \<le> length (kgcs_order ks)"
      "list_all2 (proto_loaded strip g1 (rd_chunkname c)) (kgc_children ks) lps" "str_budget g1 (protos_strs (kgc_order k) @ ss)"
      "strobjs g \<subseteq>\<^sub>m strobjs g1"
    using "3.IH"(1) [OF ok "3.prems"(2), of "length (kgc_order k) + n" "?W (kgc_order k) @ r"] by blast
  let ?c = "c\<lparr>rd_stk := lps @ rd_stk c\<rparr>"
  have "order_ok e strip g1 (kgc_order k) ss (length (rd_stk ?c))"
    using "3.prems"(1) l(2,4) by (simp add: order_ok_def)
  then obtain lps' g2 where m: "bcread_loop e (length (kgc_order k) + n) (rd_at ?c (?W (kgc_order k) @ r) g1) =
        bcread_loop e n (rd_at (?c\<lparr>rd_stk := lps' @ rd_stk ?c\<rparr>) r g2)" "length lps' \<le> length (kgc_order k)"
      "list_all2 (proto_loaded strip g2 (rd_chunkname ?c)) (kgc_children [k]) lps'" "str_budget g2 ss" "strobjs g1 \<subseteq>\<^sub>m strobjs g2"
    using "3.IH"(2) [of g1 ss ?c n r] "3.prems"(2) by auto
  have ch: "kgc_children (k # ks) = kgc_children [k] @ kgc_children ks" by (cases k) auto
  have "list_all2 (proto_loaded strip g2 (rd_chunkname c)) (kgc_children ks) lps"
    using l(3) loaded_mono(1) [OF m(5)] list_all2_mono by blast
  then have "list_all2 (proto_loaded strip g2 (rd_chunkname c)) (kgc_children (k # ks)) (lps' @ lps)"
    unfolding ch using m(3) by (intro list_all2_appendI) simp_all
  then show ?case using l(1,2) m map_le_trans [OF l(5) m(5)]
    by (intro exI [of _ "lps' @ lps"] exI [of _ g2]) (simp add: add.assoc)
next
  case (4 pt)
  have "order_ok e strip g (proto_order pt) ss (length (rd_stk c))" using "4.prems"(1) by simp
  then obtain lp g' where "bcread_loop e (length (proto_order pt) + n) (rd_at c (concat (map (chunk_bytes strip) (proto_order pt)) @ r) g) =
        bcread_loop e n (rd_at (c\<lparr>rd_stk := lp # rd_stk c\<rparr>) r g')"
      "proto_loaded strip g' (rd_chunkname c) pt lp" "str_budget g' ss" "strobjs g \<subseteq>\<^sub>m strobjs g'"
    using "4.IH" [of g ss c n r] "4.prems"(2) by blast
  moreover have "1 \<le> length (proto_order pt)" by (cases pt) simp
  ultimately show ?case by (intro exI [of _ "[lp]"] exI [of _ g']) simp
qed (intro exI [of _ "[]"], auto simp: order_ok_def)

definition chunk_name :: "bool \<Rightarrow> u8 list \<Rightarrow> u8 list" where
  "chunk_name strip name = (if strip then striped else name)"

lemma str_budget_name: "str_budget g (chunk_name strip name # ss) \<Longrightarrow> strip \<or> length name < 2 ^ 31 - 10"
  by (cases strip) (auto simp: str_budget_def chunk_name_def)

lemma bcread_header_app:
  assumes "str_budget g (chunk_name strip name # ss)" "arg_ok e (chunk_name strip name)"
  shows "\<exists>nm g'. bcread_header e (rd_at c (header_bytes strip name @ r) g) =
      Some (True, rd_at (c\<lparr>rd_flags := if strip then 2 else 0, rd_chunkname := nm\<rparr>) r g') \<and>
    str_content g' nm = Some (chunk_name strip name) \<and> str_budget g' ss \<and> strobjs g \<subseteq>\<^sub>m strobjs g'"
proof (cases strip)
  case True
  obtain nm g' where "kp_str_new g ((be_arg e 0)\<lparr>sa_bytes := striped\<rparr>) = Some (nm, g')" "nm \<noteq> 0" "str_budget g' ss"
     "str_content g' nm = Some striped" "strobjs g \<subseteq>\<^sub>m strobjs g'"
    using str_budget_step [OF assms(1) _ arg_ok_sa [OF assms(2), of 0]] True by (auto simp: chunk_name_def)
  then show ?thesis using True
    by (intro exI [of _ nm] exI [of _ g']) (simp add: bcread_header_def header_bytes_def chunk_name_def)
next
  case False
  obtain nm g' where "bcread_str e (of_nat (length name)) (rd_at (c\<lparr>rd_flags := 0\<rparr>) (name @ r) g) = Some (nm, rd_at (c\<lparr>rd_flags := 0\<rparr>) r g')"
     "nm \<noteq> 0" "str_budget g' ss" "str_content g' nm = Some name" "strobjs g \<subseteq>\<^sub>m strobjs g'"
    using bcread_str_app [of g name ss e "of_nat (length name)" "c\<lparr>rd_flags := 0\<rparr>" r] assms False by (auto simp: chunk_name_def)
  then show ?thesis using False
    by (intro exI [of _ nm] exI [of _ g']) (simp add: bcread_header_def header_bytes_def chunk_name_def bcwrite_uint32_def)
qed

lemma chunks_length: "length pts \<le> length (concat (map (chunk_bytes strip) pts))"
  by (induction pts) (auto simp: chunk_bytes_def Let_def bcwrite_uint32_def)

lemma rd_at_init:
  "\<lparr>rd_flags = f, rd_p = p, rd_chunkname = nm, rd_stk = s, rd_g = g\<rparr> =
   rd_at \<lparr>rd_flags = f, rd_p = [], rd_chunkname = nm, rd_stk = s, rd_g = g\<rparr> p g"
  by (simp add: rd_at_def)

lemma bcread_dump:
  assumes "mem_total e" "list_all (proto_ok e strip) (proto_order pt)" "length (proto_order pt) \<le> be_room e"
    and "arg_ok e (chunk_name strip name)" "str_budget g (chunk_name strip name # protos_strs (proto_order pt))"
  shows "\<exists>lp g'. kp_bcread e g (bc_dump strip name pt) = Some (Some lp, g') \<and>
     proto_loaded strip g' (lp_chunkname lp) pt lp \<and> str_content g' (lp_chunkname lp) = Some (chunk_name strip name)"
proof -
  let ?c0 = "\<lparr>rd_flags = 0, rd_p = [], rd_chunkname = 0, rd_stk = [], rd_g = g\<rparr>" and ?o = "proto_order pt"
  let ?W = "concat (map (chunk_bytes strip) ?o)" and ?f = "bc_dump strip name pt"
  have dump: "?f = header_bytes strip name @ ?W @ [0]" by (simp add: bc_dump_def)
  obtain nm g1 where h: "bcread_header e (rd_at ?c0 ?f g) =
      Some (True, rd_at (?c0\<lparr>rd_flags := if strip then 2 else 0, rd_chunkname := nm\<rparr>) (?W @ [0]) g1)"
    "str_content g1 nm = Some (chunk_name strip name)" "str_budget g1 (protos_strs ?o)" "strobjs g \<subseteq>\<^sub>m strobjs g1"
    using bcread_header_app [OF assms(5,4), of ?c0 "?W @ [0]"] unfolding dump by auto
  let ?c = "?c0\<lparr>rd_flags := if strip then 2 else 0, rd_chunkname := nm\<rparr>"
  obtain n where n: "Suc (length (?W @ [0])) = length ?o + Suc n"
    using chunks_length [of ?o strip] by (metis Suc_leI add_Suc_right le_Suc_ex length_append_singleton less_Suc_eq_le)
  have oo: "order_ok e strip g1 ?o [] (length (rd_stk ?c))" using assms(2,3) h(3) by (simp add: order_ok_def)
  obtain lp g2 where l: "bcread_loop e (length ?o + Suc n) (rd_at ?c (?W @ [0]) g1) =
        bcread_loop e (Suc n) (rd_at (?c\<lparr>rd_stk := [lp]\<rparr>) [0] g2)"
      "proto_loaded strip g2 nm pt lp" "strobjs g1 \<subseteq>\<^sub>m strobjs g2"
    using bcread_loop_order(1) [OF assms(1) oo, of "Suc n" "[0]"] by auto
  have "bcread_loop e (Suc n) (rd_at (?c\<lparr>rd_stk := [lp]\<rparr>) [0] g2) = Some (Some (True, rd_at (?c\<lparr>rd_stk := [lp]\<rparr>) [] g2))"
    by (simp add: bcread_loop.simps)
  then have "kp_bcread e g ?f = Some (Some lp, g2)"
    using h(1) l(1) n by (simp add: kp_bcread_def Let_def rd_at_init [where p = ?f])
  moreover have "lp_chunkname lp = nm" using l(2) by (cases pt) simp
  ultimately show ?thesis using l(2) content_mono [OF l(3) h(2)] by simp
qed

text \<open>
  C2: what the compiler writes the kernel module loads.  The conditions on the program are those of \<open>proto_ok\<close> for every prototype (the counts
  fit their fields, the number constants are numbers, template tables have keys the loader takes, the debug information is complete, a
  child is announced by its flag, and the length of the body is no multiple of 256), strings that fit the string table, one stack slot per
  prototype and memory for the objects.  Then, when the chunks fit the 1024 bytes of the first block (\<open>chunk_fits\<close>), \<^verbatim>\<open>kp_bcwrite\<close> writes all
  of the dump inside its block; and whenever it does so, with or without growing the block, it returns 0, and \<^verbatim>\<open>kp_bcread\<close> reads its dump
  without fault or error into the same tree of prototypes: the same flags, code behind the function header,
  upvalue references, numbers, debug information unless stripped, interned strings of the same content, template
  tables standing for the same map, and child prototypes in the same constant slots.
\<close>

theorem bcread_bcwrite_roundtrip:
  assumes "mem_total e" "list_all (proto_ok e strip) (proto_order pt)" "length (proto_order pt) \<le> be_room e"
    and "arg_ok e (chunk_name strip name)" "str_budget g (chunk_name strip name # protos_strs (proto_order pt))"
  shows "(list_all (chunk_fits strip) (proto_order pt) \<longrightarrow> kp_bcwrite ju pt name write_append [] strip \<noteq> None) \<and>
    (\<forall>r dump. kp_bcwrite ju pt name write_append [] strip = Some (r, dump) \<longrightarrow> r = 0 \<and>
      (\<exists>lp g'. kp_bcread e g dump = Some (Some lp, g') \<and> proto_loaded strip g' (lp_chunkname lp) pt lp \<and>
        str_content g' (lp_chunkname lp) = Some (chunk_name strip name)))"
  using bcread_dump [OF assms] kp_bcwrite_fits [of strip pt name ju write_append "[]"] str_budget_name [OF assms(5)]
  by (auto dest: kp_bcwrite_append)

definition trip_env :: bcread_env where
  "trip_env = \<lparr>be_arg = (\<lambda>_. abc_arg), be_obj = (\<lambda>_. True), be_junk = kp_niltv, be_room = 119, be_tabmem = two_mem,
     be_tabenv = no_env\<rparr>"

definition trip_proto :: uproto where
  "trip_proto = UProto 1 0 3 []
     [KgcChild (UProto 0 1 2 [0x8000] [KgcStr [97, 98, 99]] [TNum 5] [0x102, 0x203] (Some (1, 2, [1, 1, 120, 0, 0]))),
      KgcStr [97, 98, 99],
      KgcTab \<lparr>ut_array = [TPri KTAP_TNIL, TNum 7, TPri KTAP_TNIL], ut_node = [(TStr [107], TNum 1), (TPri KTAP_TNIL, TPri KTAP_TNIL)]\<rparr>]
     [] [0x304] None"

lemma trip_env_total: "mem_total trip_env"
  using two_mem_sized by (simp add: mem_total_def trip_env_def two_mem_def)

lemma trip_order_ok: "list_all (proto_ok trip_env False) (proto_order trip_proto)"
proof -
  have a: "arg_ok trip_env [97, 98, 99]" "arg_ok trip_env [107]" by (simp_all add: arg_ok_def)
  have t: "ktab_narray \<lparr>ut_array = [TPri KTAP_TNIL, TNum 7, TPri KTAP_TNIL], ut_node = [(TStr [107], TNum 1), (TPri KTAP_TNIL, TPri KTAP_TNIL)]\<rparr> = 2"
    "ktab_hash \<lparr>ut_array = [TPri KTAP_TNIL, TNum 7, TPri KTAP_TNIL], ut_node = [(TStr [107], TNum 1), (TPri KTAP_TNIL, TPri KTAP_TNIL)]\<rparr> = [(TStr [107], TNum 1)]"
    by code_simp+
  have l: "map (\<lambda>p. length (body_bytes False p)) (proto_order trip_proto) = [58, 80]" by code_simp
  show ?thesis using a t l
    by (simp add: trip_proto_def proto_ok_def ktab_ok_def key_tval_ok_def tval_nil_def typetag size_pt_def ofs_dbg_def ofs_uv_def
        ofs_k_def dbg_info_def bcread_varinfo_def dbg_numline_def lineinfo_shift_def)
qed

lemma trip_budget: "str_budget str_example (chunk_name False [97] # protos_strs (proto_order trip_proto))"
proof -
  have s: "protos_strs (proto_order trip_proto) = [[97, 98, 99], [97, 98, 99], [107]]" by code_simp
  show ?thesis using str_example_inv unfolding s
    by (simp add: str_budget_def str_example_def kp_str_resize_def pool_example_def chunk_name_def)
qed

lemma trip_rest: "length (proto_order trip_proto) \<le> be_room trip_env" "arg_ok trip_env (chunk_name False [97])"
  by (code_simp, simp add: arg_ok_def chunk_name_def)

theorem bcread_bcwrite_roundtrip_witness:
  "\<exists>dump lp g'. kp_bcwrite (\<lambda>_. 0) trip_proto [97] write_append [] False = Some (0, dump) \<and> kp_bcread trip_env str_example dump = Some (Some lp, g') \<and>
     proto_loaded False g' (lp_chunkname lp) trip_proto lp \<and> str_content g' (lp_chunkname lp) = Some [97]"
proof -
  have "list_all (chunk_fits False) (proto_order trip_proto)" by code_simp
  then show ?thesis
    using bcread_bcwrite_roundtrip [OF trip_env_total trip_order_ok trip_rest trip_budget, of "\<lambda>_. 0"] by (auto simp: chunk_name_def)
qed

text \<open>
  C23: a dump is rejected when the length of its first chunk is a multiple of 256: the shortcut for
  the end of the dump looks at the first byte of the length only, so that the loop ends before
  any prototype is read and \<^verbatim>\<open>kp_bcread\<close> reports malformed bytecode.  This holds of everything \<^verbatim>\<open>kp_bcwrite\<close> writes for such a
  prototype inside its buffer, and when the chunks fit the first block it does write it.
\<close>

theorem bcread_eof_shortcut_rejects:
  assumes "proto_order pt = p # ps" "length (body_bytes strip p) mod 256 = 0"
    and "arg_ok e (chunk_name strip name)" "str_budget g [chunk_name strip name]"
  shows "(list_all (chunk_fits strip) (proto_order pt) \<longrightarrow> kp_bcwrite ju pt name write_append [] strip \<noteq> None) \<and>
    (\<forall>r dump. kp_bcwrite ju pt name write_append [] strip = Some (r, dump) \<longrightarrow>
      (\<exists>g'. kp_bcread e g dump = Some (None, g') \<and> gstatus g' = KTAP_ERROR))"
proof -
  let ?c0 = "\<lparr>rd_flags = 0, rd_p = [], rd_chunkname = 0, rd_stk = [], rd_g = g\<rparr>" and ?f = "bc_dump strip name pt"
  let ?R = "chunk_bytes strip p @ concat (map (chunk_bytes strip) ps) @ [0]"
  have dump: "?f = header_bytes strip name @ ?R"
    using assms(1) by (simp add: bc_dump_def)
  obtain nm g1 where h: "bcread_header e (rd_at ?c0 ?f g) =
      Some (True, rd_at (?c0\<lparr>rd_flags := if strip then 2 else 0, rd_chunkname := nm\<rparr>) ?R g1)"
    using bcread_header_app [OF assms(4,3), of ?c0 ?R] unfolding dump by auto
  have "unat (ucast (of_nat (length (body_bytes strip p)) :: u32) :: u8) = length (body_bytes strip p) mod 256"
    by (simp add: unsigned_ucast_eq unsigned_of_nat take_bit_nat_def mod_mod_cancel)
  then have "hd ?R = 0" "?R \<noteq> []"
    using assms(2) by (simp_all add: chunk_bytes_def Let_def bcwrite_uint32_def le32_def unat_eq_zero)
  then have "kp_bcread e g ?f = Some (None, kp_error KP_ERR_BCBAD g1)"
    using h by (simp add: kp_bcread_def Let_def rd_at_init [where p = ?f] bcread_loop.simps bcread_error_def)
  then show ?thesis
    using kp_bcwrite_fits [of strip pt name ju write_append "[]"] str_budget_name [OF assms(4)]
    by (auto dest: kp_bcwrite_append)
qed

definition eof_proto :: uproto where "eof_proto = UProto 0 0 1 [] [] [] (replicate 60 0x44) None"

theorem bcread_eof_shortcut_rejects_witness:
  "\<exists>r dump g'. kp_bcwrite (\<lambda>_. 0) eof_proto [97] write_append [] True = Some (r, dump) \<and>
     kp_bcread trip_env str_example dump = Some (None, g') \<and> gstatus g' = KTAP_ERROR"
proof -
  have "proto_order eof_proto = eof_proto # []" by code_simp
  moreover have "length (body_bytes True eof_proto) mod 256 = 0" by code_simp
  moreover have "str_budget str_example [striped]"
    using str_example_inv by (simp add: str_budget_def str_example_def kp_str_resize_def pool_example_def striped_def)
  moreover have "arg_ok trip_env striped" by (simp add: arg_ok_def striped_def)
  moreover have "list_all (chunk_fits True) (proto_order eof_proto)" by code_simp
  ultimately show ?thesis
    using bcread_eof_shortcut_rejects [of eof_proto eof_proto "[]" True trip_env "[97]" str_example "\<lambda>_. 0"]
    by (auto simp: chunk_name_def)
qed



section \<open>The loader never moves backwards\<close>

text \<open>A reader that succeeds leaves at most as many bytes as it found.\<close>

definition shrinks :: "('a \<times> bcread_ctx) option \<Rightarrow> bcread_ctx \<Rightarrow> bool" where
  "shrinks r c \<longleftrightarrow> (\<forall>v c'. r = Some (v, c') \<longrightarrow> length (rd_p c') \<le> length (rd_p c))"

lemma shrinks_Some [simp]: "shrinks (Some (v, c')) c \<longleftrightarrow> length (rd_p c') \<le> length (rd_p c)"
  and shrinks_None [simp]: "shrinks None c"
  by (simp_all add: shrinks_def)

lemma shrinks_bind:
  assumes "shrinks r c" "\<And>v c'. r = Some (v, c') \<Longrightarrow> shrinks (f (v, c')) c'"
  shows "shrinks (r \<bind> f) c"
  using assms unfolding shrinks_def by (cases r) fastforce+

lemma shrinks_update [simp]:
  "shrinks r (c\<lparr>rd_g := g\<rparr>) = shrinks r c" "shrinks r (c\<lparr>rd_flags := f\<rparr>) = shrinks r c"
  "shrinks r (c\<lparr>rd_stk := s\<rparr>) = shrinks r c"
  by (simp_all add: shrinks_def)

lemma shrinks_str: "shrinks (bcread_str e len c) c"
  by (auto simp: bcread_str_def bcread_mem_def shrinks_def split: bind_splits if_splits)

lemma shrinks_input: "shrinks (bcread_mem len c) c" "shrinks (bcread_byte c) c" "shrinks (bcread_uint32 c) c"
  by (auto simp: bcread_mem_def bcread_byte_def bcread_uint32_def split: list.splits)

lemma shrinks_ktabk: "shrinks (bcread_ktabk e o' c) c"
  unfolding bcread_ktabk_def
  by (intro shrinks_bind shrinks_input shrinks_str) (auto intro!: shrinks_bind shrinks_input shrinks_str)

lemma shrinks_karray: "shrinks (bcread_karray e i n t c) c"
  by (induction e i n t c rule: bcread_karray.induct)
    (auto intro!: shrinks_bind shrinks_ktabk split: option.splits)

lemma shrinks_khash: "shrinks (bcread_khash e n t c) c"
proof (induction n arbitrary: t c)
  case (Suc n)
  have "shrinks (kp_tab_set env g t k v \<bind> (\<lambda>(t, g). bcread_khash e n t (c\<lparr>rd_g := g\<rparr>))) c" for env g t k v c
    using Suc [of _ "c\<lparr>rd_g := _\<rparr>"] by (cases "kp_tab_set env g t k v") auto
  then show ?case by (auto intro!: shrinks_bind shrinks_ktabk split: option.splits)
qed simp

lemma shrinks_ktab: "shrinks (bcread_ktab e c) c"
proof -
  have "shrinks (kp_tab_new tm g a h \<bind> (\<lambda>(t, g). let c = c\<lparr>rd_g := g\<rparr> in
       case t of None \<Rightarrow> Some (None, c)
       | Some t \<Rightarrow> bcread_karray e 0 n t c \<bind>
           (\<lambda>(t, c). case t of None \<Rightarrow> Some (None, c) | Some t \<Rightarrow> bcread_khash e m t c))) c" for tm g a h n m c
  proof -
    have "shrinks (bcread_karray e 0 n t (c\<lparr>rd_g := g'\<rparr>) \<bind>
           (\<lambda>(t, c). case t of None \<Rightarrow> Some (None, c) | Some t \<Rightarrow> bcread_khash e m t c)) (c\<lparr>rd_g := g'\<rparr>)" for t g'
      by (rule shrinks_bind, rule shrinks_karray) (auto intro: shrinks_khash split: option.splits)
    then show ?thesis by (cases "kp_tab_new tm g a h") (auto simp: Let_def split: option.splits)
  qed
  then show ?thesis unfolding bcread_ktab_def by (auto intro!: shrinks_bind shrinks_input)
qed

lemma shrinks_kgc1: "shrinks (bcread_kgc1 e c) c"
  unfolding bcread_kgc1_def
  by (rule shrinks_bind, rule shrinks_input)
    (auto intro!: shrinks_bind shrinks_str shrinks_ktab simp: bcread_error_def split: list.splits)

lemma shrinks_kgc: "shrinks (bcread_kgc e n c) c"
  by (induction e n c rule: bcread_kgc.induct) (auto intro!: shrinks_bind shrinks_kgc1 split: option.splits)

lemma shrinks_knum: "shrinks (bcread_knum n c) c"
  by (induction n c rule: bcread_knum.induct) (auto intro!: shrinks_bind shrinks_input)

lemma shrinks_code: "shrinks (bcread_bytecode fl fs n c) c" "shrinks (bcread_uv u c) c" "shrinks (bcread_dbg sb nl sd c) c"
  unfolding bcread_bytecode_def bcread_uv_def bcread_dbg_def
  by (auto intro!: shrinks_bind shrinks_input simp: Let_def)

lemmas shrinks_readers = shrinks_input shrinks_code shrinks_kgc shrinks_knum

lemma shrinks_bind4:
  assumes "\<And>x y z c'. r = Some (x, y, z, c') \<Longrightarrow> length (rd_p c') \<le> length (rd_p c)"
    "\<And>x y z c'. r = Some (x, y, z, c') \<Longrightarrow> shrinks (f (x, y, z, c')) c'"
  shows "shrinks (r \<bind> f) c"
proof (cases r)
  case (Some a)
  moreover obtain x y z c' where "a = (x, y, z, c')" by (cases a)
  ultimately show ?thesis using assms [of x y z c'] by (fastforce simp: shrinks_def)
qed simp

lemmas readers_le = shrinks_readers [unfolded shrinks_def, rule_format]

lemma shrinks_proto: "shrinks (bcread_proto e c) c"
  unfolding bcread_proto_def Let_def
  by ((rule shrinks_bind, rule shrinks_readers, simp only: prod.case)+, rule shrinks_bind4)
    (auto dest!: readers_le split: if_splits option.splits bind_splits)

text \<open>What is left when a round has read a prototype.\<close>

lemma round_consumes:
  assumes "bcread_uint32 c = Some (len, c1)" "bcread_proto e c1 = Some (v, c2)"
  shows "length (rd_p c2) + 4 \<le> length (rd_p c)"
proof -
  have "length (rd_p c1) + 4 = length (rd_p c)" using assms(1) by (auto simp: bcread_uint32_def bcread_mem_def split: if_splits)
  moreover have "length (rd_p c2) \<le> length (rd_p c1)" using shrinks_proto assms(2) by (auto simp: shrinks_def)
  ultimately show ?thesis by simp
qed

lemma bcread_loop_ends: "length (rd_p c) < 4 * n \<Longrightarrow> bcread_loop e n c \<noteq> None"
proof (induction n arbitrary: c)
  case (Suc n)
  have "bcread_loop e n (c2\<lparr>rd_stk := s\<rparr>) \<noteq> None" if "bcread_uint32 c = Some (len, c1)" "bcread_proto e c1 = Some (v, c2)" for len c1 v c2 s
    using round_consumes [OF that] Suc.prems by (intro Suc.IH) simp
  then show ?case by (auto simp: bcread_loop.simps split: option.splits prod.splits)
qed simp

lemma bcread_loop_more: "bcread_loop e m c = Some r \<Longrightarrow> bcread_loop e (m + k) c = Some r"
proof (induction m arbitrary: c)
  case (Suc m)
  then show ?case by (auto simp: bcread_loop.simps split: if_splits option.splits prod.splits)
qed (simp add: bcread_loop.simps)

text \<open>
  C21: the loop of \<^verbatim>\<open>kp_bcread\<close> terminates on every input: with \<open>n\<close> bytes left it ends within \<open>n div 4 + 1\<close> rounds, by its end mark, by an error or
  by a fault, because every round that goes on has consumed the four bytes of a length and no
  reader moves backwards; and further rounds change nothing.
\<close>

theorem bcread_loop_terminates:
  "\<exists>r. \<forall>k. bcread_loop e (length (rd_p c) div 4 + 1 + k) c = Some r"
proof -
  obtain r where "bcread_loop e (length (rd_p c) div 4 + 1) c = Some r"
    using bcread_loop_ends [of c "length (rd_p c) div 4 + 1" e] by fastforce
  then show ?thesis using bcread_loop_more by blast
qed

text \<open>
  the loader has no bound on its reads.  A dump whose footer is missing makes \<^verbatim>\<open>kp_bcread\<close> read the
  length of the next chunk beyond the end of the buffer.
\<close>

theorem bcread_unterminated_faults:
  assumes "mem_total e" "list_all (proto_ok e strip) (proto_order pt)" "length (proto_order pt) \<le> be_room e"
    and "arg_ok e (chunk_name strip name)" "str_budget g (chunk_name strip name # protos_strs (proto_order pt))"
  shows "kp_bcread e g (butlast (bc_dump strip name pt)) = None"
proof -
  let ?c0 = "\<lparr>rd_flags = 0, rd_p = [], rd_chunkname = 0, rd_stk = [], rd_g = g\<rparr>" and ?o = "proto_order pt"
  let ?W = "concat (map (chunk_bytes strip) ?o)" and ?f = "butlast (bc_dump strip name pt)"
  have dump: "?f = header_bytes strip name @ ?W" by (simp add: bc_dump_def butlast_append)
  obtain nm g1 where h: "bcread_header e (rd_at ?c0 ?f g) =
      Some (True, rd_at (?c0\<lparr>rd_flags := if strip then 2 else 0, rd_chunkname := nm\<rparr>) ?W g1)"
    "str_budget g1 (protos_strs ?o)"
    using bcread_header_app [OF assms(5,4), of ?c0 ?W] unfolding dump by auto
  let ?c = "?c0\<lparr>rd_flags := if strip then 2 else 0, rd_chunkname := nm\<rparr>"
  obtain n where n: "Suc (length ?W) = length ?o + Suc n"
    using chunks_length [of ?o strip] by (metis add_Suc_right le_Suc_ex)
  have oo: "order_ok e strip g1 ?o [] (length (rd_stk ?c))" using assms(2,3) h(2) by (simp add: order_ok_def)
  obtain lp g2 where "bcread_loop e (length ?o + Suc n) (rd_at ?c ?W g1) =
        bcread_loop e (Suc n) (rd_at (?c\<lparr>rd_stk := [lp]\<rparr>) [] g2)"
    using bcread_loop_order(1) [OF assms(1) oo, of "Suc n" "[]"] by auto
  also have "\<dots> = Some None" by (simp add: bcread_loop.simps bcread_uint32_def bcread_mem_def)
  finally show ?thesis using h(1) n by (simp add: kp_bcread_def Let_def rd_at_init [where p = ?f])
qed

theorem bcread_unterminated_faults_witness: "kp_bcread trip_env str_example (butlast (bc_dump False [97] trip_proto)) = None"
  by (rule bcread_unterminated_faults [OF trip_env_total trip_order_ok trip_rest trip_budget])

end
