(* ===== verification/Ktap_Event.thy ===== *)
theory Ktap_Event
  imports Ktap_BcWrite Ktap_Tab
begin

text \<open>
  The arguments of trace events (\<^verbatim>\<open>runtime/kp_events.c\<close>): the field table that \<^verbatim>\<open>init_event_fields\<close>
  computes once per event from the kernel's field descriptions, the access \<^verbatim>\<open>arg0 .. arg9\<close> through it
  and the interned string of a whole event.  The raw sample and the register block of the kernel are
  byte arrays.
\<close>

datatype field_type =
    KTAP_EVENT_FIELD_TYPE_INVALID | KTAP_EVENT_FIELD_TYPE_INT | KTAP_EVENT_FIELD_TYPE_LONG
  | KTAP_EVENT_FIELD_TYPE_STRING | KTAP_EVENT_FIELD_TYPE_REGESTER | KTAP_EVENT_FIELD_TYPE_CONST
  | KTAP_EVENT_FIELD_TYPE_NIL

record event_field =
  ef_type :: field_type
  ef_offset :: int

text \<open>
  The event and its data: nine fields, the name, the raw sample, the registers, the cached string
  (0 when there is none) and what \<^verbatim>\<open>kp_event_tostr\<close> prints.
\<close>

record ktap_event =
  ev_fields :: "event_field list"
  ev_name :: addr
  ev_raw :: "u8 list"
  ev_regs :: "u8 list"
  ev_argstr :: addr
  ev_tostr :: str_arg

definition ev_bytes :: "u8 list \<Rightarrow> int \<Rightarrow> nat \<Rightarrow> u8 list option" where
  "ev_bytes mem ofs n =
     (if 0 \<le> ofs \<and> nat ofs + n \<le> length mem then Some (take n (drop (nat ofs) mem)) else None)"

text \<open>A zero-terminated string at an offset; a string without terminator is read past the sample.\<close>

definition ev_cstr :: "u8 list \<Rightarrow> int \<Rightarrow> u8 list option" where
  "ev_cstr mem ofs =
     (if 0 \<le> ofs \<and> 0 \<in> set (drop (nat ofs) mem) then Some (takeWhile (\<lambda>c. c \<noteq> 0) (drop (nat ofs) mem)) else None)"

text \<open>
  \<^verbatim>\<open>kp_event_getarg\<close>: the new contents of the slot \<open>ra\<close>.  The access to \<^verbatim>\<open>fields[idx]\<close> is not checked.
\<close>

definition kp_event_getarg ::
    "str_arg \<Rightarrow> ktap_event \<Rightarrow> ktap_global \<Rightarrow> ktap_val \<Rightarrow> nat \<Rightarrow> (ktap_val \<times> ktap_global) option" where
  "kp_event_getarg sa e g ra idx =
     (if idx \<ge> length (ev_fields e) then None
      else let f = ev_fields e ! idx in
        case ef_type f of
          KTAP_EVENT_FIELD_TYPE_INT \<Rightarrow>
            map_option (\<lambda>b. (set_number (scast (de32 b)), g)) (ev_bytes (ev_raw e) (ef_offset f) 4)
        | KTAP_EVENT_FIELD_TYPE_LONG \<Rightarrow>
            map_option (\<lambda>b. (set_number (de64 b), g)) (ev_bytes (ev_raw e) (ef_offset f) 8)
        | KTAP_EVENT_FIELD_TYPE_STRING \<Rightarrow>
            do {
              b \<leftarrow> ev_cstr (ev_raw e) (ef_offset f);
              (ts, g) \<leftarrow> kp_str_new g (sa\<lparr>sa_bytes := b\<rparr>);
              Some (if ts \<noteq> 0 then set_string ts else set_nil ra, g)
            }
        | KTAP_EVENT_FIELD_TYPE_CONST \<Rightarrow> Some (set_number (word_of_int (ef_offset f)), g)
        | KTAP_EVENT_FIELD_TYPE_REGESTER \<Rightarrow>
            map_option (\<lambda>b. (set_number (de64 b), g)) (ev_bytes (ev_regs e) (ef_offset f) 8)
        | KTAP_EVENT_FIELD_TYPE_NIL \<Rightarrow> Some (set_nil ra, g)
        | KTAP_EVENT_FIELD_TYPE_INVALID \<Rightarrow> Some (set_nil ra, kp_error ''the field type is not supported yet'' g))"

definition kp_event_stringify :: "ktap_event \<Rightarrow> ktap_global \<Rightarrow> (addr \<times> ktap_event \<times> ktap_global) option" where
  "kp_event_stringify e g =
     (if ev_argstr e \<noteq> 0 then Some (ev_argstr e, e, g)
      else do { (ts, g) \<leftarrow> kp_str_new g (ev_tostr e); Some (ts, e\<lparr>ev_argstr := ts\<rparr>, g) })"

text \<open>The kernel's description of a field: offset, size and type name.\<close>

record trace_field =
  tf_offset :: int
  tf_size :: int
  tf_type :: string

definition event_field_of :: "trace_field \<Rightarrow> event_field" where
  "event_field_of f =
     \<lparr>ef_type = (if tf_size f = 4 then KTAP_EVENT_FIELD_TYPE_INT
                 else if tf_size f = 8 then KTAP_EVENT_FIELD_TYPE_LONG
                 else if take 4 (tf_type f) = ''char'' then KTAP_EVENT_FIELD_TYPE_STRING
                 else KTAP_EVENT_FIELD_TYPE_INVALID),
      ef_offset = tf_offset f\<rparr>"

text \<open>
  The loop walks the kernel's list \<open>head\<close> backwards and stops after nine fields; the rest of the table
  becomes nil, with the offsets it had.  The kernel adds each field it declares at the front of the list.
\<close>

definition init_fields :: "trace_field list \<Rightarrow> event_field list \<Rightarrow> event_field list" where
  "init_fields head old =
     (let fs = map event_field_of (take 9 (rev head)) in
      fs @ map (\<lambda>f. f\<lparr>ef_type := KTAP_EVENT_FIELD_TYPE_NIL\<rparr>) (drop (length fs) old))"

text \<open>\<^verbatim>\<open>call\<close> is the kernel's event with its name and fields; timer events have none.\<close>

definition init_event_fields ::
    "str_arg \<Rightarrow> (u8 list \<times> trace_field list) option \<Rightarrow> ktap_event \<Rightarrow> ktap_global \<Rightarrow> (int \<times> ktap_event \<times> ktap_global) option" where
  "init_event_fields sa call e g =
     (case call of
        None \<Rightarrow> Some (0, e, g)
      | Some (name, head) \<Rightarrow>
          do {
            (ts, g) \<leftarrow> kp_str_new g (sa\<lparr>sa_bytes := name\<rparr>);
            (let e = e\<lparr>ev_name := ts\<rparr> in
             if ts = 0 then Some (- ENOMEM, e, g)
             else Some (0, e\<lparr>ev_fields := init_fields head (ev_fields e)\<rparr>, g))
          })"


text \<open>
  The fields of a system call event: \<open>reg\<close> has the offsets of the registers in \<^verbatim>\<open>struct pt_regs\<close>, 0 for the
  result and 1 to 6 for the arguments; a field behind them keeps its offset.  \<open>None\<close>: the loop writes behind the nine fields.
\<close>

definition init_syscall_event_fields :: "(nat \<Rightarrow> int) \<Rightarrow> int \<Rightarrow> nat \<Rightarrow> bool \<Rightarrow> event_field list \<Rightarrow> event_field list option" where
  "init_syscall_event_fields reg syscall_nr nb_args is_enter fs =
     (let f0 = \<lparr>ef_type = KTAP_EVENT_FIELD_TYPE_CONST, ef_offset = syscall_nr\<rparr>
      in if \<not> is_enter then Some (fs[0 := f0, 1 := \<lparr>ef_type = KTAP_EVENT_FIELD_TYPE_REGESTER, ef_offset = reg 0\<rparr>])
         else if nb_args \<ge> length fs then None
         else Some (f0 # map (\<lambda>idx. \<lparr>ef_type = KTAP_EVENT_FIELD_TYPE_REGESTER, ef_offset = if idx \<le> 6 then reg idx else ef_offset (fs ! idx)\<rparr>) [1..<Suc nb_args] @
           map (\<lambda>f. f\<lparr>ef_type := KTAP_EVENT_FIELD_TYPE_NIL\<rparr>) (drop (Suc nb_args) fs)))"


section \<open>Access through the field table\<close>

lemma init_event_fields_run:
  assumes "init_event_fields sa (Some (name, head)) e g = Some (0, e1, g1)"
  shows "\<exists>ts. e1 = e\<lparr>ev_name := ts, ev_fields := init_fields head (ev_fields e)\<rparr>"
  using assms by (auto simp: init_event_fields_def Let_def ENOMEM_def bind_eq_Some_conv split: if_splits)

lemma getarg_string:
  assumes "idx < length (ev_fields e)" "ef_type (ev_fields e ! idx) = KTAP_EVENT_FIELD_TYPE_STRING"
    "ev_cstr (ev_raw e) (ef_offset (ev_fields e ! idx)) = Some b" "str_inv g" "str_ready g (sa\<lparr>sa_bytes := b\<rparr>)"
  shows "\<exists>ts g'. kp_event_getarg sa e g v idx = Some (set_string ts, g') \<and> str_content g' ts = Some b"
proof -
  obtain ts g' s where "kp_str_new g (sa\<lparr>sa_bytes := b\<rparr>) = Some (ts, g')" "ts \<noteq> 0" "strobjs g' = (strobjs g)(ts \<mapsto> s)" "s_chars s = b"
    using kp_str_new_spec [OF assms(4,5)] by auto
  then show ?thesis using assms(1-3)
    by (intro exI [of _ ts] exI [of _ g']) (simp add: kp_event_getarg_def Let_def str_content_def)
qed

text \<open>
  C26: \<^verbatim>\<open>arg0\<close> to \<^verbatim>\<open>arg8\<close> read the first nine fields of an event in the order of their declaration, as the tutorial says (\<open>fs\<close>; the kernel
  keeps them the other way round).  After a successful
  \<^verbatim>\<open>init_event_fields\<close>, an argument of a field of four or eight bytes inside the sample is the number stored at the field's
  offset, sign-extended from four bytes; one of another field of characters with a zero byte behind them in the sample is the interned string of these
  characters, when the string table has room; any other field is nil and an error; and an argument beyond the fields of the event is nil.
\<close>

theorem event_args_read_fields:
  assumes "init_event_fields sa (Some (name, rev fs)) e g = Some (0, e1, g1)" "length (ev_fields e) = 9" "k < 9"
  shows "if k < length fs then
       let size = tf_size (fs ! k); ofs = tf_offset (fs ! k) in
       (size = 4 \<longrightarrow> 0 \<le> ofs \<longrightarrow> nat ofs + 4 \<le> length (ev_raw e) \<longrightarrow>
          kp_event_getarg sa e1 g1 v k = Some (set_number (scast (de32 (take 4 (drop (nat ofs) (ev_raw e))))), g1)) \<and>
       (size = 8 \<longrightarrow> 0 \<le> ofs \<longrightarrow> nat ofs + 8 \<le> length (ev_raw e) \<longrightarrow>
          kp_event_getarg sa e1 g1 v k = Some (set_number (de64 (take 8 (drop (nat ofs) (ev_raw e)))), g1)) \<and>
       (\<forall>b. size \<notin> {4, 8} \<longrightarrow> take 4 (tf_type (fs ! k)) = ''char'' \<longrightarrow> ev_cstr (ev_raw e) ofs = Some b \<longrightarrow>
          str_inv g1 \<longrightarrow> str_ready g1 (sa\<lparr>sa_bytes := b\<rparr>) \<longrightarrow>
          (\<exists>ts g2. kp_event_getarg sa e1 g1 v k = Some (set_string ts, g2) \<and> str_content g2 ts = Some b)) \<and>
       (size \<notin> {4, 8} \<longrightarrow> take 4 (tf_type (fs ! k)) \<noteq> ''char'' \<longrightarrow>
          kp_event_getarg sa e1 g1 v k = Some (set_nil v, kp_error ''the field type is not supported yet'' g1))
     else kp_event_getarg sa e1 g1 v k = Some (set_nil v, g1)"
proof -
  obtain ts where e1: "e1 = e\<lparr>ev_name := ts, ev_fields := init_fields (rev fs) (ev_fields e)\<rparr>"
    using init_event_fields_run [OF assms(1)] by blast
  have len: "length (ev_fields e1) = 9" using assms(2) by (simp add: e1 init_fields_def Let_def)
  show ?thesis
  proof (cases "k < length fs")
    case True
    then have f: "ev_fields e1 ! k = event_field_of (fs ! k)"
      using assms(3) by (simp add: e1 init_fields_def Let_def nth_append)
    have raw: "ev_raw e1 = ev_raw e" by (simp add: e1)
    show ?thesis using True len assms(3) f raw getarg_string [of k e1 _ g1 sa v]
      by (auto simp: kp_event_getarg_def Let_def event_field_of_def ev_bytes_def)
  next
    case False
    then have "ef_type (ev_fields e1 ! k) = KTAP_EVENT_FIELD_TYPE_NIL"
      using assms(2,3) by (simp add: e1 init_fields_def Let_def nth_append)
    then show ?thesis using False len assms(3) by (simp add: kp_event_getarg_def Let_def)
  qed
qed

text \<open>The tenth argument, \<^verbatim>\<open>arg9\<close>, is read behind the table.\<close>

theorem event_arg9_faults:
  assumes "init_event_fields sa (Some (name, head)) e g = Some (0, e1, g1)" "length (ev_fields e) = 9"
  shows "kp_event_getarg sa e1 g1 v 9 = None"
proof -
  obtain ts where "e1 = e\<lparr>ev_name := ts, ev_fields := init_fields head (ev_fields e)\<rparr>" using init_event_fields_run [OF assms(1)] by blast
  then have "length (ev_fields e1) = 9" using assms(2) by (simp add: init_fields_def Let_def)
  then show ?thesis by (simp add: kp_event_getarg_def)
qed

text \<open>
  The arguments of a system call event: \<^verbatim>\<open>arg0\<close> is the number of the call, \<^verbatim>\<open>arg1\<close> and the following ones are the registers
  of its parameters, and those behind them are nil.
\<close>

theorem syscall_args_read_registers:
  assumes "init_syscall_event_fields reg nr nb True (ev_fields e) = Some fs" "length (ev_fields e) = 9" "nb \<le> 6" "k < 9"
  shows "kp_event_getarg sa (e\<lparr>ev_fields := fs\<rparr>) g v k =
    (if k = 0 then Some (set_number (word_of_int nr), g)
     else if k \<le> nb then map_option (\<lambda>b. (set_number (de64 b), g)) (ev_bytes (ev_regs e) (reg k) 8)
     else Some (set_nil v, g))"
proof -
  have fs: "length fs = 9" "fs ! 0 = \<lparr>ef_type = KTAP_EVENT_FIELD_TYPE_CONST, ef_offset = nr\<rparr>"
    "\<And>k. 0 < k \<Longrightarrow> k \<le> nb \<Longrightarrow> fs ! k = \<lparr>ef_type = KTAP_EVENT_FIELD_TYPE_REGESTER, ef_offset = reg k\<rparr>"
    "\<And>k. nb < k \<Longrightarrow> k < 9 \<Longrightarrow> ef_type (fs ! k) = KTAP_EVENT_FIELD_TYPE_NIL"
    using assms(1-3) by (auto simp: init_syscall_event_fields_def Let_def nth_append nth_Cons simp del: upt_Suc split: nat.splits)
  show ?thesis using fs(1,2) fs(3,4) [of k] assms(4) by (auto simp: kp_event_getarg_def Let_def)
qed

text \<open>An event with a field of characters at offset 0, a field of four bytes at offset 8, and a sample that holds \<open>hi\<close> and -2 there.\<close>

definition example_event :: ktap_event where
  "example_event = \<lparr>ev_fields = replicate 9 \<lparr>ef_type = KTAP_EVENT_FIELD_TYPE_INVALID, ef_offset = 0\<rparr>, ev_name = 0,
     ev_raw = [104, 105, 0, 0, 0, 0, 0, 0, 254, 255, 255, 255], ev_regs = [], ev_argstr = 0, ev_tostr = abc_arg\<rparr>"

definition example_fields :: "trace_field list" where
  "example_fields = [\<lparr>tf_offset = 0, tf_size = 6, tf_type = ''char[6]''\<rparr>, \<lparr>tf_offset = 8, tf_size = 4, tf_type = ''int''\<rparr>]"

theorem event_args_read_fields_witness:
  "\<exists>e1 g1. init_event_fields abc_arg (Some ([112, 113], rev example_fields)) example_event str_example = Some (0, e1, g1) \<and>
     kp_event_getarg abc_arg e1 g1 kp_niltv 1 = Some (set_number (scast (de32 [254, 255, 255, 255])), g1) \<and>
     kp_event_getarg abc_arg e1 g1 kp_niltv 2 = Some (set_nil kp_niltv, g1)"
proof -
  let ?r = "init_event_fields abc_arg (Some ([112, 113], rev example_fields)) example_event str_example"
  have ok: "\<not> Option.is_none ?r" "fst (the ?r) = 0" by code_simp+
  then obtain e1 g1 where e1: "?r = Some (0, e1, g1)" by (cases ?r) (auto simp: Option.is_none_def)
  have ev: "length (ev_fields example_event) = 9" by (simp add: example_event_def)
  have "kp_event_getarg abc_arg e1 g1 kp_niltv 1 = Some (set_number (scast (de32 [254, 255, 255, 255])), g1)"
    using event_args_read_fields [OF e1 ev, of 1 kp_niltv] by (simp add: example_fields_def example_event_def)
  moreover have "kp_event_getarg abc_arg e1 g1 kp_niltv 2 = Some (set_nil kp_niltv, g1)"
    using event_args_read_fields [OF e1 ev, of 2 kp_niltv] by (simp add: example_fields_def)
  ultimately show ?thesis using e1 by blast
qed

end
