(* ===== verification/Ktap_Vm.thy ===== *)
theory Ktap_Vm
  imports Ktap_Event Ktap_Bytecode "HOL-Library.Signed_Division"
begin

text \<open>
  The bytecode interpreter (\<^verbatim>\<open>kp_vm_call\<close> in \<^verbatim>\<open>runtime/kp_vm.c\<close>) with the helpers it calls: closures and
  upvalues, stack checks, vararg frames, results of C functions.  One dispatch of the interpreter is
  one step of a function on the local variables of \<^verbatim>\<open>kp_vm_call\<close> and the state of the thread.

  Pointers into the stack are positions (integers, since the code subtracts from them); objects live
  in maps from addresses; a program counter is a prototype's address with a position in its code.
  A slot that starts a frame holds the function and the saved program counter, which overlaps the
  type tag: reading it as a value is a fault.  The faults of the C code (wild reads and writes,
  division traps, faults of the tables and strings, the end of the kernel stack) are values of \<open>vm_fault\<close>; errors that the
  interpreter reports end the call, with the error state recorded in the global state.
\<close>

section \<open>State\<close>

datatype vslot = SVal ktap_val | SFrame u64 "(addr \<times> int) option"

record vm_proto =
  vp_flags :: u8
  vp_numparams :: u8
  vp_framesize :: u8
  vp_code :: "u32 list"
  vp_uv :: "u16 list"
  vp_kgc :: "addr list"
  vp_knum :: "ktap_val list"

record vm_func =
  fn_p :: addr
  fn_upvals :: "addr list"

text \<open>An upvalue is open on a stack slot or closed with a value of its own.\<close>

record vm_upval =
  uv_slot :: "int option"
  uv_tv :: ktap_val
  uv_immutable :: bool

record vm_state =
  vs_g :: ktap_global
  vs_stack :: "vslot list"
  vs_top :: int
  vs_func :: int
  vs_openupval :: "addr list"
  vs_upvals :: "addr \<Rightarrow> vm_upval option"
  vs_funcs :: "addr \<Rightarrow> vm_func option"
  vs_protos :: "addr \<Rightarrow> vm_proto option"
  vs_tabs :: "addr \<Rightarrow> ktap_tab option"
  vs_gtab :: addr
  vs_registry :: ktap_val
  vs_gfunc :: "addr list"
  vs_event :: "ktap_event option"
  vs_main :: bool

text \<open>
  What the interpreter takes from outside: the tracing context of the tables and the memory they get,
  the allocator (0 on failure), the C functions by their pointers, the pointer of \<^verbatim>\<open>kp_tab_next\<close>, the
  bytes around strings, the current task and the module parameter \<^verbatim>\<open>max_loop_count\<close>.
\<close>

record vm_env =
  ve_tab :: tab_env
  ve_tabmem :: tab_mem
  ve_alloc :: "vm_state \<Rightarrow> addr"
  ve_cfun :: "addr \<Rightarrow> vm_state \<Rightarrow> (int \<times> vm_state) option"
  ve_next :: addr
  ve_arg :: str_arg
  ve_pid :: u32
  ve_tid :: u32
  ve_uid :: u32
  ve_cpu :: u32
  ve_comm :: "u8 list"
  ve_max_loop :: u32

text \<open>The local variables of \<^verbatim>\<open>kp_vm_call\<close>; \<open>fl_k\<close> is the prototype whose constants \<^verbatim>\<open>kbase\<close> points to.\<close>

record vm_frame =
  fl_loop :: u32
  fl_fn :: addr
  fl_pt :: addr
  fl_k :: addr
  fl_pc :: "addr \<times> int"
  fl_base :: int
  fl_func :: int
  fl_multres :: int

datatype vm_fault = FStack | FFrame | FCode | FConst | FUpval | FObj | FArith | FTab | FStr | FCfun | FDepth

datatype vm_out = VNext vm_frame vm_state | VRet vm_state

type_synonym 'a vm = "vm_fault + 'a"

definition vbind :: "'a vm \<Rightarrow> ('a \<Rightarrow> 'b vm) \<Rightarrow> 'b vm" where
  "vbind m k = (case m of Inl f \<Rightarrow> Inl f | Inr x \<Rightarrow> k x)"

definition vopt :: "vm_fault \<Rightarrow> 'a option \<Rightarrow> 'a vm" where
  "vopt f x = (case x of None \<Rightarrow> Inl f | Some y \<Rightarrow> Inr y)"

lemma vbind_simps [simp]: "vbind (Inr x) k = k x" "vbind (Inl f) k = Inl f"
  by (simp_all add: vbind_def)

lemma vopt_simps [simp]: "vopt f None = Inl f" "vopt f (Some x) = Inr x"
  by (simp_all add: vopt_def)

lemma vbind_Inr_iff: "vbind m k = Inr y \<longleftrightarrow> (\<exists>x. m = Inr x \<and> k x = Inr y)"
  by (cases m) auto


section \<open>Slots, constants and upvalues\<close>

definition KTAP_STACK_SIZE :: nat where "KTAP_STACK_SIZE = 120"
abbreviation (input) KTAP_MIN_RESERVED_STACK_SIZE :: int where "KTAP_MIN_RESERVED_STACK_SIZE \<equiv> 20"

definition in_stack :: "vm_state \<Rightarrow> int \<Rightarrow> bool" where
  "in_stack s i \<longleftrightarrow> 0 \<le> i \<and> i < int (length (vs_stack s))"

definition vget :: "vm_state \<Rightarrow> int \<Rightarrow> ktap_val vm" where
  "vget s i =
     (if in_stack s i then (case vs_stack s ! nat i of SVal v \<Rightarrow> Inr v | SFrame _ _ \<Rightarrow> Inl FFrame) else Inl FStack)"

definition slot_bits :: "vslot \<Rightarrow> u64" where
  "slot_bits x = (case x of SVal v \<Rightarrow> vbits v | SFrame b _ \<Rightarrow> b)"

definition vslot_set :: "vm_state \<Rightarrow> int \<Rightarrow> vslot \<Rightarrow> vm_state vm" where
  "vslot_set s i x = (if in_stack s i then Inr (s\<lparr>vs_stack := (vs_stack s)[nat i := x]\<rparr>) else Inl FStack)"

definition vput :: "vm_state \<Rightarrow> int \<Rightarrow> ktap_val \<Rightarrow> vm_state vm" where
  "vput s i v = vslot_set s i (SVal v)"

text \<open>The value half of a slot, and \<^verbatim>\<open>setitype\<close>, which keeps it.\<close>

definition vbits_at :: "vm_state \<Rightarrow> int \<Rightarrow> u64 vm" where
  "vbits_at s i = (if in_stack s i then Inr (slot_bits (vs_stack s ! nat i)) else Inl FStack)"

definition vsettype :: "vm_state \<Rightarrow> int \<Rightarrow> u32 \<Rightarrow> vm_state vm" where
  "vsettype s i t = vbind (vbits_at s i) (\<lambda>b. vput s i \<lparr>itype = t, vbits = b\<rparr>)"

definition vcopy :: "vm_state \<Rightarrow> int \<Rightarrow> int \<Rightarrow> vm_state vm" where
  "vcopy s i j = vbind (vget s j) (vput s i)"

definition vfetch :: "vm_state \<Rightarrow> addr \<times> int \<Rightarrow> u32 vm" where
  "vfetch s pc =
     (case vs_protos s (fst pc) of
        None \<Rightarrow> Inl FCode
      | Some p \<Rightarrow> if 0 \<le> snd pc \<and> snd pc < int (length (vp_code p)) then Inr (vp_code p ! nat (snd pc)) else Inl FCode)"

text \<open>\<^verbatim>\<open>kbase[~d]\<close>: the collectable constants end where \<^verbatim>\<open>k\<close> points to.  \<^verbatim>\<open>(ktap_val_t *)kbase + d\<close>: the numbers.\<close>

definition vkgc :: "vm_state \<Rightarrow> addr \<Rightarrow> u32 \<Rightarrow> addr vm" where
  "vkgc s p d =
     (case vs_protos s p of
        None \<Rightarrow> Inl FConst
      | Some pt \<Rightarrow> if unat d < length (vp_kgc pt) then Inr (vp_kgc pt ! (length (vp_kgc pt) - 1 - unat d)) else Inl FConst)"

definition vknum :: "vm_state \<Rightarrow> addr \<Rightarrow> u32 \<Rightarrow> u64 vm" where
  "vknum s p d =
     (case vs_protos s p of
        None \<Rightarrow> Inl FConst
      | Some pt \<Rightarrow> if unat d < length (vp_knum pt) then Inr (nvalue (vp_knum pt ! unat d)) else Inl FConst)"

definition vproto :: "vm_state \<Rightarrow> addr \<Rightarrow> vm_proto vm" where "vproto s p = vopt FObj (vs_protos s p)"
definition vfunc :: "vm_state \<Rightarrow> addr \<Rightarrow> vm_func vm" where "vfunc s a = vopt FObj (vs_funcs s a)"
definition vtab :: "vm_state \<Rightarrow> addr \<Rightarrow> ktap_tab vm" where "vtab s a = vopt FObj (vs_tabs s a)"

text \<open>\<^verbatim>\<open>fn->upvals[i]\<close> and the location \<^verbatim>\<open>v\<close> of an upvalue.\<close>

definition vupval :: "vm_state \<Rightarrow> addr \<Rightarrow> u32 \<Rightarrow> addr vm" where
  "vupval s fn i =
     vbind (vopt FUpval (vs_funcs s fn)) (\<lambda>f. if unat i < length (fn_upvals f) then Inr (fn_upvals f ! unat i) else Inl FUpval)"

definition uvget :: "vm_state \<Rightarrow> addr \<Rightarrow> ktap_val vm" where
  "uvget s a =
     vbind (vopt FUpval (vs_upvals s a)) (\<lambda>uv. case uv_slot uv of Some i \<Rightarrow> vget s i | None \<Rightarrow> Inr (uv_tv uv))"

definition uvput :: "vm_state \<Rightarrow> addr \<Rightarrow> ktap_val \<Rightarrow> vm_state vm" where
  "uvput s a v =
     vbind (vopt FUpval (vs_upvals s a)) (\<lambda>uv.
       case uv_slot uv of
         Some i \<Rightarrow> vput s i v
       | None \<Rightarrow> Inr (s\<lparr>vs_upvals := (vs_upvals s)(a \<mapsto> uv\<lparr>uv_tv := v\<rparr>)\<rparr>))"

definition uv_pos :: "vm_state \<Rightarrow> addr \<Rightarrow> int" where
  "uv_pos s a = (case vs_upvals s a of Some uv \<Rightarrow> (case uv_slot uv of Some i \<Rightarrow> i | None \<Rightarrow> -1) | None \<Rightarrow> -1)"

text \<open>
  \<^verbatim>\<open>findupval\<close>: the walk over the open upvalues, sorted by descending slot.  \<open>Inl\<close>: the upvalue found;
  \<open>Inr\<close>: the upvalues before and after the place of a new one.
\<close>

fun findupval_pos :: "vm_state \<Rightarrow> int \<Rightarrow> addr list \<Rightarrow> addr + addr list \<times> addr list" where
  "findupval_pos s i [] = Inr ([], [])"
| "findupval_pos s i (p # ps) =
     (if uv_pos s p \<ge> i then
        (if uv_pos s p = i then Inl p
         else case findupval_pos s i ps of Inl q \<Rightarrow> Inl q | Inr (b, a) \<Rightarrow> Inr (p # b, a))
      else Inr ([], p # ps))"

definition findupval :: "vm_env \<Rightarrow> vm_state \<Rightarrow> int \<Rightarrow> addr \<times> vm_state" where
  "findupval e s slot =
     (case findupval_pos s slot (vs_openupval s) of
        Inl p \<Rightarrow> (p, s)
      | Inr (before, after) \<Rightarrow>
          let uv = ve_alloc e s in
          if uv = 0 then (0, s)
          else (uv, s\<lparr>vs_upvals := (vs_upvals s)(uv \<mapsto> \<lparr>uv_slot = Some slot, uv_tv = kp_niltv, uv_immutable = False\<rparr>),
                      vs_openupval := before @ uv # after\<rparr>))"

text \<open>\<^verbatim>\<open>func_closeuv\<close>: the upvalues at or above a level take over the value of their slot.\<close>

fun closeuv :: "int \<Rightarrow> addr list \<Rightarrow> vm_state \<Rightarrow> vm_state vm" where
  "closeuv level [] s = Inr (s\<lparr>vs_openupval := []\<rparr>)"
| "closeuv level (a # as) s =
     (if uv_pos s a \<ge> level then
        vbind (vopt FUpval (vs_upvals s a)) (\<lambda>uv.
          vbind (vget s (uv_pos s a)) (\<lambda>v.
            closeuv level as (s\<lparr>vs_upvals := (vs_upvals s)(a \<mapsto> uv\<lparr>uv_slot := None, uv_tv := v\<rparr>)\<rparr>)))
      else Inr (s\<lparr>vs_openupval := a # as\<rparr>))"

definition func_closeuv :: "vm_state \<Rightarrow> int \<Rightarrow> vm_state vm" where
  "func_closeuv s level = closeuv level (vs_openupval s) s"


section \<open>Strings, closures, frames\<close>

abbreviation (input) KTAP_PERCPU_BUFFER_SIZE :: nat where "KTAP_PERCPU_BUFFER_SIZE \<equiv> 3 * 4096"

definition verror :: "string \<Rightarrow> vm_state \<Rightarrow> vm_state" where
  "verror msg s = s\<lparr>vs_g := kp_error msg (vs_g s)\<rparr>"

text \<open>
  \<^verbatim>\<open>str_concat\<close> copies with \<^verbatim>\<open>strncpy\<close>, which stops at a zero byte and fills with zeros.  The result is the
  interned string, 0 after an error.
\<close>

definition c_strncpy :: "u8 list \<Rightarrow> u8 list" where
  "c_strncpy src = (let h = takeWhile (\<lambda>c. c \<noteq> 0) src in h @ replicate (length src - length h) 0)"

fun concat_parts :: "vm_state \<Rightarrow> int \<Rightarrow> nat \<Rightarrow> u8 list list option vm" where
  "concat_parts s i 0 = Inr (Some [])"
| "concat_parts s i (Suc n) =
     vbind (vget s i) (\<lambda>v.
       if \<not> is_string v then Inr None
       else vbind (vopt FObj (strobjs (vs_g s) (rawtsvalue v))) (\<lambda>o'.
         vbind (concat_parts s (i + 1) n) (\<lambda>r. Inr (map_option (\<lambda>ps. s_chars o' # ps) r))))"

definition str_concat :: "vm_env \<Rightarrow> vm_state \<Rightarrow> int \<Rightarrow> int \<Rightarrow> (addr \<times> vm_state) vm" where
  "str_concat e s start end' =
     vbind (concat_parts s start (nat (end' - start + 1))) (\<lambda>r.
       case r of
         None \<Rightarrow> Inr (0, verror ''cannot concat non-string'' s)
       | Some ps \<Rightarrow>
           if sum_list (map length ps) \<ge> KTAP_PERCPU_BUFFER_SIZE then Inr (0, verror ''Error: too long string concatenation'' s)
           else
             vbind (vopt FStr (kp_str_new (vs_g s) ((ve_arg e)\<lparr>sa_bytes := concat (map c_strncpy ps)\<rparr>))) (\<lambda>(ts, g).
               Inr (ts, s\<lparr>vs_g := g\<rparr>)))"

definition func_new_empty :: "vm_env \<Rightarrow> vm_state \<Rightarrow> addr \<Rightarrow> addr \<times> vm_state" where
  "func_new_empty e s pt =
     (if \<not> vs_main s then (0, verror ''only mainthread can create function'' s)
      else let fn = ve_alloc e s in
        if fn = 0 then (0, s)
        else (fn, s\<lparr>vs_funcs := (vs_funcs s)(fn \<mapsto> \<lparr>fn_p = pt, fn_upvals = []\<rparr>)\<rparr>))"

abbreviation (input) PROTO_UV_LOCAL :: u16 where "PROTO_UV_LOCAL \<equiv> 0x8000"
abbreviation (input) PROTO_UV_IMMUTABLE :: u16 where "PROTO_UV_IMMUTABLE \<equiv> 0x4000"

text \<open>The loop of \<^verbatim>\<open>func_new\<close> over the upvalue references; the result 0 means that an allocation failed.\<close>

fun func_upvals :: "vm_env \<Rightarrow> addr \<Rightarrow> addr \<Rightarrow> int \<Rightarrow> u16 list \<Rightarrow> vm_state \<Rightarrow> (addr \<times> vm_state) vm" where
  "func_upvals e fn parent base [] s = Inr (fn, s)"
| "func_upvals e fn parent base (v # vs) s =
     (let add = (\<lambda>uv s. vbind (vfunc s fn) (\<lambda>f.
             func_upvals e fn parent base vs (s\<lparr>vs_funcs := (vs_funcs s)(fn \<mapsto> f\<lparr>fn_upvals := fn_upvals f @ [uv]\<rparr>)\<rparr>)))
      in if v AND PROTO_UV_LOCAL \<noteq> 0 then
           (let (uv, s1) = findupval e s (base + uint (v AND 0xff)) in
            if uv = 0 then Inr (0, s1)
            else vbind (vopt FObj (vs_upvals s1 uv)) (\<lambda>u.
              add uv (s1\<lparr>vs_upvals := (vs_upvals s1)(uv \<mapsto> u\<lparr>uv_immutable := (v div PROTO_UV_IMMUTABLE) AND 1 \<noteq> 0\<rparr>)\<rparr>)))
         else vbind (vupval s parent (ucast v)) (\<lambda>uv. add uv s))"

definition func_new :: "vm_env \<Rightarrow> vm_state \<Rightarrow> addr \<Rightarrow> addr \<Rightarrow> int \<Rightarrow> (addr \<times> vm_state) vm" where
  "func_new e s pt parent base =
     (let (fn, s1) = func_new_empty e s pt in
      if fn = 0 then Inr (0, s1)
      else vbind (vproto s1 pt) (\<lambda>p. func_upvals e fn parent base (vp_uv p) s1))"

text \<open>\<open>True\<close>: the stack has room.  \<^verbatim>\<open>stack_last\<close> is the end of the stack.\<close>

definition checkstack :: "vm_state \<Rightarrow> int \<Rightarrow> bool \<times> vm_state" where
  "checkstack s n =
     (if int (length (vs_stack s)) - vs_top s \<le> n then (False, verror ''stack overflow, please enlarge stack size'' s)
      else (True, s))"

fun fill_nil :: "nat \<Rightarrow> vm_state \<Rightarrow> vm_state vm" where
  "fill_nil 0 s = Inr s"
| "fill_nil (Suc n) s = vbind (vsettype s (vs_top s) KTAP_TNIL) (\<lambda>s. fill_nil n (s\<lparr>vs_top := vs_top s + 1\<rparr>))"

fun move_fixed :: "int \<Rightarrow> nat \<Rightarrow> vm_state \<Rightarrow> vm_state vm" where
  "move_fixed fixed 0 s = Inr s"
| "move_fixed fixed (Suc n) s =
     vbind (vcopy s (vs_top s) fixed) (\<lambda>s.
       vbind (vsettype s fixed KTAP_TNIL) (\<lambda>s. move_fixed (fixed + 1) n (s\<lparr>vs_top := vs_top s + 1\<rparr>)))"

definition adjust_varargs :: "vm_state \<Rightarrow> vm_proto \<Rightarrow> int \<Rightarrow> (int \<times> vm_state) vm" where
  "adjust_varargs s p actual =
     (let base = vs_top s in
      vbind (move_fixed (vs_top s - actual) (unat (vp_numparams p)) s) (\<lambda>s. Inr (base, s)))"

lemma vcopy_top: "vcopy s i j = Inr s1 \<Longrightarrow> vs_top s1 = vs_top s"
  by (auto simp: vcopy_def vbind_def vput_def vslot_set_def split: sum.splits if_splits)

text \<open>
  \<^verbatim>\<open>poscall\<close>: results from \<open>first\<close> on are moved to \<open>func\<close> until \<open>wanted\<close> are there (any number when it is
  negative), missing ones are nil.
\<close>

function poscall_move :: "int \<Rightarrow> int \<Rightarrow> int \<Rightarrow> vm_state \<Rightarrow> (int \<times> int \<times> vm_state) vm" where
  "poscall_move func first i s =
     (if i \<noteq> 0 \<and> first < vs_top s then
        (case vcopy s func first of
           Inl f \<Rightarrow> Inl f
         | Inr s1 \<Rightarrow> poscall_move (func + 1) (first + 1) (i - 1) s1)
      else Inr (func, i, s))"
  by pat_completeness auto
termination
  by (relation "measure (\<lambda>(func, first, i, s). nat (vs_top s - first))") (auto dest: vcopy_top)

declare poscall_move.simps [simp del]

fun poscall_nil :: "nat \<Rightarrow> int \<Rightarrow> vm_state \<Rightarrow> vm_state vm" where
  "poscall_nil 0 func s = Inr s"
| "poscall_nil (Suc n) func s = vbind (vsettype s func KTAP_TNIL) (poscall_nil n (func + 1))"

definition poscall :: "vm_state \<Rightarrow> int \<Rightarrow> int \<Rightarrow> int \<Rightarrow> vm_state vm" where
  "poscall s func first wanted =
     vbind (poscall_move func first wanted s) (\<lambda>(func, i, s). poscall_nil (nat i) func s)"

definition check_hot_loop :: "vm_env \<Rightarrow> vm_state \<Rightarrow> u32 \<Rightarrow> bool \<times> vm_state" where
  "check_hot_loop e s loop_count =
     (if loop_count = ve_max_loop e then (False, verror ''loop execute count exceed max limit'' s) else (True, s))"


section \<open>The instructions\<close>

text \<open>Operands, and the two ways an instruction ends: the next dispatch or the end of the call.\<close>

definition RA :: "vm_frame \<Rightarrow> u32 \<Rightarrow> int" where "RA f i = fl_base f + uint (bc_a i)"
definition RB :: "vm_frame \<Rightarrow> u32 \<Rightarrow> int" where "RB f i = fl_base f + uint (bc_b i)"
definition RC :: "vm_frame \<Rightarrow> u32 \<Rightarrow> int" where "RC f i = fl_base f + uint (bc_c i)"
definition RD :: "vm_frame \<Rightarrow> u32 \<Rightarrow> int" where "RD f i = fl_base f + uint (bc_d i)"

type_synonym vm_res = "vm_out vm"

definition vnext :: "vm_frame \<Rightarrow> vm_state \<Rightarrow> vm_res" where "vnext f s = Inr (VNext f s)"
definition vret :: "vm_state \<Rightarrow> vm_res" where "vret s = Inr (VRet s)"
definition vfail :: "string \<Rightarrow> vm_state \<Rightarrow> vm_res" where "vfail msg s = Inr (VRet (verror msg s))"

definition add_pc :: "vm_frame \<Rightarrow> int \<Rightarrow> vm_frame" where
  "add_pc f n = f\<lparr>fl_pc := (fst (fl_pc f), snd (fl_pc f) + n)\<rparr>"

text \<open>\<^verbatim>\<open>dojump(i, e)\<close> and \<^verbatim>\<open>donextjump\<close>.\<close>

definition dojump :: "vm_frame \<Rightarrow> u32 \<Rightarrow> int \<Rightarrow> vm_frame" where
  "dojump f i e = add_pc f (bc_j i + e)"

definition donextjump :: "vm_frame \<Rightarrow> vm_state \<Rightarrow> vm_res" where
  "donextjump f s = vbind (vfetch s (fl_pc f)) (\<lambda>i. vnext (dojump f i 1) s)"

definition vcond :: "bool \<Rightarrow> vm_frame \<Rightarrow> vm_state \<Rightarrow> vm_res" where
  "vcond b f s = (if b then donextjump f s else vnext (add_pc f 1) s)"

definition step_cmp :: "nat \<Rightarrow> vm_frame \<Rightarrow> vm_state \<Rightarrow> u32 \<Rightarrow> vm_res" where
  "step_cmp op f s i =
     vbind (vget s (RA f i)) (\<lambda>a. vbind (vget s (RD f i)) (\<lambda>d.
       if \<not> is_number a \<or> \<not> is_number d then vfail ''compare with non-number'' s
       else vcond (if op = BC_ISLT then nvalue a <s nvalue d
                   else if op = BC_ISGE then nvalue d \<le>s nvalue a
                   else if op = BC_ISLE then nvalue a \<le>s nvalue d
                   else nvalue d <s nvalue a) f s))"

definition step_eq :: "nat \<Rightarrow> vm_frame \<Rightarrow> vm_state \<Rightarrow> u32 \<Rightarrow> vm_res" where
  "step_eq op f s i =
     vbind (vget s (RA f i)) (\<lambda>a.
       if op = BC_ISEQV \<or> op = BC_ISNEV then
         vbind (vget s (RD f i)) (\<lambda>d. vcond (kp_obj_equal (RA f i = RD f i) a d = (op = BC_ISEQV)) f s)
       else if op = BC_ISEQS \<or> op = BC_ISNES then
         vbind (vkgc s (fl_k f) (bc_d i)) (\<lambda>k. vcond ((is_string a \<and> rawtsvalue a = k) = (op = BC_ISEQS)) f s)
       else if op = BC_ISEQN \<or> op = BC_ISNEN then
         vbind (vknum s (fl_k f) (bc_d i)) (\<lambda>k. vcond ((is_number a \<and> nvalue a = k) = (op = BC_ISEQN)) f s)
       else vcond ((itype a = NOT (bc_d i)) = (op = BC_ISEQP)) f s)"

definition falsy :: "ktap_val \<Rightarrow> bool" where "falsy v \<longleftrightarrow> itype v = KTAP_TNIL \<or> itype v = KTAP_TFALSE"

definition step_test :: "nat \<Rightarrow> vm_frame \<Rightarrow> vm_state \<Rightarrow> u32 \<Rightarrow> vm_res" where
  "step_test op f s i =
     vbind (vget s (RD f i)) (\<lambda>d.
       if falsy d = (op = BC_ISFC \<or> op = BC_ISF) then
         (if op = BC_ISTC \<or> op = BC_ISFC then vbind (vput s (RA f i) d) (donextjump f) else donextjump f s)
       else vnext (add_pc f 1) s)"

definition step_unary :: "nat \<Rightarrow> vm_frame \<Rightarrow> vm_state \<Rightarrow> u32 \<Rightarrow> vm_res" where
  "step_unary op f s i =
     vbind (vget s (RD f i)) (\<lambda>d.
       if op = BC_MOV then vbind (vput s (RA f i) d) (vnext f)
       else if op = BC_NOT then vbind (vsettype s (RA f i) (if falsy d then KTAP_TTRUE else KTAP_TFALSE)) (vnext f)
       else if \<not> is_number d then vfail ''use '-' operator on non-number'' s
       else vbind (vput s (RA f i) (set_number (- nvalue d))) (vnext f))"

text \<open>
  \<^verbatim>\<open>ktap_number\<close> is a \<^verbatim>\<open>long\<close>.  Division truncates; by zero, and of the least number by -1, it traps.
\<close>

datatype arith_op = NUMADD | NUMSUB | NUMMUL | NUMDIV | NUMMOD

definition arith :: "arith_op \<Rightarrow> u64 \<Rightarrow> u64 \<Rightarrow> u64 vm" where
  "arith op a b =
     (case op of
        NUMADD \<Rightarrow> Inr (a + b)
      | NUMSUB \<Rightarrow> Inr (a - b)
      | NUMMUL \<Rightarrow> Inr (a * b)
      | NUMDIV \<Rightarrow> if b = 0 \<or> a = 0x8000000000000000 \<and> b = -1 then Inl FArith else Inr (word_of_int (sint a sdiv sint b))
      | NUMMOD \<Rightarrow> if b = 0 \<or> a = 0x8000000000000000 \<and> b = -1 then Inl FArith else Inr (word_of_int (sint a smod sint b)))"

definition arith_of :: "nat \<Rightarrow> arith_op" where
  "arith_of n = (if n = 0 then NUMADD else if n = 1 then NUMSUB else if n = 2 then NUMMUL else if n = 3 then NUMDIV else NUMMOD)"

text \<open>The failed arithmetic of the macros prints a message and returns; it does not set the error state.\<close>

definition vputs :: "string \<Rightarrow> vm_state \<Rightarrow> vm_state" where
  "vputs msg s = s\<lparr>vs_g := kp_printf msg (vs_g s)\<rparr>"

definition arith_VV :: "arith_op \<Rightarrow> vm_frame \<Rightarrow> vm_state \<Rightarrow> u32 \<Rightarrow> vm_res" where
  "arith_VV op f s i =
     vbind (vget s (RB f i)) (\<lambda>b. vbind (vget s (RC f i)) (\<lambda>c.
       if is_number b \<and> is_number c then
         vbind (arith op (nvalue b) (nvalue c)) (\<lambda>n. vbind (vput s (RA f i) (set_number n)) (vnext f))
       else vret (vputs ''Error: Cannot make arith operation'' s)))"

definition arith_VN :: "arith_op \<Rightarrow> vm_frame \<Rightarrow> vm_state \<Rightarrow> u32 \<Rightarrow> vm_res" where
  "arith_VN op f s i =
     vbind (vget s (RB f i)) (\<lambda>b.
       if is_number b then
         vbind (vknum s (fl_k f) (bc_c i)) (\<lambda>c.
           vbind (arith op (nvalue b) c) (\<lambda>n. vbind (vput s (RA f i) (set_number n)) (vnext f)))
       else vret (vputs ''Error: Cannot make arith operation'' s))"

definition arith_NV :: "arith_op \<Rightarrow> vm_frame \<Rightarrow> vm_state \<Rightarrow> u32 \<Rightarrow> vm_res" where
  "arith_NV op f s i =
     vbind (vget s (RB f i)) (\<lambda>b.
       if is_number b then
         vbind (vknum s (fl_k f) (bc_c i)) (\<lambda>c.
           vbind (arith op c (nvalue b)) (\<lambda>n. vbind (vput s (RA f i) (set_number n)) (vnext f)))
       else vret (vputs ''Error: Cannot make arith operation'' s))"

text \<open>The zero checks: the constant for \<open>VN\<close>, the value half of B, whatever its type, for \<open>NV\<close>, none for \<open>VV\<close>.\<close>

definition zero_msg :: "arith_op \<Rightarrow> string" where
  "zero_msg op = (if op = NUMDIV then ''divide 0 arith operation'' else ''mod 0 arith operation'')"

definition step_arith :: "nat \<Rightarrow> vm_frame \<Rightarrow> vm_state \<Rightarrow> u32 \<Rightarrow> vm_res" where
  "step_arith op f s i =
     (if op \<le> BC_MODVN then
        (let o' = arith_of (op - BC_ADDVN) in
         if o' = NUMDIV \<or> o' = NUMMOD then
           vbind (vknum s (fl_k f) (bc_c i)) (\<lambda>c. if c = 0 then vfail (zero_msg o') s else arith_VN o' f s i)
         else arith_VN o' f s i)
      else if op \<le> BC_MODNV then
        (let o' = arith_of (op - BC_ADDNV) in
         if o' = NUMDIV \<or> o' = NUMMOD then
           vbind (vbits_at s (RB f i)) (\<lambda>b. if b = 0 then vfail (zero_msg o') s else arith_NV o' f s i)
         else arith_NV o' f s i)
      else arith_VV (arith_of (op - BC_ADDVV)) f s i)"

text \<open>\<^verbatim>\<open>KSHORT\<close> extends its operand with zeros.  \<^verbatim>\<open>KNIL\<close> counts with an unsigned bound.\<close>

fun set_nils :: "nat \<Rightarrow> int \<Rightarrow> vm_state \<Rightarrow> vm_state vm" where
  "set_nils 0 i s = Inr s"
| "set_nils (Suc n) i s = vbind (vsettype s i KTAP_TNIL) (set_nils n (i + 1))"

definition step_const :: "nat \<Rightarrow> vm_env \<Rightarrow> vm_frame \<Rightarrow> vm_state \<Rightarrow> u32 \<Rightarrow> vm_res" where
  "step_const op e f s i =
     (if op = BC_CAT then
        vbind (str_concat e s (RB f i) (RC f i)) (\<lambda>(ts, s).
          if ts = 0 then vret s else vbind (vput s (RA f i) (set_string ts)) (vnext f))
      else if op = BC_KSTR then
        vbind (vkgc s (fl_k f) (bc_d i)) (\<lambda>k. vbind (vput s (RA f i) (set_string k)) (vnext f))
      else if op = BC_KCDATA then vnext f s
      else if op = BC_KSHORT then vbind (vput s (RA f i) (set_number (ucast (bc_d i)))) (vnext f)
      else if op = BC_KNUM then
        vbind (vknum s (fl_k f) (bc_d i)) (\<lambda>k. vbind (vput s (RA f i) (set_number k)) (vnext f))
      else if op = BC_KPRI then vbind (vsettype s (RA f i) (NOT (bc_d i))) (vnext f)
      else vbind (set_nils (Suc (unat (bc_d i - bc_a i))) (RA f i) s) (vnext f))"

definition step_upval :: "nat \<Rightarrow> vm_frame \<Rightarrow> vm_state \<Rightarrow> u32 \<Rightarrow> vm_res" where
  "step_upval op f s i =
     (if op = BC_UGET then
        vbind (vupval s (fl_fn f) (bc_d i)) (\<lambda>u. vbind (uvget s u) (\<lambda>v. vbind (vput s (RA f i) v) (vnext f)))
      else
        vbind (vupval s (fl_fn f) (bc_a i)) (\<lambda>u.
          if op = BC_USETV then vbind (vget s (RD f i)) (\<lambda>v. vbind (uvput s u v) (vnext f))
          else if op = BC_UINCV then
            vbind (vget s (RD f i)) (\<lambda>d. vbind (uvget s u) (\<lambda>v.
              if \<not> is_number d \<or> \<not> is_number v then vfail ''use '+=' on non-number'' s
              else vbind (uvput s u (set_number (nvalue v + nvalue d))) (vnext f)))
          else if op = BC_USETS then
            vbind (vkgc s (fl_k f) (bc_d i)) (\<lambda>k. vbind (uvput s u (set_string k)) (vnext f))
          else if op = BC_USETN then
            vbind (vknum s (fl_k f) (bc_d i)) (\<lambda>k. vbind (uvput s u (set_number k)) (vnext f))
          else if op = BC_UINCN then
            vbind (uvget s u) (\<lambda>v.
              if \<not> is_number v then vfail ''use '+=' on non-number'' s
              else vbind (vknum s (fl_k f) (bc_d i)) (\<lambda>k. vbind (uvput s u (set_number (nvalue v + k))) (vnext f)))
          else vbind (uvget s u) (\<lambda>v. vbind (uvput s u (v\<lparr>itype := NOT (bc_d i)\<rparr>)) (vnext f))))"

definition step_func :: "nat \<Rightarrow> vm_env \<Rightarrow> vm_frame \<Rightarrow> vm_state \<Rightarrow> u32 \<Rightarrow> vm_res" where
  "step_func op e f s i =
     (if op = BC_UCLO then
        vbind (if vs_openupval s \<noteq> [] then func_closeuv s (RA f i) else Inr s) (vnext (dojump f i 0))
      else
        vbind (vkgc s (fl_k f) (bc_d i)) (\<lambda>pt.
          vbind (func_new e s pt (fl_fn f) (fl_base f)) (\<lambda>(fn, s).
            if fn = 0 then vret s else vbind (vput s (RA f i) (set_func fn)) (vnext f))))"


section \<open>Tables\<close>

text \<open>
  The tracing context of the table operations is the current event of the thread.  A key of type
  \<^verbatim>\<open>KTAP_TEVENTSTR\<close> makes them stringify the event, which caches the string in the event.
\<close>

definition vtabenv :: "vm_env \<Rightarrow> vm_state \<Rightarrow> tab_env" where
  "vtabenv e s =
     (ve_tab e)\<lparr>env_event :=
        map_option (\<lambda>ev g. map_option (\<lambda>(ts, _, g). (ts, g)) (kp_event_stringify ev g)) (vs_event s)\<rparr>"

definition cache_argstr :: "ktap_val \<Rightarrow> vm_state \<Rightarrow> vm_state" where
  "cache_argstr key s =
     (case vs_event s of
        Some ev \<Rightarrow>
          if is_eventstr key then
            (case kp_event_stringify ev (vs_g s) of Some (_, ev, _) \<Rightarrow> s\<lparr>vs_event := Some ev\<rparr> | None \<Rightarrow> s)
          else s
      | None \<Rightarrow> s)"

definition put_tab :: "addr \<Rightarrow> ktap_tab \<Rightarrow> ktap_global \<Rightarrow> vm_state \<Rightarrow> vm_state" where
  "put_tab a t g s = s\<lparr>vs_tabs := (vs_tabs s)(a \<mapsto> t), vs_g := g\<rparr>"

definition add_tab :: "vm_env \<Rightarrow> vm_state \<Rightarrow> (ktap_tab option \<times> ktap_global) option \<Rightarrow> (addr \<times> vm_state) vm" where
  "add_tab e s r =
     vbind (vopt FTab r) (\<lambda>(t, g).
       case t of
         None \<Rightarrow> Inr (0, s\<lparr>vs_g := g\<rparr>)
       | Some t \<Rightarrow> if ve_alloc e s = 0 then Inl FTab else Inr (ve_alloc e s, put_tab (ve_alloc e s) t g s))"

definition step_newtab :: "nat \<Rightarrow> vm_env \<Rightarrow> vm_frame \<Rightarrow> vm_state \<Rightarrow> u32 \<Rightarrow> vm_res" where
  "step_newtab op e f s i =
     vbind (if op = BC_TNEW then add_tab e s (kp_tab_new_ah (ve_tabmem e) (vs_g s) 0 0)
            else vbind (vkgc s (fl_k f) (bc_d i)) (\<lambda>k.
                   vbind (vtab s k) (\<lambda>t. add_tab e s (kp_tab_dup (ve_tabmem e) (vtabenv e s) (vs_g s) t))))
       (\<lambda>(a, s). if a = 0 then vret s else vbind (vput s (RA f i) (set_table a)) (vnext f))"

text \<open>\<^verbatim>\<open>GGET\<close> reads the table of globals, the others the table in slot B.\<close>

definition step_gget :: "vm_frame \<Rightarrow> vm_state \<Rightarrow> u32 \<Rightarrow> vm_res" where
  "step_gget f s i =
     vbind (vkgc s (fl_k f) (bc_d i)) (\<lambda>k.
       vbind (vtab s (vs_gtab s)) (\<lambda>t.
         vbind (vopt FTab (kp_tab_getstr (vs_g s) t k)) (\<lambda>v. vbind (vput s (RA f i) v) (vnext f))))"

definition step_tget :: "nat \<Rightarrow> vm_env \<Rightarrow> vm_frame \<Rightarrow> vm_state \<Rightarrow> u32 \<Rightarrow> vm_res" where
  "step_tget op e f s i =
     vbind (vget s (RB f i)) (\<lambda>b.
       if \<not> is_table b then
         vfail (if op = BC_TGETB then ''set key to non-table'' else ''get key from non-table'') s
       else vbind (vtab s (vbits b)) (\<lambda>t.
         if op = BC_TGETV then
           vbind (vget s (RC f i)) (\<lambda>k.
             vbind (vopt FTab (kp_tab_get (vtabenv e s) (vs_g s) t k)) (\<lambda>(v, g).
               vbind (vput ((cache_argstr k s)\<lparr>vs_g := g\<rparr>) (RA f i) v) (vnext f)))
         else if op = BC_TGETS then
           vbind (vkgc s (fl_k f) (bc_c i)) (\<lambda>k.
             vbind (vopt FTab (kp_tab_getstr (vs_g s) t k)) (\<lambda>v. vbind (vput s (RA f i) v) (vnext f)))
         else vbind (vopt FTab (kp_tab_getint t (bc_c i))) (\<lambda>v. vbind (vput s (RA f i) v) (vnext f))))"

text \<open>The stores and increments; an increment needs a number in A.\<close>

definition step_tset :: "nat \<Rightarrow> vm_env \<Rightarrow> vm_frame \<Rightarrow> vm_state \<Rightarrow> u32 \<Rightarrow> vm_res" where
  "step_tset op e f s i =
     (let incr = op = BC_TINCV \<or> op = BC_TINCS \<or> op = BC_TINCB in
      vbind (vget s (RB f i)) (\<lambda>b.
        if \<not> is_table b then vfail ''set key to non-table'' s
        else vbind (vget s (RA f i)) (\<lambda>v.
          if incr \<and> \<not> is_number v then vfail ''use '+=' on non-number'' s
          else vbind (vtab s (vbits b)) (\<lambda>t.
            if op = BC_TSETV \<or> op = BC_TINCV then
              vbind (vget s (RC f i)) (\<lambda>k.
                vbind (vopt FTab (if incr then kp_tab_incr (vtabenv e s) (vs_g s) t k (nvalue v)
                                  else kp_tab_set (vtabenv e s) (vs_g s) t k v)) (\<lambda>(t, g).
                  vnext f (put_tab (vbits b) t g (cache_argstr k s))))
            else if op = BC_TSETS \<or> op = BC_TINCS then
              vbind (vkgc s (fl_k f) (bc_c i)) (\<lambda>k.
                vbind (vopt FTab (if incr then kp_tab_incrstr (vs_g s) t k (nvalue v)
                                  else kp_tab_setstr (vs_g s) t k v)) (\<lambda>(t, g).
                  vnext f (put_tab (vbits b) t g s)))
            else
              vbind (vopt FTab (if incr then kp_tab_incrint (vs_g s) t (bc_c i) (nvalue v)
                                else kp_tab_setint (vs_g s) t (bc_c i) v)) (\<lambda>(t, g).
                vnext f (put_tab (vbits b) t g s))))))"


section \<open>Calls and returns\<close>

text \<open>A C function gets the thread and returns the number of results, which it left below \<^verbatim>\<open>top\<close>; negative: error.\<close>

definition call_c :: "vm_env \<Rightarrow> vm_frame \<Rightarrow> vm_state \<Rightarrow> int \<Rightarrow> int \<Rightarrow> ktap_val \<Rightarrow> int \<Rightarrow> vm_res" where
  "call_c e f s oldtop newfunc v nresults =
     (let (ok, s) = checkstack s KTAP_MIN_RESERVED_STACK_SIZE in
      if \<not> ok then vret s
      else vbind (vopt FCfun (ve_cfun e (vbits v) (s\<lparr>vs_func := newfunc\<rparr>))) (\<lambda>(n, s).
        if n < 0 then vret s
        else vbind (poscall s newfunc (vs_top s - n) nresults) (\<lambda>s.
          vnext (f\<lparr>fl_multres := n + 1\<rparr>) (s\<lparr>vs_top := oldtop\<rparr>))))"

definition call_func :: "vm_frame \<Rightarrow> vm_state \<Rightarrow> int \<Rightarrow> ktap_val \<Rightarrow> vm_res" where
  "call_func f s newfunc v =
     vbind (vfunc s (vbits v)) (\<lambda>fn.
       vbind (vproto s (fn_p fn)) (\<lambda>pt.
         let (ok, s) = checkstack s (uint (vp_framesize pt)) in
         if \<not> ok then vret s
         else
           let n = vs_top s - newfunc - 1 in
           vbind (fill_nil (nat (uint (vp_numparams pt) - n)) s) (\<lambda>s.
             vbind (if vp_flags pt AND PROTO_VARARG = 0 then Inr (newfunc + 1, s)
                    else adjust_varargs s pt (max n (uint (vp_numparams pt)))) (\<lambda>(base, s).
               vbind (vslot_set s newfunc (SFrame (vbits v) (Some (fst (fl_pc f), snd (fl_pc f) - 1)))) (\<lambda>s.
                 vnext (f\<lparr>fl_fn := vbits v, fl_pt := fn_p fn, fl_k := fn_p fn, fl_pc := (fn_p fn, 1),
                          fl_base := base, fl_func := newfunc\<rparr>)
                   (s\<lparr>vs_top := base + uint (vp_framesize pt)\<rparr>))))))"

definition call_top :: "nat \<Rightarrow> vm_frame \<Rightarrow> vm_state \<Rightarrow> u32 \<Rightarrow> int" where
  "call_top op f s i =
     (if op = BC_CALL \<and> bc_c i \<noteq> 0 then RA f i + uint (bc_c i)
      else if op = BC_CALLM then RA f i + uint (bc_c i) + fl_multres f
      else vs_top s)"

definition step_call :: "nat \<Rightarrow> vm_env \<Rightarrow> vm_frame \<Rightarrow> vm_state \<Rightarrow> u32 \<Rightarrow> vm_res" where
  "step_call op e f s i =
     vbind (vget s (RA f i)) (\<lambda>v.
       let s' = s\<lparr>vs_top := call_top op f s i\<rparr> in
       if itype v = KTAP_TCFUNC then call_c e f s' (vs_top s) (RA f i) v (uint (bc_b i) - 1)
       else if itype v = KTAP_TFUNC then call_func f s' (RA f i) v
       else vfail ''attempt to call nil function'' s')"

text \<open>A tail call overwrites the function and the parameters of the running frame, which keeps its return address.\<close>

fun move_args :: "nat \<Rightarrow> int \<Rightarrow> int \<Rightarrow> vm_state \<Rightarrow> vm_state vm" where
  "move_args 0 ofunc nfunc s = Inr s"
| "move_args (Suc n) ofunc nfunc s =
     vbind (vcopy s (ofunc + 1) (nfunc + 1)) (move_args n (ofunc + 1) (nfunc + 1))"

definition set_slot_bits :: "vm_state \<Rightarrow> int \<Rightarrow> u64 \<Rightarrow> vm_state vm" where
  "set_slot_bits s i b =
     (if in_stack s i then
        vslot_set s i (case vs_stack s ! nat i of SVal v \<Rightarrow> SVal (v\<lparr>vbits := b\<rparr>) | SFrame _ pc \<Rightarrow> SFrame b pc)
      else Inl FStack)"

definition step_callt :: "vm_frame \<Rightarrow> vm_state \<Rightarrow> u32 \<Rightarrow> vm_res" where
  "step_callt f s i =
     vbind (vget s (RA f i)) (\<lambda>v.
       if itype v = KTAP_TCFUNC then vfail ''don't support callt for C function'' s
       else if itype v = KTAP_TFUNC then
         vbind (vfunc s (vbits v)) (\<lambda>fn.
           vbind (vproto s (fn_p fn)) (\<lambda>pt.
             vbind (set_slot_bits s (fl_func f) (vbits v)) (\<lambda>s.
               vbind (move_args (unat (vp_numparams pt)) (fl_func f) (RA f i) s) (\<lambda>s.
                 vnext (f\<lparr>fl_fn := vbits v, fl_pt := fn_p fn, fl_k := fn_p fn, fl_pc := (fn_p fn, 1)\<rparr>)
                   (s\<lparr>vs_top := fl_base f + uint (vp_framesize pt)\<rparr>)))))
       else vfail ''attempt to call nil function'' s)"

text \<open>
  The common end of \<^verbatim>\<open>RET0\<close> and \<^verbatim>\<open>RET1\<close>: the caller's frame is found from the call instruction.  The new
  \<^verbatim>\<open>top\<close> is computed with the frame size of the function that returns.
\<close>

definition ret_to :: "vm_frame \<Rightarrow> vm_state \<Rightarrow> u32 \<Rightarrow> addr \<times> int \<Rightarrow> vm_res" where
  "ret_to f s i pc =
     vbind (vfetch s pc) (\<lambda>ci.
       let base = fl_func f - uint (bc_a ci); func = base - 1 in
       vbind (vbits_at s func) (\<lambda>a.
         vbind (vfunc s a) (\<lambda>fn.
           vbind (vproto s (fl_pt f)) (\<lambda>pt.
             vnext (f\<lparr>fl_fn := a, fl_k := fn_p fn, fl_pc := (fst pc, snd pc + 1), fl_base := base,
                      fl_func := func, fl_multres := uint (bc_d i)\<rparr>)
               (s\<lparr>vs_top := base + uint (vp_framesize pt)\<rparr>)))))"

definition vframe_pc :: "vm_state \<Rightarrow> int \<Rightarrow> (addr \<times> int) option vm" where
  "vframe_pc s i =
     (if in_stack s i then (case vs_stack s ! nat i of SVal _ \<Rightarrow> Inl FFrame | SFrame _ pc \<Rightarrow> Inr pc) else Inl FStack)"

definition step_ret :: "nat \<Rightarrow> vm_frame \<Rightarrow> vm_state \<Rightarrow> u32 \<Rightarrow> vm_res" where
  "step_ret op f s i =
     vbind (vframe_pc s (fl_func f)) (\<lambda>pcr.
       case pcr of
         None \<Rightarrow> vret s
       | Some pc \<Rightarrow>
           if op = BC_RET0 then vbind (vsettype s (fl_func f) KTAP_TNIL) (\<lambda>s. ret_to f s i pc)
           else vbind (vcopy s (fl_base f - 1) (RA f i)) (\<lambda>s. ret_to f s i pc))"


section \<open>Loops\<close>

definition for_continues :: "u64 \<Rightarrow> u64 \<Rightarrow> u64 \<Rightarrow> bool" where
  "for_continues idx limit step = (if 0 <s step then idx \<le>s limit else limit \<le>s idx)"

text \<open>\<^verbatim>\<open>check_hot_loop(ks, loop_count++)\<close> before the next dispatch.\<close>

definition hot_next :: "vm_env \<Rightarrow> vm_frame \<Rightarrow> vm_state \<Rightarrow> (vm_frame \<Rightarrow> vm_state \<Rightarrow> vm_res) \<Rightarrow> vm_res" where
  "hot_next e f s k =
     (let (ok, s) = check_hot_loop e s (fl_loop f) in
      if \<not> ok then vret s else k (f\<lparr>fl_loop := fl_loop f + 1\<rparr>) s)"

definition step_fori :: "vm_frame \<Rightarrow> vm_state \<Rightarrow> u32 \<Rightarrow> vm_res" where
  "step_fori f s i =
     vbind (vget s (RA f i)) (\<lambda>idx. vbind (vget s (RA f i + 1)) (\<lambda>limit. vbind (vget s (RA f i + 2)) (\<lambda>step.
       if \<not> is_number idx \<or> \<not> is_number limit \<or> \<not> is_number step then
         vfail '''for' init/limit/step value must be a number'' s
       else if for_continues (nvalue idx) (nvalue limit) (nvalue step) then
         vbind (vput s (RA f i + 3) (set_number (nvalue idx))) (vnext f)
       else vnext (dojump f i 0) s)))"

definition step_forl :: "vm_env \<Rightarrow> vm_frame \<Rightarrow> vm_state \<Rightarrow> u32 \<Rightarrow> vm_res" where
  "step_forl e f s i =
     vbind (vbits_at s (RA f i + 2)) (\<lambda>step. vbind (vbits_at s (RA f i)) (\<lambda>idx0. vbind (vbits_at s (RA f i + 1)) (\<lambda>limit.
       let idx = idx0 + step in
       if for_continues idx limit step then
         vbind (vput s (RA f i) (set_number idx)) (\<lambda>s.
           vbind (vput s (RA f i + 3) (set_number idx)) (\<lambda>s. hot_next e (dojump f i 0) s vnext))
       else hot_next e f s vnext)))"

text \<open>\<^verbatim>\<open>setbc_op\<close> on an instruction in place.\<close>

definition patch_op :: "vm_state \<Rightarrow> addr \<times> int \<Rightarrow> nat \<Rightarrow> vm_state vm" where
  "patch_op s pc op =
     vbind (vfetch s pc) (\<lambda>i. vbind (vopt FCode (vs_protos s (fst pc))) (\<lambda>p.
       Inr (s\<lparr>vs_protos := (vs_protos s)(fst pc \<mapsto>
                p\<lparr>vp_code := (vp_code p)[nat (snd pc) := setbc_op i (of_nat op)]\<rparr>)\<rparr>)))"

definition step_itern :: "vm_env \<Rightarrow> vm_frame \<Rightarrow> vm_state \<Rightarrow> u32 \<Rightarrow> vm_res" where
  "step_itern e f s i =
     hot_next e f s (\<lambda>f s.
       vbind (vbits_at s (RA f i - 2)) (\<lambda>a. vbind (vtab s a) (\<lambda>t. vbind (vget s (RA f i)) (\<lambda>key.
         vbind (vopt FTab (kp_tab_next (vs_g s) t key)) (\<lambda>(r, g).
           case r of
             Some (k, v) \<Rightarrow>
               vbind (vput (s\<lparr>vs_g := g\<rparr>) (RA f i) k) (\<lambda>s. vbind (vput s (RA f i + 1) v) (donextjump f))
           | None \<Rightarrow> vnext (add_pc f 1) (s\<lparr>vs_g := g\<rparr>))))))"

definition is_pairs :: "vm_env \<Rightarrow> vm_state \<Rightarrow> int \<Rightarrow> bool vm" where
  "is_pairs e s ra =
     vbind (vget s (ra - 3)) (\<lambda>c.
       if \<not> is_cfunc c then Inr False
       else vbind (vget s (ra - 2)) (\<lambda>t.
         if \<not> is_table t then Inr False
         else vbind (vget s (ra - 1)) (\<lambda>n. Inr (is_nil n \<and> vbits c = ve_next e))))"

definition step_isnext :: "vm_env \<Rightarrow> vm_frame \<Rightarrow> vm_state \<Rightarrow> u32 \<Rightarrow> vm_res" where
  "step_isnext e f s i =
     vbind (is_pairs e s (RA f i)) (\<lambda>ok.
       let f' = dojump f i 0 in
       if ok then vbind (vsettype s (RA f i) KTAP_TNIL) (vnext f')
       else vbind (patch_op s (fst (fl_pc f), snd (fl_pc f) - 1) BC_JMP) (\<lambda>s.
              vbind (patch_op s (fl_pc f') BC_ITERC) (vnext f')))"


section \<open>Events, tasks and built-in functions\<close>

definition step_event :: "nat \<Rightarrow> vm_env \<Rightarrow> vm_frame \<Rightarrow> vm_state \<Rightarrow> u32 \<Rightarrow> vm_res" where
  "step_event op e f s i =
     (case vs_event s of
        None \<Rightarrow> vfail ''invalid event context'' s
      | Some ev \<Rightarrow>
          if op = BC_VARGN then
            vbind (vbits_at s (RA f i)) (\<lambda>b.
              vbind (vopt FStr (kp_event_getarg (ve_arg e) ev (vs_g s) \<lparr>itype = 0, vbits = b\<rparr> (unat (bc_d i)))) (\<lambda>(v, g).
                vbind (vput (s\<lparr>vs_g := g\<rparr>) (RA f i) v) (vnext f)))
          else if op = BC_VARGSTR then
            (if ev_argstr ev \<noteq> 0 then vbind (vput s (RA f i) (set_string (ev_argstr ev))) (vnext f)
             else vbind (vsettype s (RA f i) KTAP_TEVENTSTR) (vnext f))
          else vbind (vput s (RA f i) (set_string (ev_name ev))) (vnext f))"

definition gfunc_get :: "vm_state \<Rightarrow> u32 \<Rightarrow> addr vm" where
  "gfunc_get s idx = (if unat idx < length (vs_gfunc s) then Inr (vs_gfunc s ! unat idx) else Inl FObj)"

definition step_task :: "nat \<Rightarrow> vm_env \<Rightarrow> vm_frame \<Rightarrow> vm_state \<Rightarrow> u32 \<Rightarrow> vm_res" where
  "step_task op e f s i =
     (if op = BC_VEXECNAME then
        vbind (vopt FStr (kp_str_new (vs_g s) ((ve_arg e)\<lparr>sa_bytes := ve_comm e\<rparr>))) (\<lambda>(ts, g).
          if ts = 0 then vret (s\<lparr>vs_g := g\<rparr>)
          else vbind (vput (s\<lparr>vs_g := g\<rparr>) (RA f i) (set_string ts)) (vnext f))
      else if op = BC_GFUNC then
        vbind (gfunc_get s (bc_d i)) (\<lambda>a. vbind (vput s (RA f i) (set_cfunc a)) (vnext f))
      else vbind (vput s (RA f i)
             (set_number (scast (if op = BC_VPID then ve_pid e else if op = BC_VTID then ve_tid e
                                 else if op = BC_VUID then ve_uid e else ve_cpu e)))) (vnext f))"


section \<open>Dispatch\<close>

text \<open>The opcodes whose code is \<^verbatim>\<open>return\<close>.\<close>

definition op_returns :: "nat \<Rightarrow> bool" where
  "op_returns op \<longleftrightarrow>
     op \<in> set [BC_ISTYPE, BC_ISNUM, BC_POW, BC_GSET, BC_GINC, BC_TGETR, BC_TSETM, BC_TSETR, BC_CALLMT, BC_ITERC,
       BC_VARG, BC_RETM, BC_RET, BC_JFORI, BC_IFORL, BC_JFORL, BC_ITERL, BC_IITERL, BC_JITERL, BC_ILOOP,
       BC_JLOOP, BC_FUNCF, BC_IFUNCF, BC_JFUNCF, BC_FUNCV, BC_IFUNCV, BC_JFUNCV, BC_FUNCC, BC_FUNCCW]"

text \<open>One instruction, with the program counter already behind it.  An unknown opcode jumps through the end of the table.\<close>

definition vm_exec :: "vm_env \<Rightarrow> vm_frame \<Rightarrow> vm_state \<Rightarrow> u32 \<Rightarrow> vm_res" where
  "vm_exec e f s i =
     (let op = unat (bc_op i) in
      if op \<ge> BC__MAX then Inl FCode
      else if op_returns op then vret s
      else if op \<le> BC_ISGT then step_cmp op f s i
      else if op \<le> BC_ISNEP then step_eq op f s i
      else if op \<le> BC_ISF then step_test op f s i
      else if op \<le> BC_UNM then step_unary op f s i
      else if op \<le> BC_MODVV then step_arith op f s i
      else if op \<le> BC_KNIL then step_const op e f s i
      else if op \<le> BC_USETP then step_upval op f s i
      else if op \<le> BC_FNEW then step_func op e f s i
      else if op \<le> BC_TDUP then step_newtab op e f s i
      else if op = BC_GGET then step_gget f s i
      else if op \<le> BC_TGETB then step_tget op e f s i
      else if op \<le> BC_TINCB then step_tset op e f s i
      else if op \<le> BC_CALL then step_call op e f s i
      else if op = BC_CALLT then step_callt f s i
      else if op = BC_ITERN then step_itern e f s i
      else if op = BC_ISNEXT then step_isnext e f s i
      else if op \<le> BC_RET1 then step_ret op f s i
      else if op = BC_FORI then step_fori f s i
      else if op = BC_FORL then step_forl e f s i
      else if op = BC_LOOP then hot_next e f s vnext
      else if op = BC_JMP then vnext (dojump f i 0) s
      else if op \<le> BC_VPROBENAME then step_event op e f s i
      else step_task op e f s i)"

definition vm_step :: "vm_env \<Rightarrow> vm_frame \<Rightarrow> vm_state \<Rightarrow> vm_res" where
  "vm_step e f s = vbind (vfetch s (fl_pc f)) (vm_exec e (add_pc f 1) s)"

text \<open>The entry of \<^verbatim>\<open>kp_vm_call\<close>, its loop with a bound on the dispatches (\<open>None\<close>: not finished), and the whole call.\<close>

definition vm_enter :: "vm_state \<Rightarrow> int \<Rightarrow> (vm_frame \<times> vm_state) vm" where
  "vm_enter s func =
     vbind (vbits_at s func) (\<lambda>a.
       vbind (vfunc s a) (\<lambda>fn.
         vbind (vproto s (fn_p fn)) (\<lambda>pt.
           vbind (vslot_set s func (SFrame a None)) (\<lambda>s.
             Inr (\<lparr>fl_loop = 0, fl_fn = a, fl_pt = fn_p fn, fl_k = fn_p fn, fl_pc = (fn_p fn, 1),
                   fl_base = func + 1, fl_func = func, fl_multres = 0\<rparr>,
                  s\<lparr>vs_top := func + 1 + uint (vp_framesize pt)\<rparr>)))))"

fun vm_run :: "nat \<Rightarrow> vm_env \<Rightarrow> vm_frame \<Rightarrow> vm_state \<Rightarrow> vm_state vm option" where
  "vm_run 0 e f s = None"
| "vm_run (Suc n) e f s =
     (case vm_step e f s of
        Inl x \<Rightarrow> Some (Inl x)
      | Inr (VRet s) \<Rightarrow> Some (Inr s)
      | Inr (VNext f s) \<Rightarrow> vm_run n e f s)"

definition kp_vm_call :: "nat \<Rightarrow> vm_env \<Rightarrow> vm_state \<Rightarrow> int \<Rightarrow> vm_state vm option" where
  "kp_vm_call n e s func =
     (case vm_enter s func of Inl x \<Rightarrow> Some (Inl x) | Inr (f, s) \<Rightarrow> vm_run n e f s)"

definition kp_vm_call_proto :: "nat \<Rightarrow> vm_env \<Rightarrow> vm_state \<Rightarrow> addr \<Rightarrow> vm_state vm option" where
  "kp_vm_call_proto n e s pt =
     (case func_new_empty e s pt of
        (fn, s) \<Rightarrow>
          if fn = 0 then Some (Inr s)
          else case vput s (vs_top s) (set_func fn) of
              Inl x \<Rightarrow> Some (Inl x)
            | Inr s \<Rightarrow> kp_vm_call n e (s\<lparr>vs_top := vs_top s + 1\<rparr>) (vs_top s))"

end
