(* ===== verification/Ktap_Validate.thy ===== *)
theory Ktap_Validate
  imports Ktap_Vm
begin

text \<open>
  What \<^verbatim>\<open>runtime/kp_vm.c\<close> does before a program runs: the table of built-in functions and the
  registration of libraries, the registry with the table of globals, the arguments of the script, and
  the validation of byte code, which also patches the calls of built-in functions.
\<close>

section \<open>Built-in functions\<close>

definition KP_MAX_SLOTS :: nat where "KP_MAX_SLOTS = 250"
definition KP_MAX_CACHED_CFUNCTION :: nat where "KP_MAX_CACHED_CFUNCTION = 128"
definition KTAP_RIDX_GLOBALS :: u32 where "KTAP_RIDX_GLOBALS = 1"

fun gfunc_find :: "addr list \<Rightarrow> addr \<Rightarrow> nat \<Rightarrow> int" where
  "gfunc_find [] c i = -1"
| "gfunc_find (f # fs) c i = (if f = c then int i else gfunc_find fs c (Suc i))"

definition gfunc_getidx :: "vm_state \<Rightarrow> addr \<Rightarrow> int" where
  "gfunc_getidx s c = gfunc_find (vs_gfunc s) c 0"

definition gfunc_add :: "vm_state \<Rightarrow> addr \<Rightarrow> vm_state" where
  "gfunc_add s c =
     (if length (vs_gfunc s) = KP_MAX_CACHED_CFUNCTION then verror ''please enlarge KP_MAX_CACHED_CFUNCTION'' s
      else s\<lparr>vs_gfunc := vs_gfunc s @ [c]\<rparr>)"

text \<open>\<^verbatim>\<open>kp_str_newz\<close>: the bytes of a C string.\<close>

definition kp_str_newz :: "vm_env \<Rightarrow> vm_state \<Rightarrow> u8 list \<Rightarrow> (addr \<times> vm_state) vm" where
  "kp_str_newz e s b =
     vbind (vopt FStr (kp_str_new (vs_g s) ((ve_arg e)\<lparr>sa_bytes := takeWhile (\<lambda>c. c \<noteq> 0) b\<rparr>))) (\<lambda>(ts, g).
       Inr (ts, s\<lparr>vs_g := g\<rparr>))"

definition update_tab :: "addr \<Rightarrow> (ktap_global \<Rightarrow> ktap_tab \<Rightarrow> (ktap_tab \<times> ktap_global) option) \<Rightarrow> vm_state \<Rightarrow> vm_state vm" where
  "update_tab a upd s =
     vbind (vtab s a) (\<lambda>t. vbind (vopt FTab (upd (vs_g s) t)) (\<lambda>(t, g). Inr (put_tab a t g s)))"

text \<open>The results of the setup functions are those of the C code: 0, or a negative error number.\<close>

fun register_funcs :: "vm_env \<Rightarrow> addr \<Rightarrow> (u8 list \<times> addr) list \<Rightarrow> vm_state \<Rightarrow> (int \<times> vm_state) vm" where
  "register_funcs e tbl [] s = Inr (0, s)"
| "register_funcs e tbl ((name, func) # fs) s =
     vbind (kp_str_newz e s name) (\<lambda>(ts, s).
       if ts = 0 then Inr (- ENOMEM, s)
       else vbind (update_tab tbl (\<lambda>g t. kp_tab_setstr g t ts (set_cfunc func)) s) (\<lambda>s.
         register_funcs e tbl fs (gfunc_add s func)))"

definition kp_vm_register_lib :: "vm_env \<Rightarrow> u8 list option \<Rightarrow> (u8 list \<times> addr) list \<Rightarrow> vm_state \<Rightarrow> (int \<times> vm_state) vm" where
  "kp_vm_register_lib e libname funcs s =
     (case libname of
        None \<Rightarrow> register_funcs e (vs_gtab s) funcs s
      | Some name \<Rightarrow>
          vbind (kp_str_newz e s name) (\<lambda>(ts, s).
            if ts = 0 then Inr (- ENOMEM, s)
            else vbind (add_tab e s (kp_tab_new_ah (ve_tabmem e) (vs_g s) 0 (of_nat (length funcs) + 1))) (\<lambda>(tbl, s).
              if tbl = 0 then Inr (- ENOMEM, s)
              else vbind (update_tab (vs_gtab s) (\<lambda>g t. kp_tab_set (vtabenv e s) g t (set_string ts) (set_table tbl)) s)
                     (register_funcs e tbl funcs))))"

definition init_registry :: "vm_env \<Rightarrow> vm_state \<Rightarrow> (int \<times> vm_state) vm" where
  "init_registry e s =
     vbind (add_tab e s (kp_tab_new_ah (ve_tabmem e) (vs_g s) 2 0)) (\<lambda>(reg, s).
       if reg = 0 then Inr (-1, s)
       else let s = s\<lparr>vs_registry := set_table reg\<rparr> in
         vbind (add_tab e s (kp_tab_new_ah (ve_tabmem e) (vs_g s) 0 1024)) (\<lambda>(t, s).
           if t = 0 then Inr (-1, s)
           else vbind (update_tab reg (\<lambda>g r. kp_tab_setint g r KTAP_RIDX_GLOBALS (set_table t)) s) (\<lambda>s.
             Inr (0, s\<lparr>vs_gtab := t\<rparr>))))"


section \<open>Arguments of the script\<close>

text \<open>
  The kernel's access to user memory: \<^verbatim>\<open>copy_from_user\<close> of the argument vector with its result,
  \<^verbatim>\<open>strlen_user\<close>, \<^verbatim>\<open>strncpy_from_user\<close> with its result, \<^verbatim>\<open>kmalloc\<close> by the number of bytes and
  \<^verbatim>\<open>kstrtoint\<close> on a zero-terminated string.
\<close>

record user_env =
  ue_argv :: "int \<times> addr list"
  ue_strlen :: "addr \<Rightarrow> int"
  ue_strncpy :: "addr \<Rightarrow> int \<Rightarrow> int \<times> u8 list"
  ue_kmalloc :: "nat \<Rightarrow> bool"
  ue_kstrtoint :: "u8 list \<Rightarrow> u32 option"

definition EINVAL :: int where "EINVAL = 22"
definition EFAULT :: int where "EFAULT = 14"

definition arg_value :: "vm_env \<Rightarrow> user_env \<Rightarrow> u8 list \<Rightarrow> vm_state \<Rightarrow> (ktap_val option \<times> vm_state) vm" where
  "arg_value e u kstr s =
     (case ue_kstrtoint u kstr of
        Some res \<Rightarrow> Inr (Some (set_number (scast res)), s)
      | None \<Rightarrow> vbind (kp_str_newz e s kstr) (\<lambda>(ts, s). Inr (if ts = 0 then None else Some (set_string ts), s)))"

fun init_args_loop :: "vm_env \<Rightarrow> user_env \<Rightarrow> addr \<Rightarrow> u32 \<Rightarrow> addr list \<Rightarrow> vm_state \<Rightarrow> (int \<times> vm_state) vm" where
  "init_args_loop e u tbl i [] s = Inr (0, s)"
| "init_args_loop e u tbl i (ustr # us) s =
     (let len = ue_strlen u ustr in
      if len > 0x1000 then Inr (- EINVAL, s)
      else if \<not> ue_kmalloc u (nat (len + 1)) then Inr (- ENOMEM, s)
      else let (r, kstr) = ue_strncpy u ustr len in
        if r < 0 then Inr (- EFAULT, s)
        else vbind (arg_value e u (take (nat len) kstr) s) (\<lambda>(v, s).
          case v of
            None \<Rightarrow> Inr (- ENOMEM, s)
          | Some v \<Rightarrow> vbind (update_tab tbl (\<lambda>g t. kp_tab_setint g t i v) s) (init_args_loop e u tbl (i + 1) us)))"

definition init_arguments :: "vm_env \<Rightarrow> user_env \<Rightarrow> u32 \<Rightarrow> vm_state \<Rightarrow> (int \<times> vm_state) vm" where
  "init_arguments e u argc s =
     vbind (add_tab e s (kp_tab_new_ah (ve_tabmem e) (vs_g s) argc 1)) (\<lambda>(tbl, s).
       vbind (kp_str_newz e s (map (of_nat \<circ> of_char) ''arg'')) (\<lambda>(ts, s).
         if tbl = 0 then Inr (-1, s)
         else if ts = 0 then Inr (- ENOMEM, s)
         else vbind (update_tab (vs_gtab s) (\<lambda>g t. kp_tab_set (vtabenv e s) g t (set_string ts) (set_table tbl)) s) (\<lambda>s.
           if argc = 0 then Inr (0, s)
           else if 1024 <s argc then Inr (- EINVAL, s)
           else if \<not> ue_kmalloc u (unat argc * 8) then Inr (- ENOMEM, s)
           else let (r, argv) = ue_argv u in
             if r < 0 then Inr (- EFAULT, s)
             else init_args_loop e u tbl 0 (take (unat argc) argv) s)))"


section \<open>Validation of byte code\<close>

text \<open>The calls of built-in functions are patched: \<^verbatim>\<open>GGET\<close> becomes \<^verbatim>\<open>GFUNC\<close> with the index of the function.\<close>

definition set_code :: "vm_state \<Rightarrow> addr \<Rightarrow> nat \<Rightarrow> u32 \<Rightarrow> vm_state" where
  "set_code s p j i =
     (case vs_protos s p of
        None \<Rightarrow> s
      | Some pt \<Rightarrow> s\<lparr>vs_protos := (vs_protos s)(p \<mapsto> pt\<lparr>vp_code := (vp_code pt)[j := i]\<rparr>)\<rparr>)"

definition validate_gget :: "vm_state \<Rightarrow> addr \<Rightarrow> nat \<Rightarrow> u32 \<Rightarrow> (bool \<times> vm_state) vm" where
  "validate_gget s p j i =
     vbind (vkgc s p (bc_d i)) (\<lambda>ts.
       vbind (vtab s (vs_gtab s)) (\<lambda>t.
         vbind (vopt FTab (kp_tab_getstr (vs_g s) t ts)) (\<lambda>v.
           if is_nil v then Inr (False, verror ''undefined global variable'' s)
           else if is_cfunc v \<and> gfunc_getidx s (vbits v) \<ge> 0 then
             Inr (True, set_code s p j (setbc_d (setbc_op i (of_nat BC_GFUNC)) (word_of_int (gfunc_getidx s (vbits v)))))
           else Inr (True, s))))"

text \<open>One instruction; \<open>child\<close> validates the prototype of a closure.  \<open>False\<close>: an error has been reported.\<close>

definition validate_instr ::
    "(vm_state \<Rightarrow> addr \<Rightarrow> int \<Rightarrow> (bool \<times> vm_state) vm) \<Rightarrow> addr \<Rightarrow> int \<Rightarrow> nat \<Rightarrow> vm_state \<Rightarrow> (bool \<times> vm_state) vm" where
  "validate_instr child p base j s =
     vbind (vfetch s (p, int j)) (\<lambda>i.
       let op = unat (bc_op i) in
       if op \<ge> BC__MAX then Inr (False, verror ''unknown byte code'' s)
       else if op = BC_FNEW then
         vbind (vkgc s p (bc_d i)) (\<lambda>newpt. child s newpt (base + uint (bc_a i) + 1))
       else if op = BC_RETM \<or> op = BC_RET then Inr (False, verror ''don't support return multiple values'' s)
       else if op = BC_GSET \<or> op = BC_GINC then
         vbind (vkgc s p (bc_d i)) (\<lambda>ts. Inr (False, verror ''cannot set global variable'' s))
       else if op = BC_GGET then validate_gget s p j i
       else if op = BC_ITERC then Inr (False, verror ''ktap only support pairs iteraor'' s)
       else if op = BC_POW then Inr (False, verror ''ktap don't support pow arith'' s)
       else Inr (True, s))"

fun validate_loop ::
    "(vm_state \<Rightarrow> addr \<Rightarrow> int \<Rightarrow> (bool \<times> vm_state) vm) \<Rightarrow> addr \<Rightarrow> int \<Rightarrow> nat list \<Rightarrow> vm_state \<Rightarrow> (bool \<times> vm_state) vm" where
  "validate_loop child p base [] s = Inr (True, s)"
| "validate_loop child p base (j # js) s =
     vbind (validate_instr child p base j s) (\<lambda>(ok, s).
       if ok then validate_loop child p base js s else Inr (False, s))"

text \<open>
  The recursion over the prototypes of closures is bounded by the kernel stack, \<open>depth\<close> activations:
  a constant that refers to a prototype around it would recur without end.
\<close>

fun kp_vm_validate_code :: "nat \<Rightarrow> vm_state \<Rightarrow> addr \<Rightarrow> int \<Rightarrow> (bool \<times> vm_state) vm" where
  "kp_vm_validate_code 0 s p base = Inl FDepth"
| "kp_vm_validate_code (Suc depth) s p base =
     vbind (vproto s p) (\<lambda>pt.
       if unat (vp_framesize pt) > KP_MAX_SLOTS then Inr (False, verror ''exceed max frame size'' s)
       else if base + uint (vp_framesize pt) > int (length (vs_stack s)) then Inr (False, verror ''stack overflow'' s)
       else validate_loop (kp_vm_validate_code depth) p base [1..<length (vp_code pt)] s)"

end
