(* ===== verification/Ktap_Vm_Loop.thy ===== *)
theory Ktap_Vm_Loop
  imports Ktap_Validate
begin

text \<open>
  Reasoning about the interpreter: conditions on the outcome of fallible operations, the configurations
  a call reaches as an inductive relation, and the loop counter.
\<close>

section \<open>Conditions on outcomes\<close>

definition vwp :: "(vm_fault \<Rightarrow> bool) \<Rightarrow> ('a \<Rightarrow> bool) \<Rightarrow> 'a vm \<Rightarrow> bool" where
  "vwp Q R m = (case m of Inl x \<Rightarrow> Q x | Inr y \<Rightarrow> R y)"

definition vout :: "(vm_frame \<Rightarrow> vm_state \<Rightarrow> bool) \<Rightarrow> vm_out \<Rightarrow> bool" where
  "vout P out = (case out of VNext f s \<Rightarrow> P f s | VRet s \<Rightarrow> True)"

lemma vwp_simps [simp]: "vwp Q R (Inr y) = R y" "vwp Q R (Inl x) = Q x"
  by (simp_all add: vwp_def)

lemma vout_simps [simp]: "vout P (VNext f s) = P f s" "vout P (VRet s)"
  by (simp_all add: vout_def)

lemma vwp_bind [simp]: "vwp Q R (vbind m k) = vwp Q (\<lambda>x. vwp Q R (k x)) m"
  by (simp add: vwp_def vbind_def split: sum.splits)

lemma vwp_vopt: "vwp Q R (vopt x m) \<longleftrightarrow> (case m of None \<Rightarrow> Q x | Some y \<Rightarrow> R y)"
  by (simp add: vopt_def split: option.splits)

lemma vwp_outs [simp]:
  "vwp Q (vout P) (vnext f s) = P f s" "vwp Q (vout P) (vret s)" "vwp Q (vout P) (vfail m s)"
  by (simp_all add: vnext_def vret_def vfail_def)

lemma vwp_mono: "vwp Q R m \<Longrightarrow> (\<And>x. Q x \<Longrightarrow> Q' x) \<Longrightarrow> (\<And>y. R y \<Longrightarrow> R' y) \<Longrightarrow> vwp Q' R' m"
  by (auto simp: vwp_def split: sum.splits)

lemma vwp_any: "(\<And>x. Q x) \<Longrightarrow> (\<And>y. R y) \<Longrightarrow> vwp Q R m"
  by (auto simp: vwp_def split: sum.splits)

section \<open>Reachable configurations\<close>

inductive vm_reach :: "vm_env \<Rightarrow> vm_frame \<times> vm_state \<Rightarrow> vm_frame \<times> vm_state \<Rightarrow> bool" for e c where
  start: "vm_reach e c c"
| step: "vm_reach e c (f, s) \<Longrightarrow> vm_step e f s = Inr (VNext f' s') \<Longrightarrow> vm_reach e c (f', s')"

section \<open>The loop counter\<close>

abbreviation (input) keeps_loop :: "vm_frame \<Rightarrow> vm_res \<Rightarrow> bool" where
  "keeps_loop f m \<equiv> vwp (\<lambda>_. True) (vout (\<lambda>f' _. fl_loop f' = fl_loop f)) m"

lemma add_pc_loop [simp]: "fl_loop (add_pc f n) = fl_loop f" "fl_loop (dojump f i n) = fl_loop f"
  by (simp_all add: add_pc_def dojump_def)

lemma donextjump_loop [simp]: "keeps_loop f (donextjump f s)"
  by (auto simp: donextjump_def intro: vwp_any)

lemma vcond_loop [simp]: "keeps_loop f (vcond b f s)"
  by (simp add: vcond_def)

lemma step_keeps_loop:
  "keeps_loop f (step_cmp op f s i)" "keeps_loop f (step_eq op f s i)"
  "keeps_loop f (step_test op f s i)" "keeps_loop f (step_unary op f s i)"
  by (auto simp: step_cmp_def step_eq_def step_test_def step_unary_def intro!: vwp_any)

lemma step_arith_loop: "keeps_loop f (step_arith op f s i)"
  by (auto simp: step_arith_def arith_VN_def arith_NV_def arith_VV_def Let_def intro!: vwp_any)

lemma step_const_loop: "keeps_loop f (step_const op e f s i)" "keeps_loop f (step_upval op f s i)"
  "keeps_loop f (step_func op e f s i)" "keeps_loop f (step_newtab op e f s i)" "keeps_loop f (step_gget f s i)"
  by (auto simp: step_const_def step_upval_def step_func_def step_newtab_def step_gget_def intro!: vwp_any split: prod.splits)

lemma step_table_loop: "keeps_loop f (step_tget op e f s i)" "keeps_loop f (step_tset op e f s i)"
  by (auto simp: step_tget_def step_tset_def Let_def intro!: vwp_any split: prod.splits)

lemma step_call_loop: "keeps_loop f (step_call op e f s i)" "keeps_loop f (step_callt f s i)" "keeps_loop f (step_ret op f s i)"
  by (auto simp: step_call_def step_callt_def step_ret_def ret_to_def call_c_def call_func_def Let_def intro!: vwp_any split: prod.splits option.splits)

lemma step_rest_loop: "keeps_loop f (step_fori f s i)" "keeps_loop f (step_isnext e f s i)"
  "keeps_loop f (step_event op e f s i)" "keeps_loop f (step_task op e f s i)"
  by (auto simp: step_fori_def step_isnext_def step_event_def step_task_def Let_def intro!: vwp_any split: prod.splits option.splits)

text \<open>The three instructions that count.\<close>

abbreviation (input) counts_loop :: "vm_env \<Rightarrow> vm_frame \<Rightarrow> vm_res \<Rightarrow> bool" where
  "counts_loop e f m \<equiv> vwp (\<lambda>_. True) (vout (\<lambda>f' _. fl_loop f \<noteq> ve_max_loop e \<and> fl_loop f' = fl_loop f + 1)) m"

lemma hot_next_vwp:
  "vwp Q (vout P) (hot_next e f s k) \<longleftrightarrow>
     (fl_loop f \<noteq> ve_max_loop e \<longrightarrow> vwp Q (vout P) (k (f\<lparr>fl_loop := fl_loop f + 1\<rparr>) s))"
  by (simp add: hot_next_def check_hot_loop_def)

lemma step_counts_loop:
  "counts_loop e f (hot_next e f s vnext)" "counts_loop e f (step_forl e f s i)" "counts_loop e f (step_itern e f s i)"
  by (auto simp: step_forl_def step_itern_def donextjump_def Let_def hot_next_vwp intro!: vwp_any split: prod.splits option.splits)

definition counting_op :: "nat \<Rightarrow> bool" where
  "counting_op op \<longleftrightarrow> op = BC_FORL \<or> op = BC_ITERN \<or> op = BC_LOOP"

lemma vm_exec_loop:
  "vwp (\<lambda>_. True)
     (vout (\<lambda>f' _. if counting_op (unat (bc_op i)) then fl_loop f \<noteq> ve_max_loop e \<and> fl_loop f' = fl_loop f + 1
                   else fl_loop f' = fl_loop f)) (vm_exec e f s i)"
  using step_counts_loop
  by (auto simp: vm_exec_def Let_def counting_op_def op_returns_def step_keeps_loop step_arith_loop step_const_loop
      step_table_loop step_call_loop step_rest_loop)

lemma vm_step_loop:
  assumes "vm_step e f s = Inr (VNext f' s')"
  shows "fl_loop f' = fl_loop f \<or> fl_loop f \<noteq> ve_max_loop e \<and> fl_loop f' = fl_loop f + 1"
proof -
  obtain i where i: "vm_exec e (add_pc f 1) s i = Inr (VNext f' s')"
    using assms by (auto simp: vm_step_def vbind_Inr_iff)
  show ?thesis using vm_exec_loop [of i "add_pc f 1" e s] by (auto simp: i split: if_splits)
qed

lemma vm_reach_loop: "vm_reach e c c' \<Longrightarrow> fl_loop (fst c) \<le> ve_max_loop e \<Longrightarrow> fl_loop (fst c') \<le> ve_max_loop e"
proof (induction rule: vm_reach.induct)
  case (step f s f' s')
  have "fl_loop f \<le> ve_max_loop e" using step by simp
  then show ?case using vm_step_loop [OF step.hyps(2)] by (auto intro: inc_le simp: order_le_less dest: inc_le)
qed simp

text \<open>A number of dispatches, for concrete runs.\<close>

fun vm_after :: "nat \<Rightarrow> vm_env \<Rightarrow> vm_frame \<times> vm_state \<Rightarrow> (vm_frame \<times> vm_state) option" where
  "vm_after 0 e c = Some c"
| "vm_after (Suc n) e c =
     (case vm_after n e c of
        None \<Rightarrow> None
      | Some (f, s) \<Rightarrow> (case vm_step e f s of Inr (VNext f' s') \<Rightarrow> Some (f', s') | _ \<Rightarrow> None))"

lemma vm_after_reach: "vm_after n e c = Some c' \<Longrightarrow> vm_reach e c c'"
proof (induction n arbitrary: c')
  case (Suc n)
  then show ?case
    by (auto split: option.splits sum.splits vm_out.splits intro: vm_reach.step)
qed (auto intro: vm_reach.start)

section \<open>An example program\<close>

text \<open>\<^verbatim>\<open>for i = 1, 3 do local x = i end\<close>, in a state with nothing else.\<close>

definition loop_proto :: vm_proto where
  "loop_proto = \<lparr>vp_flags = 0, vp_numparams = 0, vp_framesize = 4,
     vp_code = [BCINS_AD (of_nat BC_FUNCF) 4 0, BCINS_AD (of_nat BC_KSHORT) 0 1, BCINS_AD (of_nat BC_KSHORT) 1 3,
       BCINS_AD (of_nat BC_KSHORT) 2 1, BCINS_AD (of_nat BC_FORI) 0 (0x8000 + 2), BCINS_AD (of_nat BC_MOV) 3 0,
       BCINS_AD (of_nat BC_FORL) 0 (0x8000 - 2), BCINS_AD (of_nat BC_RET0) 0 1],
     vp_uv = [], vp_kgc = [], vp_knum = []\<rparr>"

definition loop_state :: vm_state where
  "loop_state = \<lparr>vs_g = \<lparr>mempool = 0, mp_freepos = 0, mp_size = 0, strhash = [], strmask = 0, strnum = 0,
       strobjs = Map.empty, gstatus = KTAP_RUNNING, mainstop = False, glog = []\<rparr>,
     vs_stack = SVal (set_func 1) # replicate 5 (SVal kp_niltv), vs_top = 1, vs_func = 0, vs_openupval = [],
     vs_upvals = Map.empty, vs_funcs = [1 \<mapsto> \<lparr>fn_p = 2, fn_upvals = []\<rparr>], vs_protos = [2 \<mapsto> loop_proto],
     vs_tabs = Map.empty, vs_gtab = 0, vs_registry = kp_niltv, vs_gfunc = [], vs_event = None, vs_main = True\<rparr>"

definition loop_env :: vm_env where
  "loop_env = \<lparr>ve_tab = \<lparr>env_event = None, env_trace = (\<lambda>_ _. []), env_symbol = (\<lambda>_. []),
       env_arg = \<lparr>sa_bytes = [], sa_after = (\<lambda>_. 0), sa_objafter = (\<lambda>_ _. 0), sa_slow = False\<rparr>\<rparr>,
     ve_tabmem = \<lparr>tm_obj = False, tm_array = (\<lambda>_. None), tm_node = (\<lambda>_. None), tm_hnum = 0\<rparr>, ve_alloc = (\<lambda>_. 0),
     ve_cfun = (\<lambda>_ _. None), ve_next = 0, ve_arg = \<lparr>sa_bytes = [], sa_after = (\<lambda>_. 0), sa_objafter = (\<lambda>_ _. 0), sa_slow = False\<rparr>,
     ve_pid = 0, ve_tid = 0, ve_uid = 0, ve_cpu = 0, ve_comm = [], ve_max_loop = 100000\<rparr>"

text \<open>
  C12: every call of the interpreter is bounded in its loops.  In every configuration that is reachable from the
  entry of \<^verbatim>\<open>kp_vm_call\<close>, for any code, the loop counter is at most \<^verbatim>\<open>max_loop_count\<close>: the counter never passes the value that
  \<^verbatim>\<open>check_hot_loop\<close> tests with equality, so no loop instruction is dispatched more often than that.
\<close>

theorem hot_loop_bound:
  assumes "vm_enter s0 func = Inr (f0, s1)" "vm_reach e (f0, s1) (f, s)"
  shows "fl_loop f \<le> ve_max_loop e"
proof -
  have "fl_loop f0 = 0" using assms(1) by (auto simp: vm_enter_def vbind_Inr_iff)
  then show ?thesis using vm_reach_loop [OF assms(2)] by simp
qed

theorem hot_loop_bound_witness:
  "\<exists>f s. vm_reach loop_env (projr (vm_enter loop_state 0)) (f, s) \<and> fl_loop f = 1 \<and> fl_loop f \<le> ve_max_loop loop_env"
proof -
  let ?c = "projr (vm_enter loop_state 0)"
  have "\<not> isl (vm_enter loop_state 0)" by code_simp
  then have en: "vm_enter loop_state 0 = Inr (fst ?c, snd ?c)" by (cases "vm_enter loop_state 0") auto
  have "\<not> Option.is_none (vm_after 6 loop_env ?c)" "fl_loop (fst (the (vm_after 6 loop_env ?c))) = 1" by code_simp+
  then obtain f s where f: "vm_after 6 loop_env ?c = Some (f, s)" "fl_loop f = 1"
    by (cases "vm_after 6 loop_env ?c") (auto simp: Option.is_none_def)
  then have r: "vm_reach loop_env ?c (f, s)" using vm_after_reach by simp
  then show ?thesis using hot_loop_bound [OF en, of loop_env f s] f(2) by auto
qed

end
