(* ===== verification/Ktap_Vm_Leaf.thy ===== *)
theory Ktap_Vm_Leaf
  imports Ktap_Vm_Loop
begin

text \<open>
  Safety and termination of code without calls: a static check of operands and jumps, the invariant of
  a frame that runs checked code, and that the interpreter keeps it on every instruction.
\<close>

section \<open>Leaf code\<close>

definition slot_kind :: "vslot \<Rightarrow> (addr \<times> int) option option" where
  "slot_kind x = (case x of SVal _ \<Rightarrow> None | SFrame _ pc \<Rightarrow> Some pc)"

definition value_slot :: "vm_state \<Rightarrow> int \<Rightarrow> bool" where
  "value_slot s i \<longleftrightarrow> in_stack s i \<and> slot_kind (vs_stack s ! nat i) = None"

definition openslots :: "vm_state \<Rightarrow> int set" where
  "openslots s = {i. \<exists>a uv. vs_upvals s a = Some uv \<and> uv_slot uv = Some i}"

definition keeps :: "vm_state \<Rightarrow> vm_state \<Rightarrow> bool" where
  "keeps s s' \<longleftrightarrow> map slot_kind (vs_stack s') = map slot_kind (vs_stack s) \<and> openslots s' \<subseteq> openslots s \<and> vs_protos s' = vs_protos s \<and>
     vs_funcs s' = vs_funcs s \<and> dom (vs_upvals s) \<subseteq> dom (vs_upvals s')"

definition mem_fault :: "vm_fault \<Rightarrow> bool" where
  "mem_fault x \<longleftrightarrow> x = FStack \<or> x = FFrame \<or> x = FCode \<or> x = FConst \<or> x = FUpval"

abbreviation (input) vsafe :: "('a \<Rightarrow> bool) \<Rightarrow> 'a vm \<Rightarrow> bool" where
  "vsafe R m \<equiv> vwp (\<lambda>x. \<not> mem_fault x) R m"

lemma mem_fault_simps [simp]:
  "mem_fault FStack" "mem_fault FFrame" "mem_fault FCode" "mem_fault FConst" "mem_fault FUpval" "\<not> mem_fault FObj" "\<not> mem_fault FArith"
  "\<not> mem_fault FTab" "\<not> mem_fault FStr" "\<not> mem_fault FCfun" "\<not> mem_fault FDepth"
  by (simp_all add: mem_fault_def)

lemma keeps_refl [simp]: "keeps s s" by (simp add: keeps_def)
lemma keeps_trans: "keeps s s1 \<Longrightarrow> keeps s1 s2 \<Longrightarrow> keeps s s2"
  unfolding keeps_def by (metis subset_trans)

lemma keeps_length: "keeps s s' \<Longrightarrow> length (vs_stack s') = length (vs_stack s)"
  unfolding keeps_def by (metis length_map)

lemma keeps_value_slot: "keeps s s' \<Longrightarrow> value_slot s' i = value_slot s i"
  using keeps_length [of s s'] unfolding keeps_def value_slot_def in_stack_def
  by (auto dest!: arg_cong [where f = "\<lambda>xs. xs ! nat i"])

lemma keeps_update [simp]:
  "keeps s (s'\<lparr>vs_g := g\<rparr>) = keeps s s'" "keeps s (s'\<lparr>vs_top := t\<rparr>) = keeps s s'"
  "keeps s (s'\<lparr>vs_openupval := l\<rparr>) = keeps s s'" "keeps s (s'\<lparr>vs_event := v\<rparr>) = keeps s s'"
  "keeps s (s'\<lparr>vs_tabs := t'\<rparr>) = keeps s s'" "keeps (s\<lparr>vs_g := g\<rparr>) s' = keeps s s'"
  by (simp_all add: keeps_def openslots_def)

lemma vget_safe: "value_slot s i \<Longrightarrow> (\<And>v. R v) \<Longrightarrow> vsafe R (vget s i)"
  by (auto simp: vget_def value_slot_def slot_kind_def split: vslot.splits)

lemma vbits_at_safe: "value_slot s i \<Longrightarrow> (\<And>v. R v) \<Longrightarrow> vsafe R (vbits_at s i)"
  by (auto simp: vbits_at_def value_slot_def)

lemma keeps_put: "value_slot s i \<Longrightarrow> keeps s (s\<lparr>vs_stack := (vs_stack s)[nat i := SVal v]\<rparr>)"
  by (auto simp: keeps_def value_slot_def openslots_def map_update slot_kind_def in_stack_def list_update_same_conv)

lemma vput_safe: "value_slot s i \<Longrightarrow> (\<And>s'. keeps s s' \<Longrightarrow> R s') \<Longrightarrow> vsafe R (vput s i v)"
  using keeps_put [of s i v] by (simp add: vput_def vslot_set_def value_slot_def)

lemma vsettype_safe: "value_slot s i \<Longrightarrow> (\<And>s'. keeps s s' \<Longrightarrow> R s') \<Longrightarrow> vsafe R (vsettype s i t)"
  by (auto simp: vsettype_def intro!: vbits_at_safe vput_safe)

lemma vopt_safe: "(\<And>v. R v) \<Longrightarrow> \<not> mem_fault x \<Longrightarrow> vsafe R (vopt x m)"
  by (auto simp: vwp_vopt split: option.splits)

lemma vkgc_safe: "vs_protos s p = Some pt \<Longrightarrow> unat d < length (vp_kgc pt) \<Longrightarrow> (\<And>v. R v) \<Longrightarrow> vsafe R (vkgc s p d)"
  by (simp add: vkgc_def)
lemma vknum_safe: "vs_protos s p = Some pt \<Longrightarrow> unat d < length (vp_knum pt) \<Longrightarrow> (\<And>v. R v) \<Longrightarrow> vsafe R (vknum s p d)"
  by (simp add: vknum_def)

lemma obj_safe: "(\<And>v. R v) \<Longrightarrow> vsafe R (vfunc s a)" "(\<And>v. R' v) \<Longrightarrow> vsafe R' (vtab s a)"
  by (auto simp: vfunc_def vtab_def intro: vopt_safe)

lemma vupval_safe:
  "vs_funcs s f = Some fn \<Longrightarrow> unat i < length (fn_upvals fn) \<Longrightarrow> (\<And>a. a \<in> set (fn_upvals fn) \<Longrightarrow> R a) \<Longrightarrow> vsafe R (vupval s f i)"
  by (simp add: vupval_def)

lemma uvget_safe: "a \<in> dom (vs_upvals s) \<Longrightarrow> \<forall>i\<in>openslots s. value_slot s i \<Longrightarrow> (\<And>v. R v) \<Longrightarrow> vsafe R (uvget s a)"
  by (auto simp: uvget_def vwp_vopt openslots_def split: option.splits intro!: vget_safe)

lemma openslotsI: "vs_upvals s a = Some uv \<Longrightarrow> uv_slot uv = Some i \<Longrightarrow> i \<in> openslots s"
  by (auto simp: openslots_def)

lemma keeps_upval_value:
  "vs_upvals s a = Some uv \<Longrightarrow> keeps s (s\<lparr>vs_upvals := (vs_upvals s)(a \<mapsto> uv\<lparr>uv_tv := v\<rparr>)\<rparr>)"
  by (auto simp: keeps_def openslots_def split: if_splits)

lemma uvput_safe: "a \<in> dom (vs_upvals s) \<Longrightarrow> \<forall>i\<in>openslots s. value_slot s i \<Longrightarrow> (\<And>s'. keeps s s' \<Longrightarrow> R s') \<Longrightarrow> vsafe R (uvput s a v)"
  using keeps_upval_value [of s a] by (auto simp: uvput_def vwp_vopt split: option.splits intro!: vput_safe intro: openslotsI)

lemma arith_safe: "(\<And>v. R v) \<Longrightarrow> vsafe R (arith op a b)"
  by (auto simp: arith_def split: arith_op.splits)

text \<open>
  A static check of code: operands within the frame, the constants and the upvalue references, and the successors of an
  instruction.  Leaf code has no calls, reads no built-in functions and creates no closures.
\<close>

definition operands_ok :: "vm_proto \<Rightarrow> u32 \<Rightarrow> bool" where
  "operands_ok pt i =
     (let op = unat (bc_op i); n = uint (vp_framesize pt);
          slot = (\<lambda>x. uint x < n); str = (\<lambda>d. unat d < length (vp_kgc pt)); num = (\<lambda>d. unat d < length (vp_knum pt));
          upv = (\<lambda>x. unat x < length (vp_uv pt));
          a = bc_a i; b = bc_b i; c = bc_c i; d = bc_d i
      in if op_returns op \<or> op = BC_KCDATA \<or> op = BC_UCLO \<or> op = BC_RET0 \<or> op = BC_RET1 \<or> op = BC_LOOP \<or> op = BC_JMP
         then True
         else if op \<le> BC_ISNEV \<or> BC_ISTC \<le> op \<and> op \<le> BC_UNM then slot a \<and> slot d
         else if op = BC_ISEQS \<or> op = BC_ISNES \<or> op = BC_KSTR \<or> op = BC_TDUP \<or> op = BC_GGET then slot a \<and> str d
         else if op = BC_ISEQN \<or> op = BC_ISNEN \<or> op = BC_KNUM then slot a \<and> num d
         else if op = BC_ISEQP \<or> op = BC_ISNEP \<or> op = BC_KSHORT \<or> op = BC_KPRI \<or> op = BC_TNEW \<or> BC_VARGN \<le> op
         then slot a \<and> op \<noteq> BC_GFUNC
         else if op = BC_UGET then slot a \<and> upv d
         else if op \<le> BC_MODNV then slot a \<and> slot b \<and> num c
         else if op \<le> BC_MODVV \<or> op = BC_CAT \<or> op = BC_TGETV \<or> op = BC_TSETV \<or> op = BC_TINCV then slot a \<and> slot b \<and> slot c
         else if op = BC_KNIL then a \<le> d \<and> slot d
         else if op = BC_USETV \<or> op = BC_UINCV then upv a \<and> slot d
         else if op = BC_USETS then upv a \<and> str d
         else if op = BC_USETN \<or> op = BC_UINCN then upv a \<and> num d
         else if op = BC_USETP then upv a
         else if op = BC_TGETS \<or> op = BC_TSETS \<or> op = BC_TINCS then slot a \<and> slot b \<and> str c
         else if op = BC_TGETB \<or> op = BC_TSETB \<or> op = BC_TINCB then slot a \<and> slot b
         else if op = BC_ITERN then 2 \<le> uint a \<and> uint a + 1 < n
         else if op = BC_ISNEXT then 3 \<le> uint a \<and> slot a
         else if op = BC_FORI \<or> op = BC_FORL then uint a + 3 < n
         else False)"

definition reads_next :: "nat \<Rightarrow> bool" where
  "reads_next op \<longleftrightarrow> op \<le> BC_ISF \<or> op = BC_ITERN"

definition succs :: "u32 list \<Rightarrow> nat \<Rightarrow> int list" where
  "succs code j =
     (let i = code ! j; op = unat (bc_op i); pc = int j + 1 in
      if op_returns op \<or> op = BC_RET0 \<or> op = BC_RET1 then []
      else if reads_next op then [pc + 1, pc + 1 + bc_j (code ! Suc j)]
      else if op = BC_UCLO \<or> op = BC_ISNEXT \<or> op = BC_JMP then [pc + bc_j i]
      else if op = BC_FORI \<or> op = BC_FORL then [pc, pc + bc_j i]
      else [pc])"

definition leaf_instr :: "vm_proto \<Rightarrow> nat \<Rightarrow> bool" where
  "leaf_instr pt j =
     (let code = vp_code pt; op = unat (bc_op (code ! j)) in
      op < BC__MAX \<and> operands_ok pt (code ! j) \<and> (reads_next op \<longrightarrow> Suc j < length code) \<and>
      list_all (\<lambda>t. 1 \<le> t \<and> t < int (length code)) (succs code j))"

definition leaf_code :: "vm_proto \<Rightarrow> bool" where
  "leaf_code pt \<longleftrightarrow> 1 < length (vp_code pt) \<and> list_all (leaf_instr pt) [1..<length (vp_code pt)]"

section \<open>Leaf steps\<close>

definition has_upvals :: "vm_state \<Rightarrow> addr \<Rightarrow> vm_proto \<Rightarrow> bool" where
  "has_upvals s a pt \<longleftrightarrow>
     (\<exists>fn. vs_funcs s a = Some fn \<and> length (vp_uv pt) \<le> length (fn_upvals fn) \<and> set (fn_upvals fn) \<subseteq> dom (vs_upvals s))"

definition frame_slots :: "vm_frame \<Rightarrow> vm_state \<Rightarrow> vm_proto \<Rightarrow> bool" where
  "frame_slots f s pt \<longleftrightarrow>
     vs_protos s (fl_k f) = Some pt \<and> has_upvals s (fl_fn f) pt \<and> (\<forall>x. 0 \<le> x \<and> x < uint (vp_framesize pt) \<longrightarrow> value_slot s (fl_base f + x)) \<and>
     (\<forall>i\<in>openslots s. value_slot s i)"

definition same_frame :: "vm_frame \<Rightarrow> vm_frame \<Rightarrow> bool" where
  "same_frame f f' \<longleftrightarrow> fl_k f' = fl_k f \<and> fl_fn f' = fl_fn f \<and> fl_base f' = fl_base f \<and> fl_func f' = fl_func f \<and> fst (fl_pc f') = fst (fl_pc f)"

definition leaf_post :: "vm_frame \<Rightarrow> vm_state \<Rightarrow> int set \<Rightarrow> vm_out \<Rightarrow> bool" where
  "leaf_post f s pcs = vout (\<lambda>f' s'. keeps s s' \<and> same_frame f f' \<and> snd (fl_pc f') \<in> pcs)"

lemma has_upvals_keeps: "keeps s s' \<Longrightarrow> has_upvals s a pt \<Longrightarrow> has_upvals s' a pt"
  unfolding has_upvals_def keeps_def by auto

lemma frame_slots_keeps: "frame_slots f s pt \<Longrightarrow> keeps s s' \<Longrightarrow> frame_slots f s' pt"
  by (auto simp: frame_slots_def keeps_value_slot has_upvals_keeps) (auto simp: keeps_def)

lemma frame_slotsD:
  assumes "frame_slots f s pt"
  shows "vs_protos s (fl_k f) = Some pt" and "0 \<le> x \<Longrightarrow> x < uint (vp_framesize pt) \<Longrightarrow> value_slot s (fl_base f + x)"
    and "\<forall>i\<in>openslots s. value_slot s i"
  using assms by (auto simp: frame_slots_def)

lemma same_frame_simps [simp]: "same_frame f f" "same_frame f (add_pc f n)" "same_frame f (dojump f i n)"
  "same_frame f (f\<lparr>fl_loop := l\<rparr>)" "same_frame f (f\<lparr>fl_multres := m\<rparr>)"
  by (simp_all add: same_frame_def add_pc_def dojump_def)

lemma pc_simps [simp]: "snd (fl_pc (add_pc f n)) = snd (fl_pc f) + n" "fst (fl_pc (add_pc f n)) = fst (fl_pc f)"
  "snd (fl_pc (dojump f i n)) = snd (fl_pc f) + bc_j i + n" "fst (fl_pc (dojump f i n)) = fst (fl_pc f)"
  "fl_base (add_pc f n) = fl_base f" "fl_k (add_pc f n) = fl_k f" "fl_func (add_pc f n) = fl_func f"
  "fl_base (dojump f i n) = fl_base f" "fl_k (dojump f i n) = fl_k f" "fl_func (dojump f i n) = fl_func f"
  "fl_fn (add_pc f n) = fl_fn f" "fl_fn (dojump f i n) = fl_fn f"
  by (simp_all add: add_pc_def dojump_def)

lemma leaf_post_outs [simp]:
  "vwp Q (leaf_post f s pcs) (vnext f' s') \<longleftrightarrow> keeps s s' \<and> same_frame f f' \<and> snd (fl_pc f') \<in> pcs"
  "vwp Q (leaf_post f s pcs) (vret s')" "vwp Q (leaf_post f s pcs) (vfail m s')"
  by (simp_all add: leaf_post_def)

lemma RX_slots:
  assumes "frame_slots f s pt"
  shows "uint (bc_a i) < uint (vp_framesize pt) \<Longrightarrow> value_slot s (RA f i)"
    "uint (bc_b i) < uint (vp_framesize pt) \<Longrightarrow> value_slot s (RB f i)"
    "uint (bc_c i) < uint (vp_framesize pt) \<Longrightarrow> value_slot s (RC f i)"
    "uint (bc_d i) < uint (vp_framesize pt) \<Longrightarrow> value_slot s (RD f i)"
  using assms by (auto simp: frame_slots_def RA_def RB_def RC_def RD_def)

lemma donextjump_safe:
  assumes "keeps s s'" "vs_protos s (fst (fl_pc f)) = Some pt" "1 \<le> snd (fl_pc f)" "snd (fl_pc f) < int (length (vp_code pt))"
    "snd (fl_pc f) + 1 + bc_j (vp_code pt ! nat (snd (fl_pc f))) \<in> pcs"
  shows "vsafe (leaf_post f s pcs) (donextjump f s')"
proof -
  have "vs_protos s' (fst (fl_pc f)) = Some pt" using assms by (simp add: keeps_def)
  then show ?thesis using assms by (simp add: donextjump_def vfetch_def algebra_simps)
qed

text \<open>Where an instruction goes: \<open>at\<close> is the place of the instruction.\<close>

definition at_instr :: "vm_frame \<Rightarrow> vm_state \<Rightarrow> vm_proto \<Rightarrow> nat \<Rightarrow> bool" where
  "at_instr f s pt j \<longleftrightarrow>
     frame_slots f s pt \<and> fst (fl_pc f) = fl_k f \<and> snd (fl_pc f) = int j + 1 \<and> 0 < j \<and> j < length (vp_code pt) \<and> leaf_instr pt j"

lemma at_next:
  assumes "at_instr f s pt j" "reads_next (unat (bc_op (vp_code pt ! j)))" "keeps s s'"
     "int j + 2 + bc_j (vp_code pt ! Suc j) \<in> pcs"
  shows "vsafe (leaf_post f s pcs) (donextjump f s')"
  using assms
  by (intro donextjump_safe) (auto simp: at_instr_def frame_slots_def leaf_instr_def Let_def nat_add_distrib Suc_nat_eq_nat_zadd1 algebra_simps)

lemmas vsafe_rules = vget_safe vput_safe vsettype_safe vbits_at_safe vopt_safe vkgc_safe vknum_safe obj_safe
  uvget_safe uvput_safe arith_safe

lemma at_slots:
  assumes "at_instr f s pt j" "keeps s s'"
  shows "0 \<le> x \<Longrightarrow> x < uint (vp_framesize pt) \<Longrightarrow> value_slot s' (fl_base f + x)"
    "uint (bc_a i) < uint (vp_framesize pt) \<Longrightarrow> value_slot s' (RA f i)"
    "uint (bc_b i) < uint (vp_framesize pt) \<Longrightarrow> value_slot s' (RB f i)"
    "uint (bc_c i) < uint (vp_framesize pt) \<Longrightarrow> value_slot s' (RC f i)"
    "uint (bc_d i) < uint (vp_framesize pt) \<Longrightarrow> value_slot s' (RD f i)"
  using assms RX_slots [of f s pt i] by (auto simp: at_instr_def keeps_value_slot frame_slots_def)

lemma at_consts:
  assumes "at_instr f s pt j" "keeps s s'"
  shows "unat d < length (vp_kgc pt) \<Longrightarrow> (\<And>v. R v) \<Longrightarrow> vsafe R (vkgc s' (fl_k f) d)"
    "unat d < length (vp_knum pt) \<Longrightarrow> (\<And>v. R' v) \<Longrightarrow> vsafe R' (vknum s' (fl_k f) d)"
  using assms by (auto intro!: vkgc_safe vknum_safe simp: at_instr_def frame_slots_def keeps_def)

lemma at_open: "at_instr f s pt j \<Longrightarrow> keeps s s' \<Longrightarrow> \<forall>i\<in>openslots s'. value_slot s' i"
  by (auto simp: at_instr_def keeps_value_slot frame_slots_def) (auto simp: keeps_def)

lemma at_upval:
  assumes "at_instr f s pt j" "keeps s s'" "unat (i :: u32) < length (vp_uv pt)" "\<And>a. a \<in> dom (vs_upvals s') \<Longrightarrow> R a"
  shows "vsafe R (vupval s' (fl_fn f) i)"
proof -
  obtain fn where "vs_funcs s' (fl_fn f) = Some fn" "length (vp_uv pt) \<le> length (fn_upvals fn)" "set (fn_upvals fn) \<subseteq> dom (vs_upvals s')"
    using assms(1) has_upvals_keeps [OF assms(2), of "fl_fn f" pt] by (auto simp: at_instr_def frame_slots_def has_upvals_def)
  then show ?thesis using assms(3,4) by (intro vupval_safe) auto
qed

lemma at_pc: "at_instr f s pt j \<Longrightarrow> snd (fl_pc f) = int j + 1" by (simp add: at_instr_def)
lemma at_operands: "at_instr f s pt j \<Longrightarrow> operands_ok pt (vp_code pt ! j)" by (simp add: at_instr_def leaf_instr_def Let_def)

lemma vcond_leaf:
  assumes "at_instr f s pt j" "unat (bc_op (vp_code pt ! j)) \<le> BC_ISNEP" "keeps s s'"
  shows "vsafe (leaf_post f s (set (succs (vp_code pt) j))) (vcond b f s')"
proof -
  have "reads_next (unat (bc_op (vp_code pt ! j)))" "\<not> op_returns (unat (bc_op (vp_code pt ! j)))"
    using assms by (auto simp: reads_next_def op_returns_def)
  moreover from this assms have "set (succs (vp_code pt) j) = {int j + 2, int j + 2 + bc_j (vp_code pt ! Suc j)}"
    by (auto simp: succs_def Let_def)
  ultimately show ?thesis
    using assms at_next [OF assms(1), of s'] by (auto simp: vcond_def at_pc)
qed

lemma step_cmp_leaf:
  assumes at: "at_instr f s pt j" and i: "i = vp_code pt ! j" "op = unat (bc_op i)" and op: "op \<le> BC_ISGT"
  shows "vsafe (leaf_post f s (set (succs (vp_code pt) j))) (step_cmp op f s i)"
proof -
  have ops: "uint (bc_a i) < uint (vp_framesize pt)" "uint (bc_d i) < uint (vp_framesize pt)"
    using at_operands [OF at] op i by (auto simp: operands_ok_def Let_def op_returns_def)
  show ?thesis
    using ops op i unfolding step_cmp_def
    by (auto intro!: vget_safe at_slots [OF at] vcond_leaf [OF at])
qed

lemma step_eq_leaf:
  assumes at: "at_instr f s pt j" and i: "i = vp_code pt ! j" "op = unat (bc_op i)" and op: "BC_ISEQV \<le> op" "op \<le> BC_ISNEP"
  shows "vsafe (leaf_post f s (set (succs (vp_code pt) j))) (step_eq op f s i)"
proof -
  have ops: "uint (bc_a i) < uint (vp_framesize pt)"
    "op \<le> BC_ISNEV \<Longrightarrow> uint (bc_d i) < uint (vp_framesize pt)"
    "op = BC_ISEQS \<or> op = BC_ISNES \<Longrightarrow> unat (bc_d i) < length (vp_kgc pt)"
    "op = BC_ISEQN \<or> op = BC_ISNEN \<Longrightarrow> unat (bc_d i) < length (vp_knum pt)"
    using at_operands [OF at] op i by (auto simp: operands_ok_def Let_def op_returns_def split: if_splits)
  show ?thesis
    using ops op i unfolding step_eq_def
    by (auto intro!: vget_safe at_slots [OF at] at_consts [OF at] vcond_leaf [OF at])
qed

lemma step_test_leaf:
  assumes at: "at_instr f s pt j" and i: "i = vp_code pt ! j" "op = unat (bc_op i)" and op: "BC_ISTC \<le> op" "op \<le> BC_ISF"
  shows "vsafe (leaf_post f s (set (succs (vp_code pt) j))) (step_test op f s i)"
proof -
  have ops: "uint (bc_a i) < uint (vp_framesize pt)" "uint (bc_d i) < uint (vp_framesize pt)"
    using at_operands [OF at] op i by (auto simp: operands_ok_def Let_def op_returns_def split: if_splits)
  have rn: "reads_next op" "\<not> op_returns op" using op by (auto simp: reads_next_def op_returns_def)
  have su: "set (succs (vp_code pt) j) = {int j + 2, int j + 2 + bc_j (vp_code pt ! Suc j)}"
    using rn op i by (auto simp: succs_def Let_def)
  show ?thesis
    using ops rn i unfolding step_test_def su
    by (auto intro!: vget_safe vput_safe at_slots [OF at] at_next [OF at] simp: at_pc [OF at])
qed

text \<open>Instructions that go on with the next one.\<close>

definition plain_op :: "nat \<Rightarrow> bool" where
  "plain_op op \<longleftrightarrow> \<not> op_returns op \<and> BC_ISF < op \<and>
     op \<notin> set [BC_ITERN, BC_UCLO, BC_ISNEXT, BC_JMP, BC_FORI, BC_FORL, BC_RET0, BC_RET1]"

lemma succs_plain:
  assumes "at_instr f s pt j" "plain_op (unat (bc_op (vp_code pt ! j)))"
  shows "snd (fl_pc f) \<in> set (succs (vp_code pt) j)"
  using assms by (simp add: plain_op_def succs_def Let_def reads_next_def at_pc)

lemma step_unary_leaf:
  assumes at: "at_instr f s pt j" and i: "i = vp_code pt ! j" "op = unat (bc_op i)" and op: "BC_MOV \<le> op" "op \<le> BC_UNM"
  shows "vsafe (leaf_post f s (set (succs (vp_code pt) j))) (step_unary op f s i)"
proof -
  have ops: "uint (bc_a i) < uint (vp_framesize pt)" "uint (bc_d i) < uint (vp_framesize pt)"
    using at_operands [OF at] op i by (auto simp: operands_ok_def Let_def op_returns_def split: if_splits)
  have p: "plain_op op" using op by (simp add: plain_op_def op_returns_def)
  show ?thesis
    using ops p i unfolding step_unary_def
    by (auto intro!: vsafe_rules at_slots [OF at] succs_plain [OF at])
qed

lemma step_arith_leaf:
  assumes at: "at_instr f s pt j" and i: "i = vp_code pt ! j" "op = unat (bc_op i)" and op: "BC_ADDVN \<le> op" "op \<le> BC_MODVV"
  shows "vsafe (leaf_post f s (set (succs (vp_code pt) j))) (step_arith op f s i)"
proof -
  have ops: "uint (bc_a i) < uint (vp_framesize pt)" "uint (bc_b i) < uint (vp_framesize pt)"
    "op \<le> BC_MODNV \<Longrightarrow> unat (bc_c i) < length (vp_knum pt)" "\<not> op \<le> BC_MODNV \<Longrightarrow> uint (bc_c i) < uint (vp_framesize pt)"
    using at_operands [OF at] op i by (auto simp: operands_ok_def Let_def op_returns_def split: if_splits)
  have p: "plain_op op" using op by (simp add: plain_op_def op_returns_def)
  show ?thesis
    using ops p i unfolding step_arith_def arith_VN_def arith_NV_def arith_VV_def Let_def
    by (auto intro!: vget_safe vput_safe vbits_at_safe arith_safe at_slots [OF at] at_consts [OF at] succs_plain [OF at])
qed

lemma set_nils_safe:
  "(\<And>x. k \<le> x \<Longrightarrow> x < k + int n \<Longrightarrow> value_slot s x) \<Longrightarrow> (\<And>s'. keeps s s' \<Longrightarrow> R s') \<Longrightarrow> vsafe R (set_nils n k s)"
proof (induction n arbitrary: k s)
  case (Suc n)
  show ?case
    by (auto intro!: vsettype_safe Suc.IH Suc.prems simp: keeps_value_slot intro: keeps_trans)
qed simp

lemma concat_parts_safe:
  "(\<And>x. k \<le> x \<Longrightarrow> x < k + int n \<Longrightarrow> value_slot s x) \<Longrightarrow> (\<And>v. R v) \<Longrightarrow> vsafe R (concat_parts s k n)"
proof (induction n arbitrary: k R)
  case (Suc n)
  show ?case by (auto intro!: vget_safe vopt_safe Suc.IH Suc.prems)
qed simp

lemma str_concat_safe:
  assumes "\<And>x. a \<le> x \<Longrightarrow> x \<le> b \<Longrightarrow> value_slot s x" and "\<And>ts g. R (ts, s\<lparr>vs_g := g\<rparr>)"
  shows "vsafe R (str_concat e s a b)"
  unfolding str_concat_def verror_def
  by (auto intro!: concat_parts_safe assms vopt_safe split: option.splits if_splits)

lemma at_slot_above:
  fixes w :: u32
  assumes "at_instr f s pt j" "fl_base f + uint w \<le> x" "x < fl_base f + uint (vp_framesize pt)"
  shows "value_slot s x"
proof -
  have "0 \<le> uint w" by simp
  then have "0 \<le> x - fl_base f" using assms(2) by linarith
  then show ?thesis using at_slots(1) [OF assms(1) keeps_refl, of "x - fl_base f"] assms(3) by simp
qed

lemma step_const_leaf:
  assumes at: "at_instr f s pt j" and i: "i = vp_code pt ! j" "op = unat (bc_op i)" and op: "BC_CAT \<le> op" "op \<le> BC_KNIL"
  shows "vsafe (leaf_post f s (set (succs (vp_code pt) j))) (step_const op e f s i)"
proof -
  have ops: "op = BC_CAT \<Longrightarrow> uint (bc_c i) < uint (vp_framesize pt)"
    "op = BC_KSTR \<Longrightarrow> unat (bc_d i) < length (vp_kgc pt)"
    "op = BC_KNUM \<Longrightarrow> unat (bc_d i) < length (vp_knum pt)"
    "op \<noteq> BC_KNIL \<Longrightarrow> op \<noteq> BC_KCDATA \<Longrightarrow> uint (bc_a i) < uint (vp_framesize pt)"
    "op = BC_KNIL \<Longrightarrow> bc_a i \<le> bc_d i \<and> uint (bc_d i) < uint (vp_framesize pt)"
    using at_operands [OF at] op i by (auto simp: operands_ok_def Let_def op_returns_def split: if_splits)
  have p: "plain_op op" using op by (simp add: plain_op_def op_returns_def)
  have cat: "value_slot s x" if "op = BC_CAT" "RB f i \<le> x" "x \<le> RC f i" for x
    using at_slot_above [OF at, of "bc_b i" x] ops(1) that by (auto simp: RB_def RC_def)
  have nils: "value_slot s x" if "op = BC_KNIL" "RA f i \<le> x" "x < RA f i + int (Suc (unat (bc_d i - bc_a i)))" for x
    using at_slot_above [OF at, of "bc_a i" x] ops(5) that
    by (auto simp: RA_def unat_sub word_le_nat_alt of_nat_diff)
  show ?thesis
    using ops p i op cat nils unfolding step_const_def
    by (auto simp del: set_nils.simps intro!: vput_safe vsettype_safe at_slots [OF at] at_consts [OF at] succs_plain [OF at] str_concat_safe set_nils_safe)
qed

lemma step_upval_leaf:
  assumes at: "at_instr f s pt j" and i: "i = vp_code pt ! j" "op = unat (bc_op i)" and op: "BC_UGET \<le> op" "op \<le> BC_USETP"
  shows "vsafe (leaf_post f s (set (succs (vp_code pt) j))) (step_upval op f s i)"
proof -
  have ops: "op = BC_UGET \<Longrightarrow> uint (bc_a i) < uint (vp_framesize pt)"
    "op = BC_USETV \<or> op = BC_UINCV \<Longrightarrow> uint (bc_d i) < uint (vp_framesize pt)"
    "op = BC_USETS \<Longrightarrow> unat (bc_d i) < length (vp_kgc pt)"
    "op = BC_USETN \<or> op = BC_UINCN \<Longrightarrow> unat (bc_d i) < length (vp_knum pt)"
    "op = BC_UGET \<Longrightarrow> unat (bc_d i) < length (vp_uv pt)" "op \<noteq> BC_UGET \<Longrightarrow> unat (bc_a i) < length (vp_uv pt)"
    using at_operands [OF at] op i by (auto simp: operands_ok_def Let_def op_returns_def split: if_splits)
  have p: "plain_op op" using op by (simp add: plain_op_def op_returns_def)
  show ?thesis
    using ops p i unfolding step_upval_def
    by (auto intro!: vget_safe vput_safe at_upval [OF at] uvget_safe uvput_safe at_slots [OF at] at_consts [OF at] succs_plain [OF at]
        at_open [OF at])
qed

lemma vtabenv_cache_keeps [simp]: "keeps s (cache_argstr k s') = keeps s s'"
  by (auto simp: cache_argstr_def split: option.splits)

lemma put_tab_keeps [simp]: "keeps s (put_tab a t g s') = keeps s s'"
  by (simp add: put_tab_def)

lemma keeps_cacheI: "keeps s (cache_argstr k s\<lparr>vs_g := g\<rparr>)" by simp

lemma add_tab_safe: "(\<And>a s'. keeps s s' \<Longrightarrow> R (a, s')) \<Longrightarrow> vsafe R (add_tab e s r)"
  by (auto simp: add_tab_def intro!: vopt_safe split: option.splits)

lemma step_newtab_leaf:
  assumes at: "at_instr f s pt j" and i: "i = vp_code pt ! j" "op = unat (bc_op i)" and op: "op = BC_TNEW \<or> op = BC_TDUP"
  shows "vsafe (leaf_post f s (set (succs (vp_code pt) j))) (step_newtab op e f s i)"
proof -
  have ops: "uint (bc_a i) < uint (vp_framesize pt)" "op = BC_TDUP \<Longrightarrow> unat (bc_d i) < length (vp_kgc pt)"
    using at_operands [OF at] op i by (auto simp: operands_ok_def Let_def op_returns_def split: if_splits)
  have p: "plain_op op" using op by (auto simp: plain_op_def op_returns_def)
  show ?thesis
    using ops p i op unfolding step_newtab_def
    by (auto intro!: vput_safe add_tab_safe obj_safe at_slots [OF at] at_consts [OF at] succs_plain [OF at] intro: keeps_trans)
qed

lemma step_gget_leaf:
  assumes at: "at_instr f s pt j" and i: "i = vp_code pt ! j" "op = unat (bc_op i)" and op: "op = BC_GGET"
  shows "vsafe (leaf_post f s (set (succs (vp_code pt) j))) (step_gget f s i)"
proof -
  have ops: "uint (bc_a i) < uint (vp_framesize pt)" "unat (bc_d i) < length (vp_kgc pt)"
    using at_operands [OF at] op i by (auto simp: operands_ok_def Let_def op_returns_def split: if_splits)
  have p: "plain_op op" using op by (auto simp: plain_op_def op_returns_def)
  show ?thesis
    using ops p i op unfolding step_gget_def
    by (auto intro!: vput_safe vopt_safe obj_safe at_slots [OF at] at_consts [OF at] succs_plain [OF at])
qed

lemma vput_safe': "keeps s0 s \<Longrightarrow> value_slot s0 i \<Longrightarrow> (\<And>s'. keeps s0 s' \<Longrightarrow> R s') \<Longrightarrow> vsafe R (vput s i v)"
  by (rule vput_safe) (auto simp: keeps_value_slot intro: keeps_trans)

lemma step_tget_leaf:
  assumes at: "at_instr f s pt j" and i: "i = vp_code pt ! j" "op = unat (bc_op i)" and op: "BC_TGETV \<le> op" "op \<le> BC_TGETB"
  shows "vsafe (leaf_post f s (set (succs (vp_code pt) j))) (step_tget op e f s i)"
proof -
  have ops: "uint (bc_a i) < uint (vp_framesize pt)" "uint (bc_b i) < uint (vp_framesize pt)"
    "op = BC_TGETS \<Longrightarrow> unat (bc_c i) < length (vp_kgc pt)" "op = BC_TGETV \<Longrightarrow> uint (bc_c i) < uint (vp_framesize pt)"
    using at_operands [OF at] op i by (auto simp: operands_ok_def Let_def op_returns_def split: if_splits)
  have p: "plain_op op" using op by (auto simp: plain_op_def op_returns_def)
  show ?thesis
    using ops p i op unfolding step_tget_def
    by (auto intro!: vget_safe vput_safe' [where ?s0.0 = s] vopt_safe obj_safe at_slots [OF at] at_consts [OF at] succs_plain [OF at])
qed

lemma step_tset_leaf:
  assumes at: "at_instr f s pt j" and i: "i = vp_code pt ! j" "op = unat (bc_op i)" and op: "BC_TSETV \<le> op" "op \<le> BC_TINCB"
  shows "vsafe (leaf_post f s (set (succs (vp_code pt) j))) (step_tset op e f s i)"
proof -
  have ops: "uint (bc_a i) < uint (vp_framesize pt)" "uint (bc_b i) < uint (vp_framesize pt)"
    "op = BC_TSETS \<or> op = BC_TINCS \<Longrightarrow> unat (bc_c i) < length (vp_kgc pt)"
    "op = BC_TSETV \<or> op = BC_TINCV \<Longrightarrow> uint (bc_c i) < uint (vp_framesize pt)"
    using at_operands [OF at] op i by (auto simp: operands_ok_def Let_def op_returns_def split: if_splits)
  have p: "plain_op op" using op by (auto simp: plain_op_def op_returns_def)
  show ?thesis
    using ops p i op unfolding step_tset_def Let_def
    by (auto intro!: vget_safe vopt_safe obj_safe at_slots [OF at] at_consts [OF at] succs_plain [OF at])
qed

lemma closeuv_keeps:
  assumes "vs_upvals s a = Some uv"
  shows "keeps s (s\<lparr>vs_upvals := (vs_upvals s)(a \<mapsto> uv\<lparr>uv_slot := None, uv_tv := v\<rparr>)\<rparr>)"
  using assms by (auto simp: keeps_def openslots_def split: if_splits)

lemma uv_pos_open: "vs_upvals s a = Some uv \<Longrightarrow> \<forall>i\<in>openslots s. value_slot s i \<Longrightarrow> level \<le> uv_pos s a \<Longrightarrow> 0 \<le> level \<Longrightarrow> value_slot s (uv_pos s a)"
  by (auto simp: uv_pos_def openslots_def split: option.splits)

lemma uv_pos_none: "vs_upvals s a = None \<Longrightarrow> uv_pos s a = -1"
  by (simp add: uv_pos_def)

lemma closeuv_safe:
  "\<forall>i\<in>openslots s. value_slot s i \<Longrightarrow> 0 \<le> level \<Longrightarrow> (\<And>s'. keeps s s' \<Longrightarrow> R s') \<Longrightarrow> vsafe R (closeuv level as s)"
proof (induction as arbitrary: s)
  case (Cons a as)
  have "vsafe R (closeuv level as s')" if "keeps s s'" for s'
    using that Cons by (intro Cons.IH) (auto simp: keeps_value_slot intro: keeps_trans, auto simp: keeps_def)
  then show ?case
    using Cons.prems uv_pos_none [of s a] by (auto simp: vwp_vopt intro!: vget_safe uv_pos_open closeuv_keeps split: option.splits)
qed simp

lemma step_uclo_leaf:
  assumes at: "at_instr f s pt j" and i: "i = vp_code pt ! j" "op = unat (bc_op i)" and op: "op = BC_UCLO" and "0 \<le> fl_base f"
  shows "vsafe (leaf_post f s (set (succs (vp_code pt) j))) (step_func op e f s i)"
proof -
  have "set (succs (vp_code pt) j) = {int j + 1 + bc_j i}"
    using op i by (auto simp: succs_def Let_def op_returns_def reads_next_def)
  moreover have "0 \<le> RA f i" using assms(5) by (simp add: RA_def)
  ultimately show ?thesis using op at_open [OF at keeps_refl]
    by (auto simp: step_func_def func_closeuv_def at_pc [OF at] intro!: closeuv_safe)
qed

lemma step_event_leaf:
  assumes at: "at_instr f s pt j" and i: "i = vp_code pt ! j" "op = unat (bc_op i)" and op: "BC_VARGN \<le> op" "op \<le> BC_VPROBENAME"
  shows "vsafe (leaf_post f s (set (succs (vp_code pt) j))) (step_event op e f s i)"
proof -
  have ops: "uint (bc_a i) < uint (vp_framesize pt)"
    using at_operands [OF at] op i by (auto simp: operands_ok_def Let_def op_returns_def split: if_splits)
  have p: "plain_op op" using op by (auto simp: plain_op_def op_returns_def)
  show ?thesis
    using ops p i unfolding step_event_def
    by (auto intro!: vput_safe' [where ?s0.0 = s] vopt_safe vbits_at_safe vsettype_safe at_slots [OF at] succs_plain [OF at] split: option.splits)
qed

lemma step_task_leaf:
  assumes at: "at_instr f s pt j" and i: "i = vp_code pt ! j" "op = unat (bc_op i)" and op: "BC_VPID \<le> op" "op < BC__MAX"
  shows "vsafe (leaf_post f s (set (succs (vp_code pt) j))) (step_task op e f s i)"
proof -
  have ops: "uint (bc_a i) < uint (vp_framesize pt)"
    using at_operands [OF at] op i by (auto simp: operands_ok_def Let_def op_returns_def split: if_splits)
  have p: "plain_op op" using op by (auto simp: plain_op_def op_returns_def)
  show ?thesis
    using ops p i unfolding step_task_def gfunc_get_def
    by (auto intro!: vput_safe' [where ?s0.0 = s] vopt_safe at_slots [OF at] succs_plain [OF at])
qed

lemma hot_next_leaf:
  "(\<And>f'. same_frame f f' \<Longrightarrow> fl_pc f' = fl_pc f \<Longrightarrow> vsafe (leaf_post f s pcs) (k f' s)) \<Longrightarrow> vsafe (leaf_post f s pcs) (hot_next e f s k)"
  by (simp add: leaf_post_def hot_next_vwp)

lemma leaf_post_same: "same_frame f f' \<Longrightarrow> leaf_post f' s pcs = leaf_post f s pcs"
  by (auto simp: leaf_post_def same_frame_def)

lemma at_instr_same: "same_frame f f' \<Longrightarrow> fl_pc f' = fl_pc f \<Longrightarrow> at_instr f' s pt j = at_instr f s pt j"
  by (auto simp: at_instr_def same_frame_def frame_slots_def)

lemma RA_same: "same_frame f f' \<Longrightarrow> RA f' i = RA f i"
  by (simp add: RA_def same_frame_def)

lemma step_fori_leaf:
  assumes at: "at_instr f s pt j" and i: "i = vp_code pt ! j" "op = unat (bc_op i)" and op: "op = BC_FORI"
  shows "vsafe (leaf_post f s (set (succs (vp_code pt) j))) (step_fori f s i)"
proof -
  have ops: "uint (bc_a i) + 3 < uint (vp_framesize pt)"
    using at_operands [OF at] op i by (auto simp: operands_ok_def Let_def op_returns_def split: if_splits)
  have su: "set (succs (vp_code pt) j) = {int j + 1, int j + 1 + bc_j i}"
    using op i by (auto simp: succs_def Let_def op_returns_def reads_next_def)
  have v: "value_slot s (RA f i + x)" if "x = 0 \<or> x = 1 \<or> x = 2 \<or> x = 3" for x
    using at_slot_above [OF at, of "bc_a i" "RA f i + x"] ops that by (auto simp: RA_def)
  show ?thesis
    using v [of 0] v [of 1] v [of 2] v [of 3] unfolding step_fori_def su
    by (auto intro!: vget_safe vput_safe simp: at_pc [OF at])
qed

lemma step_forl_leaf:
  assumes at: "at_instr f s pt j" and i: "i = vp_code pt ! j" "op = unat (bc_op i)" and op: "op = BC_FORL"
  shows "vsafe (leaf_post f s (set (succs (vp_code pt) j))) (step_forl e f s i)"
proof -
  have ops: "uint (bc_a i) + 3 < uint (vp_framesize pt)"
    using at_operands [OF at] op i by (auto simp: operands_ok_def Let_def op_returns_def split: if_splits)
  have su: "set (succs (vp_code pt) j) = {int j + 1, int j + 1 + bc_j i}"
    using op i by (auto simp: succs_def Let_def op_returns_def reads_next_def)
  have v: "value_slot s (RA f i + x)" if "x = 0 \<or> x = 1 \<or> x = 2 \<or> x = 3" for x
    using at_slot_above [OF at, of "bc_a i" "RA f i + x"] ops that by (auto simp: RA_def)
  show ?thesis
    using v [of 0] v [of 1] v [of 2] v [of 3] unfolding step_forl_def su Let_def leaf_post_def
    by (auto intro!: vbits_at_safe vput_safe' [where ?s0.0 = s] simp: at_pc [OF at] hot_next_vwp) (auto simp: same_frame_def)
qed

lemma step_itern_leaf:
  assumes at: "at_instr f s pt j" and i: "i = vp_code pt ! j" "op = unat (bc_op i)" and op: "op = BC_ITERN"
  shows "vsafe (leaf_post f s (set (succs (vp_code pt) j))) (step_itern e f s i)"
proof -
  have ops: "2 \<le> uint (bc_a i)" "uint (bc_a i) + 1 < uint (vp_framesize pt)"
    using at_operands [OF at] op i by (auto simp: operands_ok_def Let_def op_returns_def split: if_splits)
  have su: "set (succs (vp_code pt) j) = {int j + 2, int j + 2 + bc_j (vp_code pt ! Suc j)}" and rn: "reads_next (unat (bc_op (vp_code pt ! j)))"
    using op i by (auto simp: succs_def Let_def op_returns_def reads_next_def)
  have v: "value_slot s (RA f i + x)" if "x = - 2 \<or> x = 0 \<or> x = 1" for x
    using at_slots(1) [OF at keeps_refl, of "uint (bc_a i) + x"] ops that by (auto simp: RA_def algebra_simps)
  show ?thesis unfolding step_itern_def
  proof (rule hot_next_leaf)
    fix f' assume f': "same_frame f f'" "fl_pc f' = fl_pc f"
    have at': "at_instr f' s pt j" using at f' by (simp add: at_instr_same)
    have nj: "vsafe (leaf_post f s (set (succs (vp_code pt) j))) (donextjump f' s')" if "keeps s s'" for s'
      using at_next [OF at' rn that] by (simp add: leaf_post_same [OF f'(1)] su)
    have sf: "same_frame f (add_pc f' 1)" "RA f' i = RA f i" using f' by (simp_all add: same_frame_def RA_def)
    show "vsafe (leaf_post f s (set (succs (vp_code pt) j))) (vbind (vbits_at s (RA f' i - 2)) (\<lambda>a. vbind (vtab s a) (\<lambda>t. vbind (vget s (RA f' i)) (\<lambda>key.
         vbind (vopt FTab (kp_tab_next (vs_g s) t key)) (\<lambda>(r, g).
           case r of
             Some (k, v) \<Rightarrow>
               vbind (vput (s\<lparr>vs_g := g\<rparr>) (RA f' i) k) (\<lambda>s. vbind (vput s (RA f' i + 1) v) (donextjump f'))
           | None \<Rightarrow> vnext (add_pc f' 1) (s\<lparr>vs_g := g\<rparr>))))))"
      using v [of "-2"] v [of 0] v [of 1] sf(1) unfolding sf(2)
      by (auto intro!: vbits_at_safe vget_safe vput_safe' [where ?s0.0 = s] obj_safe vopt_safe nj [unfolded su]
          simp: at_pc [OF at'] su split: option.splits)
  qed
qed

text \<open>Patching the operation of an instruction.\<close>

lemma bc_j_patch: "bc_j (code[k := setbc_op (code ! k) x] ! j) = bc_j (code ! j)"
proof (cases "j = k \<and> k < length code")
  case False
  then have "code[k := setbc_op (code ! k) x] ! j = code ! j"
    by (metis list_update_beyond not_less nth_list_update_neq)
  then show ?thesis by simp
qed (auto simp: bc_j_def bcfield)

definition patched :: "vm_proto \<Rightarrow> nat \<Rightarrow> nat \<Rightarrow> vm_proto" where
  "patched pt k op = pt\<lparr>vp_code := (vp_code pt)[k := setbc_op (vp_code pt ! k) (of_nat op)]\<rparr>"

lemma op_of_setbc: "op < 256 \<Longrightarrow> unat (bc_op (setbc_op i (of_nat op))) = op"
  by (simp add: bcfield byte_mask take_bit_eq_mask [symmetric] unsigned_take_bit_eq unat_of_nat take_bit_nat_eq_self)

lemma leaf_instr_patched:
  assumes "leaf_instr pt j" "k < length (vp_code pt)" "j < length (vp_code pt)"
    and op: "op = BC_ITERC \<or> op = BC_JMP \<and> unat (bc_op (vp_code pt ! k)) = BC_ISNEXT"
  shows "leaf_instr (patched pt k op) j"
proof (cases "j = k")
  case True
  have j: "bc_j (setbc_op (vp_code pt ! k) x) = bc_j (vp_code pt ! k)" for x by (simp add: bc_j_def bcfield)
  have i: "vp_code (patched pt k op) ! j = setbc_op (vp_code pt ! k) (of_nat op)"
    "unat (bc_op (setbc_op (vp_code pt ! k) (of_nat op))) = op"
    using assms(2) True op op_of_setbc [of op "vp_code pt ! k"] by (auto simp: patched_def)
  from op show ?thesis
  proof
    assume "op = BC_ITERC"
    then show ?thesis unfolding leaf_instr_def succs_def Let_def i operands_ok_def by (simp add: op_returns_def reads_next_def)
  next
    assume o': "op = BC_JMP \<and> unat (bc_op (vp_code pt ! k)) = BC_ISNEXT"
    then have "succs (vp_code pt) k = [int k + 1 + bc_j (vp_code pt ! k)]"
      by (simp add: succs_def Let_def op_returns_def reads_next_def)
    then have "1 \<le> int k + 1 + bc_j (vp_code pt ! k)" "int k + 1 + bc_j (vp_code pt ! k) < int (length (vp_code pt))"
      using assms(1) True by (simp_all add: leaf_instr_def Let_def)
    moreover have "length (vp_code (patched pt k op)) = length (vp_code pt)" by (simp add: patched_def)
    ultimately show ?thesis using o' True
      unfolding leaf_instr_def succs_def Let_def i operands_ok_def by (simp add: op_returns_def reads_next_def j)
  qed
next
  case False
  then have "succs (vp_code (patched pt k op)) j = succs (vp_code pt) j"
    by (simp add: succs_def patched_def Let_def bc_j_patch)
  moreover have "operands_ok (patched pt k op) i = operands_ok pt i" for i
    by (simp add: operands_ok_def patched_def)
  ultimately show ?thesis using False assms(1) by (simp add: leaf_instr_def patched_def Let_def)
qed


lemma leaf_code_patched:
  assumes "leaf_code pt" "k < length (vp_code pt)" "op = BC_ITERC \<or> op = BC_JMP \<and> unat (bc_op (vp_code pt ! k)) = BC_ISNEXT"
  shows "leaf_code (patched pt k op)"
proof -
  have "length (vp_code (patched pt k op)) = length (vp_code pt)" by (simp add: patched_def)
  then show ?thesis using assms by (auto simp: leaf_code_def list_all_iff leaf_instr_patched)
qed

lemma patch_op_eq:
  assumes "vs_protos s p = Some pt" "k < length (vp_code pt)"
  shows "patch_op s (p, int k) op = Inr (s\<lparr>vs_protos := (vs_protos s)(p \<mapsto> patched pt k op)\<rparr>)"
  using assms by (simp add: patch_op_def vfetch_def patched_def)

text \<open>The invariant of a run of leaf code; \<open>C\<close> is a further property of the code that survives patches.\<close>

definition leaf_inv :: "(vm_proto \<Rightarrow> bool) \<Rightarrow> addr \<Rightarrow> vm_frame \<Rightarrow> vm_state \<Rightarrow> bool" where
  "leaf_inv C p f s \<longleftrightarrow>
     (\<exists>pt. frame_slots f s pt \<and> leaf_code pt \<and> C pt \<and> fl_k f = p \<and> fst (fl_pc f) = p \<and> 1 \<le> snd (fl_pc f) \<and>
       snd (fl_pc f) < int (length (vp_code pt)) \<and> 0 \<le> fl_base f \<and> vframe_pc s (fl_func f) = Inr None)"

definition patch_closed :: "(vm_proto \<Rightarrow> bool) \<Rightarrow> bool" where
  "patch_closed C \<longleftrightarrow>
     (\<forall>pt k op. C pt \<longrightarrow> k < length (vp_code pt) \<longrightarrow>
        op = BC_ITERC \<or> op = BC_JMP \<and> unat (bc_op (vp_code pt ! k)) = BC_ISNEXT \<longrightarrow> C (patched pt k op))"

lemma keeps_frame_pc: "keeps s s' \<Longrightarrow> vframe_pc s i = Inr pc \<Longrightarrow> vframe_pc s' i = Inr pc"
  using keeps_length [of s s'] unfolding keeps_def vframe_pc_def in_stack_def slot_kind_def
  by (auto dest!: arg_cong [where f = "\<lambda>xs. xs ! nat i"] split: if_splits vslot.splits)

lemma step_ret_leaf: "vframe_pc s (fl_func f) = Inr None \<Longrightarrow> vsafe (leaf_post f s pcs) (step_ret op f s i)"
  by (simp add: step_ret_def)

lemma is_pairs_safe:
  assumes "value_slot s (ra - 3)" "value_slot s (ra - 2)" "value_slot s (ra - 1)" "\<And>b. R b"
  shows "vsafe R (is_pairs e s ra)"
  using assms by (auto simp: is_pairs_def intro!: vget_safe)

lemma vwp_ifI: "(b \<Longrightarrow> vwp Q R x) \<Longrightarrow> (\<not> b \<Longrightarrow> vwp Q R y) \<Longrightarrow> vwp Q R (if b then x else y)"
  by simp

lemma opcode_gaps:
  assumes "\<not> op_returns op"
  shows "\<not> op \<le> BC_ISF \<Longrightarrow> BC_MOV \<le> op" "\<not> op \<le> BC_MODVV \<Longrightarrow> BC_CAT \<le> op" "\<not> op \<le> BC_GGET \<Longrightarrow> BC_TGETV \<le> op"
    "\<not> op \<le> BC_TGETB \<Longrightarrow> BC_TSETV \<le> op" "\<not> op \<le> BC_TINCB \<Longrightarrow> BC_CALLM \<le> op" "\<not> op \<le> BC_JMP \<Longrightarrow> BC_VARGN \<le> op"
    "\<not> op \<le> BC_RET1 \<Longrightarrow> op \<le> BC_JMP \<Longrightarrow> op = BC_FORI \<or> op = BC_FORL \<or> op = BC_LOOP \<or> op = BC_JMP"
  using assms by (simp_all add: op_returns_def; presburger)+

lemma vm_exec_leaf:
  assumes at: "at_instr f s pt j" and i: "i = vp_code pt ! j" and op: "unat (bc_op i) \<noteq> BC_ISNEXT"
    and base: "0 \<le> fl_base f" and fr: "vframe_pc s (fl_func f) = Inr None"
  shows "vsafe (leaf_post f s (set (succs (vp_code pt) j))) (vm_exec e f s i)"
proof -
  define op where "op = unat (bc_op i)"
  note leaf = step_cmp_leaf [OF at i op_def] step_eq_leaf [OF at i op_def] step_test_leaf [OF at i op_def]
    step_unary_leaf [OF at i op_def] step_arith_leaf [OF at i op_def] step_const_leaf [OF at i op_def]
    step_upval_leaf [OF at i op_def] step_uclo_leaf [OF at i op_def _ base] step_newtab_leaf [OF at i op_def]
    step_gget_leaf [OF at i op_def] step_tget_leaf [OF at i op_def] step_tset_leaf [OF at i op_def]
    step_itern_leaf [OF at i op_def] step_ret_leaf [OF fr] step_fori_leaf [OF at i op_def] step_forl_leaf [OF at i op_def]
    step_event_leaf [OF at i op_def] step_task_leaf [OF at i op_def]
  have oks: "op < BC__MAX" "op \<noteq> BC_FNEW" "op \<noteq> BC_CALL" "op \<noteq> BC_CALLM" "op \<noteq> BC_CALLT" "op \<noteq> BC_ISNEXT"
    using at op by (auto simp: at_instr_def leaf_instr_def Let_def op_def i operands_ok_def op_returns_def)
  have jmp: "snd (fl_pc f) + bc_j i \<in> set (succs (vp_code pt) j)" if "op = BC_JMP"
    using that by (simp add: succs_def Let_def op_def i op_returns_def reads_next_def at_pc [OF at])
  have loop: "vsafe (leaf_post f s (set (succs (vp_code pt) j))) (hot_next e f s vnext)" if "op = BC_LOOP"
    using that succs_plain [OF at] by (intro hot_next_leaf) (simp add: op_def i plain_op_def op_returns_def)
  have call: False if "\<not> op_returns op" "\<not> op \<le> BC_TINCB" "op \<le> BC_CALL"
    using opcode_gaps(5) [of op] oks that by simp
  have ev: "BC_VARGN \<le> op" if "\<not> op_returns op" "\<not> op \<le> BC_RET1" "op \<noteq> BC_FORI" "op \<noteq> BC_FORL" "op \<noteq> BC_LOOP" "op \<noteq> BC_JMP"
    using opcode_gaps(6,7) [of op] that by auto
  show ?thesis
    unfolding vm_exec_def Let_def op_def [symmetric]
    apply (intro vwp_ifI)
    subgoal using oks by simp
    subgoal by simp
    subgoal by (rule leaf)
    subgoal by (rule leaf) simp_all
    subgoal by (rule leaf) simp_all
    subgoal by (rule leaf) (simp_all add: opcode_gaps)
    subgoal by (rule leaf) simp_all
    subgoal by (rule leaf) (simp_all add: opcode_gaps)
    subgoal by (rule leaf) simp_all
    subgoal using oks by (intro leaf) simp
    subgoal by (intro leaf) auto
    subgoal by (rule leaf)
    subgoal by (intro leaf opcode_gaps) simp_all
    subgoal by (intro leaf opcode_gaps)
    subgoal using call by simp
    subgoal using oks by simp
    subgoal by (rule leaf)
    subgoal using oks by simp
    subgoal by (rule leaf)
    subgoal by (rule leaf)
    subgoal by (rule leaf)
    subgoal by (rule loop)
    subgoal using jmp by simp
    subgoal by (intro leaf ev)
    subgoal using oks by (intro leaf) simp_all
    done
qed

lemma patch_closedD:
  assumes "patch_closed C" "C pt" "k < length (vp_code pt)"
    and "op = BC_ITERC \<or> op = BC_JMP \<and> unat (bc_op (vp_code pt ! k)) = BC_ISNEXT"
  shows "C (patched pt k op)"
  using assms unfolding patch_closed_def by blast

lemma leaf_inv_at:
  assumes "leaf_inv C p f s"
  obtains pt j where "vs_protos s p = Some pt" "fl_pc f = (p, int j)" "at_instr (add_pc f 1) s pt j" "leaf_code pt" "C pt"
    "fl_k f = p" "0 \<le> fl_base f" "vframe_pc s (fl_func f) = Inr None"
proof -
  obtain pt where pt: "frame_slots f s pt" "leaf_code pt" "C pt" "fl_k f = p" "fst (fl_pc f) = p" "1 \<le> snd (fl_pc f)"
    "snd (fl_pc f) < int (length (vp_code pt))" "0 \<le> fl_base f" "vframe_pc s (fl_func f) = Inr None"
    using assms unfolding leaf_inv_def by blast
  define j where "j = nat (snd (fl_pc f))"
  have j: "snd (fl_pc f) = int j" "0 < j" "j < length (vp_code pt)" using pt(6,7) by (auto simp: j_def)
  have "leaf_instr pt j" using pt(2) j by (auto simp: leaf_code_def list_all_iff)
  then have "at_instr (add_pc f 1) s pt j" using pt j by (simp add: at_instr_def frame_slots_def)
  moreover have "fl_pc f = (p, int j)" using pt(5) j(1) by (simp add: prod_eq_iff)
  ultimately show thesis using that pt by (auto simp: frame_slots_def)
qed

lemma leaf_invI:
  assumes "frame_slots f s pt" "leaf_code pt" "C pt" "same_frame f f'" "fl_k f = p" "fst (fl_pc f) = p" "0 \<le> fl_base f"
    and "vframe_pc s (fl_func f) = Inr None" "1 \<le> snd (fl_pc f')" "snd (fl_pc f') < int (length (vp_code pt))"
  shows "leaf_inv C p f' s"
proof -
  have "frame_slots f' s pt" using assms by (simp add: frame_slots_def same_frame_def)
  then show ?thesis using assms unfolding leaf_inv_def same_frame_def by auto
qed

lemma succs_range:
  "leaf_instr pt j \<Longrightarrow> t \<in> set (succs (vp_code pt) j) \<Longrightarrow> 1 \<le> t \<and> t < int (length (vp_code pt))"
  by (simp add: leaf_instr_def Let_def list_all_iff)

lemma leaf_post_inv:
  assumes at: "at_instr f s pt j" and code: "leaf_code pt" "C pt" and f: "fl_k f = p" "0 \<le> fl_base f" "vframe_pc s (fl_func f) = Inr None"
    and post: "leaf_post f s (set (succs (vp_code pt) j)) out"
  shows "vout (\<lambda>f' s'. leaf_inv C p f' s' \<and> snd (fl_pc f') \<in> set (succs (vp_code pt) j)) out"
proof (cases out)
  case (VNext f' s')
  have p: "keeps s s'" "same_frame f f'" "snd (fl_pc f') \<in> set (succs (vp_code pt) j)" using post by (simp_all add: leaf_post_def VNext)
  have "frame_slots f s' pt" using at frame_slots_keeps [OF _ p(1)] by (simp add: at_instr_def)
  then have "leaf_inv C p f' s'" 
    using at f code p succs_range [of pt j "snd (fl_pc f')"] keeps_frame_pc [OF p(1) f(3)]
    by (intro leaf_invI) (auto simp: at_instr_def)
  then show ?thesis using p by (simp add: VNext)
qed simp

lemma step_isnext_leaf:
  assumes at: "at_instr f s pt j" and i: "i = vp_code pt ! j" "unat (bc_op i) = BC_ISNEXT" and code: "leaf_code pt" "C pt" "patch_closed C"
    and f: "fl_k f = p" "0 \<le> fl_base f" "vframe_pc s (fl_func f) = Inr None"
  shows "vsafe (vout (\<lambda>f' s'. leaf_inv C p f' s' \<and> snd (fl_pc f') \<in> set (succs (vp_code pt) j))) (step_isnext e f s i)"
proof -
  have ops: "3 \<le> uint (bc_a i)" "uint (bc_a i) < uint (vp_framesize pt)"
    using at_operands [OF at] i by (auto simp: operands_ok_def Let_def op_returns_def)
  have v: "value_slot s (RA f i + x)" if "- 3 \<le> x \<and> x \<le> 0" for x
    using at_slots(1) [OF at keeps_refl, of "uint (bc_a i) + x"] ops that by (auto simp: RA_def algebra_simps)
  have su: "set (succs (vp_code pt) j) = {int j + 1 + bc_j i}"
    using i by (auto simp: succs_def Let_def op_returns_def reads_next_def)
  define t where "t = int j + 1 + bc_j i"
  have t: "1 \<le> t" "t < int (length (vp_code pt))"
    using at succs_range [of pt j t] by (auto simp: su t_def at_instr_def)
  have j: "j < length (vp_code pt)" "fst (fl_pc f) = p" "snd (fl_pc f) = int j + 1" "vs_protos s p = Some pt"
    using at f by (auto simp: at_instr_def frame_slots_def)
  define pt' where "pt' = patched pt j BC_JMP"
  define pt'' where "pt'' = patched pt' (nat t) BC_ITERC"
  have len: "length (vp_code pt') = length (vp_code pt)" "length (vp_code pt'') = length (vp_code pt)"
    by (simp_all add: pt'_def pt''_def patched_def)
  have ok': "leaf_code pt'" "C pt'"
    using leaf_code_patched [of pt j BC_JMP] patch_closedD [OF code(3,2), of j BC_JMP] code(1) i j(1) by (simp_all add: pt'_def)
  have ok: "leaf_code pt''" "C pt''"
    using leaf_code_patched [of pt' "nat t" BC_ITERC] patch_closedD [OF code(3) ok'(2), of "nat t" BC_ITERC] ok' t len
    by (simp_all add: pt''_def)
  define s1 where "s1 = s\<lparr>vs_protos := (vs_protos s)(p \<mapsto> pt')\<rparr>"
  have "patch_op s (p, int j) BC_JMP = Inr s1"
    using patch_op_eq [of s p pt j BC_JMP] j by (simp add: s1_def pt'_def)
  moreover have "patch_op s1 (p, t) BC_ITERC = Inr (s\<lparr>vs_protos := (vs_protos s)(p \<mapsto> pt'')\<rparr>)"
    using patch_op_eq [of s1 p pt' "nat t" BC_ITERC] t len by (simp add: s1_def pt''_def)
  moreover have pc: "fl_pc (dojump f i 0) = (p, t)" using j by (simp add: prod_eq_iff t_def)
  moreover have "leaf_inv C p (dojump f i 0) (s\<lparr>vs_protos := (vs_protos s)(p \<mapsto> pt'')\<rparr>)"
  proof (rule leaf_invI [where f = f])
    show "frame_slots f (s\<lparr>vs_protos := (vs_protos s)(p \<mapsto> pt'')\<rparr>) pt''"
      using at f by (simp add: at_instr_def frame_slots_def has_upvals_def value_slot_def openslots_def in_stack_def pt'_def pt''_def patched_def)
    show "vframe_pc (s\<lparr>vs_protos := (vs_protos s)(p \<mapsto> pt'')\<rparr>) (fl_func f) = Inr None"
      using f by (simp add: vframe_pc_def in_stack_def split: if_splits)
  qed (use ok f j t len pc in auto)
  moreover have "leaf_inv C p (dojump f i 0) s'" if "keeps s s'" for s'
    using at f code j t pc keeps_frame_pc [OF that f(3)] frame_slots_keeps [OF _ that]
    by (intro leaf_invI [where f = f and pt = pt]) (auto simp: at_instr_def)
  ultimately show ?thesis
    using v [of 0] v [of "-1"] v [of "-2"] v [of "-3"] j
    unfolding step_isnext_def Let_def su
    by (auto intro!: is_pairs_safe vsettype_safe simp: t_def)
qed

lemma vm_step_leaf:
  assumes inv: "leaf_inv C p f s" and C: "patch_closed C"
  shows "vsafe (vout (\<lambda>f' s'. leaf_inv C p f' s' \<and>
           (\<forall>pt. vs_protos s p = Some pt \<longrightarrow> snd (fl_pc f') \<in> set (succs (vp_code pt) (nat (snd (fl_pc f))))))) (vm_step e f s)"
proof -
  obtain pt j where pt: "vs_protos s p = Some pt" "fl_pc f = (p, int j)" "at_instr (add_pc f 1) s pt j" "leaf_code pt" "C pt"
    "fl_k f = p" "0 \<le> fl_base f" "vframe_pc s (fl_func f) = Inr None"
    by (rule leaf_inv_at [OF inv])
  let ?i = "vp_code pt ! j"
  have fetch: "vfetch s (fl_pc f) = Inr ?i" using pt(1,2,3) by (simp add: vfetch_def at_instr_def)
  have "vsafe (vout (\<lambda>f' s'. leaf_inv C p f' s' \<and> snd (fl_pc f') \<in> set (succs (vp_code pt) j))) (vm_exec e (add_pc f 1) s ?i)"
  proof (cases "unat (bc_op ?i) = BC_ISNEXT")
    case True
    then have "vm_exec e (add_pc f 1) s ?i = step_isnext e (add_pc f 1) s ?i"
      by (simp add: vm_exec_def op_returns_def)
    then show ?thesis using step_isnext_leaf [OF pt(3) refl True pt(4,5) C, of p] pt by simp
  next
    case False
    have "vsafe (leaf_post (add_pc f 1) s (set (succs (vp_code pt) j))) (vm_exec e (add_pc f 1) s ?i)"
      using vm_exec_leaf [OF pt(3) refl False] pt by simp
    then show ?thesis
      by (rule vwp_mono) (use pt in \<open>auto intro!: leaf_post_inv [OF pt(3)]\<close>)
  qed
  then show ?thesis using pt(1,2) fetch by (simp add: vm_step_def)
qed


section \<open>Safety and termination of leaf code\<close>

lemma vm_run_safe:
  "leaf_inv (\<lambda>_. True) p f s \<Longrightarrow> vm_run n e f s = Some (Inl x) \<Longrightarrow> \<not> mem_fault x"
proof (induction n arbitrary: f s)
  case (Suc n)
  have "patch_closed (\<lambda>_. True)" by (simp add: patch_closed_def)
  from vm_step_leaf [OF Suc.prems(1) this, of e] show ?case
    using Suc.prems(2) Suc.IH by (auto split: sum.splits vm_out.splits)
qed simp

text \<open>A rank that falls along every edge of the code, but for the edges that leave a counting instruction.\<close>

definition ranked :: "(int \<Rightarrow> nat) \<Rightarrow> vm_proto \<Rightarrow> bool" where
  "ranked rk pt \<longleftrightarrow>
     list_all (\<lambda>j. counting_op (unat (bc_op (vp_code pt ! j))) \<or>
         list_all (\<lambda>t. rk t < rk (int j)) (succs (vp_code pt) j)) [1..<length (vp_code pt)]"

lemma succs_patched:
  assumes "k < length (vp_code pt)" "op = BC_ITERC \<or> op = BC_JMP \<and> unat (bc_op (vp_code pt ! k)) = BC_ISNEXT"
  shows "succs (vp_code (patched pt k op)) j = (if j = k \<and> op = BC_ITERC then [] else succs (vp_code pt) j)"
proof (cases "j = k")
  case True
  then show ?thesis using assms op_of_setbc [of op "vp_code pt ! k"] bc_j_patch [of "vp_code pt" k "of_nat op" k]
    by (elim disjE) (simp_all add: succs_def patched_def Let_def op_returns_def reads_next_def)
qed (simp add: succs_def patched_def Let_def bc_j_patch)

lemma ranked_patch_closed: "patch_closed (ranked rk)"
  unfolding patch_closed_def
proof (intro allI impI)
  fix pt k op
  assume r: "ranked rk pt" and k: "k < length (vp_code pt)"
    and op: "op = BC_ITERC \<or> op = BC_JMP \<and> unat (bc_op (vp_code pt ! k)) = BC_ISNEXT"
  have len: "length (vp_code (patched pt k op)) = length (vp_code pt)" by (simp add: patched_def)
  have "vp_code (patched pt k op) ! j = vp_code pt ! j" if "j \<noteq> k" for j using that by (simp add: patched_def)
  moreover have "\<not> counting_op (unat (bc_op (vp_code pt ! k)))" if "op \<noteq> BC_ITERC" using op that by (simp add: counting_op_def)
  ultimately show "ranked rk (patched pt k op)"
    using r unfolding ranked_def len list_all_iff succs_patched [OF k op]
    by (intro ballI, rename_tac j) (case_tac "j = k"; auto)
qed

text \<open>The number of dispatches that is always enough: the rank bounds the dispatches between two counting instructions.\<close>

lemma vm_run_terminates:
  assumes "\<And>t. rk t < K"
  shows "leaf_inv (ranked rk) p f s \<Longrightarrow> fl_loop f \<le> ve_max_loop e \<Longrightarrow>
     unat (ve_max_loop e - fl_loop f) * K + rk (snd (fl_pc f)) < n \<Longrightarrow> \<exists>r. vm_run n e f s = Some r"
proof (induction n arbitrary: f s)
  case (Suc n)
  note step = vm_step_leaf [OF Suc.prems(1) ranked_patch_closed, of e]
  show ?case
  proof (cases "vm_step e f s")
    case (Inr out)
    show ?thesis
    proof (cases out)
      case (VNext f' s')
      obtain pt j where pt: "vs_protos s p = Some pt" "fl_pc f = (p, int j)" "at_instr (add_pc f 1) s pt j" "ranked rk pt"
        by (rule leaf_inv_at [OF Suc.prems(1)])
      have inv': "leaf_inv (ranked rk) p f' s'" and t: "snd (fl_pc f') \<in> set (succs (vp_code pt) j)"
        using step pt by (simp_all add: Inr VNext)
      have ex: "vm_exec e (add_pc f 1) s (vp_code pt ! j) = Inr (VNext f' s')"
        using pt Inr VNext by (simp add: vm_step_def vfetch_def at_instr_def)
      have loop: "if counting_op (unat (bc_op (vp_code pt ! j))) then fl_loop f \<noteq> ve_max_loop e \<and> fl_loop f' = fl_loop f + 1
          else fl_loop f' = fl_loop f"
        using vm_exec_loop [where i = "vp_code pt ! j" and f = "add_pc f 1" and e = e and s = s] by (simp add: ex split: if_splits)
      have "fl_loop f' \<le> ve_max_loop e \<and> unat (ve_max_loop e - fl_loop f') * K + rk (snd (fl_pc f')) < n"
      proof (cases "counting_op (unat (bc_op (vp_code pt ! j)))")
        case True
        then have l: "fl_loop f \<noteq> ve_max_loop e" "fl_loop f' = fl_loop f + 1" using loop by auto
        then have "fl_loop f < ve_max_loop e" using Suc.prems(2) by simp
        then have le: "fl_loop f' \<le> ve_max_loop e" using l(2) by (simp add: inc_le)
        have "unat (ve_max_loop e - fl_loop f) = Suc (unat (ve_max_loop e - fl_loop f'))"
          using \<open>fl_loop f < ve_max_loop e\<close> le l(2) unsigned_less [of "ve_max_loop e", where ?'a = nat]
          by (simp add: unat_sub word_less_nat_alt word_le_nat_alt unat_word_ariths)
        then show ?thesis using Suc.prems(3) assms [of "snd (fl_pc f')"] le by simp
      next
        case False
        then have "rk (snd (fl_pc f')) < rk (int j)" using pt t by (auto simp: ranked_def list_all_iff at_instr_def)
        then show ?thesis using False loop Suc.prems(2,3) pt(2) by simp
      qed
      then show ?thesis using Suc.IH [OF inv'] by (simp add: Inr VNext)
    qed (simp add: Inr)
  qed simp
qed simp


text \<open>
  The start of a call: a closure of leaf code with as many upvalues as its prototype refers to, its frame free and no open
  upvalue on the function's own slot.
\<close>

definition leaf_start :: "vm_state \<Rightarrow> int \<Rightarrow> vm_proto \<Rightarrow> bool" where
  "leaf_start s func pt \<longleftrightarrow>
     in_stack s func \<and> (\<exists>fn. vs_funcs s (slot_bits (vs_stack s ! nat func)) = Some fn \<and> vs_protos s (fn_p fn) = Some pt) \<and>
     has_upvals s (slot_bits (vs_stack s ! nat func)) pt \<and>
     (\<forall>x\<in>{1..uint (vp_framesize pt)}. value_slot s (func + x)) \<and> (\<forall>i\<in>openslots s. value_slot s i \<and> i \<noteq> func)"

lemma vm_enter_leaf:
  assumes "leaf_start s func pt" "leaf_code pt" "C pt"
  obtains p f s' where "vm_enter s func = Inr (f, s')" "leaf_inv C p f s'" "fl_loop f = 0"
proof -
  obtain fn where st: "in_stack s func" "vs_funcs s (slot_bits (vs_stack s ! nat func)) = Some fn" "vs_protos s (fn_p fn) = Some pt"
    "\<forall>x\<in>{1..uint (vp_framesize pt)}. value_slot s (func + x)" "\<forall>i\<in>openslots s. value_slot s i \<and> i \<noteq> func"
    "has_upvals s (slot_bits (vs_stack s ! nat func)) pt"
    using assms(1) by (auto simp: leaf_start_def)
  define a where "a = slot_bits (vs_stack s ! nat func)"
  define f where "f = \<lparr>fl_loop = 0, fl_fn = a, fl_pt = fn_p fn, fl_k = fn_p fn, fl_pc = (fn_p fn, 1),
                   fl_base = func + 1, fl_func = func, fl_multres = 0\<rparr>"
  define s' where "s' = s\<lparr>vs_stack := (vs_stack s)[nat func := SFrame a None], vs_top := func + 1 + uint (vp_framesize pt)\<rparr>"
  have other: "value_slot s' i" if "value_slot s i" "i \<noteq> func" for i
    using that st(1) by (auto simp: s'_def value_slot_def in_stack_def nth_list_update nat_eq_iff)
  have "vm_enter s func = Inr (f, s')"
    using st by (simp add: vm_enter_def vbits_at_def vfunc_def vproto_def vslot_set_def f_def s'_def a_def)
  moreover have "value_slot s' (fl_base f + x)" if "0 \<le> x" "x < uint (vp_framesize pt)" for x
    using other [OF bspec [OF st(4), of "x + 1"]] that by (simp add: f_def algebra_simps)
  then have "frame_slots f s' pt"
    using st(3,5,6) other by (auto simp: frame_slots_def has_upvals_def f_def s'_def a_def openslots_def)
  then have "leaf_inv C (fn_p fn) f s'"
    unfolding leaf_inv_def using assms st(1) by (auto simp: f_def s'_def leaf_code_def vframe_pc_def in_stack_def)
  ultimately show thesis using that by (simp add: f_def)
qed

text \<open>
  C8: leaf code stays within its frame.  A closure whose code passes the static check (operands within the
  frame, the constants and the upvalue references, jumps within the code, no calls, no built-in functions, no new closures), called with its
  frame on the stack and with its upvalues, never
  reads or writes outside the stack, never takes a frame slot for a value, never fetches outside its code,
  never reads a constant that is not there and never goes through an upvalue that is not there, however long it runs.  Not excluded are
  the division trap and what depends on the objects behind values: a table or string that is not there (\<open>FObj\<close>), and the faults inside tables,
  strings and event fields.
\<close>

theorem leaf_call_safe:
  assumes "leaf_start s func pt" "leaf_code pt" "x \<in> {FStack, FFrame, FCode, FConst, FUpval}"
  shows "kp_vm_call n e s func \<noteq> Some (Inl x)"
proof -
  obtain p f s' where en: "vm_enter s func = Inr (f, s')" "leaf_inv (\<lambda>_. True) p f s'"
    by (rule vm_enter_leaf [OF assms(1,2), where C = "\<lambda>_. True"]) simp_all
  show ?thesis using vm_run_safe [OF en(2), of n e x] assms(3) en(1) by (auto simp: kp_vm_call_def mem_fault_def)
qed

definition loop_rank :: "int \<Rightarrow> nat" where "loop_rank t = 10 - nat t"

lemma loop_start: "leaf_start loop_state 0 loop_proto"
  unfolding leaf_start_def openslots_def
  by (auto simp: loop_state_def in_stack_def slot_bits_def value_slot_def nth_Cons slot_kind_def nth_replicate nat_less_iff loop_proto_def has_upvals_def split: nat.splits)

lemma loop_leaf: "leaf_code loop_proto" "ranked loop_rank loop_proto"
  by code_simp+

theorem leaf_call_safe_witness:
  "kp_vm_call 20 loop_env loop_state 0 \<noteq> Some (Inl FStack) \<and> kp_vm_call 20 loop_env loop_state 0 \<noteq> Some (Inl FCode)"
  using leaf_call_safe [OF loop_start loop_leaf(1)] by simp

section \<open>Instructions that do not fault\<close>

text \<open>
  The instructions of leaf code that touch no table, no string and no event: comparisons, tests, moves, constants, upvalues, jumps,
  numeric loops, returns and arithmetic.  Of the divisions those are left that cannot trap: by a constant other than -1 (for zero the
  interpreter reports an error), and of a constant other than the least number.
\<close>

definition tame_instr :: "vm_proto \<Rightarrow> u32 \<Rightarrow> bool" where
  "tame_instr pt i =
     (let op = unat (bc_op i); k = nvalue (vp_knum pt ! unat (bc_c i)) in
      op_returns op \<or> op \<le> BC_UNM \<or>
      op \<in> set [BC_ADDVN, BC_SUBVN, BC_MULVN, BC_ADDNV, BC_SUBNV, BC_MULNV, BC_ADDVV, BC_SUBVV, BC_MULVV] \<or>
      (op = BC_DIVVN \<or> op = BC_MODVN) \<and> k \<noteq> -1 \<or> (op = BC_DIVNV \<or> op = BC_MODNV) \<and> k \<noteq> 0x8000000000000000 \<or>
      BC_KSTR \<le> op \<and> op \<le> BC_UCLO \<or> op \<in> set [BC_RET0, BC_RET1, BC_FORI, BC_FORL, BC_LOOP, BC_JMP] \<or>
      op \<in> set [BC_VPID, BC_VTID, BC_VUID, BC_VCPU])"

definition tame_code :: "vm_proto \<Rightarrow> bool" where
  "tame_code pt \<longleftrightarrow> list_all (\<lambda>j. tame_instr pt (vp_code pt ! j)) [1..<length (vp_code pt)]"

abbreviation (input) vtame :: "('a \<Rightarrow> bool) \<Rightarrow> 'a vm \<Rightarrow> bool" where
  "vtame R m \<equiv> vwp mem_fault R m"

lemma vtame_prims:
  "(\<And>v. R v) \<Longrightarrow> vtame R (vget s i)" "(\<And>v. R1 v) \<Longrightarrow> vtame R1 (vput s i x)" "(\<And>v. R1 v) \<Longrightarrow> vtame R1 (vsettype s i t)"
  "(\<And>v. R2 v) \<Longrightarrow> vtame R2 (vbits_at s i)" "(\<And>v. R2 v) \<Longrightarrow> vtame R2 (vkgc s p d)" "(\<And>v. R2 v) \<Longrightarrow> vtame R2 (vknum s p d)"
  "(\<And>v. R2 v) \<Longrightarrow> vtame R2 (vupval s a d)" "(\<And>v. R3 v) \<Longrightarrow> vtame R3 (vfetch s pc)"
  by (auto simp: vget_def vput_def vslot_set_def vsettype_def vbits_at_def vkgc_def vknum_def vupval_def vfetch_def vwp_vopt
      split: vslot.splits option.splits)

lemma vtame_upvals: "(\<And>v. R v) \<Longrightarrow> vtame R (uvget s a)" "(\<And>v. R1 v) \<Longrightarrow> vtame R1 (uvput s a x)"
  by (auto simp: uvget_def uvput_def vwp_vopt intro!: vtame_prims split: option.splits)

lemma vtame_jumps: "(\<And>v. R v) \<Longrightarrow> vtame R (donextjump f s)" "(\<And>v. R v) \<Longrightarrow> vtame R (vcond b f s)"
  by (auto simp: donextjump_def vcond_def vnext_def intro!: vtame_prims)

lemma vtame_hot: "(\<And>f s. vtame R (k f s)) \<Longrightarrow> (\<And>v. R v) \<Longrightarrow> vtame R (hot_next e f s k)"
  by (simp add: hot_next_def check_hot_loop_def Let_def vret_def)

lemma vtame_nils: "(\<And>v. R v) \<Longrightarrow> vtame R (set_nils n k s)"
  by (induction n arbitrary: k s) (auto intro!: vtame_prims)

lemma vtame_closeuv: "(\<And>v. R v) \<Longrightarrow> vtame R (closeuv level as s)"
  by (induction as arbitrary: s) (auto simp: vwp_vopt intro!: vtame_prims split: option.splits)

lemmas vtame_rules = vtame_prims vtame_upvals vtame_jumps vtame_hot vtame_nils vtame_closeuv

lemma vtame_ends [simp]: "vtame (\<lambda>_. True) (vnext f s)" "vtame (\<lambda>_. True) (vret s)" "vtame (\<lambda>_. True) (vfail m s)"
  by (simp_all add: vnext_def vret_def vfail_def)

lemma vtame_VV:
  assumes "\<forall>x y. \<exists>n. arith o' x y = Inr n"
  shows "vtame (\<lambda>_. True) (arith_VV o' f s i)"
proof -
  obtain g where "\<And>x y. arith o' x y = Inr (g x y)" using assms by metis
  then show ?thesis by (auto simp: arith_VV_def intro!: vtame_prims)
qed

lemma vtame_VN:
  assumes "\<forall>x. \<exists>n. arith o' x (nvalue (vp_knum pt ! unat (bc_c i))) = Inr n" "vs_protos s (fl_k f) = Some pt"
  shows "vtame (\<lambda>_. True) (arith_VN o' f s i)"
proof -
  obtain g where "\<And>x. arith o' x (nvalue (vp_knum pt ! unat (bc_c i))) = Inr (g x)" using assms(1) by metis
  then show ?thesis using assms(2) by (auto simp: arith_VN_def vknum_def intro!: vtame_prims)
qed

lemma vtame_NV:
  assumes "\<And>v. vget s (RB f i) = Inr v \<Longrightarrow> \<exists>n. arith o' (nvalue (vp_knum pt ! unat (bc_c i))) (nvalue v) = Inr n" "vs_protos s (fl_k f) = Some pt"
  shows "vtame (\<lambda>_. True) (arith_NV o' f s i)"
  using assms vtame_prims(1) [of "\<lambda>_. True" s "RB f i"]
  by (cases "vget s (RB f i)") (fastforce simp: arith_NV_def vknum_def intro!: vtame_prims)+

lemma vbits_nvalue: "vget s i = Inr v \<Longrightarrow> vbits_at s i = Inr b \<Longrightarrow> nvalue v = b"
  by (auto simp: vget_def vbits_at_def slot_bits_def split: if_splits vslot.splits)

lemma vtame_arith:
  assumes "tame_instr pt i" "vs_protos s (fl_k f) = Some pt" "BC_ADDVN \<le> unat (bc_op i)" "unat (bc_op i) \<le> BC_MODVV"
  shows "vtame (\<lambda>_. True) (step_arith (unat (bc_op i)) f s i)"
proof -
  define op where "op = unat (bc_op i)"
  let ?k = "nvalue (vp_knum pt ! unat (bc_c i))"
  have total: "\<exists>n. arith o' x y = Inr n" if "o' \<noteq> NUMDIV" "o' \<noteq> NUMMOD" for o' x y
    using that by (cases o') (simp_all add: arith_def)
  consider "op \<in> set [BC_ADDVN, BC_SUBVN, BC_MULVN]" | "op \<in> set [BC_ADDNV, BC_SUBNV, BC_MULNV]" | "op \<in> set [BC_ADDVV, BC_SUBVV, BC_MULVV]" |
    "op = BC_DIVVN \<or> op = BC_MODVN" "?k \<noteq> -1" | "op = BC_DIVNV \<or> op = BC_MODNV" "?k \<noteq> 0x8000000000000000"
    using assms by (auto simp: tame_instr_def Let_def op_def [symmetric] op_returns_def)
  then have "vtame (\<lambda>_. True) (step_arith op f s i)"
  proof cases
    case 1
    then obtain o' where "step_arith op f s i = arith_VN o' f s i" "o' \<noteq> NUMDIV" "o' \<noteq> NUMMOD"
      by (auto simp: step_arith_def arith_of_def)
    then show ?thesis using vtame_VN [OF _ assms(2)] total by simp
  next
    case 2
    then obtain o' where "step_arith op f s i = arith_NV o' f s i" "o' \<noteq> NUMDIV" "o' \<noteq> NUMMOD"
      by (auto simp: step_arith_def arith_of_def)
    then show ?thesis using vtame_NV [OF _ assms(2)] total by simp
  next
    case 3
    then obtain o' where "step_arith op f s i = arith_VV o' f s i" "o' \<noteq> NUMDIV" "o' \<noteq> NUMMOD"
      by (auto simp: step_arith_def arith_of_def)
    then show ?thesis using vtame_VV total by simp
  next
    case 4
    then obtain m o' where eq: "step_arith op f s i = vbind (vknum s (fl_k f) (bc_c i)) (\<lambda>c. if c = 0 then vfail m s else arith_VN o' f s i)"
      by (elim disjE) (simp add: step_arith_def arith_of_def; blast)+
    have "\<exists>n. arith o' x ?k = Inr n" if "?k \<noteq> 0" for x using that 4(2) by (cases o') (simp_all add: arith_def)
    then show ?thesis unfolding eq using vtame_VN [OF _ assms(2), where i = i and o' = o'] assms(2) by (simp add: vknum_def)
  next
    case 5
    then obtain m o' where eq: "step_arith op f s i = vbind (vbits_at s (RB f i)) (\<lambda>b. if b = 0 then vfail m s else arith_NV o' f s i)"
      by (elim disjE) (simp add: step_arith_def arith_of_def; blast)+
    have "\<exists>n. arith o' ?k y = Inr n" if "y \<noteq> 0" for y using that 5(2) by (cases o') (simp_all add: arith_def)
    then have "vtame (\<lambda>_. True) (arith_NV o' f s i)" if "vbits_at s (RB f i) = Inr b" "b \<noteq> 0" for b
      using that vbits_nvalue vtame_NV [OF _ assms(2), where i = i and o' = o'] by blast
    then show ?thesis unfolding eq
      using vtame_prims(4) [of "\<lambda>_. True" s "RB f i"] by (cases "vbits_at s (RB f i)") auto
  qed
  then show ?thesis by (simp add: op_def)
qed

lemma vtame_exec:
  assumes "tame_instr pt i" "vs_protos s (fl_k f) = Some pt" "vframe_pc s (fl_func f) = Inr None"
  shows "vtame (\<lambda>_. True) (vm_exec e f s i)"
proof -
  define op where "op = unat (bc_op i)"
  have t: "op_returns op \<or> op \<le> BC_UNM \<or> BC_ADDVN \<le> op \<and> op \<le> BC_MODVV \<or> BC_KSTR \<le> op \<and> op \<le> BC_UCLO \<or>
      op \<in> set [BC_RET0, BC_RET1, BC_FORI, BC_FORL, BC_LOOP, BC_JMP] \<or> op \<in> set [BC_VPID, BC_VTID, BC_VUID, BC_VCPU]"
    using assms(1) by (auto simp: tame_instr_def Let_def op_def [symmetric])
  show ?thesis
    unfolding vm_exec_def Let_def op_def [symmetric]
    apply (intro vwp_ifI)
    subgoal by simp
    subgoal by simp
    subgoal by (auto simp: step_cmp_def intro!: vtame_rules)
    subgoal by (auto simp: step_eq_def intro!: vtame_rules)
    subgoal by (auto simp: step_test_def intro!: vtame_rules)
    subgoal by (auto simp: step_unary_def intro!: vtame_rules)
    subgoal using vtame_arith [OF assms(1,2)] t by (auto simp: op_def)
    subgoal using t by (auto simp del: set_nils.simps simp: step_const_def intro!: vtame_rules)
    subgoal by (auto simp: step_upval_def intro!: vtame_rules)
    subgoal using t by (auto simp: step_func_def func_closeuv_def intro!: vtame_rules)
    subgoal using t by auto
    subgoal using t by auto
    subgoal using t by auto
    subgoal using t by auto
    subgoal using t by auto
    subgoal using t by auto
    subgoal using t by auto
    subgoal using t by auto
    subgoal using assms(3) by (simp add: step_ret_def)
    subgoal by (auto simp: step_fori_def intro!: vtame_rules)
    subgoal by (auto simp: step_forl_def Let_def intro!: vtame_rules)
    subgoal by (auto intro!: vtame_rules)
    subgoal by simp
    subgoal using t by auto
    subgoal using t by (auto simp: step_task_def intro!: vtame_rules)
    done
qed

lemma tame_patch_closed: "patch_closed tame_code"
  unfolding patch_closed_def
proof (intro allI impI)
  fix pt k op
  assume t: "tame_code pt" and k: "k < length (vp_code pt)"
    and op: "op = BC_ITERC \<or> op = BC_JMP \<and> unat (bc_op (vp_code pt ! k)) = BC_ISNEXT"
  have "vp_code (patched pt k op) ! j = (if j = k then setbc_op (vp_code pt ! k) (of_nat op) else vp_code pt ! j)" if "j < length (vp_code pt)" for j
    using that by (simp add: patched_def)
  moreover have "tame_instr (patched pt k op) i = tame_instr pt i" for i by (simp add: tame_instr_def patched_def)
  moreover have "tame_instr pt (setbc_op (vp_code pt ! k) (of_nat op))"
    using op op_of_setbc [of op "vp_code pt ! k"] by (auto simp: tame_instr_def Let_def op_returns_def)
  ultimately show "tame_code (patched pt k op)"
    using t by (auto simp: tame_code_def list_all_iff patched_def)
qed

lemma vm_run_tame: "leaf_inv C p f s \<Longrightarrow> patch_closed C \<Longrightarrow> (\<And>pt. C pt \<Longrightarrow> tame_code pt) \<Longrightarrow> vm_run n e f s \<noteq> Some (Inl x)"
proof (induction n arbitrary: f s)
  case (Suc n)
  obtain pt j where pt: "vs_protos s p = Some pt" "fl_pc f = (p, int j)" "at_instr (add_pc f 1) s pt j" "C pt" "fl_k f = p"
    "vframe_pc s (fl_func f) = Inr None"
    by (rule leaf_inv_at [OF Suc.prems(1)])
  have "tame_instr pt (vp_code pt ! j)" using Suc.prems(3) [OF pt(4)] pt(3) by (auto simp: tame_code_def list_all_iff at_instr_def)
  then have "vtame (\<lambda>_. True) (vm_step e f s)"
    using vtame_exec [of pt "vp_code pt ! j" s "add_pc f 1" e] pt by (simp add: vm_step_def vfetch_def at_instr_def)
  then show ?case
    using vm_step_leaf [OF Suc.prems(1,2), of e] Suc.IH [OF _ Suc.prems(2,3)] by (auto split: sum.splits vm_out.splits)
qed simp

text \<open>
  C9: leaf code ends.  When every cycle of the code passes a counting instruction (\<^verbatim>\<open>LOOP\<close>, \<^verbatim>\<open>FORL\<close>, \<^verbatim>\<open>ITERN\<close>),
  shown by a rank below \<open>K\<close> that falls along all other edges, and the code has only instructions that touch no table, string or event and
  cannot trap (\<open>tame_code\<close>), the call comes back to its caller within \<open>K * (max_loop_count + 1)\<close> dispatches and without a fault: with its result, or
  after an error that the interpreter reports.
\<close>

theorem leaf_call_returns:
  assumes "leaf_start s func pt" "leaf_code pt" "tame_code pt" "ranked rk pt" "\<And>t. rk t < K"
  shows "\<exists>s'. kp_vm_call (Suc (unat (ve_max_loop e)) * K) e s func = Some (Inr s')"
proof -
  let ?C = "\<lambda>pt. ranked rk pt \<and> tame_code pt" and ?n = "Suc (unat (ve_max_loop e)) * K"
  have C: "patch_closed ?C" using ranked_patch_closed tame_patch_closed unfolding patch_closed_def by blast
  obtain p f s' where en: "vm_enter s func = Inr (f, s')" "leaf_inv ?C p f s'" "fl_loop f = 0"
    by (rule vm_enter_leaf [OF assms(1,2), where C = ?C]) (use assms(3,4) in simp_all)
  have "leaf_inv (ranked rk) p f s'" using en(2) unfolding leaf_inv_def by blast
  then obtain r where r: "vm_run ?n e f s' = Some r"
    using vm_run_terminates [of rk K, OF assms(5), where p = p and f = f and s = s' and e = e and n = ?n] en(3) assms(5) [of "snd (fl_pc f)"] by auto
  moreover have "r \<noteq> Inl x" for x using vm_run_tame [OF en(2) C, of ?n e x] r by auto
  ultimately show ?thesis using en(1) by (cases r) (auto simp: kp_vm_call_def)
qed

lemma loop_tame: "tame_code loop_proto"
  by code_simp

theorem leaf_call_returns_witness:
  "\<exists>s'. kp_vm_call (Suc (unat (ve_max_loop loop_env)) * 11) loop_env loop_state 0 = Some (Inr s')"
  by (rule leaf_call_returns [OF loop_start loop_leaf(1) loop_tame loop_leaf(2)]) (simp add: loop_rank_def)

end
