(* ===== verification/Ktap_Vm_Calls.thy ===== *)
theory Ktap_Vm_Calls
  imports Ktap_Vm_Loop
begin

text \<open>
  Upvalues, validated code, results of C functions, calls and returns.
\<close>

section \<open>Open upvalues\<close>

definition open_on :: "vm_state \<Rightarrow> addr \<Rightarrow> bool" where
  "open_on s a \<longleftrightarrow> (\<exists>uv i. vs_upvals s a = Some uv \<and> uv_slot uv = Some i \<and> 0 \<le> i)"

definition open_list :: "vm_state \<Rightarrow> addr list \<Rightarrow> bool" where
  "open_list s as \<longleftrightarrow> sorted_wrt (>) (map (uv_pos s) as) \<and> (\<forall>a\<in>set as. open_on s a)"

text \<open>The list holds exactly the open upvalues, by strictly descending slot.\<close>

definition upvals_ok :: "vm_state \<Rightarrow> bool" where
  "upvals_ok s \<longleftrightarrow> open_list s (vs_openupval s) \<and> (\<forall>a uv. vs_upvals s a = Some uv \<and> uv_slot uv \<noteq> None \<longrightarrow> a \<in> set (vs_openupval s))"

lemma uv_pos_upd: "uv_pos (s\<lparr>vs_upvals := (vs_upvals s)(b \<mapsto> u)\<rparr>) a = (if a = b then (case uv_slot u of Some i \<Rightarrow> i | None \<Rightarrow> -1) else uv_pos s a)"
  by (simp add: uv_pos_def)

lemma uv_pos_openupval [simp]: "uv_pos (s\<lparr>vs_openupval := l\<rparr>) = uv_pos s"
  by (rule ext) (simp add: uv_pos_def)

lemma open_on_openupval [simp]: "open_on (s\<lparr>vs_openupval := l\<rparr>) = open_on s"
  by (rule ext) (simp add: open_on_def)

lemma open_list_openupval [simp]: "open_list (s\<lparr>vs_openupval := l\<rparr>) = open_list s"
  by (rule ext) (simp add: open_list_def)

lemma open_list_distinct: "open_list s as \<Longrightarrow> distinct as"
proof -
  assume "open_list s as"
  then have "sorted_wrt (>) (map (uv_pos s) as)" by (simp add: open_list_def)
  then have "distinct (map (uv_pos s) as)" by (metis distinct_rev rev_map sorted_wrt_rev strict_sorted_iff)
  then show ?thesis by (simp add: distinct_map)
qed

lemma open_list_Cons: "open_list s (a # as) \<longleftrightarrow> (\<forall>b\<in>set as. uv_pos s b < uv_pos s a) \<and> open_on s a \<and> open_list s as"
  by (auto simp: open_list_def)

text \<open>The walk of \<^verbatim>\<open>findupval\<close>.\<close>

lemma findupval_pos_found:
  "findupval_pos s i as = Inl p \<Longrightarrow> p \<in> set as \<and> uv_pos s p = i"
  by (induction as) (auto split: if_splits sum.splits prod.splits)

lemma findupval_pos_split:
  assumes "findupval_pos s i as = Inr (b, c)" "open_list s as"
  shows "as = b @ c \<and> (\<forall>x\<in>set b. i < uv_pos s x) \<and> (\<forall>x\<in>set c. uv_pos s x < i)"
  using assms
proof (induction as arbitrary: b c)
  case (Cons a as)
  show ?case
  proof (cases "uv_pos s a > i")
    case True
    then obtain b' where b': "findupval_pos s i as = Inr (b', c)" "b = a # b'"
      using Cons.prems(1) by (auto split: sum.splits prod.splits if_splits)
    then show ?thesis using Cons.IH [OF b'(1)] Cons.prems(2) True by (auto simp: open_list_Cons)
  next
    case False
    then show ?thesis using Cons.prems by (auto simp: open_list_Cons split: if_splits sum.splits) fastforce
  qed
qed simp

lemma open_list_append:
  "open_list s (b @ c) \<longleftrightarrow> open_list s b \<and> open_list s c \<and> (\<forall>x\<in>set b. \<forall>y\<in>set c. uv_pos s y < uv_pos s x)"
  by (auto simp: open_list_def sorted_wrt_append)

lemma open_list_upd: "u \<notin> set as \<Longrightarrow> open_list (s\<lparr>vs_upvals := (vs_upvals s)(u \<mapsto> uv)\<rparr>) as = open_list s as"
proof -
  assume u: "u \<notin> set as"
  then have eq: "map (uv_pos (s\<lparr>vs_upvals := (vs_upvals s)(u \<mapsto> uv)\<rparr>)) as = map (uv_pos s) as"
    by (auto simp: uv_pos_upd)
  have "open_on (s\<lparr>vs_upvals := (vs_upvals s)(u \<mapsto> uv)\<rparr>) a = open_on s a" if "a \<in> set as" for a
    using that u by (auto simp: open_on_def)
  then show ?thesis unfolding open_list_def eq by simp
qed

lemma findupval_ok:
  assumes ok: "upvals_ok s" "0 \<le> slot" and fresh: "vs_upvals s (ve_alloc e s) = None" and r: "findupval e s slot = (a, s')"
  shows "upvals_ok s'" and "a \<noteq> 0 \<Longrightarrow> a \<in> set (vs_openupval s') \<and> uv_pos s' a = slot"
proof -
  have l: "open_list s (vs_openupval s)" using ok by (simp add: upvals_ok_def)
  have "upvals_ok s' \<and> (a \<noteq> 0 \<longrightarrow> a \<in> set (vs_openupval s') \<and> uv_pos s' a = slot)"
  proof (cases "findupval_pos s slot (vs_openupval s)")
    case (Inl p)
    then show ?thesis using r ok findupval_pos_found [OF Inl] by (simp add: findupval_def)
  next
    case (Inr bc)
    obtain b c where bc: "findupval_pos s slot (vs_openupval s) = Inr (b, c)" using Inr by (cases bc) simp
    note sp = findupval_pos_split [OF bc l]
    show ?thesis
    proof (cases "ve_alloc e s = 0")
      case True
      then show ?thesis using r ok bc by (simp add: findupval_def Let_def)
    next
      case False
      define s1 where "s1 = s\<lparr>vs_upvals := (vs_upvals s)(a \<mapsto> \<lparr>uv_slot = Some slot, uv_tv = kp_niltv, uv_immutable = False\<rparr>)\<rparr>"
      have s': "a = ve_alloc e s" "s' = s1\<lparr>vs_openupval := b @ a # c\<rparr>"
        using r bc False by (auto simp: findupval_def Let_def s1_def)
      have new: "a \<notin> set (vs_openupval s)"
        using l fresh s'(1) by (auto simp: open_list_def open_on_def)
      have pos: "uv_pos s1 x = (if x = a then slot else uv_pos s x)" for x by (simp add: s1_def uv_pos_upd)
      have "open_list s1 (vs_openupval s)" using l new by (simp add: s1_def open_list_upd)
      moreover have "open_on s1 a" using ok(2) by (simp add: s1_def open_on_def)
      ultimately have "open_list s1 (b @ a # c)"
        using sp new by (auto simp: open_list_append open_list_Cons pos)
      moreover have "x \<in> set (b @ a # c)" if "vs_upvals s1 x = Some uv" "uv_slot uv \<noteq> None" for x uv
        using ok(1) sp that by (auto simp: upvals_ok_def s1_def split: if_splits)
      ultimately show ?thesis using pos [of a] by (auto simp: upvals_ok_def s'(2))
    qed
  qed
  then show "upvals_ok s'" "a \<noteq> 0 \<Longrightarrow> a \<in> set (vs_openupval s') \<and> uv_pos s' a = slot" by auto
qed

text \<open>Closing.\<close>

lemma uvget_openupval [simp]: "uvget (s\<lparr>vs_openupval := l\<rparr>) a = uvget s a"
proof -
  have "vget (s\<lparr>vs_openupval := l\<rparr>) i = vget s i" for i by (simp add: vget_def in_stack_def)
  then show ?thesis by (simp add: uvget_def cong: option.case_cong)
qed

lemma closeuv_spec:
  assumes "closeuv level as s = Inr s'" "open_list s as" "0 \<le> level"
  shows "vs_openupval s' = dropWhile (\<lambda>a. level \<le> uv_pos s a) as \<and> vs_stack s' = vs_stack s \<and> (\<forall>a. uvget s' a = uvget s a) \<and>
    (\<forall>a. a \<notin> set (takeWhile (\<lambda>a. level \<le> uv_pos s a) as) \<longrightarrow> vs_upvals s' a = vs_upvals s a) \<and>
    (\<forall>a\<in>set (takeWhile (\<lambda>a. level \<le> uv_pos s a) as). \<exists>uv. vs_upvals s' a = Some uv \<and> uv_slot uv = None)"
  using assms
proof (induction as arbitrary: s)
  case (Cons a as)
  show ?case
  proof (cases "level \<le> uv_pos s a")
    case True
    obtain uv i where uv: "vs_upvals s a = Some uv" "uv_slot uv = Some i" "0 \<le> i" "uv_pos s a = i"
      using Cons.prems(2) by (auto simp: open_list_Cons open_on_def uv_pos_def)
    obtain v where v: "vget s i = Inr v" "closeuv level as (s\<lparr>vs_upvals := (vs_upvals s)(a \<mapsto> uv\<lparr>uv_slot := None, uv_tv := v\<rparr>)\<rparr>) = Inr s'"
      using Cons.prems(1) True uv by (auto simp: vbind_Inr_iff)
    define s1 where "s1 = s\<lparr>vs_upvals := (vs_upvals s)(a \<mapsto> uv\<lparr>uv_slot := None, uv_tv := v\<rparr>)\<rparr>"
    have a: "a \<notin> set as" "open_list s1 as"
      using Cons.prems(2) open_list_distinct [OF Cons.prems(2)] by (auto simp: s1_def open_list_upd open_list_Cons)
    have "vget s1 i = vget s i" for i by (simp add: s1_def vget_def in_stack_def)
    then have get: "uvget s1 x = uvget s x" for x
      using v uv by (auto simp: uvget_def s1_def vopt_def split: option.splits)
    have pos: "uv_pos s1 x = uv_pos s x" if "x \<in> set as" for x using a that by (auto simp: s1_def uv_pos_upd)
    have dr: "dropWhile (\<lambda>a. level \<le> uv_pos s1 a) as = dropWhile (\<lambda>a. level \<le> uv_pos s a) as"
      "takeWhile (\<lambda>a. level \<le> uv_pos s1 a) as = takeWhile (\<lambda>a. level \<le> uv_pos s a) as"
      using pos by (auto intro!: dropWhile_cong takeWhile_cong)
    have "a \<notin> set (takeWhile (\<lambda>a. level \<le> uv_pos s a) as)" using a(1) by (meson set_takeWhileD)
    moreover note Cons.IH [OF v(2) [folded s1_def] a(2) Cons.prems(3), unfolded dr]
    moreover have "vs_stack s1 = vs_stack s" "vs_upvals s1 a = Some (uv\<lparr>uv_slot := None, uv_tv := v\<rparr>)" "\<And>x. x \<noteq> a \<Longrightarrow> vs_upvals s1 x = vs_upvals s x"
      by (simp_all add: s1_def)
    ultimately show ?thesis using True get by (auto simp: uv(1))
  next
    case False
    then show ?thesis using Cons.prems(1) by auto
  qed
qed auto


lemma open_list_inj: "open_list s as \<Longrightarrow> a \<in> set as \<Longrightarrow> b \<in> set as \<Longrightarrow> uv_pos s a = uv_pos s b \<Longrightarrow> a = b"
  by (induction as) (auto simp: open_list_Cons)

text \<open>
  C13: one upvalue per captured variable.  From a list of open upvalues that is sorted by strictly descending
  slot and holds exactly the open ones, \<^verbatim>\<open>findupval\<close> leaves such a list, whether it finds an upvalue or links a
  new one in, and the upvalue it returns is the only open one on the slot: two closures that capture the
  same variable share it.
\<close>

theorem findupval_invariant:
  assumes "upvals_ok s" "0 \<le> slot" "vs_upvals s (ve_alloc e s) = None" "findupval e s slot = (a, s')" "a \<noteq> 0"
  shows "upvals_ok s' \<and> (\<forall>b. b \<in> set (vs_openupval s') \<and> uv_pos s' b = slot \<longleftrightarrow> b = a)"
proof -
  have ok: "upvals_ok s'" "a \<in> set (vs_openupval s')" "uv_pos s' a = slot"
    using findupval_ok [OF assms(1-4)] assms(5) by auto
  then show ?thesis using open_list_inj [of s' "vs_openupval s'"] by (auto simp: upvals_ok_def)
qed

definition upv_env :: vm_env where "upv_env = loop_env\<lparr>ve_alloc := \<lambda>s. if vs_upvals s 5 = None then 5 else if vs_upvals s 6 = None then 6 else 7\<rparr>"
definition upv_state :: vm_state where "upv_state = snd (findupval upv_env (snd (findupval upv_env loop_state 1)) 3)"

lemma upvals_ok_loop: "upvals_ok loop_state"
  by (simp add: upvals_ok_def open_list_def loop_state_def)

lemma upv_state_ok: "upvals_ok upv_state"
proof -
  have 1: "upvals_ok (snd (findupval upv_env loop_state 1))"
    using findupval_ok(1) [OF upvals_ok_loop, of 1 upv_env] by (cases "findupval upv_env loop_state 1") (simp add: loop_state_def upv_env_def)
  have "vs_upvals (snd (findupval upv_env loop_state 1)) (ve_alloc upv_env (snd (findupval upv_env loop_state 1))) = None" by code_simp
  then show ?thesis unfolding upv_state_def
    using findupval_ok(1) [OF 1, of 3 upv_env] by (cases "findupval upv_env (snd (findupval upv_env loop_state 1)) 3") simp
qed

theorem findupval_invariant_witness:
  "upvals_ok (snd (findupval upv_env upv_state 2)) \<and> vs_openupval (snd (findupval upv_env upv_state 2)) = [6, 7, 5]"
proof -
  have "vs_upvals upv_state (ve_alloc upv_env upv_state) = None" "fst (findupval upv_env upv_state 2) = 7"
    "vs_openupval (snd (findupval upv_env upv_state 2)) = [6, 7, 5]" by code_simp+
  then show ?thesis
    using findupval_invariant [OF upv_state_ok, of 2 upv_env] by (cases "findupval upv_env upv_state 2") simp
qed

lemma dropWhile_open: "open_list s as \<Longrightarrow> set (dropWhile (\<lambda>a. level \<le> uv_pos s a) as) = {a \<in> set as. uv_pos s a < level}"
  by (induction as) (auto simp: open_list_Cons)

lemma open_list_cong:
  assumes "open_list s as" "\<And>a. a \<in> set as \<Longrightarrow> vs_upvals s' a = vs_upvals s a"
  shows "open_list s' as"
proof -
  have eq: "map (uv_pos s') as = map (uv_pos s) as" using assms(2) by (auto simp: uv_pos_def)
  have "\<forall>a\<in>set as. open_on s' a" using assms by (auto simp: open_list_def open_on_def)
  then show ?thesis using assms(1) unfolding open_list_def eq by simp
qed

text \<open>
  C14: closing a scope changes no captured value.  \<^verbatim>\<open>func_closeuv\<close> keeps the invariant of the open upvalues, leaves
  none open at or above the level and every other one as it was, and every upvalue, closed or not, reads as it
  did before.
\<close>

theorem func_closeuv_keeps_values:
  assumes "upvals_ok s" "0 \<le> level" "func_closeuv s level = Inr s'"
  shows "upvals_ok s' \<and> (\<forall>a. uvget s' a = uvget s a) \<and> vs_stack s' = vs_stack s \<and>
     set (vs_openupval s') = {a \<in> set (vs_openupval s). uv_pos s a < level}"
proof -
  let ?as = "vs_openupval s" and ?P = "\<lambda>a. level \<le> uv_pos s a"
  have l: "open_list s ?as" and all: "\<And>a uv. vs_upvals s a = Some uv \<Longrightarrow> uv_slot uv \<noteq> None \<Longrightarrow> a \<in> set ?as"
    using assms(1) by (auto simp: upvals_ok_def)
  note c = closeuv_spec [OF assms(3) [unfolded func_closeuv_def] l assms(2)]
  have split: "?as = takeWhile ?P ?as @ dropWhile ?P ?as" by simp
  have dis: "set (takeWhile ?P ?as) \<inter> set (dropWhile ?P ?as) = {}"
    using open_list_distinct [OF l] split by (metis distinct_append)
  have dw: "set (dropWhile ?P ?as) = {a \<in> set ?as. uv_pos s a < level}"
    using l by (rule dropWhile_open)
  have same: "vs_upvals s' a = vs_upvals s a" if "a \<in> set (dropWhile ?P ?as)" for a using c dis that by blast
  have "open_list s (dropWhile ?P ?as)" using l split by (metis open_list_append)
  then have "open_list s' (dropWhile ?P ?as)"
    using same by (rule open_list_cong)
  moreover have "a \<in> set (dropWhile ?P ?as)" if "vs_upvals s' a = Some uv" "uv_slot uv \<noteq> None" for a uv
  proof (cases "a \<in> set (takeWhile ?P ?as)")
    case True
    then show ?thesis using c that by auto
  next
    case False
    then have "a \<in> set ?as" using c that all by metis
    then show ?thesis using False split by (metis Un_iff set_append)
  qed
  ultimately show ?thesis using c dw by (auto simp: upvals_ok_def)
qed

theorem func_closeuv_keeps_values_witness:
  "\<exists>s'. func_closeuv upv_state 2 = Inr s' \<and> upvals_ok s' \<and> uvget s' 6 = uvget upv_state 6 \<and> vs_openupval s' = [5]"
proof -
  have "\<not> isl (func_closeuv upv_state 2)" "vs_openupval (projr (func_closeuv upv_state 2)) = [5]" by code_simp+
  then obtain s' where s': "func_closeuv upv_state 2 = Inr s'" "vs_openupval s' = [5]" by (cases "func_closeuv upv_state 2") auto
  show ?thesis using func_closeuv_keeps_values [OF upv_state_ok _ s'(1)] s' by auto
qed

section \<open>Validated code\<close>

definition rejected_op :: "nat \<Rightarrow> bool" where
  "rejected_op op \<longleftrightarrow> op \<ge> BC__MAX \<or> op \<in> set [BC_RETM, BC_RET, BC_GSET, BC_GINC, BC_ITERC, BC_POW]"

definition supported_at :: "vm_state \<Rightarrow> addr \<Rightarrow> nat \<Rightarrow> bool" where
  "supported_at s p j \<longleftrightarrow> (\<exists>pt. vs_protos s p = Some pt \<and> j < length (vp_code pt) \<and> \<not> rejected_op (unat (bc_op (vp_code pt ! j))))"

text \<open>Validation changes nothing but code and error state, and no instruction to a rejected one.\<close>

definition same_proto :: "vm_proto \<Rightarrow> vm_proto \<Rightarrow> bool" where
  "same_proto a b \<longleftrightarrow> vp_framesize a = vp_framesize b \<and> length (vp_code a) = length (vp_code b)"

definition code_kept :: "vm_state \<Rightarrow> vm_state \<Rightarrow> bool" where
  "code_kept s s' \<longleftrightarrow> vs_stack s' = vs_stack s \<and> (\<forall>q. rel_option same_proto (vs_protos s q) (vs_protos s' q)) \<and>
     (\<forall>p j. supported_at s p j \<longrightarrow> supported_at s' p j)"

lemma code_kept_refl [simp]: "code_kept s s"
  by (auto simp: code_kept_def same_proto_def intro!: option.rel_refl)

lemma same_proto_trans: "rel_option same_proto a b \<Longrightarrow> rel_option same_proto b c \<Longrightarrow> rel_option same_proto a c"
  by (cases a; cases b; cases c) (simp_all add: same_proto_def)

lemma code_kept_trans: "code_kept s s1 \<Longrightarrow> code_kept s1 s2 \<Longrightarrow> code_kept s s2"
  using same_proto_trans unfolding code_kept_def by (simp, blast)

lemma code_kept_verror [simp]: "code_kept s (verror m s)"
  by (auto simp: code_kept_def verror_def supported_at_def same_proto_def intro!: option.rel_refl)

lemma gfunc_op: "unat (bc_op (setbc_d (setbc_op i 110) x)) = 110"
  by (simp add: bcfield)

lemma code_kept_set_code: "\<not> rejected_op (unat (bc_op i)) \<Longrightarrow> code_kept s (set_code s p j i)"
proof -
  assume i: "\<not> rejected_op (unat (bc_op i))"
  have "rel_option same_proto (vs_protos s q) (vs_protos (set_code s p j i) q)" for q
    by (auto simp: set_code_def same_proto_def intro!: option.rel_refl split: option.splits)
  moreover have "supported_at (set_code s p j i) q k" if "supported_at s q k" for q k
    using that i by (cases "k = j") (auto simp: supported_at_def set_code_def split: option.splits)
  ultimately show ?thesis by (auto simp: code_kept_def set_code_def split: option.splits)
qed

lemma validate_gget_kept:
  "validate_gget s p j i = Inr (ok, s') \<Longrightarrow> code_kept s s'"
  by (auto simp: validate_gget_def vbind_Inr_iff gfunc_op rejected_op_def intro!: code_kept_set_code split: if_splits)


lemma validate_instr_kept:
  assumes child: "\<forall>s q b ok s'. child s q b = Inr (ok, s') \<longrightarrow> code_kept s s'"
    and r: "validate_instr child p base j s = Inr (ok, s')"
  shows "code_kept s s'" and "ok \<Longrightarrow> supported_at s' p j"
proof -
  obtain i where i: "vfetch s (p, int j) = Inr i" using r by (auto simp: validate_instr_def vbind_Inr_iff)
  show kept: "code_kept s s'"
    using r i child validate_gget_kept
    by (auto simp: validate_instr_def Let_def vbind_Inr_iff split: if_splits)
  have "\<not> rejected_op (unat (bc_op i))" if ok
    using r i that by (auto simp: validate_instr_def Let_def vbind_Inr_iff rejected_op_def split: if_splits)
  then have "supported_at s p j" if ok
    using i that by (auto simp: supported_at_def vfetch_def split: option.splits if_splits)
  then show "supported_at s' p j" if ok using kept that by (simp add: code_kept_def)
qed

lemma validate_loop_kept:
  assumes child: "\<forall>s q b ok s'. child s q b = Inr (ok, s') \<longrightarrow> code_kept s s'"
  shows "validate_loop child p base js s = Inr (ok, s') \<Longrightarrow> code_kept s s' \<and> (ok \<longrightarrow> (\<forall>j\<in>set js. supported_at s' p j))"
proof (induction js arbitrary: s)
  case (Cons j js)
  obtain ok1 s1 where 1: "validate_instr child p base j s = Inr (ok1, s1)"
    "(if ok1 then validate_loop child p base js s1 else Inr (False, s1)) = Inr (ok, s')"
    using Cons.prems by (auto simp: vbind_Inr_iff)
  note v = validate_instr_kept [OF child 1(1)]
  show ?case
  proof (cases ok1)
    case True
    then have IH: "code_kept s1 s' \<and> (ok \<longrightarrow> (\<forall>j\<in>set js. supported_at s' p j))" using 1(2) Cons.IH [of s1] by simp
    then have "supported_at s' p j" using v(2) True by (simp add: code_kept_def)
    then show ?thesis using IH v(1) code_kept_trans by auto
  qed (use 1(2) v(1) in auto)
qed simp

lemma validate_code_kept: "kp_vm_validate_code d s p base = Inr (ok, s') \<Longrightarrow> code_kept s s'"
proof (induction d arbitrary: s p base ok s')
  case (Suc d)
  show ?case
    using Suc.prems validate_loop_kept [of "kp_vm_validate_code d"] Suc.IH
    by (auto simp: vbind_Inr_iff split: if_splits)
qed simp

text \<open>
  C18: what validation screens.  When \<^verbatim>\<open>kp_vm_validate_code\<close> accepts a prototype, its
  frame has at most \<^verbatim>\<open>KP_MAX_SLOTS\<close> slots and fits on the stack, and after the patches of the whole validation, those
  made for child prototypes included, every instruction behind the header has an opcode of the table and none is \<^verbatim>\<open>RETM\<close>, \<^verbatim>\<open>RET\<close>, \<^verbatim>\<open>GSET\<close>,
  \<^verbatim>\<open>GINC\<close>, \<^verbatim>\<open>ITERC\<close> or \<^verbatim>\<open>POW\<close>.  Other instructions that the interpreter does not support pass: \<open>varg_validated\<close> shows it of \<^verbatim>\<open>TSETM\<close>, \<^verbatim>\<open>CALLMT\<close>
  and \<^verbatim>\<open>VARG\<close>.
\<close>

theorem validated_code_screened:
  assumes "kp_vm_validate_code d s p base = Inr (True, s')" "vs_protos s p = Some pt"
  shows "\<exists>pt'. vs_protos s' p = Some pt' \<and> length (vp_code pt') = length (vp_code pt) \<and> unat (vp_framesize pt') \<le> KP_MAX_SLOTS \<and>
     base + uint (vp_framesize pt') \<le> int (length (vs_stack s')) \<and>
     (\<forall>j\<in>{1..<length (vp_code pt')}. unat (bc_op (vp_code pt' ! j)) < BC__MAX \<and>
        unat (bc_op (vp_code pt' ! j)) \<notin> {BC_RETM, BC_RET, BC_GSET, BC_GINC, BC_ITERC, BC_POW})"
proof -
  obtain d' where d: "d = Suc d'" using assms(1) by (cases d) auto
  have bounds: "unat (vp_framesize pt) \<le> KP_MAX_SLOTS" "base + uint (vp_framesize pt) \<le> int (length (vs_stack s))"
    and loop: "validate_loop (kp_vm_validate_code d') p base [1..<length (vp_code pt)] s = Inr (True, s')"
    using assms by (auto simp: d vproto_def split: if_splits)
  have kept: "code_kept s s'" and sup: "\<forall>j\<in>set [1..<length (vp_code pt)]. supported_at s' p j"
    using validate_loop_kept [OF _ loop] validate_code_kept by auto
  have "rel_option same_proto (vs_protos s p) (vs_protos s' p)" "vs_stack s' = vs_stack s"
    using kept by (auto simp: code_kept_def)
  then obtain pt' where pt': "vs_protos s' p = Some pt'" "same_proto pt pt'" "vs_stack s' = vs_stack s"
    using assms(2) by (auto simp: rel_option_iff split: option.splits)
  moreover have "\<not> rejected_op (unat (bc_op (vp_code pt' ! j)))" if "j \<in> {1..<length (vp_code pt')}" for j
    using sup that pt' by (auto simp: supported_at_def same_proto_def)
  moreover have "op < BC__MAX \<and> op \<notin> {BC_RETM, BC_RET, BC_GSET, BC_GINC, BC_ITERC, BC_POW}" if "\<not> rejected_op op" for op
    using that by (simp add: rejected_op_def)
  ultimately show ?thesis using bounds by (simp add: same_proto_def)
qed

text \<open>A program that loads a built-in function from the table of globals.\<close>

definition gget_proto :: vm_proto where
  "gget_proto = loop_proto\<lparr>vp_code := [BCINS_AD (of_nat BC_FUNCF) 4 0, BCINS_AD (of_nat BC_GGET) 0 0, BCINS_AD (of_nat BC_RET0) 0 1],
     vp_kgc := [9]\<rparr>"

definition gget_state :: vm_state where
  "gget_state = loop_state\<lparr>
     vs_g := (vs_g loop_state)\<lparr>strobjs := [9 \<mapsto> \<lparr>s_nextgc = 0, s_reserved = 0, s_hash = 0, s_len = 1, s_chars = [112]\<rparr>]\<rparr>,
     vs_tabs := [3 \<mapsto> \<lparr>tarray = [], tnode = [\<lparr>n_val = set_cfunc 41, n_key = set_string 9, n_next = None\<rparr>,
          \<lparr>n_val = kp_niltv, n_key = kp_niltv, n_next = None\<rparr>], freetop = 1, asize = 0, hmask = 1, hnum = 1\<rparr>],
     vs_gtab := 3, vs_gfunc := [40, 41], vs_protos := [2 \<mapsto> gget_proto]\<rparr>"

theorem validated_code_screened_witness:
  "\<exists>s' pt'. kp_vm_validate_code 1 gget_state 2 1 = Inr (True, s') \<and> vs_protos s' 2 = Some pt' \<and> length (vp_code pt') = 3 \<and>
     unat (bc_op (vp_code pt' ! 1)) \<notin> {BC_RETM, BC_RET, BC_GSET, BC_GINC, BC_ITERC, BC_POW}"
proof -
  let ?r = "kp_vm_validate_code 1 gget_state 2 1"
  have "\<not> isl ?r" "fst (projr ?r)" "length (vp_code gget_proto) = 3" by code_simp+
  then obtain s' where s': "?r = Inr (True, s')" by (cases ?r) auto
  show ?thesis
    using validated_code_screened [OF s', of gget_proto] s' \<open>length (vp_code gget_proto) = 3\<close> by (force simp: gget_state_def)
qed

text \<open>
  The three instructions that the interpreter marks as not supported, and that just end the call, are accepted.
\<close>

theorem varg_validated:
  assumes "op \<in> {BC_TSETM, BC_CALLMT, BC_VARG}"
    and "vp_code pt = [h, BCINS_AD (of_nat op) 0 0]" "vs_protos s p = Some pt"
    and "unat (vp_framesize pt) \<le> KP_MAX_SLOTS" "base + uint (vp_framesize pt) \<le> int (length (vs_stack s))"
  shows "kp_vm_validate_code 1 s p base = Inr (True, s) \<and> vm_exec e f s (vp_code pt ! 1) = vret s"
proof -
  have o: "unat (bc_op (BCINS_AD (of_nat op) 0 0)) = op" using assms(1) bc_fields_AD [of "of_nat op" 0 0] by auto
  have "validate_instr c p base 1 s = Inr (True, s)" for c
    using assms(1-3) o by (auto simp: validate_instr_def vfetch_def Let_def)
  moreover have "vm_exec e f s (BCINS_AD (of_nat op) 0 0) = vret s" using assms(1) o by (auto simp: vm_exec_def op_returns_def)
  ultimately show ?thesis using assms(2-5) by (simp add: vproto_def)
qed

section \<open>Patched calls of built-in functions\<close>

lemma gfunc_find_nth: "0 \<le> gfunc_find fs c i \<Longrightarrow>
   i \<le> nat (gfunc_find fs c i) \<and> nat (gfunc_find fs c i) < i + length fs \<and> fs ! (nat (gfunc_find fs c i) - i) = c"
proof (induction fs arbitrary: i)
  case (Cons f fs)
  show ?case
  proof (cases "f = c")
    case False
    then have r: "Suc i \<le> nat (gfunc_find fs c (Suc i))" "nat (gfunc_find fs c (Suc i)) < Suc i + length fs"
      "fs ! (nat (gfunc_find fs c (Suc i)) - Suc i) = c" using Cons.IH [of "Suc i"] Cons.prems by auto
    then have "nat (gfunc_find fs c (Suc i)) - i = Suc (nat (gfunc_find fs c (Suc i)) - Suc i)" by simp
    then show ?thesis using False r by simp
  qed simp
qed simp

lemma gfunc_getidx_nth:
  assumes "0 \<le> gfunc_getidx s c"
  shows "nat (gfunc_getidx s c) < length (vs_gfunc s)" "vs_gfunc s ! nat (gfunc_getidx s c) = c"
  using assms gfunc_find_nth [of "vs_gfunc s" c 0] by (auto simp: gfunc_getidx_def)

lemma gfunc_patch_fields:
  assumes "0 \<le> n" "n < 65536"
  shows "bc_a (setbc_d (setbc_op i 110) (word_of_int n)) = bc_a i" "unat (bc_d (setbc_d (setbc_op i 110) (word_of_int n))) = nat n"
proof -
  have "take_bit 16 (word_of_int n :: u32) = word_of_int n"
    using assms by (simp add: word_uint_eq_iff unsigned_take_bit_eq unsigned_of_int take_bit_int_eq_self)
  then show "bc_a (setbc_d (setbc_op i 110) (word_of_int n)) = bc_a i" "unat (bc_d (setbc_d (setbc_op i 110) (word_of_int n))) = nat n"
    using assms by (simp_all add: bcfield half_mask take_bit_eq_mask [symmetric] unsigned_of_int take_bit_int_eq_self)
qed

text \<open>
  C19: the patch of the validator is invisible.  Where it accepts a load of a global, the instruction it leaves,
  patched to a built-in function load or not, does in every frame of the prototype what the original did, except
  that the state carries the patched code.  The table of built-in functions has at most its size in the code.
\<close>

theorem validated_gget_same:
  assumes "vs_protos s p = Some pt" "j < length (vp_code pt)" "vp_code pt ! j = i" "unat (bc_op i) = BC_GGET" "fl_k f = p"
    and "length (vs_gfunc s) \<le> KP_MAX_CACHED_CFUNCTION" "validate_gget s p j i = Inr (True, s')"
  shows "\<exists>pt'. vs_protos s' p = Some pt' \<and>
     vm_exec e f s' (vp_code pt' ! j) =
       (case vm_exec e f s i of
          Inr (VNext f' t) \<Rightarrow> Inr (VNext f' (t\<lparr>vs_protos := vs_protos s'\<rparr>))
        | r \<Rightarrow> r)"
proof -
  obtain k t v where look: "vkgc s p (bc_d i) = Inr k" "vtab s (vs_gtab s) = Inr t" "kp_tab_getstr (vs_g s) t k = Some v" "\<not> is_nil v"
    using assms(7) by (auto simp: validate_gget_def vbind_Inr_iff vopt_def split: option.splits if_splits)
  have ex: "vm_exec e f s i = vbind (vput s (RA f i) v) (vnext f)"
    using assms(4,5) look by (simp add: vm_exec_def Let_def op_returns_def step_gget_def)
  show ?thesis
  proof (cases "is_cfunc v \<and> gfunc_getidx s (vbits v) \<ge> 0")
    case False
    then have "s' = s" using assms(7) look by (auto simp: validate_gget_def)
    then show ?thesis using assms(1,3) ex by (auto simp: vput_def vslot_set_def vnext_def)
  next
    case True
    define n where "n = gfunc_getidx s (vbits v)"
    define i' where "i' = setbc_d (setbc_op i 110) (word_of_int n)"
    have n: "0 \<le> n" "nat n < length (vs_gfunc s)" "vs_gfunc s ! nat n = vbits v"
      using True gfunc_getidx_nth [of s "vbits v"] by (auto simp: n_def)
    then have "n < 65536" using assms(6) by (simp add: KP_MAX_CACHED_CFUNCTION_def nat_less_iff)
    then have i': "bc_a i' = bc_a i" "unat (bc_d i') = nat n" "unat (bc_op i') = 110"
      using gfunc_patch_fields [of n i] gfunc_op [of i "word_of_int n"] n(1) by (simp_all add: i'_def)
    have s': "s' = s\<lparr>vs_protos := (vs_protos s)(p \<mapsto> pt\<lparr>vp_code := (vp_code pt)[j := i']\<rparr>)\<rparr>"
      using assms(1,7) look True by (simp add: validate_gget_def set_code_def i'_def n_def)
    have "v = set_cfunc (vbits v)" using True by (simp add: set_cfunc_def is_cfunc_def)
    then have "vm_exec e f s' i' = vbind (vput s' (RA f i') v) (vnext f)"
      using i' n by (simp add: vm_exec_def Let_def op_returns_def step_task_def gfunc_get_def s')
    then show ?thesis using assms(2) i'(1) ex by (simp add: s' RA_def vput_def vslot_set_def in_stack_def vnext_def)
  qed
qed


theorem validated_gget_same_witness:
  "\<exists>s' pt' f'. validate_gget gget_state 2 1 (BCINS_AD (of_nat BC_GGET) 0 0) = Inr (True, s') \<and> vs_protos s' 2 = Some pt' \<and>
     unat (bc_op (vp_code pt' ! 1)) = BC_GFUNC \<and>
     vm_exec loop_env f' s' (vp_code pt' ! 1) =
       (case vm_exec loop_env f' gget_state (BCINS_AD (of_nat BC_GGET) 0 0) of
          Inr (VNext f' t) \<Rightarrow> Inr (VNext f' (t\<lparr>vs_protos := vs_protos s'\<rparr>))
        | r \<Rightarrow> r)"
proof -
  let ?i = "BCINS_AD (of_nat BC_GGET) 0 0" and ?f = "fst (projr (vm_enter gget_state 0))"
  let ?r = "validate_gget gget_state 2 1 ?i"
  have ev: "\<not> isl ?r" "fst (projr ?r)" "unat (bc_op ?i) = BC_GGET" "fl_k ?f = 2" "length (vs_gfunc gget_state) \<le> KP_MAX_CACHED_CFUNCTION"
    "map_option (\<lambda>pt. unat (bc_op (vp_code pt ! 1))) (vs_protos (snd (projr ?r)) 2) = Some BC_GFUNC" by code_simp+
  then obtain s' where s': "?r = Inr (True, s')" by (cases ?r) auto
  have "vs_protos gget_state 2 = Some gget_proto" by (simp add: gget_state_def)
  then obtain pt' where "vs_protos s' 2 = Some pt'"
    "vm_exec loop_env ?f s' (vp_code pt' ! 1) = (case vm_exec loop_env ?f gget_state ?i of
          Inr (VNext f' t) \<Rightarrow> Inr (VNext f' (t\<lparr>vs_protos := vs_protos s'\<rparr>)) | r \<Rightarrow> r)"
    using validated_gget_same [of gget_state 2 gget_proto 1 ?i ?f s' loop_env] s' ev(3,4,5) by (auto simp: gget_proto_def)
  moreover from this have "unat (bc_op (vp_code pt' ! 1)) = BC_GFUNC" using ev(6) s' by simp
  ultimately show ?thesis using s' by blast
qed

section \<open>Results of C functions\<close>

lemma vget_cong: "vs_stack s' ! nat x = vs_stack s ! nat x \<Longrightarrow> length (vs_stack s') = length (vs_stack s) \<Longrightarrow> vget s' x = vget s x"
  by (simp add: vget_def in_stack_def)

lemma vget_in_stack: "vget s x = Inr v \<Longrightarrow> in_stack s x"
  by (simp add: vget_def split: if_splits)

lemma vput_eq: "in_stack s i \<Longrightarrow> vput s i v = Inr (s\<lparr>vs_stack := (vs_stack s)[nat i := SVal v]\<rparr>)"
  by (simp add: vput_def vslot_set_def)

lemma vget_put: "in_stack s i \<Longrightarrow> 0 \<le> x \<Longrightarrow> vget (s\<lparr>vs_stack := (vs_stack s)[nat i := SVal v]\<rparr>) x = (if x = i then Inr v else vget s x)"
  by (auto simp: vget_def in_stack_def nth_list_update)

lemma poscall_move_spec:
  assumes "0 \<le> func" "func \<le> first" "first + int (length vs) = vs_top s" "\<forall>k<length vs. vget s (first + int k) = Inr (vs ! k)"
    and "m = (if w < 0 then length vs else min (length vs) (nat w))"
  shows "\<exists>s'. poscall_move func first w s = Inr (func + int m, w - int m, s') \<and> vs_top s' = vs_top s \<and>
     length (vs_stack s') = length (vs_stack s) \<and> (\<forall>k<m. vget s' (func + int k) = Inr (vs ! k)) \<and>
     (\<forall>x. 0 \<le> x \<and> x < func \<longrightarrow> vget s' x = vget s x)"
  using assms
proof (induction vs arbitrary: func first w s m)
  case Nil
  then show ?case by (simp add: poscall_move.simps)
next
  case (Cons v vs)
  show ?case
  proof (cases "w = 0")
    case True
    then show ?thesis using Cons.prems by (simp add: poscall_move.simps)
  next
    case False
    define m' where "m' = (if w - 1 < 0 then length vs else min (length vs) (nat (w - 1)))"
    have v: "vget s first = Inr v" using Cons.prems(4) by force
    have ins: "in_stack s func" using vget_in_stack [OF v] Cons.prems(1,2) by (simp add: in_stack_def)
    define s1 where "s1 = s\<lparr>vs_stack := (vs_stack s)[nat func := SVal v]\<rparr>"
    have copy: "vcopy s func first = Inr s1" using v ins by (simp add: vcopy_def vput_eq s1_def)
    have get: "vget s1 x = (if x = func then Inr v else vget s x)" if "0 \<le> x" for x
      using vget_put [OF ins that] by (simp add: s1_def)
    have vs: "\<forall>k<length vs. vget s1 (first + 1 + int k) = Inr (vs ! k)"
    proof (intro allI impI)
      fix k assume "k < length vs"
      then have "vget s (first + int (Suc k)) = Inr (vs ! k)" using Cons.prems(4) by (metis length_Cons Suc_less_eq nth_Cons_Suc)
      then show "vget s1 (first + 1 + int k) = Inr (vs ! k)" using get [of "first + 1 + int k"] Cons.prems(1,2) by (simp add: add.assoc)
    qed
    have st: "first < vs_top s" "m = Suc m' \<or> w < 0 \<and> w - 1 < 0 \<and> m = Suc m'"
      using Cons.prems(3,5) False by (auto simp: m'_def)
    obtain s' where s': "poscall_move (func + 1) (first + 1) (w - 1) s1 = Inr (func + 1 + int m', w - 1 - int m', s')" "vs_top s' = vs_top s1"
      "length (vs_stack s') = length (vs_stack s1)" "\<forall>k<m'. vget s' (func + 1 + int k) = Inr (vs ! k)"
      "\<forall>x. 0 \<le> x \<and> x < func + 1 \<longrightarrow> vget s' x = vget s1 x"
      using Cons.IH [of "func + 1" "first + 1" s1 m' "w - 1"] Cons.prems(1,2,3) vs m'_def by (auto simp: s1_def)
    have "poscall_move func first w s = Inr (func + int m, w - int m, s')"
      using False st copy s'(1) by (subst poscall_move.simps) auto
    moreover have "\<forall>k<m. vget s' (func + int k) = Inr ((v # vs) ! k)"
    proof (intro allI impI)
      fix k assume "k < m"
      then show "vget s' (func + int k) = Inr ((v # vs) ! k)"
        using s'(4,5) get [of func] Cons.prems(1) st(2) by (cases k) (auto simp: algebra_simps)
    qed
    ultimately show ?thesis using s' get Cons.prems(1) by (auto simp: s1_def)
  qed
qed

lemma poscall_nil_spec:
  assumes "0 \<le> func" "func + int n \<le> int (length (vs_stack s))"
  shows "\<exists>s'. poscall_nil n func s = Inr s' \<and> (\<forall>k<n. \<exists>v. vget s' (func + int k) = Inr v \<and> is_nil v) \<and>
     (\<forall>x. 0 \<le> x \<and> x < func \<longrightarrow> vget s' x = vget s x)"
  using assms
proof (induction n arbitrary: func s)
  case (Suc n)
  have ins: "in_stack s func" using Suc.prems by (simp add: in_stack_def)
  define v where "v = \<lparr>itype = KTAP_TNIL, vbits = slot_bits (vs_stack s ! nat func)\<rparr>"
  have v: "itype v = KTAP_TNIL" "vsettype s func KTAP_TNIL = Inr (s\<lparr>vs_stack := (vs_stack s)[nat func := SVal v]\<rparr>)"
    using ins by (simp_all add: v_def vsettype_def vbits_at_def vput_eq)
  obtain s' where s': "poscall_nil n (func + 1) (s\<lparr>vs_stack := (vs_stack s)[nat func := SVal v]\<rparr>) = Inr s'"
    "\<forall>k<n. \<exists>v. vget s' (func + 1 + int k) = Inr v \<and> is_nil v"
    "\<forall>x. 0 \<le> x \<and> x < func + 1 \<longrightarrow> vget s' x = vget (s\<lparr>vs_stack := (vs_stack s)[nat func := SVal v]\<rparr>) x"
    using Suc.IH [of "func + 1" "s\<lparr>vs_stack := (vs_stack s)[nat func := SVal v]\<rparr>"] Suc.prems by auto
  have "\<exists>v. vget s' (func + int k) = Inr v \<and> is_nil v" if "k < Suc n" for k
    using that s'(2,3) v(1) ins Suc.prems(1) by (cases k) (auto simp: vget_put is_nil_def algebra_simps)
  then show ?case using v(2) s'(1,3) ins by (auto simp: vget_put)
qed simp

text \<open>
  The results of a C function reach its caller.  \<^verbatim>\<open>poscall\<close> moves the results that lie below \<^verbatim>\<open>top\<close> down to the
  slots of the call, as many as are wanted and all of them when any number is; the missing ones are nil,
  and no slot below the call changes.
\<close>

theorem poscall_results:
  assumes "0 \<le> func" "func \<le> first" "first + int (length vs) = vs_top s" "\<forall>k<length vs. vget s (first + int k) = Inr (vs ! k)"
    and "func + wanted \<le> int (length (vs_stack s))"
  shows "\<exists>s'. poscall s func first wanted = Inr s' \<and>
     (\<forall>k<(if wanted < 0 then length vs else nat wanted). \<exists>v. vget s' (func + int k) = Inr v \<and>
        (if k < length vs then v = vs ! k else is_nil v)) \<and>
     (\<forall>x. 0 \<le> x \<and> x < func \<longrightarrow> vget s' x = vget s x)"
proof -
  define m where "m = (if wanted < 0 then length vs else min (length vs) (nat wanted))"
  obtain s1 where s1: "poscall_move func first wanted s = Inr (func + int m, wanted - int m, s1)"
    "length (vs_stack s1) = length (vs_stack s)" "\<forall>k<m. vget s1 (func + int k) = Inr (vs ! k)"
    "\<forall>x. 0 \<le> x \<and> x < func \<longrightarrow> vget s1 x = vget s x"
    using poscall_move_spec [OF assms(1-4) m_def] by (elim exE conjE)
  define n where "n = nat (wanted - int m)"
  have "\<exists>s2. poscall_nil n (func + int m) s1 = Inr s2 \<and> (\<forall>k<n. \<exists>v. vget s2 (func + int m + int k) = Inr v \<and> is_nil v) \<and>
      (\<forall>x. 0 \<le> x \<and> x < func + int m \<longrightarrow> vget s2 x = vget s1 x)"
  proof (cases "n = 0")
    case False
    then have "func + int m + int n \<le> int (length (vs_stack s1))" using assms(5) s1(2) by (simp add: n_def)
    then show ?thesis by (intro poscall_nil_spec) (use assms(1) in simp_all)
  qed simp
  then obtain s2 where s2: "poscall_nil n (func + int m) s1 = Inr s2" "\<forall>k<n. \<exists>v. vget s2 (func + int m + int k) = Inr v \<and> is_nil v"
    "\<forall>x. 0 \<le> x \<and> x < func + int m \<longrightarrow> vget s2 x = vget s1 x"
    by (elim exE conjE)
  have "\<exists>v. vget s2 (func + int k) = Inr v \<and> (if k < length vs then v = vs ! k else is_nil v)"
    if "k < (if wanted < 0 then length vs else nat wanted)" for k
  proof (cases "k < m")
    case True
    then show ?thesis using s1(3) s2(3) assms(1) by (auto simp: m_def split: if_splits)
  next
    case False
    then have "k - m < n" "\<not> k < length vs" using that by (auto simp: m_def n_def split: if_splits)
    then show ?thesis using s2(2) False by (metis add.assoc le_add_diff_inverse not_less of_nat_add)
  qed
  moreover have "poscall s func first wanted = Inr s2"
    using s1(1) s2(1) by (simp add: poscall_def n_def)
  ultimately show ?thesis using s1(4) s2(3) by auto
qed


definition pos_state :: vm_state where
  "pos_state = loop_state\<lparr>vs_stack := map (\<lambda>n. SVal (set_number n)) [0, 1, 2, 3, 4, 5], vs_top := 5\<rparr>"

theorem poscall_results_witness:
  "\<exists>s' v. poscall pos_state 0 3 3 = Inr s' \<and> vget s' 0 = Inr (set_number 3) \<and> vget s' 1 = Inr (set_number 4) \<and>
     vget s' 2 = Inr v \<and> is_nil v"
proof -
  have "\<forall>k<2. vget pos_state (3 + int k) = Inr ([set_number 3, set_number 4] ! k)"
    by (simp add: All_less_Suc numeral_2_eq_2 vget_def in_stack_def pos_state_def)
  moreover have pos: "vs_top pos_state = 5" "length (vs_stack pos_state) = 6" by (simp_all add: pos_state_def)
  ultimately obtain s' where s': "poscall pos_state 0 3 3 = Inr s'"
    "\<forall>k<3. \<exists>v. vget s' (int k) = Inr v \<and> (if k < Suc (Suc 0) then v = [set_number 3, set_number 4] ! k else is_nil v)"
    using poscall_results [of 0 3 "[set_number 3, set_number 4]" pos_state 3] pos by auto
  show ?thesis using s'(1) s'(2) [rule_format, of 0] s'(2) [rule_format, of 1] s'(2) [rule_format, of 2] by auto
qed










definition main_frame :: vm_frame where
  "main_frame = \<lparr>fl_loop = 0, fl_fn = 1, fl_pt = 2, fl_k = 2, fl_pc = (2, 2), fl_base = 1, fl_func = 0, fl_multres = 0\<rparr>"




text \<open>
  division by zero.  \<^verbatim>\<open>DIVVV\<close> and \<^verbatim>\<open>MODVV\<close> of two numbers divide without a check: a zero divisor traps in the kernel.
  With a constant divisor the check is there: the call ends and the error state is set.
\<close>

theorem division_by_zero:
  assumes "vget s (RB f i) = Inr b" "is_number b"
  shows "(unat (bc_op i) = BC_DIVVV \<or> unat (bc_op i) = BC_MODVV \<longrightarrow>
      vget s (RC f i) = Inr c \<longrightarrow> is_number c \<longrightarrow> nvalue c = 0 \<longrightarrow> vm_exec e f s i = Inl FArith) \<and>
    (unat (bc_op i) = BC_DIVVN \<or> unat (bc_op i) = BC_MODVN \<longrightarrow> vknum s (fl_k f) (bc_c i) = Inr 0 \<longrightarrow>
      (\<exists>s'. vm_exec e f s i = Inr (VRet s') \<and> gstatus (vs_g s') = KTAP_ERROR))"
  using assms
  by (auto simp: vm_exec_def Let_def op_returns_def step_arith_def arith_of_def arith_VV_def arith_def vfail_def verror_def)

definition div_state :: vm_state where
  "div_state = loop_state\<lparr>vs_stack := [SVal (set_func 1), SVal (set_number 6), SVal (set_number 0), SVal kp_niltv, SVal kp_niltv]\<rparr>"

theorem division_by_zero_witness:
  "vm_exec loop_env main_frame div_state (BCINS_ABC (of_nat BC_DIVVV) 2 0 1) = Inl FArith"
proof -
  have "vget div_state (RB main_frame (BCINS_ABC (of_nat BC_DIVVV) 2 0 1)) = Inr (set_number 6)" "is_number (set_number 6)"
    "unat (bc_op (BCINS_ABC (of_nat BC_DIVVV) 2 0 1)) = BC_DIVVV"
    "vget div_state (RC main_frame (BCINS_ABC (of_nat BC_DIVVV) 2 0 1)) = Inr (set_number 0)" "is_number (set_number 0)" by code_simp+
  then show ?thesis
    using division_by_zero [of div_state "main_frame" "BCINS_ABC (of_nat BC_DIVVV) 2 0 1" "set_number 6" "set_number 0" loop_env] by simp
qed

end
