(* ===== verification/Ktap_Util_Correct.thy ===== *)
theory Ktap_Util_Correct
  imports Ktap_Util Ktap_Tab_Map
begin

text \<open>
  What the compiler relies on of its runtime: the character classes are the ASCII ranges, buffers hold what is put
  into them, ULEB128 numbers are read back, strings with equal bytes are one object (the interface of interned strings of the
  kernel module), constant tables are finite maps (the interface of keyed stores) up to 2048 keys and not beyond, and
  glob patterns match their language.
\<close>

section \<open>Character classes\<close>

text \<open>The table, entry by entry, from the character ranges.\<close>

definition char_bits_of :: "int \<Rightarrow> u8" where
  "char_bits_of c =
     (if c < 0 then 0 else if c < 9 then 1 else if c < 14 then 3 else if c < 32 then 1 else if c = 32 then 2
      else if c < 48 then 4 else if c < 58 then 152 else if c < 65 then 4 else if c < 71 then 176
      else if c < 91 then 160 else if c < 95 then 4 else if c = 95 then 132 else if c = 96 then 4
      else if c < 103 then 208 else if c < 123 then 192 else if c < 127 then 4 else if c = 127 then 1 else 128)"

lemma kp_char_bits_eq: "kp_char_bits = map char_bits_of [-1..255]"
  by code_simp

lemma kp_char_bits_nth: "-1 \<le> c \<Longrightarrow> c \<le> 255 \<Longrightarrow> kp_char_bits ! nat (c + 1) = char_bits_of c"
  by (simp add: kp_char_bits_eq)

lemma kp_char_isa_eq:
  assumes "-1 \<le> c" "c \<le> 255"
  shows "kp_char_isdigit c \<longleftrightarrow> 48 \<le> c \<and> c \<le> 57"
    and "kp_char_isxdigit c \<longleftrightarrow> 48 \<le> c \<and> c \<le> 57 \<or> 65 \<le> c \<and> c \<le> 70 \<or> 97 \<le> c \<and> c \<le> 102"
    and "kp_char_isspace c \<longleftrightarrow> 9 \<le> c \<and> c \<le> 13 \<or> c = 32"
    and "kp_char_isident c \<longleftrightarrow> 48 \<le> c \<and> c \<le> 57 \<or> 65 \<le> c \<and> c \<le> 90 \<or> c = 95 \<or> 97 \<le> c \<and> c \<le> 122 \<or> 128 \<le> c"
    and "kp_char_iscntrl c \<longleftrightarrow> 0 \<le> c \<and> c \<le> 31 \<or> c = 127"
  using kp_char_bits_nth [OF assms] by (auto simp: kp_char_isa_def char_bits_of_def)

section \<open>String buffers hold what is put into them\<close>

text \<open>The contract of a buffer that holds up to \<open>cap\<close> elements: \<open>content\<close> is what has been put since the reset.\<close>

locale append_buffer =
  fixes put :: "'b \<Rightarrow> 'a \<Rightarrow> 'b option" and reset :: "'b \<Rightarrow> 'b" and content :: "'b \<Rightarrow> 'a list option" and ok :: "'b \<Rightarrow> bool"
    and cap :: nat
  assumes put_ok: "ok b \<Longrightarrow> content b = Some xs \<Longrightarrow> length xs < cap \<Longrightarrow>
      \<exists>b'. put b x = Some b' \<and> ok b' \<and> content b' = Some (xs @ [x])"
    and reset_ok: "ok b \<Longrightarrow> ok (reset b) \<and> content (reset b) = Some []"
begin

primrec put_all :: "'b \<Rightarrow> 'a list \<Rightarrow> 'b option" where
  "put_all b [] = Some b"
| "put_all b (x # xs) = Option.bind (put b x) (\<lambda>b. put_all b xs)"

lemma put_all_content:
  "ok b \<Longrightarrow> content b = Some ys \<Longrightarrow> length ys + length xs \<le> cap \<Longrightarrow>
     \<exists>b'. put_all b xs = Some b' \<and> ok b' \<and> content b' = Some (ys @ xs)"
proof (induction xs arbitrary: b ys)
  case (Cons x xs)
  obtain b1 where b1: "put b x = Some b1" "ok b1" "content b1 = Some (ys @ [x])"
    using put_ok [OF Cons.prems(1,2), of x] Cons.prems(3) by auto
  then show ?case using Cons.IH [OF b1(2,3)] Cons.prems(3) by simp
qed simp

lemma reset_put_all:
  "ok b \<Longrightarrow> length xs \<le> cap \<Longrightarrow> \<exists>b'. put_all (reset b) xs = Some b' \<and> ok b' \<and> content b' = Some xs"
  using put_all_content [of "reset b" "[]" xs] reset_ok [of b] by auto

end

text \<open>The block never shrinks below its first 200 bytes, and the write position stays inside.\<close>

definition sbuf_ok :: "sbuf \<Rightarrow> bool" where
  "sbuf_ok sb \<longleftrightarrow> 200 \<le> length (sb_mem sb) \<and> (case sb_p sb of None \<Rightarrow> True | Some p \<Rightarrow> p \<le> length (sb_mem sb))"

lemma kp_buf_putb_ok:
  assumes ok: "sbuf_ok sb" and str: "kp_buf_str sb = Some xs" and "length xs < 2 ^ 30"
  shows "\<exists>sb'. kp_buf_putb ju sb c = Some sb' \<and> sbuf_ok sb' \<and> kp_buf_str sb' = Some (xs @ [c])"
proof -
  obtain p where p: "sb_p sb = Some p" "p \<le> length (sb_mem sb)" "xs = take p (sb_mem sb)" "200 \<le> length (sb_mem sb)"
    using ok str by (cases "sb_p sb") (auto simp: sbuf_ok_def kp_buf_str_def)
  show ?thesis
  proof (cases "p < length (sb_mem sb)")
    case True
    then show ?thesis using p
      by (auto simp: kp_buf_putb_def kp_buf_more_def sbuf_ok_def kp_buf_str_def take_Suc_conv_app_nth)
  next
    case False
    with p have "p = length (sb_mem sb)" by simp
    moreover have "\<not> 2 ^ 31 \<le> p * 2" using p assms(3) by simp
    ultimately show ?thesis using p
      by (auto simp: kp_buf_putb_def kp_buf_more_def sbuf_ok_def kp_buf_str_def realloc_bytes_def list_update_append
          take_Suc_conv_app_nth upt_conv_Cons)
  qed
qed

interpretation sb: append_buffer "kp_buf_putb ju" kp_buf_reset kp_buf_str sbuf_ok "2 ^ 30" for ju
  by unfold_locales (rule kp_buf_putb_ok, assumption+, simp add: kp_buf_reset_def kp_buf_str_def sbuf_ok_def)

text \<open>C27: A buffer, once reset, takes any sequence of up to \<open>2 ^ 30\<close> bytes from \<^verbatim>\<open>kp_buf_putb\<close>: no byte is written behind its block,
  which doubles when it is full, the doubled length is still a C \<^verbatim>\<open>int\<close>, and \<^verbatim>\<open>kp_buf_str\<close> interns exactly that sequence.\<close>

theorem buf_holds_bytes:
  assumes "length cs \<le> 2 ^ 30"
  shows "\<exists>sb. foldl (\<lambda>sb c. Option.bind sb (\<lambda>sb. kp_buf_putb ju sb c)) (Some (kp_buf_reset (kp_buf_init ju))) cs = Some sb \<and>
        kp_buf_str sb = Some cs \<and> length cs \<le> length (sb_mem sb)"
proof -
  have eq: "foldl (\<lambda>sb c. Option.bind sb (\<lambda>sb. kp_buf_putb ju sb c)) s cs = Option.bind s (\<lambda>sb. sb.put_all ju sb cs)" for s
    by (induction cs arbitrary: s) (auto simp: Option.bind_assoc split: Option.bind_split)
  have "sbuf_ok (kp_buf_init ju)" by (simp add: sbuf_ok_def kp_buf_init_def)
  from sb.reset_put_all [OF this assms, of ju] obtain sb where
    sb: "sb.put_all ju (kp_buf_reset (kp_buf_init ju)) cs = Some sb" "sbuf_ok sb" "kp_buf_str sb = Some cs" by blast
  then have "length cs \<le> length (sb_mem sb)" by (auto simp: kp_buf_str_def)
  with sb show ?thesis by (simp add: eq)
qed

theorem buf_holds_bytes_witness:
  "\<exists>sb. foldl (\<lambda>sb c. Option.bind sb (\<lambda>sb. kp_buf_putb (\<lambda>_. 7) sb c)) (Some (kp_buf_reset (kp_buf_init (\<lambda>_. 7)))) (replicate 300 5) =
      Some sb \<and> kp_buf_str sb = Some (replicate 300 5)"
  using buf_holds_bytes [of "replicate 300 5" "\<lambda>_. 7"] by auto

section \<open>ULEB128\<close>

text \<open>The reader of the encoding: seven bits a byte, the low ones first.\<close>

fun uleb128_value :: "u8 list \<Rightarrow> nat" where
  "uleb128_value [] = 0"
| "uleb128_value (b # bs) = (if 128 \<le> b then unat b - 128 + 128 * uleb128_value bs else unat b)"

lemma uleb_byte: "unat (ucast ((v AND 0x7f) OR 0x80 :: u32) :: u8) = 128 + unat v mod 128"
proof -
  have "take_bit 7 v AND 2 ^ 7 = 0" by (rule bit_word_eqI) (auto simp: bit_simps simp del: power_numeral power_numeral_even)
  then have "(v AND 0x7f) OR 0x80 = (take_bit 7 v + 0x80 :: u32)"
    using disjunctive_add_eq_or [of "take_bit 7 v" "2 ^ 7"] by (simp add: take_bit_eq_mask mask_eq_exp_minus_1)
  moreover have "unat (take_bit 7 v) < 128" using take_bit_word_bound [of 7 v] by simp
  ultimately show ?thesis
    by (simp add: unsigned_ucast_eq unat_word_ariths take_bit_nat_eq_self unsigned_take_bit_eq take_bit_eq_mod)
qed

lemma uleb_last: "v < 0x80 \<Longrightarrow> unat (ucast (v :: u32) :: u8) = unat v"
  by (simp add: unsigned_ucast_eq take_bit_nat_eq_self word_less_nat_alt)

lemma wuleb128_length: "unat v < 128 ^ Suc n \<Longrightarrow> length (strfmt_wuleb128 v) \<le> Suc n"
proof (induction n arbitrary: v)
  case 0
  then show ?case by (subst strfmt_wuleb128.simps) (simp add: word_le_nat_alt)
next
  case (Suc n)
  have "unat (drop_bit 7 v) = unat v div 128" using unat_drop_bit_eq [of 7 v] by (simp add: drop_bit_eq_div)
  moreover have "unat v div 128 < 128 ^ Suc n" using Suc.prems by (simp add: less_mult_imp_div_less mult.commute)
  ultimately have "length (strfmt_wuleb128 (drop_bit 7 v)) \<le> Suc n" using Suc.IH by simp
  then show ?case by (subst strfmt_wuleb128.simps) simp
qed

text \<open>C28: ULEB128 numbers, as the compiler writes line and variable information, are read back whole and take five
  bytes at most; whatever follows them is left alone.\<close>

theorem wuleb128_roundtrip:
  "uleb128_value (strfmt_wuleb128 v @ rest) = unat v \<and> length (strfmt_wuleb128 v) \<le> 5"
proof
  show "uleb128_value (strfmt_wuleb128 v @ rest) = unat v"
  proof (induction v rule: strfmt_wuleb128.induct)
    case (1 v)
    have d: "unat (drop_bit 7 v) = unat v div 128" using unat_drop_bit_eq [of 7 v] by (simp add: drop_bit_eq_div)
    show ?case
    proof (cases "0x80 \<le> v")
      case True
      have "(128 :: u8) \<le> ucast ((v AND 0x7f) OR 0x80)" by (simp only: word_le_nat_alt uleb_byte) simp
      then show ?thesis using 1 [OF True] True d
        by (subst strfmt_wuleb128.simps) (simp add: uleb_byte)
    next
      case False
      then have "v < 0x80" by simp
      then have "\<not> (128 :: u8) \<le> ucast v" using uleb_last [of v] by (simp add: word_le_nat_alt word_less_nat_alt)
      then show ?thesis using False uleb_last [of v] by (subst strfmt_wuleb128.simps) simp
    qed
  qed
next
  have "unat v < 2 ^ 32" using unsigned_less [of v, where ?'a = nat] by simp
  then show "length (strfmt_wuleb128 v) \<le> 5" using wuleb128_length [of v 4] by simp
qed

section \<open>Interned strings\<close>

text \<open>
  No two entries share their bytes or their pointer, and there is room for another entry.  \<open>malloc\<close> returns a
  pointer that is not in use.
\<close>

definition ustr_inv :: "strtab \<Rightarrow> bool" where
  "ustr_inv t \<longleftrightarrow> length (st_objs t) < st_size t \<and> distinct (map fst (st_objs t)) \<and> distinct (map snd (st_objs t))"

definition ustr_ready :: "(strtab \<Rightarrow> addr) \<Rightarrow> strtab \<Rightarrow> u8 list \<Rightarrow> bool" where
  "ustr_ready alloc t str \<longleftrightarrow> alloc t \<notin> fst ` set (st_objs t)"

lemma img_fst: "(a, b) \<in> S \<Longrightarrow> a \<in> fst ` S"
  by force

definition ustr_content :: "strtab \<Rightarrow> addr \<Rightarrow> u8 list option" where
  "ustr_content t = map_of (st_objs t)"

lemma stringtable_search_None: "stringtable_search t str = None \<longleftrightarrow> str \<notin> snd ` set (st_objs t)"
  by (auto simp: stringtable_search_def find_None_iff image_iff split_beta)

lemma stringtable_search_Some:
  assumes "stringtable_search t str = Some a"
  shows "(a, str) \<in> set (st_objs t)"
  using assms by (auto simp: stringtable_search_def find_Some_iff split_beta) (metis nth_mem snd_conv)

lemma ustr_content_iff: "ustr_inv t \<Longrightarrow> ustr_content t p = Some c \<longleftrightarrow> (p, c) \<in> set (st_objs t)"
  by (auto simp: ustr_inv_def ustr_content_def)

lemma ukp_str_new_ok:
  assumes inv: "ustr_inv t" and ready: "ustr_ready alloc t str"
  shows "\<exists>p t'. ukp_str_new alloc t str = Some (p, t') \<and> ustr_inv t' \<and> ustr_content t' p = Some str \<and>
     ustr_content t \<subseteq>\<^sub>m ustr_content t'"
proof (cases "stringtable_search t str")
  case None
  let ?t = "if Suc (length (st_objs t)) = st_size t then t\<lparr>st_objs := st_objs t @ [(alloc t, str)], st_size := st_size t * 2\<rparr>
            else t\<lparr>st_objs := st_objs t @ [(alloc t, str)]\<rparr>"
  have new: "ukp_str_new alloc t str = Some (alloc t, ?t)"
    using None inv by (auto simp: ukp_str_new_def stringtable_insert_def ustr_inv_def Let_def)
  have objs: "st_objs ?t = st_objs t @ [(alloc t, str)]" by simp
  have "ustr_inv ?t"
    using inv ready None by (auto simp: ustr_inv_def ustr_ready_def stringtable_search_None image_iff)
  moreover have "ustr_content ?t (alloc t) = Some str"
    using \<open>ustr_inv ?t\<close> objs by (subst ustr_content_iff) auto
  moreover have "ustr_content t \<subseteq>\<^sub>m ustr_content ?t"
    using ready unfolding ustr_content_def objs
    by (auto simp: map_le_def map_of_append map_add_def ustr_ready_def map_of_eq_None_iff split: option.splits
        dest!: map_of_SomeD dest: img_fst)
  ultimately show ?thesis using new by blast
next
  case (Some a)
  then show ?thesis using inv stringtable_search_Some [OF Some]
    by (auto simp: ukp_str_new_def ustr_content_iff)
qed

lemma ustr_unique:
  assumes "ustr_inv t" "ustr_content t p = Some c" "ustr_content t q = Some c"
  shows "p = q"
proof -
  have "(p, c) \<in> set (st_objs t)" "(q, c) \<in> set (st_objs t)" "inj_on snd (set (st_objs t))"
    using assms by (auto simp: ustr_content_iff ustr_inv_def distinct_map)
  then show ?thesis by (metis inj_onD fst_conv snd_conv)
qed

interpretation ustr: intern_table "ukp_str_new alloc" ustr_inv "ustr_ready alloc" ustr_content id "\<lambda>_. True" for alloc
  by unfold_locales (use ukp_str_new_ok ustr_unique in \<open>auto simp: id_def\<close>)

text \<open>C29: In the compiler two strings are the same object exactly when they have the same bytes, the empty string included:
  what its token comparisons and its constant tables rely on.\<close>

theorem ustr_pointer_equality:
  assumes "ustr_inv t" "ustr_ready alloc t a" "ukp_str_new alloc t a = Some (p, t1)"
    and "ustr_ready alloc t1 b" "ukp_str_new alloc t1 b = Some (q, t2)"
  shows "(p = q \<longleftrightarrow> a = b) \<and> ustr_content t2 p = Some a \<and> ustr_content t2 q = Some b"
  using ustr.handle_eq_iff [OF assms] ustr.intern_result [OF assms(1-3)]
    ustr.intern_result [OF ustr.intern_result(1) [OF assms(1-3)] assms(4,5)]
  by auto

theorem ustr_pointer_equality_witness:
  "let al = \<lambda>t. of_nat (Suc (length (st_objs t))) in
   ukp_str_new al ukp_str_resize [] = Some (1, \<lparr>st_objs = [(1, [])], st_size = 1000\<rparr>) \<and>
   ukp_str_new al \<lparr>st_objs = [(1, [])], st_size = 1000\<rparr> [65] = Some (2, \<lparr>st_objs = [(1, []), (2, [65])], st_size = 1000\<rparr>) \<and>
   ustr_content \<lparr>st_objs = [(1, []), (2, [65])], st_size = 1000\<rparr> 2 = Some [65]"
proof -
  let ?al = "\<lambda>t. of_nat (Suc (length (st_objs t))) :: addr"
  have 1: "ukp_str_new ?al ukp_str_resize [] = Some (1, \<lparr>st_objs = [(1, [])], st_size = 1000\<rparr>)"
    and 2: "ukp_str_new ?al \<lparr>st_objs = [(1, [])], st_size = 1000\<rparr> [65] = Some (2, \<lparr>st_objs = [(1, []), (2, [65])], st_size = 1000\<rparr>)"
    by (simp_all add: ukp_str_new_def ukp_str_resize_def stringtable_search_def stringtable_insert_def)
  have "ustr_inv ukp_str_resize" "ustr_ready ?al ukp_str_resize []" "ustr_ready ?al \<lparr>st_objs = [(1, [])], st_size = 1000\<rparr> [65]"
    by (simp_all add: ustr_inv_def ustr_ready_def ukp_str_resize_def)
  from ustr_pointer_equality [OF this(1,2) 1 this(3) 2] 1 2 show ?thesis by (simp add: Let_def)
qed


section \<open>Tables of constants\<close>

definition ukey :: "ktap_val \<Rightarrow> u32 \<times> u64" where "ukey v = (itype v, vbits v)"

definition uplain :: "ktap_val \<Rightarrow> bool" where "uplain v \<longleftrightarrow> is_number v \<or> is_string v"

definition utab_content :: "ktap_tab \<Rightarrow> u32 \<times> u64 \<Rightarrow> ktap_val option" where
  "utab_content t k =
     (if fst k = KTAP_TNUM \<or> fst k = KTAP_TSTR then
        Option.bind (List.find (\<lambda>i. ukey (n_key (tnode t ! i)) = k) [0..<length (tnode t)]) (\<lambda>i. nonnil (n_val (tnode t ! i)))
      else None)"

text \<open>
  Nodes are taken from the top down to the start of the block.  The block of a new table has 1024 nodes; after one
  growth the free ones are those behind the first 1024, and 2048 keys have a node.
\<close>

definition utab_lo :: "ktap_tab \<Rightarrow> nat" where "utab_lo t = length (tnode t) - 1024"

definition utab_inv :: "ktap_tab \<Rightarrow> bool" where
  "utab_inv t \<longleftrightarrow> (length (tnode t) = 1024 \<or> length (tnode t) = 2048) \<and> length (tnode t) = Suc (unat (hmask t)) \<and>
     utab_lo t \<le> freetop t \<and> freetop t \<le> length (tnode t) \<and> (\<forall>i. utab_lo t \<le> i \<and> i < freetop t \<longrightarrow> \<not> uplain (n_key (tnode t ! i)))"

definition utab_free :: "ktap_tab \<Rightarrow> nat" where
  "utab_free t = (if length (tnode t) = 1024 then freetop t + 1024 else freetop t - 1024)"

lemma ukey_match_plain: "uplain key \<Longrightarrow> ukey_match key v \<longleftrightarrow> ukey v = ukey key"
  by (auto simp: uplain_def ukey_match_def ukey_def is_number_def is_string_def)

lemma ukp_tab_find_plain:
  "utab_inv t \<Longrightarrow> uplain key \<Longrightarrow> ukp_tab_find t key = List.find (\<lambda>i. ukey (n_key (tnode t ! i)) = ukey key) [0..<length (tnode t)]"
  by (auto simp: ukp_tab_find_def ukey_match_plain utab_inv_def uplain_def is_number_def is_string_def simp del: upt_Suc)

lemma find_upt_cong:
  "(\<And>i. i < n \<Longrightarrow> P i = Q i) \<Longrightarrow> List.find P [0..<n] = List.find Q [0..<n]"
  by (rule find_cong) auto

lemma find_first: "List.find P [0..<n] = Some i \<longleftrightarrow> i < n \<and> P i \<and> (\<forall>j<i. \<not> P j)"
  by (auto simp: find_Some_iff)

lemma ukp_tab_get_law:
  assumes "utab_inv t" "uplain key"
  shows "nonnil (ukp_tab_get t key) = utab_content t (ukey key)"
  using assms by (auto simp: ukp_tab_get_def ukp_tab_find_plain utab_content_def ukey_def uplain_def is_number_def is_string_def
      nonnil_def kp_niltv_def is_nil_def split: option.splits)

lemma utab_content_old:
  assumes find: "List.find (\<lambda>i. ukey (n_key (tnode t ! i)) = ukey key) [0..<length (tnode t)] = Some i" and "uplain key"
  shows "utab_content (t\<lparr>tnode := (tnode t)[i := (tnode t ! i)\<lparr>n_val := v\<rparr>]\<rparr>) = (utab_content t)(ukey key := nonnil v)"
proof
  fix k
  let ?t = "t\<lparr>tnode := (tnode t)[i := (tnode t ! i)\<lparr>n_val := v\<rparr>]\<rparr>"
  have i: "i < length (tnode t)" "ukey (n_key (tnode t ! i)) = ukey key" using find by (auto simp: find_first)
  have keys: "n_key (tnode ?t ! j) = n_key (tnode t ! j)" for j using i by (simp add: nth_list_update)
  have eq: "List.find (\<lambda>j. ukey (n_key (tnode ?t ! j)) = k) [0..<length (tnode ?t)] =
      List.find (\<lambda>j. ukey (n_key (tnode t ! j)) = k) [0..<length (tnode t)]" by (simp only: keys) simp
  show "utab_content ?t k = ((utab_content t)(ukey key := nonnil v)) k"
  proof (cases "k = ukey key")
    case True
    then show ?thesis using find eq i \<open>uplain key\<close>
      by (simp add: utab_content_def ukey_def uplain_def is_number_def is_string_def)
  next
    case False
    have "n_val (tnode ?t ! j) = n_val (tnode t ! j)" if "List.find (\<lambda>j. ukey (n_key (tnode t ! j)) = k) [0..<length (tnode t)] = Some j" for j
      using that False i by (auto simp: find_first nth_list_update)
    then show ?thesis using False unfolding utab_content_def eq
      by (auto split: Option.bind_split)
  qed
qed

lemma utab_content_new:
  assumes inv: "utab_inv t" and n: "freetop t = Suc n" "utab_lo t \<le> n" and "uplain key"
    and absent: "List.find (\<lambda>i. ukey (n_key (tnode t ! i)) = ukey key) [0..<length (tnode t)] = None"
  shows "utab_content (t\<lparr>tnode := (tnode t)[n := (tnode t ! n)\<lparr>n_key := key, n_val := v\<rparr>], freetop := n\<rparr>) =
    (utab_content t)(ukey key := nonnil v)"
proof
  fix k
  let ?t = "t\<lparr>tnode := (tnode t)[n := (tnode t ! n)\<lparr>n_key := key, n_val := v\<rparr>], freetop := n\<rparr>"
  have len: "n < length (tnode t)" using inv n by (simp add: utab_inv_def)
  have none: "ukey (n_key (tnode t ! i)) \<noteq> ukey key" if "i < length (tnode t)" for i
    using absent that by (auto simp: find_None_iff)
  have nplain: "\<not> uplain (n_key (tnode t ! n))" using inv n by (simp add: utab_inv_def)
  show "utab_content ?t k = ((utab_content t)(ukey key := nonnil v)) k"
  proof (cases "fst k = KTAP_TNUM \<or> fst k = KTAP_TSTR")
    case False
    then show ?thesis using \<open>uplain key\<close>
      by (auto simp: utab_content_def ukey_def uplain_def is_number_def is_string_def)
  next
    case plain: True
    show ?thesis
    proof (cases "k = ukey key")
      case True
      have "List.find (\<lambda>i. ukey (n_key (tnode ?t ! i)) = k) [0..<length (tnode ?t)] = Some n"
        using len none True by (auto simp: find_first nth_list_update)
      then show ?thesis using True plain len by (simp add: utab_content_def)
    next
      case False
      have "ukey (n_key (tnode t ! n)) \<noteq> k"
        using nplain plain by (auto simp: ukey_def uplain_def is_number_def is_string_def)
      then have "List.find (\<lambda>i. ukey (n_key (tnode ?t ! i)) = k) [0..<length (tnode ?t)] =
        List.find (\<lambda>i. ukey (n_key (tnode t ! i)) = k) [0..<length (tnode t)]"
        using False len by (auto simp: nth_list_update intro!: find_upt_cong)
      moreover have "n_val (tnode ?t ! j) = n_val (tnode t ! j)"
        if "List.find (\<lambda>j. ukey (n_key (tnode t ! j)) = k) [0..<length (tnode t)] = Some j" for j
        using that \<open>ukey (n_key (tnode t ! n)) \<noteq> k\<close> by (cases "n = j") (auto simp: find_first)
      ultimately show ?thesis using False unfolding utab_content_def by (auto split: Option.bind_split)
    qed
  qed
qed

lemma utab_find_grow:
  assumes "\<not> P zero_node"
  shows "List.find (\<lambda>i. P ((ns @ replicate m zero_node) ! i)) [0..<length ns + m] = List.find (\<lambda>i. P (ns ! i)) [0..<length ns]"
proof (cases "List.find (\<lambda>i. P (ns ! i)) [0..<length ns]")
  case None
  then have "\<not> P ((ns @ replicate m zero_node) ! i)" if "i < length ns + m" for i
    using assms that by (auto simp: find_None_iff nth_append)
  then have "List.find (\<lambda>i. P ((ns @ replicate m zero_node) ! i)) [0..<length ns + m] = None" by (auto simp: find_None_iff)
  with None show ?thesis by simp
next
  case (Some j)
  then have "List.find (\<lambda>i. P ((ns @ replicate m zero_node) ! i)) [0..<length ns + m] = Some j"
    unfolding find_first by (auto simp: nth_append)
  with Some show ?thesis by simp
qed

lemma ugrow_ok:
  assumes inv: "utab_inv t" and free: "0 < utab_free t"
  shows "\<exists>t' n. ugrow t = Some t' \<and> utab_inv t' \<and> freetop t' = Suc n \<and> utab_lo t' \<le> n \<and> utab_content t' = utab_content t \<and>
     utab_free t' = utab_free t \<and> (\<forall>key. uplain key \<longrightarrow> ukp_tab_find t' key = ukp_tab_find t key)"
proof (cases "freetop t = 0")
  case False
  then show ?thesis using inv free by (cases "freetop t") (auto simp: ugrow_def utab_inv_def utab_free_def utab_lo_def)
next
  case True
  then have len: "length (tnode t) = 1024" "unat (hmask t) = 1023"
    using free inv by (auto simp: utab_free_def utab_inv_def split: if_splits)
  let ?t = "t\<lparr>tnode := tnode t @ replicate 1024 zero_node, freetop := 2048, hmask := (hmask t + 1) * 2 - 1\<rparr>"
  have grow: "ugrow t = Some ?t" using True len by (simp add: ugrow_def del: replicate.simps)
  have zero: "\<not> uplain (n_key zero_node)"
    by (simp add: zero_node_def uplain_def is_number_def is_string_def KTAP_TNUM_def KTAP_TSTR_def)
  have "hmask t = 1023" using len(2) by (simp add: word_unat_eq_iff)
  then have hm: "unat ((hmask t + 1) * 2 - 1) = 2047" by simp
  have find: "List.find (\<lambda>i. ukey (n_key (tnode ?t ! i)) = k) [0..<length (tnode ?t)] =
      List.find (\<lambda>i. ukey (n_key (tnode t ! i)) = k) [0..<length (tnode t)]"
    if "fst k = KTAP_TNUM \<or> fst k = KTAP_TSTR" for k
  proof -
    have "ukey (n_key zero_node) \<noteq> k" using zero that by (auto simp: ukey_def uplain_def is_number_def is_string_def)
    from utab_find_grow [of "\<lambda>n. ukey (n_key n) = k", OF this] show ?thesis by simp
  qed
  have inv': "utab_inv ?t" using len hm zero by (auto simp: utab_inv_def utab_lo_def nth_append)
  have "utab_content ?t k = utab_content t k" for k
  proof (cases "fst k = KTAP_TNUM \<or> fst k = KTAP_TSTR")
    case True
    show ?thesis unfolding utab_content_def find [OF True] by (auto simp: find_first nth_append intro!: Option.bind_cong)
  qed (simp add: utab_content_def)
  then have "utab_content ?t = utab_content t" by blast
  moreover have "ukp_tab_find ?t key = ukp_tab_find t key" if "uplain key" for key
    using find [of "ukey key"] that ukp_tab_find_plain [OF inv' that] ukp_tab_find_plain [OF inv that]
    by (simp add: ukey_def uplain_def is_number_def is_string_def)
  moreover have "utab_free ?t = utab_free t" "utab_lo ?t \<le> 2047" using len True by (simp_all add: utab_free_def utab_lo_def)
  ultimately show ?thesis using grow inv' by (intro exI [of _ ?t] exI [of _ 2047]) simp
qed

lemma utab_put_law:
  assumes inv: "utab_inv t" and key: "uplain key" and free: "0 < utab_free t"
  shows "\<exists>t'. ukp_tab_setvalue t key v = Some t' \<and> utab_inv t' \<and> utab_content t' = (utab_content t)(ukey key := nonnil v) \<and>
     utab_free t \<le> Suc (utab_free t')"
proof (cases "ukp_tab_find t key")
  case (Some i)
  let ?t = "t\<lparr>tnode := (tnode t)[i := (tnode t ! i)\<lparr>n_val := v\<rparr>]\<rparr>"
  have find: "List.find (\<lambda>i. ukey (n_key (tnode t ! i)) = ukey key) [0..<length (tnode t)] = Some i"
    using Some ukp_tab_find_plain [OF inv key] by simp
  have "n_key (tnode ?t ! j) = n_key (tnode t ! j)" for j using find by (simp add: nth_list_update find_first)
  then have "utab_inv ?t" using inv by (auto simp: utab_inv_def utab_lo_def)
  then show ?thesis using Some utab_content_old [OF find key]
    by (auto simp: ukp_tab_setvalue_def utab_free_def)
next
  case None
  obtain t1 n where t1: "ugrow t = Some t1" "utab_inv t1" "freetop t1 = Suc n" "utab_lo t1 \<le> n"
    "utab_content t1 = utab_content t" "utab_free t1 = utab_free t" "ukp_tab_find t1 key = None"
    using ugrow_ok [OF inv free] key None by metis
  let ?t = "t1\<lparr>tnode := (tnode t1)[n := (tnode t1 ! n)\<lparr>n_key := key, n_val := v\<rparr>], freetop := n\<rparr>"
  have absent: "List.find (\<lambda>i. ukey (n_key (tnode t1 ! i)) = ukey key) [0..<length (tnode t1)] = None"
    using t1(7) ukp_tab_find_plain [OF t1(2) key] by simp
  have "utab_inv ?t" using t1 by (auto simp: utab_inv_def utab_lo_def)
  moreover have "utab_free t \<le> Suc (utab_free ?t)" using t1(3,6) by (auto simp: utab_free_def)
  moreover have "ukp_tab_setvalue t key v = Some ?t" using None t1(1,3) by (simp add: ukp_tab_setvalue_def)
  ultimately show ?thesis using utab_content_new [OF t1(2,3,4) key absent] t1(5) by auto
qed

interpretation utab: keyed_store "\<lambda>_::nat. utab_inv" utab_content "\<lambda>_. uplain" ukey nonnil
  "\<lambda>g t x v. map_option (\<lambda>t'. (t', g)) (ukp_tab_setvalue t x v)" "\<lambda>g t x. Some (ukp_tab_get t x, g)" utab_free
proof
  fix g :: nat and t x w assume "utab_inv t" "uplain x" "0 < utab_free t"
  then show "\<exists>t'. map_option (\<lambda>t'. (t', g)) (ukp_tab_setvalue t x w) = Some (t', g) \<and> utab_inv t' \<and>
      utab_content t' = (utab_content t)(ukey x := nonnil w) \<and> utab_free t \<le> Suc (utab_free t')"
    using utab_put_law [of t x w] by auto
next
  fix g :: nat and t x assume "utab_inv t" "uplain x"
  then show "\<exists>w. Some (ukp_tab_get t x, g) = Some (w, g) \<and> nonnil w = utab_content t (ukey x)"
    using ukp_tab_get_law [of t x] by auto
qed

lemma utab_new_inv: "utab_inv (ukp_tab_new ju)" "utab_free (ukp_tab_new ju) = 2048" "utab_content (ukp_tab_new ju) k = None"
proof -
  have nil: "\<not> uplain (n_key (tnode (ukp_tab_new ju) ! i))" if "i < 1024" for i
    using that by (simp add: ukp_tab_new_def uplain_def is_number_def is_string_def set_nil_def)
  then show "utab_inv (ukp_tab_new ju)" by (simp add: utab_inv_def utab_lo_def) (simp add: ukp_tab_new_def)
  show "utab_free (ukp_tab_new ju) = 2048" by (simp add: utab_free_def ukp_tab_new_def)
  show "utab_content (ukp_tab_new ju) k = None"
    using nil by (auto simp: utab_content_def find_first ukp_tab_new_def uplain_def is_number_def is_string_def ukey_def
        split: Option.bind_split)
qed

definition ustore_all :: "(ktap_val \<times> ktap_val) list \<Rightarrow> ktap_tab \<Rightarrow> ktap_tab option" where
  "ustore_all xs t = foldl (\<lambda>t (k, v). Option.bind t (\<lambda>t. ukp_tab_setvalue t k v)) (Some t) xs"

lemma ustore_all_None: "foldl (\<lambda>t (k, v). Option.bind t (\<lambda>t. ukp_tab_setvalue t k v)) None xs = None"
  by (induction xs) auto

lemma ustore_all_simps [simp]:
  "ustore_all [] t = Some t"
  "ustore_all ((k, v) # xs) t = Option.bind (ukp_tab_setvalue t k v) (ustore_all xs)"
  by (auto simp: ustore_all_def ustore_all_None split: Option.bind_split)

lemma ustore_all_append: "ustore_all (xs @ ys) t = Option.bind (ustore_all xs t) (ustore_all ys)"
  by (induction xs arbitrary: t) (auto split: Option.bind_split)

lemma ustore_put_all: "utab.put_all g t xs = map_option (\<lambda>t. (t, g)) (ustore_all xs t)"
  by (induction xs arbitrary: t) (auto split: Option.bind_split)

text \<open>C30: A constant table of the compiler is a finite map of number and string keys: after any sequence of at most 2048
  stores into a new table, across its growth, a lookup gives the value stored last under the key, and nil under keys
  that were not stored.\<close>

theorem utab_map:
  assumes "\<And>k v. (k, v) \<in> set xs \<Longrightarrow> uplain k" and "length xs \<le> 2048"
  shows "\<exists>t. ustore_all xs (ukp_tab_new ju) = Some t \<and>
     (\<forall>k. uplain k \<longrightarrow> nonnil (ukp_tab_get t k) = fold (\<lambda>(x, w) m. m(ukey x := nonnil w)) xs Map.empty (ukey k))"
proof -
  have new: "utab_content (ukp_tab_new ju) = Map.empty" using utab_new_inv(3) by blast
  obtain t where t: "ustore_all xs (ukp_tab_new ju) = Some t" "utab_inv t"
    "utab_content t = fold (\<lambda>(x, w) m. m(ukey x := nonnil w)) xs Map.empty"
    using utab.put_all_ok [of "ukp_tab_new ju" xs 0] assms utab_new_inv(1,2) [of ju] by (auto simp: ustore_put_all new)
  then show ?thesis by (auto simp: ukp_tab_get_law)
qed

definition unum :: "u64 \<Rightarrow> ktap_val" where "unum n = \<lparr>itype = KTAP_TNUM, vbits = n\<rparr>"

lemma unum_plain [simp]: "uplain (unum n)" "ukey (unum n) = ukey (unum m) \<longleftrightarrow> n = m" "nonnil (unum n) = Some (unum n)"
  by (simp_all add: unum_def uplain_def is_number_def ukey_def nonnil_def is_nil_def)

theorem utab_map_witness:
  "\<exists>t. ustore_all [(unum 7, unum 1), (unum 9, unum 2), (unum 7, unum 3)] (ukp_tab_new (\<lambda>_. zero_node)) = Some t \<and>
       nonnil (ukp_tab_get t (unum 7)) = Some (unum 3) \<and> nonnil (ukp_tab_get t (unum 8)) = None"
proof -
  let ?xs = "[(unum 7, unum 1), (unum 9, unum 2), (unum 7, unum 3)]"
  have "uplain k" if "(k, v) \<in> set ?xs" for k v using that by auto
  then obtain t where t: "ustore_all ?xs (ukp_tab_new (\<lambda>_. zero_node)) = Some t"
    "\<And>k. uplain k \<Longrightarrow> nonnil (ukp_tab_get t k) = fold (\<lambda>(x, w) m. m(ukey x := nonnil w)) ?xs Map.empty (ukey k)"
    using utab_map [of ?xs "\<lambda>_. zero_node"] by fastforce
  show ?thesis using t(1) t(2) [of "unum 7"] t(2) [of "unum 8"] by auto
qed

text \<open>The key of the first store sits in node 1023, and nowhere else, until the nodes are used up.\<close>

definition first_at :: "ktap_val \<Rightarrow> ktap_tab \<Rightarrow> bool" where
  "first_at k t \<longleftrightarrow> utab_inv t \<and> n_key (tnode t ! 1023) = k \<and> (\<forall>i<length (tnode t). i \<noteq> 1023 \<longrightarrow> ukey (n_key (tnode t ! i)) \<noteq> ukey k)"

lemma ufind_None_iff: "utab_inv t \<Longrightarrow> uplain k \<Longrightarrow> ukp_tab_find t k = None \<longleftrightarrow> (\<forall>i<length (tnode t). ukey (n_key (tnode t ! i)) \<noteq> ukey k)"
  by (auto simp: ukp_tab_find_plain find_None_iff)

lemma zero_node_not_plain: "\<not> uplain (n_key zero_node)"
  by (simp add: zero_node_def uplain_def is_number_def is_string_def KTAP_TNUM_def KTAP_TSTR_def)

lemma uplain_ukey: "uplain k \<Longrightarrow> ukey v = ukey k \<Longrightarrow> uplain v"
  by (simp add: uplain_def is_number_def is_string_def ukey_def)

lemma new_key_step:
  assumes inv: "utab_inv t" and key: "uplain key" and absent: "ukp_tab_find t key = None" and free: "0 < utab_free t"
  obtains t' n where "ukp_tab_setvalue t key v = Some t'" "utab_inv t'" "utab_free t = Suc (utab_free t')"
    "n < length (tnode t')" "length (tnode t) \<le> length (tnode t')" "n < length (tnode t) \<Longrightarrow> \<not> uplain (n_key (tnode t ! n))"
    "\<And>i. i < length (tnode t') \<Longrightarrow> n_key (tnode t' ! i) =
        (if i = n then key else if i < length (tnode t) then n_key (tnode t ! i) else n_key zero_node)"
proof -
  obtain t1 n where t1: "ugrow t = Some t1" "utab_inv t1" "freetop t1 = Suc n" "utab_lo t1 \<le> n" "utab_free t1 = utab_free t"
    using ugrow_ok [OF inv free] by metis
  let ?t = "t1\<lparr>tnode := (tnode t1)[n := (tnode t1 ! n)\<lparr>n_key := key, n_val := v\<rparr>], freetop := n\<rparr>"
  have old: "length (tnode t) \<le> length (tnode t1)"
    "tnode t1 ! i = (if i < length (tnode t) then tnode t ! i else zero_node)" if "i < length (tnode t1)" for i
    using t1(1) that by (auto simp: ugrow_def nth_append split: if_splits simp del: replicate.simps)
  have len: "n < length (tnode t1)" and np: "\<not> uplain (n_key (tnode t1 ! n))" using t1(2,3,4) by (auto simp: utab_inv_def)
  have set: "ukp_tab_setvalue t key v = Some ?t" using absent t1(1,3) by (simp add: ukp_tab_setvalue_def)
  show ?thesis
  proof (rule that [OF set])
    show "utab_inv ?t" using t1 by (auto simp: utab_inv_def utab_lo_def)
    show "utab_free t = Suc (utab_free ?t)" using t1 by (auto simp: utab_free_def utab_inv_def utab_lo_def)
    show "n < length (tnode ?t)" "length (tnode t) \<le> length (tnode ?t)" using len old [OF len] by simp_all
    show "\<not> uplain (n_key (tnode t ! n))" if "n < length (tnode t)" using np old [OF len] that by simp
    show "n_key (tnode ?t ! i) = (if i = n then key else if i < length (tnode t) then n_key (tnode t ! i) else n_key zero_node)"
      if "i < length (tnode ?t)" for i
      using that old [of i] len by (auto simp: nth_list_update)
  qed
qed

lemma keep_first:
  assumes "first_at k t" "uplain k" "distinct (map (ukey \<circ> fst) ys)" "length ys \<le> utab_free t"
    and "\<And>x v. (x, v) \<in> set ys \<Longrightarrow> uplain x \<and> ukey x \<noteq> ukey k \<and> ukp_tab_find t x = None"
  shows "\<exists>t'. ustore_all ys t = Some t' \<and> first_at k t' \<and> utab_free t' = utab_free t - length ys \<and>
     (\<forall>z. uplain z \<and> ukp_tab_find t z = None \<and> ukey z \<notin> (ukey \<circ> fst) ` set ys \<longrightarrow> ukp_tab_find t' z = None)"
  using assms
proof (induction ys arbitrary: t)
  case (Cons y ys)
  obtain x v where y: "y = (x, v)" by (cases y)
  have x: "uplain x" "ukey x \<noteq> ukey k" "ukp_tab_find t x = None" using Cons.prems(5) y by auto
  have inv: "utab_inv t" using Cons.prems(1) by (simp add: first_at_def)
  have free: "0 < utab_free t" using Cons.prems(4) by simp
  obtain t1 n where t1: "ukp_tab_setvalue t x v = Some t1" "utab_inv t1" "utab_free t = Suc (utab_free t1)"
    "n < length (tnode t1)" "length (tnode t) \<le> length (tnode t1)" "n < length (tnode t) \<Longrightarrow> \<not> uplain (n_key (tnode t ! n))"
    and keys: "\<And>i. i < length (tnode t1) \<Longrightarrow> n_key (tnode t1 ! i) =
        (if i = n then x else if i < length (tnode t) then n_key (tnode t ! i) else n_key zero_node)"
    using new_key_step [OF inv x(1,3) free] by metis
  have absent: "ukp_tab_find t1 z = None" if "uplain z" "ukp_tab_find t z = None" "ukey z \<noteq> ukey x" for z
    using that inv t1(2) zero_node_not_plain uplain_ukey [OF that(1)]
    by (auto simp: ufind_None_iff keys split: if_splits)
  have "1023 < length (tnode t)" using inv by (auto simp: utab_inv_def)
  then have "n \<noteq> 1023" using t1(6) Cons.prems(1,2) by (auto simp: first_at_def)
  then have fa: "first_at k t1"
    using Cons.prems(1,2) t1(2,4,5) x(2) zero_node_not_plain uplain_ukey [of k "n_key zero_node"] \<open>1023 < length (tnode t)\<close>
    by (auto simp: first_at_def keys)
  have others: "uplain x' \<and> ukey x' \<noteq> ukey k \<and> ukp_tab_find t1 x' = None" if "(x', v') \<in> set ys" for x' v'
  proof -
    have "ukey x' \<noteq> ukey x" using Cons.prems(3) that y by force
    then show ?thesis using Cons.prems(5) [of x' v'] absent [of x'] that by auto
  qed
  have dist: "distinct (map (ukey \<circ> fst) ys)" and len: "length ys \<le> utab_free t1" using Cons.prems(3,4) t1(3) by (simp_all add: comp_def)
  obtain t' where "ustore_all ys t1 = Some t'" "first_at k t'" "utab_free t' = utab_free t1 - length ys"
    "\<And>z. uplain z \<Longrightarrow> ukp_tab_find t1 z = None \<Longrightarrow> ukey z \<notin> (ukey \<circ> fst) ` set ys \<Longrightarrow> ukp_tab_find t' z = None"
    using Cons.IH [OF fa Cons.prems(2) dist len] others by blast
  then show ?case using t1(1,3) absent y by (intro exI [of _ t']) auto
qed auto

lemma last_node_reused:
  assumes "first_at k t" "uplain k" "utab_free t = 0" "uplain x" "ukey x \<noteq> ukey k" "ukp_tab_find t x = None"
  shows "\<exists>t'. ukp_tab_setvalue t x v = Some t' \<and> ukp_tab_get t' k = kp_niltv"
proof -
  have t: "utab_inv t" "length (tnode t) = 2048" "freetop t = 1024" "unat (hmask t) = 2047"
    using assms(1,3) by (auto simp: first_at_def utab_inv_def utab_free_def utab_lo_def split: if_splits)
  let ?t = "t\<lparr>tnode := (tnode t)[1023 := (tnode t ! 1023)\<lparr>n_key := x, n_val := v\<rparr>], freetop := 1023\<rparr>"
  have set: "ukp_tab_setvalue t x v = Some ?t" using assms(6) t by (simp add: ukp_tab_setvalue_def ugrow_def)
  have "\<not> ukey_match k (n_key (tnode ?t ! i))" if "i < 2048" for i
    using assms(1,2,5) that t(2) by (cases "i = 1023") (auto simp: first_at_def ukey_match_plain)
  then have "ukp_tab_find ?t k = None" using t(4) by (auto simp: ukp_tab_find_def find_None_iff simp del: upt_Suc)
  then show ?thesis using set by (simp add: ukp_tab_get_def)
qed

text \<open>C31: The 2049th key destroys the first: the free nodes of a grown table are counted down to the start of the block,
  over the 1024 nodes in use, so that the key stored first is gone afterwards.\<close>

theorem utab_first_key_lost:
  assumes "length xs = 2048" "distinct (map (ukey \<circ> fst) (xs @ [(x, v)]))" "\<And>k w. (k, w) \<in> set xs \<Longrightarrow> uplain k" "uplain x"
  shows "\<exists>t. ustore_all (xs @ [(x, v)]) (ukp_tab_new ju) = Some t \<and> ukp_tab_get t (fst (hd xs)) = kp_niltv"
proof -
  obtain k w ys where xs: "xs = (k, w) # ys" using assms(1) by (cases xs) auto
  let ?t0 = "ukp_tab_new ju"
  have np: "\<not> uplain (n_key (tnode ?t0 ! i))" if "i < 1024" for i
    using that by (simp add: ukp_tab_new_def uplain_def is_number_def is_string_def set_nil_def)
  have len0: "length (tnode ?t0) = 1024" by (simp add: ukp_tab_new_def)
  have none: "ukp_tab_find ?t0 z = None" if "uplain z" for z
    using np utab_new_inv(1) that len0 uplain_ukey [OF that] by (auto simp: ufind_None_iff)
  have k: "uplain k" using assms(3) xs by auto
  let ?t1 = "?t0\<lparr>tnode := (tnode ?t0)[1023 := (tnode ?t0 ! 1023)\<lparr>n_key := k, n_val := w\<rparr>], freetop := 1023\<rparr>"
  have set: "ukp_tab_setvalue ?t0 k w = Some ?t1"
    using none [OF k] by (simp add: ukp_tab_setvalue_def ugrow_def ukp_tab_new_def del: upt_Suc)
  have inv1: "utab_inv ?t1" using utab_new_inv(1) [of ju] by (auto simp: utab_inv_def utab_lo_def ukp_tab_new_def)
  have free1: "utab_free ?t1 = 2047" by (simp add: utab_free_def len0)
  have keys1: "ukey (n_key (tnode ?t1 ! i)) \<noteq> ukey z" if "uplain z" "i < 1024" "i = 1023 \<Longrightarrow> ukey z \<noteq> ukey k" for i z
    using np [of i] uplain_ukey [of z "n_key (tnode ?t0 ! i)"] that len0 by (cases "i = 1023") auto
  have "\<forall>i<1024. i \<noteq> 1023 \<longrightarrow> ukey (n_key (tnode ?t1 ! i)) \<noteq> ukey k" using keys1 [OF k] by blast
  then have fa: "first_at k ?t1" unfolding first_at_def using inv1 len0 by simp
  have ys: "uplain x' \<and> ukey x' \<noteq> ukey k \<and> ukp_tab_find ?t1 x' = None" if "(x', v') \<in> set (ys @ [(x, v)])" for x' v'
  proof -
    have *: "uplain x'" "ukey x' \<noteq> ukey k" using that assms(2,3,4) xs by (auto simp: image_iff)
    then show ?thesis using keys1 [OF *(1)] inv1 len0 by (auto simp: ufind_None_iff)
  qed
  obtain t2 where t2: "ustore_all ys ?t1 = Some t2" "first_at k t2" "utab_free t2 = 0"
    "\<And>z. uplain z \<Longrightarrow> ukp_tab_find ?t1 z = None \<Longrightarrow> ukey z \<notin> (ukey \<circ> fst) ` set ys \<Longrightarrow> ukp_tab_find t2 z = None"
    using keep_first [OF fa k, of ys] ys assms(1,2) xs free1 by fastforce
  have "ukp_tab_find t2 x = None" using t2(4) ys [of x v] assms(2) xs by (auto simp: image_iff)
  then obtain t where "ukp_tab_setvalue t2 x v = Some t" "ukp_tab_get t k = kp_niltv"
    using last_node_reused [OF t2(2) k t2(3)] ys [of x v] by auto
  then show ?thesis using set t2(1) xs by (auto simp: ustore_all_append)
qed

theorem utab_first_key_lost_witness:
  "\<exists>t. ustore_all (map (\<lambda>i. (unum (of_nat i), unum 0)) [0..<2048] @ [(unum 2048, unum 0)]) (ukp_tab_new (\<lambda>_. zero_node)) = Some t \<and>
     ukp_tab_get t (unum 0) = kp_niltv"
proof -
  let ?xs = "map (\<lambda>i. (unum (of_nat i), unum 0)) [0..<2048]"
  have unat64: "unat (of_nat i :: u64) = i" if "i < 2049" for i
    using that by (simp add: unsigned_of_nat take_bit_nat_eq_self)
  have inj: "(of_nat i :: u64) = of_nat j \<longleftrightarrow> i = j" if "i < 2049" "j < 2049" for i j
    using that by (metis unat64 le_less_trans less_imp_le_nat)
  have "distinct (map (\<lambda>i. ukey (unum (of_nat i))) [0..<2049])"
    by (simp add: distinct_map inj_on_def inj del: upt_Suc)
  moreover have "[0..<2049] = [0..<2048] @ [2048]" using upt_Suc_append [of 0 2048] by (simp del: upt_Suc)
  ultimately have "distinct (map (ukey \<circ> fst) (?xs @ [(unum 2048, unum 0)]))" by (simp add: comp_def del: upt_Suc)
  moreover have "hd ?xs = (unum 0, unum 0)" using hd_map [of "[0..<2048]" "\<lambda>i. (unum (of_nat i), unum 0)"] by (simp del: upt_Suc add: hd_upt)
  moreover have "uplain k" if "(k, w) \<in> set ?xs" for k w using that by auto
  ultimately show ?thesis
    using utab_first_key_lost [of ?xs "unum 2048" "unum 0" "\<lambda>_. zero_node"] by (simp del: upt_Suc)
qed

section \<open>Glob patterns match their language\<close>

datatype glob_item = Star | Quest | Lit u8

fun glob_items :: "u8 list \<Rightarrow> glob_item list option" where
  "glob_items [] = Some []"
| "glob_items [p] = (if p = 92 then None else Some [if p = 42 then Star else if p = 63 then Quest else Lit p])"
| "glob_items (p # q # ps) =
     (if p = 92 then map_option (Cons (Lit q)) (glob_items ps)
      else map_option (Cons (if p = 42 then Star else if p = 63 then Quest else Lit p)) (glob_items (q # ps)))"

inductive glob_matches :: "glob_item list \<Rightarrow> u8 list \<Rightarrow> bool" where
  empty: "glob_matches [] []"
| quest: "glob_matches ps s \<Longrightarrow> glob_matches (Quest # ps) (c # s)"
| lit: "glob_matches ps s \<Longrightarrow> glob_matches (Lit c # ps) (c # s)"
| star: "glob_matches ps s \<Longrightarrow> glob_matches (Star # ps) (u @ s)"

inductive_simps glob_matches_simps [simp]:
  "glob_matches [] s" "glob_matches (Quest # ps) s" "glob_matches (Lit c # ps) s" "glob_matches (Star # ps) s"

definition glob_lang :: "u8 list \<Rightarrow> u8 list \<Rightarrow> bool" where
  "glob_lang pat s \<longleftrightarrow> (\<exists>items. glob_items pat = Some items \<and> glob_matches items s)"

lemma glob_items_Cons:
  "p \<noteq> 92 \<Longrightarrow> glob_items (p # ps) = map_option (Cons (if p = 42 then Star else if p = 63 then Quest else Lit p)) (glob_items ps)"
  by (cases ps) auto

lemma glob_lang_simps:
  "glob_lang [] s \<longleftrightarrow> s = []"
  "glob_lang (42 # ps) s \<longleftrightarrow> (\<exists>u v. s = u @ v \<and> glob_lang ps v)"
  "glob_lang (63 # ps) s \<longleftrightarrow> (\<exists>c t. s = c # t \<and> glob_lang ps t)"
  "glob_lang (92 # ps) s \<longleftrightarrow> (\<exists>q qs t. ps = q # qs \<and> s = q # t \<and> glob_lang qs t)"
  "p \<noteq> 42 \<Longrightarrow> p \<noteq> 63 \<Longrightarrow> p \<noteq> 92 \<Longrightarrow> glob_lang (p # ps) s \<longleftrightarrow> (\<exists>t. s = p # t \<and> glob_lang ps t)"
  by (auto simp: glob_lang_def glob_items_Cons) (cases ps; auto)+

lemma glob_lang_stars: "glob_lang (42 # dropWhile (\<lambda>x. x = 42) ps) s = glob_lang (42 # ps) s"
proof (induction ps arbitrary: s)
  case (Cons p ps)
  have "glob_lang (42 # 42 # ps) s \<longleftrightarrow> glob_lang (42 # ps) s"
    unfolding glob_lang_simps by (metis append.assoc append_Nil)
  then show ?case using Cons.IH by simp
qed simp

lemma glob_lang_Nil: "glob_lang (dropWhile (\<lambda>x. x = 42) ps) [] \<longleftrightarrow> dropWhile (\<lambda>x. x = 42) ps = []"
proof (cases "dropWhile (\<lambda>x. x = 42) ps")
  case (Cons p qs)
  then have "p \<noteq> 42" using hd_dropWhile [of "\<lambda>x. x = 42" ps] by simp
  then show ?thesis using Cons by (cases "p = 63"; cases "p = 92") (auto simp: glob_lang_simps)
qed (simp only: glob_lang_simps)

lemma glob_tails_eq:
  "(\<And>s. m s = Some (P s)) \<Longrightarrow> glob_tails m str = Some (\<exists>u v. str = u @ v \<and> v \<noteq> [] \<and> P v)"
proof (induction str)
  case (Cons c str)
  have "(\<exists>u v. c # str = u @ v \<and> v \<noteq> [] \<and> P v) \<longleftrightarrow> P (c # str) \<or> (\<exists>u v. str = u @ v \<and> v \<noteq> [] \<and> P v)"
    by (auto simp: Cons_eq_append_conv)
  then show ?case using Cons by (auto split: bool.splits)
qed simp

lemma match_glob_lang: "91 \<notin> set pat \<Longrightarrow> match_glob False str pat = Some (glob_lang pat str)"
proof (induction "False" str pat rule: match_glob.induct)
  case (1 str)
  then show ?case by (simp add: match_glob.simps glob_lang_simps)
next
  case (2 p ps)
  have "glob_lang (p # ps) [] \<longleftrightarrow> p = 42 \<and> dropWhile (\<lambda>x. x = 42) ps = []"
    using glob_lang_Nil [of ps] glob_lang_stars [of ps "[]"] by (cases "p = 42"; cases "p = 63"; cases "p = 92") (auto simp: glob_lang_simps)
  then show ?case by (simp add: match_glob.simps)
next
  case (3 c s p ps)
  show ?case
  proof (cases "p = 42")
    case True
    let ?qs = "dropWhile (\<lambda>x. x = 42) ps"
    have "91 \<notin> set ?qs" using "3.prems" by (auto dest: set_dropWhileD)
    then have IH: "?qs \<noteq> [] \<Longrightarrow> match_glob False s' ?qs = Some (glob_lang ?qs s')" for s' using 3(1) True by blast
    have "glob_lang (p # ps) (c # s) \<longleftrightarrow> (\<exists>u v. c # s = u @ v \<and> glob_lang ?qs v)"
      using glob_lang_stars [of ps] True by (simp add: glob_lang_simps)
    moreover have "glob_lang ?qs v \<Longrightarrow> ?qs \<noteq> [] \<Longrightarrow> v \<noteq> []" for v using glob_lang_Nil [of ps] by auto
    ultimately show ?thesis using glob_tails_eq [of "\<lambda>s'. match_glob False s' ?qs" "glob_lang ?qs" "c # s"] IH True
      by (cases "?qs = []") (auto simp: match_glob.simps glob_lang_simps simp del: glob_tails.simps)
  next
    case False
    note IH = "3.hyps"(4-)
    show ?thesis
    proof (cases "p = 92")
      case True
      then show ?thesis using IH(3) "3.prems"
        by (cases ps) (simp_all add: match_glob.simps(3) [of _ _ _ 92] glob_lang_simps(4))
    next
      case lit: False
      then show ?thesis using IH(1,4) "3.prems" False
        by (cases "p = 63") (simp_all add: match_glob.simps(3) glob_lang_simps)
    qed
  qed
qed

text \<open>C32: Matching of probe names: for patterns without a character class \<^verbatim>\<open>strglobmatch\<close> ends and decides the language of
  the pattern, where a star stands for any characters, a question mark for one and a backslash takes away the meaning
  of the next; a pattern that ends in a backslash matches nothing.\<close>

theorem strglobmatch_language:
  assumes "91 \<notin> set pat"
  shows "strglobmatch str pat = Some (glob_lang pat str)"
  using match_glob_lang [OF assms] by (simp add: strglobmatch_def)

theorem strglobmatch_language_witness:
  "strglobmatch [115, 121, 115, 95, 111] [115, 42, 95, 63] = Some True \<and> glob_lang [115, 42, 95, 63] [115, 121, 115, 95, 111]"
proof -
  have "strglobmatch [115, 121, 115, 95, 111] [115, 42, 95, 63] = Some True" by code_simp
  then show ?thesis using strglobmatch_language [of "[115, 42, 95, 63]" "[115, 121, 115, 95, 111]"] by simp
qed

text \<open>A pattern that ends within a character class before its first character, as in \<^verbatim>\<open>a[\<close> or \<^verbatim>\<open>a[!\<close>, makes the matcher
  read behind the pattern's end, whatever literal characters come before and follow in the string.\<close>

theorem strglobmatch_open_class:
  assumes "\<And>c. c \<in> set lit \<Longrightarrow> c \<notin> {42, 63, 91, 92}"
  shows "strglobmatch (lit @ c # str) (lit @ [91]) = None \<and> strglobmatch (lit @ c # str) (lit @ [91, 33]) = None"
proof -
  have "match_glob False (lit @ s) (lit @ pat) = match_glob False s pat" if "\<And>c. c \<in> set lit \<Longrightarrow> c \<notin> {42, 63, 91, 92}" for lit s pat
    using that by (induction lit) (auto simp: match_glob.simps)
  from this [OF assms] show ?thesis by (simp add: strglobmatch_def match_glob.simps match_charclass_def)
qed

theorem strglobmatch_open_class_witness:
  "strglobmatch [97, 98] [97, 91] = None"
  using strglobmatch_open_class [of "[97]" 98 "[]"] by simp

end
