(* ===== verification/Ktap_Lex.thy ===== *)
theory Ktap_Lex
  imports Ktap_Util_Correct
begin

text \<open>
  The lexer of the compiler (\<^verbatim>\<open>userspace/kp_lex.c\<close>, \<^verbatim>\<open>kp_lex.h\<close>) and the error report it ends in (\<^verbatim>\<open>kp_err_lex\<close> of
  \<^verbatim>\<open>kp_util.c\<close>).

  The state has the current character and the characters behind it in one list, which is empty at the end of
  the input, and the contents of the token buffer, and strings are given by their bytes: buffers hold what is put into
  them and interning makes equal strings one object (theory \<open>Ktap_Util_Correct\<close>).  An error ends the program: its value is \<open>Inl\<close>, with the message, or
  \<open>LexFault\<close> where reporting it leaves a buffer or follows a wild pointer.
\<close>

section \<open>Tokens\<close>

abbreviation (input) TK_OFS :: int where "TK_OFS \<equiv> 256"

definition bytes :: "string \<Rightarrow> u8 list" where "bytes s = map of_char s"

definition tokennames :: "u8 list list" where
  "tokennames = map bytes
    [''trace'', ''trace_end'', ''argstr'', ''probename'', ''ffi'',
     ''arg0'', ''arg1'', ''arg2'', ''arg3'', ''arg4'', ''arg5'', ''arg6'', ''arg7'',
     ''arg8'', ''arg9'', ''profile'', ''tick'',
     ''pid'', ''tid'', ''uid'', ''cpu'', ''execname'', ''+='',
     ''&&'', ''break'', ''do'', ''else'', ''elseif'', ''end'', ''false'',
     ''for'', ''function'', ''goto'', ''if'', ''in'', ''var'', ''nil'',
     ''!'', ''||'',
     ''repeat'', ''return'', ''then'', ''true'', ''until'', ''while'',
     ''..'', ''...'', ''=='', ''>='', ''<='',
     ''!='', ''::'', ''<number>'', ''<name>'',
     ''<string>'', ''<eof>'']"

abbreviation (input) TK_incr :: int where "TK_incr \<equiv> 279"
abbreviation (input) TK_and :: int where "TK_and \<equiv> 280"
abbreviation (input) TK_not :: int where "TK_not \<equiv> 294"
abbreviation (input) TK_or :: int where "TK_or \<equiv> 295"
abbreviation (input) TK_while :: int where "TK_while \<equiv> 301"
abbreviation (input) TK_concat :: int where "TK_concat \<equiv> 302"
abbreviation (input) TK_dots :: int where "TK_dots \<equiv> 303"
abbreviation (input) TK_eq :: int where "TK_eq \<equiv> 304"
abbreviation (input) TK_ge :: int where "TK_ge \<equiv> 305"
abbreviation (input) TK_le :: int where "TK_le \<equiv> 306"
abbreviation (input) TK_ne :: int where "TK_ne \<equiv> 307"
abbreviation (input) TK_label :: int where "TK_label \<equiv> 308"
abbreviation (input) TK_number :: int where "TK_number \<equiv> 309"
abbreviation (input) TK_name :: int where "TK_name \<equiv> 310"
abbreviation (input) TK_string :: int where "TK_string \<equiv> 311"
abbreviation (input) TK_eof :: int where "TK_eof \<equiv> 312"
abbreviation (input) TK_RESERVED :: nat where "TK_RESERVED \<equiv> 45"

text \<open>The field \<^verbatim>\<open>reserved\<close> of an interned string, as \<^verbatim>\<open>kp_lex_init\<close> sets it: 0 for strings that are not reserved words.\<close>

fun position :: "'a \<Rightarrow> 'a list \<Rightarrow> nat option" where
  "position x [] = None"
| "position x (y # ys) = (if x = y then Some 0 else map_option Suc (position x ys))"

definition kp_lex_init :: "u8 list \<Rightarrow> nat" where
  "kp_lex_init s = (case position s (take TK_RESERVED tokennames) of Some i \<Rightarrow> i + 1 | None \<Rightarrow> 0)"

datatype tokval = TvNone | TvNum u64 | TvStr "u8 list"


section \<open>State and errors\<close>

record lex_state =
  ls_in :: "u8 list"
  ls_sb :: "u8 list"
  ls_line :: nat
  ls_lastline :: nat
  ls_tok :: int
  ls_tokval :: tokval
  ls_lookahead :: int
  ls_lookval :: tokval
  ls_chunkname :: "u8 list"

datatype err_msg = XLINES | XNUMBER | XLSTR | XLCOM | XSTR | XESC | XLDELIM | XTOKEN

datatype lex_stop = LexError "u8 list" | LexFault

type_synonym 'a lex = "lex_stop + 'a"

definition lbind :: "'a lex \<Rightarrow> ('a \<Rightarrow> 'b lex) \<Rightarrow> 'b lex" where
  "lbind m k = (case m of Inl e \<Rightarrow> Inl e | Inr x \<Rightarrow> k x)"

lemma lbind_simps [simp]: "lbind (Inl e) k = Inl e" "lbind (Inr x) k = k x"
  by (simp_all add: lbind_def)

lemma lbind_cong [fundef_cong]: "m = m' \<Longrightarrow> (\<And>x. m' = Inr x \<Longrightarrow> k x = k' x) \<Longrightarrow> lbind m k = lbind m' k'"
  by (auto simp: lbind_def split: sum.splits)

lemma lbind_Inr_iff: "lbind m k = Inr y \<longleftrightarrow> (\<exists>x. m = Inr x \<and> k x = Inr y)"
  by (auto simp: lbind_def split: sum.splits)

text \<open>Decimal digits, as \<^verbatim>\<open>%d\<close> prints them.\<close>

fun dec_digits :: "nat \<Rightarrow> u8 list" where
  "dec_digits n = (if n < 10 then [48 + of_nat n] else dec_digits (n div 10) @ [48 + of_nat (n mod 10)])"

declare dec_digits.simps [simp del]

text \<open>
  Messages are put together in blocks of 128 bytes, with the terminating zero; \<open>None\<close>: \<^verbatim>\<open>vsprintf\<close> writes behind the block.
\<close>

definition kp_sprintf :: "u8 list \<Rightarrow> u8 list option" where
  "kp_sprintf s = (if length s < 128 then Some s else None)"

fun err2msg :: "err_msg \<Rightarrow> u8 list" where
  "err2msg XLINES = bytes ''chunk has too many lines''"
| "err2msg XNUMBER = bytes ''malformed number''"
| "err2msg XLSTR = bytes ''unfinished long string''"
| "err2msg XLCOM = bytes ''unfinished long comment''"
| "err2msg XSTR = bytes ''unfinished string''"
| "err2msg XESC = bytes ''invalid escape sequence''"
| "err2msg XLDELIM = bytes ''invalid long string delimiter''"
| "err2msg XTOKEN = bytes ''expected''"

definition kp_err_lex :: "u8 list \<Rightarrow> u8 list option \<Rightarrow> nat \<Rightarrow> u8 list \<Rightarrow> lex_stop" where
  "kp_err_lex src tok line text =
     (case do {
        msg \<leftarrow> kp_sprintf text;
        msg \<leftarrow> kp_sprintf (src @ [58] @ dec_digits line @ [58, 32] @ msg);
        msg \<leftarrow> (case tok of Some t \<Rightarrow> kp_sprintf (msg @ bytes '' near '' @ [39] @ t @ [39]) | None \<Rightarrow> Some msg);
        Some (bytes ''syntax error: '' @ msg @ [10])
      } of None \<Rightarrow> LexFault | Some s \<Rightarrow> LexError s)"

definition kp_lex_token2str :: "int \<Rightarrow> u8 list" where
  "kp_lex_token2str tok =
     (if tok > TK_OFS then tokennames ! nat (tok - TK_OFS - 1)
      else if \<not> kp_char_iscntrl tok then [word_of_int tok]
      else bytes ''char('' @ dec_digits (nat tok) @ [41])"

text \<open>The report of an error with its text, with all arguments filled in; the token is a C string: it ends before a zero byte of the buffer.\<close>

definition lex_report :: "lex_state \<Rightarrow> int \<Rightarrow> u8 list \<Rightarrow> lex_stop" where
  "lex_report ls tok text =
     (let tokstr = (if tok = 0 then None
                    else if tok = TK_name \<or> tok = TK_string \<or> tok = TK_number then Some (takeWhile (\<lambda>c. c \<noteq> 0) (ls_sb ls))
                    else Some (kp_lex_token2str tok)) in
      kp_err_lex (ls_chunkname ls) tokstr (ls_line ls) text)"

definition kp_lex_error :: "lex_state \<Rightarrow> int \<Rightarrow> err_msg \<Rightarrow> 'a lex" where
  "kp_lex_error ls tok em = Inl (lex_report ls tok (err2msg em))"


section \<open>Characters\<close>

definition lex_c :: "lex_state \<Rightarrow> int" where
  "lex_c ls = (case ls_in ls of [] \<Rightarrow> -1 | c # _ \<Rightarrow> uint c)"

definition lex_next :: "lex_state \<Rightarrow> lex_state" where
  "lex_next ls = ls\<lparr>ls_in := tl (ls_in ls)\<rparr>"

definition lex_save :: "lex_state \<Rightarrow> int \<Rightarrow> lex_state" where
  "lex_save ls c = ls\<lparr>ls_sb := ls_sb ls @ [word_of_int c]\<rparr>"

definition lex_savenext :: "lex_state \<Rightarrow> lex_state" where
  "lex_savenext ls = lex_next (lex_save ls (lex_c ls))"

abbreviation lex_iseol :: "lex_state \<Rightarrow> bool" where
  "lex_iseol ls \<equiv> lex_c ls = 10 \<or> lex_c ls = 13"

abbreviation lex_reset :: "lex_state \<Rightarrow> lex_state" where
  "lex_reset ls \<equiv> ls\<lparr>ls_sb := []\<rparr>"

text \<open>The loops over a class of characters, saving or dropping them.\<close>

definition save_while :: "(u8 \<Rightarrow> bool) \<Rightarrow> lex_state \<Rightarrow> lex_state" where
  "save_while P ls = ls\<lparr>ls_in := dropWhile P (ls_in ls), ls_sb := ls_sb ls @ takeWhile P (ls_in ls)\<rparr>"

definition skip_while :: "(u8 \<Rightarrow> bool) \<Rightarrow> lex_state \<Rightarrow> lex_state" where
  "skip_while P ls = ls\<lparr>ls_in := dropWhile P (ls_in ls)\<rparr>"

definition KP_MAX_LINE :: nat where "KP_MAX_LINE = 1000"

definition lex_newline :: "lex_state \<Rightarrow> lex_state lex" where
  "lex_newline ls =
     (let old = lex_c ls;
          ls = lex_next ls;
          ls = (if lex_iseol ls \<and> lex_c ls \<noteq> old then lex_next ls else ls);
          ls = ls\<lparr>ls_line := ls_line ls + 1\<rparr> in
      if ls_line ls \<ge> KP_MAX_LINE then kp_lex_error ls (ls_tok ls) XLINES else Inr ls)"


section \<open>Numbers\<close>

text \<open>
  \<^verbatim>\<open>strtoul\<close> with base 0: white space, a sign, then hexadecimal digits behind \<^verbatim>\<open>0x\<close>, octal digits behind \<^verbatim>\<open>0\<close>, decimal digits
  otherwise; the largest value when it does not fit.  The result has the rest of the string, \<open>None\<close> when there are no digits.
\<close>

definition digit_val :: "u8 \<Rightarrow> int" where
  "digit_val c =
     (if 48 \<le> c \<and> c \<le> 57 then uint c - 48
      else if 97 \<le> c \<and> c \<le> 122 then uint c - 87
      else if 65 \<le> c \<and> c \<le> 90 then uint c - 55
      else 99)"

definition digits_value :: "int \<Rightarrow> u8 list \<Rightarrow> int" where
  "digits_value base ds = foldl (\<lambda>n c. n * base + digit_val c) 0 ds"

definition strtoul_base :: "int \<Rightarrow> u8 list \<Rightarrow> (u64 \<times> u8 list) option" where
  "strtoul_base base s =
     (let ds = takeWhile (\<lambda>c. digit_val c < base) s; n = digits_value base ds in
      if ds = [] then None
      else Some (if n < 2 ^ 64 then word_of_int n else - 1, dropWhile (\<lambda>c. digit_val c < base) s))"

definition strtoul_digits :: "u8 list \<Rightarrow> (u64 \<times> u8 list) option" where
  "strtoul_digits s =
     (case s of
        a # b # c # r \<Rightarrow>
          if a = 48 \<and> (b = 120 \<or> b = 88) \<and> digit_val c < 16 then strtoul_base 16 (c # r)
          else if a = 48 then strtoul_base 8 s else strtoul_base 10 s
      | a # r \<Rightarrow> if a = 48 then strtoul_base 8 s else strtoul_base 10 s
      | [] \<Rightarrow> None)"

definition strtoul0 :: "u8 list \<Rightarrow> (u64 \<times> u8 list) option" where
  "strtoul0 s =
     (case dropWhile c_isspace s of
        [] \<Rightarrow> None
      | c # r \<Rightarrow>
          if c = 43 then strtoul_digits r
          else if c = 45 then map_option (\<lambda>(n, r'). (- n, r')) (strtoul_digits r)
          else strtoul_digits (c # r))"

text \<open>\<open>s\<close> is the string before its terminating zero; \<open>None\<close>: the result 0.\<close>

definition kp_str2d :: "u8 list \<Rightarrow> u64 option" where
  "kp_str2d s =
     (if 110 \<in> set s \<or> 78 \<in> set s then None
      else case strtoul0 s of
             None \<Rightarrow> None
           | Some (n, endptr) \<Rightarrow> if dropWhile (\<lambda>c. kp_char_isspace (uint c)) endptr = [] then Some n else None)"

fun number_loop :: "u8 \<Rightarrow> u8 \<Rightarrow> u8 list \<Rightarrow> u8 list \<times> u8 list" where
  "number_loop xp c [] = ([], [])"
| "number_loop xp c (x # s) =
     (if kp_char_isident (uint x) \<or> x = 46 \<or> (x = 45 \<or> x = 43) \<and> c OR 0x20 = xp
      then (case number_loop xp x s of (d, r) \<Rightarrow> (x # d, r))
      else ([], x # s))"

definition lex_number :: "lex_state \<Rightarrow> (u64 \<times> lex_state) lex" where
  "lex_number ls =
     (let c = word_of_int (lex_c ls);
          ls1 = (if lex_c ls = 48 then lex_savenext ls else ls);
          xp = (if lex_c ls = 48 \<and> (lex_c ls1 = 120 \<or> lex_c ls1 = 88) then 112 else 101);
          (d, r) = number_loop xp c (ls_in ls1);
          ls2 = ls1\<lparr>ls_in := r, ls_sb := ls_sb ls1 @ d\<rparr>;
          ls3 = lex_save ls2 0 in
      case kp_str2d (ls_sb ls2) of
        None \<Rightarrow> kp_lex_error ls3 (ls_tok ls3) XNUMBER
      | Some n \<Rightarrow> Inr (n, ls3))"


section \<open>Strings\<close>

definition lex_skipeq :: "lex_state \<Rightarrow> int \<times> lex_state" where
  "lex_skipeq ls =
     (let s = lex_c ls;
          ls1 = lex_savenext ls;
          count = int (length (takeWhile (\<lambda>c. c = 61) (ls_in ls1)));
          ls2 = save_while (\<lambda>c. c = 61) ls1 in
      (if lex_c ls2 = s then count else - count - 1, ls2))"

lemma ls_in_simps [simp]:
  "ls_in (lex_next ls) = tl (ls_in ls)" "ls_in (lex_save ls c) = ls_in ls" "ls_in (lex_savenext ls) = tl (ls_in ls)"
  "ls_in (save_while P ls) = dropWhile P (ls_in ls)" "ls_in (skip_while P ls) = dropWhile P (ls_in ls)"
  by (simp_all add: lex_next_def lex_save_def lex_savenext_def save_while_def skip_while_def)

lemma lex_c_Nil: "ls_in ls = [] \<longleftrightarrow> lex_c ls = -1"
proof (cases "ls_in ls")
  case (Cons c r)
  have "0 \<le> uint c" by (rule uint_ge_0)
  then have "uint c \<noteq> -1" by linarith
  then show ?thesis using Cons by (simp add: lex_c_def)
qed (simp add: lex_c_def)

lemma lex_newline_shorter: "lex_newline ls = Inr ls' \<Longrightarrow> length (ls_in ls') \<le> length (ls_in ls) - 1"
  by (auto simp: lex_newline_def kp_lex_error_def Let_def split: if_splits)

lemma lex_skipeq_shorter: "lex_skipeq ls = (k, ls') \<Longrightarrow> length (ls_in ls') \<le> length (ls_in ls) - 1"
  using length_dropWhile_le [of "\<lambda>c. c = 61" "tl (ls_in ls)"] by (auto simp: lex_skipeq_def Let_def)

lemma ls_in_pos: "lex_c ls = k \<Longrightarrow> 0 \<le> k \<Longrightarrow> 0 < length (ls_in ls)"
  using lex_c_Nil [of ls] by auto

function longstring_loop :: "bool \<Rightarrow> int \<Rightarrow> lex_state \<Rightarrow> lex_state lex" where
  "longstring_loop tv sep ls =
     (if ls_in ls = [] then kp_lex_error ls TK_eof (if tv then XLSTR else XLCOM)
      else if lex_c ls = 93 then
        (case lex_skipeq ls of (n, ls1) \<Rightarrow>
           if n = sep then Inr (lex_savenext ls1) else longstring_loop tv sep ls1)
      else if lex_iseol ls then
        lbind (lex_newline (lex_save ls 10)) (\<lambda>ls1. longstring_loop tv sep (if tv then ls1 else lex_reset ls1))
      else longstring_loop tv sep (lex_savenext ls))"
  by pat_completeness auto
termination
proof (relation "measure (\<lambda>(_, _, ls). length (ls_in ls))", goal_cases)
  case (2 tv sep ls n ls1)
  then show ?case using lex_skipeq_shorter [of ls n ls1] by (cases "ls_in ls") auto
next
  case (3 tv sep ls ls1)
  then show ?case using lex_newline_shorter [of "lex_save ls 10" ls1] by (cases "ls_in ls") auto
qed (auto simp: neq_Nil_conv)

declare longstring_loop.simps [simp del]

definition lex_longstring :: "lex_state \<Rightarrow> bool \<Rightarrow> int \<Rightarrow> (u8 list \<times> lex_state) lex" where
  "lex_longstring ls tv sep =
     (let ls = lex_savenext ls in
      lbind (if lex_iseol ls then lex_newline ls else Inr ls) (\<lambda>ls.
      lbind (longstring_loop tv sep ls) (\<lambda>ls.
        let n = nat (2 + sep) in
        Inr (take (length (ls_sb ls) - 2 * n) (drop n (ls_sb ls)), ls))))"

text \<open>The escape sequences of strings, from the character behind the backslash.\<close>

function skip_space :: "lex_state \<Rightarrow> lex_state lex" where
  "skip_space ls =
     (if kp_char_isspace (lex_c ls) then
        (if lex_iseol ls then lbind (lex_newline ls) skip_space else skip_space (lex_next ls))
      else Inr ls)"
  by pat_completeness auto
termination
proof (relation "measure (\<lambda>ls. length (ls_in ls))", goal_cases)
  case (2 ls ls1)
  then have "0 < length (ls_in ls)" using ls_in_pos [of ls 10] ls_in_pos [of ls 13] by auto
  then show ?case using 2 lex_newline_shorter [of ls ls1] by (cases "ls_in ls") auto
next
  case (3 ls)
  then have "lex_c ls \<noteq> -1" by (auto simp: kp_char_isa_def kp_char_bits_def)
  then show ?case using lex_c_Nil [of ls] by auto
qed simp

declare skip_space.simps [simp del]

definition hex_nibble :: "int \<Rightarrow> int" where
  "hex_nibble c = c AND 15 + (if kp_char_isdigit c then 0 else 9)"

definition lex_hex_escape :: "lex_state \<Rightarrow> lex_state lex" where
  "lex_hex_escape ls =
     (let ls1 = lex_next ls; ls2 = lex_next ls1 in
      if \<not> kp_char_isdigit (lex_c ls1) \<and> \<not> kp_char_isxdigit (lex_c ls1) then kp_lex_error ls1 TK_string XESC
      else if \<not> kp_char_isdigit (lex_c ls2) \<and> \<not> kp_char_isxdigit (lex_c ls2) then kp_lex_error ls2 TK_string XESC
      else Inr (lex_next (lex_save ls2 (hex_nibble (lex_c ls1) * 16 + hex_nibble (lex_c ls2)))))"

definition lex_dec_escape :: "lex_state \<Rightarrow> lex_state lex" where
  "lex_dec_escape ls =
     (let c = lex_c ls - 48; ls1 = lex_next ls in
      if kp_char_isdigit (lex_c ls1) then
        (let c = c * 10 + (lex_c ls1 - 48); ls2 = lex_next ls1 in
         if kp_char_isdigit (lex_c ls2) then
           (let c = c * 10 + (lex_c ls2 - 48) in
            if c > 255 then kp_lex_error ls2 TK_string XESC else Inr (lex_save (lex_next ls2) c))
         else Inr (lex_save ls2 c))
      else Inr (lex_save ls1 c))"

definition lex_escape :: "lex_state \<Rightarrow> lex_state lex" where
  "lex_escape ls =
     (let c = lex_c ls; put = \<lambda>c. Inr (lex_next (lex_save ls c)) in
      if c = 97 then put 7
      else if c = 98 then put 8
      else if c = 102 then put 12
      else if c = 110 then put 10
      else if c = 114 then put 13
      else if c = 116 then put 9
      else if c = 118 then put 11
      else if c = 120 then lex_hex_escape ls
      else if c = 122 then skip_space (lex_next ls)
      else if c = 10 \<or> c = 13 then lex_newline (lex_save ls 10)
      else if c = 92 \<or> c = 34 \<or> c = 39 then put c
      else if c = -1 then Inr ls
      else if \<not> kp_char_isdigit c then kp_lex_error ls TK_string XESC
      else lex_dec_escape ls)"

lemma skip_space_shorter: "skip_space ls = Inr ls' \<Longrightarrow> length (ls_in ls') \<le> length (ls_in ls)"
proof (induction ls rule: skip_space.induct)
  case (1 ls)
  show ?case
  proof (cases "kp_char_isspace (lex_c ls)")
    case True
    show ?thesis
    proof (cases "lex_iseol ls")
      case eol: True
      with 1(3) True obtain ls1 where "lex_newline ls = Inr ls1" "skip_space ls1 = Inr ls'"
        by (subst (asm) skip_space.simps) (auto simp: lbind_Inr_iff)
      then show ?thesis using 1(1) [OF True eol, of ls1] lex_newline_shorter [of ls ls1] by simp
    next
      case False
      then show ?thesis using 1(2) [OF True False] 1(3) True
        by (subst (asm) (2) skip_space.simps) simp
    qed
  qed (use 1(3) in \<open>simp add: skip_space.simps [of ls]\<close>)
qed

lemma lex_escape_shorter: "lex_escape ls = Inr ls' \<Longrightarrow> length (ls_in ls') \<le> length (ls_in ls)"
  by (auto simp: lex_escape_def lex_hex_escape_def lex_dec_escape_def kp_lex_error_def Let_def split: if_splits
      dest!: skip_space_shorter lex_newline_shorter)

function string_loop :: "int \<Rightarrow> lex_state \<Rightarrow> lex_state lex" where
  "string_loop delim ls =
     (if lex_c ls = delim then Inr ls
      else if ls_in ls = [] then kp_lex_error ls TK_eof XSTR
      else if lex_iseol ls then kp_lex_error ls TK_string XSTR
      else if lex_c ls = 92 then lbind (lex_escape (lex_next ls)) (string_loop delim)
      else string_loop delim (lex_savenext ls))"
  by pat_completeness auto
termination
proof (relation "measure (\<lambda>(_, ls). length (ls_in ls))", goal_cases)
  case (2 delim ls ls1)
  then show ?case using lex_escape_shorter [of "lex_next ls" ls1] by (cases "ls_in ls") auto
qed (auto simp: neq_Nil_conv)

declare string_loop.simps [simp del]

definition lex_string :: "lex_state \<Rightarrow> (u8 list \<times> lex_state) lex" where
  "lex_string ls =
     lbind (string_loop (lex_c ls) (lex_savenext ls)) (\<lambda>ls.
       let ls = lex_savenext ls in Inr (take (length (ls_sb ls) - 2) (drop 1 (ls_sb ls)), ls))"

text \<open>
  The text of a probe up to a character.  At the end of the input the message is put together with the character in
  place of a string, which \<^verbatim>\<open>vsprintf\<close> follows as a pointer.
\<close>

definition kp_lex_read_string_until :: "lex_state \<Rightarrow> u8 \<Rightarrow> lex_state lex" where
  "kp_lex_read_string_until ls c =
     (let ls = lex_savenext (skip_while (\<lambda>x. x = 32) (lex_reset ls));
          ls = save_while (\<lambda>x. x \<noteq> c) ls in
      if ls_in ls = [] then Inl LexFault
      else Inr (ls\<lparr>ls_tok := TK_string, ls_tokval := TvStr (ls_sb ls)\<rparr>))"

section \<open>The scanner\<close>

lemma longstring_loop_shorter: "longstring_loop tv sep ls = Inr ls' \<Longrightarrow> length (ls_in ls') \<le> length (ls_in ls)"
proof (induction tv sep ls rule: longstring_loop.induct)
  case (1 tv sep ls)
  show ?case
  proof (cases "ls_in ls = []")
    case True
    then show ?thesis using 1(4) by (simp add: longstring_loop.simps [of tv sep ls] kp_lex_error_def Let_def)
  next
    case False
    consider "lex_c ls = 93" | "lex_c ls \<noteq> 93" "lex_iseol ls" | "lex_c ls \<noteq> 93" "\<not> lex_iseol ls" by blast
    then show ?thesis
    proof cases
      case 1
      obtain n ls1 where ls1: "lex_skipeq ls = (n, ls1)" by (cases "lex_skipeq ls")
      then show ?thesis using False 1 "1.IH"(1) [OF False 1 ls1 [symmetric]] "1.prems" lex_skipeq_shorter [OF ls1]
        by (auto simp: longstring_loop.simps [of tv sep ls] split: if_splits)
    next
      case 2
      then obtain ls1 where ls1: "lex_newline (lex_save ls 10) = Inr ls1"
        "longstring_loop tv sep (if tv then ls1 else lex_reset ls1) = Inr ls'"
        using False "1.prems" by (auto simp: longstring_loop.simps [of tv sep ls] lbind_Inr_iff)
      then show ?thesis using "1.IH"(2) [OF False 2, of ls1] lex_newline_shorter [OF ls1(1)] by (auto split: if_splits)
    next
      case 3
      then show ?thesis using "1.IH"(3) [OF False 3] "1.prems" False by (auto simp: longstring_loop.simps [of tv sep ls])
    qed
  qed
qed

lemma lex_longstring_shorter: "lex_longstring ls tv sep = Inr (s, ls') \<Longrightarrow> length (ls_in ls') \<le> length (ls_in ls)"
  by (fastforce simp: lex_longstring_def Let_def lbind_Inr_iff split: if_splits dest!: longstring_loop_shorter lex_newline_shorter)

text \<open>A character that may be followed by another one.\<close>

definition lex_pair :: "lex_state \<Rightarrow> int \<Rightarrow> int \<Rightarrow> int \<Rightarrow> int \<times> lex_state" where
  "lex_pair ls second single double =
     (let ls = lex_next ls in if lex_c ls \<noteq> second then (single, ls) else (double, lex_next ls))"

text \<open>The identifier or reserved word at the current character.\<close>

definition lex_ident :: "lex_state \<Rightarrow> int \<times> tokval \<times> lex_state" where
  "lex_ident ls =
     (let ls = save_while (\<lambda>c. kp_char_isident (uint c)) (lex_savenext ls);
          r = kp_lex_init (ls_sb ls) in
      (if r > 0 then TK_OFS + int r else TK_name, TvStr (ls_sb ls), ls))"

definition not_eol :: "u8 \<Rightarrow> bool" where "not_eol c \<longleftrightarrow> c \<noteq> 10 \<and> c \<noteq> 13"

text \<open>The token that starts with a character that is not part of a name, not white space and no comment.\<close>

definition lex_symbol :: "lex_state \<Rightarrow> tokval \<Rightarrow> (int \<times> tokval \<times> lex_state) lex" where
  "lex_symbol ls tv =
     (let c = lex_c ls; ret = \<lambda>(tok, ls). Inr (tok, tv, ls) in
      if c = 91 then
        (case lex_skipeq ls of (sep, ls) \<Rightarrow>
           if sep \<ge> 0 then lbind (lex_longstring ls True sep) (\<lambda>(s, ls). Inr (TK_string, TvStr s, ls))
           else if sep = -1 then Inr (91, tv, ls)
           else kp_lex_error ls TK_string XLDELIM)
      else if c = 43 then ret (lex_pair ls 61 43 TK_incr)
      else if c = 61 then ret (lex_pair ls 61 61 TK_eq)
      else if c = 60 then ret (lex_pair ls 61 60 TK_le)
      else if c = 62 then ret (lex_pair ls 61 62 TK_ge)
      else if c = 33 then ret (lex_pair ls 61 TK_not TK_ne)
      else if c = 58 then ret (lex_pair ls 58 58 TK_label)
      else if c = 34 \<or> c = 39 then lbind (lex_string ls) (\<lambda>(s, ls). Inr (TK_string, TvStr s, ls))
      else if c = 46 then
        (let ls = lex_savenext ls in
         if lex_c ls = 46 then ret (lex_pair ls 46 TK_concat TK_dots)
         else if \<not> kp_char_isdigit (lex_c ls) then Inr (46, tv, ls)
         else lbind (lex_number ls) (\<lambda>(n, ls). Inr (TK_number, TvNum n, ls)))
      else if c = -1 then Inr (TK_eof, tv, ls)
      else if c = 38 then ret (lex_pair ls 38 38 TK_and)
      else if c = 124 then ret (lex_pair ls 124 124 TK_or)
      else Inr (c, tv, lex_next ls))"

text \<open>A minus sign: whether it starts a comment, which is skipped, and the state behind the sign or the comment.\<close>

definition lex_minus :: "lex_state \<Rightarrow> (bool \<times> lex_state) lex" where
  "lex_minus ls =
     (let ls = lex_next ls in
      if lex_c ls \<noteq> 45 then Inr (False, ls)
      else let ls = lex_next ls in
        if lex_c ls = 91 then
          (case lex_skipeq ls of (sep, ls) \<Rightarrow>
             if sep \<ge> 0 then lbind (lex_longstring (lex_reset ls) False sep) (\<lambda>(s, ls). Inr (True, lex_reset ls))
             else Inr (True, skip_while not_eol (lex_reset ls)))
        else Inr (True, skip_while not_eol ls))"

lemma dropWhile_shorter: "length xs \<le> n \<Longrightarrow> length (dropWhile P xs) \<le> n"
  using length_dropWhile_le [of P xs] by linarith

lemma lex_minus_shorter: "lex_minus ls = Inr (b, ls') \<Longrightarrow> length (ls_in ls') \<le> length (ls_in ls) - 1"
  by (auto simp: lex_minus_def Let_def lbind_Inr_iff split: if_splits prod.splits
      dest!: lex_longstring_shorter lex_skipeq_shorter intro!: dropWhile_shorter)

lemma skip_comment_shorter: "lex_c ls = 35 \<Longrightarrow> length (ls_in (skip_while not_eol ls)) < length (ls_in ls)"
  using dropWhile_shorter [of "tl (ls_in ls)"] by (cases "ls_in ls") (auto simp: lex_c_def not_eol_def le_imp_less_Suc)

function scan_loop :: "lex_state \<Rightarrow> tokval \<Rightarrow> (int \<times> tokval \<times> lex_state) lex" where
  "scan_loop ls tv =
     (if kp_char_isident (lex_c ls) then
        (if kp_char_isdigit (lex_c ls) then lbind (lex_number ls) (\<lambda>(n, ls). Inr (TK_number, TvNum n, ls)) else Inr (lex_ident ls))
      else if lex_iseol ls then lbind (lex_newline ls) (\<lambda>ls. scan_loop ls tv)
      else if lex_c ls = 32 \<or> lex_c ls = 9 \<or> lex_c ls = 11 \<or> lex_c ls = 12 then scan_loop (lex_next ls) tv
      else if lex_c ls = 35 then scan_loop (skip_while not_eol ls) tv
      else if lex_c ls = 45 then
        lbind (lex_minus ls) (\<lambda>(comment, ls). if comment then scan_loop ls tv else Inr (45, tv, ls))
      else lex_symbol ls tv)"
  by pat_completeness auto
termination
proof (relation "measure (\<lambda>(ls, _). length (ls_in ls))", goal_cases)
  case (2 ls tv ls1)
  then show ?case using lex_newline_shorter [of ls ls1] ls_in_pos [OF refl, of ls] by (cases "ls_in ls") auto
next
  case (3 ls tv)
  then show ?case using ls_in_pos [OF refl, of ls] by auto
next
  case (4 ls tv)
  then show ?case using skip_comment_shorter [of ls] by simp
next
  case (5 ls tv r b ls1)
  then show ?case using lex_minus_shorter [of ls b ls1] ls_in_pos [OF refl, of ls] by (cases "ls_in ls") auto
qed simp

declare scan_loop.simps [simp del]

definition lex_scan :: "lex_state \<Rightarrow> tokval \<Rightarrow> (int \<times> tokval \<times> lex_state) lex" where
  "lex_scan ls tv = scan_loop (lex_reset ls) tv"


section \<open>The interface to the parser\<close>

definition kp_lex_setup :: "lex_state \<Rightarrow> u8 list \<Rightarrow> lex_state lex" where
  "kp_lex_setup ls str =
     (let str = takeWhile (\<lambda>c. c \<noteq> 0) str;
          str = (if take 3 str = [0xef, 0xbb, 0xbf] then drop 3 str else str);
          ls = ls\<lparr>ls_in := str, ls_lookahead := TK_eof, ls_line := 1, ls_lastline := 1\<rparr> in
      if lex_c ls = 35 then
        (let ls = skip_while not_eol (lex_next ls) in
         if ls_in ls = [] then Inr ls else lex_newline ls)
      else Inr ls)"

definition kp_lex_next :: "lex_state \<Rightarrow> lex_state lex" where
  "kp_lex_next ls =
     (let ls = ls\<lparr>ls_lastline := ls_line ls\<rparr> in
      if ls_lookahead ls = TK_eof then
        lbind (lex_scan ls (ls_tokval ls)) (\<lambda>(tok, tv, ls). Inr (ls\<lparr>ls_tok := tok, ls_tokval := tv\<rparr>))
      else Inr (ls\<lparr>ls_tok := ls_lookahead ls, ls_lookahead := TK_eof, ls_tokval := ls_lookval ls\<rparr>))"

definition kp_lex_lookahead :: "lex_state \<Rightarrow> (int \<times> lex_state) lex" where
  "kp_lex_lookahead ls =
     lbind (lex_scan ls (ls_lookval ls)) (\<lambda>(tok, tv, ls). Inr (tok, ls\<lparr>ls_lookahead := tok, ls_lookval := tv\<rparr>))"

end
