(* ===== verification/Ktap_Lex_Correct.thy ===== *)
theory Ktap_Lex_Correct
  imports Ktap_Lex
begin

text \<open>
  Properties of the lexer: every call makes progress, changes nothing but the input, the buffer and the line, and keeps
  the line below its limit; printed token sequences are scanned back; what happens when errors are reported.
\<close>

section \<open>Every call makes progress\<close>

lemmas lex_defs = lex_c_def lex_next_def lex_save_def lex_savenext_def save_while_def skip_while_def

lemma kp_lex_error_Inl [simp]: "kp_lex_error ls tok em \<noteq> Inr x"
  by (simp add: kp_lex_error_def Let_def)

lemma number_loop_append: "number_loop xp c s = (d, r) \<Longrightarrow> s = d @ r"
  by (induction xp c s arbitrary: d rule: number_loop.induct) (auto split: if_splits prod.splits)

lemma number_loop_digit: "kp_char_isident (uint x) \<Longrightarrow> number_loop xp c (x # s) = (d, r) \<Longrightarrow> length r \<le> length s"
  by (auto split: prod.splits dest!: number_loop_append)

lemma lex_number_shorter:
  assumes "lex_number ls = Inr (n, ls')" "kp_char_isident (lex_c ls)" "ls_in ls \<noteq> []"
  shows "length (ls_in ls') < length (ls_in ls)"
proof -
  obtain x s where x: "ls_in ls = x # s" using assms(3) by (cases "ls_in ls") auto
  show ?thesis
  proof (cases "lex_c ls = 48")
    case True
    then show ?thesis using assms x
      by (auto simp: lex_number_def Let_def split: prod.splits option.splits dest!: number_loop_append)
  next
    case False
    then show ?thesis using assms x number_loop_digit [of x]
      by (fastforce simp: lex_number_def Let_def lex_c_def split: prod.splits option.splits)
  qed
qed

lemma lex_number_le: "lex_number ls = Inr (n, ls') \<Longrightarrow> length (ls_in ls') \<le> length (ls_in ls)"
  by (cases "ls_in ls") (auto simp: lex_number_def Let_def split: prod.splits option.splits if_splits dest!: number_loop_append)

lemma lex_pair_shorter: "lex_pair ls k a b = (tok, ls') \<Longrightarrow> length (ls_in ls') \<le> length (ls_in ls) - 1 \<and> (tok = a \<or> tok = b)"
  by (auto simp: lex_pair_def Let_def split: if_splits)

lemma string_loop_shorter: "string_loop d ls = Inr ls' \<Longrightarrow> length (ls_in ls') \<le> length (ls_in ls)"
proof (induction d ls rule: string_loop.induct)
  case (1 d ls)
  show ?case
  proof (cases "lex_c ls = d \<or> ls_in ls = [] \<or> lex_iseol ls")
    case True
    then show ?thesis using "1.prems" by (subst (asm) string_loop.simps) (auto split: if_splits)
  next
    case False
    show ?thesis
    proof (cases "lex_c ls = 92")
      case True
      then obtain ls1 where "lex_escape (lex_next ls) = Inr ls1" "string_loop d ls1 = Inr ls'"
        using False "1.prems" by (auto simp: string_loop.simps [of d ls] lbind_Inr_iff)
      then show ?thesis using "1.IH"(1) [of ls1] False True lex_escape_shorter [of "lex_next ls" ls1] by auto
    next
      case c: False
      then show ?thesis using "1.IH"(2) False "1.prems" by (auto simp: string_loop.simps [of d ls])
    qed
  qed
qed

lemma lex_c_bounds: "-1 \<le> lex_c ls" "lex_c ls \<le> 255"
proof -
  show "-1 \<le> lex_c ls" by (cases "ls_in ls") (auto simp: lex_c_def intro: order_trans [OF _ uint_ge_0])
  show "lex_c ls \<le> 255"
  proof (cases "ls_in ls")
    case (Cons c r)
    have "uint c < 2 ^ 8" using uint_lt2p [of c] by simp
    then show ?thesis using Cons by (simp add: lex_c_def)
  qed (simp add: lex_c_def)
qed

lemmas lex_c_isa = kp_char_isa_eq [OF lex_c_bounds]

lemma position_bound: "position x ys = Some i \<Longrightarrow> i < length ys"
  by (induction ys arbitrary: i) (auto split: if_splits)

lemma kp_lex_init_bound: "kp_lex_init s \<le> 45"
  using position_bound [of s "take 45 tokennames"] by (auto simp: kp_lex_init_def split: option.splits)

definition progress :: "lex_state \<Rightarrow> int \<times> tokval \<times> lex_state \<Rightarrow> bool" where
  "progress ls = (\<lambda>(tok, tv, ls'). if tok = TK_eof then ls_in ls' = [] else length (ls_in ls') < length (ls_in ls))"

lemma progress_mono: "progress ls1 r \<Longrightarrow> length (ls_in ls1) \<le> length (ls_in ls) \<Longrightarrow> progress ls r"
  by (auto simp: progress_def split: if_splits)

lemma lex_ident_progress: "ls_in ls \<noteq> [] \<Longrightarrow> progress ls (lex_ident ls)"
  using kp_lex_init_bound [of "ls_sb (save_while (\<lambda>c. kp_char_isident (uint c)) (lex_savenext ls))"]
    length_dropWhile_le [of "\<lambda>c. kp_char_isident (uint c)" "tl (ls_in ls)"]
  by (cases "ls_in ls") (auto simp: lex_ident_def Let_def progress_def)

lemma lex_string_shorter: "lex_string ls = Inr (s, ls') \<Longrightarrow> ls_in ls \<noteq> [] \<Longrightarrow> length (ls_in ls') < length (ls_in ls)"
  by (cases "ls_in ls") (auto simp: lex_string_def Let_def lbind_Inr_iff dest!: string_loop_shorter)

lemma lex_symbol_progress:
  assumes "lex_symbol ls tv = Inr r"
  shows "progress ls r"
proof (cases "ls_in ls")
  case Nil
  then have "lex_c ls = -1" by (simp add: lex_c_def)
  then show ?thesis using assms Nil by (auto simp: lex_symbol_def progress_def)
next
  case (Cons c s)
  have ne: "lex_c ls \<noteq> -1" using lex_c_Nil [of ls] Cons by simp
  have up: "lex_c ls \<le> 255" by (rule lex_c_bounds)
  have len: "length (ls_in ls) = Suc (length s)" "tl (ls_in ls) = s" using Cons by simp_all
  have pair: "progress ls (a, tv, ls')" if "lex_pair ls k x y = (a, ls')" "x \<noteq> TK_eof" "y \<noteq> TK_eof" for a ls' k x y
    using lex_pair_shorter [OF that(1)] that len by (auto simp: progress_def)
  consider "lex_c ls = 91" | "lex_c ls = 34 \<or> lex_c ls = 39" | "lex_c ls = 46" | "lex_c ls \<notin> {91, 34, 39, 46}" by blast
  then show ?thesis
  proof cases
    case 1
    obtain sep ls1 where ls1: "lex_skipeq ls = (sep, ls1)" by (cases "lex_skipeq ls")
    then show ?thesis using assms 1 len lex_skipeq_shorter [OF ls1]
      by (auto simp: lex_symbol_def progress_def lbind_Inr_iff split: if_splits dest!: lex_longstring_shorter)
  next
    case 2
    then show ?thesis using assms Cons
      by (auto simp: lex_symbol_def progress_def lbind_Inr_iff dest!: lex_string_shorter)
  next
    case 3
    then show ?thesis using assms len
      by (auto simp: lex_symbol_def progress_def lbind_Inr_iff Let_def split: if_splits prod.splits
          dest!: lex_pair_shorter lex_number_le)
  next
    case 4
    then show ?thesis using assms ne up len
      by (auto simp: lex_symbol_def Let_def progress_def lex_pair_def split: if_splits)
  qed
qed
lemma scan_loop_progress: "scan_loop ls tv = Inr r \<Longrightarrow> progress ls r"
proof (induction ls tv rule: scan_loop.induct)
  case (1 ls tv)
  note IH = "1.IH" and eq = "1.prems" [unfolded scan_loop.simps [of ls tv]]
  show ?case
  proof (cases "kp_char_isident (lex_c ls)")
    case True
    then have "ls_in ls \<noteq> []" using lex_c_Nil [of ls] by (auto simp: lex_c_isa)
    then show ?thesis using eq True lex_ident_progress [of ls] lex_number_shorter [of ls]
      by (auto simp: lbind_Inr_iff progress_def split: if_splits prod.splits)
  next
    case id: False
    consider "lex_iseol ls" | "\<not> lex_iseol ls" "lex_c ls = 32 \<or> lex_c ls = 9 \<or> lex_c ls = 11 \<or> lex_c ls = 12"
      | "lex_c ls = 35" | "lex_c ls = 45" | "lex_c ls \<notin> {10, 13, 32, 9, 11, 12, 35, 45}" by blast
    then show ?thesis
    proof cases
      case 1
      then obtain ls1 where "lex_newline ls = Inr ls1" "scan_loop ls1 tv = Inr r"
        using eq id by (auto simp: lbind_Inr_iff)
      then show ?thesis using IH(1) [OF id 1, of ls1] lex_newline_shorter [of ls ls1] by (auto intro: progress_mono)
    next
      case 2
      then show ?thesis using IH(2) [OF id 2] eq id by (auto intro: progress_mono)
    next
      case 3
      then show ?thesis using IH(3) eq id skip_comment_shorter [OF 3] by (auto intro: progress_mono)
    next
      case 4
      then obtain b ls1 where ls1: "lex_minus ls = Inr (b, ls1)" using eq id by (auto simp: lbind_Inr_iff)
      have "ls_in ls \<noteq> []" using 4 lex_c_Nil [of ls] by auto
      with 4 ls1 show ?thesis using IH(4) [OF id, of "(b, ls1)" b ls1] eq id lex_minus_shorter [OF ls1]
        by (cases "ls_in ls") (auto simp: progress_def split: if_splits)
    next
      case 5
      then show ?thesis using eq id by (auto dest: lex_symbol_progress)
    qed
  qed
qed

text \<open>\<open>n\<close> calls of \<^verbatim>\<open>kp_lex_next\<close>.\<close>

primrec lex_steps :: "nat \<Rightarrow> lex_state \<Rightarrow> lex_state lex" where
  "lex_steps 0 ls = Inr ls"
| "lex_steps (Suc n) ls = lbind (kp_lex_next ls) (lex_steps n)"

text \<open>Scanning changes the input, the buffer and the line only; the line never goes down and stays below its limit.\<close>

definition lex_keeps :: "lex_state \<Rightarrow> lex_state \<Rightarrow> bool" where
  "lex_keeps ls ls' \<longleftrightarrow> ls' = ls\<lparr>ls_in := ls_in ls', ls_sb := ls_sb ls', ls_line := ls_line ls'\<rparr> \<and> ls_line ls \<le> ls_line ls' \<and>
     (ls_line ls < KP_MAX_LINE \<longrightarrow> ls_line ls' < KP_MAX_LINE)"

lemma lex_keeps_refl [simp]: "lex_keeps ls ls"
  by (simp add: lex_keeps_def)

lemma lex_keeps_trans [trans]: "lex_keeps a b \<Longrightarrow> lex_keeps b c \<Longrightarrow> lex_keeps a c"
  by (cases a; cases b; cases c) (auto simp: lex_keeps_def)

lemma lex_keeps_simps [simp]:
  "lex_keeps (ls\<lparr>ls_in := i\<rparr>) ls' \<longleftrightarrow> lex_keeps ls ls'" "lex_keeps (ls\<lparr>ls_sb := b\<rparr>) ls' \<longleftrightarrow> lex_keeps ls ls'"
  "lex_keeps ls (ls'\<lparr>ls_in := i\<rparr>) \<longleftrightarrow> lex_keeps ls ls'" "lex_keeps ls (ls'\<lparr>ls_sb := b\<rparr>) \<longleftrightarrow> lex_keeps ls ls'"
  by (cases ls; cases ls'; simp add: lex_keeps_def)+

lemma lex_keeps_basic [simp]:
  "lex_keeps (lex_next ls) ls' \<longleftrightarrow> lex_keeps ls ls'" "lex_keeps (lex_save ls c) ls' \<longleftrightarrow> lex_keeps ls ls'"
  "lex_keeps (lex_savenext ls) ls' \<longleftrightarrow> lex_keeps ls ls'" "lex_keeps (skip_while P ls) ls' \<longleftrightarrow> lex_keeps ls ls'"
  "lex_keeps ls (lex_next ls') \<longleftrightarrow> lex_keeps ls ls'" "lex_keeps ls (lex_save ls' c) \<longleftrightarrow> lex_keeps ls ls'"
  "lex_keeps ls (lex_savenext ls') \<longleftrightarrow> lex_keeps ls ls'" "lex_keeps ls (skip_while P ls') \<longleftrightarrow> lex_keeps ls ls'"
  "lex_keeps ls (save_while P ls') \<longleftrightarrow> lex_keeps ls ls'"
  by (simp_all add: lex_next_def lex_save_def lex_savenext_def save_while_def skip_while_def)

lemma lex_newline_keeps: "lex_newline ls = Inr ls' \<Longrightarrow> lex_keeps ls ls'"
  by (cases ls) (auto simp: lex_newline_def Let_def lex_next_def lex_keeps_def split: if_splits)

lemma lex_skipeq_keeps: "lex_skipeq ls = (n, ls') \<Longrightarrow> lex_keeps ls ls'"
  by (auto simp: lex_skipeq_def Let_def)

lemma lex_number_keeps: "lex_number ls = Inr (n, ls') \<Longrightarrow> lex_keeps ls ls'"
  by (auto simp: lex_number_def Let_def split: prod.splits option.splits if_splits)

lemma skip_space_keeps: "skip_space ls = Inr ls' \<Longrightarrow> lex_keeps ls ls'"
proof (induction ls rule: skip_space.induct)
  case (1 ls)
  show ?case
  proof (cases "kp_char_isspace (lex_c ls)")
    case True
    show ?thesis
    proof (cases "lex_iseol ls")
      case eol: True
      then obtain x where "lex_newline ls = Inr x" "skip_space x = Inr ls'"
        using "1.prems" True by (auto simp: skip_space.simps [of ls] lbind_Inr_iff)
      then show ?thesis using "1.IH"(1) [OF True eol] lex_newline_keeps lex_keeps_trans by blast
    next
      case False
      then show ?thesis using "1.IH"(2) [OF True False] "1.prems" True by (simp add: skip_space.simps [of ls])
    qed
  qed (use "1.prems" in \<open>simp add: skip_space.simps [of ls]\<close>)
qed

lemma lex_escape_keeps: "lex_escape ls = Inr ls' \<Longrightarrow> lex_keeps ls ls'"
  by (auto simp: lex_escape_def lex_hex_escape_def lex_dec_escape_def Let_def split: if_splits
      dest!: skip_space_keeps lex_newline_keeps)

lemma string_loop_keeps: "string_loop d ls = Inr ls' \<Longrightarrow> lex_keeps ls ls'"
proof (induction d ls rule: string_loop.induct)
  case (1 d ls)
  note eq = "1.prems" [unfolded string_loop.simps [of d ls]]
  show ?case
  proof (cases "lex_c ls = d \<or> ls_in ls = [] \<or> lex_iseol ls")
    case False
    show ?thesis
    proof (cases "lex_c ls = 92")
      case True
      then obtain x where x: "lex_escape (lex_next ls) = Inr x" "string_loop d x = Inr ls'"
        using eq False by (auto simp: lbind_Inr_iff)
      then show ?thesis using "1.IH"(1) [of x] False True lex_escape_keeps [OF x(1)] lex_keeps_trans [of ls x] by simp
    next
      case c: False
      then show ?thesis using "1.IH"(2) eq False by auto
    qed
  qed (use eq in \<open>auto split: if_splits\<close>)
qed

lemma longstring_loop_keeps: "longstring_loop tv sep ls = Inr ls' \<Longrightarrow> lex_keeps ls ls'"
proof (induction tv sep ls rule: longstring_loop.induct)
  case (1 tv sep ls)
  obtain n ls1 where sk: "lex_skipeq ls = (n, ls1)" by (cases "lex_skipeq ls")
  have k1: "lex_keeps ls ls1" by (rule lex_skipeq_keeps [OF sk])
  note eq = "1.prems" [unfolded longstring_loop.simps [of tv sep ls] sk split_conv]
  show ?case
  proof (cases "ls_in ls = []")
    case False
    consider "lex_c ls = 93" | "lex_c ls \<noteq> 93" "lex_iseol ls" | "lex_c ls \<noteq> 93" "\<not> lex_iseol ls" by blast
    then show ?thesis
    proof cases
      case 1
      then show ?thesis using eq False k1 "1.IH"(1) [OF False 1 sk [symmetric]] lex_keeps_trans [OF k1]
        by (auto split: if_splits)
    next
      case 2
      then obtain ls2 where ls2: "lex_newline (lex_save ls 10) = Inr ls2"
        "longstring_loop tv sep (if tv then ls2 else lex_reset ls2) = Inr ls'"
        using eq False by (auto simp: lbind_Inr_iff)
      have "lex_keeps ls ls2" using lex_newline_keeps [OF ls2(1)] by simp
      moreover have "lex_keeps ls2 ls'" using "1.IH"(2) [OF False 2 ls2] by (auto split: if_splits)
      ultimately show ?thesis by (rule lex_keeps_trans)
    next
      case 3
      then show ?thesis using eq False "1.IH"(3) [OF False 3] by auto
    qed
  qed (use eq in simp)
qed

lemma lex_longstring_keeps: "lex_longstring ls tv sep = Inr (s, ls') \<Longrightarrow> lex_keeps ls ls'"
  by (auto simp: lex_longstring_def Let_def lbind_Inr_iff split: if_splits
      dest!: longstring_loop_keeps lex_newline_keeps intro: lex_keeps_trans)

lemma lex_string_keeps: "lex_string ls = Inr (s, ls') \<Longrightarrow> lex_keeps ls ls'"
  by (auto simp: lex_string_def Let_def lbind_Inr_iff dest!: string_loop_keeps intro: lex_keeps_trans)

lemma lex_minus_keeps: "lex_minus ls = Inr (b, ls') \<Longrightarrow> lex_keeps ls ls'"
  by (auto simp: lex_minus_def Let_def lbind_Inr_iff split: if_splits prod.splits
      dest!: lex_longstring_keeps lex_skipeq_keeps intro: lex_keeps_trans)

lemma lex_pair_keeps: "lex_pair ls k a b = (tok, ls') \<Longrightarrow> lex_keeps ls ls'"
  by (auto simp: lex_pair_def Let_def split: if_splits)

lemma lex_symbol_keeps: "lex_symbol ls tv = Inr (tok, tv', ls') \<Longrightarrow> lex_keeps ls ls'"
  by (auto simp: lex_symbol_def Let_def lbind_Inr_iff split: if_splits prod.splits
      dest!: lex_longstring_keeps lex_skipeq_keeps lex_string_keeps lex_number_keeps lex_pair_keeps intro: lex_keeps_trans)

lemma lex_ident_keeps: "lex_ident ls = (tok, tv', ls') \<Longrightarrow> lex_keeps ls ls'"
  by (auto simp: lex_ident_def Let_def)

lemma scan_loop_keeps: "scan_loop ls tv = Inr (tok, tv', ls') \<Longrightarrow> lex_keeps ls ls'"
proof (induction ls tv rule: scan_loop.induct)
  case (1 ls tv)
  note IH = "1.IH" and eq = "1.prems" [unfolded scan_loop.simps [of ls tv]]
  show ?case
  proof (cases "kp_char_isident (lex_c ls)")
    case True
    then show ?thesis using eq by (auto simp: lbind_Inr_iff split: if_splits dest: lex_ident_keeps lex_number_keeps)
  next
    case id: False
    consider "lex_iseol ls" | "\<not> lex_iseol ls" "lex_c ls = 32 \<or> lex_c ls = 9 \<or> lex_c ls = 11 \<or> lex_c ls = 12"
      | "lex_c ls = 35" | "lex_c ls = 45" | "lex_c ls \<notin> {10, 13, 32, 9, 11, 12, 35, 45}" by blast
    then show ?thesis
    proof cases
      case 1
      then obtain ls1 where "lex_newline ls = Inr ls1" "scan_loop ls1 tv = Inr (tok, tv', ls')"
        using eq id by (auto simp: lbind_Inr_iff)
      then show ?thesis using IH(1) [OF id 1, of ls1] lex_newline_keeps lex_keeps_trans by blast
    next
      case 2
      then show ?thesis using IH(2) [OF id 2] eq id by auto
    next
      case 3
      then show ?thesis using IH(3) eq id by auto
    next
      case 4
      then obtain b ls1 where ls1: "lex_minus ls = Inr (b, ls1)" using eq id by (auto simp: lbind_Inr_iff)
      then show ?thesis using 4 IH(4) [OF id, of "(b, ls1)" b ls1] eq id lex_minus_keeps [OF ls1] lex_keeps_trans [of ls ls1]
        by (auto split: if_splits)
    next
      case 5
      then show ?thesis using eq id by (auto dest: lex_symbol_keeps)
    qed
  qed
qed

lemma kp_lex_next_plain:
  assumes "ls_lookahead ls = TK_eof" "kp_lex_next ls = Inr ls'"
  obtains "ls_lookahead ls' = TK_eof" "ls_lastline ls' = ls_line ls" "ls_line ls \<le> ls_line ls'"
    "ls_line ls < KP_MAX_LINE \<longrightarrow> ls_line ls' < KP_MAX_LINE"
    "if ls_tok ls' = TK_eof then ls_in ls' = [] else length (ls_in ls') < length (ls_in ls)"
proof -
  obtain tok tv ls1 where ls1: "scan_loop (lex_reset (ls\<lparr>ls_lastline := ls_line ls\<rparr>)) (ls_tokval ls) = Inr (tok, tv, ls1)"
    "ls' = ls1\<lparr>ls_tok := tok, ls_tokval := tv\<rparr>"
    using assms by (auto simp: kp_lex_next_def lex_scan_def lbind_Inr_iff)
  show ?thesis
    by (rule that) (use ls1(2) scan_loop_keeps [OF ls1(1)] scan_loop_progress [OF ls1(1)] assms(1) in
      \<open>cases ls1; auto simp: lex_keeps_def progress_def split: if_splits\<close>)+
qed

text \<open>C33: The lexer ends on every text: after at most as many tokens as the text has characters, plus one, the token is
  \<^verbatim>\<open>TK_eof\<close>, with nothing left to read, or the lexer has stopped with an error.\<close>

theorem lexing_ends:
  assumes "ls_lookahead ls = TK_eof"
  shows "\<exists>n\<le>Suc (length (ls_in ls)). case lex_steps n ls of Inl e \<Rightarrow> True | Inr ls' \<Rightarrow> 0 < n \<and> ls_tok ls' = TK_eof \<and> ls_in ls' = []"
  using assms
proof (induction "length (ls_in ls)" arbitrary: ls rule: less_induct)
  case less
  show ?case
  proof (cases "kp_lex_next ls")
    case (Inl e)
    then show ?thesis by (intro exI [of _ 1]) simp
  next
    case (Inr ls1)
    note next1 = kp_lex_next_plain [OF less.prems Inr]
    show ?thesis
    proof (cases "ls_tok ls1 = TK_eof")
      case True
      then have "ls_in ls1 = []" using next1 by auto
      then show ?thesis using Inr True by (intro exI [of _ 1]) simp
    next
      case False
      then have "length (ls_in ls1) < length (ls_in ls)" "ls_lookahead ls1 = TK_eof" using next1 by auto
      then obtain n where n: "n \<le> Suc (length (ls_in ls1))"
        "case lex_steps n ls1 of Inl e \<Rightarrow> True | Inr ls' \<Rightarrow> 0 < n \<and> ls_tok ls' = TK_eof \<and> ls_in ls' = []"
        using less.hyps by blast
      then show ?thesis using Inr \<open>length (ls_in ls1) < length (ls_in ls)\<close>
        by (intro exI [of _ "Suc n"]) (auto split: sum.splits)
    qed
  qed
qed

text \<open>Line numbers: whatever is scanned, the line of a token is at least that of the token before and below
  \<^verbatim>\<open>KP_MAX_LINE\<close>.\<close>

theorem lex_lines_bounded:
  assumes "ls_lookahead ls = TK_eof" "ls_line ls < KP_MAX_LINE" "lex_steps n ls = Inr ls'"
  shows "ls_line ls \<le> ls_line ls' \<and> ls_line ls' < KP_MAX_LINE \<and> (0 < n \<longrightarrow> ls_lastline ls' \<le> ls_line ls')"
  using assms
proof (induction n arbitrary: ls)
  case (Suc n)
  obtain ls1 where ls1: "kp_lex_next ls = Inr ls1" "lex_steps n ls1 = Inr ls'"
    using Suc.prems(3) by (auto simp: lbind_Inr_iff)
  from kp_lex_next_plain [OF Suc.prems(1) ls1(1)] have
    k: "ls_lookahead ls1 = TK_eof" "ls_lastline ls1 = ls_line ls" "ls_line ls \<le> ls_line ls1" "ls_line ls1 < KP_MAX_LINE"
    using Suc.prems(2) by blast+
  have IH: "ls_line ls1 \<le> ls_line ls' \<and> ls_line ls' < KP_MAX_LINE \<and> (0 < n \<longrightarrow> ls_lastline ls' \<le> ls_line ls')"
    using Suc.IH [OF k(1,4) ls1(2)] .
  show ?case
  proof (cases n)
    case 0
    then show ?thesis using ls1(2) k by simp
  next
    case (Suc m)
    then show ?thesis using IH k by simp
  qed
qed simp

section \<open>Printed tokens are scanned back\<close>

lemma u8_bounds: "-1 \<le> uint (c :: u8)" "uint (c :: u8) \<le> 255"
proof -
  have "uint c < 2 ^ 8" using uint_lt2p [of c] by simp
  then show "uint c \<le> 255" by simp
  show "-1 \<le> uint c" using uint_ge_0 [of c] by linarith
qed

lemmas byte_isa = kp_char_isa_eq [OF u8_bounds]

lemma upd_order [simp]: "ls\<lparr>ls_sb := b, ls_in := i\<rparr> = ls\<lparr>ls_in := i, ls_sb := b\<rparr>"
  by (cases ls) simp

subsection \<open>Numbers\<close>

definition is_digit :: "u8 \<Rightarrow> bool" where "is_digit c \<longleftrightarrow> 48 \<le> uint c \<and> uint c \<le> 57"

lemma dec_digit: "k < 10 \<Longrightarrow> uint (48 + of_nat k :: u8) = 48 + int k"
proof -
  assume k: "k < 10"
  then have "uint (of_nat k :: u8) = int k" by (simp add: unsigned_of_nat take_bit_nat_eq_self)
  then show ?thesis using k by (simp add: uint_word_ariths)
qed

lemma dec_digits_all: "c \<in> set (dec_digits n) \<Longrightarrow> is_digit c"
proof (induction n rule: dec_digits.induct)
  case (1 n)
  have "is_digit (48 + of_nat (n mod 10))" "n < 10 \<Longrightarrow> is_digit (48 + of_nat n)"
    using dec_digit [of "n mod 10"] dec_digit [of n] by (simp_all add: is_digit_def)
  then show ?case using 1 by (subst (asm) (2) dec_digits.simps) (auto split: if_splits)
qed

lemma dec_digits_hd: "0 < n \<Longrightarrow> \<exists>c ds. dec_digits n = c # ds \<and> c \<noteq> 48"
proof (induction n rule: dec_digits.induct)
  case (1 n)
  show ?case
  proof (cases "n < 10")
    case True
    then have "(48 + of_nat n :: u8) \<noteq> 48" using dec_digit [of n] 1(2) by auto
    then show ?thesis using True by (subst dec_digits.simps) simp
  next
    case False
    then obtain c ds where "dec_digits (n div 10) = c # ds" "c \<noteq> 48" using 1(1) by (auto simp: div_greater_zero_iff)
    then show ?thesis using False by (subst dec_digits.simps) simp
  qed
qed

lemma digit_val_digit: "is_digit c \<Longrightarrow> digit_val c = uint c - 48"
  by (simp add: is_digit_def digit_val_def word_le_def)

lemma digit_val_less: "is_digit c \<Longrightarrow> digit_val c < 10"
  using digit_val_digit [of c] by (simp add: is_digit_def)

lemma dec_digits_Cons: "\<exists>c ds. dec_digits n = c # ds"
  by (subst dec_digits.simps) (metis append_is_Nil_conv list.exhaust not_Cons_self2)

lemma digits_value_dec: "digits_value 10 (dec_digits n) = int n"
proof (induction n rule: dec_digits.induct)
  case (1 n)
  have val: "digit_val (48 + of_nat k) = int k" if "k < 10" for k
    using that dec_digit [OF that] by (simp add: digit_val_digit is_digit_def)
  show ?case
  proof (cases "n < 10")
    case True
    then show ?thesis by (subst dec_digits.simps) (simp add: digits_value_def val)
  next
    case False
    have "int (n div 10) * 10 + int (n mod 10) = int n" by presburger
    then show ?thesis using False 1 val [of "n mod 10"] by (subst dec_digits.simps) (simp add: digits_value_def)
  qed
qed
text \<open>What ends a token in the printed text.\<close>

definition ends :: "u8 list \<Rightarrow> bool" where "ends r \<longleftrightarrow> r = [] \<or> hd r = 32"

lemma ends_takeWhile: "ends r \<Longrightarrow> \<not> P 32 \<Longrightarrow> takeWhile P r = [] \<and> dropWhile P r = r"
  by (cases r) (auto simp: ends_def)

lemma takeWhile_ends: "ends r \<Longrightarrow> (\<And>c. c \<in> set s \<Longrightarrow> P c) \<Longrightarrow> \<not> P 32 \<Longrightarrow> takeWhile P (s @ r) = s \<and> dropWhile P (s @ r) = r"
  using ends_takeWhile [of r P] by (simp add: takeWhile_append2 dropWhile_append2)

lemma number_loop_ends:
  "ends r \<Longrightarrow> (\<And>c. c \<in> set s \<Longrightarrow> kp_char_isident (uint c)) \<Longrightarrow> number_loop xp c (s @ r) = (s, r)"
proof (induction s arbitrary: c)
  case Nil
  then show ?case by (cases r) (auto simp: ends_def kp_char_isa_eq)
qed auto

lemma kp_str2d_dec:
  assumes "n < 2 ^ 64"
  shows "kp_str2d (dec_digits n) = Some (of_nat n)"
proof -
  have dig: "\<And>c. c \<in> set (dec_digits n) \<Longrightarrow> is_digit c" by (rule dec_digits_all)
  have ne: "dec_digits n \<noteq> []" by (subst dec_digits.simps) auto
  then obtain c ds where d: "dec_digits n = c # ds" by (cases "dec_digits n") auto
  have c: "is_digit c" "\<not> c_isspace c" "c \<noteq> 43" "c \<noteq> 45"
    using dig [of c] d by (auto simp: is_digit_def c_isspace_def word_le_def)
  have base: "strtoul_base 10 (dec_digits n) = Some (of_nat n, [])"
  proof -
    have tw: "takeWhile (\<lambda>c. digit_val c < 10) (dec_digits n) = dec_digits n"
      using dig by (simp add: takeWhile_eq_all_conv digit_val_less)
    have dw: "dropWhile (\<lambda>c. digit_val c < 10) (dec_digits n) = []"
      using dig by (simp add: dropWhile_eq_Nil_conv digit_val_less)
    have "int n < 2 ^ 64" using assms by simp
    then show ?thesis using ne unfolding strtoul_base_def Let_def tw dw digits_value_dec by simp
  qed
  have "strtoul_digits (dec_digits n) = Some (of_nat n, [])"
  proof (cases "n = 0")
    case True
    have "digit_val 48 = 0" by (simp add: digit_val_def)
    then show ?thesis using True
      by (subst dec_digits.simps) (simp add: strtoul_digits_def strtoul_base_def digits_value_def Let_def)
  next
    case False
    then have "c \<noteq> 48" using dec_digits_hd [of n] d by auto
    then show ?thesis using base d by (auto simp: strtoul_digits_def split: list.splits)
  qed
  moreover have "110 \<notin> set (dec_digits n)" "78 \<notin> set (dec_digits n)"
    using dig by (force simp: is_digit_def)+
  ultimately show ?thesis using c d by (simp add: kp_str2d_def strtoul0_def)
qed

lemma lex_number_dec:
  assumes n: "n < 2 ^ 64" and r: "ends r"
  shows "\<exists>b. lex_number (ls\<lparr>ls_in := dec_digits n @ r, ls_sb := []\<rparr>) = Inr (of_nat n, ls\<lparr>ls_in := r, ls_sb := b\<rparr>)"
proof -
  have id: "\<And>c. c \<in> set (dec_digits n) \<Longrightarrow> kp_char_isident (uint c)"
    using dec_digits_all by (auto simp: byte_isa is_digit_def)
  obtain c ds where d: "dec_digits n = c # ds" using dec_digits_Cons by blast
  show ?thesis
  proof (cases "c = 48")
    case True
    then have "number_loop xp c (ds @ r) = (ds, r)" for xp c using number_loop_ends [OF r, of ds] id d by auto
    then show ?thesis using kp_str2d_dec [OF n] d True
      by (cases ls) (simp add: lex_number_def lex_defs Let_def)
  next
    case False
    then have "uint c \<noteq> 48" using word_uint_eq_iff [of c 48] by simp
    moreover have "number_loop xp x (c # ds @ r) = (c # ds, r)" for xp x
      using number_loop_ends [OF r, of "c # ds" xp x] id d by (simp del: number_loop.simps)
    ultimately show ?thesis using kp_str2d_dec [OF n] d
      by (cases ls) (simp add: lex_number_def lex_defs Let_def)
  qed
qed

subsection \<open>Strings\<close>

definition plain_char :: "u8 \<Rightarrow> bool" where "plain_char c \<longleftrightarrow> c \<notin> {0, 10, 13, 34, 92}"

definition esc_char :: "u8 \<Rightarrow> u8 list" where
  "esc_char c =
     (if plain_char c then [c]
      else [92, 48 + of_nat (unat c div 100), 48 + of_nat (unat c div 10 mod 10), 48 + of_nat (unat c mod 10)])"

definition quote :: "u8 list \<Rightarrow> u8 list" where "quote s = 34 # concat (map esc_char s) @ [34]"

lemma uint_eq_byte: "uint (c :: u8) = uint d \<longleftrightarrow> c = d"
  by (simp add: word_uint_eq_iff)

lemma string_loop_plain:
  assumes "plain_char c"
  shows "string_loop 34 (ls\<lparr>ls_in := c # r, ls_sb := b\<rparr>) = string_loop 34 (ls\<lparr>ls_in := r, ls_sb := b @ [c]\<rparr>)"
proof -
  have "uint c \<noteq> 34" "uint c \<noteq> 10" "uint c \<noteq> 13" "uint c \<noteq> 92"
    using assms uint_eq_byte [of c 34] uint_eq_byte [of c 10] uint_eq_byte [of c 13] uint_eq_byte [of c 92]
    by (auto simp: plain_char_def)
  then show ?thesis by (cases ls) (subst string_loop.simps, simp add: lex_defs)
qed

lemma lex_dec_escape_digits:
  assumes "uint a = 48 + x" "uint d = 48 + y" "uint e = 48 + z" "x \<in> {0..9}" "y \<in> {0..9}" "z \<in> {0..9}" "(x * 10 + y) * 10 + z \<le> 255"
  shows "lex_dec_escape (ls\<lparr>ls_in := a # d # e # r, ls_sb := b\<rparr>) =
    Inr (ls\<lparr>ls_in := r, ls_sb := b @ [word_of_int ((x * 10 + y) * 10 + z)]\<rparr>)"
  using assms by (cases ls) (simp add: lex_dec_escape_def lex_defs kp_char_isa_eq Let_def del: of_int_add of_int_mult)

lemma digits3: "(n div 100 * 10 + n div 10 mod 10) * 10 + n mod 10 = n" for n :: nat
proof -
  have "n div 100 * 10 + n div 10 mod 10 = n div 10" using div_mult2_eq [of n 10 10] by simp
  then show ?thesis by simp
qed

lemma lex_dec_escape_byte:
  "lex_dec_escape (ls\<lparr>ls_in := (48 + of_nat (unat c div 100)) # (48 + of_nat (unat c div 10 mod 10)) # (48 + of_nat (unat c mod 10)) # r, ls_sb := b\<rparr>) =
   Inr (ls\<lparr>ls_in := r, ls_sb := b @ [c]\<rparr>)" for c :: u8
proof -
  have c: "unat c < 256" using unsigned_less [of c, where ?'a = nat] by simp
  then have "unat c div 100 < 10" by (simp add: div_less_iff_less_mult)
  moreover have sum: "(int (unat c div 100) * 10 + int (unat c div 10 mod 10)) * 10 + int (unat c mod 10) = int (unat c)"
    by (metis digits3 of_nat_add of_nat_mult of_nat_numeral)
  moreover have "word_of_int (int (unat c)) = c" by simp
  moreover have "int (unat c) \<le> 255" using u8_bounds(2) [of c] by simp
  ultimately show ?thesis
    using lex_dec_escape_digits [of "48 + of_nat (unat c div 100)" "int (unat c div 100)" "48 + of_nat (unat c div 10 mod 10)"
        "int (unat c div 10 mod 10)" "48 + of_nat (unat c mod 10)" "int (unat c mod 10)"]
    by (simp add: dec_digit del: of_nat_div of_nat_mod)
qed

lemma string_loop_escaped:
  assumes "\<not> plain_char c"
  shows "string_loop 34 (ls\<lparr>ls_in := esc_char c @ r, ls_sb := b\<rparr>) = string_loop 34 (ls\<lparr>ls_in := r, ls_sb := b @ [c]\<rparr>)"
proof -
  let ?a = "48 + of_nat (unat c div 100) :: u8" and ?s = "(48 + of_nat (unat c div 10 mod 10)) # (48 + of_nat (unat c mod 10)) # r"
  have "unat c < 256" using unsigned_less [of c, where ?'a = nat] by simp
  then have "unat c div 100 < 10" by (simp add: div_less_iff_less_mult)
  then have a: "uint ?a = 48 + int (unat c div 100)" "unat c div 100 < 10" by (simp_all add: dec_digit)
  have "lex_escape (ls\<lparr>ls_in := ?a # ?s, ls_sb := b\<rparr>) = lex_dec_escape (ls\<lparr>ls_in := ?a # ?s, ls_sb := b\<rparr>)"
    using a(2) unfolding lex_escape_def lex_c_def
    by (simp add: a(1) kp_char_isa_eq del: of_nat_div of_nat_mod)
  then have "lex_escape (ls\<lparr>ls_in := ?a # ?s, ls_sb := b\<rparr>) = Inr (ls\<lparr>ls_in := r, ls_sb := b @ [c]\<rparr>)"
    by (simp only: lex_dec_escape_byte)
  then show ?thesis using assms by (cases ls) (subst string_loop.simps, simp add: lex_defs esc_char_def)
qed

lemma string_loop_quoted:
  "string_loop 34 (ls\<lparr>ls_in := concat (map esc_char s) @ 34 # r, ls_sb := b\<rparr>) = Inr (ls\<lparr>ls_in := 34 # r, ls_sb := b @ s\<rparr>)"
proof (induction s arbitrary: b)
  case Nil
  show ?case by (subst string_loop.simps) (simp add: lex_c_def)
next
  case (Cons c s)
  show ?case
  proof (cases "plain_char c")
    case True
    then show ?thesis using Cons by (simp add: esc_char_def string_loop_plain)
  next
    case False
    then show ?thesis using Cons string_loop_escaped [OF False, where r = "concat (map esc_char s) @ 34 # r"] by simp
  qed
qed

lemma lex_string_quoted:
  "\<exists>b. lex_string (ls\<lparr>ls_in := quote s @ r, ls_sb := []\<rparr>) = Inr (s, ls\<lparr>ls_in := r, ls_sb := b\<rparr>)"
  using string_loop_quoted [where b = "[34]" and s = s and r = r]
  by (auto simp: lex_string_def quote_def lex_defs Let_def)


subsection \<open>Names and operators\<close>

definition ident_ok :: "u8 list \<Rightarrow> bool" where
  "ident_ok s \<longleftrightarrow> s \<noteq> [] \<and> list_all (\<lambda>c. kp_char_isident (uint c)) s \<and> \<not> kp_char_isdigit (uint (hd s))"

lemma lex_ident_text:
  assumes "ident_ok s" "ends r"
  shows "lex_ident (ls\<lparr>ls_in := s @ r, ls_sb := []\<rparr>) =
    (if kp_lex_init s > 0 then TK_OFS + int (kp_lex_init s) else TK_name, TvStr s, ls\<lparr>ls_in := r, ls_sb := s\<rparr>)"
proof -
  obtain c t where s: "s = c # t" using assms(1) by (cases s) (auto simp: ident_ok_def)
  have "takeWhile (\<lambda>c. kp_char_isident (uint c)) (t @ r) = t \<and> dropWhile (\<lambda>c. kp_char_isident (uint c)) (t @ r) = r"
    using assms s by (intro takeWhile_ends) (auto simp: ident_ok_def list_all_iff kp_char_isa_eq)
  then show ?thesis using s by (cases ls) (simp add: lex_ident_def lex_defs Let_def)
qed

definition operators :: "(u8 list \<times> int) list" where
  "operators =
    [([43, 61], TK_incr), ([38, 38], TK_and), ([33], TK_not), ([124, 124], TK_or), ([46, 46], TK_concat),
     ([46, 46, 46], TK_dots), ([61, 61], TK_eq), ([62, 61], TK_ge), ([60, 61], TK_le), ([33, 61], TK_ne), ([58, 58], TK_label),
     ([43], 43), ([45], 45), ([42], 42), ([47], 47), ([37], 37), ([60], 60), ([62], 62), ([61], 61), ([40], 40), ([41], 41),
     ([123], 123), ([125], 125), ([91], 91), ([93], 93), ([59], 59), ([58], 58), ([44], 44), ([46], 46), ([38], 38), ([124], 124)]"

lemma ends_head: "ends r \<Longrightarrow> r = [] \<or> (\<exists>s. r = 32 # s)"
  by (cases r) (auto simp: ends_def)

lemma scan_symbol:
  "lex_c ls = k \<Longrightarrow> \<not> kp_char_isident k \<Longrightarrow> k \<notin> {10, 13, 32, 9, 11, 12, 35, 45} \<Longrightarrow> scan_loop ls tv = lex_symbol ls tv"
  by (subst scan_loop.simps) simp

lemma scan_operator:
  assumes "(w, tok) \<in> set operators" "ends r"
  shows "\<exists>b. scan_loop (ls\<lparr>ls_in := w @ r, ls_sb := []\<rparr>) tv = Inr (tok, tv, ls\<lparr>ls_in := r, ls_sb := b\<rparr>)"
proof (cases "w = [45]")
  case True
  then have "tok = 45" using assms(1) by (auto simp: operators_def)
  then show ?thesis using True ends_head [OF assms(2)]
    by (subst scan_loop.simps) (auto simp: lex_minus_def lex_defs kp_char_isa_eq)
next
  case False
  with assms(1) ends_head [OF assms(2)] show ?thesis
    unfolding operators_def set_simps insert_iff empty_iff prod.inject simp_thms
    by (elim disjE conjE exE; simp add: scan_symbol lex_symbol_def lex_pair_def lex_skipeq_def lex_defs kp_char_isa_eq; blast?)
qed


subsection \<open>Token sequences\<close>

datatype token = Word "u8 list" | Number u64 | Text "u8 list" | Op "u8 list" int

fun token_ok :: "token \<Rightarrow> bool" where
  "token_ok (Word s) = ident_ok s"
| "token_ok (Number n) = True"
| "token_ok (Text s) = True"
| "token_ok (Op w tok) = ((w, tok) \<in> set operators)"

fun token_text :: "token \<Rightarrow> u8 list" where
  "token_text (Word s) = s"
| "token_text (Number n) = dec_digits (unat n)"
| "token_text (Text s) = quote s"
| "token_text (Op w tok) = w"

text \<open>The token and, where the parser reads it, its value.\<close>

fun token_code :: "token \<Rightarrow> int \<times> tokval option" where
  "token_code (Word s) = (if kp_lex_init s > 0 then TK_OFS + int (kp_lex_init s) else TK_name, Some (TvStr s))"
| "token_code (Number n) = (TK_number, Some (TvNum n))"
| "token_code (Text s) = (TK_string, Some (TvStr s))"
| "token_code (Op w tok) = (tok, None)"

definition print_tokens :: "token list \<Rightarrow> u8 list" where
  "print_tokens ts = concat (map (\<lambda>t. 32 # token_text t) ts)"

lemma scan_token:
  assumes "token_ok t" "ends r"
  shows "\<exists>b v. scan_loop (ls\<lparr>ls_in := token_text t @ r, ls_sb := []\<rparr>) tv = Inr (fst (token_code t), v, ls\<lparr>ls_in := r, ls_sb := b\<rparr>) \<and>
     (\<forall>x. snd (token_code t) = Some x \<longrightarrow> v = x)"
proof (cases t)
  case (Word s)
  then have "kp_char_isident (uint (hd s))" "\<not> kp_char_isdigit (uint (hd s))" "s \<noteq> []"
    using assms(1) by (cases s; auto simp: ident_ok_def)+
  then show ?thesis using Word lex_ident_text [OF _ assms(2), of s ls] assms(1)
    by (subst scan_loop.simps) (cases s; auto simp: lex_c_def)
next
  case (Number n)
  have n: "unat n < 2 ^ 64" using unsigned_less [of n, where ?'a = nat] by simp
  obtain c ds where d: "dec_digits (unat n) = c # ds" using dec_digits_Cons by blast
  then have "is_digit c" using dec_digits_all [of c "unat n"] by simp
  then have "kp_char_isident (uint c)" "kp_char_isdigit (uint c)" by (simp_all add: byte_isa is_digit_def)
  then show ?thesis using Number lex_number_dec [OF n assms(2), of ls] d
    by (subst scan_loop.simps) (auto simp: lex_c_def)
next
  case (Text s)
  have "lex_c (ls\<lparr>ls_in := quote s @ r, ls_sb := []\<rparr>) = 34" by (simp add: quote_def lex_c_def)
  then show ?thesis using Text lex_string_quoted [where ls = ls and s = s and r = r]
    by (subst scan_loop.simps) (auto simp: lex_symbol_def kp_char_isa_eq)
next
  case (Op w tok)
  then show ?thesis using scan_operator [of w tok r ls tv] assms by auto
qed

primrec lex_tokens :: "nat \<Rightarrow> lex_state \<Rightarrow> ((int \<times> tokval) list \<times> lex_state) lex" where
  "lex_tokens 0 ls = Inr ([], ls)"
| "lex_tokens (Suc n) ls =
     lbind (kp_lex_next ls) (\<lambda>ls1. lbind (lex_tokens n ls1) (\<lambda>(ts, ls2). Inr ((ls_tok ls1, ls_tokval ls1) # ts, ls2)))"

definition token_seen :: "token \<Rightarrow> int \<times> tokval \<Rightarrow> bool" where
  "token_seen t = (\<lambda>(tok, v). tok = fst (token_code t) \<and> (\<forall>x. snd (token_code t) = Some x \<longrightarrow> v = x))"

lemma print_tokens_ends: "ends (print_tokens ts)"
  by (cases ts) (simp_all add: print_tokens_def ends_def)

lemma scan_space: "scan_loop (ls\<lparr>ls_in := 32 # s, ls_sb := b\<rparr>) tv = scan_loop (ls\<lparr>ls_in := s, ls_sb := b\<rparr>) tv"
  by (subst scan_loop.simps) (simp add: lex_c_def lex_next_def kp_char_isa_eq)

lemma next_token:
  assumes "token_ok t" "ends r" "ls_in ls = 32 # token_text t @ r" "ls_lookahead ls = TK_eof"
  shows "\<exists>ls1. kp_lex_next ls = Inr ls1 \<and> ls_in ls1 = r \<and> ls_lookahead ls1 = TK_eof \<and> token_seen t (ls_tok ls1, ls_tokval ls1)"
proof -
  let ?ls = "ls\<lparr>ls_lastline := ls_line ls\<rparr>"
  have "lex_reset ?ls = ?ls\<lparr>ls_in := 32 # token_text t @ r, ls_sb := []\<rparr>" using assms(3) by (cases ls) simp
  then have "lex_scan ?ls tv = scan_loop (?ls\<lparr>ls_in := token_text t @ r, ls_sb := []\<rparr>) tv" for tv
    by (simp only: lex_scan_def scan_space)
  then obtain b v where "lex_scan ?ls (ls_tokval ls) = Inr (fst (token_code t), v, ?ls\<lparr>ls_in := r, ls_sb := b\<rparr>)"
    "\<forall>x. snd (token_code t) = Some x \<longrightarrow> v = x"
    using scan_token [OF assms(1,2), of ?ls "ls_tokval ls"] by auto
  then show ?thesis using assms(4) by (simp add: kp_lex_next_def token_seen_def)
qed

lemma lex_tokens_printed:
  assumes "list_all token_ok ts" "ls_in ls = print_tokens ts" "ls_lookahead ls = TK_eof"
  shows "\<exists>vs ls' v. lex_tokens (Suc (length ts)) ls = Inr (vs @ [(TK_eof, v)], ls') \<and> list_all2 token_seen ts vs"
  using assms
proof (induction ts arbitrary: ls)
  case Nil
  then have "lex_c ls = -1" by (simp add: lex_c_def print_tokens_def)
  then have "scan_loop (lex_reset (ls\<lparr>ls_lastline := ls_line ls\<rparr>)) tv = Inr (TK_eof, tv, lex_reset (ls\<lparr>ls_lastline := ls_line ls\<rparr>))" for tv
    by (subst scan_symbol [where k = "-1"]) (auto simp: lex_c_def lex_symbol_def kp_char_isa_eq)
  then show ?case using Nil by (simp add: kp_lex_next_def lex_scan_def)
next
  case (Cons t ts)
  have "ls_in ls = 32 # token_text t @ print_tokens ts" using Cons.prems(2) by (simp add: print_tokens_def)
  then obtain ls1 where ls1: "kp_lex_next ls = Inr ls1" "ls_in ls1 = print_tokens ts" "ls_lookahead ls1 = TK_eof"
    "token_seen t (ls_tok ls1, ls_tokval ls1)"
    using next_token [OF _ print_tokens_ends, of t ls ts] Cons.prems by auto
  then obtain vs ls' v where "lex_tokens (Suc (length ts)) ls1 = Inr (vs @ [(TK_eof, v)], ls')" "list_all2 token_seen ts vs"
    using Cons.IH [of ls1] Cons.prems(1) by auto
  then show ?case using ls1
    by (intro exI [of _ "(ls_tok ls1, ls_tokval ls1) # vs"]) (simp del: lex_tokens.simps(2) add: lex_tokens.simps(2) [of "Suc _"])
qed

lemma quote_no_zero: "0 \<notin> set (quote s)"
proof -
  have "0 \<notin> set (esc_char c)" for c
  proof -
    have "unat c < 256" using unsigned_less [of c, where ?'a = nat] by simp
    then have "unat c div 100 < 10" by (simp add: div_less_iff_less_mult)
    then have "k \<in> {unat c div 100, unat c div 10 mod 10, unat c mod 10} \<Longrightarrow> (0 :: u8) \<noteq> 48 + of_nat k" for k
      using dec_digit [of k] by fastforce
    then show ?thesis by (auto simp: esc_char_def plain_char_def)
  qed
  then show ?thesis by (auto simp: quote_def)
qed

lemma token_text_no_zero: "token_ok t \<Longrightarrow> 0 \<notin> set (token_text t)"
proof (cases t)
  case (Word s)
  assume "token_ok t"
  then show ?thesis using Word by (auto simp: ident_ok_def list_all_iff kp_char_isa_eq dest: bspec)
next
  case (Number n)
  then show ?thesis using dec_digits_all [of 0 "unat n"] by (auto simp: is_digit_def)
next
  case (Text s)
  then show ?thesis by (simp add: quote_no_zero)
next
  case (Op w k)
  assume "token_ok t"
  then show ?thesis using Op by (auto simp: operators_def)
qed

text \<open>C34: Round trip of source text.  A sequence of names and reserved words, 64-bit numbers in decimal, strings of any bytes
  (quotes, line breaks, backslashes and zeros as decimal escapes) and operators, printed with spaces between them,
  is scanned into exactly these tokens with their values, and then \<^verbatim>\<open>TK_eof\<close>.\<close>

theorem tokens_roundtrip:
  assumes "list_all token_ok ts"
  shows "\<exists>ls vs v ls'. kp_lex_setup ls0 (print_tokens ts) = Inr ls \<and> lex_tokens (Suc (length ts)) ls = Inr (vs @ [(TK_eof, v)], ls') \<and>
     list_all2 token_seen ts vs"
proof -
  have "0 \<notin> set (print_tokens ts)"
    using assms token_text_no_zero by (auto simp: print_tokens_def list_all_iff)
  then have tw: "takeWhile (\<lambda>c. c \<noteq> 0) (print_tokens ts) = print_tokens ts" by (auto simp: takeWhile_eq_all_conv)
  have "take 3 (print_tokens ts) \<noteq> [0xef, 0xbb, 0xbf]" by (cases ts) (auto simp: print_tokens_def)
  moreover have "lex_c (ls0\<lparr>ls_in := print_tokens ts, ls_lookahead := TK_eof, ls_line := 1, ls_lastline := 1\<rparr>) \<noteq> 35"
    by (cases ts) (auto simp: print_tokens_def lex_c_def)
  ultimately have "kp_lex_setup ls0 (print_tokens ts) =
      Inr (ls0\<lparr>ls_in := print_tokens ts, ls_lookahead := TK_eof, ls_line := 1, ls_lastline := 1\<rparr>)"
    by (simp add: kp_lex_setup_def tw Let_def)
  then show ?thesis
    using lex_tokens_printed [OF assms, of "ls0\<lparr>ls_in := print_tokens ts, ls_lookahead := TK_eof, ls_line := 1, ls_lastline := 1\<rparr>"]
    by auto
qed

definition lex_blank :: lex_state where
  "lex_blank = \<lparr>ls_in = [], ls_sb = [], ls_line = 0, ls_lastline = 0, ls_tok = 0, ls_tokval = TvNone, ls_lookahead = TK_eof,
     ls_lookval = TvNone, ls_chunkname = bytes ''a.kp''\<rparr>"

theorem tokens_roundtrip_witness:
  "list_all token_ok [Word (bytes ''trace''), Word (bytes ''x''), Op [61] 61, Number 1000, Text [34, 0]] \<and>
   (\<exists>ls vs v ls'. kp_lex_setup lex_blank (print_tokens [Word (bytes ''trace''), Word (bytes ''x''), Op [61] 61, Number 1000, Text [34, 0]]) = Inr ls \<and>
     lex_tokens 6 ls = Inr (vs @ [(TK_eof, v)], ls') \<and>
     list_all2 token_seen [Word (bytes ''trace''), Word (bytes ''x''), Op [61] 61, Number 1000, Text [34, 0]] vs)"
proof -
  have "list_all token_ok [Word (bytes ''trace''), Word (bytes ''x''), Op [61] 61, Number 1000, Text [34, 0]]" by code_simp
  then show ?thesis
    using tokens_roundtrip [of "[Word (bytes ''trace''), Word (bytes ''x''), Op [61] 61, Number 1000, Text [34, 0]]" lex_blank]
    by (simp only: list.size One_nat_def add_0_left add_Suc_right Suc_numeral numeral_eq_Suc pred_numeral_simps BitM.simps simp_thms)
       (simp add: numeral_eq_Suc)
qed

theorem lexing_ends_witness:
  "\<exists>n\<le>4. case lex_steps n (lex_blank\<lparr>ls_in := [120, 43, 49]\<rparr>) of Inl e \<Rightarrow> True | Inr ls' \<Rightarrow> 0 < n \<and> ls_tok ls' = TK_eof \<and> ls_in ls' = []"
  using lexing_ends [of "lex_blank\<lparr>ls_in := [120, 43, 49]\<rparr>"] by (simp add: lex_blank_def numeral_eq_Suc)

text \<open>Reporting an error does not bound the length of the token: when a string literal without an end, at the start
  of a line, has 128 or more plain characters, the message does not fit the 128 bytes it is put together in.\<close>

theorem long_token_overflows:
  assumes "list_all plain_char s" "128 \<le> length s"
  shows "lex_string (ls\<lparr>ls_in := 34 # s @ 10 # r, ls_sb := []\<rparr>) = Inl LexFault"
proof -
  have loop: "string_loop 34 (ls\<lparr>ls_in := s @ 10 # r, ls_sb := b\<rparr>) = string_loop 34 (ls\<lparr>ls_in := 10 # r, ls_sb := b @ s\<rparr>)" for b
    using assms(1) by (induction s arbitrary: b) (simp_all add: string_loop_plain)
  have nz: "takeWhile (\<lambda>c. c \<noteq> 0) s = s"
    using assms(1) by (auto simp: takeWhile_eq_all_conv list_all_iff plain_char_def)
  have "string_loop 34 (ls\<lparr>ls_in := 10 # r, ls_sb := 34 # s\<rparr>) = kp_lex_error (ls\<lparr>ls_in := 10 # r, ls_sb := 34 # s\<rparr>) TK_string XSTR"
    by (subst string_loop.simps) (simp add: lex_c_def)
  also have "\<dots> = Inl LexFault"
    using assms(2)
    by (simp add: nz kp_lex_error_def lex_report_def kp_err_lex_def kp_sprintf_def bytes_def Let_def split: Option.bind_splits)
  finally show ?thesis using loop [of "[34]"] by (simp add: lex_string_def lex_defs)
qed

theorem long_token_overflows_witness:
  "lex_string (lex_blank\<lparr>ls_in := 34 # replicate 200 97 @ [10], ls_sb := []\<rparr>) = Inl LexFault"
  using long_token_overflows [of "replicate 200 97" "[]" lex_blank] by (simp add: list_all_iff plain_char_def)

text \<open>C35: The text of a probe: \<^verbatim>\<open>kp_lex_read_string_until\<close> returns the text up to the end character, without leading spaces;
  the first character behind the spaces is part of it whatever it is, and when the end character is missing the
  message is printed through a wild pointer.\<close>

theorem read_string_until:
  assumes "ls_in ls = replicate n 32 @ x # s @ r" "x \<noteq> 32" "c \<notin> set s" "r = [] \<or> hd r = c"
  shows "kp_lex_read_string_until ls c =
    (if r = [] then Inl LexFault
     else Inr (ls\<lparr>ls_in := r, ls_sb := x # s, ls_tok := TK_string, ls_tokval := TvStr (x # s)\<rparr>))"
proof -
  have sp: "dropWhile (\<lambda>x. x = 32) (replicate n 32 @ x # s @ r) = x # s @ r" using assms(2) by (induction n) auto
  have tw: "takeWhile (\<lambda>x. x \<noteq> c) (s @ r) = s" "dropWhile (\<lambda>x. x \<noteq> c) (s @ r) = r"
    using assms(3,4) by (cases r; induction s; auto)+
  show ?thesis using assms sp tw
    by (cases ls; cases r) (auto simp: kp_lex_read_string_until_def lex_defs Let_def tw)
qed

theorem read_string_until_witness:
  "kp_lex_read_string_until (lex_blank\<lparr>ls_in := [32, 123, 97, 123]\<rparr>) 123 =
     Inr (lex_blank\<lparr>ls_in := [123], ls_sb := [123, 97], ls_tok := TK_string, ls_tokval := TvStr [123, 97]\<rparr>) \<and>
   kp_lex_read_string_until (lex_blank\<lparr>ls_in := [32, 97]\<rparr>) 123 = Inl LexFault"
  using read_string_until [of "lex_blank\<lparr>ls_in := [32, 123, 97, 123]\<rparr>" 1 123 "[97]" "[123]" 123]
    read_string_until [of "lex_blank\<lparr>ls_in := [32, 97]\<rparr>" 1 97 "[]" "[]" 123]
  by simp

end
