(* ===== verification/Ktap_Codegen.thy ===== *)
theory Ktap_Codegen
  imports Ktap_Util_Correct Ktap_Bytecode "HOL-Library.Signed_Division"
begin

text \<open>
  The code generator of the compiler: expressions, constants, jump lists, registers and the emission of
  instructions (\<^verbatim>\<open>userspace/kp_parse.c\<close>, lines 50 to 1098).

  A \<^verbatim>\<open>FuncState\<close> is the state of a state monad with errors; the lexer's part of it is the line, the sizes of the
  instruction stack and the flags of its variables.  \<open>fs_bc\<close> has the instructions emitted so far, so that \<^verbatim>\<open>pc\<close> is its length.
  Expressions are passed and returned.  The members of their union never overlap in time: one is read only under a kind
  under which it was written.  \<open>CgFault\<close>: an instruction that was not emitted is used, or a signed
  operation overflows; \<open>CgLoop\<close>: a walk along a jump list has no end.
\<close>

section \<open>Data\<close>

datatype ExpKind =
    VKNIL | VKFALSE | VKTRUE | VKSTR | VKNUM | VKCDATA
  | VLOCAL | VUPVAL | VGLOBAL | VINDEXED | VJMP | VRELOCABLE | VNONRELOC | VCALL | VVOID
  | VARGN | VARGSTR | VARGNAME | VPID | VTID | VUID | VCPU | VEXECNAME | VMAX

fun kord :: "ExpKind \<Rightarrow> nat" where
  "kord VKNIL = 0" | "kord VKFALSE = 1" | "kord VKTRUE = 2" | "kord VKSTR = 3" | "kord VKNUM = 4" | "kord VKCDATA = 5"
| "kord VLOCAL = 6" | "kord VUPVAL = 7" | "kord VGLOBAL = 8" | "kord VINDEXED = 9" | "kord VJMP = 10" | "kord VRELOCABLE = 11"
| "kord VNONRELOC = 12" | "kord VCALL = 13" | "kord VVOID = 14" | "kord VARGN = 15" | "kord VARGSTR = 16" | "kord VARGNAME = 17"
| "kord VPID = 18" | "kord VTID = 19" | "kord VUID = 20" | "kord VCPU = 21" | "kord VEXECNAME = 22" | "kord VMAX = 23"

record ExpDesc =
  e_k :: ExpKind
  e_info :: u32
  e_aux :: u32
  e_nval :: ktap_val
  e_sval :: addr
  e_t :: u32
  e_f :: u32

definition expr_hasjump :: "ExpDesc \<Rightarrow> bool" where "expr_hasjump e \<longleftrightarrow> e_t e \<noteq> e_f e"
definition expr_isk :: "ExpDesc \<Rightarrow> bool" where "expr_isk e \<longleftrightarrow> kord (e_k e) \<le> kord VKNUM"
definition expr_isnumk :: "ExpDesc \<Rightarrow> bool" where "expr_isnumk e \<longleftrightarrow> e_k e = VKNUM"
definition expr_isnumk_nojump :: "ExpDesc \<Rightarrow> bool" where "expr_isnumk_nojump e \<longleftrightarrow> expr_isnumk e \<and> \<not> expr_hasjump e"
definition expr_isk_nojump :: "ExpDesc \<Rightarrow> bool" where "expr_isk_nojump e \<longleftrightarrow> expr_isk e \<and> \<not> expr_hasjump e"
definition expr_numberV :: "ExpDesc \<Rightarrow> u64" where "expr_numberV e = nvalue (e_nval e)"
definition expr_numiszero :: "ExpDesc \<Rightarrow> bool" where "expr_numiszero e \<longleftrightarrow> expr_numberV e = 0"

definition expr_init :: "ExpDesc \<Rightarrow> ExpKind \<Rightarrow> u32 \<Rightarrow> ExpDesc" where
  "expr_init e k info = e\<lparr>e_k := k, e_info := info, e_f := NO_JMP, e_t := NO_JMP\<rparr>"

datatype BinOpr =
    OPR_ADD | OPR_SUB | OPR_MUL | OPR_DIV | OPR_MOD | OPR_POW | OPR_CONCAT | OPR_NE | OPR_EQ
  | OPR_LT | OPR_GE | OPR_LE | OPR_GT | OPR_AND | OPR_OR | OPR_NOBINOPR

record fstate =
  fs_kt :: ktap_tab
  fs_bc :: "(bcins \<times> nat) list"
  fs_lasttarget :: u32
  fs_jpc :: u32
  fs_freereg :: u32
  fs_nactvar :: u32
  fs_nkn :: u32
  fs_nkgc :: u32
  fs_base :: nat
  fs_bclim :: nat
  fs_sizebc :: nat
  fs_framesize :: u8
  fs_lastline :: nat
  fs_vinfo :: "u8 list"

definition fs_pc :: "fstate \<Rightarrow> u32" where "fs_pc fs = of_nat (length (fs_bc fs))"

datatype cg_msg = XJUMP | XSLOTS | XLIMIT nat string | XSYMBOL

datatype cg_stop = CgError cg_msg | CgFault | CgLoop

type_synonym 'a cg = "fstate \<Rightarrow> cg_stop + 'a \<times> fstate"

definition cret :: "'a \<Rightarrow> 'a cg" where "cret x fs = Inr (x, fs)"
definition cfail :: "cg_stop \<Rightarrow> 'a cg" where "cfail e fs = Inl e"
definition cbind :: "'a cg \<Rightarrow> ('a \<Rightarrow> 'b cg) \<Rightarrow> 'b cg" where
  "cbind m k fs = (case m fs of Inl e \<Rightarrow> Inl e | Inr (x, fs') \<Rightarrow> k x fs')"
definition cget :: "(fstate \<Rightarrow> 'a) \<Rightarrow> 'a cg" where "cget f fs = Inr (f fs, fs)"
definition cmod :: "(fstate \<Rightarrow> fstate) \<Rightarrow> unit cg" where "cmod g fs = Inr ((), g fs)"

lemmas cg_simps = cret_def cfail_def cbind_def cget_def cmod_def

definition ins_at :: "u32 \<Rightarrow> bcins cg" where
  "ins_at pc = cbind (cget fs_bc) (\<lambda>bc. if unat pc < length bc then cret (fst (bc ! unat pc)) else cfail CgFault)"

definition ins_put :: "u32 \<Rightarrow> bcins \<Rightarrow> unit cg" where
  "ins_put pc i =
     cbind (cget fs_bc) (\<lambda>bc. if unat pc < length bc
       then cmod (\<lambda>fs. fs\<lparr>fs_bc := (fs_bc fs)[unat pc := (i, snd (fs_bc fs ! unat pc))]\<rparr>) else cfail CgFault)"

abbreviation (input) NO_REG :: u32 where "NO_REG \<equiv> 0xff"
abbreviation (input) BCMAX_C :: u32 where "BCMAX_C \<equiv> 0xff"
abbreviation (input) BCMAX_B :: u32 where "BCMAX_B \<equiv> 0xff"
abbreviation (input) BCMAX_D :: u32 where "BCMAX_D \<equiv> 0xffff"
abbreviation (input) op_of :: "nat \<Rightarrow> u32" where "op_of n \<equiv> of_nat n"


section \<open>Constants\<close>

definition const_pri :: "ExpDesc \<Rightarrow> u32" where "const_pri e = of_nat (kord (e_k e))"

text \<open>The slot of a key in the constant table: the index found there, or the next one, which is stored.\<close>

definition kslot :: "ktap_val \<Rightarrow> (fstate \<Rightarrow> u32) \<Rightarrow> (fstate \<Rightarrow> fstate) \<Rightarrow> u32 cg" where
  "kslot key next bump =
     cbind (cget fs_kt) (\<lambda>kt.
       case ukp_tab_set kt key of
         None \<Rightarrow> cfail CgFault
       | Some (i, kt) \<Rightarrow>
           let v = n_val (tnode kt ! i) in
           if is_number v then cbind (cmod (\<lambda>fs. fs\<lparr>fs_kt := kt\<rparr>)) (\<lambda>_. cret (ucast (nvalue v)))
           else cbind (cget next) (\<lambda>n.
             cbind (cmod (\<lambda>fs. fs\<lparr>fs_kt := kt\<lparr>tnode := (tnode kt)[i := (tnode kt ! i)\<lparr>n_val := set_number (ucast n)\<rparr>]\<rparr>\<rparr>)) (\<lambda>_.
             cbind (cmod bump) (\<lambda>_. cret n))))"

definition const_num :: "ExpDesc \<Rightarrow> u32 cg" where
  "const_num e = kslot (e_nval e) fs_nkn (\<lambda>fs. fs\<lparr>fs_nkn := fs_nkn fs + 1\<rparr>)"

definition const_gc :: "addr \<Rightarrow> u32 \<Rightarrow> u32 cg" where
  "const_gc gc ty = kslot \<lparr>itype = ty, vbits = gc\<rparr> fs_nkgc (\<lambda>fs. fs\<lparr>fs_nkgc := fs_nkgc fs + 1\<rparr>)"

definition const_str :: "ExpDesc \<Rightarrow> u32 cg" where
  "const_str e = const_gc (e_sval e) KTAP_TSTR"

text \<open>Anchoring a string the lexer has interned.\<close>

definition kp_parse_keepstr :: "addr \<Rightarrow> unit cg" where
  "kp_parse_keepstr s =
     cbind (cget fs_kt) (\<lambda>kt.
       case ukp_tab_set kt \<lparr>itype = KTAP_TSTR, vbits = s\<rparr> of
         None \<Rightarrow> cfail CgFault
       | Some (i, kt) \<Rightarrow>
           let v = n_val (tnode kt ! i) in
           cmod (\<lambda>fs. fs\<lparr>fs_kt := if is_nil v then kt\<lparr>tnode := (tnode kt)[i := (tnode kt ! i)\<lparr>n_val := set_bool v 1\<rparr>]\<rparr> else kt\<rparr>))"


section \<open>Jump lists\<close>

text \<open>
  The jumps of a list are linked through their distances; the distance -1 ends it.  A list that is longer than the
  code is cyclic, and the loops over it do not end: they carry the number of instructions as fuel and stop with \<open>CgLoop\<close> when
  it is used up.
\<close>

definition jmp_next :: "u32 \<Rightarrow> u32 cg" where
  "jmp_next pc =
     cbind (ins_at pc) (\<lambda>i.
       let delta = bc_j i in
       cret (if word_of_int delta = NO_JMP then NO_JMP else word_of_int (uint pc + 1 + delta)))"

abbreviation before :: "u32 \<Rightarrow> u32" where "before pc \<equiv> (if pc \<ge> 1 then pc - 1 else pc)"

fun novalue_loop :: "nat \<Rightarrow> u32 \<Rightarrow> bool cg" where
  "novalue_loop 0 list = (if list = NO_JMP then cret False else cfail CgLoop)"
| "novalue_loop (Suc n) list =
     (if list = NO_JMP then cret False
      else cbind (ins_at (before list)) (\<lambda>p.
        if \<not> (bc_op p = op_of BC_ISTC \<or> bc_op p = op_of BC_ISFC \<or> bc_a p = NO_REG) then cret True
        else cbind (jmp_next list) (novalue_loop n)))"

definition jmp_novalue :: "u32 \<Rightarrow> bool cg" where
  "jmp_novalue list = cbind (cget (\<lambda>fs. length (fs_bc fs))) (\<lambda>n. novalue_loop n list)"

definition jmp_patchtestreg :: "u32 \<Rightarrow> u32 \<Rightarrow> bool cg" where
  "jmp_patchtestreg pc reg =
     (let q = before pc in
      cbind (ins_at q) (\<lambda>ilp.
        if bc_op ilp = op_of BC_ISTC \<or> bc_op ilp = op_of BC_ISFC then
          (if reg \<noteq> NO_REG \<and> reg \<noteq> bc_d ilp then cbind (ins_put q (setbc_a ilp reg)) (\<lambda>_. cret True)
           else cbind (ins_put q (setbc_a (setbc_op ilp (bc_op ilp + (op_of BC_IST - op_of BC_ISTC))) 0)) (\<lambda>_. cret True))
        else if bc_a ilp = NO_REG then
          (if reg = NO_REG then
             cbind (ins_at pc) (\<lambda>jmp. cbind (ins_put q (BCINS_AJ (op_of BC_JMP) (bc_a jmp) 0)) (\<lambda>_. cret True))
           else
             cbind (ins_put q (setbc_a ilp reg)) (\<lambda>_.
             cbind (ins_at (q + 1)) (\<lambda>nxt.
             cbind (if reg \<ge> bc_a nxt then ins_put (q + 1) (setbc_a nxt (reg + 1)) else cret ()) (\<lambda>_. cret True))))
        else cret False))"

fun dropval_loop :: "nat \<Rightarrow> u32 \<Rightarrow> unit cg" where
  "dropval_loop 0 list = (if list = NO_JMP then cret () else cfail CgLoop)"
| "dropval_loop (Suc n) list =
     (if list = NO_JMP then cret ()
      else cbind (jmp_patchtestreg list NO_REG) (\<lambda>_. cbind (jmp_next list) (dropval_loop n)))"

definition jmp_dropval :: "u32 \<Rightarrow> unit cg" where
  "jmp_dropval list = cbind (cget (\<lambda>fs. length (fs_bc fs))) (\<lambda>n. dropval_loop n list)"

definition jmp_patchins :: "u32 \<Rightarrow> u32 \<Rightarrow> unit cg" where
  "jmp_patchins pc dest =
     (let offset = dest - (pc + 1) + BCBIAS_J in
      if offset > BCMAX_D then cfail (CgError XJUMP)
      else cbind (ins_at pc) (\<lambda>jmp. ins_put pc (setbc_d jmp offset)))"

fun last_loop :: "nat \<Rightarrow> u32 \<Rightarrow> u32 cg" where
  "last_loop 0 list = cfail CgLoop"
| "last_loop (Suc n) list = cbind (jmp_next list) (\<lambda>next. if next = NO_JMP then cret list else last_loop n next)"

definition jmp_append :: "u32 \<Rightarrow> u32 \<Rightarrow> u32 cg" where
  "jmp_append l1 l2 =
     (if l2 = NO_JMP then cret l1
      else if l1 = NO_JMP then cret l2
      else
        cbind (cget (\<lambda>fs. length (fs_bc fs))) (\<lambda>n.
        cbind (last_loop n l1) (\<lambda>list.
        cbind (jmp_patchins list l2) (\<lambda>_. cret l1))))"

fun patchval_loop :: "nat \<Rightarrow> u32 \<Rightarrow> u32 \<Rightarrow> u32 \<Rightarrow> u32 \<Rightarrow> unit cg" where
  "patchval_loop 0 list vtarget reg dtarget = (if list = NO_JMP then cret () else cfail CgLoop)"
| "patchval_loop (Suc n) list vtarget reg dtarget =
     (if list = NO_JMP then cret ()
      else
        cbind (jmp_next list) (\<lambda>next.
        cbind (jmp_patchtestreg list reg) (\<lambda>ok.
        cbind (jmp_patchins list (if ok then vtarget else dtarget)) (\<lambda>_.
        patchval_loop n next vtarget reg dtarget))))"

definition jmp_patchval :: "u32 \<Rightarrow> u32 \<Rightarrow> u32 \<Rightarrow> u32 \<Rightarrow> unit cg" where
  "jmp_patchval list vtarget reg dtarget =
     cbind (cget (\<lambda>fs. length (fs_bc fs))) (\<lambda>n. patchval_loop n list vtarget reg dtarget)"

definition jmp_tohere :: "u32 \<Rightarrow> unit cg" where
  "jmp_tohere list =
     cbind (cmod (\<lambda>fs. fs\<lparr>fs_lasttarget := fs_pc fs\<rparr>)) (\<lambda>_.
     cbind (cget fs_jpc) (\<lambda>jpc.
     cbind (jmp_append jpc list) (\<lambda>jpc. cmod (\<lambda>fs. fs\<lparr>fs_jpc := jpc\<rparr>))))"

definition jmp_patch :: "u32 \<Rightarrow> u32 \<Rightarrow> unit cg" where
  "jmp_patch list target =
     cbind (cget fs_pc) (\<lambda>pc. if target = pc then jmp_tohere list else jmp_patchval list target NO_REG target)"


section \<open>Registers\<close>

definition KP_MAX_REGS :: u32 where "KP_MAX_REGS = 250"

definition bcreg_bump :: "u32 \<Rightarrow> unit cg" where
  "bcreg_bump n =
     cbind (cget (\<lambda>fs. (fs_freereg fs + n, ucast (fs_framesize fs)))) (\<lambda>(sz, framesize).
       if sz > framesize then
         (if sz \<ge> KP_MAX_REGS then cfail (CgError XSLOTS) else cmod (\<lambda>fs. fs\<lparr>fs_framesize := ucast sz\<rparr>))
       else cret ())"

definition bcreg_reserve :: "u32 \<Rightarrow> unit cg" where
  "bcreg_reserve n = cbind (bcreg_bump n) (\<lambda>_. cmod (\<lambda>fs. fs\<lparr>fs_freereg := fs_freereg fs + n\<rparr>))"

definition bcreg_free :: "u32 \<Rightarrow> unit cg" where
  "bcreg_free reg = cmod (\<lambda>fs. if reg \<ge> fs_nactvar fs then fs\<lparr>fs_freereg := fs_freereg fs - 1\<rparr> else fs)"

definition expr_free :: "ExpDesc \<Rightarrow> unit cg" where
  "expr_free e = (if e_k e = VNONRELOC then bcreg_free (e_info e) else cret ())"


section \<open>Emission\<close>

definition KP_MAX_BCINS :: nat where "KP_MAX_BCINS = 2 ^ 26"

definition bc_room :: "unit cg" where
  "bc_room =
     cbind (cget (\<lambda>fs. (length (fs_bc fs), fs_bclim fs, fs_sizebc fs))) (\<lambda>(pc, lim, size).
       if pc \<ge> lim then
         (if size \<ge> KP_MAX_BCINS then cfail (CgError (XLIMIT KP_MAX_BCINS ''bytecode instructions''))
          else cmod (\<lambda>fs. let size = (if size = 0 then 20 else size * 2) in fs\<lparr>fs_sizebc := size, fs_bclim := size - fs_base fs\<rparr>))
       else cret ())"

definition bcemit_INS :: "bcins \<Rightarrow> u32 cg" where
  "bcemit_INS ins =
     cbind (cget (\<lambda>fs. (fs_pc fs, fs_jpc fs))) (\<lambda>(pc, jpc).
     cbind (jmp_patchval jpc pc NO_REG pc) (\<lambda>_.
     cbind (cmod (\<lambda>fs. fs\<lparr>fs_jpc := NO_JMP\<rparr>)) (\<lambda>_.
     cbind bc_room (\<lambda>_.
     cbind (cmod (\<lambda>fs. fs\<lparr>fs_bc := fs_bc fs @ [(ins, fs_lastline fs)]\<rparr>)) (\<lambda>_. cret pc)))))"

abbreviation bcemit_ABC :: "nat \<Rightarrow> u32 \<Rightarrow> u32 \<Rightarrow> u32 \<Rightarrow> u32 cg" where
  "bcemit_ABC o' a b c \<equiv> bcemit_INS (BCINS_ABC (op_of o') a b c)"
abbreviation bcemit_AD :: "nat \<Rightarrow> u32 \<Rightarrow> u32 \<Rightarrow> u32 cg" where
  "bcemit_AD o' a d \<equiv> bcemit_INS (BCINS_AD (op_of o') a d)"
abbreviation bcemit_AJ :: "nat \<Rightarrow> u32 \<Rightarrow> int \<Rightarrow> u32 cg" where
  "bcemit_AJ o' a j \<equiv> bcemit_INS (BCINS_AJ (op_of o') a j)"


section \<open>Expressions\<close>

definition expr_discharge :: "ExpDesc \<Rightarrow> ExpDesc cg" where
  "expr_discharge e =
     (let emit = \<lambda>ins. cbind (bcemit_INS ins) (\<lambda>pc. cret (e\<lparr>e_info := pc, e_k := VRELOCABLE\<rparr>)) in
      if e_k e = VUPVAL then emit (BCINS_AD (op_of BC_UGET) 0 (e_info e))
      else if e_k e = VGLOBAL then cbind (const_str e) (\<lambda>s. emit (BCINS_AD (op_of BC_GGET) 0 s))
      else if e_k e = VINDEXED then
        (let rc = e_aux e in
         if sint rc < 0 then
           cbind (bcreg_free (e_info e)) (\<lambda>_. emit (BCINS_ABC (op_of BC_TGETS) 0 (e_info e) (NOT rc)))
         else if rc > BCMAX_C then
           cbind (bcreg_free (e_info e)) (\<lambda>_. emit (BCINS_ABC (op_of BC_TGETB) 0 (e_info e) (rc - (BCMAX_C + 1))))
         else
           cbind (bcreg_free rc) (\<lambda>_.
           cbind (bcreg_free (e_info e)) (\<lambda>_. emit (BCINS_ABC (op_of BC_TGETV) 0 (e_info e) rc))))
      else if e_k e = VCALL then cret (e\<lparr>e_info := e_aux e, e_k := VNONRELOC\<rparr>)
      else if e_k e = VLOCAL then cret (e\<lparr>e_k := VNONRELOC\<rparr>)
      else cret e)"

text \<open>A range of registers set to nil, merged with the instruction before when that sets adjacent ones and no jump comes here.\<close>

definition bcemit_nil_new :: "u32 \<Rightarrow> u32 \<Rightarrow> unit cg" where
  "bcemit_nil_new from n =
     cbind (bcemit_INS (if n = 1 then BCINS_AD (op_of BC_KPRI) from 0 else BCINS_AD (op_of BC_KNIL) from (from + n - 1))) (\<lambda>_. cret ())"

definition bcemit_nil :: "u32 \<Rightarrow> u32 \<Rightarrow> unit cg" where
  "bcemit_nil from n =
     cbind (cget (\<lambda>fs. (fs_pc fs, fs_lasttarget fs))) (\<lambda>(pc, lasttarget).
       if pc > lasttarget then
         cbind (ins_at (pc - 1)) (\<lambda>ip.
           let pfrom = bc_a ip in
           if bc_op ip = op_of BC_KPRI \<and> bc_d ip = NOT KTAP_TNIL then
             (if from = pfrom then
                (if n = 1 then cret () else ins_put (pc - 1) (BCINS_AD (op_of BC_KNIL) from (from + n - 1)))
              else if from = pfrom + 1 then ins_put (pc - 1) (BCINS_AD (op_of BC_KNIL) pfrom (pfrom + (n + 1) - 1))
              else bcemit_nil_new from n)
           else if bc_op ip = op_of BC_KNIL then
             (if pfrom \<le> from \<and> from \<le> bc_d ip + 1 then
                (if from + n - 1 > bc_d ip then ins_put (pc - 1) (setbc_d ip (from + n - 1)) else cret ())
              else bcemit_nil_new from n)
           else bcemit_nil_new from n)
       else bcemit_nil_new from n)"

definition expr_toreg_nobranch :: "ExpDesc \<Rightarrow> u32 \<Rightarrow> ExpDesc cg" where
  "expr_toreg_nobranch e reg =
     cbind (expr_discharge e) (\<lambda>e.
       let fin = cret (e\<lparr>e_info := reg, e_k := VNONRELOC\<rparr>); emit = \<lambda>ins. cbind (bcemit_INS ins) (\<lambda>_. fin) in
       if e_k e = VKSTR then cbind (const_str e) (\<lambda>k. emit (BCINS_AD (op_of BC_KSTR) reg k))
       else if e_k e = VKNUM then
         (let n = expr_numberV e in
          if 0 \<le> sint n \<and> sint n \<le> 0xffff then emit (BCINS_AD (op_of BC_KSHORT) reg (ucast n))
          else cbind (const_num e) (\<lambda>k. emit (BCINS_AD (op_of BC_KNUM) reg k)))
       else if e_k e = VRELOCABLE then
         cbind (ins_at (e_info e)) (\<lambda>i. cbind (ins_put (e_info e) (setbc_a i reg)) (\<lambda>_. fin))
       else if e_k e = VNONRELOC then (if reg = e_info e then fin else emit (BCINS_AD (op_of BC_MOV) reg (e_info e)))
       else if e_k e = VKNIL then cbind (bcemit_nil reg 1) (\<lambda>_. fin)
       else if kord (e_k e) \<le> kord VKTRUE then emit (BCINS_AD (op_of BC_KPRI) reg (const_pri e))
       else if e_k e = VARGN then emit (BCINS_AD (op_of BC_VARGN) reg (e_info e))
       else if kord VARGN < kord (e_k e) \<and> kord (e_k e) < kord VMAX then
         emit (BCINS_AD (op_of (kord (e_k e) - kord VARGN + BC_VARGN)) reg 0)
       else cret e)"

definition bcemit_jmp :: "u32 cg" where
  "bcemit_jmp =
     cbind (cget (\<lambda>fs. (fs_jpc fs, fs_pc fs - 1, fs_lasttarget fs, fs_freereg fs))) (\<lambda>(jpc, j, lasttarget, freereg).
     cbind (cmod (\<lambda>fs. fs\<lparr>fs_jpc := NO_JMP\<rparr>)) (\<lambda>_.
     cbind (if sint j \<ge> sint lasttarget then
              cbind (ins_at j) (\<lambda>ip.
                if bc_op ip = op_of BC_UCLO then cbind (ins_put j (setbc_j ip (-1))) (\<lambda>_. cret j)
                else bcemit_AJ BC_JMP freereg (-1))
            else bcemit_AJ BC_JMP freereg (-1)) (\<lambda>j. jmp_append j jpc)))"

definition expr_toreg :: "ExpDesc \<Rightarrow> u32 \<Rightarrow> ExpDesc cg" where
  "expr_toreg e reg =
     cbind (expr_toreg_nobranch e reg) (\<lambda>e.
     cbind (if e_k e = VJMP then jmp_append (e_t e) (e_info e) else cret (e_t e)) (\<lambda>t.
     let e = e\<lparr>e_t := t\<rparr> in
     cbind (if expr_hasjump e then
              cbind (jmp_novalue (e_t e)) (\<lambda>nt.
              cbind (if nt then cret True else jmp_novalue (e_f e)) (\<lambda>nv.
              cbind (if nv then
                       cbind (if e_k e = VJMP then cret NO_JMP else bcemit_jmp) (\<lambda>jval.
                       cbind (bcemit_AD BC_KPRI reg 1) (\<lambda>jfalse.
                       cbind (cget fs_freereg) (\<lambda>freereg.
                       cbind (bcemit_AJ BC_JMP freereg 1) (\<lambda>_.
                       cbind (bcemit_AD BC_KPRI reg 2) (\<lambda>jtrue.
                       cbind (jmp_tohere jval) (\<lambda>_. cret (jfalse, jtrue)))))))
                     else cret (NO_JMP, NO_JMP)) (\<lambda>(jfalse, jtrue).
              cbind (cget fs_pc) (\<lambda>jend.
              cbind (cmod (\<lambda>fs. fs\<lparr>fs_lasttarget := jend\<rparr>)) (\<lambda>_.
              cbind (jmp_patchval (e_f e) jend reg jfalse) (\<lambda>_.
              jmp_patchval (e_t e) jend reg jtrue))))))
            else cret ()) (\<lambda>_.
     cret (e\<lparr>e_f := NO_JMP, e_t := NO_JMP, e_info := reg, e_k := VNONRELOC\<rparr>))))"

definition expr_tonextreg :: "ExpDesc \<Rightarrow> ExpDesc cg" where
  "expr_tonextreg e =
     cbind (expr_discharge e) (\<lambda>e.
     cbind (expr_free e) (\<lambda>_.
     cbind (bcreg_reserve 1) (\<lambda>_.
     cbind (cget fs_freereg) (\<lambda>freereg. expr_toreg e (freereg - 1)))))"

definition expr_toanyreg :: "ExpDesc \<Rightarrow> ExpDesc cg" where
  "expr_toanyreg e =
     cbind (expr_discharge e) (\<lambda>e.
     cbind (cget fs_nactvar) (\<lambda>nactvar.
       if e_k e = VNONRELOC \<and> \<not> expr_hasjump e then cret e
       else if e_k e = VNONRELOC \<and> e_info e \<ge> nactvar then expr_toreg e (e_info e)
       else expr_tonextreg e))"

definition expr_toval :: "ExpDesc \<Rightarrow> ExpDesc cg" where
  "expr_toval e = (if expr_hasjump e then expr_toanyreg e else expr_discharge e)"

definition VSTACK_VAR_RW :: u8 where "VSTACK_VAR_RW = 1"

definition mark_rw :: "u32 \<Rightarrow> unit cg" where
  "mark_rw i =
     cbind (cget fs_vinfo) (\<lambda>vs.
       if unat i < length vs then cmod (\<lambda>fs. fs\<lparr>fs_vinfo := (fs_vinfo fs)[unat i := (fs_vinfo fs ! unat i) OR VSTACK_VAR_RW]\<rparr>)
       else cfail CgFault)"

text \<open>The instruction that stores a register into an indexed variable, by the kind of the index.\<close>

definition index_ins :: "nat \<Rightarrow> nat \<Rightarrow> nat \<Rightarrow> ExpDesc \<Rightarrow> u32 \<Rightarrow> bcins" where
  "index_ins ops opb opv var ra =
     (let rc = e_aux var in
      if sint rc < 0 then BCINS_ABC (op_of ops) ra (e_info var) (NOT rc)
      else if rc > BCMAX_C then BCINS_ABC (op_of opb) ra (e_info var) (rc - (BCMAX_C + 1))
      else BCINS_ABC (op_of opv) ra (e_info var) rc)"

definition bcemit_store :: "ExpDesc \<Rightarrow> ExpDesc \<Rightarrow> unit cg" where
  "bcemit_store var e =
     (let store = \<lambda>ins e. cbind (bcemit_INS ins) (\<lambda>_. expr_free e) in
      if e_k var = VLOCAL then
        cbind (mark_rw (e_aux var)) (\<lambda>_.
        cbind (expr_free e) (\<lambda>_.
        cbind (expr_toreg e (e_info var)) (\<lambda>_. cret ())))
      else if e_k var = VUPVAL then
        cbind (mark_rw (e_aux var)) (\<lambda>_.
        cbind (expr_toval e) (\<lambda>e.
          if kord (e_k e) \<le> kord VKTRUE then store (BCINS_AD (op_of BC_USETP) (e_info var) (const_pri e)) e
          else if e_k e = VKSTR then cbind (const_str e) (\<lambda>k. store (BCINS_AD (op_of BC_USETS) (e_info var) k) e)
          else if e_k e = VKNUM then cbind (const_num e) (\<lambda>k. store (BCINS_AD (op_of BC_USETN) (e_info var) k) e)
          else cbind (expr_toanyreg e) (\<lambda>e. store (BCINS_AD (op_of BC_USETV) (e_info var) (e_info e)) e)))
      else if e_k var = VGLOBAL then
        cbind (expr_toanyreg e) (\<lambda>e.
        cbind (const_str var) (\<lambda>k. store (BCINS_AD (op_of BC_GSET) (e_info e) k) e))
      else
        cbind (expr_toanyreg e) (\<lambda>e. store (index_ins BC_TSETS BC_TSETB BC_TSETV var (e_info e)) e))"

definition bcemit_store_incr :: "ExpDesc \<Rightarrow> ExpDesc \<Rightarrow> unit cg" where
  "bcemit_store_incr var e =
     (let store = \<lambda>ins e. cbind (bcemit_INS ins) (\<lambda>_. expr_free e) in
      if e_k var = VLOCAL then cfail (CgError XSYMBOL)
      else if e_k var = VUPVAL then
        cbind (mark_rw (e_aux var)) (\<lambda>_.
        cbind (expr_toval e) (\<lambda>e.
          if e_k e = VKNUM then cbind (const_num e) (\<lambda>k. store (BCINS_AD (op_of BC_UINCN) (e_info var) k) e)
          else if kord (e_k e) \<le> kord VKTRUE \<or> e_k e = VKSTR then cfail (CgError XSYMBOL)
          else cbind (expr_toanyreg e) (\<lambda>e. store (BCINS_AD (op_of BC_UINCV) (e_info var) (e_info e)) e)))
      else if e_k var = VGLOBAL then
        cbind (expr_toanyreg e) (\<lambda>e.
        cbind (const_str var) (\<lambda>k. store (BCINS_AD (op_of BC_GINC) (e_info e) k) e))
      else
        cbind (expr_toanyreg e) (\<lambda>e. store (index_ins BC_TINCS BC_TINCB BC_TINCV var (e_info e)) e))"

definition bcemit_method :: "ExpDesc \<Rightarrow> ExpDesc \<Rightarrow> ExpDesc cg" where
  "bcemit_method e key =
     cbind (expr_toanyreg e) (\<lambda>e.
     let obj = e_info e in
     cbind (expr_free e) (\<lambda>_.
     cbind (cget fs_freereg) (\<lambda>func.
     cbind (bcemit_AD BC_MOV (func + 1) obj) (\<lambda>_.
     cbind (const_str key) (\<lambda>idx.
     cbind (if idx \<le> BCMAX_C then cbind (bcreg_reserve 2) (\<lambda>_. bcemit_ABC BC_TGETS func obj idx)
            else
              cbind (bcreg_reserve 3) (\<lambda>_.
              cbind (bcemit_AD BC_KSTR (func + 2) idx) (\<lambda>_.
              cbind (bcemit_ABC BC_TGETV func obj (func + 2)) (\<lambda>pc.
              cbind (cmod (\<lambda>fs. fs\<lparr>fs_freereg := fs_freereg fs - 1\<rparr>)) (\<lambda>_. cret pc))))) (\<lambda>_.
     cret (e\<lparr>e_info := func, e_k := VNONRELOC\<rparr>)))))))"


section \<open>Branches\<close>

definition invertcond :: "ExpDesc \<Rightarrow> unit cg" where
  "invertcond e =
     cbind (ins_at (e_info e - 1)) (\<lambda>ip. ins_put (e_info e - 1) (setbc_op ip (bc_op ip XOR 1)))"

definition bcemit_branch_reg :: "ExpDesc \<Rightarrow> bool \<Rightarrow> (ExpDesc \<times> u32) cg" where
  "bcemit_branch_reg e cond =
     cbind (if e_k e \<noteq> VNONRELOC then
              cbind (bcreg_reserve 1) (\<lambda>_.
              cbind (cget fs_freereg) (\<lambda>freereg. expr_toreg_nobranch e (freereg - 1)))
            else cret e) (\<lambda>e.
     cbind (bcemit_AD (if cond then BC_ISTC else BC_ISFC) NO_REG (e_info e)) (\<lambda>_.
     cbind bcemit_jmp (\<lambda>pc.
     cbind (expr_free e) (\<lambda>_. cret (e, pc)))))"

definition bcemit_branch :: "ExpDesc \<Rightarrow> bool \<Rightarrow> (ExpDesc \<times> u32) cg" where
  "bcemit_branch e cond =
     (if e_k e = VRELOCABLE then
        cbind (ins_at (e_info e)) (\<lambda>ip.
          if bc_op ip = op_of BC_NOT then
            cbind (ins_put (e_info e) (BCINS_AD (op_of (if cond then BC_ISF else BC_IST)) 0 (bc_d ip))) (\<lambda>_.
            cbind bcemit_jmp (\<lambda>pc. cret (e, pc)))
          else bcemit_branch_reg e cond)
      else bcemit_branch_reg e cond)"

definition bcemit_branch_t :: "ExpDesc \<Rightarrow> ExpDesc cg" where
  "bcemit_branch_t e =
     cbind (expr_discharge e) (\<lambda>e.
     cbind (if e_k e = VKSTR \<or> e_k e = VKNUM \<or> e_k e = VKTRUE then cret (e, NO_JMP)
            else if e_k e = VJMP then cbind (invertcond e) (\<lambda>_. cret (e, e_info e))
            else if e_k e = VKFALSE \<or> e_k e = VKNIL then
              cbind (expr_toreg_nobranch e NO_REG) (\<lambda>e. cbind bcemit_jmp (\<lambda>pc. cret (e, pc)))
            else bcemit_branch e False) (\<lambda>(e, pc).
     cbind (jmp_append (e_f e) pc) (\<lambda>f.
     cbind (jmp_tohere (e_t e)) (\<lambda>_. cret (e\<lparr>e_f := f, e_t := NO_JMP\<rparr>)))))"

definition bcemit_branch_f :: "ExpDesc \<Rightarrow> ExpDesc cg" where
  "bcemit_branch_f e =
     cbind (expr_discharge e) (\<lambda>e.
     cbind (if e_k e = VKNIL \<or> e_k e = VKFALSE then cret (e, NO_JMP)
            else if e_k e = VJMP then cret (e, e_info e)
            else if e_k e = VKSTR \<or> e_k e = VKNUM \<or> e_k e = VKTRUE then
              cbind (expr_toreg_nobranch e NO_REG) (\<lambda>e. cbind bcemit_jmp (\<lambda>pc. cret (e, pc)))
            else bcemit_branch e True) (\<lambda>(e, pc).
     cbind (jmp_append (e_t e) pc) (\<lambda>t.
     cbind (jmp_tohere (e_f e)) (\<lambda>_. cret (e\<lparr>e_t := t, e_f := NO_JMP\<rparr>)))))"


section \<open>Operators\<close>

text \<open>Signed arithmetic of \<^verbatim>\<open>ktap_number\<close>, a \<^verbatim>\<open>long\<close>; \<open>None\<close>: the result does not fit, or the division traps.\<close>

definition long_fits :: "int \<Rightarrow> u64 option" where
  "long_fits n = (if - (2 ^ 63) \<le> n \<and> n < 2 ^ 63 then Some (word_of_int n) else None)"

fun opr_ord :: "BinOpr \<Rightarrow> nat" where
  "opr_ord OPR_ADD = 0" | "opr_ord OPR_SUB = 1" | "opr_ord OPR_MUL = 2" | "opr_ord OPR_DIV = 3" | "opr_ord OPR_MOD = 4"
| "opr_ord OPR_POW = 5" | "opr_ord OPR_CONCAT = 6" | "opr_ord OPR_NE = 7" | "opr_ord OPR_EQ = 8" | "opr_ord OPR_LT = 9"
| "opr_ord OPR_GE = 10" | "opr_ord OPR_LE = 11" | "opr_ord OPR_GT = 12" | "opr_ord OPR_AND = 13" | "opr_ord OPR_OR = 14"
| "opr_ord OPR_NOBINOPR = 15"

definition number_foldarith :: "u64 \<Rightarrow> u64 \<Rightarrow> nat \<Rightarrow> u64 option" where
  "number_foldarith x y op =
     (if op = 0 then long_fits (sint x + sint y)
      else if op = 1 then long_fits (sint x - sint y)
      else if op = 2 then long_fits (sint x * sint y)
      else if op = 3 then (if sint y = 0 then None else long_fits (sint x sdiv sint y))
      else Some x)"

definition foldarith :: "BinOpr \<Rightarrow> ExpDesc \<Rightarrow> ExpDesc \<Rightarrow> ExpDesc option cg" where
  "foldarith opr e1 e2 =
     (if \<not> expr_isnumk_nojump e1 \<or> \<not> expr_isnumk_nojump e2 then cret None
      else if opr = OPR_DIV \<and> expr_numberV e2 = 0 then cret None
      else if opr = OPR_MOD then cret None
      else case number_foldarith (expr_numberV e1) (expr_numberV e2) (opr_ord opr) of
             None \<Rightarrow> cfail CgFault
           | Some n \<Rightarrow> cret (Some (e1\<lparr>e_nval := set_number n\<rparr>)))"

definition drop_temp :: "ExpDesc \<Rightarrow> unit cg" where
  "drop_temp e = cmod (\<lambda>fs. if e_k e = VNONRELOC \<and> e_info e \<ge> fs_nactvar fs then fs\<lparr>fs_freereg := fs_freereg fs - 1\<rparr> else fs)"

text \<open>The operands of an arithmetic instruction: the opcode, \<open>rb\<close>, \<open>rc\<close> and the expressions as they are left.\<close>

definition arith_operands :: "BinOpr \<Rightarrow> ExpDesc \<Rightarrow> ExpDesc \<Rightarrow> (nat \<times> u32 \<times> u32 \<times> ExpDesc \<times> ExpDesc) cg" where
  "arith_operands opr e1 e2 =
     (if opr = OPR_POW then
        cbind (expr_toanyreg e2) (\<lambda>e2. cbind (expr_toanyreg e1) (\<lambda>e1. cret (BC_POW, e_info e1, e_info e2, e1, e2)))
      else
        let op = opr_ord opr + BC_ADDVV in
        cbind (expr_toval e2) (\<lambda>e2.
        cbind (if expr_isnumk e2 then
                 cbind (const_num e2) (\<lambda>k.
                   if k \<le> BCMAX_C then cret (op - (BC_ADDVV - BC_ADDVN), k, e2)
                   else cbind (expr_toanyreg e2) (\<lambda>e2. cret (op, e_info e2, e2)))
               else cbind (expr_toanyreg e2) (\<lambda>e2. cret (op, e_info e2, e2))) (\<lambda>(op, rc, e2).
        cbind (expr_toval e1) (\<lambda>e1.
          if expr_isnumk e1 \<and> \<not> expr_isnumk e2 then
            cbind (const_num e1) (\<lambda>t.
              if t \<le> BCMAX_B then cret (op - (BC_ADDVV - BC_ADDNV), rc, t, e1, e2)
              else cbind (expr_toanyreg e1) (\<lambda>e1. cret (op, e_info e1, rc, e1, e2)))
          else cbind (expr_toanyreg e1) (\<lambda>e1. cret (op, e_info e1, rc, e1, e2))))))"

definition bcemit_arith :: "BinOpr \<Rightarrow> ExpDesc \<Rightarrow> ExpDesc \<Rightarrow> ExpDesc cg" where
  "bcemit_arith opr e1 e2 =
     cbind (foldarith opr e1 e2) (\<lambda>folded.
       case folded of
         Some e \<Rightarrow> cret e
       | None \<Rightarrow>
           cbind (arith_operands opr e1 e2) (\<lambda>(op, rb, rc, e1, e2).
           cbind (drop_temp e1) (\<lambda>_.
           cbind (drop_temp e2) (\<lambda>_.
           cbind (bcemit_ABC op 0 rb rc) (\<lambda>pc. cret (e1\<lparr>e_info := pc, e_k := VRELOCABLE\<rparr>))))))"

text \<open>Equality: a constant goes to the second operand.\<close>

definition comp_eq :: "BinOpr \<Rightarrow> ExpDesc \<Rightarrow> ExpDesc \<Rightarrow> (bcins \<times> ExpDesc \<times> ExpDesc) cg" where
  "comp_eq opr e1 e2 =
     (let op = (if opr = OPR_EQ then BC_ISEQV else BC_ISNEV) in
      cbind (expr_toanyreg e1) (\<lambda>e1.
      let ra = e_info e1 in
      cbind (expr_toval e2) (\<lambda>e2.
        if e_k e2 = VKNIL \<or> e_k e2 = VKFALSE \<or> e_k e2 = VKTRUE then
          cret (BCINS_AD (op_of (op + (BC_ISEQP - BC_ISEQV))) ra (const_pri e2), e1, e2)
        else if e_k e2 = VKSTR then
          cbind (const_str e2) (\<lambda>k. cret (BCINS_AD (op_of (op + (BC_ISEQS - BC_ISEQV))) ra k, e1, e2))
        else if e_k e2 = VKNUM then
          cbind (const_num e2) (\<lambda>k. cret (BCINS_AD (op_of (op + (BC_ISEQN - BC_ISEQV))) ra k, e1, e2))
        else cbind (expr_toanyreg e2) (\<lambda>e2. cret (BCINS_AD (op_of op) ra (e_info e2), e1, e2)))))"

text \<open>Order: greater-than and greater-or-equal swap their operands.\<close>

definition comp_order :: "nat \<Rightarrow> ExpDesc \<Rightarrow> ExpDesc \<Rightarrow> (bcins \<times> ExpDesc \<times> ExpDesc) cg" where
  "comp_order op e1 e2 =
     cbind (expr_toanyreg e2) (\<lambda>e2.
     cbind (expr_toanyreg e1) (\<lambda>e1. cret (BCINS_AD (op_of op) (e_info e1) (e_info e2), e1, e2)))"

definition bcemit_comp :: "BinOpr \<Rightarrow> ExpDesc \<Rightarrow> ExpDesc \<Rightarrow> ExpDesc cg" where
  "bcemit_comp opr e1 e2 =
     cbind (expr_toval e1) (\<lambda>e1.
     let op = opr_ord opr - opr_ord OPR_LT;
         swapped = (if opr = OPR_EQ \<or> opr = OPR_NE then expr_isk e1 else odd op) in
     cbind (if opr = OPR_EQ \<or> opr = OPR_NE then (if swapped then comp_eq opr e2 e1 else comp_eq opr e1 e2)
            else if swapped then cbind (expr_toval e2) (\<lambda>e2. comp_order (nat (int op XOR 3) + BC_ISLT) e2 e1)
            else comp_order (op + BC_ISLT) e1 e2) (\<lambda>(ins, a, b).
     cbind (drop_temp a) (\<lambda>_.
     cbind (drop_temp b) (\<lambda>_.
     cbind (bcemit_INS ins) (\<lambda>_.
     cbind bcemit_jmp (\<lambda>pc. cret ((if swapped then b else a)\<lparr>e_info := pc, e_k := VJMP\<rparr>)))))))"

definition bcemit_binop_left :: "BinOpr \<Rightarrow> ExpDesc \<Rightarrow> ExpDesc cg" where
  "bcemit_binop_left op e =
     (if op = OPR_AND then bcemit_branch_t e
      else if op = OPR_OR then bcemit_branch_f e
      else if op = OPR_CONCAT then expr_tonextreg e
      else if op = OPR_EQ \<or> op = OPR_NE then (if \<not> expr_isk_nojump e then expr_toanyreg e else cret e)
      else if \<not> expr_isnumk_nojump e then expr_toanyreg e else cret e)"

definition bcemit_concat :: "ExpDesc \<Rightarrow> ExpDesc \<Rightarrow> ExpDesc cg" where
  "bcemit_concat e1 e2 =
     cbind (expr_toval e2) (\<lambda>e2.
     cbind (if e_k e2 = VRELOCABLE then cbind (ins_at (e_info e2)) (\<lambda>i. cret (bc_op i = op_of BC_CAT)) else cret False) (\<lambda>merge.
       if merge then
         cbind (expr_free e1) (\<lambda>_.
         cbind (ins_at (e_info e2)) (\<lambda>i.
         cbind (ins_put (e_info e2) (setbc_b i (e_info e1))) (\<lambda>_. cret (e1\<lparr>e_info := e_info e2, e_k := VRELOCABLE\<rparr>))))
       else
         cbind (expr_tonextreg e2) (\<lambda>e2.
         cbind (expr_free e2) (\<lambda>_.
         cbind (expr_free e1) (\<lambda>_.
         cbind (bcemit_ABC BC_CAT 0 (e_info e1) (e_info e2)) (\<lambda>pc. cret (e1\<lparr>e_info := pc, e_k := VRELOCABLE\<rparr>)))))))"

definition bcemit_binop :: "BinOpr \<Rightarrow> ExpDesc \<Rightarrow> ExpDesc \<Rightarrow> ExpDesc cg" where
  "bcemit_binop op e1 e2 =
     (if opr_ord op \<le> opr_ord OPR_POW then bcemit_arith op e1 e2
      else if op = OPR_AND then
        cbind (expr_discharge e2) (\<lambda>e2. cbind (jmp_append (e_f e2) (e_f e1)) (\<lambda>f. cret (e2\<lparr>e_f := f\<rparr>)))
      else if op = OPR_OR then
        cbind (expr_discharge e2) (\<lambda>e2. cbind (jmp_append (e_t e2) (e_t e1)) (\<lambda>t. cret (e2\<lparr>e_t := t\<rparr>)))
      else if op = OPR_CONCAT then bcemit_concat e1 e2
      else bcemit_comp op e1 e2)"

definition bcemit_unop_ins :: "nat \<Rightarrow> ExpDesc \<Rightarrow> ExpDesc cg" where
  "bcemit_unop_ins op e =
     cbind (expr_free e) (\<lambda>_.
     cbind (bcemit_AD op 0 (e_info e)) (\<lambda>pc. cret (e\<lparr>e_info := pc, e_k := VRELOCABLE\<rparr>)))"

definition bcemit_unop :: "nat \<Rightarrow> ExpDesc \<Rightarrow> ExpDesc cg" where
  "bcemit_unop op e =
     (if op = BC_NOT then
        (let e = e\<lparr>e_f := e_t e, e_t := e_f e\<rparr> in
         cbind (jmp_dropval (e_f e)) (\<lambda>_.
         cbind (jmp_dropval (e_t e)) (\<lambda>_.
         cbind (expr_discharge e) (\<lambda>e.
           if e_k e = VKNIL \<or> e_k e = VKFALSE then cret (e\<lparr>e_k := VKTRUE\<rparr>)
           else if expr_isk e then cret (e\<lparr>e_k := VKFALSE\<rparr>)
           else if e_k e = VJMP then cbind (invertcond e) (\<lambda>_. cret e)
           else if e_k e = VRELOCABLE then
             cbind (bcreg_reserve 1) (\<lambda>_.
             cbind (cget fs_freereg) (\<lambda>freereg.
             cbind (ins_at (e_info e)) (\<lambda>i.
             cbind (ins_put (e_info e) (setbc_a i (freereg - 1))) (\<lambda>_.
             bcemit_unop_ins op (e\<lparr>e_info := freereg - 1, e_k := VNONRELOC\<rparr>)))))
           else bcemit_unop_ins op e))))
      else if op = BC_UNM \<and> \<not> expr_hasjump e \<and> expr_isnumk e \<and> \<not> expr_numiszero e then
        (if is_number (e_nval e) then
           (case long_fits (- sint (expr_numberV e)) of None \<Rightarrow> cfail CgFault | Some n \<Rightarrow> cret (e\<lparr>e_nval := set_number n\<rparr>))
         else cret e)
      else cbind (expr_toanyreg e) (bcemit_unop_ins op))"

end
