(* ===== verification/Ktap_Codegen_Correct.thy ===== *)
theory Ktap_Codegen_Correct
  imports Ktap_Codegen Ktap_Vm
begin

text \<open>
  Correctness of the code generator.  The jump list of an expression is a chain through the offsets of its own jump
  instructions: \<open>jchain\<close> describes it, and patching sends every jump of the chain to its target, at once or when
  the next instruction is emitted.  Constants get their slot in the constant table, constant folding computes what
  the interpreter computes, and a constant loaded by the emitted instruction is the constant of the expression.
\<close>

section \<open>Jump lists\<close>

lemma cg_run [simp]:
  "cret x fs = Inr (x, fs)" "cfail e fs = Inl e" "cget f fs = Inr (f fs, fs)" "cmod g fs = Inr ((), g fs)"
  by (simp_all add: cg_simps)

lemma cbind_Inr [simp]: "m fs = Inr (x, fs') \<Longrightarrow> cbind m k fs = k x fs'"
  by (simp add: cbind_def)

lemma cbind_Inl [simp]: "m fs = Inl e \<Longrightarrow> cbind m k fs = Inl e"
  by (simp add: cbind_def)

abbreviation ins :: "(bcins \<times> nat) list \<Rightarrow> nat \<Rightarrow> bcins" where "ins bc x \<equiv> fst (bc ! x)"

text \<open>Jumps, as opposed to the tests in front of them; the target of a jump; its link in a list.\<close>

definition jump_ins :: "bcins \<Rightarrow> bool" where
  "jump_ins i \<longleftrightarrow> bc_a i \<noteq> NO_REG \<and> bc_op i \<noteq> op_of BC_ISTC \<and> bc_op i \<noteq> op_of BC_ISFC"

definition target :: "(bcins \<times> nat) list \<Rightarrow> nat \<Rightarrow> u32" where
  "target bc x = of_nat x + 1 + bc_d (ins bc x) - BCBIAS_J"

definition link :: "(bcins \<times> nat) list \<Rightarrow> nat \<Rightarrow> u32" where
  "link bc x = (if target bc x = of_nat x then NO_JMP else target bc x)"

fun jchain :: "(bcins \<times> nat) list \<Rightarrow> u32 \<Rightarrow> nat list \<Rightarrow> bool" where
  "jchain bc l [] \<longleftrightarrow> l = NO_JMP"
| "jchain bc l (x # xs) \<longleftrightarrow> l = of_nat x \<and> x < length bc \<and> jump_ins (ins bc x) \<and> jchain bc (link bc x) xs"

definition code_ok :: "fstate \<Rightarrow> bool" where "code_ok fs \<longleftrightarrow> length (fs_bc fs) \<le> 2 ^ 26"

lemma pos_word:
  assumes "x \<le> 2 ^ 26"
  shows "unat (of_nat x :: u32) = x" "(of_nat x :: u32) \<noteq> NO_JMP" "uint (of_nat x :: u32) = int x"
proof -
  show u: "unat (of_nat x :: u32) = x" using assms by (simp add: unat_of_nat32)
  show "(of_nat x :: u32) \<noteq> NO_JMP"
  proof
    assume "(of_nat x :: u32) = NO_JMP"
    then have "x = unat NO_JMP" using u by metis
    moreover have "unat NO_JMP = 4294967295"
      by (simp add: NO_JMP_def unsigned_minus_1_eq_mask mask_eq_exp_minus_1)
    ultimately show False using assms by simp
  qed
  show "uint (of_nat x :: u32) = int x" using u by (metis uint_nat)
qed

lemma bc_j_word: "word_of_int (bc_j i) = bc_d i - BCBIAS_J"
  by (simp add: bc_j_def)

lemma bc_j_NO_JMP: "(word_of_int (bc_j i) = NO_JMP) \<longleftrightarrow> (y + 1 + bc_d i - BCBIAS_J = y)"
  by (simp add: bc_j_word NO_JMP_def algebra_simps)

lemma ins_at_run [simp]: "x < length (fs_bc fs) \<Longrightarrow> code_ok fs \<Longrightarrow> ins_at (of_nat x) fs = Inr (ins (fs_bc fs) x, fs)"
  by (simp add: ins_at_def code_ok_def pos_word)

lemma ins_put_run [simp]:
  "x < length (fs_bc fs) \<Longrightarrow> code_ok fs \<Longrightarrow>
   ins_put (of_nat x) i fs = Inr ((), fs\<lparr>fs_bc := (fs_bc fs)[x := (i, snd (fs_bc fs ! x))]\<rparr>)"
  by (simp add: ins_put_def code_ok_def pos_word)

lemma jmp_next_run [simp]:
  assumes "x < length (fs_bc fs)" "code_ok fs"
  shows "jmp_next (of_nat x) fs = Inr (link (fs_bc fs) x, fs)"
proof -
  let ?i = "ins (fs_bc fs) x"
  have "uint (of_nat x :: u32) = int x" using assms pos_word(3) [of x] by (simp add: code_ok_def)
  then have "(word_of_int (uint (of_nat x :: u32) + 1 + bc_j ?i) :: u32) = of_nat x + 1 + word_of_int (bc_j ?i)" by simp
  then have "word_of_int (uint (of_nat x :: u32) + 1 + bc_j ?i) = target (fs_bc fs) x"
    by (simp only: bc_j_word target_def add_diff_eq)
  then show ?thesis using assms bc_j_NO_JMP [of ?i "of_nat x"]
    by (simp add: jmp_next_def Let_def link_def target_def del: of_int_add)
qed

definition reach :: "nat \<Rightarrow> u32 \<Rightarrow> bool" where "reach x dest \<longleftrightarrow> dest - (of_nat x + 1) + BCBIAS_J \<le> BCMAX_D"

definition set_jump :: "(bcins \<times> nat) list \<Rightarrow> nat \<Rightarrow> u32 \<Rightarrow> (bcins \<times> nat) list" where
  "set_jump bc x dest = bc[x := (setbc_d (ins bc x) (dest - (of_nat x + 1) + BCBIAS_J), snd (bc ! x))]"

lemma jmp_patchins_run:
  assumes "x < length (fs_bc fs)" "code_ok fs"
  shows "jmp_patchins (of_nat x) dest fs =
    (if reach x dest then Inr ((), fs\<lparr>fs_bc := set_jump (fs_bc fs) x dest\<rparr>) else Inl (CgError XJUMP))"
  using assms by (auto simp: jmp_patchins_def reach_def set_jump_def Let_def not_le)

lemma set_jump_simps [simp]:
  "length (set_jump bc x dest) = length bc"
  "i \<noteq> x \<Longrightarrow> set_jump bc x dest ! i = bc ! i"
  by (simp_all add: set_jump_def)

lemma and_half: "w \<le> 0xffff \<Longrightarrow> w AND 0xffff = (w :: u32)"
proof -
  assume "w \<le> 0xffff"
  then have "w < 65536" by (simp add: word_le_def word_less_def)
  then show ?thesis using and_ffff_take_bit [of w] take_half_id by simp
qed

lemma set_jump_target:
  assumes "x < length bc" "reach x dest"
  shows "target (set_jump bc x dest) x = dest" "jump_ins (ins (set_jump bc x dest) x) = jump_ins (ins bc x)"
  using assms by (simp_all add: set_jump_def target_def jump_ins_def bcfield reach_def and_half algebra_simps)

lemma target_other [simp]: "i \<noteq> x \<Longrightarrow> target (set_jump bc x dest) i = target bc i"
  "i \<noteq> x \<Longrightarrow> link (set_jump bc x dest) i = link bc i"
  by (simp_all add: target_def link_def)

lemma jchain_set_jump: "x \<notin> set xs \<Longrightarrow> jchain (set_jump bc x dest) l xs = jchain bc l xs"
  by (induction bc l xs rule: jchain.induct) auto

lemma jchain_below: "jchain bc l xs \<Longrightarrow> x \<in> set xs \<Longrightarrow> x < length bc \<and> jump_ins (ins bc x)"
  by (induction bc l xs rule: jchain.induct) auto

lemma jchain_length: "jchain bc l xs \<Longrightarrow> distinct xs \<Longrightarrow> length xs \<le> length bc"
  using jchain_below [of bc l xs] distinct_card [of xs] card_mono [of "{..<length bc}" "set xs"] by auto

lemma jchain_head: "jchain bc l xs \<Longrightarrow> length bc \<le> 2 ^ 26 \<Longrightarrow> l = NO_JMP \<longleftrightarrow> xs = []"
  by (cases xs) (auto simp: pos_word)

lemma last_loop_run:
  "jchain (fs_bc fs) l xs \<Longrightarrow> xs \<noteq> [] \<Longrightarrow> length xs \<le> n \<Longrightarrow> code_ok fs \<Longrightarrow> last_loop n l fs = Inr (of_nat (last xs), fs)"
proof (induction xs arbitrary: l n)
  case (Cons x xs)
  obtain m where n: "n = Suc m" using Cons.prems(3) by (cases n) auto
  have x: "l = of_nat x" "x < length (fs_bc fs)" "jchain (fs_bc fs) (link (fs_bc fs) x) xs" using Cons.prems(1) by auto
  have nil: "link (fs_bc fs) x = NO_JMP \<longleftrightarrow> xs = []"
    using jchain_head [OF x(3)] Cons.prems(4) by (simp add: code_ok_def)
  show ?case using Cons.IH [OF x(3), of m] Cons.prems(3,4) n x nil by (cases "xs = []") auto
qed simp

text \<open>Appending list \<open>ys\<close> to list \<open>xs\<close>.\<close>

lemma jchain_append:
  assumes "jchain bc l xs" "jchain bc l2 ys" "xs \<noteq> []" "distinct (xs @ ys)" "reach (last xs) l2" "length bc \<le> 2 ^ 26"
    and "ys \<noteq> []"
  shows "jchain (set_jump bc (last xs) l2) l (xs @ ys)"
  using assms
proof (induction xs arbitrary: l)
  case (Cons x xs)
  obtain y zs where y: "ys = y # zs" using Cons.prems(7) by (cases ys) auto
  show ?case
  proof (cases "xs = []")
    case True
    have "l2 = of_nat y" "y < length bc" using Cons.prems(2) y by auto
    then have "l2 \<noteq> of_nat x" using Cons.prems(1,4,6) y pos_word [of x] pos_word [of y] by auto
    then have "link (set_jump bc x l2) x = l2" using Cons.prems(1,5) True by (simp add: link_def set_jump_target)
    then show ?thesis using Cons.prems True jchain_set_jump [of x ys bc l2 l2] by (simp add: set_jump_target)
  next
    case False
    then have "jchain (set_jump bc (last xs) l2) (link bc x) (xs @ ys)" using Cons by auto
    moreover have "x \<noteq> last xs" using Cons.prems(4) False by auto
    ultimately show ?thesis using Cons.prems(1) False by simp
  qed
qed simp

lemma jmp_append_run:
  assumes "jchain (fs_bc fs) l1 xs" "jchain (fs_bc fs) l2 ys" "distinct (xs @ ys)" "code_ok fs"
    and "xs \<noteq> [] \<Longrightarrow> ys \<noteq> [] \<Longrightarrow> reach (last xs) l2"
  shows "\<exists>l bc. jmp_append l1 l2 fs = Inr (l, fs\<lparr>fs_bc := bc\<rparr>) \<and> jchain bc l (xs @ ys) \<and> length bc = length (fs_bc fs) \<and>
     (\<forall>i. i \<notin> set xs \<longrightarrow> bc ! i = fs_bc fs ! i)"
proof -
  have len: "length (fs_bc fs) \<le> 2 ^ 26" using assms(4) by (simp add: code_ok_def)
  note h1 = jchain_head [OF assms(1) len] and h2 = jchain_head [OF assms(2) len]
  show ?thesis
  proof (cases "xs = [] \<or> ys = []")
    case True
    then show ?thesis using assms(1,2) h1 h2 by (intro exI [of _ "if ys = [] then l1 else l2"] exI [of _ "fs_bc fs"]) (auto simp: jmp_append_def)
  next
    case False
    then have last: "last xs < length (fs_bc fs)" using jchain_below [OF assms(1), of "last xs"] by simp
    have "length xs \<le> length (fs_bc fs)" using jchain_length [OF assms(1)] assms(3) by simp
    then have "jmp_append l1 l2 fs = Inr (l1, fs\<lparr>fs_bc := set_jump (fs_bc fs) (last xs) l2\<rparr>)"
      using False h1 h2 last_loop_run [OF assms(1) _ _ assms(4)] jmp_patchins_run [OF last assms(4), of l2] assms(5)
      by (simp add: jmp_append_def)
    moreover have "i \<notin> set xs \<Longrightarrow> set_jump (fs_bc fs) (last xs) l2 ! i = fs_bc fs ! i" for i
      using False last_in_set [of xs] by (cases "i = last xs") auto
    ultimately show ?thesis using jchain_append [OF assms(1,2) _ assms(3) _ len] False assms(5)
      by (intro exI [of _ l1] exI [of _ "set_jump (fs_bc fs) (last xs) l2"]) auto
  qed
qed

text \<open>Patching the test in front of a jump changes no jump but, at most, the register field of the next one.\<close>

definition keeps_jumps :: "(bcins \<times> nat) list \<Rightarrow> (bcins \<times> nat) list \<Rightarrow> bool" where
  "keeps_jumps bc bc' \<longleftrightarrow> length bc' = length bc \<and>
     (\<forall>i<length bc. jump_ins (ins bc i) \<longrightarrow> jump_ins (ins bc' i) \<and> bc_d (ins bc' i) = bc_d (ins bc i))"

lemma keeps_jumps_refl [simp]: "keeps_jumps bc bc"
  by (simp add: keeps_jumps_def)

lemma keeps_jumps_trans: "keeps_jumps a b \<Longrightarrow> keeps_jumps b c \<Longrightarrow> keeps_jumps a c"
  by (simp add: keeps_jumps_def)

lemma keeps_jumps_put: "x < length bc \<Longrightarrow> \<not> jump_ins (ins bc x) \<or> jump_ins i \<and> bc_d i = bc_d (ins bc x) \<Longrightarrow> keeps_jumps bc (bc[x := (i, l)])"
  by (auto simp: keeps_jumps_def nth_list_update)

lemma keeps_jumps_chain: "keeps_jumps bc bc' \<Longrightarrow> jchain bc l xs \<Longrightarrow> jchain bc' l xs"
  by (induction bc l xs rule: jchain.induct) (auto simp: keeps_jumps_def link_def target_def)

lemma keeps_jumps_target: "keeps_jumps bc bc' \<Longrightarrow> x < length bc \<Longrightarrow> jump_ins (ins bc x) \<Longrightarrow> target bc' x = target bc x"
  by (simp add: keeps_jumps_def target_def)

definition test_reg :: "u32 \<Rightarrow> bool" where "test_reg reg \<longleftrightarrow> reg = NO_REG \<or> reg < 254"

lemma test_reg_next: "test_reg reg \<Longrightarrow> reg \<noteq> NO_REG \<Longrightarrow> (reg + 1) AND 0xff \<noteq> NO_REG"
proof -
  assume "test_reg reg" "reg \<noteq> NO_REG"
  then have r: "unat reg < 254" by (auto simp: test_reg_def word_less_nat_alt)
  then have "unat (reg + 1) = unat reg + 1" using unat_add_of_nat [of reg 1] by simp
  then have "reg + 1 < 255" "reg + 1 < 256" using r by (simp_all add: word_less_nat_alt)
  then show ?thesis using and_ff_take_bit [of "reg + 1"] take_byte_id [of "reg + 1"] by auto
qed

lemma jmp_patchtestreg_run:
  assumes "x < length (fs_bc fs)" "code_ok fs" "jump_ins (ins (fs_bc fs) x)" "test_reg reg"
  shows "\<exists>ok bc. jmp_patchtestreg (of_nat x) reg fs = Inr (ok, fs\<lparr>fs_bc := bc\<rparr>) \<and> keeps_jumps (fs_bc fs) bc"
proof (cases x)
  case 0
  then have "before (of_nat x) = of_nat 0" by simp
  then show ?thesis using assms 0
    by (intro exI [of _ False] exI [of _ "fs_bc fs"]) (simp add: jmp_patchtestreg_def Let_def jump_ins_def ins_at_run [of 0, simplified])
next
  case (Suc q)
  have q: "q < length (fs_bc fs)" "q \<le> 2 ^ 26" using assms(1,2) Suc by (simp_all add: code_ok_def)
  have "unat (of_nat x :: u32) = x" using pos_word(1) [of x] assms(1,2) by (simp add: code_ok_def)
  then have bef: "before (of_nat x) = of_nat q" "of_nat q + 1 = (of_nat x :: u32)"
    using Suc by (auto simp: word_le_nat_alt)
  let ?i = "ins (fs_bc fs) q" and ?bc = "fs_bc fs"
  have put: "ins_put (of_nat q) i fs = Inr ((), fs\<lparr>fs_bc := ?bc[q := (i, snd (?bc ! q))]\<rparr>)" for i using q(1) assms(2) by simp
  have at: "ins_at (of_nat q) fs = Inr (?i, fs)" using q(1) assms(2) by simp
  consider "bc_op ?i = op_of BC_ISTC \<or> bc_op ?i = op_of BC_ISFC" | "\<not> (bc_op ?i = op_of BC_ISTC \<or> bc_op ?i = op_of BC_ISFC)" "bc_a ?i = NO_REG"
    | "\<not> (bc_op ?i = op_of BC_ISTC \<or> bc_op ?i = op_of BC_ISFC)" "bc_a ?i \<noteq> NO_REG" by blast
  then show ?thesis
  proof cases
    case 1
    then have "\<not> jump_ins ?i" by (auto simp: jump_ins_def)
    then show ?thesis using 1 bef at put q by (auto simp: jmp_patchtestreg_def Let_def keeps_jumps_put)
  next
    case 2
    then have nj: "\<not> jump_ins ?i" by (auto simp: jump_ins_def)
    show ?thesis
    proof (cases "reg = NO_REG")
      case True
      then show ?thesis using 2 bef at put q nj assms(1,2) by (auto simp: jmp_patchtestreg_def Let_def keeps_jumps_put)
    next
      case False
      let ?bc1 = "?bc[q := (setbc_a ?i reg, snd (?bc ! q))]"
      let ?j = "ins ?bc x"
      have k1: "keeps_jumps ?bc ?bc1" using nj q by (simp add: keeps_jumps_put)
      have ok1: "code_ok (fs\<lparr>fs_bc := ?bc1\<rparr>)" "x < length ?bc1" "ins ?bc1 x = ?j" "q \<noteq> x" using assms(1,2) Suc by (simp_all add: code_ok_def)
      have at1: "ins_at (of_nat q + 1) (fs\<lparr>fs_bc := ?bc1\<rparr>) = Inr (?j, fs\<lparr>fs_bc := ?bc1\<rparr>)"
        using ins_at_run [of x "fs\<lparr>fs_bc := ?bc1\<rparr>"] ok1 bef(2) by simp
      have put1: "ins_put (of_nat q + 1) i (fs\<lparr>fs_bc := ?bc1\<rparr>) = Inr ((), fs\<lparr>fs_bc := ?bc1[x := (i, snd (?bc ! x))]\<rparr>)" for i
        using ins_put_run [of x "fs\<lparr>fs_bc := ?bc1\<rparr>" i] ok1 bef(2) by simp
      have "jump_ins (setbc_a ?j (reg + 1))"
        using test_reg_next [OF assms(4) False] assms(3) by (auto simp: jump_ins_def bcfield)
      then have k2: "keeps_jumps ?bc1 (?bc1[x := (setbc_a ?j (reg + 1), snd (?bc ! x))])"
        using ok1 by (intro keeps_jumps_put) (auto simp: bcfield)
      show ?thesis using 2 False at bef put at1 put1 keeps_jumps_trans [OF k1 k2] k1
        by (cases "bc_a ?j \<le> reg") (auto simp: jmp_patchtestreg_def Let_def)
    qed
  next
    case 3
    then show ?thesis using bef at by (intro exI [of _ False] exI [of _ ?bc]) (simp add: jmp_patchtestreg_def Let_def)
  qed
qed

lemma patchval_loop_run:
  assumes "jchain (fs_bc fs) l xs" "distinct xs" "length xs \<le> n" "code_ok fs" "test_reg reg"
    and "\<And>x. x \<in> set xs \<Longrightarrow> reach x v \<and> reach x d"
  shows "\<exists>bc. patchval_loop n l v reg d fs = Inr ((), fs\<lparr>fs_bc := bc\<rparr>) \<and> length bc = length (fs_bc fs) \<and>
     (\<forall>x\<in>set xs. jump_ins (ins bc x) \<and> target bc x \<in> {v, d}) \<and>
     (\<forall>i<length bc. i \<notin> set xs \<and> jump_ins (ins (fs_bc fs) i) \<longrightarrow> jump_ins (ins bc i) \<and> bc_d (ins bc i) = bc_d (ins (fs_bc fs) i))"
  using assms
proof (induction xs arbitrary: l n fs)
  case Nil
  then show ?case by (intro exI [of _ "fs_bc fs"]) (cases n; auto)
next
  case (Cons x xs)
  let ?bc = "fs_bc fs"
  obtain m where n: "n = Suc m" using Cons.prems(3) by (cases n) auto
  have x: "l = of_nat x" "x < length ?bc" "jump_ins (ins ?bc x)" "jchain ?bc (link ?bc x) xs" using Cons.prems(1) by auto
  have l: "l \<noteq> NO_JMP" using x(1,2) Cons.prems(4) pos_word(2) [of x] by (simp add: code_ok_def)
  obtain ok bc1 where t: "jmp_patchtestreg (of_nat x) reg fs = Inr (ok, fs\<lparr>fs_bc := bc1\<rparr>)" "keeps_jumps ?bc bc1"
    using jmp_patchtestreg_run [OF x(2) Cons.prems(4) x(3) Cons.prems(5)] by blast
  let ?d = "if ok then v else d" and ?fs1 = "fs\<lparr>fs_bc := bc1\<rparr>"
  let ?bc2 = "set_jump bc1 x ?d"
  have len1: "length bc1 = length ?bc" using t(2) by (simp add: keeps_jumps_def)
  have ok1: "code_ok ?fs1" "code_ok (fs\<lparr>fs_bc := ?bc2\<rparr>)" using Cons.prems(4) len1 by (simp_all add: code_ok_def)
  have r: "reach x ?d" using Cons.prems(6) [of x] by simp
  have p: "jmp_patchins (of_nat x) ?d ?fs1 = Inr ((), fs\<lparr>fs_bc := ?bc2\<rparr>)"
    using jmp_patchins_run [of x ?fs1 ?d] ok1 r x(2) len1 by simp
  have "jchain bc1 (link ?bc x) xs" using keeps_jumps_chain [OF t(2) x(4)] .
  then have ch: "jchain ?bc2 (link ?bc x) xs" using jchain_set_jump [of x xs bc1] Cons.prems(2) by simp
  obtain bc where bc: "patchval_loop m (link ?bc x) v reg d (fs\<lparr>fs_bc := ?bc2\<rparr>) = Inr ((), fs\<lparr>fs_bc := bc\<rparr>)" "length bc = length ?bc2"
    "\<And>y. y \<in> set xs \<Longrightarrow> jump_ins (ins bc y) \<and> target bc y \<in> {v, d}"
    "\<And>i. i < length bc \<Longrightarrow> i \<notin> set xs \<Longrightarrow> jump_ins (ins ?bc2 i) \<Longrightarrow> jump_ins (ins bc i) \<and> bc_d (ins bc i) = bc_d (ins ?bc2 i)"
    using Cons.IH [of "fs\<lparr>fs_bc := ?bc2\<rparr>" "link ?bc x" m] ch Cons.prems(2,3,5,6) ok1(2) n by auto
  have run: "patchval_loop n l v reg d fs = Inr ((), fs\<lparr>fs_bc := bc\<rparr>)"
    using n l x(1,2) Cons.prems(4) t(1) p bc(1) by simp
  have j1: "jump_ins (ins bc1 x)" using t(2) x(2,3) by (simp add: keeps_jumps_def)
  have "jump_ins (ins ?bc2 x)" "target ?bc2 x = ?d" using set_jump_target [of x bc1 ?d] r j1 x(2) len1 by auto
  moreover have "x \<notin> set xs" using Cons.prems(2) by simp
  ultimately have "jump_ins (ins bc x)" "target bc x = ?d" using bc(2) bc(4) [of x] x(2) len1 by (auto simp: target_def)
  moreover have "jump_ins (ins bc i) \<and> bc_d (ins bc i) = bc_d (ins ?bc i)"
    if "i < length bc" "i \<notin> set (x # xs)" "jump_ins (ins ?bc i)" for i
    using bc(2) bc(4) [of i] that t(2) len1 by (auto simp: keeps_jumps_def)
  ultimately show ?case using run bc(2,3) len1 by (intro exI [of _ bc]) auto
qed

lemma jmp_patchval_run:
  assumes "jchain (fs_bc fs) l xs" "distinct xs" "code_ok fs" "test_reg reg" "\<And>x. x \<in> set xs \<Longrightarrow> reach x v \<and> reach x d"
  shows "\<exists>bc. jmp_patchval l v reg d fs = Inr ((), fs\<lparr>fs_bc := bc\<rparr>) \<and> length bc = length (fs_bc fs) \<and>
     (\<forall>x\<in>set xs. jump_ins (ins bc x) \<and> target bc x \<in> {v, d}) \<and>
     (\<forall>i<length bc. i \<notin> set xs \<and> jump_ins (ins (fs_bc fs) i) \<longrightarrow> jump_ins (ins bc i) \<and> bc_d (ins bc i) = bc_d (ins (fs_bc fs) i))"
  using patchval_loop_run [OF assms(1,2) _ assms(3,4), of "length (fs_bc fs)" v d] assms(5) jchain_length [OF assms(1,2)]
  by (simp add: jmp_patchval_def)

text \<open>C36: Backpatching.  Patching a jump list to a place before the current one makes every jump of the list lead there, and
  no other jump is changed.\<close>

theorem jmp_patch_targets:
  assumes "jchain (fs_bc fs) l xs" "distinct xs" "code_ok fs" "dest \<noteq> fs_pc fs" "\<And>x. x \<in> set xs \<Longrightarrow> reach x dest"
  shows "\<exists>bc. jmp_patch l dest fs = Inr ((), fs\<lparr>fs_bc := bc\<rparr>) \<and> length bc = length (fs_bc fs) \<and>
     (\<forall>x\<in>set xs. target bc x = dest) \<and>
     (\<forall>i<length bc. i \<notin> set xs \<and> jump_ins (ins (fs_bc fs) i) \<longrightarrow> target bc i = target (fs_bc fs) i)"
  using jmp_patchval_run [OF assms(1-3), of NO_REG dest dest] assms(4,5)
  by (auto simp: jmp_patch_def test_reg_def target_def)

lemma bc_room_run:
  assumes "code_ok fs" "fs_base fs + length (fs_bc fs) < 2 ^ 26" "fs_bclim fs = fs_sizebc fs - fs_base fs"
  shows "\<exists>lim size. bc_room fs = Inr ((), fs\<lparr>fs_sizebc := size, fs_bclim := lim\<rparr>)"
proof (cases "fs_bclim fs \<le> length (fs_bc fs)")
  case True
  then have "fs_sizebc fs < KP_MAX_BCINS" using assms by (simp add: KP_MAX_BCINS_def)
  then show ?thesis using True by (auto simp: bc_room_def Let_def)
next
  case False
  then have "bc_room fs = Inr ((), fs)" by (simp add: bc_room_def)
  moreover have "fs = fs\<lparr>fs_sizebc := fs_sizebc fs, fs_bclim := fs_bclim fs\<rparr>" by simp
  ultimately show ?thesis by metis
qed

lemma bcemit_INS_run:
  assumes "jchain (fs_bc fs) (fs_jpc fs) xs" "distinct xs" "code_ok fs" "\<And>x. x \<in> set xs \<Longrightarrow> reach x (fs_pc fs)"
    and "fs_base fs + length (fs_bc fs) < 2 ^ 26" "fs_bclim fs = fs_sizebc fs - fs_base fs"
  shows "\<exists>bc fs'. bcemit_INS i fs = Inr (fs_pc fs, fs') \<and> fs_bc fs' = bc @ [(i, fs_lastline fs)] \<and> fs_jpc fs' = NO_JMP \<and>
     length bc = length (fs_bc fs) \<and> (\<forall>x\<in>set xs. target bc x = fs_pc fs) \<and>
     (\<forall>j<length bc. j \<notin> set xs \<and> jump_ins (ins (fs_bc fs) j) \<longrightarrow> target bc j = target (fs_bc fs) j)"
proof -
  obtain bc where bc: "jmp_patchval (fs_jpc fs) (fs_pc fs) NO_REG (fs_pc fs) fs = Inr ((), fs\<lparr>fs_bc := bc\<rparr>)" "length bc = length (fs_bc fs)"
    "\<forall>x\<in>set xs. target bc x = fs_pc fs"
    "\<forall>j<length bc. j \<notin> set xs \<and> jump_ins (ins (fs_bc fs) j) \<longrightarrow> target bc j = target (fs_bc fs) j"
    using jmp_patchval_run [OF assms(1-3), of NO_REG "fs_pc fs" "fs_pc fs"] assms(4)
    by (auto simp: test_reg_def target_def)
  let ?fs1 = "fs\<lparr>fs_bc := bc, fs_jpc := NO_JMP\<rparr>"
  obtain lim size where "bc_room ?fs1 = Inr ((), ?fs1\<lparr>fs_sizebc := size, fs_bclim := lim\<rparr>)"
    using bc_room_run [of ?fs1] assms(3,5,6) bc(2) by (auto simp: code_ok_def)
  then show ?thesis using bc by (simp add: bcemit_INS_def)
qed

text \<open>C37: Forward jumps.  Jumps that are directed to here (\<^verbatim>\<open>jmp_tohere\<close>), together with those that were pending, all lead to the
  instruction that is emitted next, and nothing is pending afterwards.\<close>

theorem forward_jumps_land:
  assumes "jchain (fs_bc fs) (fs_jpc fs) xs" "jchain (fs_bc fs) l ys" "distinct (xs @ ys)" "code_ok fs"
    and "xs \<noteq> [] \<Longrightarrow> ys \<noteq> [] \<Longrightarrow> reach (last xs) l" "\<And>x. x \<in> set (xs @ ys) \<Longrightarrow> reach x (fs_pc fs)"
    and "fs_base fs + length (fs_bc fs) < 2 ^ 26" "fs_bclim fs = fs_sizebc fs - fs_base fs"
  shows "\<exists>fs1 bc fs2. jmp_tohere l fs = Inr ((), fs1) \<and> bcemit_INS i fs1 = Inr (fs_pc fs, fs2) \<and>
     fs_bc fs2 = bc @ [(i, fs_lastline fs)] \<and> length bc = length (fs_bc fs) \<and> fs_jpc fs2 = NO_JMP \<and>
     (\<forall>x\<in>set (xs @ ys). target bc x = fs_pc fs)"
proof -
  let ?fs0 = "fs\<lparr>fs_lasttarget := fs_pc fs\<rparr>"
  obtain l' bc where app: "jmp_append (fs_jpc fs) l ?fs0 = Inr (l', ?fs0\<lparr>fs_bc := bc\<rparr>)" "jchain bc l' (xs @ ys)" "length bc = length (fs_bc fs)"
    using jmp_append_run [of ?fs0 "fs_jpc fs" xs l ys] assms(1-5) by (auto simp: code_ok_def)
  let ?fs1 = "?fs0\<lparr>fs_bc := bc, fs_jpc := l'\<rparr>"
  have "jmp_tohere l fs = Inr ((), ?fs1)" using app(1) by (simp add: jmp_tohere_def)
  moreover have pc: "fs_pc ?fs1 = fs_pc fs" using app(3) by (simp add: fs_pc_def)
  moreover have "code_ok ?fs1" using assms(4) app(3) by (simp add: code_ok_def)
  ultimately show ?thesis using bcemit_INS_run [of ?fs1 "xs @ ys" i] app(2,3) assms(3,6,7,8) pc by auto
qed

section \<open>Constants\<close>

text \<open>Finding or making a key and then writing its value is storing the value.\<close>

lemma ukp_tab_set_write:
  assumes "utab_inv t" "ukp_tab_set t key = Some (i, t1)"
  shows "ukp_tab_setvalue t key v = Some (t1\<lparr>tnode := (tnode t1)[i := (tnode t1 ! i)\<lparr>n_val := v\<rparr>]\<rparr>)"
proof (cases "ukp_tab_find t key")
  case None
  then obtain t0 where t0: "ugrow t = Some t0" "i = freetop t0 - 1"
    "t1 = t0\<lparr>tnode := (tnode t0)[i := (tnode t0 ! i)\<lparr>n_key := key, n_val := set_nil (n_val (tnode t0 ! i))\<rparr>], freetop := i\<rparr>"
    using assms(2) by (auto simp: ukp_tab_set_def Let_def split: Option.bind_splits)
  show ?thesis using None t0 by (cases "i < length (tnode t0)"; cases t0) (simp_all add: ukp_tab_setvalue_def Let_def list_update_beyond)
next
  case (Some j)
  then show ?thesis using assms(2) by (simp add: ukp_tab_set_def ukp_tab_setvalue_def)
qed

lemma ukp_tab_set_ok:
  assumes inv: "utab_inv t" and key: "uplain key" and free: "0 < utab_free t"
  shows "\<exists>i t1. ukp_tab_set t key = Some (i, t1) \<and> utab_inv t1 \<and> utab_content t1 = utab_content t \<and>
     nonnil (n_val (tnode t1 ! i)) = utab_content t (ukey key)"
proof (cases "ukp_tab_find t key")
  case (Some j)
  then have "nonnil (n_val (tnode t ! j)) = utab_content t (ukey key)"
    using ukp_tab_get_law [OF inv key] by (simp add: ukp_tab_get_def)
  then show ?thesis using Some inv by (simp add: ukp_tab_set_def)
next
  case None
  obtain t0 n where t0: "ugrow t = Some t0" "utab_inv t0" "freetop t0 = Suc n" "utab_lo t0 \<le> n" "utab_content t0 = utab_content t"
    "ukp_tab_find t0 key = None"
    using ugrow_ok [OF inv free] key None by metis
  let ?v = "set_nil (n_val (tnode t0 ! n))"
  let ?t = "t0\<lparr>tnode := (tnode t0)[n := (tnode t0 ! n)\<lparr>n_key := key, n_val := ?v\<rparr>], freetop := n\<rparr>"
  have absent: "List.find (\<lambda>i. ukey (n_key (tnode t0 ! i)) = ukey key) [0..<length (tnode t0)] = None"
    using t0(6) ukp_tab_find_plain [OF t0(2) key] by simp
  have nil: "nonnil ?v = None" by (simp add: nonnil_def set_nil_def is_nil_def)
  have old: "utab_content t (ukey key) = None" using ukp_tab_get_law [OF inv key] None by (simp add: ukp_tab_get_def nonnil_def kp_niltv_def is_nil_def)
  have "utab_content ?t = utab_content t"
    using utab_content_new [OF t0(2,3,4) key absent, of ?v] t0(5) nil old by auto
  moreover have "utab_inv ?t" using t0 by (auto simp: utab_inv_def utab_lo_def)
  moreover have "n < length (tnode t0)" using t0(2,3) by (simp add: utab_inv_def)
  ultimately show ?thesis using None t0(1,3) nil old by (simp add: ukp_tab_set_def)
qed

definition num_slot :: "fstate \<Rightarrow> u64 \<Rightarrow> u32 option" where
  "num_slot fs n = Option.bind (utab_content (fs_kt fs) (KTAP_TNUM, n)) (\<lambda>v. if is_number v then Some (ucast (nvalue v)) else None)"

definition kt_inv :: "fstate \<Rightarrow> bool" where
  "kt_inv fs \<longleftrightarrow> utab_inv (fs_kt fs) \<and> (\<forall>n k. num_slot fs n = Some k \<longrightarrow> k < fs_nkn fs) \<and>
     (\<forall>n m k. num_slot fs n = Some k \<longrightarrow> num_slot fs m = Some k \<longrightarrow> n = m)"

lemma set_number_simps [simp]: "is_number (set_number n)" "nvalue (set_number n) = n" "nonnil (set_number n) = Some (set_number n)"
  by (simp_all add: set_number_def is_number_def nonnil_def is_nil_def)

lemma ucast_roundtrip: "ucast (ucast (k :: u32) :: u64) = k"
  by (rule bit_word_eqI) (simp add: bit_simps)

text \<open>C38: Number constants.  \<^verbatim>\<open>const_num\<close> gives every number one slot: the slot it already has, or the next one, which is not
  the slot of another number; the other slots stay as they are.\<close>

theorem const_num_slot:
  assumes inv: "kt_inv fs" and free: "0 < utab_free (fs_kt fs)" and nkn: "fs_nkn fs < 0x10000" and e: "e_nval e = set_number n"
  shows "\<exists>k fs'. const_num e fs = Inr (k, fs') \<and> kt_inv fs' \<and> num_slot fs' = (num_slot fs)(n \<mapsto> k) \<and>
     (case num_slot fs n of Some j \<Rightarrow> k = j \<and> fs_nkn fs' = fs_nkn fs | None \<Rightarrow> k = fs_nkn fs \<and> fs_nkn fs' = fs_nkn fs + 1)"
proof -
  let ?key = "set_number n" and ?t = "fs_kt fs"
  have tinv: "utab_inv ?t" using inv by (simp add: kt_inv_def)
  have key: "uplain ?key" "ukey ?key = (KTAP_TNUM, n)" by (simp_all add: uplain_def ukey_def set_number_def is_number_def)
  obtain i t1 where set: "ukp_tab_set ?t ?key = Some (i, t1)" "utab_inv t1" "utab_content t1 = utab_content ?t"
    "nonnil (n_val (tnode t1 ! i)) = utab_content ?t (KTAP_TNUM, n)"
    using ukp_tab_set_ok [OF tinv key(1) free] key(2) by auto
  let ?v = "n_val (tnode t1 ! i)"
  have slot: "num_slot fs n = (if is_number ?v then Some (ucast (nvalue ?v)) else None)"
    by (auto simp: num_slot_def set(4) [symmetric] nonnil_def is_nil_def is_number_def)
  show ?thesis
  proof (cases "is_number ?v")
    case True
    let ?fs = "fs\<lparr>fs_kt := t1\<rparr>"
    have "const_num e fs = Inr (ucast (nvalue ?v), ?fs)" using True set(1) e by (simp add: const_num_def kslot_def Let_def)
    moreover have "num_slot ?fs = num_slot fs" using set(3) by (auto simp: num_slot_def fun_eq_iff)
    ultimately show ?thesis using slot True inv set(2) by (auto simp: kt_inv_def)
  next
    case False
    let ?nkn = "fs_nkn fs"
    let ?t2 = "t1\<lparr>tnode := (tnode t1)[i := (tnode t1 ! i)\<lparr>n_val := set_number (ucast ?nkn)\<rparr>]\<rparr>"
    let ?fs = "fs\<lparr>fs_kt := ?t2, fs_nkn := ?nkn + 1\<rparr>"
    have run: "const_num e fs = Inr (?nkn, ?fs)" using False set(1) e by (simp add: const_num_def kslot_def Let_def)
    have t2: "utab_inv ?t2" "utab_content ?t2 = (utab_content ?t)((KTAP_TNUM, n) := Some (set_number (ucast ?nkn)))"
      using utab_put_law [OF tinv key(1) free, of "set_number (ucast ?nkn)"] ukp_tab_set_write [OF tinv set(1), of "set_number (ucast ?nkn)"] key(2)
      by auto
    have slots: "num_slot ?fs = (num_slot fs)(n \<mapsto> ?nkn)"
      using t2(2) by (auto simp: num_slot_def fun_eq_iff ucast_roundtrip)
    have "?nkn < ?nkn + 1" using nkn by (simp add: word_less_nat_alt unat_word_ariths)
    moreover have old: "num_slot fs m = Some k \<Longrightarrow> k < ?nkn" for m k using inv by (simp add: kt_inv_def)
    ultimately have "kt_inv ?fs"
      using inv t2(1) unfolding kt_inv_def slots by (auto dest: less_trans)
    then show ?thesis using run slots slot False by auto
  qed
qed


section \<open>Constant folding\<close>

lemma long_fits_wrap: "long_fits n = Some w \<Longrightarrow> w = word_of_int n"
  by (auto simp: long_fits_def split: if_splits)

text \<open>C39: What constant folding gives.  When one of the arithmetic operators is folded on two constants, no code is emitted and the result is a number
  constant: for an addition, subtraction, multiplication or division the number that the interpreter's instruction gives, and for a power the
  base, whatever the exponent.  A modulus is never folded.\<close>

theorem foldarith_agrees:
  assumes "opr_ord opr \<le> opr_ord OPR_POW" "foldarith opr e1 e2 fs = Inr (Some e, fs')"
  shows "fs' = fs \<and> e_k e = VKNUM \<and> opr \<noteq> OPR_MOD \<and>
    (if opr = OPR_POW then expr_numberV e = expr_numberV e1
     else arith (arith_of (opr_ord opr)) (expr_numberV e1) (expr_numberV e2) = Inr (expr_numberV e))"
proof -
  obtain n where n: "number_foldarith (expr_numberV e1) (expr_numberV e2) (opr_ord opr) = Some n" "e = e1\<lparr>e_nval := set_number n\<rparr>" "fs' = fs"
    "e_k e1 = VKNUM" "opr = OPR_DIV \<longrightarrow> expr_numberV e2 \<noteq> 0" "opr \<noteq> OPR_MOD"
    using assms(2) by (auto simp: foldarith_def expr_isnumk_nojump_def expr_isnumk_def split: if_splits option.splits)
  let ?x = "expr_numberV e1" and ?y = "expr_numberV e2"
  have "arith (arith_of (opr_ord opr)) ?x ?y = Inr n" if "opr \<noteq> OPR_POW"
  proof (cases "opr = OPR_DIV")
    case True
    then have d: "long_fits (sint ?x sdiv sint ?y) = Some n" "?y \<noteq> 0" using n(1,5) by (auto simp: number_foldarith_def split: if_splits)
    have "\<not> (?x = 0x8000000000000000 \<and> ?y = -1)"
    proof
      assume "?x = 0x8000000000000000 \<and> ?y = -1"
      then have "sint ?x sdiv sint ?y = 2 ^ 63" by simp
      then show False using d(1) by (simp add: long_fits_def)
    qed
    then show ?thesis using d True long_fits_wrap [OF d(1)] by (simp add: arith_def arith_of_def)
  next
    case False
    have w: "word_of_int (sint a) = a" for a :: u64 by simp
    have "opr \<in> {OPR_ADD, OPR_SUB, OPR_MUL}" using False assms(1) that n(6) by (cases opr) auto
    then show ?thesis using n(1)
      by (auto simp: number_foldarith_def arith_def arith_of_def dest!: long_fits_wrap)
  qed
  then show ?thesis using n by (auto simp: expr_numberV_def number_foldarith_def)
qed

text \<open>A power of two constants is compiled to its base: the folding has no case for it, so that \<^verbatim>\<open>2^10\<close> is the constant 2,
  whereas the instruction for powers is rejected by the validation.\<close>

theorem pow_folds_to_base:
  assumes "expr_isnumk_nojump e1" "expr_isnumk_nojump e2"
  shows "bcemit_binop OPR_POW e1 e2 fs = Inr (e1\<lparr>e_nval := set_number (expr_numberV e1)\<rparr>, fs)"
  using assms by (simp add: bcemit_binop_def bcemit_arith_def foldarith_def number_foldarith_def)

definition num_expr :: "u64 \<Rightarrow> ExpDesc" where
  "num_expr n = \<lparr>e_k = VKNUM, e_info = 0, e_aux = 0, e_nval = set_number n, e_sval = 0, e_t = NO_JMP, e_f = NO_JMP\<rparr>"

definition cg_state :: fstate where
  "cg_state = \<lparr>fs_kt = ukp_tab_new (\<lambda>_. zero_node), fs_bc = [(BCINS_AJ 93 1 (-1), 1)], fs_lasttarget = 0, fs_jpc = NO_JMP, fs_freereg = 0,
     fs_nactvar = 0, fs_nkn = 0, fs_nkgc = 0, fs_base = 0, fs_bclim = 20, fs_sizebc = 20, fs_framesize = 1, fs_lastline = 1, fs_vinfo = []\<rparr>"

theorem pow_folds_to_base_witness:
  "bcemit_binop OPR_POW (num_expr 2) (num_expr 10) cg_state = Inr (num_expr 2, cg_state)"
  using pow_folds_to_base [of "num_expr 2" "num_expr 10" cg_state]
  by (simp add: num_expr_def expr_isnumk_nojump_def expr_isnumk_def expr_hasjump_def expr_numberV_def)

theorem foldarith_agrees_witness:
  "foldarith OPR_DIV (num_expr 7) (num_expr 2) cg_state = Inr (Some (num_expr 3), cg_state) \<and>
   arith NUMDIV 7 2 = Inr (expr_numberV (num_expr 3))"
proof -
  have f: "foldarith OPR_DIV (num_expr 7) (num_expr 2) cg_state = Inr (Some (num_expr 3), cg_state)"
    by (simp add: foldarith_def num_expr_def expr_isnumk_nojump_def expr_isnumk_def expr_hasjump_def expr_numberV_def
        number_foldarith_def long_fits_def)
  then show ?thesis using foldarith_agrees [OF _ f]
    by (simp add: num_expr_def expr_numberV_def arith_of_def)
qed

theorem const_num_slot_witness:
  "\<exists>k fs'. const_num (num_expr 70000) cg_state = Inr (k, fs') \<and> num_slot fs' 70000 = Some 0"
proof -
  have n: "num_slot cg_state m = None" for m by (simp add: num_slot_def cg_state_def utab_new_inv)
  then have "kt_inv cg_state" by (simp add: kt_inv_def) (simp add: cg_state_def utab_new_inv)
  then show ?thesis using const_num_slot [of cg_state "num_expr 70000" 70000] n
    by (auto simp: cg_state_def utab_new_inv num_expr_def)
qed

lemma cg_state_chain: "jchain (fs_bc cg_state) 0 [0]" "code_ok cg_state" "fs_pc cg_state = 1" "reach 0 1" "reach 0 0"
proof -
  show "jchain (fs_bc cg_state) 0 [0]"
    by (simp add: cg_state_def link_def target_def jump_ins_def BCINS_AJ_def bcfield BCBIAS_J_def)
  show "code_ok cg_state" "fs_pc cg_state = 1" "reach 0 1" "reach 0 0"
    by (simp_all add: code_ok_def cg_state_def fs_pc_def reach_def BCBIAS_J_def)
qed

theorem jmp_patch_targets_witness:
  "\<exists>bc. jmp_patch 0 0 cg_state = Inr ((), cg_state\<lparr>fs_bc := bc\<rparr>) \<and> target bc 0 = 0"
  using jmp_patch_targets [of cg_state 0 "[0]" 0] cg_state_chain by auto

theorem forward_jumps_land_witness:
  "\<exists>fs1 bc fs2. jmp_tohere 0 cg_state = Inr ((), fs1) \<and> bcemit_INS 7 fs1 = Inr (1, fs2) \<and> fs_bc fs2 = bc @ [(7, 1)] \<and> target bc 0 = 1"
  using forward_jumps_land [of cg_state "[]" 0 "[0]" 7] cg_state_chain by (auto simp: cg_state_def)


section \<open>Loading constants\<close>

lemma emit_no_pending:
  assumes "fs_jpc fs = NO_JMP" "code_ok fs" "fs_base fs + length (fs_bc fs) < 2 ^ 26" "fs_bclim fs = fs_sizebc fs - fs_base fs"
  shows "\<exists>fs'. bcemit_INS i fs = Inr (fs_pc fs, fs') \<and> fs_bc fs' = fs_bc fs @ [(i, fs_lastline fs)]"
proof -
  have "jmp_patchval (fs_jpc fs) pc NO_REG pc fs = Inr ((), fs)" for pc
    using assms(1) by (cases "length (fs_bc fs)") (simp_all add: jmp_patchval_def)
  moreover obtain lim size where "bc_room (fs\<lparr>fs_jpc := NO_JMP\<rparr>) = Inr ((), fs\<lparr>fs_jpc := NO_JMP, fs_sizebc := size, fs_bclim := lim\<rparr>)"
    using bc_room_run [of "fs\<lparr>fs_jpc := NO_JMP\<rparr>"] assms(2,3,4) by (auto simp: code_ok_def)
  ultimately show ?thesis by (simp add: bcemit_INS_def)
qed

definition load_const :: "ExpDesc \<Rightarrow> vm_state \<Rightarrow> int \<Rightarrow> vm_state vm" where
  "load_const e s r =
     (if e_k e = VKNUM then vput s r (set_number (expr_numberV e))
      else vsettype s r (if e_k e = VKNIL then KTAP_TNIL else if e_k e = VKFALSE then KTAP_TFALSE else KTAP_TTRUE))"

definition small_const :: "fstate \<Rightarrow> ExpDesc \<Rightarrow> bool" where
  "small_const fs e \<longleftrightarrow> e_k e = VKNUM \<and> 0 \<le> sint (expr_numberV e) \<and> sint (expr_numberV e) \<le> 0xffff \<or> e_k e = VKTRUE \<or> e_k e = VKFALSE \<or>
     e_k e = VKNIL \<and> fs_pc fs \<le> fs_lasttarget fs"

definition const_ins :: "ExpDesc \<Rightarrow> u32 \<Rightarrow> bcins" where
  "const_ins e reg = (if e_k e = VKNUM then BCINS_AD 40 reg (ucast (expr_numberV e)) else BCINS_AD 42 reg (const_pri e))"

lemma small_number:
  assumes "0 \<le> sint (n :: u64)" "sint n \<le> 0xffff"
  shows "ucast n < (65536 :: u32)" "ucast (ucast n :: u32) = n"
proof -
  have "uint (word_of_int (sint n) :: u64) = sint n" using assms by (simp only: uint_word_of_int_eq) (simp add: take_bit_int_eq_self)
  then have "uint n = sint n" by simp
  then have "int (unat n) \<le> 65535" using assms by simp
  then have u: "unat n < 65536" by linarith
  then have "unat (ucast n :: u32) = unat n" by (simp add: unsigned_ucast_eq take_bit_nat_eq_self)
  then show "ucast n < (65536 :: u32)" "ucast (ucast n :: u32) = n" using u by (simp_all add: word_less_nat_alt small_u64_cast)
qed

lemma kpri_exec:
  assumes "reg < 256" "d < 65536"
  shows "vm_exec env f s (BCINS_AD 42 reg d) = vbind (vsettype s (fl_base f + uint reg) (NOT d)) (vnext f)"
  using assms by (simp add: vm_exec_def bcfield Let_def op_returns_def step_const_def RA_def)

lemma const_ins_exec:
  assumes "small_const fs e" "reg < 256"
  shows "vm_exec env f s (const_ins e reg) = vbind (load_const e s (fl_base f + uint reg)) (vnext f)"
proof (cases "e_k e = VKNUM")
  case True
  let ?n = "expr_numberV e"
  have n: "0 \<le> sint ?n" "sint ?n \<le> 0xffff" using assms(1) True by (auto simp: small_const_def)
  have lt: "ucast ?n < (65536 :: u32)" and bk: "ucast (ucast ?n :: u32) = ?n" using small_number [OF n] by simp_all
  show ?thesis using True assms(2) lt bk
    by (simp add: const_ins_def load_const_def vm_exec_def bcfield Let_def op_returns_def step_const_def RA_def)
next
  case False
  then have k: "e_k e = VKNIL \<or> e_k e = VKFALSE \<or> e_k e = VKTRUE" using assms(1) by (auto simp: small_const_def)
  have "const_pri e < 65536" using k by (auto simp: const_pri_def)
  moreover have "NOT (const_pri e) = (if e_k e = VKNIL then KTAP_TNIL else if e_k e = VKFALSE then KTAP_TFALSE else KTAP_TTRUE)"
    using k by (auto simp: const_pri_def KTAP_TNIL_def KTAP_TTRUE_def KTAP_TFALSE_def)
  ultimately show ?thesis using False kpri_exec [OF assms(2)] by (simp add: const_ins_def load_const_def)
qed

lemma expr_toreg_const:
  assumes "small_const fs e" "\<not> expr_hasjump e" "fs_jpc fs = NO_JMP" "code_ok fs" "fs_base fs + length (fs_bc fs) < 2 ^ 26"
    "fs_bclim fs = fs_sizebc fs - fs_base fs"
  shows "\<exists>e' fs'. expr_toreg e reg fs = Inr (e', fs') \<and> fs_bc fs' = fs_bc fs @ [(const_ins e reg, fs_lastline fs)] \<and>
     e_k e' = VNONRELOC \<and> e_info e' = reg"
proof -
  obtain fs' where emit: "bcemit_INS (const_ins e reg) fs = Inr (fs_pc fs, fs')" "fs_bc fs' = fs_bc fs @ [(const_ins e reg, fs_lastline fs)]"
    using emit_no_pending [OF assms(3-6)] by blast
  have "expr_toreg_nobranch e reg fs = Inr (e\<lparr>e_info := reg, e_k := VNONRELOC\<rparr>, fs')"
  proof -
    have d: "expr_discharge e fs = Inr (e, fs)" using assms(1) by (auto simp: small_const_def expr_discharge_def)
    consider "e_k e = VKNUM" | "e_k e = VKTRUE \<or> e_k e = VKFALSE" | "e_k e = VKNIL" "\<not> fs_lasttarget fs < fs_pc fs"
      using assms(1) by (auto simp: small_const_def not_less)
    then show ?thesis
    proof cases
      case 1
      then have "0 \<le> sint (expr_numberV e) \<and> sint (expr_numberV e) \<le> 0xffff" using assms(1) by (auto simp: small_const_def)
      then show ?thesis using 1 d emit(1) by (simp add: expr_toreg_nobranch_def const_ins_def)
    next
      case 2
      then show ?thesis using d emit(1) by (elim disjE) (simp_all add: expr_toreg_nobranch_def const_ins_def)
    next
      case 3
      then show ?thesis using d emit(1)
        by (simp add: expr_toreg_nobranch_def const_ins_def const_pri_def bcemit_nil_def bcemit_nil_new_def)
    qed
  qed
  then show ?thesis using assms(2) emit(2)
    by (simp add: expr_toreg_def expr_hasjump_def)
qed

text \<open>C40: Compiler and interpreter agree on constants: the instruction that \<^verbatim>\<open>expr_toreg\<close> emits for a small number, a boolean or,
  where there is nothing to merge with, nil puts exactly that value's type and bits into the register when it is
  executed.\<close>

theorem constant_loaded:
  assumes "small_const fs e" "\<not> expr_hasjump e" "fs_jpc fs = NO_JMP" "code_ok fs" "fs_base fs + length (fs_bc fs) < 2 ^ 26"
    "fs_bclim fs = fs_sizebc fs - fs_base fs" "reg < 256"
  shows "\<exists>i e' fs'. expr_toreg e reg fs = Inr (e', fs') \<and> fs_bc fs' = fs_bc fs @ [(i, fs_lastline fs)] \<and>
     e_k e' = VNONRELOC \<and> e_info e' = reg \<and> (\<forall>env f s. vm_exec env f s i = vbind (load_const e s (fl_base f + uint reg)) (vnext f))"
  using expr_toreg_const [OF assms(1-6), of reg] const_ins_exec [OF assms(1,7)] by blast

theorem constant_loaded_witness:
  "\<exists>i e' fs'. expr_toreg (num_expr 65535) 3 cg_state = Inr (e', fs') \<and> fs_bc fs' = fs_bc cg_state @ [(i, 1)] \<and>
     (\<forall>env f s. vm_exec env f s i = vbind (vput s (fl_base f + 3) (set_number 65535)) (vnext f))"
proof -
  have "small_const cg_state (num_expr 65535)" by (simp add: small_const_def num_expr_def expr_numberV_def)
  from constant_loaded [OF this, of 3] show ?thesis
    using cg_state_chain(2) by (auto simp: load_const_def num_expr_def expr_hasjump_def cg_state_def expr_numberV_def)
qed

end
