(* ===== verification/Ktap_Scope.thy ===== *)
theory Ktap_Scope
  imports Ktap_Lex Ktap_Codegen Ktap_BcWrite
begin

text \<open>
  The state of the parser and its variables, labels, scopes and functions (\<^verbatim>\<open>userspace/kp_parse.c\<close>, lines 124 to 1767).

  The parser is a state monad with errors over the lexer's state and the stack of functions being compiled, the
  innermost first.  A code generator operation runs on the innermost function (\<open>gen\<close>); what it shares with the others, the
  size of the instruction stack, the line and the flags of the variables, is passed in and taken back.
  Names of variables are pointers to interned strings, or small numbers for hidden variables and breaks.
  Objects the compiler allocates have the pointers a parameter gives: \<open>pe_str\<close> for strings, \<open>pe_obj\<close> for the n-th table or
  prototype.  Other parameters are the contents of fresh memory (\<open>pe_var\<close>, \<open>pe_byte\<close>, \<open>pe_node\<close>), the size the token buffer has when
  a function ends (\<open>pe_room\<close>), and what \<^verbatim>\<open>kp_parse_events\<close> makes of the text of a probe (\<open>pe_events\<close>).
\<close>

section \<open>State\<close>

record var_info =
  vi_name :: addr
  vi_startpc :: u32
  vi_endpc :: u32
  vi_slot :: u8
  vi_info :: u8

record fscope =
  bl_vstart :: nat
  bl_nactvar :: u8
  bl_flags :: u8

abbreviation (input) FSCOPE_LOOP :: u8 where "FSCOPE_LOOP \<equiv> 0x01"
abbreviation (input) FSCOPE_BREAK :: u8 where "FSCOPE_BREAK \<equiv> 0x02"
abbreviation (input) FSCOPE_GOLA :: u8 where "FSCOPE_GOLA \<equiv> 0x04"
abbreviation (input) FSCOPE_UPVAL :: u8 where "FSCOPE_UPVAL \<equiv> 0x08"
abbreviation (input) FSCOPE_NOCLOSE :: u8 where "FSCOPE_NOCLOSE \<equiv> 0x10"
abbreviation (input) NAME_BREAK :: addr where "NAME_BREAK \<equiv> 1"
abbreviation (input) VSTACK_GOTO :: u8 where "VSTACK_GOTO \<equiv> 0x02"
abbreviation (input) VSTACK_LABEL :: u8 where "VSTACK_LABEL \<equiv> 0x04"
abbreviation (input) VARNAME__MAX :: addr where "VARNAME__MAX \<equiv> 7"
abbreviation (input) PROTO_HAS_RETURN :: u8 where "PROTO_HAS_RETURN \<equiv> 0x20"
abbreviation (input) PROTO_FIXUP_RETURN :: u8 where "PROTO_FIXUP_RETURN \<equiv> 0x40"
abbreviation (input) UV_LOCAL :: u16 where "UV_LOCAL \<equiv> 0x8000"
abbreviation (input) UV_IMMUTABLE :: u16 where "UV_IMMUTABLE \<equiv> 0x4000"

definition KP_MAX_LOCVAR :: nat where "KP_MAX_LOCVAR = 200"
definition KP_MAX_UPVAL :: nat where "KP_MAX_UPVAL = 60"
definition KP_MAX_VSTACK :: nat where "KP_MAX_VSTACK = 65536 - KP_MAX_UPVAL"
definition KP_MAX_XLEVEL :: u32 where "KP_MAX_XLEVEL = 200"

text \<open>A function being compiled: the code generator's part, its scopes (innermost first), the map from registers to variables
  (\<open>None\<close>: not written yet) and the pairs of \<^verbatim>\<open>uvmap\<close> and \<^verbatim>\<open>uvtmp\<close>, one for each of its \<^verbatim>\<open>nuv\<close> upvalues.\<close>

record pfunc =
  pf_fs :: fstate
  pf_bl :: "fscope list"
  pf_linedefined :: nat
  pf_vbase :: nat
  pf_flags :: u8
  pf_numparams :: u8
  pf_varmap :: "nat \<Rightarrow> u16 option"
  pf_uv :: "(u16 \<times> u16) list"

datatype gcobj = OTab ktap_tab | OProto uproto

record penv =
  pe_str :: "strtab \<Rightarrow> addr"
  pe_obj :: "nat \<Rightarrow> addr"
  pe_var :: "nat \<Rightarrow> var_info"
  pe_byte :: "nat \<Rightarrow> u8"
  pe_node :: "nat \<Rightarrow> ktap_node"
  pe_room :: "u8 list \<Rightarrow> nat"
  pe_events :: "u8 list \<Rightarrow> u64 option"

record pstate =
  ps_env :: penv
  ps_ls :: lex_state
  ps_tokval :: ktap_val
  ps_lookval :: ktap_val
  ps_fs :: "pfunc list"
  ps_vstack :: "var_info list"
  ps_vtop :: nat
  ps_sizebc :: nat
  ps_level :: u32
  ps_strs :: strtab
  ps_objs :: "addr \<Rightarrow> gcobj option"
  ps_nobj :: nat

text \<open>
  \<open>PFuel\<close>: the levels of the recursion, or the rounds of a loop over tokens, are used up; \<open>PLoop\<close>: a walk along a jump list does not end.
\<close>

datatype parse_stop = PStop lex_stop | PFuel | PLoop

type_synonym 'a parse = "pstate \<Rightarrow> parse_stop + 'a \<times> pstate"

definition pret :: "'a \<Rightarrow> 'a parse" where "pret x s = Inr (x, s)"
definition pfail :: "parse_stop \<Rightarrow> 'a parse" where "pfail e s = Inl e"
definition pbind :: "'a parse \<Rightarrow> ('a \<Rightarrow> 'b parse) \<Rightarrow> 'b parse" where
  "pbind m k s = (case m s of Inl e \<Rightarrow> Inl e | Inr (x, s') \<Rightarrow> k x s')"
definition pget :: "(pstate \<Rightarrow> 'a) \<Rightarrow> 'a parse" where "pget f s = Inr (f s, s)"
definition pmod :: "(pstate \<Rightarrow> pstate) \<Rightarrow> unit parse" where "pmod g s = Inr ((), g s)"
definition pseq :: "'a parse \<Rightarrow> 'b parse \<Rightarrow> 'b parse" where "pseq m k = pbind m (\<lambda>_. k)"
abbreviation pfault :: "'a parse" where "pfault \<equiv> pfail (PStop LexFault)"

definition pthe :: "'a option \<Rightarrow> 'a parse" where
  "pthe x = (case x of None \<Rightarrow> pfault | Some y \<Rightarrow> pret y)"

text \<open>A loop whose rounds consume text: \<open>Inl\<close> goes on.  It may take one round more than there are characters and tokens left.\<close>

definition ps_left :: "pstate \<Rightarrow> nat" where
  "ps_left s =
     (let ls = ps_ls s in length (ls_in ls) + (if ls_lookahead ls = TK_eof then 0 else 1) + (if ls_tok ls = TK_eof then 0 else 1))"

fun ploop :: "nat \<Rightarrow> ('a \<Rightarrow> ('a + 'b) parse) \<Rightarrow> 'a \<Rightarrow> 'b parse" where
  "ploop 0 body x s = Inl PFuel"
| "ploop (Suc n) body x s = pbind (body x) (\<lambda>r. case r of Inl x \<Rightarrow> ploop n body x | Inr y \<Rightarrow> pret y) s"

definition pwhile :: "('a \<Rightarrow> ('a + 'b) parse) \<Rightarrow> 'a \<Rightarrow> 'b parse" where
  "pwhile body x = pbind (pget ps_left) (\<lambda>n. ploop (Suc n) body x)"

text \<open>Once for each element of a list.\<close>

fun peach :: "('a \<Rightarrow> unit parse) \<Rightarrow> 'a list \<Rightarrow> unit parse" where
  "peach f [] = pret ()"
| "peach f (x # xs) = pseq (f x) (peach f xs)"


section \<open>Errors\<close>

definition err_text :: "int \<Rightarrow> u8 list \<Rightarrow> 'a parse" where
  "err_text tok text = pbind (pget ps_ls) (\<lambda>ls. pfail (PStop (lex_report ls tok text)))"

definition err_syntax :: "string \<Rightarrow> 'a parse" where
  "err_syntax em = pbind (pget (\<lambda>s. ls_tok (ps_ls s))) (\<lambda>tok. err_text tok (bytes em))"

definition quoted :: "u8 list \<Rightarrow> u8 list" where "quoted s = [39] @ s @ [39]"

definition err_token :: "int \<Rightarrow> 'a parse" where
  "err_token t = pbind (pget (\<lambda>s. ls_tok (ps_ls s))) (\<lambda>tok. err_text tok (quoted (kp_lex_token2str t) @ bytes '' expected''))"

definition err_limit :: "nat \<Rightarrow> nat \<Rightarrow> string \<Rightarrow> 'a parse" where
  "err_limit linedefined limit what =
     err_text 0 (if linedefined = 0 then bytes ''main function has more than '' @ dec_digits limit @ [32] @ bytes what
                 else bytes ''function at line '' @ dec_digits linedefined @ bytes '' has more than '' @ dec_digits limit @ [32] @ bytes what)"

definition XLIMC :: "'a parse" where
  "XLIMC = err_text 0 (bytes ''chunk has more than '' @ dec_digits KP_MAX_VSTACK @ bytes '' local variables'')"

text \<open>The innermost function, and the code generator running on it.\<close>

definition cur_fs :: "pfunc parse" where
  "cur_fs = pbind (pget ps_fs) (\<lambda>fs. case fs of [] \<Rightarrow> pfault | f # _ \<Rightarrow> pret f)"

definition set_fs :: "(pfunc \<Rightarrow> pfunc) \<Rightarrow> unit parse" where
  "set_fs g = pbind (pget ps_fs) (\<lambda>fs. case fs of [] \<Rightarrow> pfault | f # rest \<Rightarrow> pmod (\<lambda>s. s\<lparr>ps_fs := g f # rest\<rparr>))"

definition cg_error :: "nat \<Rightarrow> cg_stop \<Rightarrow> 'a parse" where
  "cg_error linedefined e =
     (case e of
        CgFault \<Rightarrow> pfault
      | CgLoop \<Rightarrow> pfail PLoop
      | CgError XJUMP \<Rightarrow> err_syntax ''control structure too long''
      | CgError XSLOTS \<Rightarrow> err_syntax ''function or expression too complex''
      | CgError XSYMBOL \<Rightarrow> err_syntax ''unexpected symbol''
      | CgError (XLIMIT n what) \<Rightarrow> err_limit linedefined n what)"

definition share :: "pstate \<Rightarrow> pfunc \<Rightarrow> fstate" where
  "share s f = (pf_fs f)\<lparr>fs_sizebc := ps_sizebc s, fs_lastline := ls_lastline (ps_ls s), fs_vinfo := map vi_info (ps_vstack s)\<rparr>"

definition gen :: "'a cg \<Rightarrow> 'a parse" where
  "gen m s =
     (case ps_fs s of
        [] \<Rightarrow> pfault s
      | f # rest \<Rightarrow>
          (case m (share s f) of
             Inl e \<Rightarrow> cg_error (pf_linedefined f) e s
           | Inr (x, fs) \<Rightarrow>
               Inr (x, s\<lparr>ps_fs := f\<lparr>pf_fs := fs\<rparr> # rest, ps_sizebc := fs_sizebc fs,
                         ps_vstack := map2 (\<lambda>v i. v\<lparr>vi_info := i\<rparr>) (ps_vstack s) (fs_vinfo fs)\<rparr>)))"

abbreviation genget :: "(fstate \<Rightarrow> 'a) \<Rightarrow> 'a parse" where "genget f \<equiv> gen (cget f)"
abbreviation genmod :: "(fstate \<Rightarrow> fstate) \<Rightarrow> unit parse" where "genmod f \<equiv> gen (cmod f)"


section \<open>Lexer support\<close>

text \<open>A string that is scanned is interned and kept in the constants of the innermost function; its pointer is the value of
  the token.  Names, strings and reserved words are strings; the other tokens leave the value as it was, except numbers.\<close>

definition keepstr :: "u8 list \<Rightarrow> addr parse" where
  "keepstr str =
     pbind (pget (\<lambda>s. ukp_str_new (pe_str (ps_env s)) (ps_strs s) str)) (\<lambda>r.
     pbind (pthe r) (\<lambda>(a, strs).
     pseq (pmod (\<lambda>s. s\<lparr>ps_strs := strs\<rparr>))
     (pseq (gen (kp_parse_keepstr a)) (pret a))))"

definition kp_str_lit :: "string \<Rightarrow> addr parse" where
  "kp_str_lit str =
     pbind (pget (\<lambda>s. ukp_str_new (pe_str (ps_env s)) (ps_strs s) (bytes str))) (\<lambda>r.
     pbind (pthe r) (\<lambda>(a, strs). pseq (pmod (\<lambda>s. s\<lparr>ps_strs := strs\<rparr>)) (pret a)))"

definition str_bytes :: "addr \<Rightarrow> u8 list parse" where
  "str_bytes a = pbind (pget (\<lambda>s. map_of (st_objs (ps_strs s)) a)) pthe"

definition scanned :: "int \<Rightarrow> tokval \<Rightarrow> ktap_val \<Rightarrow> ktap_val parse" where
  "scanned tok tv old =
     (if tok = TK_name \<or> tok = TK_string \<or>
         TK_OFS < tok \<and> tok \<le> TK_OFS + int TK_RESERVED \<and> tok \<noteq> TK_incr \<and> tok \<noteq> TK_and \<and> tok \<noteq> TK_not \<and> tok \<noteq> TK_or then
        (case tv of TvStr str \<Rightarrow> pbind (keepstr str) (\<lambda>a. pret (set_string a)) | _ \<Rightarrow> pfault)
      else if tok = TK_number then (case tv of TvNum n \<Rightarrow> pret (set_number n) | _ \<Rightarrow> pfault)
      else pret old)"

definition plex :: "(lex_state \<Rightarrow> lex_state lex) \<Rightarrow> unit parse" where
  "plex f s = (case f (ps_ls s) of Inl e \<Rightarrow> Inl (PStop e) | Inr ls \<Rightarrow> Inr ((), s\<lparr>ps_ls := ls\<rparr>))"

definition p_next :: "unit parse" where
  "p_next =
     pbind (pget (\<lambda>s. (ls_lookahead (ps_ls s), ps_tokval s, ps_lookval s))) (\<lambda>(la, tokval, lookval).
     pseq (plex kp_lex_next)
     (if la = TK_eof then
        pbind (pget (\<lambda>s. (ls_tok (ps_ls s), ls_tokval (ps_ls s)))) (\<lambda>(tok, tv).
        pbind (scanned tok tv tokval) (\<lambda>v. pmod (\<lambda>s. s\<lparr>ps_tokval := v\<rparr>)))
      else pmod (\<lambda>s. s\<lparr>ps_tokval := lookval\<rparr>)))"

definition p_lookahead :: "int parse" where
  "p_lookahead =
     pseq (plex (\<lambda>ls. lbind (kp_lex_lookahead ls) (\<lambda>(_, ls). Inr ls)))
     (pbind (pget (\<lambda>s. (ls_lookahead (ps_ls s), ls_lookval (ps_ls s), ps_lookval s))) (\<lambda>(tok, tv, lookval).
      pbind (scanned tok tv lookval) (\<lambda>v. pseq (pmod (\<lambda>s. s\<lparr>ps_lookval := v\<rparr>)) (pret tok))))"

definition p_read_string_until :: "u8 \<Rightarrow> unit parse" where
  "p_read_string_until c =
     pseq (plex (\<lambda>ls. kp_lex_read_string_until ls c))
     (pbind (pget (\<lambda>s. (ls_tokval (ps_ls s), ps_tokval s))) (\<lambda>(tv, old).
      pbind (scanned TK_string tv old) (\<lambda>v. pmod (\<lambda>s. s\<lparr>ps_tokval := v\<rparr>))))"

abbreviation p_tok :: "int parse" where "p_tok \<equiv> pget (\<lambda>s. ls_tok (ps_ls s))"
abbreviation p_line :: "nat parse" where "p_line \<equiv> pget (\<lambda>s. ls_line (ps_ls s))"

definition lex_opt :: "int \<Rightarrow> bool parse" where
  "lex_opt t = pbind p_tok (\<lambda>tok. if tok = t then pseq p_next (pret True) else pret False)"

definition lex_check :: "int \<Rightarrow> unit parse" where
  "lex_check t = pbind p_tok (\<lambda>tok. if tok \<noteq> t then err_token t else p_next)"

definition lex_match :: "int \<Rightarrow> int \<Rightarrow> nat \<Rightarrow> unit parse" where
  "lex_match what who line =
     pbind (lex_opt what) (\<lambda>ok.
       if ok then pret ()
       else pbind (pget (\<lambda>s. (ls_line (ps_ls s), ls_tok (ps_ls s)))) (\<lambda>(ln, tok).
         if line = ln then err_token what
         else err_text tok (quoted (kp_lex_token2str what) @ bytes '' expected (to close '' @ quoted (kp_lex_token2str who) @
                bytes '' at line '' @ dec_digits line @ [41])))"

definition lex_str :: "addr parse" where
  "lex_str =
     pbind (pget (\<lambda>s. (ls_tok (ps_ls s), ps_tokval s))) (\<lambda>(tok, v).
       if tok \<noteq> TK_name then err_token TK_name else pseq p_next (pret (vbits v)))"


section \<open>Variables\<close>

definition vs_at :: "nat \<Rightarrow> var_info parse" where
  "vs_at i = pbind (pget ps_vstack) (\<lambda>vs. if i < length vs then pret (vs ! i) else pfault)"

definition vs_put :: "nat \<Rightarrow> (var_info \<Rightarrow> var_info) \<Rightarrow> unit parse" where
  "vs_put i g = pbind (vs_at i) (\<lambda>v. pmod (\<lambda>s. s\<lparr>ps_vstack := (ps_vstack s)[i := g v]\<rparr>))"

definition var_idx :: "nat \<Rightarrow> nat parse" where
  "var_idx i = pbind cur_fs (\<lambda>f. pbind (pthe (pf_varmap f i)) (\<lambda>x. pret (unat x)))"

definition vs_room :: "unit parse" where
  "vs_room =
     pbind (pget (\<lambda>s. (ps_vtop s, length (ps_vstack s)))) (\<lambda>(vtop, size).
       if vtop < size then pret ()
       else if size \<ge> KP_MAX_VSTACK then XLIMC
       else pmod (\<lambda>s. s\<lparr>ps_vstack := ps_vstack s @ map (pe_var (ps_env s)) [size..<(if size = 0 then 20 else size * 2)]\<rparr>))"

definition var_new :: "nat \<Rightarrow> addr \<Rightarrow> unit parse" where
  "var_new n name =
     pbind cur_fs (\<lambda>f.
     let i = unat (fs_nactvar (pf_fs f)) + n in
     if i \<ge> KP_MAX_LOCVAR then err_limit (pf_linedefined f) KP_MAX_LOCVAR ''local variables''
     else pseq vs_room
       (pbind (pget ps_vtop) (\<lambda>vtop.
        pseq (vs_put vtop (\<lambda>v. v\<lparr>vi_name := name\<rparr>))
        (pseq (set_fs (\<lambda>f. f\<lparr>pf_varmap := (pf_varmap f)(i \<mapsto> of_nat vtop)\<rparr>))
        (pmod (\<lambda>s. s\<lparr>ps_vtop := vtop + 1\<rparr>))))))"

fun var_add :: "nat \<Rightarrow> unit parse" where
  "var_add 0 = pret ()"
| "var_add (Suc n) =
     pbind (genget (\<lambda>fs. (fs_nactvar fs, fs_pc fs))) (\<lambda>(nactvar, pc).
     pbind (var_idx (unat nactvar)) (\<lambda>i.
     pseq (vs_put i (\<lambda>v. v\<lparr>vi_startpc := pc, vi_slot := ucast nactvar, vi_info := 0\<rparr>))
     (pseq (genmod (\<lambda>fs. fs\<lparr>fs_nactvar := nactvar + 1\<rparr>)) (var_add n))))"

text \<open>The variables above a level go out of scope.\<close>

fun remove_loop :: "nat \<Rightarrow> unit parse" where
  "remove_loop 0 = pret ()"
| "remove_loop (Suc n) =
     pseq (genmod (\<lambda>fs. fs\<lparr>fs_nactvar := fs_nactvar fs - 1\<rparr>))
     (pbind (genget (\<lambda>fs. (fs_nactvar fs, fs_pc fs))) (\<lambda>(nactvar, pc).
      pbind (var_idx (unat nactvar)) (\<lambda>i.
      pseq (vs_put i (\<lambda>v. v\<lparr>vi_endpc := pc\<rparr>)) (remove_loop n))))"

definition var_remove :: "u32 \<Rightarrow> unit parse" where
  "var_remove tolevel = pbind (genget fs_nactvar) (\<lambda>nactvar. remove_loop (unat nactvar - unat tolevel))"

text \<open>The last of the active variables with a name: \<open>Inl\<close> a fault, \<open>Inr None\<close>: there is none.\<close>

fun lookup_local :: "var_info list \<Rightarrow> (nat \<Rightarrow> u16 option) \<Rightarrow> addr \<Rightarrow> nat \<Rightarrow> unit + nat option" where
  "lookup_local vs varmap n 0 = Inr None"
| "lookup_local vs varmap n (Suc i) =
     (case varmap i of
        None \<Rightarrow> Inl ()
      | Some x \<Rightarrow>
          if unat x < length vs then (if n = vi_name (vs ! unat x) then Inr (Some i) else lookup_local vs varmap n i)
          else Inl ())"

definition var_lookup_local :: "var_info list \<Rightarrow> pfunc \<Rightarrow> addr \<Rightarrow> unit + nat option" where
  "var_lookup_local vs f n = lookup_local vs (pf_varmap f) n (unat (fs_nactvar (pf_fs f)))"

text \<open>The index of the upvalue for a variable, and the function with it: \<open>None\<close>, when it would be one too many.\<close>

definition var_lookup_uv :: "pfunc \<Rightarrow> u16 \<Rightarrow> ExpDesc \<Rightarrow> (nat \<times> pfunc) option" where
  "var_lookup_uv f vidx e =
     (case position vidx (map fst (pf_uv f)) of
        Some i \<Rightarrow> Some (i, f)
      | None \<Rightarrow>
          if length (pf_uv f) \<ge> KP_MAX_UPVAL then None
          else Some (length (pf_uv f),
                     f\<lparr>pf_uv := pf_uv f @ [(vidx, if e_k e = VLOCAL then vidx else of_nat KP_MAX_VSTACK + ucast (e_info e))]\<rparr>))"

fun uvmark :: "u32 \<Rightarrow> fscope list \<Rightarrow> fscope list" where
  "uvmark level [] = []"
| "uvmark level (bl # bls) =
     (if ucast (bl_nactvar bl) > level then bl # uvmark level bls else bl\<lparr>bl_flags := bl_flags bl OR FSCOPE_UPVAL\<rparr> # bls)"

definition fscope_uvmark :: "u32 \<Rightarrow> pfunc \<Rightarrow> pfunc" where
  "fscope_uvmark level f = f\<lparr>pf_bl := uvmark level (pf_bl f)\<rparr>"

datatype lookup_stop = LookupFault | TooManyUpvalues nat

text \<open>The variable (\<open>None\<close>: global), its expression and the functions, in which upvalues and scopes were marked.\<close>

fun var_lookup_from :: "var_info list \<Rightarrow> addr \<Rightarrow> ExpDesc \<Rightarrow> bool \<Rightarrow> pfunc list \<Rightarrow> lookup_stop + u16 option \<times> ExpDesc \<times> pfunc list" where
  "var_lookup_from vs name e first [] = Inr (None, (expr_init e VGLOBAL 0)\<lparr>e_sval := name\<rparr>, [])"
| "var_lookup_from vs name e first (f # fs) =
     (case var_lookup_local vs f name of
        Inl _ \<Rightarrow> Inl LookupFault
      | Inr (Some reg) \<Rightarrow>
          (case pf_varmap f reg of
             None \<Rightarrow> Inl LookupFault
           | Some vidx \<Rightarrow>
               Inr (Some vidx, (expr_init e VLOCAL (of_nat reg))\<lparr>e_aux := ucast vidx\<rparr>,
                    (if first then f else fscope_uvmark (of_nat reg) f) # fs))
      | Inr None \<Rightarrow>
          (case var_lookup_from vs name e False fs of
             Inl err \<Rightarrow> Inl err
           | Inr (None, e, fs) \<Rightarrow> Inr (None, e, f # fs)
           | Inr (Some vidx, e, fs) \<Rightarrow>
               (case var_lookup_uv f vidx e of
                  None \<Rightarrow> Inl (TooManyUpvalues (pf_linedefined f))
                | Some (i, f) \<Rightarrow> Inr (Some vidx, e\<lparr>e_info := ucast (of_nat i :: u8), e_k := VUPVAL\<rparr>, f # fs))))"

definition var_lookup :: "ExpDesc \<Rightarrow> ExpDesc parse" where
  "var_lookup e =
     pbind lex_str (\<lambda>name.
     pbind (pget (\<lambda>s. var_lookup_from (ps_vstack s) name e True (ps_fs s))) (\<lambda>r.
       case r of
         Inl LookupFault \<Rightarrow> pfault
       | Inl (TooManyUpvalues line) \<Rightarrow> err_limit line KP_MAX_UPVAL ''upvalues''
       | Inr (_, e, fs) \<Rightarrow> pseq (pmod (\<lambda>s. s\<lparr>ps_fs := fs\<rparr>)) (pret e)))"


section \<open>Labels and jumps to them\<close>

definition gola_new :: "addr \<Rightarrow> u8 \<Rightarrow> u32 \<Rightarrow> nat parse" where
  "gola_new name info pc =
     pseq vs_room
     (pbind (pget ps_vtop) (\<lambda>vtop.
      pbind (genget fs_nactvar) (\<lambda>nactvar.
      pseq (vs_put vtop (\<lambda>v. v\<lparr>vi_name := name, vi_startpc := pc, vi_slot := ucast nactvar, vi_info := info\<rparr>))
      (pseq (pmod (\<lambda>s. s\<lparr>ps_vtop := vtop + 1\<rparr>)) (pret vtop)))))"

definition gola_isgoto :: "var_info \<Rightarrow> bool" where "gola_isgoto v \<longleftrightarrow> vi_info v AND VSTACK_GOTO \<noteq> 0"
definition gola_islabel :: "var_info \<Rightarrow> bool" where "gola_islabel v \<longleftrightarrow> vi_info v AND VSTACK_LABEL \<noteq> 0"
definition gola_isgotolabel :: "var_info \<Rightarrow> bool" where
  "gola_isgotolabel v \<longleftrightarrow> vi_info v AND (VSTACK_GOTO OR VSTACK_LABEL) \<noteq> 0"

definition gola_patch :: "nat \<Rightarrow> nat \<Rightarrow> unit parse" where
  "gola_patch vg vl =
     pbind (vs_at vg) (\<lambda>g.
     let pc = vi_startpc g in
     pseq (vs_put vg (\<lambda>v. v\<lparr>vi_name := 0\<rparr>))
     (pbind (vs_at vl) (\<lambda>l.
      gen (cbind (ins_at pc) (\<lambda>i.
           cbind (ins_put pc (setbc_a i (ucast (vi_slot l)))) (\<lambda>_. jmp_patch pc (vi_startpc l)))))))"

definition gola_close :: "nat \<Rightarrow> unit parse" where
  "gola_close vg =
     pbind (vs_at vg) (\<lambda>g.
     let pc = vi_startpc g in
     gen (cbind (ins_at pc) (\<lambda>i.
          let i = setbc_a i (ucast (vi_slot g)) in
          cbind (ins_put pc i) (\<lambda>_.
            if bc_op i = op_of BC_JMP then
              cbind (jmp_next pc) (\<lambda>nx.
              cbind (if nx \<noteq> NO_JMP then jmp_patch nx pc else cret ()) (\<lambda>_.
              cbind (ins_at pc) (\<lambda>i. ins_put pc (setbc_j (setbc_op i (op_of BC_UCLO)) (-1)))))
            else cret ()))))"

definition line_of_ins :: "u32 \<Rightarrow> unit parse" where
  "line_of_ins pc =
     pbind (genget fs_bc) (\<lambda>bc.
       if unat pc < length bc then pmod (\<lambda>s. s\<lparr>ps_ls := (ps_ls s)\<lparr>ls_line := snd (bc ! unat pc)\<rparr>\<rparr>) else pfault)"

definition gola_resolve1 :: "nat \<Rightarrow> nat \<Rightarrow> unit parse" where
  "gola_resolve1 idx vg =
     pbind (vs_at vg) (\<lambda>g.
     pbind (vs_at idx) (\<lambda>l.
       if vi_name g = vi_name l \<and> gola_isgoto g then
         pseq (if vi_slot g < vi_slot l then
                 pbind (var_idx (unat (vi_slot g))) (\<lambda>i.
                 pbind (vs_at i) (\<lambda>v.
                 pseq (line_of_ins (vi_startpc g))
                 (pbind (str_bytes (vi_name g)) (\<lambda>gname.
                  pbind (str_bytes (vi_name v)) (\<lambda>vname.
                  err_text 0 (bytes ''<goto '' @ gname @ bytes ''> jumps into the scope of local '' @ quoted vname))))))
               else pret ())
         (gola_patch vg idx)
       else pret ()))"

definition gola_resolve :: "fscope \<Rightarrow> nat \<Rightarrow> unit parse" where
  "gola_resolve bl idx = peach (gola_resolve1 idx) [bl_vstart bl..<idx]"

text \<open>A label that goes out of scope gets the jumps behind it that name it.\<close>

definition gola_back :: "fscope \<Rightarrow> addr \<Rightarrow> nat \<Rightarrow> nat \<Rightarrow> unit parse" where
  "gola_back bl name v vg =
     pbind (vs_at vg) (\<lambda>g.
     pbind (vs_at v) (\<lambda>l.
       if vi_name g = name \<and> gola_isgoto g then
         pseq (if bl_flags bl AND FSCOPE_UPVAL \<noteq> 0 \<and> vi_slot g > vi_slot l then gola_close vg else pret ())
         (gola_patch vg v)
       else pret ()))"

definition gola_fixup1 :: "fscope \<Rightarrow> nat \<Rightarrow> nat \<Rightarrow> unit parse" where
  "gola_fixup1 bl ve v =
     pbind (vs_at v) (\<lambda>x.
     let name = vi_name x in
     if name = 0 then pret ()
     else if gola_islabel x then
       pseq (vs_put v (\<lambda>x. x\<lparr>vi_name := 0\<rparr>)) (peach (gola_back bl name v) [Suc v..<ve])
     else if gola_isgoto x then
       pbind cur_fs (\<lambda>f.
         case pf_bl f of
           prev # outer \<Rightarrow>
             pseq (set_fs (\<lambda>f. f\<lparr>pf_bl := prev\<lparr>bl_flags := bl_flags prev OR (if name = NAME_BREAK then FSCOPE_BREAK else FSCOPE_GOLA)\<rparr> # outer\<rparr>))
             (pseq (vs_put v (\<lambda>x. x\<lparr>vi_slot := bl_nactvar bl\<rparr>))
             (if bl_flags bl AND FSCOPE_UPVAL \<noteq> 0 then gola_close v else pret ()))
         | [] \<Rightarrow>
             pseq (line_of_ins (vi_startpc x))
             (if name = NAME_BREAK then err_text 0 (bytes ''no loop to break'')
              else pbind (str_bytes name) (\<lambda>str. err_text 0 (bytes ''undefined label '' @ quoted str))))
     else pret ())"

definition gola_fixup :: "fscope \<Rightarrow> unit parse" where
  "gola_fixup bl = pbind (pget ps_vtop) (\<lambda>ve. peach (gola_fixup1 bl ve) [bl_vstart bl..<ve])"

definition gola_findlabel :: "addr \<Rightarrow> bool parse" where
  "gola_findlabel name =
     pbind cur_fs (\<lambda>f.
       case pf_bl f of
         [] \<Rightarrow> pfault
       | bl # _ \<Rightarrow>
           pget (\<lambda>s. list_ex (\<lambda>v. vi_name v = name \<and> gola_islabel v) (drop (bl_vstart bl) (take (ps_vtop s) (ps_vstack s)))))"


section \<open>Scopes\<close>

definition fscope_begin :: "u8 \<Rightarrow> unit parse" where
  "fscope_begin flags =
     pbind (pget ps_vtop) (\<lambda>vtop.
     set_fs (\<lambda>f. f\<lparr>pf_bl := \<lparr>bl_vstart = vtop, bl_nactvar = ucast (fs_nactvar (pf_fs f)), bl_flags = flags\<rparr> # pf_bl f\<rparr>))"

definition fscope_end :: "unit parse" where
  "fscope_end =
     pbind cur_fs (\<lambda>f.
       case pf_bl f of
         [] \<Rightarrow> pfault
       | bl # outer \<Rightarrow>
           pseq (set_fs (\<lambda>f. f\<lparr>pf_bl := outer\<rparr>))
           (pseq (var_remove (ucast (bl_nactvar bl)))
           (pseq (genmod (\<lambda>fs. fs\<lparr>fs_freereg := fs_nactvar fs\<rparr>))
           (pseq (if bl_flags bl AND (FSCOPE_UPVAL OR FSCOPE_NOCLOSE) = FSCOPE_UPVAL
                  then pseq (gen (bcemit_AJ BC_UCLO (ucast (bl_nactvar bl)) 0)) (pret ()) else pret ())
           (if bl_flags bl AND FSCOPE_BREAK \<noteq> 0 then
              (if bl_flags bl AND FSCOPE_LOOP \<noteq> 0 then
                 pbind (genget fs_pc) (\<lambda>pc.
                 pbind (gola_new NAME_BREAK VSTACK_LABEL pc) (\<lambda>idx.
                 pseq (pmod (\<lambda>s. s\<lparr>ps_vtop := idx\<rparr>)) (gola_resolve bl idx)))
               else gola_fixup bl)
            else if bl_flags bl AND FSCOPE_GOLA = 0 then pret ()
            else gola_fixup bl)))))"

definition or_flags :: "u8 \<Rightarrow> unit parse" where
  "or_flags fl =
     pbind cur_fs (\<lambda>f.
       case pf_bl f of
         [] \<Rightarrow> pfault
       | bl # outer \<Rightarrow> set_fs (\<lambda>f. f\<lparr>pf_bl := bl\<lparr>bl_flags := bl_flags bl OR fl\<rparr> # outer\<rparr>))"


section \<open>Function states\<close>

definition fs_fixup_bc :: "u8 \<Rightarrow> u8 \<Rightarrow> (bcins \<times> nat) list \<Rightarrow> bcins list" where
  "fs_fixup_bc flags framesize base =
     BCINS_AD (op_of (if flags AND PROTO_VARARG \<noteq> 0 then BC_FUNCV else BC_FUNCF)) (ucast framesize) 0 # map fst (tl base)"

text \<open>The references of a child to the variables of its parent: a local slot with flags, or an upvalue of the parent.\<close>

definition fs_fixup_uv2 :: "var_info list \<Rightarrow> u16 list \<Rightarrow> u16 list option" where
  "fs_fixup_uv2 vs uv =
     those (map (\<lambda>vidx.
       if unat vidx \<ge> KP_MAX_VSTACK then Some (vidx - of_nat KP_MAX_VSTACK)
       else if unat vidx < length vs then
         (let v = vs ! unat vidx in
          Some (ucast (vi_slot v) OR UV_LOCAL OR (if vi_info v AND VSTACK_VAR_RW \<noteq> 0 then 0 else UV_IMMUTABLE)))
       else None) uv)"

text \<open>Values and objects as the dump has them: strings by their bytes, tables and prototypes by their contents.\<close>

definition tval_of :: "strtab \<Rightarrow> ktap_val \<Rightarrow> tval option" where
  "tval_of strs v =
     (if is_number v then Some (TNum (nvalue v))
      else if is_string v then map_option TStr (map_of (st_objs strs) (vbits v))
      else Some (TPri (itype v)))"

definition utab_of :: "strtab \<Rightarrow> ktap_tab \<Rightarrow> utab option" where
  "utab_of strs t =
     map_option (\<lambda>ns. \<lparr>ut_array = [], ut_node = ns\<rparr>)
       (those (map (\<lambda>n. case (tval_of strs (n_key n), tval_of strs (n_val n)) of
                          (Some k, Some v) \<Rightarrow> Some (k, v) | _ \<Rightarrow> None) (tnode t)))"

definition kgc_of :: "pstate \<Rightarrow> ktap_val \<Rightarrow> kgc option" where
  "kgc_of s key =
     (if is_string key then map_option KgcStr (map_of (st_objs (ps_strs s)) (vbits key))
      else case ps_objs s (vbits key) of
          Some (OTab t) \<Rightarrow> if is_proto key then None else map_option KgcTab (utab_of (ps_strs s) t)
        | Some (OProto (UProto fl np fz uv ks kn bc dbg)) \<Rightarrow>
            if is_proto key then map_option (\<lambda>uv. KgcChild (UProto fl np fz uv ks kn bc dbg)) (fs_fixup_uv2 (ps_vstack s) uv) else None
        | None \<Rightarrow> None)"

text \<open>The constants are put into their slots; \<open>None\<close>: a slot outside the arrays, or an object that is not there.\<close>

fun fixup_nodes :: "pstate \<Rightarrow> ktap_node list \<Rightarrow> kgc option list \<times> tval option list \<Rightarrow> (kgc option list \<times> tval option list) option" where
  "fixup_nodes s [] ks = Some ks"
| "fixup_nodes s (n # ns) (kg, kn) =
     (if is_number (n_val n) then
        (let kidx = unat (nvalue (n_val n)) in
         if is_number (n_key n) then
           (if kidx < length kn then fixup_nodes s ns (kg, kn[kidx := Some (TNum (nvalue (n_key n)))]) else None)
         else if kidx < length kg then
           (case kgc_of s (n_key n) of None \<Rightarrow> None | Some k \<Rightarrow> fixup_nodes s ns (kg[kidx := Some k], kn))
         else None)
      else fixup_nodes s ns (kg, kn))"

definition fs_fixup_k :: "(kgc list \<times> tval list) parse" where
  "fs_fixup_k =
     pbind cur_fs (\<lambda>f.
     let fs = pf_fs f in
     if fs_nkn fs > BCMAX_D + 1 then err_limit (pf_linedefined f) 65536 ''constants''
     else if fs_nkgc fs > BCMAX_D + 1 then err_limit (pf_linedefined f) 65536 ''constants''
     else
       pbind (pget (\<lambda>s. fixup_nodes s (tnode (fs_kt fs)) (replicate (unat (fs_nkgc fs)) None, replicate (unat (fs_nkn fs)) None))) (\<lambda>r.
       pbind (pthe r) (\<lambda>(kg, kn).
       pbind (pthe (those kg)) (\<lambda>kg.
       pbind (pthe (those kn)) (\<lambda>kn. pret (rev kg, kn))))))"

definition fs_fixup_uv1 :: "pfunc \<Rightarrow> u16 list" where
  "fs_fixup_uv1 f = map snd (pf_uv f)"

definition fs_prep_line :: "u32 \<Rightarrow> int \<Rightarrow> nat" where
  "fs_prep_line pc numline = (unat pc - 1) * (if numline < 256 then 1 else if numline < 65536 then 2 else 4)"

definition fs_fixup_line :: "(bcins \<times> nat) list \<Rightarrow> nat \<Rightarrow> int \<Rightarrow> u8 list" where
  "fs_fixup_line base first numline =
     concat (map (\<lambda>(_, line).
       let delta = int line - int first in
       if numline < 256 then [word_of_int delta]
       else if numline < 65536 then le16 (word_of_int delta)
       else le32 (word_of_int delta)) (tl base))"

fun prep_names :: "(nat \<Rightarrow> u8) \<Rightarrow> u8 list list \<Rightarrow> sbuf \<Rightarrow> sbuf option" where
  "prep_names ju [] sb = Some sb"
| "prep_names ju (s # ss) sb = Option.bind (buf_write ju (length s + 1) (s @ [0]) sb) (prep_names ju ss)"

text \<open>The names and ranges of the local variables; a hidden variable has a one-byte name.\<close>

fun prep_vars :: "(nat \<Rightarrow> u8) \<Rightarrow> strtab \<Rightarrow> u32 \<Rightarrow> var_info list \<Rightarrow> sbuf \<Rightarrow> sbuf option" where
  "prep_vars ju strs lastpc [] sb = Some sb"
| "prep_vars ju strs lastpc (v # vs) sb =
     (if gola_isgotolabel v then prep_vars ju strs lastpc vs sb
      else
        Option.bind (if vi_name v < VARNAME__MAX then Some [ucast (vi_name v)]
                     else map_option (\<lambda>s. s @ [0]) (map_of (st_objs strs) (vi_name v))) (\<lambda>name.
        Option.bind (buf_write ju (length name + 2 * 5)
          (name @ strfmt_wuleb128 (vi_startpc v - lastpc) @ strfmt_wuleb128 (vi_endpc v - vi_startpc v)) sb)
          (prep_vars ju strs (vi_startpc v) vs)))"

text \<open>The offset of the local variables, and all the bytes.\<close>

definition fs_prep_var :: "(nat \<times> u8 list) parse" where
  "fs_prep_var =
     pbind cur_fs (\<lambda>f.
     pbind (pget (\<lambda>s. (ps_env s, ps_strs s, ps_vstack s, ps_vtop s, ls_sb (ps_ls s)))) (\<lambda>(env, strs, vs, vtop, tok).
     let ju = pe_byte env;
         sb = kp_buf_reset \<lparr>sb_mem = map ju [0..<pe_room env tok], sb_p = None\<rparr> in
     pbind (pthe (those (map (\<lambda>(x, _). if unat x < length vs then map_of (st_objs strs) (vi_name (vs ! unat x)) else None) (pf_uv f)))) (\<lambda>names.
     pbind (pthe (prep_names ju names sb)) (\<lambda>sb.
     pbind (pthe (sb_p sb)) (\<lambda>ofsvar.
     pbind (pthe (prep_vars ju strs 0 (drop (pf_vbase f) (take vtop vs)) sb)) (\<lambda>sb.
     pbind (pthe (kp_buf_putb ju sb 0)) (\<lambda>sb.
     pbind (pthe (kp_buf_str sb)) (\<lambda>b.
     pseq (pmod (\<lambda>s. s\<lparr>ps_ls := (ps_ls s)\<lparr>ls_sb := b\<rparr>\<rparr>)) (pret (ofsvar, b))))))))))"

definition bcopisret :: "u32 \<Rightarrow> bool" where
  "bcopisret op \<longleftrightarrow> op = op_of BC_CALLMT \<or> op = op_of BC_CALLT \<or> op = op_of BC_RETM \<or> op = op_of BC_RET \<or> op = op_of BC_RET0 \<or> op = op_of BC_RET1"

definition set_line :: "u32 \<Rightarrow> nat \<Rightarrow> unit parse" where
  "set_line pc line =
     pbind (genget fs_bc) (\<lambda>bc.
       if unat pc < length bc then genmod (\<lambda>fs. fs\<lparr>fs_bc := (fs_bc fs)[unat pc := (fst (fs_bc fs ! unat pc), line)]\<rparr>) else pfault)"

text \<open>Returns that were emitted before the first child are moved to the end, behind an instruction that closes upvalues.\<close>

fun fixup_returns :: "nat \<Rightarrow> u32 \<Rightarrow> unit parse" where
  "fixup_returns 0 pc = pret ()"
| "fixup_returns (Suc n) pc =
     pbind (genget fs_bc) (\<lambda>bc.
       if unat pc \<ge> length bc then pfault
       else let (i, line) = bc ! unat pc in
         if bcopisret (bc_op i) then
           pbind (gen (bcemit_INS i)) (\<lambda>ofs.
           pseq (set_line ofs line)
           (let offset = ofs - (pc + 1) + BCBIAS_J in
            if offset > BCMAX_D then err_syntax ''function too long for return fixup''
            else pseq (gen (ins_put pc (BCINS_AD (op_of BC_UCLO) 0 offset))) (fixup_returns n (pc + 1))))
         else if bc_op i = op_of BC_UCLO then pret ()
         else fixup_returns n (pc + 1))"

definition fs_fixup_ret :: "unit parse" where
  "fs_fixup_ret =
     pbind cur_fs (\<lambda>f.
     let lastpc = fs_pc (pf_fs f) in
     pbind (if lastpc \<le> fs_lasttarget (pf_fs f) then pret False
            else pbind (gen (ins_at (lastpc - 1))) (\<lambda>i. pret (bcopisret (bc_op i)))) (\<lambda>returns.
     pseq (if returns then pret ()
           else case pf_bl f of
               [] \<Rightarrow> pfault
             | bl # _ \<Rightarrow>
                 pseq (if bl_flags bl AND FSCOPE_UPVAL \<noteq> 0 then pseq (gen (bcemit_AJ BC_UCLO 0 0)) (pret ()) else pret ())
                 (pseq (gen (bcemit_AD BC_RET0 0 1)) (pret ())))
     (pseq (or_flags FSCOPE_NOCLOSE)
     (pseq fscope_end
     (if pf_flags f AND PROTO_FIXUP_RETURN \<noteq> 0 then fixup_returns (unat lastpc - 1) 1 else pret ())))))"

text \<open>The offsets of the arrays in the block of a prototype: its size, and where constants, upvalue references, lines and
  variables start.\<close>

definition fs_layout :: "nat \<Rightarrow> fstate \<Rightarrow> nat \<Rightarrow> nat \<Rightarrow> nat \<Rightarrow> nat \<times> nat \<times> nat \<times> nat \<times> nat" where
  "fs_layout header fs nuv lines vars =
     (let ofsk = (header + length (fs_bc fs) * 4 + unat (fs_nkgc fs) * 8 + 15) div 16 * 16;
          ofsuv = ofsk + unat (fs_nkn fs) * 16;
          ofsli = ofsuv + (nuv + 1) div 2 * 2 * 2;
          ofsdbg = ofsli + lines in
      (ofsdbg + vars, ofsk, ofsuv, ofsli, ofsdbg))"

definition new_obj :: "gcobj \<Rightarrow> addr parse" where
  "new_obj x =
     pbind (pget (\<lambda>s. pe_obj (ps_env s) (ps_nobj s))) (\<lambda>a.
     pseq (pmod (\<lambda>s. s\<lparr>ps_objs := (ps_objs s)(a \<mapsto> x), ps_nobj := ps_nobj s + 1\<rparr>)) (pret a))"

definition fs_finish :: "nat \<Rightarrow> uproto parse" where
  "fs_finish line =
     pbind cur_fs (\<lambda>f0.
     let numline = int line - int (pf_linedefined f0) in
     pseq fs_fixup_ret
     (pbind fs_prep_var (\<lambda>(ofsvar, vars).
      pbind cur_fs (\<lambda>f.
      let fs = pf_fs f; bc = fs_fixup_bc (pf_flags f) (fs_framesize fs) (fs_bc fs) in
      pbind fs_fixup_k (\<lambda>(kgc, knum).
      pseq (pmod (\<lambda>s. s\<lparr>ps_vtop := pf_vbase f, ps_fs := tl (ps_fs s)\<rparr>))
      (pret (UProto (pf_flags f AND NOT (PROTO_HAS_RETURN OR PROTO_FIXUP_RETURN)) (pf_numparams f) (fs_framesize fs)
        (fs_fixup_uv1 f) kgc knum (tl bc)
        (Some (of_nat (pf_linedefined f), word_of_int numline, fs_fixup_line (fs_bc fs) (pf_linedefined f) numline @ vars)))))))))"

text \<open>The fields \<^verbatim>\<open>fs_init\<close> leaves as they are are set before they are read: the position of the instructions and the line.\<close>

definition fs_init :: "nat \<Rightarrow> unit parse" where
  "fs_init line =
     pmod (\<lambda>s. s\<lparr>ps_fs :=
       \<lparr>pf_fs = \<lparr>fs_kt = ukp_tab_new (pe_node (ps_env s)), fs_bc = [], fs_lasttarget = 0, fs_jpc = NO_JMP, fs_freereg = 0, fs_nactvar = 0,
                 fs_nkn = 0, fs_nkgc = 0, fs_base = 0, fs_bclim = 0, fs_sizebc = 0, fs_framesize = 1, fs_lastline = 0, fs_vinfo = []\<rparr>,
        pf_bl = [], pf_linedefined = line, pf_vbase = ps_vtop s, pf_flags = 0, pf_numparams = 0,
        pf_varmap = Map.empty, pf_uv = []\<rparr> # ps_fs s\<rparr>)"

end
