(* ===== verification/Ktap_Parse.thy ===== *)
theory Ktap_Parse
  imports Ktap_Scope
begin

text \<open>
  The parser (\<^verbatim>\<open>userspace/kp_parse.c\<close>, lines 1769 to 3139).

  Expressions and statements call each other.  Each function here has the two that are entered again as parameters,
  \<open>E\<close> for \<^verbatim>\<open>expr_binop\<close> with its limit and \<open>C\<close> for \<^verbatim>\<open>parse_chunk\<close>; \<open>expr_rec\<close> and \<open>chunk_rec\<close> at the end tie the knot with a bound
  on the nesting.  The code limits it by \<^verbatim>\<open>KP_MAX_XLEVEL\<close> through the level both of them count, so that this number of
  levels is enough.  Loops go on while they consume text (\<open>pwhile\<close>).
\<close>

section \<open>Tokens\<close>

abbreviation (input) TK_trace :: int where "TK_trace \<equiv> 257"
abbreviation (input) TK_trace_end :: int where "TK_trace_end \<equiv> 258"
abbreviation (input) TK_argstr :: int where "TK_argstr \<equiv> 259"
abbreviation (input) TK_probename :: int where "TK_probename \<equiv> 260"
abbreviation (input) TK_arg0 :: int where "TK_arg0 \<equiv> 262"
abbreviation (input) TK_arg9 :: int where "TK_arg9 \<equiv> 271"
abbreviation (input) TK_profile :: int where "TK_profile \<equiv> 272"
abbreviation (input) TK_tick :: int where "TK_tick \<equiv> 273"
abbreviation (input) TK_pid :: int where "TK_pid \<equiv> 274"
abbreviation (input) TK_tid :: int where "TK_tid \<equiv> 275"
abbreviation (input) TK_uid :: int where "TK_uid \<equiv> 276"
abbreviation (input) TK_cpu :: int where "TK_cpu \<equiv> 277"
abbreviation (input) TK_execname :: int where "TK_execname \<equiv> 278"
abbreviation (input) TK_break :: int where "TK_break \<equiv> 281"
abbreviation (input) TK_do :: int where "TK_do \<equiv> 282"
abbreviation (input) TK_else :: int where "TK_else \<equiv> 283"
abbreviation (input) TK_elseif :: int where "TK_elseif \<equiv> 284"
abbreviation (input) TK_end :: int where "TK_end \<equiv> 285"
abbreviation (input) TK_false :: int where "TK_false \<equiv> 286"
abbreviation (input) TK_for :: int where "TK_for \<equiv> 287"
abbreviation (input) TK_function :: int where "TK_function \<equiv> 288"
abbreviation (input) TK_if :: int where "TK_if \<equiv> 290"
abbreviation (input) TK_in :: int where "TK_in \<equiv> 291"
abbreviation (input) TK_local :: int where "TK_local \<equiv> 292"
abbreviation (input) TK_nil :: int where "TK_nil \<equiv> 293"
abbreviation (input) TK_repeat :: int where "TK_repeat \<equiv> 296"
abbreviation (input) TK_return :: int where "TK_return \<equiv> 297"
abbreviation (input) TK_true :: int where "TK_true \<equiv> 299"
abbreviation (input) TK_until :: int where "TK_until \<equiv> 300"

text \<open>Single characters: parentheses, brackets, braces, comma, semicolon, equal sign, dot, colon, minus.\<close>

abbreviation (input) c_lpar :: int where "c_lpar \<equiv> 40"
abbreviation (input) c_rpar :: int where "c_rpar \<equiv> 41"
abbreviation (input) c_lbra :: int where "c_lbra \<equiv> 91"
abbreviation (input) c_rbra :: int where "c_rbra \<equiv> 93"
abbreviation (input) c_lcur :: int where "c_lcur \<equiv> 123"
abbreviation (input) c_rcur :: int where "c_rcur \<equiv> 125"
abbreviation (input) c_comma :: int where "c_comma \<equiv> 44"
abbreviation (input) c_semi :: int where "c_semi \<equiv> 59"
abbreviation (input) c_eq :: int where "c_eq \<equiv> 61"
abbreviation (input) c_dot :: int where "c_dot \<equiv> 46"
abbreviation (input) c_colon :: int where "c_colon \<equiv> 58"
abbreviation (input) c_minus :: int where "c_minus \<equiv> 45"

text \<open>A descriptor that has not been written: no field of it is read before it is set.\<close>

definition no_expr :: ExpDesc where
  "no_expr = \<lparr>e_k = VVOID, e_info = 0, e_aux = 0, e_nval = set_number 0, e_sval = 0, e_t = NO_JMP, e_f = NO_JMP\<rparr>"

definition num_const :: "u64 \<Rightarrow> ExpDesc" where
  "num_const n = (expr_init no_expr VKNUM 0)\<lparr>e_nval := set_number n\<rparr>"

definition str_const :: "addr \<Rightarrow> ExpDesc" where
  "str_const a = (expr_init no_expr VKSTR 0)\<lparr>e_sval := a\<rparr>"

type_synonym exprs = "u32 \<Rightarrow> (BinOpr \<times> ExpDesc) parse"

definition call_expr :: "exprs \<Rightarrow> ExpDesc parse" where
  "call_expr E = pbind (E 0) (\<lambda>(_, v). pret v)"


section \<open>Expressions\<close>

definition expr_str :: "ExpDesc parse" where
  "expr_str = pbind lex_str (\<lambda>a. pret (str_const a))"

definition checku8 :: "u32 \<Rightarrow> bool" where "checku8 x \<longleftrightarrow> x = ucast (ucast x :: u8)"

definition expr_index :: "ExpDesc \<Rightarrow> ExpDesc \<Rightarrow> ExpDesc parse" where
  "expr_index t e =
     (let t = t\<lparr>e_k := VINDEXED\<rparr>; reg = pbind (gen (expr_toanyreg e)) (\<lambda>e. pret (t\<lparr>e_aux := e_info e\<rparr>)) in
      if expr_isnumk e then
        (let n = expr_numberV e; k = ucast n :: u32 in
         if checku8 k \<and> n = scast k then pret (t\<lparr>e_aux := BCMAX_C + 1 + k\<rparr>) else reg)
      else if e_k e = VKSTR then
        pbind (gen (const_str e)) (\<lambda>idx. if idx \<le> BCMAX_C then pret (t\<lparr>e_aux := NOT idx\<rparr>) else reg)
      else reg)"

definition expr_field :: "ExpDesc \<Rightarrow> ExpDesc parse" where
  "expr_field v =
     pbind (gen (expr_toanyreg v)) (\<lambda>v.
     pseq p_next
     (pbind expr_str (\<lambda>key. expr_index v key)))"

definition expr_bracket :: "exprs \<Rightarrow> ExpDesc parse" where
  "expr_bracket E =
     pseq p_next
     (pbind (call_expr E) (\<lambda>v.
      pbind (gen (expr_toval v)) (\<lambda>v.
      pseq (lex_check c_rbra) (pret v))))"

definition expr_kvalue :: "ktap_val \<Rightarrow> ExpDesc \<Rightarrow> ktap_val" where
  "expr_kvalue v e =
     (if kord (e_k e) \<le> kord VKTRUE then v\<lparr>itype := NOT (of_nat (kord (e_k e)))\<rparr>
      else if e_k e = VKSTR then set_string (e_sval e)
      else e_nval e)"

text \<open>A table constructor: the template table, whether the last element is an open call, whether there are array elements,
  whether the template has dummy values, the next array index, the number of hash entries, and the expression.\<close>

record table_state =
  tb_t :: "addr option"
  tb_vcall :: bool
  tb_needarr :: bool
  tb_fixt :: bool
  tb_narr :: u32
  tb_nhash :: u32
  tb_e :: ExpDesc

definition table_key :: "exprs \<Rightarrow> table_state \<Rightarrow> (ExpDesc \<times> table_state) parse" where
  "table_key E tb =
     pbind p_tok (\<lambda>tok.
       if tok = c_lbra then
         pbind (expr_bracket E) (\<lambda>key.
         pbind (if \<not> expr_isk key then expr_index (tb_e tb) key else pret (tb_e tb)) (\<lambda>e.
         let tb = (if expr_isnumk key \<and> expr_numiszero key then tb\<lparr>tb_e := e, tb_needarr := True\<rparr>
                   else tb\<lparr>tb_e := e, tb_nhash := tb_nhash tb + 1\<rparr>) in
         pseq (lex_check c_eq) (pret (key, tb))))
       else
         pbind (if tok = TK_name then pbind p_lookahead (\<lambda>la. pret (la = c_eq)) else pret False) (\<lambda>named.
           if named then
             pbind expr_str (\<lambda>key. pseq (lex_check c_eq) (pret (key, tb\<lparr>tb_nhash := tb_nhash tb + 1\<rparr>)))
           else pret (num_const (scast (tb_narr tb)), tb\<lparr>tb_narr := tb_narr tb + 1, tb_needarr := True, tb_vcall := True\<rparr>)))"

text \<open>The template table gets a key; its value is a constant or, for one that is computed, the table itself for now.\<close>

definition table_template :: "u32 \<Rightarrow> u32 \<Rightarrow> ExpDesc \<Rightarrow> ExpDesc \<Rightarrow> table_state \<Rightarrow> table_state parse" where
  "table_template pc freg key val tb =
     pbind (case tb_t tb of
              Some t \<Rightarrow> pret t
            | None \<Rightarrow>
                pbind (pget ps_env) (\<lambda>env.
                pbind (new_obj (OTab (ukp_tab_new (pe_node env)))) (\<lambda>t.
                pbind (gen (const_gc t KTAP_TTAB)) (\<lambda>kidx.
                pseq (gen (ins_put pc (BCINS_AD (op_of BC_TDUP) (freg - 1) kidx))) (pret t))))) (\<lambda>t.
     pbind (pget (\<lambda>s. ps_objs s t)) (\<lambda>x.
       case x of
         Some (OTab tab) \<Rightarrow>
           pbind (pthe (ukp_tab_set tab (expr_kvalue (set_number 0) key))) (\<lambda>(i, tab).
           let old = n_val (tnode tab ! i);
               isk = expr_isk_nojump val;
               v = (if isk then expr_kvalue old val else set_table t);
               tab = tab\<lparr>tnode := (tnode tab)[i := (tnode tab ! i)\<lparr>n_val := v\<rparr>]\<rparr> in
           pseq (pmod (\<lambda>s. s\<lparr>ps_objs := (ps_objs s)(t \<mapsto> OTab tab)\<rparr>))
           (pret (tb\<lparr>tb_t := Some t, tb_vcall := False, tb_fixt := tb_fixt tb \<or> \<not> isk\<rparr>)))
       | _ \<Rightarrow> pfault))"

definition table_store :: "ExpDesc \<Rightarrow> ExpDesc \<Rightarrow> table_state \<Rightarrow> table_state parse" where
  "table_store key val tb =
     pbind (if e_k val \<noteq> VCALL then pbind (gen (expr_toanyreg val)) (\<lambda>val. pret (val, tb\<lparr>tb_vcall := False\<rparr>))
            else pret (val, tb)) (\<lambda>(val, tb).
     pbind (if expr_isk key then expr_index (tb_e tb) key else pret (tb_e tb)) (\<lambda>e.
     pseq (gen (bcemit_store e val)) (pret (tb\<lparr>tb_e := e\<rparr>))))"

definition table_field :: "exprs \<Rightarrow> u32 \<Rightarrow> u32 \<Rightarrow> table_state \<Rightarrow> (table_state + table_state) parse" where
  "table_field E pc freg tb =
     pbind p_tok (\<lambda>tok.
       if tok = c_rcur then pret (Inr tb)
       else
         pbind (table_key E (tb\<lparr>tb_vcall := False\<rparr>)) (\<lambda>(key, tb).
         pbind (call_expr E) (\<lambda>val.
         pbind (if expr_isk key \<and> e_k key \<noteq> VKNIL \<and> (e_k key = VKSTR \<or> expr_isk_nojump val) then
                  pbind (table_template pc freg key val tb) (\<lambda>tb.
                    if expr_isk_nojump val then pret tb else table_store key val tb)
                else table_store key val tb) (\<lambda>tb.
         pseq (genmod (\<lambda>fs. fs\<lparr>fs_freereg := freg\<rparr>))
         (pbind (lex_opt c_comma) (\<lambda>more.
          pbind (if more then pret True else lex_opt c_semi) (\<lambda>more.
          pret (if more then Inl tb else Inr tb))))))))"

text \<open>The last element is a call: all its results are stored.\<close>

definition table_multi :: "u32 \<Rightarrow> u32 \<Rightarrow> unit cg" where
  "table_multi freg narr =
     cbind (if narr > 256 then cmod (\<lambda>fs. fs\<lparr>fs_bc := butlast (fs_bc fs)\<rparr>) else cret ()) (\<lambda>_.
     cbind (const_num (num_const (ucast (narr - 1)))) (\<lambda>k.
     cbind (cget fs_pc) (\<lambda>pc.
     cbind (ins_put (pc - 1) (BCINS_AD (op_of BC_TSETM) freg k)) (\<lambda>_.
     cbind (ins_at (pc - 2)) (\<lambda>i. ins_put (pc - 2) (setbc_b i 0))))))"

definition table_finish :: "u32 \<Rightarrow> table_state \<Rightarrow> unit parse" where
  "table_finish pc tb =
     (case tb_t tb of
        None \<Rightarrow>
          (let narr = (if \<not> tb_needarr tb then 0 else if tb_narr tb < 3 then 3 else if tb_narr tb > 0x7ff then 0x7ff else tb_narr tb) in
           gen (cbind (ins_at pc) (\<lambda>i. ins_put pc (setbc_d i (narr OR push_bit 11 (hsize2hbits (tb_nhash tb)))))))
      | Some t \<Rightarrow>
          if tb_fixt tb then
            pbind (pget (\<lambda>s. ps_objs s t)) (\<lambda>x.
              case x of
                Some (OTab tab) \<Rightarrow>
                  pmod (\<lambda>s. s\<lparr>ps_objs := (ps_objs s)(t \<mapsto> OTab (tab\<lparr>tnode :=
                    map (\<lambda>n. if is_table (n_val n) then n\<lparr>n_val := set_nil (n_val n)\<rparr> else n) (tnode tab)\<rparr>))\<rparr>)
              | _ \<Rightarrow> pfault)
          else pret ())"

definition expr_table :: "exprs \<Rightarrow> ExpDesc parse" where
  "expr_table E =
     pbind p_line (\<lambda>line.
     pbind (genget fs_freereg) (\<lambda>freg.
     pbind (gen (bcemit_AD BC_TNEW freg 0)) (\<lambda>pc.
     let e = expr_init no_expr VNONRELOC freg in
     pseq (gen (bcreg_reserve 1))
     (pseq (lex_check c_lcur)
     (pbind (pwhile (table_field E pc (freg + 1))
        \<lparr>tb_t = None, tb_vcall = False, tb_needarr = False, tb_fixt = False, tb_narr = 1, tb_nhash = 0, tb_e = e\<rparr>) (\<lambda>tb.
      pseq (lex_match c_rcur c_lcur line)
      (pseq (if tb_vcall tb then gen (table_multi (freg + 1) (tb_narr tb)) else pret ())
      (pbind (genget fs_pc) (\<lambda>pc'.
       pbind (if pc = pc' - 1 then
                pseq (genmod (\<lambda>fs. fs\<lparr>fs_freereg := fs_freereg fs - 1\<rparr>)) (pret ((tb_e tb)\<lparr>e_info := pc, e_k := VRELOCABLE\<rparr>))
              else pret ((tb_e tb)\<lparr>e_k := VNONRELOC\<rparr>)) (\<lambda>e.
       pseq (table_finish pc tb) (pret e)))))))))))"

text \<open>The parameters of a function.\<close>

definition param_loop :: "nat \<Rightarrow> (nat + nat) parse" where
  "param_loop n =
     pbind p_tok (\<lambda>tok.
       if tok = TK_name then
         pbind lex_str (\<lambda>name. pseq (var_new n name) (pbind (lex_opt c_comma) (\<lambda>more. pret (if more then Inl (n + 1) else Inr (n + 1)))))
       else if tok = TK_dots then
         pseq p_next (pseq (set_fs (\<lambda>f. f\<lparr>pf_flags := pf_flags f OR PROTO_VARARG\<rparr>)) (pret (Inr n)))
       else err_syntax (''<name> or '' @ [CHR 39] @ ''...'' @ [CHR 39] @ '' expected''))"

definition parse_params :: "bool \<Rightarrow> u32 parse" where
  "parse_params needself =
     pseq (lex_check c_lpar)
     (pbind (if needself then pbind (keepstr (bytes ''self'')) (\<lambda>a. pseq (var_new 0 a) (pret 1)) else pret 0) (\<lambda>n.
      pbind p_tok (\<lambda>tok.
      pbind (if tok \<noteq> c_rpar then pwhile param_loop n else pret n) (\<lambda>n.
      pseq (var_add n)
      (pseq (gen (bcreg_reserve (of_nat n)))
      (pseq (lex_check c_rpar) (pret (of_nat n))))))))"

text \<open>The body of a function: a new innermost function, whose instructions start behind those of its parent.\<close>

definition func_body :: "unit parse \<Rightarrow> u32 parse \<Rightarrow> nat \<Rightarrow> ExpDesc parse" where
  "func_body C params line =
     pbind (genget (\<lambda>fs. (fs_base fs, length (fs_bc fs), fs_bclim fs))) (\<lambda>(base, pc, bclim).
     pseq (fs_init line)
     (pseq (fscope_begin 0)
     (pbind params (\<lambda>n.
      pseq (set_fs (\<lambda>f. f\<lparr>pf_numparams := ucast n\<rparr>))
      (pseq (genmod (\<lambda>fs. fs\<lparr>fs_base := base + pc, fs_bclim := bclim - pc\<rparr>))
      (pseq (gen (bcemit_AD BC_FUNCF 0 0))
      (pseq (lex_check c_lcur)
      (pseq C
      (pseq (lex_check c_rcur)
      (pbind p_line (\<lambda>ln.
       pseq (pmod (\<lambda>s. s\<lparr>ps_ls := (ps_ls s)\<lparr>ls_lastline := ln\<rparr>\<rparr>))
       (pbind (fs_finish ln) (\<lambda>pt.
        pbind (new_obj (OProto pt)) (\<lambda>a.
        pbind (pget ps_sizebc) (\<lambda>size.
        pseq (genmod (\<lambda>fs. fs\<lparr>fs_bclim := size - base\<rparr>))
        (pbind (gen (const_gc a KTAP_TPROTO)) (\<lambda>k.
         pbind (gen (bcemit_AD BC_FNEW 0 k)) (\<lambda>pc.
         pseq (set_fs (\<lambda>f. if pf_flags f AND PROTO_CHILD \<noteq> 0 then f
                            else f\<lparr>pf_flags := (if pf_flags f AND PROTO_HAS_RETURN \<noteq> 0 then pf_flags f OR PROTO_FIXUP_RETURN else pf_flags f) OR PROTO_CHILD\<rparr>))
         (pret (expr_init no_expr VRELOCABLE pc))))))))))))))))))))"

definition parse_body :: "unit parse \<Rightarrow> bool \<Rightarrow> nat \<Rightarrow> ExpDesc parse" where
  "parse_body C needself line = func_body C (parse_params needself) line"

definition parse_body_no_args :: "unit parse \<Rightarrow> nat \<Rightarrow> ExpDesc parse" where
  "parse_body_no_args C line = func_body C (pret 0) line"

definition list_loop :: "exprs \<Rightarrow> u32 \<times> ExpDesc \<Rightarrow> (u32 \<times> ExpDesc + u32 \<times> ExpDesc) parse" where
  "list_loop E st =
     (case st of (n, v) \<Rightarrow>
        pbind (lex_opt c_comma) (\<lambda>more.
          if more then
            pseq (gen (expr_tonextreg v)) (pbind (call_expr E) (\<lambda>v. pret (Inl (n + 1, v))))
          else pret (Inr (n, v))))"

definition expr_list :: "exprs \<Rightarrow> (u32 \<times> ExpDesc) parse" where
  "expr_list E = pbind (call_expr E) (\<lambda>v. pwhile (list_loop E) (1, v))"

definition put_b :: "u32 \<Rightarrow> u32 \<Rightarrow> unit cg" where
  "put_b pc b = cbind (ins_at pc) (\<lambda>i. ins_put pc (setbc_b i b))"

text \<open>The call instruction is emitted, on the line where the arguments start, and leaves one result.\<close>

definition emit_call :: "ExpDesc \<Rightarrow> bcins \<Rightarrow> u32 \<Rightarrow> nat \<Rightarrow> ExpDesc parse" where
  "emit_call e ins base line =
     pbind (gen (bcemit_INS ins)) (\<lambda>pc.
     let e = (expr_init e VCALL pc)\<lparr>e_aux := base\<rparr> in
     pbind (genget fs_pc) (\<lambda>pc.
     pseq (set_line (pc - 1) line)
     (pseq (genmod (\<lambda>fs. fs\<lparr>fs_freereg := base + 1\<rparr>)) (pret e))))"

definition parse_args :: "exprs \<Rightarrow> ExpDesc \<Rightarrow> ExpDesc parse" where
  "parse_args E e =
     pbind (pget (\<lambda>s. (ls_line (ps_ls s), ls_lastline (ps_ls s), ls_tok (ps_ls s), ps_tokval s))) (\<lambda>(line, lastline, tok, tv).
     pbind (if tok = c_lpar then
              (if line \<noteq> lastline then err_syntax ''ambiguous syntax (function call x new statement)''
               else
                 pseq p_next
                 (pbind p_tok (\<lambda>tok.
                  pbind (if tok = c_rpar then pret (no_expr\<lparr>e_k := VVOID\<rparr>)
                         else pbind (expr_list E) (\<lambda>(_, args).
                           if e_k args = VCALL then pseq (gen (put_b (e_info args) 0)) (pret args) else pret args)) (\<lambda>args.
                  pseq (lex_match c_rpar c_lpar line) (pret args)))))
            else if tok = c_lcur then expr_table E
            else if tok = TK_string then pseq p_next (pret (str_const (vbits tv)))
            else err_syntax ''function arguments expected'') (\<lambda>args.
     let base = e_info e in
     if e_k args = VCALL then emit_call e (BCINS_ABC (op_of BC_CALLM) base 2 (e_aux args - base - 1)) base line
     else
       pseq (if e_k args \<noteq> VVOID then pseq (gen (expr_tonextreg args)) (pret ()) else pret ())
       (pbind (genget fs_freereg) (\<lambda>freereg.
        emit_call e (BCINS_ABC (op_of BC_CALL) base 2 (freereg - base)) base line))))"

definition suffix_loop :: "exprs \<Rightarrow> ExpDesc \<Rightarrow> (ExpDesc + ExpDesc) parse" where
  "suffix_loop E v =
     pbind p_tok (\<lambda>tok.
       if tok = c_dot then pbind (expr_field v) (\<lambda>v. pret (Inl v))
       else if tok = c_lbra then
         pbind (gen (expr_toanyreg v)) (\<lambda>v.
         pbind (expr_bracket E) (\<lambda>key.
         pbind (expr_index v key) (\<lambda>v. pret (Inl v))))
       else if tok = c_colon then
         pseq p_next
         (pbind expr_str (\<lambda>key.
          pbind (gen (bcemit_method v key)) (\<lambda>v.
          pbind (parse_args E v) (\<lambda>v. pret (Inl v)))))
       else if tok = c_lpar \<or> tok = TK_string \<or> tok = c_lcur then
         pbind (gen (expr_tonextreg v)) (\<lambda>v.
         pbind (parse_args E v) (\<lambda>v. pret (Inl v)))
       else pret (Inr v))"

definition expr_primary :: "exprs \<Rightarrow> ExpDesc parse" where
  "expr_primary E =
     pbind p_tok (\<lambda>tok.
     pbind (if tok = c_lpar then
              pbind p_line (\<lambda>line.
              pseq p_next
              (pbind (call_expr E) (\<lambda>v.
               pseq (lex_match c_rpar c_lpar line)
               (gen (expr_discharge v)))))
            else if tok = TK_name then var_lookup no_expr
            else err_syntax ''unexpected symbol'') (\<lambda>v.
     pwhile (suffix_loop E) v))"

definition expr_simple :: "exprs \<Rightarrow> unit parse \<Rightarrow> ExpDesc parse" where
  "expr_simple E C =
     pbind (pget (\<lambda>s. (ls_tok (ps_ls s), ps_tokval s))) (\<lambda>(tok, tv).
     let const = \<lambda>v. pseq p_next (pret v); init = \<lambda>k. const (expr_init no_expr k 0) in
     if tok = TK_number then const ((expr_init no_expr VKNUM 0)\<lparr>e_nval := tv\<rparr>)
     else if tok = TK_string then const (str_const (vbits tv))
     else if tok = TK_nil then init VKNIL
     else if tok = TK_true then init VKTRUE
     else if tok = TK_false then init VKFALSE
     else if tok = TK_dots then
       pbind cur_fs (\<lambda>f.
         if pf_flags f AND PROTO_VARARG = 0 then err_syntax (''cannot use '' @ [CHR 39] @ ''...'' @ [CHR 39] @ '' outside a vararg function'')
         else
           pseq (gen (bcreg_reserve 1))
           (pbind (genget (\<lambda>fs. fs_freereg fs - 1)) (\<lambda>base.
            pbind (gen (bcemit_ABC BC_VARG base 2 (ucast (pf_numparams f)))) (\<lambda>pc.
            const ((expr_init no_expr VCALL pc)\<lparr>e_aux := base\<rparr>)))))
     else if tok = c_lcur then expr_table E
     else if tok = TK_function then pseq p_next (pbind p_line (\<lambda>line. parse_body C False line))
     else if tok = TK_argstr then init VARGSTR
     else if tok = TK_probename then init VARGNAME
     else if TK_arg0 \<le> tok \<and> tok \<le> TK_arg9 then const (expr_init no_expr VARGN (word_of_int (tok - TK_arg0)))
     else if tok = TK_pid then init VPID
     else if tok = TK_tid then init VTID
     else if tok = TK_uid then init VUID
     else if tok = TK_cpu then init VCPU
     else if tok = TK_execname then init VEXECNAME
     else expr_primary E)"

definition synlevel_begin :: "unit parse" where
  "synlevel_begin =
     pseq (pmod (\<lambda>s. s\<lparr>ps_level := ps_level s + 1\<rparr>))
     (pbind (pget ps_level) (\<lambda>level.
       if level \<ge> KP_MAX_XLEVEL then err_text 0 (bytes ''chunk has too many syntax levels'') else pret ()))"

definition synlevel_end :: "unit parse" where
  "synlevel_end = pmod (\<lambda>s. s\<lparr>ps_level := ps_level s - 1\<rparr>)"

definition token2binop :: "int \<Rightarrow> BinOpr" where
  "token2binop tok =
     (if tok = 43 then OPR_ADD else if tok = 45 then OPR_SUB else if tok = 42 then OPR_MUL else if tok = 47 then OPR_DIV
      else if tok = 37 then OPR_MOD else if tok = 94 then OPR_POW else if tok = TK_concat then OPR_CONCAT
      else if tok = TK_ne then OPR_NE else if tok = TK_eq then OPR_EQ else if tok = 60 then OPR_LT else if tok = TK_le then OPR_LE
      else if tok = 62 then OPR_GT else if tok = TK_ge then OPR_GE else if tok = TK_and then OPR_AND else if tok = TK_or then OPR_OR
      else OPR_NOBINOPR)"

fun priority :: "BinOpr \<Rightarrow> u32 \<times> u32" where
  "priority OPR_ADD = (6, 6)" | "priority OPR_SUB = (6, 6)" | "priority OPR_MUL = (7, 7)" | "priority OPR_DIV = (7, 7)"
| "priority OPR_MOD = (7, 7)" | "priority OPR_POW = (10, 9)" | "priority OPR_CONCAT = (5, 4)"
| "priority OPR_NE = (3, 3)" | "priority OPR_EQ = (3, 3)" | "priority OPR_LT = (3, 3)" | "priority OPR_GE = (3, 3)"
| "priority OPR_LE = (3, 3)" | "priority OPR_GT = (3, 3)" | "priority OPR_AND = (2, 2)" | "priority OPR_OR = (1, 1)"
| "priority OPR_NOBINOPR = (0, 0)"

abbreviation (input) UNARY_PRIORITY :: u32 where "UNARY_PRIORITY \<equiv> 8"

definition expr_unop :: "exprs \<Rightarrow> unit parse \<Rightarrow> ExpDesc parse" where
  "expr_unop E C =
     pbind p_tok (\<lambda>tok.
       if tok = TK_not \<or> tok = c_minus then
         pseq p_next
         (pbind (E UNARY_PRIORITY) (\<lambda>(_, v). gen (bcemit_unop (if tok = TK_not then BC_NOT else BC_UNM) v)))
       else expr_simple E C)"

definition binop_loop :: "exprs \<Rightarrow> u32 \<Rightarrow> BinOpr \<times> ExpDesc \<Rightarrow> (BinOpr \<times> ExpDesc + BinOpr \<times> ExpDesc) parse" where
  "binop_loop E limit st =
     (case st of (op, v) \<Rightarrow>
        if op \<noteq> OPR_NOBINOPR \<and> fst (priority op) > limit then
          pseq p_next
          (pbind (gen (bcemit_binop_left op v)) (\<lambda>v.
           pbind (E (snd (priority op))) (\<lambda>(nextop, v2).
           pbind (gen (bcemit_binop op v v2)) (\<lambda>v. pret (Inl (nextop, v))))))
        else pret (Inr (op, v)))"

definition expr_binop :: "exprs \<Rightarrow> unit parse \<Rightarrow> exprs" where
  "expr_binop E C limit =
     pseq synlevel_begin
     (pbind (expr_unop E C) (\<lambda>v.
      pbind p_tok (\<lambda>tok.
      pbind (pwhile (binop_loop E limit) (token2binop tok, v)) (\<lambda>(op, v).
      pseq synlevel_end (pret (op, v))))))"

definition expr_next :: "exprs \<Rightarrow> unit parse" where
  "expr_next E = pbind (call_expr E) (\<lambda>e. pseq (gen (expr_tonextreg e)) (pret ()))"

definition expr_cond :: "exprs \<Rightarrow> u32 parse" where
  "expr_cond E =
     pseq (lex_check c_lpar)
     (pbind (call_expr E) (\<lambda>v.
      let v = (if e_k v = VKNIL then v\<lparr>e_k := VKFALSE\<rparr> else v) in
      pbind (gen (bcemit_branch_t v)) (\<lambda>v.
      pseq (lex_check c_rpar) (pret (e_f v)))))"


section \<open>Assignments\<close>

text \<open>The variables on the left of an assignment, the last one first.\<close>

definition hazard_fix :: "u32 \<Rightarrow> u32 \<Rightarrow> ExpDesc \<Rightarrow> ExpDesc" where
  "hazard_fix reg tmp v =
     (if e_k v = VINDEXED then
        v\<lparr>e_info := (if e_info v = reg then tmp else e_info v), e_aux := (if e_aux v = reg then tmp else e_aux v)\<rparr>
      else v)"

definition assign_hazard :: "ExpDesc list \<Rightarrow> ExpDesc \<Rightarrow> ExpDesc list parse" where
  "assign_hazard lh v =
     pbind (genget fs_freereg) (\<lambda>tmp.
     let reg = e_info v in
     if list_ex (\<lambda>x. e_k x = VINDEXED \<and> (e_info x = reg \<or> e_aux x = reg)) lh then
       pseq (gen (bcemit_AD BC_MOV tmp reg)) (pseq (gen (bcreg_reserve 1)) (pret (map (hazard_fix reg tmp) lh)))
     else pret lh)"

definition assign_adjust :: "u32 \<Rightarrow> u32 \<Rightarrow> ExpDesc \<Rightarrow> unit parse" where
  "assign_adjust nvars nexps e =
     (let extra = sint nvars - sint nexps in
      if e_k e = VCALL then
        (let extra = (if extra + 1 < 0 then 0 else extra + 1) in
         pseq (gen (put_b (e_info e) (word_of_int (extra + 1))))
         (if extra > 1 then gen (bcreg_reserve (word_of_int extra - 1)) else pret ()))
      else
        pseq (if e_k e \<noteq> VVOID then pseq (gen (expr_tonextreg e)) (pret ()) else pret ())
        (if extra > 0 then
           pbind (genget fs_freereg) (\<lambda>reg.
           pseq (gen (bcreg_reserve (word_of_int extra))) (gen (bcemit_nil reg (word_of_int extra))))
         else pret ()))"

definition store_top :: "ExpDesc \<Rightarrow> unit parse" where
  "store_top v =
     pbind (genget fs_freereg) (\<lambda>freereg. gen (bcemit_store v (expr_init no_expr VNONRELOC (freereg - 1))))"

definition assign_rhs :: "exprs \<Rightarrow> ExpDesc \<Rightarrow> u32 \<Rightarrow> unit parse" where
  "assign_rhs E v nvars =
     pbind (lex_opt c_eq) (\<lambda>plain.
     pbind (if plain then pret True else lex_opt TK_incr) (\<lambda>ok.
       if \<not> ok then err_syntax ''unexpected symbol''
       else
         pbind (expr_list E) (\<lambda>(nexps, e).
           if nexps = nvars then
             pbind (if e_k e = VCALL then
                      pbind (gen (ins_at (e_info e))) (\<lambda>i.
                        if bc_op i = op_of BC_VARG then
                          pseq (genmod (\<lambda>fs. fs\<lparr>fs_freereg := fs_freereg fs - 1\<rparr>)) (pret (e\<lparr>e_k := VRELOCABLE\<rparr>))
                        else pret (e\<lparr>e_info := e_aux e, e_k := VNONRELOC\<rparr>))
                    else pret e) (\<lambda>e.
             gen (if plain then bcemit_store v e else bcemit_store_incr v e))
           else
             pseq (assign_adjust nvars nexps e)
             (pseq (if nexps > nvars then genmod (\<lambda>fs. fs\<lparr>fs_freereg := fs_freereg fs - (nexps - nvars)\<rparr>) else pret ())
             (store_top v)))))"

text \<open>\<^verbatim>\<open>parse_assignment\<close> gives back the variables before the current one, some of them renamed.\<close>

fun parse_assignment :: "nat \<Rightarrow> exprs \<Rightarrow> ExpDesc list \<Rightarrow> u32 \<Rightarrow> ExpDesc list parse" where
  "parse_assignment 0 E lh nvars = pfail PFuel"
| "parse_assignment (Suc n) E lh nvars =
     (case lh of
        [] \<Rightarrow> pfault
      | v # earlier \<Rightarrow>
          if \<not> (kord VLOCAL \<le> kord (e_k v) \<and> kord (e_k v) \<le> kord VINDEXED) then err_syntax ''syntax error''
          else
            pbind (lex_opt c_comma) (\<lambda>more.
              if more then
                pbind (expr_primary E) (\<lambda>v2.
                pbind (if e_k v2 = VLOCAL then assign_hazard lh v2 else pret lh) (\<lambda>lh.
                pbind (pget ps_level) (\<lambda>level.
                pbind cur_fs (\<lambda>f.
                  if level + nvars \<ge> KP_MAX_XLEVEL then err_limit (pf_linedefined f) 200 ''variable names''
                  else
                    pbind (parse_assignment n E (v2 # lh) (nvars + 1)) (\<lambda>lh.
                      case lh of [] \<Rightarrow> pfault | v # earlier \<Rightarrow> pseq (store_top v) (pret earlier))))))
              else pseq (assign_rhs E v nvars) (pret earlier)))"

definition parse_call_assign :: "exprs \<Rightarrow> unit parse" where
  "parse_call_assign E =
     pbind (expr_primary E) (\<lambda>v.
       if e_k v = VCALL then gen (put_b (e_info v) 1)
       else pbind (pget ps_left) (\<lambda>n. pseq (parse_assignment (Suc n) E [v] 1) (pret ())))"

text \<open>A function bound to a new local variable.\<close>

definition local_func :: "unit parse \<Rightarrow> unit parse" where
  "local_func C =
     pbind lex_str (\<lambda>name.
     pseq (var_new 0 name)
     (pbind (genget fs_freereg) (\<lambda>freereg.
      pseq (gen (bcreg_reserve 1))
      (pseq (var_add 1)
      (pbind p_line (\<lambda>line.
       pbind (parse_body C False line) (\<lambda>b.
       pseq (gen (expr_free b))
       (pseq (gen (expr_toreg b freereg))
       (pbind (genget (\<lambda>fs. (fs_nactvar fs, fs_pc fs))) (\<lambda>(nactvar, pc).
        pbind (var_idx (unat (nactvar - 1))) (\<lambda>i. vs_put i (\<lambda>v. v\<lparr>vi_startpc := pc\<rparr>))))))))))))"

definition names_loop :: "nat \<Rightarrow> (nat + nat) parse" where
  "names_loop n =
     pbind lex_str (\<lambda>name.
     pseq (var_new n name)
     (pbind (lex_opt c_comma) (\<lambda>more. pret (if more then Inl (n + 1) else Inr (n + 1)))))"

definition parse_local :: "exprs \<Rightarrow> unit parse \<Rightarrow> unit parse" where
  "parse_local E C =
     pbind (lex_opt TK_function) (\<lambda>fn.
       if fn then local_func C
       else
         pbind (pwhile names_loop 0) (\<lambda>nvars.
         pbind (lex_opt c_eq) (\<lambda>rhs.
         pbind (if rhs then expr_list E else pret (0, no_expr\<lparr>e_k := VVOID\<rparr>)) (\<lambda>(nexps, e).
         pseq (assign_adjust (of_nat nvars) nexps e)
         (var_add nvars)))))"

definition parse_func :: "unit parse \<Rightarrow> unit parse" where
  "parse_func C = pseq p_next (local_func C)"


section \<open>Control transfer\<close>

definition parse_isend :: "int \<Rightarrow> bool" where
  "parse_isend tok \<longleftrightarrow> tok = TK_else \<or> tok = TK_elseif \<or> tok = TK_end \<or> tok = TK_until \<or> tok = TK_eof \<or> tok = c_rcur"

definition return_ins :: "exprs \<Rightarrow> bcins parse" where
  "return_ins E =
     pbind (expr_list E) (\<lambda>(nret, e).
     let multi = pseq (gen (put_b (e_info e) 0))
           (pbind (genget fs_nactvar) (\<lambda>nactvar. pret (BCINS_AD (op_of BC_RETM) nactvar (e_aux e - nactvar)))) in
     if nret = 1 then
       (if e_k e = VCALL then
          pbind (gen (ins_at (e_info e))) (\<lambda>i.
            if bc_op i = op_of BC_VARG then multi
            else
              pseq (genmod (\<lambda>fs. fs\<lparr>fs_bc := butlast (fs_bc fs)\<rparr>))
              (pret (BCINS_AD (bc_op i - op_of BC_CALL + op_of BC_CALLT) (bc_a i) (bc_c i))))
        else pbind (gen (expr_toanyreg e)) (\<lambda>e. pret (BCINS_AD (op_of BC_RET1) (e_info e) 2)))
     else if e_k e = VCALL then multi
     else
       pseq (gen (expr_tonextreg e))
       (pbind (genget fs_nactvar) (\<lambda>nactvar. pret (BCINS_AD (op_of BC_RET) nactvar (nret + 1)))))"

definition parse_return :: "exprs \<Rightarrow> unit parse" where
  "parse_return E =
     pseq p_next
     (pseq (set_fs (\<lambda>f. f\<lparr>pf_flags := pf_flags f OR PROTO_HAS_RETURN\<rparr>))
     (pbind p_tok (\<lambda>tok.
      pbind (if parse_isend tok \<or> tok = c_semi then pret (BCINS_AD (op_of BC_RET0) 0 1) else return_ins E) (\<lambda>ins.
      pbind cur_fs (\<lambda>f.
      pseq (if pf_flags f AND PROTO_CHILD \<noteq> 0 then pseq (gen (bcemit_AJ BC_UCLO 0 0)) (pret ()) else pret ())
      (pseq (gen (bcemit_INS ins)) (pret ())))))))"

definition parse_break :: "unit parse" where
  "parse_break =
     pseq (or_flags FSCOPE_BREAK)
     (pbind (gen bcemit_jmp) (\<lambda>pc. pseq (gola_new NAME_BREAK VSTACK_GOTO pc) (pret ())))"

definition label_loop :: "unit parse \<Rightarrow> unit \<Rightarrow> (unit + unit) parse" where
  "label_loop L st =
     pbind p_tok (\<lambda>tok.
       if tok = TK_label then pseq synlevel_begin (pseq L (pseq synlevel_end (pret (Inl ()))))
       else if tok = c_semi then pseq p_next (pret (Inl ()))
       else pret (Inr ()))"

fun parse_label :: "nat \<Rightarrow> unit parse" where
  "parse_label 0 = pfail PFuel"
| "parse_label (Suc n) =
     pbind (genget fs_pc) (\<lambda>pc.
     pseq (genmod (\<lambda>fs. fs\<lparr>fs_lasttarget := pc\<rparr>))
     (pseq (or_flags FSCOPE_GOLA)
     (pseq p_next
     (pbind lex_str (\<lambda>name.
      pbind (gola_findlabel name) (\<lambda>found.
      pseq (if found then pbind (str_bytes name) (\<lambda>str. err_text 0 (bytes ''duplicate label '' @ quoted str)) else pret ())
      (pbind (genget fs_pc) (\<lambda>pc.
       pbind (gola_new name VSTACK_LABEL pc) (\<lambda>idx.
       pseq (lex_check TK_label)
       (pseq (pwhile (label_loop (parse_label n)) ())
       (pbind p_tok (\<lambda>tok.
        pbind cur_fs (\<lambda>f.
          case pf_bl f of
            [] \<Rightarrow> pfault
          | bl # _ \<Rightarrow>
              pseq (if parse_isend tok \<and> tok \<noteq> TK_until then vs_put idx (\<lambda>v. v\<lparr>vi_slot := bl_nactvar bl\<rparr>) else pret ())
              (gola_resolve bl idx))))))))))))))"


section \<open>Blocks, loops and conditions\<close>

definition parse_block :: "unit parse \<Rightarrow> unit parse" where
  "parse_block C = pseq (fscope_begin 0) (pseq C fscope_end)"

definition mark_target :: "u32 parse" where
  "mark_target = pbind (genget fs_pc) (\<lambda>pc. pseq (genmod (\<lambda>fs. fs\<lparr>fs_lasttarget := pc\<rparr>)) (pret pc))"

definition parse_while :: "exprs \<Rightarrow> unit parse \<Rightarrow> unit parse" where
  "parse_while E C =
     pseq p_next
     (pbind mark_target (\<lambda>start.
      pbind (expr_cond E) (\<lambda>condexit.
      pseq (fscope_begin FSCOPE_LOOP)
      (pseq (lex_check c_lcur)
      (pbind (genget fs_nactvar) (\<lambda>nactvar.
       pbind (gen (bcemit_AD BC_LOOP nactvar 0)) (\<lambda>loop.
       pseq (parse_block C)
       (pseq (gen (cbind bcemit_jmp (\<lambda>j. jmp_patch j start)))
       (pseq (lex_check c_rcur)
       (pseq fscope_end
       (pseq (gen (jmp_tohere condexit))
       (gen (cbind (cget fs_pc) (\<lambda>pc. jmp_patchins loop pc))))))))))))))"

definition parse_repeat :: "exprs \<Rightarrow> unit parse \<Rightarrow> nat \<Rightarrow> unit parse" where
  "parse_repeat E C line =
     pbind mark_target (\<lambda>loop.
     pseq (fscope_begin FSCOPE_LOOP)
     (pseq (fscope_begin 0)
     (pseq p_next
     (pbind (genget fs_nactvar) (\<lambda>nactvar.
      pseq (gen (bcemit_AD BC_LOOP nactvar 0))
      (pseq C
      (pseq (lex_match TK_until TK_repeat line)
      (pbind (expr_cond E) (\<lambda>condexit.
       pbind cur_fs (\<lambda>f.
       pbind (case pf_bl f of
                [] \<Rightarrow> pfault
              | bl # _ \<Rightarrow>
                  if bl_flags bl AND FSCOPE_UPVAL = 0 then pseq fscope_end (pret condexit)
                  else
                    pseq parse_break
                    (pseq (gen (jmp_tohere condexit))
                    (pseq fscope_end (gen bcemit_jmp)))) (\<lambda>condexit.
       pseq (gen (jmp_patch condexit loop))
       (pseq (gen (cbind (cget fs_pc) (\<lambda>pc. jmp_patchins loop pc)))
       fscope_end))))))))))))"

abbreviation (input) VARNAME_FOR_IDX :: addr where "VARNAME_FOR_IDX \<equiv> 1"
abbreviation (input) VARNAME_FOR_STOP :: addr where "VARNAME_FOR_STOP \<equiv> 2"
abbreviation (input) VARNAME_FOR_STEP :: addr where "VARNAME_FOR_STEP \<equiv> 3"
abbreviation (input) VARNAME_FOR_GEN :: addr where "VARNAME_FOR_GEN \<equiv> 4"
abbreviation (input) VARNAME_FOR_STATE :: addr where "VARNAME_FOR_STATE \<equiv> 5"
abbreviation (input) VARNAME_FOR_CTL :: addr where "VARNAME_FOR_CTL \<equiv> 6"

definition parse_for_num :: "exprs \<Rightarrow> unit parse \<Rightarrow> addr \<Rightarrow> nat \<Rightarrow> unit parse" where
  "parse_for_num E C varname line =
     pbind (genget fs_freereg) (\<lambda>base.
     pseq (var_new 0 VARNAME_FOR_IDX)
     (pseq (var_new 1 VARNAME_FOR_STOP)
     (pseq (var_new 2 VARNAME_FOR_STEP)
     (pseq (var_new 3 varname)
     (pseq (lex_check c_eq)
     (pseq (expr_next E)
     (pseq (lex_check c_comma)
     (pseq (expr_next E)
     (pbind (lex_opt c_comma) (\<lambda>step.
      pseq (if step then expr_next E
            else gen (cbind (cget fs_freereg) (\<lambda>freereg. cbind (bcemit_AD BC_KSHORT freereg 1) (\<lambda>_. bcreg_reserve 1))))
      (pseq (var_add 3)
      (pseq (lex_check c_rpar)
      (pseq (lex_check c_lcur)
      (pbind (gen (bcemit_AJ BC_FORI base (-1))) (\<lambda>loop.
       pseq (fscope_begin 0)
       (pseq (var_add 1)
       (pseq (gen (bcreg_reserve 1))
       (pseq (parse_block C)
       (pseq fscope_end
       (pbind (gen (bcemit_AJ BC_FORL base (-1))) (\<lambda>loopend.
        pseq (set_line loopend line)
        (pseq (gen (jmp_patchins loopend (loop + 1)))
        (gen (cbind (cget fs_pc) (\<lambda>pc. jmp_patchins loop pc)))))))))))))))))))))))))"

definition is_iter_name :: "u8 list \<Rightarrow> bool" where
  "is_iter_name s \<longleftrightarrow> s = bytes ''pairs'' \<or> s = bytes ''next''"

definition slot_of_name :: "string \<Rightarrow> u32 \<Rightarrow> bool parse" where
  "slot_of_name name d =
     pbind (kp_str_lit name) (\<lambda>a.
     pbind (genget fs_kt) (\<lambda>kt.
     let v = ukp_tab_getstr kt a in pret (is_number v \<and> nvalue v = ucast d)))"

definition predict_next :: "u32 \<Rightarrow> bool parse" where
  "predict_next pc =
     pbind (gen (ins_at pc)) (\<lambda>i.
       if bc_op i = op_of BC_MOV then
         pbind (var_idx (unat (bc_d i))) (\<lambda>x. pbind (vs_at x) (\<lambda>v. pbind (str_bytes (vi_name v)) (\<lambda>s. pret (is_iter_name s))))
       else if bc_op i = op_of BC_UGET then
         pbind cur_fs (\<lambda>f.
           if unat (bc_d i) < length (pf_uv f) then
             pbind (vs_at (unat (fst (pf_uv f ! unat (bc_d i))))) (\<lambda>v. pbind (str_bytes (vi_name v)) (\<lambda>s. pret (is_iter_name s)))
           else pfault)
       else if bc_op i = op_of BC_GGET then
         pbind (slot_of_name ''pairs'' (bc_d i)) (\<lambda>found. if found then pret True else slot_of_name ''next'' (bc_d i))
       else pret False)"

definition iter_names :: "nat \<Rightarrow> (nat + nat) parse" where
  "iter_names n =
     pbind (lex_opt c_comma) (\<lambda>more.
       if more then pbind lex_str (\<lambda>name. pseq (var_new n name) (pret (Inl (n + 1)))) else pret (Inr n))"

definition parse_for_iter :: "exprs \<Rightarrow> unit parse \<Rightarrow> addr \<Rightarrow> unit parse" where
  "parse_for_iter E C indexname =
     pbind (genget (\<lambda>fs. (fs_freereg fs + 3, fs_pc fs))) (\<lambda>(base, exprpc).
     pseq (var_new 0 VARNAME_FOR_GEN)
     (pseq (var_new 1 VARNAME_FOR_STATE)
     (pseq (var_new 2 VARNAME_FOR_CTL)
     (pseq (var_new 3 indexname)
     (pbind (pwhile iter_names 4) (\<lambda>nvars.
      pseq (lex_check TK_in)
      (pbind p_line (\<lambda>line.
       pbind (expr_list E) (\<lambda>(nexps, e).
       pseq (assign_adjust 3 nexps e)
       (pseq (gen (bcreg_bump 3))
       (pbind (if nvars \<le> 5 then predict_next exprpc else pret False) (\<lambda>isnext.
        pseq (var_add 3)
        (pseq (lex_check c_rpar)
        (pseq (lex_check c_lcur)
        (pbind (gen (bcemit_AJ (if isnext then BC_ISNEXT else BC_JMP) base (-1))) (\<lambda>loop.
         pseq (fscope_begin 0)
         (pseq (var_add (nvars - 3))
         (pseq (gen (bcreg_reserve (of_nat nvars - 3)))
         (pseq (parse_block C)
         (pseq fscope_end
         (pseq (gen (cbind (cget fs_pc) (\<lambda>pc. jmp_patchins loop pc)))
         (pseq (gen (bcemit_ABC (if isnext then BC_ITERN else BC_ITERC) base (of_nat nvars - 3 + 1) (2 + 1)))
         (pbind (gen (bcemit_AJ BC_ITERL base (-1))) (\<lambda>loopend.
          pseq (set_line (loopend - 1) line)
          (pseq (set_line loopend line)
          (gen (jmp_patchins loopend (loop + 1))))))))))))))))))))))))))))"

definition parse_for :: "exprs \<Rightarrow> unit parse \<Rightarrow> nat \<Rightarrow> unit parse" where
  "parse_for E C line =
     pseq (fscope_begin FSCOPE_LOOP)
     (pseq p_next
     (pseq (lex_check c_lpar)
     (pbind lex_str (\<lambda>varname.
      pbind p_tok (\<lambda>tok.
      pseq (if tok = c_eq then parse_for_num E C varname line
            else if tok = c_comma \<or> tok = TK_in then parse_for_iter E C varname
            else err_syntax ([CHR 39] @ ''='' @ [CHR 39] @ '' or '' @ [CHR 39] @ ''in'' @ [CHR 39] @ '' expected''))
      (pseq (lex_match c_rcur TK_for line)
      fscope_end))))))"

definition parse_then :: "exprs \<Rightarrow> unit parse \<Rightarrow> u32 parse" where
  "parse_then E C =
     pseq p_next
     (pbind (expr_cond E) (\<lambda>condexit.
      pseq (lex_check c_lcur)
      (pseq (parse_block C)
      (pseq (lex_check c_rcur) (pret condexit)))))"

definition escape :: "u32 \<Rightarrow> u32 \<Rightarrow> u32 cg" where
  "escape escapelist flist =
     cbind bcemit_jmp (\<lambda>j. cbind (jmp_append escapelist j) (\<lambda>l. cbind (jmp_tohere flist) (\<lambda>_. cret l)))"

definition elseif_loop :: "exprs \<Rightarrow> unit parse \<Rightarrow> u32 \<times> u32 \<Rightarrow> (u32 \<times> u32 + u32 \<times> u32) parse" where
  "elseif_loop E C st =
     (case st of (escapelist, flist) \<Rightarrow>
        pbind p_tok (\<lambda>tok.
          if tok = TK_elseif then
            pbind (gen (escape escapelist flist)) (\<lambda>l.
            pbind (parse_then E C) (\<lambda>flist. pret (Inl (l, flist))))
          else pret (Inr (escapelist, flist))))"

definition parse_if :: "exprs \<Rightarrow> unit parse \<Rightarrow> unit parse" where
  "parse_if E C =
     pbind (parse_then E C) (\<lambda>flist.
     pbind (pwhile (elseif_loop E C) (NO_JMP, flist)) (\<lambda>(escapelist, flist).
     pbind p_tok (\<lambda>tok.
     pbind (if tok = TK_else then
              pbind (gen (escape escapelist flist)) (\<lambda>l.
              pseq p_next
              (pseq (lex_check c_lcur)
              (pseq (parse_block C)
              (pseq (lex_check c_rcur) (pret l)))))
            else gen (jmp_append escapelist flist)) (\<lambda>escapelist.
     gen (jmp_tohere escapelist)))))"

text \<open>A probe is a call of a library function: its table is a global variable, its arguments the event and the function.\<close>

definition probe_func :: "addr \<Rightarrow> addr \<Rightarrow> ExpDesc parse" where
  "probe_func lib key =
     pbind (gen (expr_toanyreg ((expr_init no_expr VGLOBAL 0)\<lparr>e_sval := lib\<rparr>))) (\<lambda>v.
     pbind (expr_index v (str_const key)) (\<lambda>v. gen (expr_tonextreg v)))"

definition probe_call :: "ExpDesc \<Rightarrow> nat \<Rightarrow> unit parse" where
  "probe_call v line =
     (let base = e_info v in
      pbind (genget fs_freereg) (\<lambda>freereg.
      pbind (emit_call v (BCINS_ABC (op_of BC_CALL) base 2 (freereg - base)) base line) (\<lambda>v.
      gen (put_b (e_info v) 1))))"

definition parse_trace :: "unit parse \<Rightarrow> unit parse" where
  "parse_trace C =
     pbind (kp_str_lit ''kdebug'') (\<lambda>kdebug_str.
     pbind (kp_str_lit ''trace_by_id'') (\<lambda>probe_str.
     pbind (kp_str_lit ''trace_end'') (\<lambda>probe_end_str.
     pbind (pget (\<lambda>s. (ls_tok (ps_ls s), ls_line (ps_ls s)))) (\<lambda>(token, line).
     pseq (if token = TK_trace then p_read_string_until 123 else p_next)
     (pbind (probe_func kdebug_str (if token = TK_trace then probe_str else probe_end_str)) (\<lambda>v.
      pseq (if token = TK_trace then
              pseq (lex_check TK_string)
              (pbind (pget ps_tokval) (\<lambda>tv.
               pbind (str_bytes (vbits tv)) (\<lambda>str.
               pbind (pget ps_env) (\<lambda>env.
                 case pe_events env (takeWhile (\<lambda>c. c \<noteq> 0) str) of
                   None \<Rightarrow> err_text 0 (bytes ''cannot parse eventdef '' @ quoted (takeWhile (\<lambda>c. c \<noteq> 0) str))
                 | Some evdef_info \<Rightarrow> pseq (gen (expr_tonextreg (num_const evdef_info))) (pret ())))))
            else pret ())
      (pbind p_line (\<lambda>ln.
       pbind (parse_body_no_args C ln) (\<lambda>args.
       pseq (gen (expr_tonextreg args))
       (probe_call v line))))))))))"

definition parse_timer :: "unit parse \<Rightarrow> unit parse" where
  "parse_timer C =
     pbind (pget (\<lambda>s. (ps_tokval s, ls_line (ps_ls s)))) (\<lambda>(tv, line).
     pseq p_next
     (pseq (p_read_string_until 123)
     (pbind (pget ps_tokval) (\<lambda>interval.
      pseq (lex_check TK_string)
      (pbind (kp_str_lit ''timer'') (\<lambda>timer_str.
       pbind (probe_func timer_str (vbits tv)) (\<lambda>v.
       pseq (gen (expr_tonextreg (str_const (vbits interval))))
       (pbind p_line (\<lambda>ln.
        pbind (parse_body_no_args C ln) (\<lambda>args.
        pseq (gen (expr_tonextreg args))
        (probe_call v line)))))))))))"


section \<open>Statements\<close>

definition parse_stmt :: "exprs \<Rightarrow> unit parse \<Rightarrow> bool parse" where
  "parse_stmt E C =
     pbind (pget (\<lambda>s. (ls_line (ps_ls s), ls_tok (ps_ls s)))) (\<lambda>(line, tok).
     let more = \<lambda>m. pseq m (pret False) in
     if tok = TK_if then more (parse_if E C)
     else if tok = TK_while then more (parse_while E C)
     else if tok = TK_do then more (pseq p_next (pseq (parse_block C) (lex_match TK_end TK_do line)))
     else if tok = TK_for then more (parse_for E C line)
     else if tok = TK_repeat then more (parse_repeat E C line)
     else if tok = TK_function then more (parse_func C)
     else if tok = TK_local then more (pseq p_next (parse_local E C))
     else if tok = TK_return then pseq (parse_return E) (pret True)
     else if tok = TK_break then more (pseq p_next parse_break)
     else if tok = c_semi then more p_next
     else if tok = TK_label then more (parse_label (unat KP_MAX_XLEVEL))
     else if tok = TK_trace \<or> tok = TK_trace_end then more (parse_trace C)
     else if tok = TK_profile \<or> tok = TK_tick then more (parse_timer C)
     else more (parse_call_assign E))"

definition chunk_loop :: "exprs \<Rightarrow> unit parse \<Rightarrow> bool \<Rightarrow> (bool + unit) parse" where
  "chunk_loop E C islast =
     pbind p_tok (\<lambda>tok.
       if \<not> islast \<and> \<not> parse_isend tok then
         pbind (parse_stmt E C) (\<lambda>islast.
         pseq (lex_opt c_semi)
         (pseq (genmod (\<lambda>fs. fs\<lparr>fs_freereg := fs_nactvar fs\<rparr>))
         (pret (Inl islast))))
       else pret (Inr ()))"

definition parse_chunk :: "exprs \<Rightarrow> unit parse \<Rightarrow> unit parse" where
  "parse_chunk E C =
     pseq synlevel_begin
     (pseq (pwhile (chunk_loop E C) False) synlevel_end)"

fun expr_rec :: "nat \<Rightarrow> exprs" and chunk_rec :: "nat \<Rightarrow> unit parse" where
  "expr_rec 0 limit s = Inl PFuel"
| "expr_rec (Suc n) limit s = expr_binop (expr_rec n) (chunk_rec n) limit s"
| "chunk_rec 0 s = Inl PFuel"
| "chunk_rec (Suc n) s = parse_chunk (expr_rec n) (chunk_rec n) s"

definition kp_parse :: "u8 list \<Rightarrow> uproto parse" where
  "kp_parse chunkarg =
     pbind (pget (\<lambda>s. ukp_str_new (pe_str (ps_env s)) (ps_strs s) chunkarg)) (\<lambda>r.
     pbind (pthe r) (\<lambda>(_, strs).
     pseq (pmod (\<lambda>s. s\<lparr>ps_strs := strs, ps_ls := (ps_ls s)\<lparr>ls_chunkname := chunkarg\<rparr>, ps_level := 0\<rparr>))
     (pseq (fs_init 0)
     (pseq (set_fs (\<lambda>f. f\<lparr>pf_flags := PROTO_VARARG\<rparr>))
     (pseq (fscope_begin 0)
     (pseq (gen (bcemit_AD BC_FUNCV 0 0))
     (pseq p_next
     (pseq (chunk_rec (unat KP_MAX_XLEVEL))
     (pbind p_tok (\<lambda>tok.
       if tok \<noteq> TK_eof then err_token TK_eof
       else pbind p_line fs_finish))))))))))"

end
