(* ===== verification/Ktap_Progress.thy ===== *)
theory Ktap_Progress
  imports Ktap_Parse Ktap_Lex_Correct
begin

text \<open>
  How much of the source the parser's operations consume: an operation is quiet when it reads no token, calm when
  it ends and never gives text back, and it eats when it consumes text.  The rules follow the shape of the monad, and hold for the
  operations of \<^verbatim>\<open>Ktap_Scope\<close>.
\<close>

section \<open>Progress of the parser\<close>

abbreviation tok_of :: "pstate \<Rightarrow> int" where "tok_of s \<equiv> ls_tok (ps_ls s)"

text \<open>An operation that reads no token.\<close>

definition quiet :: "'a parse \<Rightarrow> bool" where
  "quiet m \<longleftrightarrow> (\<forall>s. m s \<noteq> Inl PFuel \<and>
     (\<forall>x s'. m s = Inr (x, s') \<longrightarrow> ps_level s' = ps_level s \<and> tok_of s' = tok_of s \<and> ps_left s' = ps_left s))"

text \<open>An operation that, at a level, ends and leaves no more text than there was.\<close>

definition calm :: "u32 \<Rightarrow> 'a parse \<Rightarrow> bool" where
  "calm M m \<longleftrightarrow> (\<forall>s. ps_level s = M \<longrightarrow> m s \<noteq> Inl PFuel \<and>
     (\<forall>x s'. m s = Inr (x, s') \<longrightarrow> ps_level s' = M \<and> ps_left s' \<le> ps_left s))"

text \<open>An operation that, at a level and before certain tokens, consumes text when it has a certain result.\<close>

definition eats :: "u32 \<Rightarrow> (int \<Rightarrow> bool) \<Rightarrow> ('a \<Rightarrow> bool) \<Rightarrow> 'a parse \<Rightarrow> bool" where
  "eats M P R m \<longleftrightarrow> (\<forall>s x s'. ps_level s = M \<longrightarrow> P (tok_of s) \<longrightarrow> m s = Inr (x, s') \<longrightarrow> R x \<longrightarrow> ps_left s' < ps_left s)"

abbreviation anyt :: "'a \<Rightarrow> bool" where "anyt \<equiv> (\<lambda>_. True)"

named_theorems quiet_rules
named_theorems calm_rules
named_theorems eats_rules

lemma pbind_Inr: "pbind m k s = Inr (y, s') \<longleftrightarrow> (\<exists>x s1. m s = Inr (x, s1) \<and> k x s1 = Inr (y, s'))"
  by (auto simp: pbind_def split: sum.splits)

lemma pbind_PFuel: "pbind m k s = Inl PFuel \<longleftrightarrow> m s = Inl PFuel \<or> (\<exists>x s1. m s = Inr (x, s1) \<and> k x s1 = Inl PFuel)"
  by (auto simp: pbind_def split: sum.splits)

lemma quiet_bind [quiet_rules]: "quiet m \<Longrightarrow> (\<And>x. quiet (k x)) \<Longrightarrow> quiet (pbind m k)"
  unfolding quiet_def by (fastforce simp: pbind_Inr pbind_PFuel)

lemma calmI:
  "(\<And>s. ps_level s = M \<Longrightarrow> m s \<noteq> Inl PFuel) \<Longrightarrow>
   (\<And>s x s'. ps_level s = M \<Longrightarrow> m s = Inr (x, s') \<Longrightarrow> ps_level s' = M \<and> ps_left s' \<le> ps_left s) \<Longrightarrow> calm M m"
  unfolding calm_def by blast

lemma calmD:
  assumes "calm M m" "ps_level s = M"
  shows "m s \<noteq> Inl PFuel" "m s = Inr (x, s') \<Longrightarrow> ps_level s' = M \<and> ps_left s' \<le> ps_left s"
  using assms unfolding calm_def by blast+

lemma eatsD: "eats M P R m \<Longrightarrow> ps_level s = M \<Longrightarrow> P (tok_of s) \<Longrightarrow> m s = Inr (x, s') \<Longrightarrow> R x \<Longrightarrow> ps_left s' < ps_left s"
  unfolding eats_def by blast

lemma eatsI: "(\<And>s x s'. ps_level s = M \<Longrightarrow> P (tok_of s) \<Longrightarrow> m s = Inr (x, s') \<Longrightarrow> R x \<Longrightarrow> ps_left s' < ps_left s) \<Longrightarrow> eats M P R m"
  unfolding eats_def by blast

lemma calm_bind [calm_rules]: "calm M m \<Longrightarrow> (\<And>x. calm M (k x)) \<Longrightarrow> calm M (pbind m k)"
proof (rule calmI)
  fix s :: pstate assume c: "calm M m" "\<And>x. calm M (k x)" and l: "ps_level s = M"
  show "pbind m k s \<noteq> Inl PFuel" using calmD [OF c(1) l] calmD(1) [OF c(2)] by (auto simp: pbind_PFuel)
  fix y and s' :: pstate assume "pbind m k s = Inr (y, s')"
  then obtain x s1 where x: "m s = Inr (x, s1)" "k x s1 = Inr (y, s')" by (auto simp: pbind_Inr)
  note s1 = calmD(2) [OF c(1) l x(1)]
  then show "ps_level s' = M \<and> ps_left s' \<le> ps_left s" using calmD(2) [OF c(2) _ x(2)] by fastforce
qed

lemma quiet_seq [quiet_rules]: "quiet m \<Longrightarrow> quiet k \<Longrightarrow> quiet (pseq m k)"
  unfolding pseq_def by (rule quiet_bind)

lemma calm_seq [calm_rules]: "calm M m \<Longrightarrow> calm M k \<Longrightarrow> calm M (pseq m k)"
  unfolding pseq_def by (rule calm_bind)

lemma quiet_calm: "quiet m \<Longrightarrow> calm M m"
  by (auto simp: quiet_def calm_def)

lemma quiet_basic [quiet_rules]:
  "quiet (pret x)" "quiet (pget f)" "quiet (pfail (PStop e))" "quiet (pfail PLoop)"
  "(\<And>s. ps_level (g s) = ps_level s \<and> tok_of (g s) = tok_of s \<and> ps_left (g s) = ps_left s) \<Longrightarrow> quiet (pmod g)"
  by (auto simp: quiet_def pret_def pget_def pfail_def pmod_def)

lemma quiet_pthe [quiet_rules]: "quiet (pthe x)"
  by (cases x) (auto simp: pthe_def intro: quiet_rules)

lemma quiet_err_text [quiet_rules]: "quiet (err_text t x)"
  unfolding err_text_def by (intro quiet_rules)

lemma quiet_err [quiet_rules]: "quiet (err_syntax e)" "quiet (err_token t)" "quiet (err_limit a b c)" "quiet XLIMC"
  unfolding err_syntax_def err_token_def err_limit_def XLIMC_def by (intro quiet_rules)+

lemma quiet_gen [quiet_rules]: "quiet (gen m)"
proof -
  have "quiet (cg_error l e)" for l e
    unfolding cg_error_def by (auto split: cg_stop.split cg_msg.split intro!: quiet_rules)
  then show ?thesis
    by (auto simp: quiet_def gen_def ps_left_def pfail_def split: list.splits sum.splits prod.splits)
qed

lemma quiet_if [quiet_rules]: "(b \<Longrightarrow> quiet m) \<Longrightarrow> (\<not> b \<Longrightarrow> quiet k) \<Longrightarrow> quiet (if b then m else k)"
  by simp

lemma calm_if [calm_rules]: "(b \<Longrightarrow> calm M m) \<Longrightarrow> (\<not> b \<Longrightarrow> calm M k) \<Longrightarrow> calm M (if b then m else k)"
  by simp

lemma quiet_list [quiet_rules]: "quiet a \<Longrightarrow> (\<And>x xs. quiet (f x xs)) \<Longrightarrow> quiet (case l of [] \<Rightarrow> a | x # xs \<Rightarrow> f x xs)"
  by (cases l) auto

lemma quiet_option [quiet_rules]: "quiet a \<Longrightarrow> (\<And>x. quiet (f x)) \<Longrightarrow> quiet (case l of None \<Rightarrow> a | Some x \<Rightarrow> f x)"
  by (cases l) auto

lemma quiet_prod [quiet_rules]: "(\<And>x y. quiet (f x y)) \<Longrightarrow> quiet (case p of (x, y) \<Rightarrow> f x y)"
  by (cases p) auto

lemma quiet_Let [quiet_rules]: "(\<And>x. quiet (f x)) \<Longrightarrow> quiet (Let t f)"
  by simp

lemma calm_list [calm_rules]: "calm M a \<Longrightarrow> (\<And>x xs. calm M (f x xs)) \<Longrightarrow> calm M (case l of [] \<Rightarrow> a | x # xs \<Rightarrow> f x xs)"
  by (cases l) auto

lemma calm_option [calm_rules]: "calm M a \<Longrightarrow> (\<And>x. calm M (f x)) \<Longrightarrow> calm M (case l of None \<Rightarrow> a | Some x \<Rightarrow> f x)"
  by (cases l) auto

lemma calm_prod [calm_rules]: "(\<And>x y. calm M (f x y)) \<Longrightarrow> calm M (case p of (x, y) \<Rightarrow> f x y)"
  by (cases p) auto

lemma calm_Let [calm_rules]: "(\<And>x. calm M (f x)) \<Longrightarrow> calm M (Let t f)"
  by simp

lemma quiet_peach [quiet_rules]: "(\<And>x. quiet (f x)) \<Longrightarrow> quiet (peach f xs)"
  by (induction xs) (auto intro: quiet_rules)

lemma ps_left_updates [simp]:
  "ps_left (s\<lparr>ps_fs := a\<rparr>) = ps_left s" "ps_left (s\<lparr>ps_vstack := b\<rparr>) = ps_left s" "ps_left (s\<lparr>ps_vtop := c\<rparr>) = ps_left s"
  "ps_left (s\<lparr>ps_strs := d\<rparr>) = ps_left s" "ps_left (s\<lparr>ps_objs := e\<rparr>) = ps_left s" "ps_left (s\<lparr>ps_nobj := f\<rparr>) = ps_left s"
  "ps_left (s\<lparr>ps_tokval := v\<rparr>) = ps_left s" "ps_left (s\<lparr>ps_lookval := v\<rparr>) = ps_left s" "ps_left (s\<lparr>ps_level := l\<rparr>) = ps_left s"
  "ps_left (s\<lparr>ps_sizebc := g\<rparr>) = ps_left s"
  "ps_left (s\<lparr>ps_ls := (ps_ls s)\<lparr>ls_line := h\<rparr>\<rparr>) = ps_left s" "ps_left (s\<lparr>ps_ls := (ps_ls s)\<lparr>ls_lastline := h\<rparr>\<rparr>) = ps_left s"
  "ps_left (s\<lparr>ps_ls := (ps_ls s)\<lparr>ls_sb := j\<rparr>\<rparr>) = ps_left s"
  by (simp_all add: ps_left_def)

lemma quiet_fs [quiet_rules]: "quiet cur_fs" "quiet (set_fs g)"
  unfolding cur_fs_def set_fs_def by (intro quiet_rules; simp)+

lemma quiet_vs [quiet_rules]: "quiet (vs_at i)" "quiet (vs_put i g)" "quiet (var_idx i)" "quiet vs_room"
  unfolding vs_at_def vs_put_def var_idx_def vs_room_def by (intro quiet_rules; simp)+

lemma quiet_strings [quiet_rules]: "quiet (keepstr s)" "quiet (kp_str_lit t)" "quiet (str_bytes a)"
  unfolding keepstr_def kp_str_lit_def str_bytes_def by (intro quiet_rules; simp)+

lemma quiet_scanned [quiet_rules]: "quiet (scanned tok tv old)"
  unfolding scanned_def by (auto split: tokval.split intro!: quiet_rules)

lemma quiet_var_new [quiet_rules]: "quiet (var_new n name)"
  unfolding var_new_def by (intro quiet_rules; simp)

lemma quiet_var_add [quiet_rules]: "quiet (var_add n)"
  by (induction n) (auto intro!: quiet_rules)

lemma quiet_remove_loop [quiet_rules]: "quiet (remove_loop n)"
  by (induction n) (auto intro!: quiet_rules)

lemma quiet_gola [quiet_rules]:
  "quiet (var_remove t)" "quiet (gola_new a b c)" "quiet (gola_patch i j)" "quiet (gola_close i)" "quiet (line_of_ins pc)"
  unfolding var_remove_def gola_new_def gola_patch_def gola_close_def line_of_ins_def by (intro quiet_rules; simp)+

lemma quiet_golas [quiet_rules]: "quiet (gola_resolve bl i)" "quiet (gola_fixup bl)" "quiet (gola_findlabel a)"
  unfolding gola_resolve_def gola_fixup_def gola_findlabel_def gola_resolve1_def gola_fixup1_def gola_back_def
  by (intro quiet_rules; simp)+

lemma quiet_scope [quiet_rules]: "quiet (fscope_begin fl)" "quiet fscope_end" "quiet (or_flags fl)"
  unfolding fscope_begin_def fscope_end_def or_flags_def by (intro quiet_rules; simp)+

lemma quiet_fixups [quiet_rules]: "quiet fs_fixup_k" "quiet fs_prep_var" "quiet (set_line pc l)"
  unfolding fs_fixup_k_def fs_prep_var_def set_line_def by (intro quiet_rules; simp)+

lemma quiet_fixup_returns [quiet_rules]: "quiet (fixup_returns n pc)"
  by (induction n arbitrary: pc) (auto intro!: quiet_rules)

lemma quiet_fs_finish [quiet_rules]: "quiet fs_fixup_ret" "quiet (fs_finish l)" "quiet (fs_init l)" "quiet (new_obj x)"
  unfolding fs_finish_def fs_fixup_ret_def fs_init_def new_obj_def by (intro quiet_rules; simp)+


text \<open>Loops and lists of cases.\<close>

lemma ploop_calm:
  assumes "\<And>x. calm M (body x)"
    "\<And>x s y s'. ps_level s = M \<Longrightarrow> I x s \<Longrightarrow> body x s = Inr (Inl y, s') \<Longrightarrow> ps_left s' < ps_left s \<and> I y s'"
    "\<And>x s y s'. ps_level s = M \<Longrightarrow> I x s \<Longrightarrow> body x s = Inr (Inr y, s') \<Longrightarrow> J y s'"
  shows "ps_level s = M \<Longrightarrow> I x s \<Longrightarrow> ps_left s < n \<Longrightarrow> ploop n body x s \<noteq> Inl PFuel \<and>
    (\<forall>y s'. ploop n body x s = Inr (y, s') \<longrightarrow> ps_level s' = M \<and> ps_left s' \<le> ps_left s \<and> J y s')"
proof (induction n arbitrary: x s)
  case (Suc n)
  have b: "body x s \<noteq> Inl PFuel" "\<And>r s1. body x s = Inr (r, s1) \<Longrightarrow> ps_level s1 = M \<and> ps_left s1 \<le> ps_left s"
    using calmD [OF assms(1) Suc.prems(1)] by blast+
  show ?case
  proof (cases "body x s")
    case (Inl e)
    then show ?thesis using b(1) by (simp add: pbind_def)
  next
    case (Inr p)
    obtain r s1 where p: "p = (r, s1)" by (cases p)
    note st = b(2) [OF Inr [unfolded p]]
    show ?thesis
    proof (cases r)
      case (Inl y)
      have d: "ps_left s1 < ps_left s" "I y s1" using assms(2) [OF Suc.prems(1,2), of y s1] Inr p Inl by auto
      have "ploop (Suc n) body x s = ploop n body y s1" using Inr p Inl by (simp add: pbind_def)
      moreover have "ps_left s1 < n" using d(1) Suc.prems(3) by simp
      ultimately show ?thesis using Suc.IH [of s1 y] st d by (auto simp del: ploop.simps)
    next
      case (Inr y)
      then show ?thesis using assms(3) [OF Suc.prems(1,2), of y s1] st \<open>body x s = Inr p\<close> p by (simp add: pbind_def pret_def)
    qed
  qed
qed simp

lemma pwhile_run: "pwhile body x s = ploop (Suc (ps_left s)) body x s"
  by (simp add: pwhile_def pbind_def pget_def)

lemma pwhile_calm_inv:
  assumes "\<And>x. calm M (body x)"
    "\<And>x s y s'. ps_level s = M \<Longrightarrow> I x s \<Longrightarrow> body x s = Inr (Inl y, s') \<Longrightarrow> ps_left s' < ps_left s \<and> I y s'"
    "\<And>x s y s'. ps_level s = M \<Longrightarrow> I x s \<Longrightarrow> body x s = Inr (Inr y, s') \<Longrightarrow> J y s'"
    "ps_level s = M" "I x s"
  shows "pwhile body x s \<noteq> Inl PFuel \<and>
    (\<forall>y s'. pwhile body x s = Inr (y, s') \<longrightarrow> ps_level s' = M \<and> ps_left s' \<le> ps_left s \<and> J y s')"
  unfolding pwhile_run by (rule ploop_calm [where I = I, OF assms(1-5) lessI])

lemma pwhile_calm [calm_rules]:
  assumes "\<And>x. calm M (body x)" "\<And>x. eats M anyt isl (body x)"
  shows "calm M (pwhile body x)"
proof -
  have d: "ps_left s' < ps_left s \<and> True" if "ps_level s = M" "True" "body x s = Inr (Inl y, s')" for x s y s'
    using eatsD [OF assms(2) that(1) _ that(3)] by simp
  have "pwhile body x s \<noteq> Inl PFuel \<and> (\<forall>y s'. pwhile body x s = Inr (y, s') \<longrightarrow> ps_level s' = M \<and> ps_left s' \<le> ps_left s \<and> True)"
    if "ps_level s = M" for s
    by (rule pwhile_calm_inv [where I = "\<lambda>_ _. True"]) (use assms(1) d that in \<open>blast+\<close>)
  then show ?thesis by (intro calmI) blast+
qed

lemma eats_first: "eats M P anyt m \<Longrightarrow> (\<And>x. calm M (k x)) \<Longrightarrow> calm M m \<Longrightarrow> eats M P R (pbind m k)"
proof (rule eatsI)
  fix s s' :: pstate and y assume e: "eats M P anyt m" and c: "\<And>x. calm M (k x)" "calm M m"
    and s: "ps_level s = M" "P (tok_of s)" "pbind m k s = Inr (y, s')"
  then obtain x s1 where x: "m s = Inr (x, s1)" "k x s1 = Inr (y, s')" by (auto simp: pbind_Inr)
  have "ps_left s1 < ps_left s" using eatsD [OF e s(1,2) x(1)] by simp
  moreover have "ps_left s' \<le> ps_left s1" using calmD(2) [OF c(1) _ x(2)] calmD(2) [OF c(2) s(1) x(1)] by simp
  ultimately show "ps_left s' < ps_left s" by simp
qed

lemma eats_later: "calm M m \<Longrightarrow> (\<And>x. eats M anyt R (k x)) \<Longrightarrow> eats M P R (pbind m k)"
proof (rule eatsI)
  fix s s' :: pstate and y assume c: "calm M m" and e: "\<And>x. eats M anyt R (k x)"
    and s: "ps_level s = M" "P (tok_of s)" "pbind m k s = Inr (y, s')" "R y"
  then obtain x s1 where x: "m s = Inr (x, s1)" "k x s1 = Inr (y, s')" by (auto simp: pbind_Inr)
  note s1 = calmD(2) [OF c s(1) x(1)]
  have "ps_left s' < ps_left s1" using eatsD [OF e _ _ x(2) s(4)] s1 by simp
  then show "ps_left s' < ps_left s" using s1 by simp
qed

lemma eats_quiet: "quiet m \<Longrightarrow> (\<And>x. eats M P R (k x)) \<Longrightarrow> eats M P R (pbind m k)"
proof (rule eatsI)
  fix s s' :: pstate and y assume q: "quiet m" and e: "\<And>x. eats M P R (k x)"
    and s: "ps_level s = M" "P (tok_of s)" "pbind m k s = Inr (y, s')" "R y"
  then obtain x s1 where x: "m s = Inr (x, s1)" "k x s1 = Inr (y, s')" by (auto simp: pbind_Inr)
  have s1: "ps_level s1 = ps_level s" "tok_of s1 = tok_of s" "ps_left s1 = ps_left s" using q x(1) by (auto simp: quiet_def)
  then show "ps_left s' < ps_left s" using eatsD [OF e _ _ x(2) s(4)] s by simp
qed

lemma eats_first_seq: "eats M P anyt m \<Longrightarrow> calm M k \<Longrightarrow> calm M m \<Longrightarrow> eats M P R (pseq m k)"
  unfolding pseq_def by (rule eats_first)

lemma eats_later_seq: "calm M m \<Longrightarrow> eats M anyt R k \<Longrightarrow> eats M P R (pseq m k)"
  unfolding pseq_def by (rule eats_later)

lemma eats_quiet_seq: "quiet m \<Longrightarrow> eats M P R k \<Longrightarrow> eats M P R (pseq m k)"
  unfolding pseq_def by (rule eats_quiet)

lemma eats_weaken: "eats M anyt anyt m \<Longrightarrow> eats M P R m"
  by (auto simp: eats_def)

lemma eats_mono: "eats M P anyt m \<Longrightarrow> (\<And>t. Q t \<Longrightarrow> P t) \<Longrightarrow> eats M Q R m"
  by (auto simp: eats_def)

lemma eats_no: "(\<And>x. \<not> R x) \<Longrightarrow> eats M P R m"
  by (auto simp: eats_def)

lemma eats_fail [simp]: "eats M P R (pfail e)" "eats M P R (err_text t x)" "eats M P R (err_syntax e')" "eats M P R (err_token t')"
  "eats M P R (err_limit a b c)"
  by (auto simp: eats_def err_text_def err_syntax_def err_token_def err_limit_def pbind_def pget_def pfail_def)

lemma eats_ret_Inr [simp]: "eats M P isl (pret (Inr x))"
  by (auto simp: eats_def pret_def)

lemma eats_tok: "(\<And>t. P t \<Longrightarrow> eats M (\<lambda>t'. t' = t) R (k t)) \<Longrightarrow> eats M P R (pbind p_tok k)"
  by (auto simp: eats_def pbind_def pget_def)

lemma eats_if: "(b \<Longrightarrow> eats M P R m) \<Longrightarrow> (\<not> b \<Longrightarrow> eats M P R k) \<Longrightarrow> eats M P R (if b then m else k)"
  by simp

section \<open>Reading tokens\<close>

lemma kp_lex_next_left:
  assumes "kp_lex_next ls = Inr ls'" "s' = s\<lparr>ps_ls := ls'\<rparr>" "ps_ls s = ls"
  shows "ps_left s' \<le> ps_left s \<and> (ls_tok ls \<noteq> TK_eof \<longrightarrow> ps_left s' < ps_left s)"
proof (cases "ls_lookahead ls = TK_eof")
  case True
  from kp_lex_next_plain [OF True assms(1)] have
    "ls_lookahead ls' = TK_eof" "if ls_tok ls' = TK_eof then ls_in ls' = [] else length (ls_in ls') < length (ls_in ls)" by blast+
  then show ?thesis using True assms by (auto simp: ps_left_def Let_def split: if_splits)
next
  case False
  then have "ls' = ls\<lparr>ls_lastline := ls_line ls, ls_tok := ls_lookahead ls, ls_lookahead := TK_eof, ls_tokval := ls_lookval ls\<rparr>"
    using assms(1) by (simp add: kp_lex_next_def)
  then show ?thesis using False assms by (auto simp: ps_left_def Let_def)
qed

lemma plex_next: "calm M (plex kp_lex_next)" "eats M (\<lambda>t. t \<noteq> TK_eof) anyt (plex kp_lex_next)"
  by (auto simp: calm_def eats_def plex_def split: sum.splits dest: kp_lex_next_left)

lemma p_next_calm [calm_rules]: "calm M p_next"
  unfolding p_next_def by (intro calm_rules plex_next quiet_calm quiet_rules; simp)

lemma p_next_eats: "eats M (\<lambda>t. t \<noteq> TK_eof) R p_next"
  unfolding p_next_def
  by (intro eats_quiet quiet_rules eats_first_seq plex_next, simp split: prod.split, intro conjI allI impI)
     (intro eats_first_seq plex_next calm_rules quiet_calm quiet_rules; simp)+

lemma p_lookahead_calm [calm_rules]: "calm M p_lookahead"
proof -
  have "calm M (plex (\<lambda>ls. lbind (kp_lex_lookahead ls) (\<lambda>(_, ls). Inr ls)))"
    unfolding calm_def
  proof (intro allI impI conjI)
    fix s s' :: pstate and x assume a: "plex (\<lambda>ls. lbind (kp_lex_lookahead ls) (\<lambda>(_, ls). Inr ls)) s = Inr (x, s')" "ps_level s = M"
    then obtain tok tv ls1 where sc: "scan_loop (lex_reset (ps_ls s)) (ls_lookval (ps_ls s)) = Inr (tok, tv, ls1)"
      and s': "s' = s\<lparr>ps_ls := ls1\<lparr>ls_lookahead := tok, ls_lookval := tv\<rparr>\<rparr>"
      by (auto simp: plex_def kp_lex_lookahead_def lex_scan_def lbind_Inr_iff split: sum.splits)
    have "lex_keeps (lex_reset (ps_ls s)) ls1" using scan_loop_keeps [OF sc] .
    then have "ls_tok ls1 = ls_tok (ps_ls s)" by (cases ls1) (auto simp: lex_keeps_def)
    then show "ps_left s' \<le> ps_left s" using scan_loop_progress [OF sc] s'
      by (auto simp: ps_left_def progress_def Let_def split: if_splits)
    show "ps_level s' = M" using a s' by simp
  qed (auto simp: plex_def split: sum.splits)
  then show ?thesis unfolding p_lookahead_def by (intro calm_seq) (assumption | intro calm_rules quiet_calm quiet_rules | simp)+
qed

lemma lex_opt_calm [calm_rules]: "calm M (lex_opt t)"
  unfolding lex_opt_def by (intro calm_rules quiet_calm quiet_rules)

lemma lex_check_calm [calm_rules]: "calm M (lex_check t)"
  unfolding lex_check_def by (intro calm_rules quiet_calm quiet_rules)

lemma lex_match_calm [calm_rules]: "calm M (lex_match a b l)"
  unfolding lex_match_def by (intro calm_rules quiet_calm quiet_rules)

lemma lex_str_calm [calm_rules]: "calm M lex_str"
  unfolding lex_str_def by (intro calm_rules quiet_calm quiet_rules)

lemma lex_check_eats: "t \<noteq> TK_eof \<Longrightarrow> eats M P R (lex_check t)"
  unfolding lex_check_def by (intro eats_tok eats_if) (auto intro: eats_mono [OF p_next_eats])

lemma lex_str_eats: "eats M P R lex_str"
proof -
  have "eats M (\<lambda>t. t \<noteq> TK_eof) R (pseq p_next (pret x))" for x
    by (intro eats_first_seq p_next_eats calm_rules quiet_calm quiet_rules)
  then show ?thesis unfolding lex_str_def eats_def by (auto simp: pbind_def pget_def err_token_def err_text_def pfail_def split: if_splits)
qed

text \<open>An optional token: when it was there, text was consumed.\<close>

lemma lex_opt_True: "t \<noteq> TK_eof \<Longrightarrow> lex_opt t s = Inr (True, s') \<Longrightarrow> ps_left s' < ps_left s"
  using p_next_eats [of "ps_level s" anyt]
  by (auto simp: lex_opt_def eats_def pbind_Inr pget_def pret_def pseq_def split: if_splits)

lemma lex_opt_False: "lex_opt t s = Inr (False, s') \<Longrightarrow> s' = s"
  by (auto simp: lex_opt_def pbind_Inr pget_def pret_def pseq_def split: if_splits)

lemma eats_opt:
  assumes "t \<noteq> TK_eof" "calm M (k True)" "eats M P R (k False)"
  shows "eats M P R (pbind (lex_opt t) k)"
  unfolding eats_def pbind_Inr
proof (intro allI impI)
  fix s s' :: pstate and x assume a: "ps_level s = M" "P (tok_of s)" "\<exists>b s1. lex_opt t s = Inr (b, s1) \<and> k b s1 = Inr (x, s')" "R x"
  then obtain b s1 where b: "lex_opt t s = Inr (b, s1)" "k b s1 = Inr (x, s')" by auto
  have l: "ps_level s1 = M" "ps_left s1 \<le> ps_left s" using calmD(2) [OF lex_opt_calm a(1) b(1)] by simp_all
  show "ps_left s' < ps_left s"
  proof (cases b)
    case True
    then have "k True s1 = Inr (x, s')" "ps_left s1 < ps_left s" using lex_opt_True [OF assms(1)] b by auto
    then show ?thesis using calmD(2) [OF assms(2) l(1)] by fastforce
  next
    case False
    then have "s1 = s" "k False s = Inr (x, s')" using lex_opt_False b by auto
    then show ?thesis using eatsD [OF assms(3) a(1,2) _ a(4)] by simp
  qed
qed

end
