(* ===== verification/Ktap_Parse_Ends.thy ===== *)
theory Ktap_Parse_Ends
  imports Ktap_Progress
begin

text \<open>
  The parser ends on every source.  The contract of nested expressions and blocks is the locale \<open>nested\<close>;
  every parsing function meets its own under it, and the level the code counts shows that 200 levels of
  nesting meet it.
\<close>

section \<open>Expressions and statements end\<close>

lemma expr_index_quiet [quiet_rules]: "quiet (expr_index t e)"
  unfolding expr_index_def Let_def by (intro quiet_rules)

lemma expr_str_calm [calm_rules]: "calm M expr_str"
  unfolding expr_str_def by (intro calm_rules quiet_calm quiet_rules)

lemma expr_field_calm [calm_rules]: "calm M (expr_field v)"
  unfolding expr_field_def by (intro calm_rules quiet_calm quiet_rules)

lemma table_quiet [quiet_rules]: "quiet (table_template pc freg key val tb)" "quiet (table_store key val tb)" "quiet (table_finish pc tb)"
  unfolding table_template_def table_store_def table_finish_def Let_def
  by (intro quiet_rules; auto split: gcobj.split intro!: quiet_rules)+

lemma emit_call_quiet [quiet_rules]: "quiet (emit_call e ins base line)"
  unfolding emit_call_def Let_def by (intro quiet_rules)

lemma var_lookup_calm [calm_rules]: "calm M (var_lookup e)"
proof -
  have "quiet (case r of Inl LookupFault \<Rightarrow> pfault | Inl (TooManyUpvalues line) \<Rightarrow> err_limit line KP_MAX_UPVAL ''upvalues''
     | Inr (_, e, fs) \<Rightarrow> pseq (pmod (\<lambda>s. s\<lparr>ps_fs := fs\<rparr>)) (pret e))" for r :: "lookup_stop + u16 option \<times> ExpDesc \<times> pfunc list"
    by (auto split: sum.split lookup_stop.split intro!: quiet_rules)
  then show ?thesis unfolding var_lookup_def by (intro calm_rules quiet_calm quiet_basic)
qed

lemma synlevel_end_run: "synlevel_end s = Inr ((), s\<lparr>ps_level := ps_level s - 1\<rparr>)"
  by (simp add: synlevel_end_def pmod_def)

lemma param_loop_ok: "calm M (param_loop n)" "eats M anyt isl (param_loop n)"
proof -
  show "calm M (param_loop n)" unfolding param_loop_def by (intro calm_rules quiet_calm quiet_rules)
  have "eats M (\<lambda>t. t \<noteq> TK_eof) R (pseq p_next (pseq (set_fs g) (pret x)))" for g R and x :: "nat + nat"
    by (intro eats_first_seq p_next_eats calm_rules quiet_calm quiet_rules)
  then have v: "eats M (\<lambda>t'. t' = TK_dots) isl (pseq p_next (pseq (set_fs g) (pret x)))" for g and x :: "nat + nat"
    by (rule eats_mono) simp
  have n: "eats M P isl (pbind lex_str (\<lambda>name. pseq (var_new n name) (pbind (lex_opt c_comma) (\<lambda>more. pret (if more then Inl (n + 1) else Inr (n + 1))))))" for P
    by (intro eats_first lex_str_eats calm_rules quiet_calm [OF quiet_var_new] quiet_calm [OF quiet_basic(1)])
  show "eats M anyt isl (param_loop n)" unfolding param_loop_def
    by (intro eats_tok eats_if n eats_fail) (use v in auto)
qed

lemma names_loop_ok: "calm M (names_loop n)" "eats M anyt isl (names_loop n)"
  unfolding names_loop_def by (intro eats_first lex_str_eats calm_rules quiet_calm quiet_rules)+

lemma iter_names_ok: "calm M (iter_names n)" "eats M anyt isl (iter_names n)"
  unfolding iter_names_def
  by (intro calm_rules quiet_calm quiet_rules, intro eats_opt)
     (simp_all add: calm_rules quiet_calm [OF quiet_var_new] quiet_calm [OF quiet_basic(1)])

lemma parse_params_calm [calm_rules]: "calm M (parse_params b)"
  unfolding parse_params_def by (intro calm_rules param_loop_ok; intro quiet_calm quiet_rules)

lemma func_body_calm:
  assumes "calm M C" "calm M params"
  shows "calm M (func_body C params line)"
  unfolding func_body_def
  by (intro calm_rules assms; intro quiet_calm quiet_rules; simp)

lemma parse_body_calm [calm_rules]: "calm M C \<Longrightarrow> calm M (parse_body C b l)" "calm M C \<Longrightarrow> calm M (parse_body_no_args C l)"
  by (auto simp: parse_body_def parse_body_no_args_def intro!: func_body_calm parse_params_calm quiet_calm [OF quiet_basic(1)])

text \<open>Rules for consuming the token a branch is about.\<close>

lemma eats_get: "(\<And>s. P (tok_of s) \<Longrightarrow> eats M (\<lambda>t. t = tok_of s) R (k (f s))) \<Longrightarrow> eats M P R (pbind (pget f) k)"
  by (auto simp: eats_def pbind_def pget_def)

lemma eats_next: "(\<And>t. P t \<Longrightarrow> t \<noteq> TK_eof) \<Longrightarrow> calm M k \<Longrightarrow> eats M P R (pseq p_next k)"
  by (rule eats_first_seq [OF eats_mono [OF p_next_eats] _ p_next_calm]) auto

lemma eats_check: "t \<noteq> TK_eof \<Longrightarrow> calm M k \<Longrightarrow> eats M P R (pseq (lex_check t) k)"
  by (rule eats_first_seq [OF lex_check_eats _ lex_check_calm])

text \<open>What the functions of the parser rely on when they enter expressions and chunks again, at a level of nesting.\<close>

locale nested =
  fixes M :: u32 and E :: exprs and C :: "unit parse"
  assumes E_calm: "calm M (E l)"
    and E_eats: "eats M anyt anyt (E l)"
    and E_op: "ps_level s = M \<Longrightarrow> E l s = Inr ((op, v), s') \<Longrightarrow> op \<noteq> OPR_NOBINOPR \<Longrightarrow> tok_of s' \<noteq> TK_eof"
    and C_calm: "calm M C"
begin

lemma expr_calm: "calm M (call_expr E)"
  unfolding call_expr_def by (intro calm_rules E_calm quiet_calm quiet_rules)

lemma expr_eats: "eats M P R (call_expr E)"
  unfolding call_expr_def
  by (intro eats_first eats_weaken [OF E_eats] E_calm) (auto intro!: quiet_calm quiet_rules)

lemmas nested_rules = expr_calm C_calm E_calm

lemma expr_bracket_calm: "calm M (expr_bracket E)"
  unfolding expr_bracket_def by (intro calm_rules nested_rules quiet_calm quiet_rules)

lemma table_key_calm: "calm M (table_key E tb)"
  unfolding table_key_def
  by (intro calm_rules nested_rules expr_bracket_calm; intro quiet_calm quiet_rules)

lemma table_field_ok: "calm M (table_field E pc freg tb)" "eats M anyt isl (table_field E pc freg tb)"
proof -
  show "calm M (table_field E pc freg tb)"
    unfolding table_field_def by (intro calm_rules nested_rules table_key_calm; intro quiet_calm quiet_rules)
  show "eats M anyt isl (table_field E pc freg tb)"
    unfolding table_field_def
    apply (intro eats_tok eats_if)
     apply simp
    apply (rule eats_later [OF table_key_calm])
    apply (simp split: prod.split, intro allI impI)
    apply (rule eats_first [OF expr_eats _ expr_calm])
    apply (intro calm_rules; intro quiet_calm quiet_rules)
    done
qed

lemma expr_table_calm: "calm M (expr_table E)"
  unfolding expr_table_def Let_def
  by (intro calm_rules nested_rules table_field_ok; intro quiet_calm quiet_rules)

lemma list_loop_ok: "calm M (list_loop E st)" "eats M anyt isl (list_loop E st)"
  unfolding list_loop_def
   apply (intro calm_rules nested_rules; intro quiet_calm quiet_rules)
  apply (cases st, simp)
  apply (rule eats_opt)
    apply (auto intro!: calm_rules nested_rules quiet_calm [OF quiet_gen] quiet_calm [OF quiet_basic(1)])
  done

lemma expr_list_calm: "calm M (expr_list E)"
  unfolding expr_list_def by (intro calm_rules nested_rules list_loop_ok)

lemma parse_args_calm: "calm M (parse_args E e)"
  unfolding parse_args_def Let_def
  by (intro calm_rules nested_rules expr_table_calm expr_list_calm; intro quiet_calm quiet_rules)

lemma suffix_calm: "calm M (suffix_loop E v)"
  unfolding suffix_loop_def
  by (intro calm_rules nested_rules expr_bracket_calm parse_args_calm; intro quiet_calm quiet_rules)

lemma expr_table_eats: "eats M P R (expr_table E)"
  unfolding expr_table_def Let_def
  apply (rule eats_quiet, rule quiet_rules)+
  apply (rule eats_quiet_seq, rule quiet_rules)
  apply (rule eats_check, simp)
  apply (intro calm_rules table_field_ok; intro quiet_calm quiet_rules)
  done

lemma parse_args_eats: "eats M P R (parse_args E e)"
  unfolding parse_args_def Let_def
  apply (rule eats_get)
  apply (simp only: prod.case)
  apply (rule eats_first)
    apply (intro eats_if)
        apply simp
       apply (rule eats_next, simp)
       apply (intro calm_rules nested_rules expr_list_calm; intro quiet_calm quiet_rules)
      apply (rule expr_table_eats)
     apply (rule eats_next, simp)
     apply (intro quiet_calm quiet_rules)
    apply simp
   apply (intro quiet_calm quiet_rules)
  apply (intro calm_rules nested_rules expr_list_calm expr_table_calm; intro quiet_calm quiet_rules)
  done

lemma expr_field_eats: "eats M (\<lambda>t. t = c_dot) R (expr_field v)"
  unfolding expr_field_def
  apply (rule eats_quiet, rule quiet_rules)
  apply (rule eats_next, simp)
  apply (intro calm_rules; intro quiet_calm quiet_rules)
  done

lemma expr_bracket_eats: "eats M (\<lambda>t. t = c_lbra) R (expr_bracket E)"
  unfolding expr_bracket_def
  apply (rule eats_next, simp)
  apply (intro calm_rules nested_rules; intro quiet_calm quiet_rules)
  done

lemma suffix_eats: "eats M anyt isl (suffix_loop E v)"
  unfolding suffix_loop_def
  apply (intro eats_tok eats_if)
      apply (rule eats_first, simp, rule expr_field_eats, intro quiet_calm quiet_rules, rule expr_field_calm)
     apply (rule eats_quiet, rule quiet_rules, rule eats_first, simp, rule expr_bracket_eats)
      apply (intro quiet_calm quiet_rules)
     apply (rule expr_bracket_calm)
    apply (rule eats_next, simp)
    apply (intro calm_rules parse_args_calm; intro quiet_calm quiet_rules)
   apply (rule eats_quiet, rule quiet_rules, rule eats_first [OF parse_args_eats])
    apply (intro quiet_calm quiet_rules)
   apply (rule parse_args_calm)
  apply simp
  done

lemma var_lookup_eats: "eats M P R (var_lookup e)"
  unfolding var_lookup_def
  by (rule eats_first [OF lex_str_eats _ lex_str_calm])
    (auto intro!: quiet_calm quiet_rules split: sum.split lookup_stop.split)

lemma expr_primary_calm: "calm M (expr_primary E)"
  unfolding expr_primary_def
  by (intro calm_rules nested_rules suffix_calm suffix_eats; intro quiet_calm quiet_rules)

lemma expr_primary_eats: "eats M P R (expr_primary E)"
  unfolding expr_primary_def
  apply (rule eats_tok)
  apply (rule eats_first)
    apply (intro eats_if var_lookup_eats)
     apply (rule eats_quiet, rule quiet_rules, rule eats_next, simp)
     apply (intro calm_rules nested_rules; intro quiet_calm quiet_rules)
    apply simp
   apply (intro calm_rules nested_rules suffix_calm suffix_eats; intro quiet_calm quiet_rules)
  apply (intro calm_rules nested_rules suffix_calm suffix_eats; intro quiet_calm quiet_rules)
  done

lemma expr_simple_calm: "calm M (expr_simple E C)"
  unfolding expr_simple_def Let_def
  by (intro calm_rules nested_rules expr_table_calm expr_primary_calm; intro quiet_calm quiet_rules)

lemma expr_simple_eats: "eats M P R (expr_simple E C)"
proof -
  have n: "eats M Q R (pseq p_next (pret x))" if "\<And>t. Q t \<Longrightarrow> t \<noteq> TK_eof" for Q R and x :: ExpDesc
    using that by (intro eats_next quiet_calm quiet_rules) auto
  have d: "eats M Q R (pbind cur_fs (\<lambda>f.
         if pf_flags f AND PROTO_VARARG = 0 then err_syntax em
         else pseq (gen g) (pbind (gen h) (\<lambda>base. pbind (gen (i base f)) (\<lambda>pc. pseq p_next (pret (x base pc)))))))"
    if "\<And>t. Q t \<Longrightarrow> t \<noteq> TK_eof" for Q R em g h i and x :: "u32 \<Rightarrow> u32 \<Rightarrow> ExpDesc"
    by (intro eats_quiet eats_if quiet_rules eats_quiet_seq n that eats_fail)
  have f: "eats M Q R (pseq p_next (pbind p_line (\<lambda>line. parse_body C False line)))" if "\<And>t. Q t \<Longrightarrow> t \<noteq> TK_eof" for Q R
    apply (rule eats_next [OF that], assumption)
    apply (intro calm_rules nested_rules; intro quiet_calm quiet_rules)
    done
  show ?thesis
    unfolding expr_simple_def Let_def
    apply (rule eats_get)
    apply (simp only: prod.case)
    apply (intro eats_if n d f expr_table_eats expr_primary_eats)
    apply simp_all
    done
qed

end

text \<open>With a bound on the text that is left.\<close>

definition calm_in :: "u32 \<Rightarrow> nat \<Rightarrow> 'a parse \<Rightarrow> bool" where
  "calm_in M n m \<longleftrightarrow> (\<forall>s. ps_level s = M \<longrightarrow> ps_left s < n \<longrightarrow> m s \<noteq> Inl PFuel \<and>
     (\<forall>x s'. m s = Inr (x, s') \<longrightarrow> ps_level s' = M \<and> ps_left s' \<le> ps_left s))"

lemma calm_calm_in: "calm M m \<Longrightarrow> calm_in M n m"
  unfolding calm_def calm_in_def by blast

lemma calm_inD:
  assumes "calm_in M n m" "ps_level s = M" "ps_left s < n"
  shows "m s \<noteq> Inl PFuel" "m s = Inr (x, s') \<Longrightarrow> ps_level s' = M \<and> ps_left s' \<le> ps_left s"
  using assms unfolding calm_in_def by blast+

lemma calm_in_bind:
  assumes "calm_in M n m" "\<And>x. calm_in M n (k x)"
  shows "calm_in M n (pbind m k)"
  unfolding calm_in_def
proof (intro allI impI)
  fix s :: pstate assume s: "ps_level s = M" "ps_left s < n"
  show "pbind m k s \<noteq> Inl PFuel \<and> (\<forall>x s'. pbind m k s = Inr (x, s') \<longrightarrow> ps_level s' = M \<and> ps_left s' \<le> ps_left s)"
  proof (cases "m s")
    case (Inl e)
    then show ?thesis using calm_inD(1) [OF assms(1) s] by (simp add: pbind_def)
  next
    case (Inr p)
    obtain x s1 where p: "p = (x, s1)" by (cases p)
    have s1: "ps_level s1 = M" "ps_left s1 \<le> ps_left s" using calm_inD(2) [OF assms(1) s] Inr p by auto
    then have "ps_left s1 < n" using s by simp
    note k = calm_inD [OF assms(2) s1(1) this]
    have run: "pbind m k s = k x s1" using Inr p by (simp add: pbind_def)
    show ?thesis unfolding run using k s1(2) by (meson le_trans)
  qed
qed

lemma calm_in_seq: "calm_in M n m \<Longrightarrow> calm_in M n k \<Longrightarrow> calm_in M n (pseq m k)"
  unfolding pseq_def by (rule calm_in_bind)

lemma calm_in_if: "(b \<Longrightarrow> calm_in M n m) \<Longrightarrow> (\<not> b \<Longrightarrow> calm_in M n k) \<Longrightarrow> calm_in M n (if b then m else k)"
  by simp

lemma calm_in_list: "calm_in M n a \<Longrightarrow> (\<And>x xs. calm_in M n (f x xs)) \<Longrightarrow> calm_in M n (case l of [] \<Rightarrow> a | x # xs \<Rightarrow> f x xs)"
  by (cases l) auto

lemma calm_in_opt:
  assumes "t \<noteq> TK_eof" "calm_in M n (k True)" "calm_in M (Suc n) (k False)"
  shows "calm_in M (Suc n) (pbind (lex_opt t) k)"
  unfolding calm_in_def
proof (intro allI impI)
  fix s :: pstate assume s: "ps_level s = M" "ps_left s < Suc n"
  show "pbind (lex_opt t) k s \<noteq> Inl PFuel \<and>
     (\<forall>x s'. pbind (lex_opt t) k s = Inr (x, s') \<longrightarrow> ps_level s' = M \<and> ps_left s' \<le> ps_left s)"
  proof (cases "lex_opt t s")
    case (Inl e)
    then show ?thesis using calmD(1) [OF lex_opt_calm s(1), of t] by (simp add: pbind_def)
  next
    case (Inr p)
    obtain b s1 where p: "p = (b, s1)" by (cases p)
    have run: "pbind (lex_opt t) k s = k b s1" using Inr p by (simp add: pbind_def)
    show ?thesis
    proof (cases b)
      case True
      have "ps_level s1 = M" using calmD(2) [OF lex_opt_calm s(1)] Inr p by blast
      moreover have l: "ps_left s1 < ps_left s" using lex_opt_True [OF assms(1)] Inr p True by auto
      moreover have "ps_left s1 < n" using l s(2) by simp
      ultimately show ?thesis unfolding run using calm_inD [OF assms(2), of s1] True by (metis (full_types) le_trans less_imp_le)
    next
      case False
      then show ?thesis using lex_opt_False [of t s s1] calm_inD [OF assms(3) s] run Inr p by simp
    qed
  qed
qed

lemma quietD: "quiet m \<Longrightarrow> m s = Inr (x, s') \<Longrightarrow> ps_level s' = ps_level s \<and> tok_of s' = tok_of s \<and> ps_left s' = ps_left s"
  unfolding quiet_def by blast

context nested
begin

lemma expr_unop_ok: "calm M (expr_unop E C)" "eats M P R (expr_unop E C)"
proof -
  show "calm M (expr_unop E C)"
    unfolding expr_unop_def by (intro calm_rules nested_rules expr_simple_calm; intro quiet_calm quiet_rules)
  show "eats M P R (expr_unop E C)"
    unfolding expr_unop_def
    apply (intro eats_tok eats_if expr_simple_eats)
    apply (rule eats_next, force)
    apply (intro calm_rules nested_rules; intro quiet_calm quiet_rules)
    done
qed

lemma token2binop_eof: "token2binop tok \<noteq> OPR_NOBINOPR \<Longrightarrow> tok \<noteq> TK_eof"
  by (auto simp: token2binop_def)

lemma binop_loop_calm: "calm M (binop_loop E limit st)"
  unfolding binop_loop_def by (intro calm_rules nested_rules; intro quiet_calm quiet_rules)

lemma binop_loop_step:
  assumes "ps_level s = M" "fst st \<noteq> OPR_NOBINOPR \<longrightarrow> tok_of s \<noteq> TK_eof" "binop_loop E limit st s = Inr (r, s')"
  shows "case r of Inl st' \<Rightarrow> ps_left s' < ps_left s \<and> (fst st' \<noteq> OPR_NOBINOPR \<longrightarrow> tok_of s' \<noteq> TK_eof)
     | Inr st' \<Rightarrow> fst st' \<noteq> OPR_NOBINOPR \<longrightarrow> tok_of s' \<noteq> TK_eof"
proof (cases "fst st \<noteq> OPR_NOBINOPR \<and> fst (priority (fst st)) > limit")
  case False
  then show ?thesis using assms by (cases st) (auto simp: binop_loop_def pret_def)
next
  case True
  obtain op v where st: "st = (op, v)" by (cases st)
  obtain s1 v1 s2 nextop v2 s3 v3 s4 where run: "p_next s = Inr ((), s1)" "gen (bcemit_binop_left op v) s1 = Inr (v1, s2)"
      "E (snd (priority op)) s2 = Inr ((nextop, v2), s3)" "gen (bcemit_binop op v1 v2) s3 = Inr (v3, s4)" "r = Inl (nextop, v3)" "s' = s4"
    using assms(3) True unfolding st binop_loop_def by (auto simp: pseq_def pbind_Inr pret_def)
  have l1: "ps_left s1 < ps_left s" "ps_level s1 = M"
    using eatsD [OF p_next_eats assms(1) _ run(1)] calmD(2) [OF p_next_calm assms(1) run(1)] assms(2) True st by auto
  have l2: "ps_left s2 = ps_left s1" "ps_level s2 = M" using quietD [OF quiet_gen run(2)] l1 by simp_all
  have l3: "ps_left s3 \<le> ps_left s2" "ps_level s3 = M" using calmD(2) [OF E_calm l2(2) run(3)] by auto
  have l4: "ps_left s4 = ps_left s3" "tok_of s4 = tok_of s3" using quietD [OF quiet_gen run(4)] by simp_all
  show ?thesis using l1 l2 l3 l4 E_op [OF l2(2) run(3)] run(5,6) by simp
qed

lemma binop_while:
  assumes "ps_level s = M" "fst st \<noteq> OPR_NOBINOPR \<longrightarrow> tok_of s \<noteq> TK_eof"
  shows "pwhile (binop_loop E limit) st s \<noteq> Inl PFuel \<and>
    (\<forall>y s'. pwhile (binop_loop E limit) st s = Inr (y, s') \<longrightarrow>
       ps_level s' = M \<and> ps_left s' \<le> ps_left s \<and> (fst y \<noteq> OPR_NOBINOPR \<longrightarrow> tok_of s' \<noteq> TK_eof))"
proof (rule pwhile_calm_inv [where I = "\<lambda>st s. fst st \<noteq> OPR_NOBINOPR \<longrightarrow> tok_of s \<noteq> TK_eof"])
  show "ps_left s' < ps_left s \<and> (fst y \<noteq> OPR_NOBINOPR \<longrightarrow> tok_of s' \<noteq> TK_eof)"
    if "ps_level s = M" "fst x \<noteq> OPR_NOBINOPR \<longrightarrow> tok_of s \<noteq> TK_eof" "binop_loop E limit x s = Inr (Inl y, s')" for x s y s'
    using binop_loop_step [OF that] by simp
  show "fst y \<noteq> OPR_NOBINOPR \<longrightarrow> tok_of s' \<noteq> TK_eof"
    if "ps_level s = M" "fst x \<noteq> OPR_NOBINOPR \<longrightarrow> tok_of s \<noteq> TK_eof" "binop_loop E limit x s = Inr (Inr y, s')" for x s y s'
    using binop_loop_step [OF that] by simp
qed (use assms binop_loop_calm in auto)

text \<open>The inside of \<^verbatim>\<open>expr_binop\<close>, between counting the level up and down.\<close>

lemma binop_inside:
  assumes "ps_level s = M"
  shows "pbind (expr_unop E C) (\<lambda>v. pbind p_tok (\<lambda>tok. pwhile (binop_loop E limit) (token2binop tok, v))) s \<noteq> Inl PFuel \<and>
    (\<forall>y s'. pbind (expr_unop E C) (\<lambda>v. pbind p_tok (\<lambda>tok. pwhile (binop_loop E limit) (token2binop tok, v))) s = Inr (y, s') \<longrightarrow>
       ps_level s' = M \<and> ps_left s' < ps_left s \<and> (fst y \<noteq> OPR_NOBINOPR \<longrightarrow> tok_of s' \<noteq> TK_eof))"
proof -
  have w: "pwhile (binop_loop E limit) (token2binop (tok_of s1), v) s1 \<noteq> Inl PFuel \<and>
    (\<forall>y s'. pwhile (binop_loop E limit) (token2binop (tok_of s1), v) s1 = Inr (y, s') \<longrightarrow>
       ps_level s' = M \<and> ps_left s' \<le> ps_left s1 \<and> (fst y \<noteq> OPR_NOBINOPR \<longrightarrow> tok_of s' \<noteq> TK_eof))" if "ps_level s1 = M" for s1 v
    by (rule binop_while [OF that]) (use token2binop_eof in auto)
  have u: "expr_unop E C s \<noteq> Inl PFuel" "\<And>v s1. expr_unop E C s = Inr (v, s1) \<Longrightarrow> ps_level s1 = M \<and> ps_left s1 < ps_left s"
    using calmD [OF expr_unop_ok(1) assms] eatsD [OF expr_unop_ok(2) [of anyt anyt] assms] by blast+
  show ?thesis
  proof (cases "expr_unop E C s")
    case (Inl e)
    then show ?thesis using u(1) by (simp add: pbind_def)
  next
    case (Inr p)
    obtain v s1 where p: "p = (v, s1)" by (cases p)
    have run: "pbind (expr_unop E C) (\<lambda>v. pbind p_tok (\<lambda>tok. pwhile (binop_loop E limit) (token2binop tok, v))) s =
        pwhile (binop_loop E limit) (token2binop (tok_of s1), v) s1"
      using Inr p by (simp add: pbind_def pget_def)
    have s1: "ps_level s1 = M" "ps_left s1 < ps_left s" using u(2) Inr p by blast+
    show ?thesis unfolding run using w [OF s1(1), of v] s1(2) by (blast intro: le_less_trans)
  qed
qed

lemma expr_next_calm: "calm M (expr_next E)"
  unfolding expr_next_def by (intro calm_rules nested_rules; intro quiet_calm quiet_rules)

lemma expr_cond_calm: "calm M (expr_cond E)"
  unfolding expr_cond_def Let_def by (intro calm_rules nested_rules; intro quiet_calm quiet_rules)

lemma assign_quiet: "quiet (assign_hazard lh v)" "quiet (assign_adjust a b e)" "quiet (store_top v)"
  unfolding assign_hazard_def assign_adjust_def store_top_def Let_def by (intro quiet_rules)+

lemma assign_rhs_calm: "calm M (assign_rhs E v n)"
  unfolding assign_rhs_def by (intro calm_rules nested_rules expr_list_calm; intro quiet_calm quiet_rules assign_quiet)

lemma parse_assignment_ok: "calm_in M n (parse_assignment n E lh nvars)"
proof (induction n arbitrary: lh nvars)
  case 0
  then show ?case by (simp add: calm_in_def)
next
  case (Suc n)
  note quiets = calm_calm_in [OF quiet_calm]
  show ?case
    apply (simp only: parse_assignment.simps)
    apply (intro calm_in_list calm_in_if calm_in_opt)
        apply (rule quiets, rule quiet_rules)
       apply (rule quiets, rule quiet_rules)
      apply simp
     apply (intro calm_in_bind calm_in_if calm_in_list calm_in_seq Suc.IH calm_calm_in [OF expr_primary_calm] quiets quiet_rules assign_quiet)
     apply simp_all
    apply (intro calm_in_seq calm_calm_in [OF assign_rhs_calm] quiets quiet_rules)
    done
qed

lemma parse_call_assign_ok: "calm M (parse_call_assign E)" "eats M P R (parse_call_assign E)"
proof -
  have a: "calm M (pbind (pget ps_left) (\<lambda>n. pseq (parse_assignment (Suc n) E [v] 1) (pret ())))" for v
  proof -
    have "calm_in M (Suc n) (pseq (parse_assignment (Suc n) E [v] 1) (pret ()))" for n
      by (intro calm_in_seq parse_assignment_ok calm_calm_in quiet_calm quiet_rules)
    then have *: "calm_in M (Suc (ps_left s)) (pseq (parse_assignment (Suc (ps_left s)) E [v] 1) (pret ()))" for s .
    have run: "pbind (pget ps_left) (\<lambda>n. pseq (parse_assignment (Suc n) E [v] 1) (pret ())) s =
        pseq (parse_assignment (Suc (ps_left s)) E [v] 1) (pret ()) s" for s
      by (simp only: pbind_def pget_def sum.case prod.case)
    show ?thesis by (rule calmI) (simp_all only: run calm_inD [OF * _ lessI] simp_thms)
  qed
  show "calm M (parse_call_assign E)"
    unfolding parse_call_assign_def by (intro calm_bind expr_primary_calm calm_if a quiet_calm [OF quiet_gen])
  show "eats M P R (parse_call_assign E)"
    unfolding parse_call_assign_def by (intro eats_first expr_primary_eats expr_primary_calm calm_if a quiet_calm [OF quiet_gen])
qed

lemma local_func_calm: "calm M (local_func C)"
  unfolding local_func_def by (intro calm_rules nested_rules; intro quiet_calm quiet_rules)

lemma parse_local_calm: "calm M (parse_local E C)"
  unfolding parse_local_def
  by (intro calm_rules nested_rules local_func_calm expr_list_calm names_loop_ok; intro quiet_calm quiet_rules assign_quiet)

lemma return_ins_calm: "calm M (return_ins E)"
  unfolding return_ins_def Let_def by (intro calm_rules expr_list_calm; intro quiet_calm quiet_rules)

lemma parse_return_calm: "calm M (pseq (set_fs g) (pbind p_tok (\<lambda>tok. pbind (if parse_isend tok \<or> tok = c_semi then pret i else return_ins E) k)))"
  if "\<And>x. calm M (k x)" for g i and k :: "bcins \<Rightarrow> 'a parse"
  by (intro calm_rules return_ins_calm that; intro quiet_calm quiet_rules)

lemma parse_break_quiet: "quiet parse_break"
  unfolding parse_break_def by (intro quiet_rules)

lemma parse_block_calm: "calm M (parse_block C)"
  unfolding parse_block_def by (intro calm_rules nested_rules; intro quiet_calm quiet_rules)

lemma mark_target_quiet: "quiet mark_target"
  unfolding mark_target_def by (intro quiet_rules)

lemma predict_next_quiet: "quiet (predict_next pc)"
  unfolding predict_next_def slot_of_name_def Let_def by (intro quiet_rules)

lemma parse_for_num_calm: "calm M (parse_for_num E C v l)"
  unfolding parse_for_num_def by (intro calm_rules nested_rules expr_next_calm parse_block_calm; intro quiet_calm quiet_rules)

lemma parse_for_iter_calm: "calm M (parse_for_iter E C v)"
  unfolding parse_for_iter_def
  by (intro calm_rules nested_rules expr_list_calm parse_block_calm iter_names_ok; intro quiet_calm quiet_rules assign_quiet predict_next_quiet)

end

section \<open>Nesting\<close>

lemma synlevel_begin_run:
  "synlevel_begin s = (if ps_level s + 1 \<ge> KP_MAX_XLEVEL then Inl (PStop (lex_report (ps_ls s) 0 (bytes ''chunk has too many syntax levels'')))
     else Inr ((), s\<lparr>ps_level := ps_level s + 1\<rparr>))"
  by (simp add: synlevel_begin_def pseq_def pbind_def pmod_def pget_def err_text_def pfail_def pret_def)

definition wrapped :: "'a parse \<Rightarrow> ('a \<Rightarrow> 'b parse) \<Rightarrow> 'b parse" where
  "wrapped m k = pseq synlevel_begin (pbind m (\<lambda>x. pseq synlevel_end (k x)))"

lemma wrapped_run:
  "wrapped m k s = (if ps_level s + 1 \<ge> KP_MAX_XLEVEL then Inl (PStop (lex_report (ps_ls s) 0 (bytes ''chunk has too many syntax levels'')))
     else case m (s\<lparr>ps_level := ps_level s + 1\<rparr>) of Inl e \<Rightarrow> Inl e | Inr (x, s1) \<Rightarrow> k x (s1\<lparr>ps_level := ps_level s1 - 1\<rparr>))"
  by (auto simp: wrapped_def pseq_def pbind_def synlevel_begin_run synlevel_end_run split: sum.splits prod.splits)

lemma wrapped_calm:
  assumes "M + 1 < KP_MAX_XLEVEL \<Longrightarrow> calm (M + 1) m" "\<And>x. calm M (k x)"
  shows "calm M (wrapped m k)"
proof (rule calmI)
  fix s :: pstate assume s: "ps_level s = M"
  let ?s = "s\<lparr>ps_level := ps_level s + 1\<rparr>"
  have l: "ps_level ?s = M + 1" using s by simp
  show "wrapped m k s \<noteq> Inl PFuel"
  proof (cases "M + 1 \<ge> KP_MAX_XLEVEL")
    case False
    then have c: "calm (M + 1) m" using assms(1) by simp
    show ?thesis
    proof (cases "m ?s")
      case (Inr p)
      obtain x s1 where p: "p = (x, s1)" by (cases p)
      have "ps_level (s1\<lparr>ps_level := ps_level s1 - 1\<rparr>) = M" using calmD(2) [OF c l] Inr p by simp
      from calmD(1) [OF assms(2) this] show ?thesis using False s Inr p by (simp add: wrapped_run)
    qed (use calmD(1) [OF c l] False s in \<open>simp add: wrapped_run\<close>)
  qed (use s in \<open>simp add: wrapped_run\<close>)
  fix y s' assume r: "wrapped m k s = Inr (y, s')"
  then have F: "\<not> M + 1 \<ge> KP_MAX_XLEVEL" using s by (auto simp: wrapped_run)
  obtain x s1 where x: "m ?s = Inr (x, s1)" "k x (s1\<lparr>ps_level := ps_level s1 - 1\<rparr>) = Inr (y, s')"
    using r F s by (auto simp: wrapped_run split: sum.splits)
  have c: "ps_level s1 = M + 1" "ps_left s1 \<le> ps_left ?s" using calmD(2) [OF assms(1) l x(1)] F by auto
  then have "ps_level (s1\<lparr>ps_level := ps_level s1 - 1\<rparr>) = M" by simp
  from calmD(2) [OF assms(2) this x(2)] c(2) show "ps_level s' = M \<and> ps_left s' \<le> ps_left s" by simp
qed

lemma wrapped_eats:
  assumes "M + 1 < KP_MAX_XLEVEL \<Longrightarrow> eats (M + 1) P anyt m" "M + 1 < KP_MAX_XLEVEL \<Longrightarrow> calm (M + 1) m" "\<And>x. calm M (k x)"
  shows "eats M P R (wrapped m k)"
proof (rule eatsI)
  fix s s' :: pstate and y assume s: "ps_level s = M" "P (tok_of s)" and r: "wrapped m k s = Inr (y, s')"
  let ?s = "s\<lparr>ps_level := ps_level s + 1\<rparr>"
  have l: "ps_level ?s = M + 1" "P (tok_of ?s)" using s by simp_all
  have F: "\<not> M + 1 \<ge> KP_MAX_XLEVEL" using r s by (auto simp: wrapped_run)
  obtain x s1 where x: "m ?s = Inr (x, s1)" "k x (s1\<lparr>ps_level := ps_level s1 - 1\<rparr>) = Inr (y, s')"
    using r F s by (auto simp: wrapped_run split: sum.splits)
  have c: "ps_level s1 = M + 1" "ps_left s1 < ps_left ?s" using calmD(2) [OF assms(2) l(1) x(1)] eatsD [OF assms(1) l x(1)] F by auto
  then have "ps_level (s1\<lparr>ps_level := ps_level s1 - 1\<rparr>) = M" by simp
  from calmD(2) [OF assms(3) this x(2)] c(2) show "ps_left s' < ps_left s" by simp
qed

lemma level_Suc: "M + 1 < KP_MAX_XLEVEL \<Longrightarrow> M < KP_MAX_XLEVEL \<Longrightarrow> unat (M + 1) = Suc (unat M)"
proof -
  assume "M < KP_MAX_XLEVEL"
  then have "unat M < 200" by (simp add: KP_MAX_XLEVEL_def word_less_nat_alt)
  then show ?thesis by (simp add: unat_word_ariths)
qed

text \<open>Labels in a row are nested, too.\<close>

lemma parse_label_ok:
  "M < KP_MAX_XLEVEL \<Longrightarrow> 200 \<le> unat M + n \<Longrightarrow> calm M (parse_label n) \<and> eats M (\<lambda>t. t = TK_label) anyt (parse_label n)"
proof (induction n arbitrary: M)
  case 0
  then show ?case by (simp add: KP_MAX_XLEVEL_def word_less_nat_alt)
next
  case (Suc n)
  have IH: "calm (M + 1) (parse_label n)" "eats (M + 1) (\<lambda>t. t = TK_label) anyt (parse_label n)" if "M + 1 < KP_MAX_XLEVEL"
    using Suc.IH [OF that] level_Suc [OF that Suc.prems(1)] Suc.prems by simp_all
  have w: "pseq synlevel_begin (pseq (parse_label n) (pseq synlevel_end (pret x))) = wrapped (parse_label n) (\<lambda>_. pret x)" for x :: "unit + unit"
    by (simp add: wrapped_def pseq_def)
  have loop: "calm M (label_loop (parse_label n) st)" "eats M anyt isl (label_loop (parse_label n) st)" for st
  proof -
    show "calm M (label_loop (parse_label n) st)"
      unfolding label_loop_def w
      by (intro calm_rules wrapped_calm IH; (assumption | intro quiet_calm quiet_rules))
    show "eats M anyt isl (label_loop (parse_label n) st)"
      unfolding label_loop_def w
      apply (intro eats_tok eats_if)
        apply (simp, rule wrapped_eats [OF IH(2) IH(1)], assumption, assumption)
        apply (intro quiet_calm quiet_rules)
       apply (rule eats_next, simp)
       apply (intro quiet_calm quiet_rules)
      apply simp
      done
  qed
  show ?case
    apply (simp only: parse_label.simps)
    apply (intro conjI)
     apply (intro calm_rules loop; intro quiet_calm quiet_rules)
    apply (rule eats_quiet, rule quiet_rules)
    apply (rule eats_quiet_seq, rule quiet_rules)+
    apply (rule eats_next, simp)
    apply (intro calm_rules loop; intro quiet_calm quiet_rules)
    done
qed

section \<open>Statements\<close>

context nested
begin

lemma parse_return_ok: "calm M (parse_return E)" "eats M (\<lambda>t. t = TK_return) R (parse_return E)"
  unfolding parse_return_def
   apply (intro calm_rules return_ins_calm; intro quiet_calm quiet_rules)
  apply (rule eats_next, simp)
  apply (intro calm_rules return_ins_calm; intro quiet_calm quiet_rules)
  done

lemma parse_while_ok: "calm M (parse_while E C)" "eats M (\<lambda>t. t = TK_while) R (parse_while E C)"
  unfolding parse_while_def
   apply (intro calm_rules expr_cond_calm parse_block_calm; intro quiet_calm quiet_rules mark_target_quiet)
  apply (rule eats_next, simp)
  apply (intro calm_rules expr_cond_calm parse_block_calm; intro quiet_calm quiet_rules mark_target_quiet)
  done

lemma parse_repeat_ok: "calm M (parse_repeat E C l)" "eats M (\<lambda>t. t = TK_repeat) R (parse_repeat E C l)"
  unfolding parse_repeat_def
   apply (intro calm_rules nested_rules expr_cond_calm parse_block_calm; intro quiet_calm quiet_rules mark_target_quiet parse_break_quiet)
  apply (rule eats_quiet, rule mark_target_quiet)
  apply (rule eats_quiet_seq, rule quiet_rules)+
  apply (rule eats_next, simp)
  apply (intro calm_rules nested_rules expr_cond_calm parse_block_calm; intro quiet_calm quiet_rules mark_target_quiet parse_break_quiet)
  done

lemma parse_for_ok: "calm M (parse_for E C l)" "eats M (\<lambda>t. t = TK_for) R (parse_for E C l)"
  unfolding parse_for_def
   apply (intro calm_rules parse_for_num_calm parse_for_iter_calm; intro quiet_calm quiet_rules)
  apply (rule eats_quiet_seq, rule quiet_rules)
  apply (rule eats_next, simp)
  apply (intro calm_rules parse_for_num_calm parse_for_iter_calm; intro quiet_calm quiet_rules)
  done

lemma parse_then_ok: "calm M (parse_then E C)" "eats M (\<lambda>t. t \<noteq> TK_eof) R (parse_then E C)"
  unfolding parse_then_def
   apply (intro calm_rules expr_cond_calm parse_block_calm; intro quiet_calm quiet_rules)
  apply (rule eats_next, simp)
  apply (intro calm_rules expr_cond_calm parse_block_calm; intro quiet_calm quiet_rules)
  done

lemma elseif_loop_ok: "calm M (elseif_loop E C st)" "eats M anyt isl (elseif_loop E C st)"
  unfolding elseif_loop_def
   apply (intro calm_rules parse_then_ok; intro quiet_calm quiet_rules)
  apply (cases st, simp)
  apply (intro eats_tok eats_if)
   apply (rule eats_quiet, rule quiet_rules, rule eats_first)
     apply (rule eats_mono [OF parse_then_ok(2)], simp)
    apply (intro quiet_calm quiet_rules)
   apply (rule parse_then_ok)
  apply simp
  done

lemma parse_if_ok: "calm M (parse_if E C)" "eats M (\<lambda>t. t = TK_if) R (parse_if E C)"
  unfolding parse_if_def
   apply (intro calm_rules parse_then_ok elseif_loop_ok parse_block_calm; intro quiet_calm quiet_rules)
  apply (rule eats_first)
    apply (rule eats_mono [OF parse_then_ok(2)], simp)
   apply (intro calm_rules parse_then_ok elseif_loop_ok parse_block_calm; intro quiet_calm quiet_rules)
  apply (rule parse_then_ok)
  done

lemma probe_quiet: "quiet (probe_func a b)" "quiet (probe_call v l)"
  unfolding probe_func_def probe_call_def Let_def by (intro quiet_rules)+

end

text \<open>Reading the text of a probe takes at least one character.\<close>

lemma read_string_shorter:
  assumes "kp_lex_read_string_until ls c = Inr ls'"
  shows "length (ls_in ls') < length (ls_in ls) \<and> ls_lookahead ls' = ls_lookahead ls \<and> ls_tok ls' = TK_string"
proof -
  have "length (dropWhile (\<lambda>x. x = 32) (ls_in ls)) \<le> length (ls_in ls)" by (rule length_dropWhile_le)
  moreover have "length (dropWhile (\<lambda>x. x \<noteq> c) (tl r)) < length r" if "dropWhile (\<lambda>x. x \<noteq> c) (tl r) \<noteq> []" for r
    using that length_dropWhile_le [of "\<lambda>x. x \<noteq> c" "tl r"] by (cases r) auto
  ultimately show ?thesis using assms
    by (auto simp: kp_lex_read_string_until_def Let_def save_while_def skip_while_def lex_savenext_def lex_save_def lex_next_def
        split: if_splits elim: order_less_le_trans [rotated])
qed

lemma plex_read:
  "calm M (plex (\<lambda>ls. kp_lex_read_string_until ls c))" "eats M (\<lambda>t. t \<noteq> TK_eof) anyt (plex (\<lambda>ls. kp_lex_read_string_until ls c))"
  by (auto simp: calm_def eats_def plex_def ps_left_def Let_def split: sum.splits dest!: read_string_shorter)

lemma read_string_ok: "calm M (p_read_string_until c)" "eats M (\<lambda>t. t \<noteq> TK_eof) R (p_read_string_until c)"
  unfolding p_read_string_until_def
   apply (intro calm_rules plex_read; intro quiet_calm quiet_rules; simp)
  apply (intro eats_first_seq plex_read)
  apply (intro quiet_calm quiet_rules; simp)
  done

context nested
begin

lemma parse_trace_ok: "calm M (parse_trace C)" "eats M (\<lambda>t. t = TK_trace \<or> t = TK_trace_end) R (parse_trace C)"
proof -
  show "calm M (parse_trace C)"
    unfolding parse_trace_def
    by (intro calm_rules nested_rules read_string_ok; intro quiet_calm quiet_rules probe_quiet)
  have r: "eats M (\<lambda>t'. t' \<noteq> TK_eof) anyt (if token = TK_trace then p_read_string_until 123 else p_next)" for token
    by (intro eats_if read_string_ok p_next_eats)
  show "eats M (\<lambda>t. t = TK_trace \<or> t = TK_trace_end) R (parse_trace C)"
    unfolding parse_trace_def
    apply (rule eats_quiet, rule quiet_rules)+
    apply (simp only: split: prod.split)
    apply (intro allI impI)
    apply (rule eats_first_seq)
      apply (rule eats_mono [OF r], force)
     apply (intro calm_rules nested_rules read_string_ok; intro quiet_calm quiet_rules probe_quiet)
    apply (intro calm_rules read_string_ok)
    done
qed

lemma parse_timer_ok: "calm M (parse_timer C)" "eats M (\<lambda>t. t = TK_profile \<or> t = TK_tick) R (parse_timer C)"
  unfolding parse_timer_def
   apply (intro calm_rules nested_rules read_string_ok; intro quiet_calm quiet_rules probe_quiet)
  apply (rule eats_quiet, rule quiet_rules)
  apply (simp only: split: prod.split)
  apply (intro allI impI)
  apply (rule eats_next, force)
  apply (intro calm_rules nested_rules read_string_ok; intro quiet_calm quiet_rules probe_quiet)
  done

lemma parse_stmt_calm: "M < KP_MAX_XLEVEL \<Longrightarrow> calm M (parse_stmt E C)"
  unfolding parse_stmt_def Let_def parse_func_def
  by (intro calm_rules parse_if_ok parse_while_ok parse_for_ok parse_repeat_ok local_func_calm parse_local_calm parse_return_ok
      parse_block_calm parse_trace_ok parse_timer_ok parse_call_assign_ok)
     (simp_all add: quiet_calm quiet_rules parse_break_quiet parse_label_ok KP_MAX_XLEVEL_def)

lemma parse_stmt_eats: "M < KP_MAX_XLEVEL \<Longrightarrow> eats M (\<lambda>t. t \<noteq> TK_eof) R (parse_stmt E C)"
proof -
  assume M: "M < KP_MAX_XLEVEL"
  have lab: "calm M (parse_label (unat KP_MAX_XLEVEL))" "eats M (\<lambda>t. t = TK_label) anyt (parse_label (unat KP_MAX_XLEVEL))"
    using parse_label_ok [OF M, of "unat KP_MAX_XLEVEL"] by (simp_all add: KP_MAX_XLEVEL_def)
  have seq: "eats M P R (pseq m (pret b))" if "calm M m" "eats M Q anyt m" "\<And>t. P t \<Longrightarrow> Q t" for P Q R m and b :: bool
    by (rule eats_first_seq [OF eats_mono [OF that(2)] quiet_calm [OF quiet_basic(1)] that(1)]) (rule that(3))
  have nx: "eats M P R (pseq (pseq p_next k) (pret b))" if "\<And>t. P t \<Longrightarrow> t \<noteq> TK_eof" "calm M k" for P R k and b :: bool
    by (rule seq [OF calm_seq [OF p_next_calm that(2)] eats_next [OF that(1) that(2)]])
  show ?thesis
    unfolding parse_stmt_def Let_def parse_func_def
    apply (rule eats_get)
    apply (simp only: prod.case)
    apply (intro eats_if)
                  apply (rule seq [OF parse_if_ok], simp)
                 apply (rule seq [OF parse_while_ok], simp)
                apply (rule nx, simp, intro calm_rules parse_block_calm)
               apply (rule seq [OF parse_for_ok], simp)
              apply (rule seq [OF parse_repeat_ok], simp)
             apply (rule nx, simp, rule local_func_calm)
            apply (rule nx, simp, rule parse_local_calm)
           apply (rule seq [OF parse_return_ok], simp)
          apply (rule nx, simp, intro quiet_calm parse_break_quiet)
         apply (rule seq [OF p_next_calm p_next_eats], simp)
        apply (rule seq [OF lab], simp)
       apply (rule seq [OF parse_trace_ok], simp)
      apply (rule seq [OF parse_timer_ok], simp)
     apply (rule seq [OF parse_call_assign_ok(1) parse_call_assign_ok(2) [where P = anyt]], simp)
    done
qed

lemma chunk_loop_ok: "M < KP_MAX_XLEVEL \<Longrightarrow> calm M (chunk_loop E C b)" "M < KP_MAX_XLEVEL \<Longrightarrow> eats M anyt isl (chunk_loop E C b)"
proof -
  assume M: "M < KP_MAX_XLEVEL"
  show "calm M (chunk_loop E C b)"
    unfolding chunk_loop_def by (intro calm_rules parse_stmt_calm M; intro quiet_calm quiet_rules)
  show "eats M anyt isl (chunk_loop E C b)"
    unfolding chunk_loop_def
    apply (intro eats_tok eats_if)
     apply (rule eats_first)
       apply (rule eats_mono [OF parse_stmt_eats [OF M]])
       apply (force simp: parse_isend_def)
      apply (intro calm_rules; intro quiet_calm quiet_rules)
     apply (rule parse_stmt_calm [OF M])
    apply simp
    done
qed

end


section \<open>The parser ends\<close>

lemma pbind_assoc: "pbind (pbind m k) l = pbind m (\<lambda>x. pbind (k x) l)"
  by (rule ext) (simp add: pbind_def split: sum.splits prod.splits)

lemma pbind_pret [simp]: "pbind (pret x) k = k x"
  by (rule ext) (simp add: pbind_def pret_def)

lemma pbind_pget [simp]: "pbind (pget f) k s = k (f s) s"
  by (simp add: pbind_def pget_def)

lemma pseq_pmod [simp]: "pseq (pmod g) k s = k (g s)"
  by (simp add: pseq_def pbind_def pmod_def)

lemma expr_binop_wrapped:
  "expr_binop E C limit = wrapped (pbind (expr_unop E C) (\<lambda>v. pbind p_tok (\<lambda>tok. pwhile (binop_loop E limit) (token2binop tok, v)))) pret"
  by (simp add: expr_binop_def wrapped_def case_prod_unfold pbind_assoc)

lemma parse_chunk_wrapped: "parse_chunk E C = wrapped (pwhile (chunk_loop E C) False) pret"
proof -
  have "pseq synlevel_end (pret x) = synlevel_end" for x :: unit
    by (rule ext) (simp add: pseq_def pbind_def synlevel_end_run pret_def)
  then show ?thesis by (simp add: parse_chunk_def wrapped_def pseq_def)
qed

lemma nested_step:
  assumes "M + 1 < KP_MAX_XLEVEL \<Longrightarrow> nested (M + 1) E C"
  shows "nested M (expr_binop E C) (parse_chunk E C)"
proof
  let ?i = "\<lambda>limit. pbind (expr_unop E C) (\<lambda>v. pbind p_tok (\<lambda>tok. pwhile (binop_loop E limit) (token2binop tok, v)))"
  have c: "calm (M + 1) (?i limit)" "eats (M + 1) P R (?i limit)" if "M + 1 < KP_MAX_XLEVEL" for limit P R
    using nested.binop_inside [OF assms [OF that], of _ limit] unfolding calm_def eats_def by (blast intro: less_imp_le)+
  show "calm M (expr_binop E C l)" for l
    unfolding expr_binop_wrapped by (intro wrapped_calm c quiet_calm quiet_rules)
  show "eats M anyt anyt (expr_binop E C l)" for l
    unfolding expr_binop_wrapped by (intro wrapped_eats c quiet_calm quiet_rules)
  show "tok_of s' \<noteq> TK_eof" if s: "ps_level s = M" and r: "expr_binop E C l s = Inr ((op, v), s')" and op: "op \<noteq> OPR_NOBINOPR" for l s op v s'
  proof -
    have F: "M + 1 < KP_MAX_XLEVEL" using r s unfolding expr_binop_wrapped wrapped_run by (auto split: if_splits)
    obtain s1 where s1: "?i l (s\<lparr>ps_level := M + 1\<rparr>) = Inr ((op, v), s1)" "s' = s1\<lparr>ps_level := ps_level s1 - 1\<rparr>"
      using r s F unfolding expr_binop_wrapped wrapped_run by (auto simp: pret_def not_le split: if_splits sum.splits)
    have "tok_of s1 \<noteq> TK_eof"
      using nested.binop_inside [OF assms [OF F], of "s\<lparr>ps_level := M + 1\<rparr>" l] s1(1) op by simp
    then show ?thesis using s1(2) by simp
  qed
  show "calm M (parse_chunk E C)"
    unfolding parse_chunk_wrapped
    by (intro wrapped_calm pwhile_calm nested.chunk_loop_ok assms; (assumption | intro quiet_calm quiet_rules))
qed

lemma rec_Suc: "expr_rec (Suc n) = expr_binop (expr_rec n) (chunk_rec n)" "chunk_rec (Suc n) = parse_chunk (expr_rec n) (chunk_rec n)"
  by (intro ext; simp)+

lemma nested_rec: "M < KP_MAX_XLEVEL \<Longrightarrow> 200 \<le> unat M + n \<Longrightarrow> nested M (expr_rec n) (chunk_rec n)"
proof (induction n arbitrary: M)
  case 0
  then show ?case by (simp add: KP_MAX_XLEVEL_def word_less_nat_alt)
next
  case (Suc n)
  show ?case unfolding rec_Suc
  proof (rule nested_step)
    assume "M + 1 < KP_MAX_XLEVEL"
    then show "nested (M + 1) (expr_rec n) (chunk_rec n)"
      using Suc.IH level_Suc [OF _ Suc.prems(1)] Suc.prems by simp
  qed
qed

text \<open>The nesting of the main chunk.\<close>

interpretation main: nested 0 "expr_rec 200" "chunk_rec 200"
  by (rule nested_rec) (simp_all add: KP_MAX_XLEVEL_def)

lemma pseq_InrE:
  assumes "pseq m k s = Inr r"
  obtains s1 where "k s1 = Inr r"
  using assms by (auto simp: pseq_def pbind_def split: sum.splits prod.splits)

lemma quiet_finish: "quiet (fs_finish line)"
  by (intro quiet_rules)

lemma eof_finish:
  assumes "pbind p_tok (\<lambda>tok. if tok \<noteq> TK_eof then err_token TK_eof else pbind p_line fs_finish) s = Inr (pt, s')"
  shows "tok_of s' = TK_eof \<and> ps_left s' = ps_left s"
proof -
  have "tok_of s = TK_eof" "fs_finish (ls_line (ps_ls s)) s = Inr (pt, s')"
    using assms by (auto simp: err_token_def err_text_def pfail_def split: if_splits)
  then show ?thesis using quiet_finish [of "ls_line (ps_ls s)"] unfolding quiet_def by metis
qed

text \<open>C3: The recursive descent ends: on every text, and in whatever state the compiler is, \<^verbatim>\<open>kp_parse\<close> never nests deeper than the 200 levels that
  \<^verbatim>\<open>synlevel_begin\<close> allows, and none of its loops over tokens takes more rounds than there is text left (\<open>PFuel\<close> is no outcome).  When it
  returns a prototype it has closed every level and consumed the text up to its end.  The other outcomes are not excluded: a reported error,
  a fault such as the one of a trace without end, and \<open>PLoop\<close>, a walk along a cyclic jump list in the code generator.\<close>

theorem parse_descent_ends:
  "case kp_parse chunkarg s of Inl stop \<Rightarrow> stop \<noteq> PFuel | Inr (pt, s') \<Rightarrow> ps_level s' = 0 \<and> tok_of s' = TK_eof"
proof -
  let ?e = "pbind p_tok (\<lambda>tok. if tok \<noteq> TK_eof then err_token TK_eof else pbind p_line fs_finish)"
  let ?m = "pseq (fs_init 0) (pseq (set_fs (\<lambda>f. f\<lparr>pf_flags := PROTO_VARARG\<rparr>)) (pseq (fscope_begin 0) (pseq (gen (bcemit_AD BC_FUNCV 0 0))
     (pseq p_next (pseq (chunk_rec (unat KP_MAX_XLEVEL)) ?e)))))"
  have u: "unat KP_MAX_XLEVEL = 200" by (simp add: KP_MAX_XLEVEL_def)
  have c: "calm 0 ?m" unfolding u
    by (intro calm_rules main.C_calm; intro quiet_calm quiet_rules)
  have eof: "tok_of s' = TK_eof" if "?m s0 = Inr (pt, s')" for s0 pt s'
    using that eof_finish by (elim pseq_InrE) blast
  show ?thesis
  proof (cases "ukp_str_new (pe_str (ps_env s)) (ps_strs s) chunkarg")
    case None
    then show ?thesis by (simp add: kp_parse_def pbind_def pget_def pthe_def pfail_def)
  next
    case (Some p)
    obtain a strs where p: "p = (a, strs)" by (cases p)
    let ?s = "s\<lparr>ps_strs := strs, ps_ls := (ps_ls s)\<lparr>ls_chunkname := chunkarg\<rparr>, ps_level := 0\<rparr>"
    have "kp_parse chunkarg s = ?m ?s"
      using Some p unfolding kp_parse_def by (simp add: pthe_def)
    then show ?thesis using calmD [OF c, of ?s] eof [of ?s] by (cases "?m ?s") auto
  qed
qed

end
