(* ===== verification/Ktap_Parse_Arith.thy ===== *)
theory Ktap_Parse_Arith
  imports Ktap_Parse_Ends
begin

text \<open>
  Arithmetic expressions: their values, their text with the parentheses that precedence and association ask for, and that the
  precedence climbing of \<^verbatim>\<open>expr_binop\<close> reads the text back and folds it into one constant.
\<close>

section \<open>Arithmetic expressions and their text\<close>

datatype arith = Lit u64 | Neg arith | Bin BinOpr arith arith

definition in_long :: "int \<Rightarrow> int option" where
  "in_long z = (if - (2 ^ 63) \<le> z \<and> z < 2 ^ 63 then Some z else None)"

text \<open>The value of an expression: every intermediate result has to fit into 64 bits; zero is not negated.\<close>

fun arith_val :: "arith \<Rightarrow> int option" where
  "arith_val (Lit n) = Some (sint n)"
| "arith_val (Neg a) = Option.bind (arith_val a) (\<lambda>x. if x = 0 then None else in_long (- x))"
| "arith_val (Bin op a b) =
     Option.bind (arith_val a) (\<lambda>x. Option.bind (arith_val b) (\<lambda>y.
       case op of OPR_ADD \<Rightarrow> in_long (x + y) | OPR_SUB \<Rightarrow> in_long (x - y) | OPR_MUL \<Rightarrow> in_long (x * y)
       | OPR_DIV \<Rightarrow> if y = 0 then None else in_long (x sdiv y) | _ \<Rightarrow> None))"

definition arith_prec :: "BinOpr \<Rightarrow> u32" where
  "arith_prec op = (if op = OPR_ADD \<or> op = OPR_SUB then 6 else 7)"

fun op_token :: "BinOpr \<Rightarrow> token" where
  "op_token OPR_ADD = Op [43] 43" | "op_token OPR_SUB = Op [45] 45" | "op_token OPR_MUL = Op [42] 42"
| "op_token _ = Op [47] 47"

text \<open>Parentheses only where the precedence or the association to the left asks for them: an operation within a context
  of at least its precedence.\<close>

fun arith_toks :: "u32 \<Rightarrow> arith \<Rightarrow> token list" where
  "arith_toks lim (Lit n) = [Number n]"
| "arith_toks lim (Neg a) = Op [45] 45 # arith_toks 8 a"
| "arith_toks lim (Bin op a b) =
     (let body = arith_toks (arith_prec op - 1) a @ op_token op # arith_toks (arith_prec op) b in
      if lim < arith_prec op then body else Op [40] 40 # body @ [Op [41] 41])"

fun arith_depth :: "arith \<Rightarrow> nat" where
  "arith_depth (Lit n) = 1"
| "arith_depth (Neg a) = arith_depth a + 2"
| "arith_depth (Bin op a b) = max (arith_depth a) (arith_depth b) + 2"

fun plain_token :: "token \<Rightarrow> bool" where
  "plain_token (Number n) = True"
| "plain_token (Op w k) = ((w, k) \<in> set operators)"
| "plain_token _ = False"

lemma plain_ok: "plain_token t \<Longrightarrow> token_ok t"
  by (cases t) auto

section \<open>The parser before a sequence of tokens\<close>

text \<open>The current token is the first one, the text has the others.\<close>

definition looking :: "pstate \<Rightarrow> token list \<Rightarrow> bool" where
  "looking s ts \<longleftrightarrow> ls_lookahead (ps_ls s) = TK_eof \<and>
     (case ts of [] \<Rightarrow> tok_of s = TK_eof \<and> ls_in (ps_ls s) = []
      | t # ts \<Rightarrow> tok_of s = fst (token_code t) \<and> (\<forall>n. t = Number n \<longrightarrow> ps_tokval s = set_number n) \<and> ls_in (ps_ls s) = print_tokens ts)"

text \<open>Nothing but the lexer and the copies of shared fields have changed.\<close>

definition kept :: "pstate \<Rightarrow> pstate \<Rightarrow> bool" where
  "kept s s' \<longleftrightarrow> (\<exists>f rest ls tv a b c. ps_fs s = f # rest \<and>
     s' = s\<lparr>ps_ls := ls, ps_tokval := tv, ps_fs := f\<lparr>pf_fs := (pf_fs f)\<lparr>fs_sizebc := a, fs_lastline := b, fs_vinfo := c\<rparr>\<rparr> # rest\<rparr>)"

lemma keptI: "ps_fs s = f # rest \<Longrightarrow>
   s' = s\<lparr>ps_ls := ls, ps_tokval := tv, ps_fs := f\<lparr>pf_fs := (pf_fs f)\<lparr>fs_sizebc := a, fs_lastline := b, fs_vinfo := c\<rparr>\<rparr> # rest\<rparr> \<Longrightarrow> kept s s'"
  unfolding kept_def by blast

lemma keptE:
  assumes "kept s s'"
  obtains f rest ls tv a b c where "ps_fs s = f # rest"
    "s' = s\<lparr>ps_ls := ls, ps_tokval := tv, ps_fs := f\<lparr>pf_fs := (pf_fs f)\<lparr>fs_sizebc := a, fs_lastline := b, fs_vinfo := c\<rparr>\<rparr> # rest\<rparr>"
  using assms unfolding kept_def by blast

lemma kept_lex: "ps_fs s \<noteq> [] \<Longrightarrow> kept s (s\<lparr>ps_ls := ls, ps_tokval := tv\<rparr>)"
proof -
  assume "ps_fs s \<noteq> []"
  then obtain f rest where f: "ps_fs s = f # rest" by (cases "ps_fs s") auto
  show ?thesis
    by (rule keptI [OF f, where ls = ls and tv = tv and a = "fs_sizebc (pf_fs f)" and b = "fs_lastline (pf_fs f)" and c = "fs_vinfo (pf_fs f)"])
      (simp add: f flip: f)
qed

lemma kept_trans: "kept s s1 \<Longrightarrow> kept s1 s2 \<Longrightarrow> kept s s2"
  by (elim keptE) (auto intro!: keptI)

lemma kept_fs: "kept s s' \<Longrightarrow> ps_fs s' \<noteq> [] \<and> ps_fs s \<noteq> [] \<and> ps_level s' = ps_level s"
  by (auto simp: kept_def)

lemma looking_updates [simp]: "looking (s\<lparr>ps_level := l\<rparr>) ts = looking s ts" "looking (s\<lparr>ps_fs := fs\<rparr>) ts = looking s ts"
  by (simp_all add: looking_def cong: list.case_cong)

lemma kept_level: "kept (s\<lparr>ps_level := l\<rparr>) s' \<Longrightarrow> kept s (s'\<lparr>ps_level := ps_level s\<rparr>)"
  by (elim keptE) (auto intro!: keptI)

lemma scan_eof: "ls_in ls = [] \<Longrightarrow> ls_lookahead ls = TK_eof \<Longrightarrow>
   \<exists>ls1. kp_lex_next ls = Inr ls1 \<and> ls_in ls1 = [] \<and> ls_lookahead ls1 = TK_eof \<and> ls_tok ls1 = TK_eof"
proof -
  assume a: "ls_in ls = []" "ls_lookahead ls = TK_eof"
  then have "lex_c ls = -1" by (simp add: lex_c_def)
  then have "scan_loop (lex_reset (ls\<lparr>ls_lastline := ls_line ls\<rparr>)) tv = Inr (TK_eof, tv, lex_reset (ls\<lparr>ls_lastline := ls_line ls\<rparr>))" for tv
    by (subst scan_symbol [where k = "-1"]) (auto simp: lex_c_def lex_symbol_def kp_char_isa_eq)
  then show ?thesis using a by (simp add: kp_lex_next_def lex_scan_def)
qed

lemma operators_plain: "(w, k) \<in> set operators \<Longrightarrow>
   k \<noteq> TK_name \<and> k \<noteq> TK_string \<and> k \<noteq> TK_number \<and> (TK_OFS < k \<and> k \<le> TK_OFS + int TK_RESERVED \<longrightarrow> k = TK_incr \<or> k = TK_and \<or> k = TK_not \<or> k = TK_or)"
  by (auto simp: operators_def )

lemma p_next_looking:
  assumes "looking s (t # ts)" "ps_fs s \<noteq> []" "ts = [] \<or> plain_token (hd ts)"
  shows "\<exists>s'. p_next s = Inr ((), s') \<and> looking s' ts \<and> kept s s'"
proof -
  have la: "ls_lookahead (ps_ls s) = TK_eof" and inp: "ls_in (ps_ls s) = print_tokens ts" using assms(1) by (auto simp: looking_def)
  note upd = kept_lex [OF assms(2)]
  show ?thesis
  proof (cases ts)
    case Nil
    then obtain ls1 where ls1: "kp_lex_next (ps_ls s) = Inr ls1" "ls_in ls1 = []" "ls_lookahead ls1 = TK_eof" "ls_tok ls1 = TK_eof"
      using scan_eof [OF _ la] inp by (auto simp: print_tokens_def)
    have "p_next s = Inr ((), s\<lparr>ps_ls := ls1, ps_tokval := ps_tokval s\<rparr>)"
      using la ls1 by (simp add: p_next_def pseq_def pbind_def pget_def plex_def scanned_def pret_def pmod_def )
    then show ?thesis using upd [where ls = ls1 and tv = "ps_tokval s"] ls1 Nil by (auto simp: looking_def)
  next
    case (Cons u us)
    then have u: "plain_token u" using assms(3) by simp
    have "ls_in (ps_ls s) = 32 # token_text u @ print_tokens us" using inp Cons by (simp add: print_tokens_def)
    from next_token [OF plain_ok [OF u] print_tokens_ends this la]
    obtain ls1 where ls1: "kp_lex_next (ps_ls s) = Inr ls1" "ls_in ls1 = print_tokens us" "ls_lookahead ls1 = TK_eof"
      "token_seen u (ls_tok ls1, ls_tokval ls1)" by blast
    obtain tv where tv: "p_next s = Inr ((), s\<lparr>ps_ls := ls1, ps_tokval := tv\<rparr>)" "\<forall>n. u = Number n \<longrightarrow> tv = set_number n"
    proof (cases u)
      case (Number n)
      then have "p_next s = Inr ((), s\<lparr>ps_ls := ls1, ps_tokval := set_number n\<rparr>)"
        using la ls1 by (simp add: p_next_def pseq_def pbind_def pget_def plex_def scanned_def pret_def pmod_def  token_seen_def)
      then show ?thesis using that Number by simp
    next
      case (Op w k)
      then have "p_next s = Inr ((), s\<lparr>ps_ls := ls1, ps_tokval := ps_tokval s\<rparr>)"
        using la ls1 u operators_plain [of w k]
        by (auto simp: p_next_def pseq_def pbind_def pget_def plex_def scanned_def pret_def pmod_def token_seen_def)
      then show ?thesis using that [of "ps_tokval s"] Op by simp
    qed (use u in auto)
    then show ?thesis using upd ls1 Cons by (auto simp: looking_def token_seen_def)
  qed
qed

lemma gen_pure:
  assumes "ps_fs s \<noteq> []" "\<And>fs. m fs = Inr (x, fs)"
  shows "\<exists>s'. gen m s = Inr (x, s') \<and> kept s s' \<and> (\<forall>ts. looking s ts \<longrightarrow> looking s' ts)"
proof -
  obtain f rest where f: "ps_fs s = f # rest" using assms(1) by (cases "ps_fs s") auto
  have v: "map2 (\<lambda>v i. v\<lparr>vi_info := i\<rparr>) vs (map vi_info vs) = vs" for vs :: "var_info list"
    by (induction vs) auto
  have "gen m s = Inr (x, s\<lparr>ps_fs := f\<lparr>pf_fs := share s f\<rparr> # rest\<rparr>)"
    using f assms(2) by (simp add: gen_def share_def v)
  moreover have "kept s (s\<lparr>ps_fs := f\<lparr>pf_fs := share s f\<rparr> # rest\<rparr>)"
    by (rule keptI [OF f, where ls = "ps_ls s" and tv = "ps_tokval s" and a = "ps_sizebc s" and b = "ls_lastline (ps_ls s)" and c = "map vi_info (ps_vstack s)"]) (simp add: share_def)
  ultimately show ?thesis by auto
qed

section \<open>Numbers fold\<close>

definition is_num :: "int \<Rightarrow> ExpDesc \<Rightarrow> bool" where
  "is_num z v \<longleftrightarrow> e_k v = VKNUM \<and> e_t v = NO_JMP \<and> e_f v = NO_JMP \<and> e_nval v = set_number (word_of_int z)"

lemma in_long_Some: "in_long z = Some y \<longleftrightarrow> y = z \<and> - (2 ^ 63) \<le> z \<and> z < 2 ^ 63"
  by (auto simp: in_long_def)

lemma arith_val_range: "arith_val e = Some z \<Longrightarrow> - (2 ^ 63) \<le> z \<and> z < 2 ^ 63"
proof (cases e)
  case (Lit n)
  assume "arith_val e = Some z"
  then show ?thesis using Lit sint_range_size [of n] by (auto simp: size_word_def)
qed (auto simp: in_long_Some split: Option.bind_splits if_splits BinOpr.splits)

lemma sint_long: "- (2 ^ 63) \<le> z \<Longrightarrow> z < 2 ^ 63 \<Longrightarrow> sint (word_of_int z :: u64) = z"
  by (simp add: signed_of_int signed_take_bit_int_eq_self)

lemma num_discharge: "is_num z v \<Longrightarrow> expr_discharge v fs = Inr (v, fs)"
  by (simp add: is_num_def expr_discharge_def cret_def)

lemma num_nojump: "is_num z v \<Longrightarrow> expr_isnumk_nojump v"
  by (simp add: is_num_def expr_isnumk_nojump_def expr_isnumk_def expr_hasjump_def)

lemma num_value: "is_num z v \<Longrightarrow> expr_numberV v = word_of_int z"
  by (simp add: is_num_def expr_numberV_def set_number_def)

lemma num_left: "is_num z v \<Longrightarrow> op \<in> {OPR_ADD, OPR_SUB, OPR_MUL, OPR_DIV} \<Longrightarrow> bcemit_binop_left op v fs = Inr (v, fs)"
  using num_nojump [of z v] by (auto simp: bcemit_binop_left_def cret_def)

lemma num_neg:
  assumes "is_num x v" "- (2 ^ 63) \<le> x" "x < 2 ^ 63" "x \<noteq> 0" "in_long (- x) = Some z"
  shows "\<exists>w. is_num z w \<and> (\<forall>fs. bcemit_unop BC_UNM v fs = Inr (w, fs))"
proof -
  have s: "sint (word_of_int x :: u64) = x" using sint_long assms by blast
  have nz: "expr_numberV v \<noteq> 0"
    using num_value [OF assms(1)] s assms(4) by (metis signed_0)
  have f: "long_fits (- sint (expr_numberV v)) = Some (word_of_int z)"
    using assms(5) s num_value [OF assms(1)] by (auto simp: long_fits_def in_long_Some)
  have "is_number (e_nval v)" using assms(1) by (simp add: is_num_def set_number_def is_number_def)
  then have "bcemit_unop BC_UNM v fs = Inr (v\<lparr>e_nval := set_number (word_of_int z)\<rparr>, fs)" for fs
    using assms(1) nz f by (simp add: bcemit_unop_def is_num_def expr_hasjump_def expr_isnumk_def expr_numiszero_def cret_def)
  then show ?thesis using assms(1) by (auto simp: is_num_def)
qed

lemma num_fold:
  assumes "is_num x v" "is_num y w" "arith_val (Bin op (Lit (word_of_int x)) (Lit (word_of_int y))) = Some z"
    "- (2 ^ 63) \<le> x" "x < 2 ^ 63" "- (2 ^ 63) \<le> y" "y < 2 ^ 63"
  shows "\<exists>u. is_num z u \<and> (\<forall>fs. bcemit_binop op v w fs = Inr (u, fs))"
proof -
  have s: "sint (word_of_int x :: u64) = x" "sint (word_of_int y :: u64) = y" using sint_long assms by blast+
  have op: "op \<in> {OPR_ADD, OPR_SUB, OPR_MUL, OPR_DIV}" using assms(3) by (cases op) auto
  have y0: "op = OPR_DIV \<Longrightarrow> (word_of_int y :: u64) \<noteq> 0"
    using assms(3) s by (auto split: if_splits)
  have nv: "expr_numberV v = word_of_int x" "expr_numberV w = word_of_int y" using num_value assms(1,2) by blast+
  have f: "number_foldarith (word_of_int x) (word_of_int y) (opr_ord op) = Some (word_of_int z)"
    using assms(3) op s
    by (elim insertE emptyE; simp only: arith_val.simps bind.simps BinOpr.case opr_ord.simps number_foldarith_def)
       (auto simp: long_fits_def in_long_Some split: if_splits)
  have fo: "foldarith op v w fs = Inr (Some (v\<lparr>e_nval := set_number (word_of_int z)\<rparr>), fs)" for fs
    using op num_nojump [OF assms(1)] num_nojump [OF assms(2)] y0 nv f
    by (auto simp: foldarith_def cret_def)
  have o: "opr_ord op \<le> opr_ord OPR_POW" using op by auto
  have "bcemit_binop op v w fs = Inr (v\<lparr>e_nval := set_number (word_of_int z)\<rparr>, fs)" for fs
    using fo o by (simp add: bcemit_binop_def bcemit_arith_def cbind_def cret_def)
  then show ?thesis using assms(1) by (auto simp: is_num_def)
qed

section \<open>Rounds of the operator loop\<close>

inductive rounds :: "exprs \<Rightarrow> u32 \<Rightarrow> nat \<Rightarrow> BinOpr \<times> ExpDesc \<Rightarrow> pstate \<Rightarrow> BinOpr \<times> ExpDesc \<Rightarrow> pstate \<Rightarrow> bool"
  for E lim where
  none: "rounds E lim 0 st s st s"
| more: "binop_loop E lim st s = Inr (Inl st1, s1) \<Longrightarrow> rounds E lim k st1 s1 st2 s2 \<Longrightarrow> rounds E lim (Suc k) st s st2 s2"

lemma rounds_last: "rounds E lim k st s st1 s1 \<Longrightarrow> binop_loop E lim st1 s1 = Inr (Inl st2, s2) \<Longrightarrow> rounds E lim (Suc k) st s st2 s2"
  by (induction rule: rounds.induct) (auto intro: rounds.intros)

lemma rounds_mono:
  assumes "lim' \<le> lim"
  shows "rounds E lim k st s st1 s1 \<Longrightarrow> rounds E lim' k st s st1 s1"
proof (induction rule: rounds.induct)
  case (more st s st1 s1 k st2 s2)
  have "binop_loop E lim' st s = binop_loop E lim st s"
    using more.hyps(1) assms by (auto simp: binop_loop_def pret_def split: prod.splits if_splits)
  then show ?case using more by (auto intro: rounds.intros)
qed (rule rounds.none)

lemma rounds_ploop:
  "rounds E lim k st s st1 s1 \<Longrightarrow> binop_loop E lim st1 s1 = Inr (Inr r, s1) \<Longrightarrow> k < n \<Longrightarrow> ploop n (binop_loop E lim) st s = Inr (r, s1)"
proof (induction arbitrary: n rule: rounds.induct)
  case (none st s)
  then show ?case by (cases n) (auto simp: pbind_def pret_def)
next
  case (more st s st1 s1 k st2 s2)
  then show ?case by (cases n) (auto simp: pbind_def)
qed

section \<open>Parsing climbs the precedences\<close>

fun next_prio :: "token list \<Rightarrow> u32" where
  "next_prio (Op w k # ts) = fst (priority (token2binop k))"
| "next_prio _ = 0"

fun follows :: "token list \<Rightarrow> bool" where
  "follows [] = True"
| "follows (Op w k # ts) = ((w, k) \<in> set operators \<and> k \<notin> {46, 91, 58, 40, 123})"
| "follows _ = False"

fun follow_prio :: "u32 \<Rightarrow> arith \<Rightarrow> u32" where
  "follow_prio lim (Bin op a b) = (if lim < arith_prec op then arith_prec op else 10)"
| "follow_prio lim _ = 8"

fun left_of :: "token list \<Rightarrow> nat" where
  "left_of [] = 0"
| "left_of (t # ts) = Suc (length (print_tokens ts))"

lemma print_tokens_Cons: "print_tokens (t # ts) = 32 # token_text t @ print_tokens ts"
  by (simp add: print_tokens_def)

lemma print_tokens_append: "print_tokens (ts @ us) = print_tokens ts @ print_tokens us"
  by (simp add: print_tokens_def)

lemma left_of_less: "left_of us < left_of (t # ts @ us)"
  by (cases us) (simp_all add: print_tokens_append print_tokens_Cons)

lemma follows_plain: "follows ts \<Longrightarrow> ts = [] \<or> plain_token (hd ts)"
  by (cases ts rule: follows.cases) auto

lemma plain_code: "plain_token t \<Longrightarrow> fst (token_code t) \<noteq> TK_eof"
  by (cases t) (auto simp: operators_def)

lemma looking_left: "looking s ts \<Longrightarrow> ts = [] \<or> plain_token (hd ts) \<Longrightarrow> ps_left s = left_of ts"
  using plain_code by (cases ts) (auto simp: looking_def ps_left_def Let_def)

lemma looking_op: "looking s (Op w k # ts) \<Longrightarrow> tok_of s = k"
  by (simp add: looking_def)

lemma looking_prio: "looking s ts \<Longrightarrow> follows ts \<Longrightarrow> next_prio ts = fst (priority (token2binop (tok_of s)))"
  by (cases ts rule: follows.cases) (auto simp: looking_def token2binop_def)

lemma arith_toks_nonempty: "arith_toks lim e \<noteq> []"
  by (cases e) (auto simp: Let_def)

lemma arith_toks_plain: "arith_toks lim e = t # ts \<Longrightarrow> plain_token t"
proof (induction e arbitrary: lim t ts)
  case (Bin op a b)
  then show ?case using arith_toks_nonempty [of "arith_prec op - 1" a]
    by (cases "arith_toks (arith_prec op - 1) a") (auto simp: Let_def operators_def split: if_splits)
qed (auto simp: operators_def)

lemma arith_first: "fst (token_code (hd (arith_toks lim e))) \<in> {TK_number, 40, 45}"
proof (induction e arbitrary: lim)
  case (Bin op a b)
  then show ?case using arith_toks_nonempty [of "arith_prec op - 1" a] by (auto simp: Let_def)
qed auto

lemma arith_hd: "plain_token (hd (arith_toks lim e @ rest))"
  using arith_toks_plain [of lim e] arith_toks_nonempty [of lim e] by (cases "arith_toks lim e") auto

lemma op_token_code: "op \<in> {OPR_ADD, OPR_SUB, OPR_MUL, OPR_DIV} \<Longrightarrow> token2binop (fst (token_code (op_token op))) = op"
  by (auto simp: token2binop_def)

lemma op_token_follows: "follows (op_token op # ts)"
  by (cases op) (auto simp: operators_def)

lemma op_prio: "op \<in> {OPR_ADD, OPR_SUB, OPR_MUL, OPR_DIV} \<Longrightarrow> priority op = (arith_prec op, arith_prec op)"
  by (auto simp: arith_prec_def)

definition climbed :: "exprs \<Rightarrow> unit parse \<Rightarrow> u32 \<Rightarrow> token list \<Rightarrow> int \<Rightarrow> pstate \<Rightarrow> bool" where
  "climbed E C lim rest z s \<longleftrightarrow> (\<exists>v0 s0 v s' k. expr_unop E C s = Inr (v0, s0) \<and>
     rounds E lim k (token2binop (tok_of s0), v0) s0 (token2binop (tok_of s'), v) s' \<and> k + left_of rest \<le> ps_left s0 \<and>
     is_num z v \<and> looking s' rest \<and> kept s s')"

definition parsed :: "(BinOpr \<times> ExpDesc) parse \<Rightarrow> token list \<Rightarrow> int \<Rightarrow> pstate \<Rightarrow> bool" where
  "parsed m rest z s \<longleftrightarrow> (\<exists>v s'. m s = Inr ((token2binop (tok_of s'), v), s') \<and> is_num z v \<and> looking s' rest \<and> kept s s')"

lemma climbed_parsed:
  assumes "climbed (expr_rec n) (chunk_rec n) lim rest z (s\<lparr>ps_level := ps_level s + 1\<rparr>)" "unat (ps_level s) + 1 < 200"
    "follows rest" "next_prio rest \<le> lim"
  shows "parsed (expr_rec (Suc n) lim) rest z s"
proof -
  let ?E = "expr_rec n" and ?s = "s\<lparr>ps_level := ps_level s + 1\<rparr>"
  obtain v0 s0 v s' k where c: "expr_unop ?E (chunk_rec n) ?s = Inr (v0, s0)"
    "rounds ?E lim k (token2binop (tok_of s0), v0) s0 (token2binop (tok_of s'), v) s'" "k + left_of rest \<le> ps_left s0"
    "is_num z v" "looking s' rest" "kept ?s s'" using assms(1) unfolding climbed_def by blast
  have lev: "\<not> ps_level s + 1 \<ge> KP_MAX_XLEVEL"
    using assms(2) by (simp add: KP_MAX_XLEVEL_def word_le_nat_alt unat_word_ariths)
  have "\<not> fst (priority (token2binop (tok_of s'))) > lim" using looking_prio [OF c(5) assms(3)] assms(4) by simp
  then have "binop_loop ?E lim (token2binop (tok_of s'), v) s' = Inr (Inr (token2binop (tok_of s'), v), s')"
    by (simp add: binop_loop_def pret_def)
  from rounds_ploop [OF c(2) this, of "Suc (ps_left s0)"] c(3)
  have "pwhile (binop_loop ?E lim) (token2binop (tok_of s0), v0) s0 = Inr ((token2binop (tok_of s'), v), s')"
    by (simp add: pwhile_run)
  then have "expr_rec (Suc n) lim s = Inr ((token2binop (tok_of s'), v), s'\<lparr>ps_level := ps_level s' - 1\<rparr>)"
    using c(1) lev unfolding rec_Suc expr_binop_wrapped wrapped_run by (simp add: pbind_def pget_def pret_def)
  moreover have "ps_level s' - 1 = ps_level s" using kept_fs [OF c(6)] by simp
  ultimately show ?thesis using c(4,5) kept_level [OF c(6)] unfolding parsed_def by auto
qed

lemma simple_tokens: "tok \<notin> {TK_not, c_minus} \<Longrightarrow> tok_of s = tok \<Longrightarrow> expr_unop E C s = expr_simple E C s"
  by (simp add: expr_unop_def pbind_def pget_def)

lemma climb_lit:
  assumes "looking s (Number n # rest)" "follows rest" "ps_fs s \<noteq> []"
  shows "climbed E C lim rest (sint n) s"
proof -
  obtain s' where s': "p_next s = Inr ((), s')" "looking s' rest" "kept s s'"
    using p_next_looking [OF assms(1,3) follows_plain [OF assms(2)]] by blast
  have t: "tok_of s = TK_number" "ps_tokval s = set_number n" using assms(1) by (auto simp: looking_def)
  have "expr_unop E C s = Inr ((expr_init no_expr VKNUM 0)\<lparr>e_nval := set_number n\<rparr>, s')"
    using t s'(1) by (simp add: expr_unop_def expr_simple_def pbind_def pget_def pseq_def pret_def Let_def)
  moreover have "is_num (sint n) ((expr_init no_expr VKNUM 0)\<lparr>e_nval := set_number n\<rparr>)"
    by (simp add: is_num_def expr_init_def)
  moreover have "0 + left_of rest \<le> ps_left s'" using looking_left [OF s'(2) follows_plain [OF assms(2)]] by simp
  ultimately show ?thesis using s'(2,3) rounds.none unfolding climbed_def by blast
qed

lemma climb_neg:
  assumes "looking s (Op [45] 45 # ts)" "ts \<noteq> []" "plain_token (hd ts)" "ps_fs s \<noteq> []" "follows rest"
    "\<And>s. looking s ts \<Longrightarrow> ps_fs s \<noteq> [] \<Longrightarrow> ps_level s = l \<Longrightarrow> parsed (E 8) rest x s" "ps_level s = l"
    "- (2 ^ 63) \<le> x" "x < 2 ^ 63" "x \<noteq> 0" "in_long (- x) = Some z"
  shows "climbed E C lim rest z s"
proof -
  obtain s1 where s1: "p_next s = Inr ((), s1)" "looking s1 ts" "kept s s1"
    using p_next_looking [OF assms(1,4)] assms(3) by blast
  have l1: "ps_fs s1 \<noteq> []" "ps_level s1 = l" using kept_fs [OF s1(3)] assms(7) by auto
  obtain v s2 where s2: "E 8 s1 = Inr ((token2binop (tok_of s2), v), s2)" "is_num x v" "looking s2 rest" "kept s1 s2"
    using assms(6) [OF s1(2) l1] unfolding parsed_def by blast
  obtain w where w: "is_num z w" "\<And>fs. bcemit_unop BC_UNM v fs = Inr (w, fs)"
    using num_neg [OF s2(2) assms(8-11)] by blast
  obtain s3 where s3: "gen (bcemit_unop BC_UNM v) s2 = Inr (w, s3)" "kept s2 s3" "looking s3 rest"
    using gen_pure [of s2 "bcemit_unop BC_UNM v" w] w(2) kept_fs [OF s2(4)] s2(3) by blast
  have "expr_unop E C s = Inr (w, s3)"
    using looking_op [OF assms(1)] s1(1) s2(1) s3(1) by (simp add: expr_unop_def pbind_def pget_def pseq_def)
  moreover have "0 + left_of rest \<le> ps_left s3" using looking_left [OF s3(3) follows_plain [OF assms(5)]] by simp
  moreover have "kept s s3" using kept_trans s1(3) s2(4) s3(2) by blast
  ultimately show ?thesis using w(1) s3(3) rounds.none unfolding climbed_def by blast
qed

lemma climb_bin:
  assumes "climbed E C (arith_prec op - 1) (op_token op # ts) x s" "op \<in> {OPR_ADD, OPR_SUB, OPR_MUL, OPR_DIV}" "lim < arith_prec op"
    "ts \<noteq> []" "plain_token (hd ts)" "ts = us @ rest" "follows rest"
    "\<And>s. looking s ts \<Longrightarrow> ps_fs s \<noteq> [] \<Longrightarrow> ps_level s = l \<Longrightarrow> parsed (E (arith_prec op)) rest y s" "ps_level s = l"
    "- (2 ^ 63) \<le> x" "x < 2 ^ 63" "- (2 ^ 63) \<le> y" "y < 2 ^ 63" "arith_val (Bin op (Lit (word_of_int x)) (Lit (word_of_int y))) = Some z"
  shows "climbed E C lim rest z s"
proof -
  obtain v0 s0 v s1 k where c: "expr_unop E C s = Inr (v0, s0)"
    "rounds E (arith_prec op - 1) k (token2binop (tok_of s0), v0) s0 (token2binop (tok_of s1), v) s1" "k + left_of (op_token op # ts) \<le> ps_left s0"
    "is_num x v" "looking s1 (op_token op # ts)" "kept s s1" using assms(1) unfolding climbed_def by blast
  have tok: "token2binop (tok_of s1) = op" using op_token_code [OF assms(2)] c(5) by (simp add: looking_def)
  have "lim \<le> arith_prec op - 1" using assms(3) by (simp add: arith_prec_def word_le_nat_alt word_less_nat_alt split: if_splits)
  from rounds_mono [OF this c(2)] have r: "rounds E lim k (token2binop (tok_of s0), v0) s0 (op, v) s1" using tok by simp
  obtain s2 where s2: "p_next s1 = Inr ((), s2)" "looking s2 ts" "kept s1 s2"
    using p_next_looking [OF c(5)] kept_fs [OF c(6)] assms(5) by blast
  obtain s3 where s3: "gen (bcemit_binop_left op v) s2 = Inr (v, s3)" "kept s2 s3" "looking s3 ts"
    using gen_pure [of s2 "bcemit_binop_left op v" v] num_left [OF c(4) assms(2)] kept_fs [OF s2(3)] s2(2) by blast
  have l3: "ps_fs s3 \<noteq> []" "ps_level s3 = l" using kept_fs [OF s3(2)] kept_fs [OF s2(3)] kept_fs [OF c(6)] assms(9) by auto
  obtain w s4 where s4: "E (arith_prec op) s3 = Inr ((token2binop (tok_of s4), w), s4)" "is_num y w" "looking s4 rest" "kept s3 s4"
    using assms(8) [OF s3(3) l3] unfolding parsed_def by blast
  obtain u where u: "is_num z u" "\<And>fs. bcemit_binop op v w fs = Inr (u, fs)"
    using num_fold [OF c(4) s4(2) assms(14,10-13)] by blast
  obtain s5 where s5: "gen (bcemit_binop op v w) s4 = Inr (u, s5)" "kept s4 s5" "looking s5 rest"
    using gen_pure [of s4 "bcemit_binop op v w" u] u(2) kept_fs [OF s4(4)] s4(3) by blast
  have t5: "tok_of s5 = tok_of s4" using s5(3) s4(3) by (cases rest) (auto simp: looking_def)
  have "binop_loop E lim (op, v) s1 = Inr (Inl (token2binop (tok_of s5), u), s5)"
    using s2(1) s3(1) s4(1) s5(1) t5 assms(2,3) op_prio [OF assms(2)]
    by (auto simp: binop_loop_def pseq_def pbind_def pret_def)
  from rounds_last [OF r this] have "rounds E lim (Suc k) (token2binop (tok_of s0), v0) s0 (token2binop (tok_of s5), u) s5" .
  moreover have "Suc k + left_of rest \<le> ps_left s0" using c(3) left_of_less [of rest "op_token op" us] assms(6) by simp
  moreover have "kept s s5" using kept_trans c(6) s2(3) s3(2) s4(4) s5(2) by blast
  ultimately show ?thesis using c(1) u(1) s5(3) unfolding climbed_def by blast
qed


lemma climb_paren:
  assumes "looking s (Op [40] 40 # ts)" "ts \<noteq> []" "plain_token (hd ts)" "ps_fs s \<noteq> []" "follows rest"
    "\<And>s. looking s ts \<Longrightarrow> ps_fs s \<noteq> [] \<Longrightarrow> ps_level s = l \<Longrightarrow> parsed (E 0) (Op [41] 41 # rest) z s" "ps_level s = l"
  shows "climbed E C lim rest z s"
proof -
  obtain s1 where s1: "p_next s = Inr ((), s1)" "looking s1 ts" "kept s s1"
    using p_next_looking [OF assms(1,4)] assms(3) by blast
  have l1: "ps_fs s1 \<noteq> []" "ps_level s1 = l" using kept_fs [OF s1(3)] assms(7) by auto
  obtain v s2 where s2: "E 0 s1 = Inr ((token2binop (tok_of s2), v), s2)" "is_num z v" "looking s2 (Op [41] 41 # rest)" "kept s1 s2"
    using assms(6) [OF s1(2) l1] unfolding parsed_def by blast
  obtain s3 where s3: "p_next s2 = Inr ((), s3)" "looking s3 rest" "kept s2 s3"
    using p_next_looking [OF s2(3)] kept_fs [OF s2(4)] follows_plain [OF assms(5)] by blast
  obtain s4 where s4: "gen (expr_discharge v) s3 = Inr (v, s4)" "kept s3 s4" "looking s4 rest"
    using gen_pure [of s3 "expr_discharge v" v] num_discharge [OF s2(2)] kept_fs [OF s3(3)] s3(2) by blast
  have t4: "tok_of s4 \<notin> {46, 91, 58, 40, 123, TK_string}"
    using s4(3) assms(5) by (cases rest rule: follows.cases) (auto simp: looking_def operators_def)
  then have suffix: "pwhile (suffix_loop E) v s4 = Inr (v, s4)"
    by (simp add: pwhile_run suffix_loop_def pbind_def pget_def pret_def)
  have m: "lex_match c_rpar c_lpar line s2 = Inr ((), s3)" for line
    using looking_op [OF s2(3)] s3(1) by (simp add: lex_match_def lex_opt_def pbind_def pget_def pseq_def pret_def)
  have "expr_unop E C s = Inr (v, s4)"
    using looking_op [OF assms(1)] s1(1) s2(1) m s4(1) suffix
    by (simp add: expr_unop_def expr_simple_def expr_primary_def call_expr_def pbind_def pget_def pseq_def pret_def Let_def)
  moreover have "0 + left_of rest \<le> ps_left s4" using looking_left [OF s4(3) follows_plain [OF assms(5)]] by simp
  moreover have "kept s s4" using kept_trans s1(3) s2(4) s3(3) s4(2) by blast
  ultimately show ?thesis using s2(2) s4(3) rounds.none unfolding climbed_def by blast
qed

lemma follow_prio_lim: "lim \<le> 8 \<Longrightarrow> p \<le> lim \<Longrightarrow> p \<le> follow_prio lim e"
  by (cases e) (auto simp: arith_prec_def word_le_nat_alt word_less_nat_alt)

definition climbs :: "arith \<Rightarrow> bool" where
  "climbs e \<longleftrightarrow> (\<forall>lim rest z s n. looking s (arith_toks lim e @ rest) \<longrightarrow> follows rest \<longrightarrow> next_prio rest \<le> follow_prio lim e \<longrightarrow> ps_fs s \<noteq> [] \<longrightarrow>
     arith_val e = Some z \<longrightarrow> lim \<le> 8 \<longrightarrow> unat (ps_level s) + arith_depth e \<le> 200 \<longrightarrow> arith_depth e \<le> Suc n \<longrightarrow>
     climbed (expr_rec n) (chunk_rec n) lim rest z s)"

lemma arith_depth_pos: "0 < arith_depth e"
  by (cases e) auto

lemma climbs_parsed:
  assumes "climbs e" "looking s (arith_toks lim e @ rest)" "follows rest" "next_prio rest \<le> lim" "ps_fs s \<noteq> []"
    "arith_val e = Some z" "lim \<le> 8" "unat (ps_level s) + arith_depth e < 200" "arith_depth e \<le> n"
  shows "parsed (expr_rec n lim) rest z s"
proof -
  obtain m where n: "n = Suc m" using assms(9) arith_depth_pos [of e] by (cases n) auto
  have l: "unat (ps_level s + 1) = unat (ps_level s) + 1" using assms(8) by (simp add: unat_word_ariths)
  have "climbed (expr_rec m) (chunk_rec m) lim rest z (s\<lparr>ps_level := ps_level s + 1\<rparr>)"
    using assms l n follow_prio_lim [OF assms(7,4)] unfolding climbs_def by simp
  from climbed_parsed [OF this] show ?thesis using assms(3,4,8) arith_depth_pos [of e] n by simp
qed

lemma arith_ops: "arith_val (Bin op a b) = Some z \<Longrightarrow> op \<in> {OPR_ADD, OPR_SUB, OPR_MUL, OPR_DIV}"
  by (cases op) (auto split: Option.bind_splits)

lemma climbs_lit: "climbs (Lit n)"
  unfolding climbs_def using climb_lit by auto

lemma climbs_neg:
  assumes "climbs a"
  shows "climbs (Neg a)"
  unfolding climbs_def
proof (intro allI impI)
  fix lim rest z s n
  assume l: "looking s (arith_toks lim (Neg a) @ rest)" and f: "follows rest" "next_prio rest \<le> follow_prio lim (Neg a)" "ps_fs s \<noteq> []"
    and v: "arith_val (Neg a) = Some z" and d: "lim \<le> 8" "unat (ps_level s) + arith_depth (Neg a) \<le> 200" "arith_depth (Neg a) \<le> Suc n"
  obtain x where x: "arith_val a = Some x" "x \<noteq> 0" "in_long (- x) = Some z"
    using v by (auto split: Option.bind_splits if_splits)
  have "parsed (expr_rec n 8) rest x t" if "looking t (arith_toks 8 a @ rest)" "ps_fs t \<noteq> []" "ps_level t = ps_level s" for t
    using climbs_parsed [OF assms that(1) f(1) _ that(2) x(1)] that(3) f(2) d by simp
  note p = this
  have l': "looking s (Op [45] 45 # arith_toks 8 a @ rest)" and ne: "arith_toks 8 a @ rest \<noteq> []" using l arith_toks_nonempty by auto
  note r = arith_val_range [OF x(1)]
  show "climbed (expr_rec n) (chunk_rec n) lim rest z s"
    by (rule climb_neg [where E = "expr_rec n", OF l' ne arith_hd f(3,1) p refl _ _ x(2,3)]) (use r in blast)+
qed

lemma climbs_open:
  assumes "climbs a" "climbs b" "looking s (arith_toks (arith_prec op - 1) a @ op_token op # arith_toks (arith_prec op) b @ rest)" "lim < arith_prec op"
    "follows rest" "next_prio rest \<le> arith_prec op" "ps_fs s \<noteq> []" "arith_val (Bin op a b) = Some z"
    "unat (ps_level s) + arith_depth a \<le> 200" "unat (ps_level s) + arith_depth b < 200" "arith_depth a \<le> Suc n" "arith_depth b \<le> n"
  shows "climbed (expr_rec n) (chunk_rec n) lim rest z s"
proof -
  note op = arith_ops [OF assms(8)]
  obtain x y where v: "arith_val a = Some x" "arith_val b = Some y" using assms(8) by (auto split: Option.bind_splits)
  note r = arith_val_range [OF v(1)] arith_val_range [OF v(2)]
  have s: "sint (word_of_int x :: u64) = x" "sint (word_of_int y :: u64) = y" using sint_long r by blast+
  have p: "arith_prec op \<le> 8" "arith_prec op - 1 \<le> 8" by (simp_all add: arith_prec_def)
  have "next_prio (op_token op # ts) \<le> follow_prio (arith_prec op - 1) a" for ts
    using op by (cases a) (auto simp: token2binop_def arith_prec_def word_le_nat_alt word_less_nat_alt)
  then have ca: "climbed (expr_rec n) (chunk_rec n) (arith_prec op - 1) (op_token op # arith_toks (arith_prec op) b @ rest) x s"
    using assms(1,3,7,9,11) v(1) p(2) op_token_follows unfolding climbs_def by blast
  have "parsed (expr_rec n (arith_prec op)) rest y t"
    if "looking t (arith_toks (arith_prec op) b @ rest)" "ps_fs t \<noteq> []" "ps_level t = ps_level s" for t
    using climbs_parsed [OF assms(2) that(1) assms(5,6) that(2) v(2) p(1)] that(3) assms(10,12) by simp
  moreover have "arith_val (Bin op (Lit (word_of_int x)) (Lit (word_of_int y))) = Some z"
    using assms(8) v s by (simp only: arith_val.simps bind.simps)
  ultimately show ?thesis
    using climb_bin [OF ca op assms(4) _ arith_hd refl assms(5) _ refl, of y z] r arith_toks_nonempty by blast
qed

lemma climbs_bin:
  assumes "climbs a" "climbs b"
  shows "climbs (Bin op a b)"
  unfolding climbs_def
proof (intro allI impI)
  fix lim rest z s n
  let ?body = "arith_toks (arith_prec op - 1) a @ op_token op # arith_toks (arith_prec op) b"
  assume l: "looking s (arith_toks lim (Bin op a b) @ rest)" and f: "follows rest" "next_prio rest \<le> follow_prio lim (Bin op a b)" "ps_fs s \<noteq> []"
    and v: "arith_val (Bin op a b) = Some z" and d: "lim \<le> 8" "unat (ps_level s) + arith_depth (Bin op a b) \<le> 200" "arith_depth (Bin op a b) \<le> Suc n"
  show "climbed (expr_rec n) (chunk_rec n) lim rest z s"
  proof (cases "lim < arith_prec op")
    case True
    then show ?thesis using climbs_open [OF assms _ True f(1) _ f(3) v] l f(2) d by simp
  next
    case False
    obtain m where m: "n = Suc m" using d(3) arith_depth_pos [of a] by (cases n) auto
    have p: "0 < arith_prec op" by (simp add: arith_prec_def)
    have "parsed (expr_rec n 0) (Op [41] 41 # rest) z t"
      if t: "looking t (?body @ Op [41] 41 # rest)" "ps_fs t \<noteq> []" "ps_level t = ps_level s" for t
    proof -
      let ?t = "t\<lparr>ps_level := ps_level t + 1\<rparr>"
      have lev: "unat (ps_level t + 1) = unat (ps_level s) + 1" using d(2) t(3) by (simp add: unat_word_ariths)
      have "climbed (expr_rec m) (chunk_rec m) 0 (Op [41] 41 # rest) z ?t"
        using climbs_open [OF assms _ p _ _ _ v, of ?t "Op [41] 41 # rest" m] t lev d(2,3) m
        by (simp add: operators_def token2binop_def)
      from climbed_parsed [OF this] show ?thesis using d(2) t(3) m by (simp add: operators_def token2binop_def)
    qed
    note p = this
    have l': "looking s (Op [40] 40 # ?body @ Op [41] 41 # rest)" using l False by (simp add: Let_def)
    have "plain_token (hd (?body @ Op [41] 41 # rest))" using arith_hd [of "arith_prec op - 1" a] by simp
    then show ?thesis by (rule climb_paren [where E = "expr_rec n", OF l' _ _ f(3,1) p refl, rotated]) simp_all
  qed
qed

lemma arith_climbs: "climbs e"
  by (induction e) (simp_all add: climbs_lit climbs_neg climbs_bin)

section \<open>An example\<close>

definition ex_env :: penv where
  "ex_env = \<lparr>pe_str = (\<lambda>t. 1000 + of_nat (length (st_objs t))), pe_obj = (\<lambda>n. 5000 + of_nat n), pe_var = (\<lambda>_. \<lparr>vi_name = 0, vi_startpc = 0, vi_endpc = 0, vi_slot = 0, vi_info = 0\<rparr>),
     pe_byte = (\<lambda>_. 0), pe_node = (\<lambda>_. zero_node), pe_room = (\<lambda>_. 200), pe_events = (\<lambda>_. None)\<rparr>"

definition ex_start :: "u8 list \<Rightarrow> pstate" where
  "ex_start text = \<lparr>ps_env = ex_env,
     ps_ls = \<lparr>ls_in = text, ls_sb = [], ls_line = 1, ls_lastline = 1, ls_tok = 0, ls_tokval = TvNum 0, ls_lookahead = TK_eof, ls_lookval = TvNum 0, ls_chunkname = []\<rparr>,
     ps_tokval = set_number 0, ps_lookval = set_number 0, ps_fs = [], ps_vstack = [], ps_vtop = 0, ps_sizebc = 0, ps_level = 0,
     ps_strs = ukp_str_resize, ps_objs = Map.empty, ps_nobj = 0\<rparr>"

text \<open>\<^verbatim>\<open>(5 - 2) * 3\<close>\<close>

definition ex_arith :: arith where "ex_arith = Bin OPR_MUL (Bin OPR_SUB (Lit 5) (Lit 2)) (Lit 3)"

lemma ex_arith_simps: "arith_val ex_arith = Some 9" "arith_depth ex_arith = 5"
  "arith_toks 0 ex_arith = [Op [40] 40, Number 5, Op [45] 45, Number 2, Op [41] 41, Op [42] 42, Number 3]"
  by (simp_all add: ex_arith_def in_long_def arith_prec_def)

text \<open>The parser in the middle of a function, its current token the opening parenthesis.\<close>

definition ex_mid :: pstate where
  "ex_mid = (case fs_init 0 (ex_start (bytes '' 5 - 2 ) * 3'')) of Inr (_, s) \<Rightarrow> s\<lparr>ps_ls := (ps_ls s)\<lparr>ls_tok := 40\<rparr>\<rparr> | Inl _ \<Rightarrow> ex_start [])"

section \<open>The expression parser reads what is printed\<close>

text \<open>C5: Precedence, associativity and folding.  Before the text of an arithmetic expression, printed with no more
  parentheses than precedence and association to the left ask for, the parser reads exactly this expression: the
  result is the constant of its value, no instruction has been emitted, and the token behind it is the current one.
  The value must exist: intermediate results fit into 64 bits, no division by zero; the nesting must fit under the limit.\<close>

theorem arith_parsed:
  assumes "looking s (arith_toks 0 e @ rest)" "follows rest" "next_prio rest = 0" "ps_fs s \<noteq> []" "arith_val e = Some z"
    "unat (ps_level s) + arith_depth e < 200"
  shows "\<exists>v s'. call_expr (expr_rec 200) s = Inr (v, s') \<and> e_k v = VKNUM \<and> e_nval v = set_number (word_of_int z) \<and> \<not> expr_hasjump v \<and>
     looking s' rest \<and> kept s s'"
proof -
  have "parsed (expr_rec 200 0) rest z s"
    by (rule climbs_parsed [OF arith_climbs assms(1,2) _ assms(4,5) _ assms(6)]) (use assms(3,6) in simp_all)
  then show ?thesis by (auto simp: parsed_def call_expr_def pbind_def pret_def is_num_def expr_hasjump_def)
qed

theorem arith_parsed_witness:
  "\<exists>v s'. call_expr (expr_rec 200) ex_mid = Inr (v, s') \<and> e_k v = VKNUM \<and> e_nval v = set_number 9 \<and> \<not> expr_hasjump v \<and> looking s' [] \<and> kept ex_mid s'"
proof -
  have t: "print_tokens [Number 5, Op [45] 45, Number 2, Op [41] 41, Op [42] 42, Number 3] = bytes '' 5 - 2 ) * 3''" by code_simp
  have "looking ex_mid (arith_toks 0 ex_arith @ [])" "ps_fs ex_mid \<noteq> []" "ps_level ex_mid = 0" unfolding ex_arith_simps
    by (simp_all add: looking_def ex_mid_def fs_init_def pmod_def ex_start_def t)
  from arith_parsed [OF this(1) _ _ this(2) ex_arith_simps(1)] this(3) ex_arith_simps(2) show ?thesis by simp
qed

end
