(* ===== verification/Ktap_Parse_Wf.thy ===== *)
theory Ktap_Parse_Wf
  imports Ktap_Parse_Ends
begin

text \<open>
  What the parser keeps: the frame of every function under construction has between 1 and 250 slots, its counts stay within
  the fields of the prototype, and the objects made so far are well-formed prototypes.  The rules follow the shape of the
  monads; the contract of nested expressions and blocks is the locale \<open>nested_safe\<close>.
\<close>

section \<open>The code generator keeps the frame size in its bounds\<close>

definition frame_ok :: "fstate \<Rightarrow> bool" where
  "frame_ok fs \<longleftrightarrow> 0 < fs_framesize fs \<and> fs_framesize fs < 250"

definition steady :: "'a cg \<Rightarrow> bool" where
  "steady m \<longleftrightarrow> (\<forall>fs x fs'. frame_ok fs \<longrightarrow> m fs = Inr (x, fs') \<longrightarrow> frame_ok fs')"

named_theorems steady_rules

lemma steadyD: "steady m \<Longrightarrow> frame_ok fs \<Longrightarrow> m fs = Inr (x, fs') \<Longrightarrow> frame_ok fs'"
  unfolding steady_def by blast

lemma cbind_done: "cbind m k fs = Inr (y, fs') \<longleftrightarrow> (\<exists>x fs1. m fs = Inr (x, fs1) \<and> k x fs1 = Inr (y, fs'))"
  by (auto simp: cbind_def split: sum.splits)

lemma steady_bind [steady_rules]: "steady m \<Longrightarrow> (\<And>x. steady (k x)) \<Longrightarrow> steady (cbind m k)"
  unfolding steady_def [of "cbind m k"] cbind_done by (blast dest: steadyD)

lemma steady_basic [steady_rules]: "steady (cret x)" "steady (cfail e)" "steady (cget f)"
  by (auto simp: steady_def cret_def cfail_def cget_def)

lemma steady_mod [steady_rules]: "(\<And>fs. frame_ok fs \<Longrightarrow> frame_ok (g fs)) \<Longrightarrow> steady (cmod g)"
  by (auto simp: steady_def cmod_def)

lemma steady_if [steady_rules]: "(b \<Longrightarrow> steady m) \<Longrightarrow> (\<not> b \<Longrightarrow> steady k) \<Longrightarrow> steady (if b then m else k)"
  by simp

lemma steady_prod [steady_rules]: "(\<And>a b. steady (f a b)) \<Longrightarrow> steady (case p of (a, b) \<Rightarrow> f a b)"
  by (cases p) simp

lemma steady_option [steady_rules]: "steady m \<Longrightarrow> (\<And>a. steady (f a)) \<Longrightarrow> steady (case x of None \<Rightarrow> m | Some a \<Rightarrow> f a)"
  by (cases x) auto

lemma frame_ok_updates [simp]:
  "frame_ok (fs\<lparr>fs_kt := a\<rparr>) = frame_ok fs" "frame_ok (fs\<lparr>fs_bc := b\<rparr>) = frame_ok fs" "frame_ok (fs\<lparr>fs_lasttarget := c\<rparr>) = frame_ok fs"
  "frame_ok (fs\<lparr>fs_jpc := c\<rparr>) = frame_ok fs" "frame_ok (fs\<lparr>fs_freereg := c\<rparr>) = frame_ok fs" "frame_ok (fs\<lparr>fs_nactvar := c\<rparr>) = frame_ok fs"
  "frame_ok (fs\<lparr>fs_nkn := c\<rparr>) = frame_ok fs" "frame_ok (fs\<lparr>fs_nkgc := c\<rparr>) = frame_ok fs" "frame_ok (fs\<lparr>fs_base := d\<rparr>) = frame_ok fs"
  "frame_ok (fs\<lparr>fs_bclim := d\<rparr>) = frame_ok fs" "frame_ok (fs\<lparr>fs_sizebc := d\<rparr>) = frame_ok fs" "frame_ok (fs\<lparr>fs_lastline := d\<rparr>) = frame_ok fs"
  "frame_ok (fs\<lparr>fs_vinfo := e\<rparr>) = frame_ok fs"
  by (simp_all add: frame_ok_def)

lemma steady_ins [steady_rules]: "steady (ins_at pc)" "steady (ins_put pc i)"
  unfolding ins_at_def ins_put_def by (intro steady_rules; simp)+

lemma steady_kslot [steady_rules]:
  "steady (const_num e)" "steady (const_gc a t)" "steady (const_str e)" "steady (kp_parse_keepstr a)"
  unfolding const_num_def const_str_def const_gc_def kslot_def kp_parse_keepstr_def Let_def by (intro steady_rules; simp)+

lemma steady_jmp_next [steady_rules]: "steady (jmp_next pc)" "steady (jmp_patchtestreg pc r)" "steady (jmp_patchins pc d)"
  unfolding jmp_next_def jmp_patchtestreg_def jmp_patchins_def Let_def by (intro steady_rules)+

lemma steady_loops [steady_rules]:
  "steady (novalue_loop n l)" "steady (dropval_loop n l)" "steady (last_loop n l)" "steady (patchval_loop n l v r d)"
  by (induction n arbitrary: l; auto intro!: steady_rules)+

lemma steady_jumps [steady_rules]:
  "steady (jmp_novalue l)" "steady (jmp_dropval l)" "steady (jmp_append a b)" "steady (jmp_patchval l v r d)" "steady (jmp_tohere l)"
  "steady (jmp_patch l t)"
  unfolding jmp_novalue_def jmp_dropval_def jmp_append_def jmp_patchval_def jmp_tohere_def jmp_patch_def
  by (intro steady_rules; simp)+

lemma steady_bump [steady_rules]: "steady (bcreg_bump n)"
proof -
  have "frame_ok fs'" if "frame_ok fs" "bcreg_bump n fs = Inr (x, fs')" for fs x fs'
  proof (cases "fs_freereg fs + n > ucast (fs_framesize fs)")
    case True
    let ?z = "fs_freereg fs + n"
    have lt: "?z < 250" and fs': "fs' = fs\<lparr>fs_framesize := ucast ?z\<rparr>"
      using that(2) True by (auto simp: bcreg_bump_def cg_simps KP_MAX_REGS_def not_le split: if_splits)
    have "unat (ucast ?z :: u8) = unat ?z" using lt by (simp add: unsigned_ucast_eq take_bit_nat_def word_less_nat_alt)
    moreover have "0 < ?z" using True by (simp add: word_less_nat_alt)
    ultimately show ?thesis using lt fs' by (simp add: frame_ok_def word_less_nat_alt)
  next
    case False
    then show ?thesis using that by (auto simp: bcreg_bump_def cg_simps)
  qed
  then show ?thesis by (auto simp: steady_def)
qed

lemma steady_emit [steady_rules]:
  "steady (bcreg_reserve n)" "steady (bcreg_free r)" "steady (expr_free e)" "steady bc_room" "steady (bcemit_INS i)"
proof -
  show r: "steady bc_room" unfolding bc_room_def Let_def by (intro steady_rules) simp
  show "steady (bcemit_INS i)" unfolding bcemit_INS_def by (intro steady_rules r; simp)
qed (auto simp: bcreg_reserve_def bcreg_free_def expr_free_def intro!: steady_rules)

lemma steady_toreg_nobranch [steady_rules]:
  "steady (expr_discharge e)" "steady (bcemit_nil a n)" "steady (expr_toreg_nobranch e r)" "steady bcemit_jmp"
  unfolding expr_toreg_nobranch_def expr_discharge_def bcemit_nil_def bcemit_nil_new_def bcemit_jmp_def Let_def
  by (intro steady_rules; simp)+

lemma steady_toreg [steady_rules]: "steady (expr_toreg e r)"
  unfolding expr_toreg_def Let_def by (intro steady_rules; simp)

lemma steady_regs [steady_rules]: "steady (expr_tonextreg e)" "steady (expr_toanyreg e)" "steady (expr_toval e)" "steady (mark_rw i)"
  unfolding expr_toval_def expr_toanyreg_def expr_tonextreg_def mark_rw_def by (intro steady_rules; simp)+

lemma steady_stores [steady_rules]: "steady (bcemit_store v e)" "steady (bcemit_store_incr v e)" "steady (bcemit_method e k)"
  unfolding bcemit_store_def bcemit_store_incr_def bcemit_method_def Let_def by (intro steady_rules; simp)+

lemma steady_branches [steady_rules]:
  "steady (invertcond e)" "steady (bcemit_branch e c)" "steady (bcemit_branch_t e)" "steady (bcemit_branch_f e)"
  unfolding bcemit_branch_t_def bcemit_branch_f_def bcemit_branch_def bcemit_branch_reg_def invertcond_def by (intro steady_rules; simp)+

lemma steady_arith [steady_rules]: "steady (foldarith o' a b)" "steady (drop_temp e)" "steady (arith_operands o' a b)" "steady (bcemit_arith o' a b)"
  unfolding bcemit_arith_def arith_operands_def drop_temp_def foldarith_def Let_def by (intro steady_rules; simp)+

lemma steady_ops [steady_rules]:
  "steady (bcemit_comp o' a b)" "steady (bcemit_concat a b)" "steady (bcemit_binop_left o' e)"
  unfolding bcemit_comp_def comp_eq_def comp_order_def bcemit_concat_def bcemit_binop_left_def Let_def
  by (intro steady_rules; simp)+

lemma steady_binop [steady_rules]: "steady (bcemit_binop o' a b)" "steady (bcemit_unop u e)"
  unfolding bcemit_binop_def bcemit_unop_def bcemit_unop_ins_def Let_def by (intro steady_rules; simp)+

section \<open>Well-formed prototypes\<close>

fun proto_wf :: "uproto \<Rightarrow> bool" and kgc_wf :: "kgc \<Rightarrow> bool" where
  "proto_wf (UProto fl np fz uv ks kn bc dbg) \<longleftrightarrow>
     fl AND NOT (PROTO_CHILD OR PROTO_VARARG) = 0 \<and> 0 < fz \<and> fz < 250 \<and> length uv \<le> KP_MAX_UPVAL \<and>
     length ks \<le> 65536 \<and> length kn \<le> 65536 \<and> list_all (\<lambda>v. case v of TNum _ \<Rightarrow> True | _ \<Rightarrow> False) kn \<and>
     (\<forall>k\<in>set ks. kgc_wf k)"
| "kgc_wf (KgcChild pt) \<longleftrightarrow> proto_wf pt"
| "kgc_wf (KgcStr s) \<longleftrightarrow> True"
| "kgc_wf (KgcTab t) \<longleftrightarrow> True"

abbreviation (input) func_flags :: u8 where "func_flags \<equiv> PROTO_CHILD OR PROTO_VARARG OR PROTO_HAS_RETURN OR PROTO_FIXUP_RETURN"

definition func_ok :: "pfunc \<Rightarrow> bool" where
  "func_ok f \<longleftrightarrow> frame_ok (pf_fs f) \<and> length (pf_uv f) \<le> KP_MAX_UPVAL \<and> pf_flags f AND NOT func_flags = 0"

definition parser_ok :: "pstate \<Rightarrow> bool" where
  "parser_ok s \<longleftrightarrow> (\<forall>f\<in>set (ps_fs s). func_ok f) \<and> (\<forall>a pt. ps_objs s a = Some (OProto pt) \<longrightarrow> proto_wf pt)"

definition safe :: "'a parse \<Rightarrow> bool" where
  "safe m \<longleftrightarrow> (\<forall>s x s'. parser_ok s \<longrightarrow> m s = Inr (x, s') \<longrightarrow> parser_ok s')"

named_theorems safe_rules

lemma safeD: "safe m \<Longrightarrow> parser_ok s \<Longrightarrow> m s = Inr (x, s') \<Longrightarrow> parser_ok s'"
  unfolding safe_def by blast

lemma safe_bind [safe_rules]: "safe m \<Longrightarrow> (\<And>x. safe (k x)) \<Longrightarrow> safe (pbind m k)"
  unfolding safe_def [of "pbind m k"] pbind_Inr by (blast dest: safeD)

lemma safe_seq [safe_rules]: "safe m \<Longrightarrow> safe k \<Longrightarrow> safe (pseq m k)"
  unfolding pseq_def by (rule safe_bind)

lemma safe_basic [safe_rules]: "safe (pret x)" "safe (pfail e)" "safe (pget f)"
  by (auto simp: safe_def pret_def pfail_def pget_def)

lemma safe_mod [safe_rules]: "(\<And>s. parser_ok s \<Longrightarrow> parser_ok (g s)) \<Longrightarrow> safe (pmod g)"
  by (auto simp: safe_def pmod_def)

lemma safe_if [safe_rules]: "(b \<Longrightarrow> safe m) \<Longrightarrow> (\<not> b \<Longrightarrow> safe k) \<Longrightarrow> safe (if b then m else k)"
  by simp

lemma safe_cases [safe_rules]:
  "(\<And>a b. safe (f a b)) \<Longrightarrow> safe (case p of (a, b) \<Rightarrow> f a b)"
  "safe m \<Longrightarrow> (\<And>a. safe (g a)) \<Longrightarrow> safe (case x of None \<Rightarrow> m | Some a \<Rightarrow> g a)"
  "safe n \<Longrightarrow> (\<And>a as. safe (h a as)) \<Longrightarrow> safe (case l of [] \<Rightarrow> n | a # as \<Rightarrow> h a as)"
  "(\<And>a. safe (i a)) \<Longrightarrow> safe (Let t i)"
  by (cases p, simp) (cases x, simp_all, cases l, simp_all)

lemma parser_ok_updates [simp]:
  "parser_ok (s\<lparr>ps_ls := a\<rparr>) = parser_ok s" "parser_ok (s\<lparr>ps_tokval := v\<rparr>) = parser_ok s" "parser_ok (s\<lparr>ps_lookval := v\<rparr>) = parser_ok s"
  "parser_ok (s\<lparr>ps_vstack := b\<rparr>) = parser_ok s" "parser_ok (s\<lparr>ps_vtop := c\<rparr>) = parser_ok s" "parser_ok (s\<lparr>ps_sizebc := c\<rparr>) = parser_ok s"
  "parser_ok (s\<lparr>ps_level := l\<rparr>) = parser_ok s" "parser_ok (s\<lparr>ps_strs := d\<rparr>) = parser_ok s" "parser_ok (s\<lparr>ps_nobj := c\<rparr>) = parser_ok s"
  by (simp_all add: parser_ok_def)

lemma safe_pthe [safe_rules]: "safe (pthe x)"
  by (cases x) (auto simp: pthe_def intro: safe_rules)

lemma safe_loop: "(\<And>x. safe (body x)) \<Longrightarrow> safe (ploop n body x)"
proof (induction n arbitrary: x)
  case 0
  then show ?case by (simp add: safe_def)
next
  case (Suc n)
  have "safe (pbind (body x) (\<lambda>r. case r of Inl x \<Rightarrow> ploop n body x | Inr y \<Rightarrow> pret y))"
    by (intro safe_bind Suc.prems) (auto split: sum.split intro: Suc safe_basic)
  then show ?case by (simp add: safe_def)
qed

lemma safe_while [safe_rules]: "(\<And>x. safe (body x)) \<Longrightarrow> safe (pwhile body x)"
  unfolding pwhile_def by (intro safe_bind safe_basic safe_loop)

lemma safe_each [safe_rules]: "(\<And>x. safe (f x)) \<Longrightarrow> safe (peach f xs)"
  by (induction xs) (auto intro: safe_rules)

lemma fails_safe: "(\<And>s. isl (m s)) \<Longrightarrow> safe m"
  by (metis safe_def sum.disc(2))

lemma safe_err [safe_rules]: "safe (err_text t x)" "safe (err_syntax e)" "safe (err_token t')" "safe (err_limit a b c)" "safe XLIMC"
  unfolding XLIMC_def err_syntax_def err_token_def err_limit_def err_text_def by (intro safe_rules)+

lemma parser_ok_top: "ps_fs s = f # rest \<Longrightarrow> parser_ok s \<Longrightarrow> func_ok f' \<Longrightarrow> parser_ok (s\<lparr>ps_fs := f' # rest\<rparr>)"
  by (auto simp: parser_ok_def)

lemma safe_cur [safe_rules]: "safe cur_fs"
  unfolding cur_fs_def by (intro safe_rules)

lemma safe_set_fs [safe_rules]: "(\<And>f. func_ok f \<Longrightarrow> func_ok (g f)) \<Longrightarrow> safe (set_fs g)"
  unfolding safe_def set_fs_def
  by (auto simp: pget_def pmod_def pfail_def pbind_Inr split: list.splits) (auto simp: parser_ok_def)

lemma func_ok_share: "func_ok f \<Longrightarrow> frame_ok (share s f)"
  by (simp add: func_ok_def share_def)

lemma cg_error_fails: "cg_error l e s \<noteq> Inr z"
  by (auto simp: cg_error_def err_syntax_def err_limit_def err_text_def pbind_def pget_def pfail_def split: cg_stop.split cg_msg.split)

lemma safe_gen [safe_rules]: "steady m \<Longrightarrow> safe (gen m)"
  unfolding safe_def
proof (intro allI impI)
  fix s x s' assume m: "steady m" and ok: "parser_ok s" and r: "gen m s = Inr (x, s')"
  obtain f rest fs where f: "ps_fs s = f # rest" "m (share s f) = Inr (x, fs)"
    "s' = s\<lparr>ps_fs := f\<lparr>pf_fs := fs\<rparr> # rest, ps_sizebc := fs_sizebc fs, ps_vstack := map2 (\<lambda>v i. v\<lparr>vi_info := i\<rparr>) (ps_vstack s) (fs_vinfo fs)\<rparr>"
    using r by (auto simp: gen_def pfail_def cg_error_fails split: list.splits sum.splits)
  have "func_ok f" using ok f(1) by (simp add: parser_ok_def)
  then have "func_ok (f\<lparr>pf_fs := fs\<rparr>)" using steadyD [OF m func_ok_share f(2)] by (simp add: func_ok_def)
  then show "parser_ok s'" using parser_ok_top [OF f(1) ok] f(3) by simp
qed

lemma safe_vs [safe_rules]: "safe (vs_at i)" "safe (vs_put i g)" "safe (var_idx i)" "safe vs_room"
  unfolding vs_at_def vs_put_def var_idx_def vs_room_def by (intro safe_rules; simp)+

lemma safe_strings [safe_rules]: "safe (keepstr s)" "safe (kp_str_lit t)" "safe (str_bytes a)"
  unfolding keepstr_def kp_str_lit_def str_bytes_def by (intro safe_rules steady_rules; simp)+

lemma safe_lexer [safe_rules]: "safe (scanned tok tv old)" "safe (plex f)"
  unfolding scanned_def by (auto split: tokval.split intro!: safe_rules) (auto simp: safe_def plex_def split: sum.splits)

lemma safe_tokens [safe_rules]: "safe p_next" "safe p_lookahead" "safe (p_read_string_until c)"
  unfolding p_next_def p_lookahead_def p_read_string_until_def by (intro safe_rules; simp)+

lemma safe_lex [safe_rules]: "safe (lex_opt t)" "safe (lex_check t)" "safe (lex_match a b l)" "safe lex_str"
  unfolding lex_match_def lex_opt_def lex_check_def lex_str_def by (intro safe_rules)+

lemma func_ok_updates [simp]:
  "func_ok (f\<lparr>pf_bl := a\<rparr>) = func_ok f" "func_ok (f\<lparr>pf_varmap := b\<rparr>) = func_ok f" "func_ok (f\<lparr>pf_linedefined := c\<rparr>) = func_ok f"
  "func_ok (f\<lparr>pf_vbase := c\<rparr>) = func_ok f" "func_ok (f\<lparr>pf_numparams := d\<rparr>) = func_ok f"
  by (simp_all add: func_ok_def)

lemma safe_var_new [safe_rules]: "safe (var_new n name)"
  unfolding var_new_def by (intro safe_rules; simp)

lemma safe_var_add [safe_rules]: "safe (var_add n)" "safe (remove_loop n)"
  by (induction n) (auto intro!: safe_rules steady_rules)

lemma var_lookup_uv_ok: "func_ok f \<Longrightarrow> var_lookup_uv f vidx e = Some (i, f') \<Longrightarrow> func_ok f'"
  by (auto simp: var_lookup_uv_def func_ok_def split: option.splits if_splits)

lemma var_lookup_from_ok:
  "\<forall>f\<in>set fs. func_ok f \<Longrightarrow> var_lookup_from vs name e first fs = Inr (vidx, e', fs') \<Longrightarrow> \<forall>f\<in>set fs'. func_ok f"
proof (induction fs arbitrary: first vidx e' fs')
  case (Cons f fs)
  show ?case
  proof (cases "var_lookup_local vs f name")
    case (Inr r)
    show ?thesis
    proof (cases r)
      case None
      obtain v1 e1 fs1 where r1: "var_lookup_from vs name e False fs = Inr (v1, e1, fs1)"
        using Cons.prems(2) Inr None by (auto split: sum.splits)
      have ok: "\<forall>f\<in>set fs1. func_ok f" using Cons.IH [OF _ r1] Cons.prems(1) by simp
      show ?thesis using Cons.prems Inr None r1 ok var_lookup_uv_ok [of f]
        by (auto split: option.splits)
    qed (use Cons.prems Inr in \<open>auto simp: fscope_uvmark_def split: option.splits if_splits\<close>)
  qed (use Cons.prems in auto)
qed simp

lemma safe_var_lookup [safe_rules]: "safe (var_lookup e)"
proof -
  let ?k = "\<lambda>r. case r of
         Inl LookupFault \<Rightarrow> pfault
       | Inl (TooManyUpvalues line) \<Rightarrow> err_limit line KP_MAX_UPVAL ''upvalues''
       | Inr (_, e, fs) \<Rightarrow> pseq (pmod (\<lambda>s. s\<lparr>ps_fs := fs\<rparr>)) (pret e)"
  have "parser_ok s'" if ok: "parser_ok s" and r: "?k (var_lookup_from (ps_vstack s) name e True (ps_fs s)) s = Inr (x, s')" for name s x s'
  proof (cases "var_lookup_from (ps_vstack s) name e True (ps_fs s)")
    case (Inl l)
    then show ?thesis using r safeD [OF safe_err(4) ok] by (cases l) (auto simp: pfail_def)
  next
    case (Inr q)
    obtain vidx e' fs where q: "q = (vidx, e', fs)" by (cases q)
    have "\<forall>f\<in>set fs. func_ok f" using var_lookup_from_ok [of "ps_fs s"] ok Inr q unfolding parser_ok_def by blast
    then show ?thesis using r Inr q ok by (auto simp: pret_def parser_ok_def)
  qed
  then have "safe (pbind (pget (\<lambda>s. var_lookup_from (ps_vstack s) name e True (ps_fs s))) ?k)" for name
    unfolding safe_def by simp
  then show ?thesis unfolding var_lookup_def by (rule safe_bind [OF safe_lex(4)])
qed

lemma safe_gola [safe_rules]:
  "safe (var_remove t)" "safe (gola_new a b c)" "safe (gola_patch i j)" "safe (gola_close i)" "safe (line_of_ins pc)"
  unfolding var_remove_def gola_new_def gola_patch_def gola_close_def line_of_ins_def Let_def
  by (intro safe_rules steady_rules; simp)+

lemma safe_golas [safe_rules]: "safe (gola_resolve bl i)" "safe (gola_fixup bl)" "safe (gola_findlabel a)"
  unfolding gola_resolve_def gola_fixup_def gola_findlabel_def gola_resolve1_def gola_fixup1_def gola_back_def
  by (intro safe_rules; simp)+

lemma safe_scope [safe_rules]: "safe (fscope_begin fl)" "safe fscope_end" "safe (or_flags fl)"
  unfolding fscope_begin_def fscope_end_def or_flags_def by (intro safe_rules steady_rules; simp)+

lemma safe_fixups [safe_rules]: "safe fs_fixup_k" "safe fs_prep_var" "safe (set_line pc l)"
  unfolding fs_fixup_k_def fs_prep_var_def set_line_def by (intro safe_rules steady_rules; simp)+

lemma safe_fixup_returns [safe_rules]: "safe (fixup_returns n pc)"
  by (induction n arbitrary: pc) (auto intro!: safe_rules steady_rules)

lemma safe_fixup_ret [safe_rules]: "safe fs_fixup_ret"
  unfolding fs_fixup_ret_def by (intro safe_rules steady_rules)

lemma safe_fs_init [safe_rules]: "safe (fs_init l)"
  unfolding fs_init_def by (intro safe_rules) (auto simp: parser_ok_def func_ok_def frame_ok_def)

section \<open>Finished functions\<close>

lemma those_Some: "those xs = Some ys \<longleftrightarrow> xs = map Some ys"
proof (induction xs arbitrary: ys)
  case (Cons x xs)
  then show ?case by (cases x; cases ys) auto
qed auto

lemma fixup_uv2_length: "fs_fixup_uv2 vs uv = Some uv' \<Longrightarrow> length uv' = length uv"
  unfolding fs_fixup_uv2_def those_Some by (drule arg_cong [of _ _ length]) simp

lemma proto_wf_uv: "proto_wf (UProto fl np fz uv ks kn bc dbg) \<Longrightarrow> fs_fixup_uv2 vs uv = Some uv' \<Longrightarrow> proto_wf (UProto fl np fz uv' ks kn bc dbg)"
  by (simp add: fixup_uv2_length)

lemma kgc_of_wf: "parser_ok s \<Longrightarrow> kgc_of s key = Some k \<Longrightarrow> kgc_wf k"
  by (auto simp: kgc_of_def parser_ok_def simp del: proto_wf.simps split: if_splits option.splits gcobj.splits uproto.splits)
     (blast intro: proto_wf_uv)

lemma cur_fs_run: "cur_fs s = Inr (f, s') \<longleftrightarrow> s' = s \<and> (\<exists>rest. ps_fs s = f # rest)"
  by (auto simp: cur_fs_def pbind_def pget_def pret_def pfail_def split: list.splits)

definition slots_wf :: "kgc option list \<times> tval option list \<Rightarrow> bool" where
  "slots_wf ks \<longleftrightarrow> (\<forall>k. Some k \<in> set (fst ks) \<longrightarrow> kgc_wf k) \<and> (\<forall>v. Some v \<in> set (snd ks) \<longrightarrow> (case v of TNum _ \<Rightarrow> True | _ \<Rightarrow> False))"

lemma fixup_nodes_wf:
  assumes "parser_ok s"
  shows "slots_wf ks \<Longrightarrow> fixup_nodes s ns ks = Some ks' \<Longrightarrow>
    slots_wf ks' \<and> length (fst ks') = length (fst ks) \<and> length (snd ks') = length (snd ks)"
proof (induction ns arbitrary: ks)
  case (Cons n ns)
  obtain kg kn where ks: "ks = (kg, kn)" by (cases ks)
  have num: "slots_wf (kg, kn[i := Some (TNum v)])" for i v
    using Cons.prems(1) by (auto simp: slots_wf_def ks dest!: subsetD [OF set_update_subset_insert])
  have gc: "slots_wf (kg[i := Some k], kn)" if "kgc_of s key = Some k" for i k key
    using Cons.prems(1) kgc_of_wf [OF assms that] by (auto simp: slots_wf_def ks dest!: subsetD [OF set_update_subset_insert])
  show ?case using Cons.prems(2) Cons.IH [OF num] Cons.IH [OF gc] Cons.IH [OF Cons.prems(1)]
    by (auto simp: ks Let_def split: if_splits option.splits)
qed auto

lemma fs_fixup_k_wf:
  assumes "parser_ok s" "fs_fixup_k s = Inr ((kg, kn), s')"
  shows "s' = s \<and> length kg \<le> 65536 \<and> length kn \<le> 65536 \<and> (\<forall>k\<in>set kg. kgc_wf k) \<and> list_all (\<lambda>v. case v of TNum _ \<Rightarrow> True | _ \<Rightarrow> False) kn"
proof -
  obtain f rest where f: "ps_fs s = f # rest"
    using assms(2) by (cases "ps_fs s") (auto simp: fs_fixup_k_def cur_fs_def pbind_def pget_def pfail_def)
  let ?fs = "pf_fs f"
  have lim: "\<not> fs_nkn ?fs > 65536" "\<not> fs_nkgc ?fs > 65536"
    using assms(2) f by (auto simp: fs_fixup_k_def cur_fs_def pbind_Inr pget_def pret_def err_limit_def err_text_def pfail_def Let_def split: if_splits)
  obtain kg0 kn0 where r: "fixup_nodes s (tnode (fs_kt ?fs)) (replicate (unat (fs_nkgc ?fs)) None, replicate (unat (fs_nkn ?fs)) None) = Some (map Some kg0, map Some kn0)"
    and k: "kg = rev kg0" "kn = kn0" "s' = s"
    using assms(2) f lim
    by (auto simp: fs_fixup_k_def cur_fs_def pbind_Inr pget_def pret_def pfail_def pthe_def Let_def those_Some split: option.splits)
  have "slots_wf (replicate (unat (fs_nkgc ?fs)) None, replicate (unat (fs_nkn ?fs)) None)" by (simp add: slots_wf_def)
  from fixup_nodes_wf [OF assms(1) this r] have
    w: "\<forall>k\<in>set kg0. kgc_wf k" "\<forall>v\<in>set kn0. case v of TNum _ \<Rightarrow> True | _ \<Rightarrow> False" "length kg0 = unat (fs_nkgc ?fs)" "length kn0 = unat (fs_nkn ?fs)"
    by (auto simp: slots_wf_def image_iff)
  have "unat (fs_nkgc ?fs) \<le> 65536" "unat (fs_nkn ?fs) \<le> 65536"
    using lim by (simp_all add: word_less_nat_alt not_less)
  then show ?thesis using w k by (simp add: list_all_iff)
qed

lemma flags_done: "x AND NOT func_flags = 0 \<Longrightarrow> (x AND NOT (PROTO_HAS_RETURN OR PROTO_FIXUP_RETURN)) AND NOT (PROTO_CHILD OR PROTO_VARARG) = (0 :: u8)"
proof -
  assume a: "x AND NOT func_flags = 0"
  have "NOT (PROTO_HAS_RETURN OR PROTO_FIXUP_RETURN) AND NOT (PROTO_CHILD OR PROTO_VARARG) = NOT (func_flags :: u8)" by simp
  then show ?thesis using a by (metis and.assoc)
qed

lemma fs_finish_wf:
  assumes "parser_ok s" "fs_finish line s = Inr (pt, s')"
  shows "parser_ok s' \<and> proto_wf pt"
proof -
  obtain s1 s2 s3 x ofsvar vars f rest kgc knum bc dbg where
    r: "fs_fixup_ret s = Inr (x, s1)" "fs_prep_var s1 = Inr ((ofsvar, vars), s2)" "ps_fs s2 = f # rest" "fs_fixup_k s2 = Inr ((kgc, knum), s3)"
    and s': "s' = s3\<lparr>ps_vtop := pf_vbase f, ps_fs := tl (ps_fs s3)\<rparr>"
    and pt: "pt = UProto (pf_flags f AND NOT (PROTO_HAS_RETURN OR PROTO_FIXUP_RETURN)) (pf_numparams f) (fs_framesize (pf_fs f))
        (fs_fixup_uv1 f) kgc knum bc dbg"
    using assms(2) unfolding fs_finish_def
    by (auto simp: pseq_def cur_fs_run pbind_Inr pret_def pmod_def Let_def)
  have ok2: "parser_ok s2" using safeD [OF safe_fixups(2) safeD [OF safe_fixup_ret assms(1) r(1)] r(2)] .
  note k = fs_fixup_k_wf [OF ok2 r(4)]
  have f: "func_ok f" using ok2 r(3) by (simp add: parser_ok_def)
  have "parser_ok s'" using ok2 k r(3) unfolding s' by (auto simp: parser_ok_def)
  moreover have "proto_wf pt" unfolding pt proto_wf.simps
    using k f flags_done by (auto simp: func_ok_def frame_ok_def fs_fixup_uv1_def)
  ultimately show ?thesis by simp
qed

text \<open>A finished function becomes an object, in one go.\<close>

lemma safe_new_tab [safe_rules]: "safe (new_obj (OTab t))"
  unfolding new_obj_def by (intro safe_rules) (auto simp: parser_ok_def)

lemma safe_finish_obj: "(\<And>a. safe (k a)) \<Longrightarrow> safe (pbind (fs_finish line) (\<lambda>pt. pbind (new_obj (OProto pt)) k))"
proof -
  assume k: "\<And>a. safe (k a)"
  have "parser_ok s'" if ok: "parser_ok s" and r: "pbind (fs_finish line) (\<lambda>pt. pbind (new_obj (OProto pt)) k) s = Inr (x, s')" for s x s'
  proof -
    obtain pt s1 a s2 where p: "fs_finish line s = Inr (pt, s1)" "new_obj (OProto pt) s1 = Inr (a, s2)" "k a s2 = Inr (x, s')"
      using r by (auto simp: pbind_Inr)
    have "parser_ok s1" "proto_wf pt" using fs_finish_wf [OF ok p(1)] by simp_all
    then have "parser_ok s2" using p(2)
      by (auto simp: new_obj_def pbind_Inr pget_def pret_def pmod_def pseq_def parser_ok_def split: if_splits)
    then show ?thesis using safeD [OF k _ p(3)] by blast
  qed
  then show ?thesis unfolding safe_def by blast
qed

section \<open>The parser keeps its functions and objects well formed\<close>

lemma func_ok_flags: "func_ok f \<Longrightarrow> g AND NOT func_flags = 0 \<Longrightarrow> func_ok (f\<lparr>pf_flags := g\<rparr>)"
  by (simp add: func_ok_def)

lemma flags_or: "x AND NOT func_flags = 0 \<Longrightarrow> y AND NOT func_flags = 0 \<Longrightarrow> (x OR y) AND NOT func_flags = (0 :: u8)"
  by (simp add: bit.conj_disj_distrib2)

lemma func_ok_or: "func_ok f \<Longrightarrow> y AND NOT func_flags = 0 \<Longrightarrow> func_ok (f\<lparr>pf_flags := pf_flags f OR y\<rparr>)"
  using flags_or [of "pf_flags f" y] by (simp add: func_ok_def)

lemma func_ok_child:
  "func_ok f \<Longrightarrow> func_ok (if pf_flags f AND PROTO_CHILD \<noteq> 0 then f
     else f\<lparr>pf_flags := (if pf_flags f AND PROTO_HAS_RETURN \<noteq> 0 then pf_flags f OR PROTO_FIXUP_RETURN else pf_flags f) OR PROTO_CHILD\<rparr>)"
  using func_ok_or [of f PROTO_CHILD] func_ok_or [of f "PROTO_FIXUP_RETURN OR PROTO_CHILD"] by (auto simp: or.assoc)

lemma safe_put [safe_rules]: "(\<And>s. parser_ok s \<Longrightarrow> parser_ok (s\<lparr>ps_objs := (ps_objs s)(t \<mapsto> OTab tab)\<rparr>))"
  by (auto simp: parser_ok_def)

lemma safe_index [safe_rules]: "safe (expr_index t e)" "safe expr_str" "safe (expr_field v)"
  unfolding expr_field_def expr_str_def expr_index_def Let_def by (intro safe_rules steady_rules)+

lemma safe_gcobj [safe_rules]: "(\<And>t. safe (f t)) \<Longrightarrow> (\<And>p. safe (g p)) \<Longrightarrow> safe (case x of OTab t \<Rightarrow> f t | OProto p \<Rightarrow> g p)"
  by (cases x) auto

lemma steady_table_multi [steady_rules]: "steady (table_multi a n)"
  unfolding table_multi_def by (intro steady_rules; simp)

lemma safe_table [safe_rules]: "safe (table_template pc freg key val tb)" "safe (table_store key val tb)" "safe (table_finish pc tb)"
  unfolding table_template_def table_store_def table_finish_def Let_def
  by (intro safe_rules steady_rules; assumption)+

lemma steady_put_b [steady_rules]: "steady (put_b pc b)" "steady (escape a b)"
  unfolding put_b_def escape_def by (intro steady_rules)+

lemma safe_emit_call [safe_rules]: "safe (emit_call e ins base line)"
  unfolding emit_call_def Let_def by (intro safe_rules steady_rules; simp)

lemma safe_params [safe_rules]: "safe (parse_params b)"
  unfolding parse_params_def param_loop_def by (intro safe_rules steady_rules) (simp add: func_ok_or)

lemma safe_synlevel [safe_rules]: "safe synlevel_begin" "safe synlevel_end"
  unfolding synlevel_begin_def synlevel_end_def by (intro safe_rules; simp)+

lemma safe_assign [safe_rules]: "safe (assign_hazard lh v)" "safe (assign_adjust a b e)" "safe (store_top v)"
  unfolding assign_hazard_def assign_adjust_def store_top_def Let_def by (intro safe_rules steady_rules)+

lemma safe_break [safe_rules]: "safe parse_break" "safe mark_target" "safe (predict_next pc)" "safe (probe_func a b)" "safe (probe_call v l)"
  unfolding parse_break_def mark_target_def predict_next_def slot_of_name_def probe_func_def probe_call_def Let_def
  by (intro safe_rules steady_rules; simp)+

lemma safe_label [safe_rules]: "safe (parse_label n)"
proof (induction n)
  case (Suc n)
  show ?case unfolding parse_label.simps label_loop_def by (intro safe_rules steady_rules Suc; simp)
qed (simp add: safe_rules)

text \<open>What the functions of the parser rely on when they enter expressions and chunks again.\<close>

locale nested_safe =
  fixes E :: exprs and C :: "unit parse"
  assumes E_safe: "safe (E l)" and C_safe: "safe C"
begin

lemma call_safe: "safe (call_expr E)"
  unfolding call_expr_def by (intro safe_rules E_safe)

lemma bracket_safe: "safe (expr_bracket E)"
  unfolding expr_bracket_def by (intro safe_rules steady_rules call_safe)

lemma table_safe: "safe (expr_table E)"
  unfolding expr_table_def table_field_def table_key_def Let_def
  by (intro safe_rules steady_rules call_safe bracket_safe; simp)

lemma list_safe: "safe (expr_list E)"
  unfolding expr_list_def list_loop_def by (intro safe_rules steady_rules call_safe)

lemma args_safe: "safe (parse_args E e)"
  unfolding parse_args_def Let_def by (intro safe_rules steady_rules list_safe table_safe)

lemma primary_safe: "safe (expr_primary E)"
  unfolding expr_primary_def suffix_loop_def by (intro safe_rules steady_rules call_safe bracket_safe args_safe)

lemma body_safe: "safe params \<Longrightarrow> safe (func_body C params line)"
  unfolding func_body_def by (intro safe_rules steady_rules C_safe safe_finish_obj) (simp_all add: func_ok_child)

lemma bodies_safe: "safe (parse_body C b l)" "safe (parse_body_no_args C l)"
  unfolding parse_body_def parse_body_no_args_def by (intro body_safe safe_rules)+

lemma simple_safe: "safe (expr_simple E C)"
  unfolding expr_simple_def Let_def by (intro safe_rules steady_rules table_safe bodies_safe primary_safe)

lemma binop_safe: "safe (expr_binop E C limit)"
  unfolding expr_binop_def expr_unop_def binop_loop_def by (intro safe_rules steady_rules E_safe simple_safe)

lemma cond_safe: "safe (expr_next E)" "safe (expr_cond E)"
  unfolding expr_next_def expr_cond_def Let_def by (intro safe_rules steady_rules call_safe)+

lemma rhs_safe: "safe (assign_rhs E v n)"
  unfolding assign_rhs_def by (intro safe_rules steady_rules list_safe; simp)

lemma assignment_safe: "safe (parse_assignment n E lh nvars)"
proof (induction n arbitrary: lh nvars)
  case (Suc n)
  show ?case unfolding parse_assignment.simps by (intro safe_rules rhs_safe primary_safe Suc)
qed (simp add: safe_rules)

lemma call_assign_safe: "safe (parse_call_assign E)"
  unfolding parse_call_assign_def by (intro safe_rules steady_rules primary_safe assignment_safe)

lemma local_safe: "safe (local_func C)" "safe (parse_local E C)" "safe (parse_func C)"
  unfolding parse_local_def parse_func_def local_func_def names_loop_def
  by (intro safe_rules steady_rules bodies_safe list_safe; simp)+

lemma return_safe: "safe (parse_return E)"
  unfolding parse_return_def return_ins_def Let_def
  by (intro safe_rules steady_rules list_safe; simp add: func_ok_or)

lemma block_safe: "safe (parse_block C)"
  unfolding parse_block_def by (intro safe_rules C_safe)

lemma loops_safe: "safe (parse_while E C)" "safe (parse_repeat E C l)"
  unfolding parse_while_def parse_repeat_def by (intro safe_rules steady_rules cond_safe block_safe C_safe)+

lemma for_safe: "safe (parse_for E C l)"
  unfolding parse_for_def parse_for_num_def parse_for_iter_def iter_names_def
  by (intro safe_rules steady_rules cond_safe block_safe list_safe; simp)

lemma if_safe: "safe (parse_if E C)"
  unfolding parse_if_def elseif_loop_def parse_then_def by (intro safe_rules steady_rules cond_safe block_safe)

lemma probes_safe: "safe (parse_trace C)" "safe (parse_timer C)"
  unfolding parse_trace_def parse_timer_def by (intro safe_rules steady_rules bodies_safe)+

lemma stmt_safe: "safe (parse_stmt E C)"
  unfolding parse_stmt_def Let_def
  by (intro safe_rules steady_rules loops_safe for_safe if_safe local_safe return_safe block_safe probes_safe call_assign_safe)

lemma chunk_safe: "safe (parse_chunk E C)"
  unfolding parse_chunk_def chunk_loop_def by (intro safe_rules steady_rules stmt_safe; simp)

end

lemma rec_safe: "nested_safe (expr_rec n) (chunk_rec n)"
proof (induction n)
  case 0
  show ?case by unfold_locales (simp_all add: safe_def)
next
  case (Suc n)
  show ?case unfolding rec_Suc
    by unfold_locales (rule nested_safe.binop_safe [OF Suc] nested_safe.chunk_safe [OF Suc])+
qed

interpretation main_safe: nested_safe "expr_rec n" "chunk_rec n" for n
  by (rule rec_safe)

end
