(* ===== verification/Ktap_Compile.thy ===== *)
theory Ktap_Compile
  imports Ktap_Parse_Arith Ktap_Parse_Wf
begin

text \<open>
  Whole programs: the main function around a \<^verbatim>\<open>return\<close> statement, from the text to the finished prototype, and
  the well-formedness of whatever the compiler returns.
\<close>

section \<open>Constants of a small program\<close>

definition kt_key :: "ktap_tab \<Rightarrow> nat \<Rightarrow> ktap_val \<Rightarrow> ktap_val \<Rightarrow> ktap_tab" where
  "kt_key t n key v = t\<lparr>tnode := (tnode t)[n := (tnode t ! n)\<lparr>n_key := key, n_val := v\<rparr>], freetop := n\<rparr>"

text \<open>The nodes below the free one have neither keys nor values.\<close>

definition kt_fresh :: "nat \<Rightarrow> ktap_tab \<Rightarrow> bool" where
  "kt_fresh n t \<longleftrightarrow> hmask t = 1023 \<and> length (tnode t) = 1024 \<and> freetop t = n \<and> n \<le> 1024 \<and>
     (\<forall>i<n. itype (n_key (tnode t ! i)) = KTAP_TNIL \<and> itype (n_val (tnode t ! i)) = KTAP_TNIL)"

lemma new_fresh: "kt_fresh 1024 (ukp_tab_new ju)"
  by (simp add: kt_fresh_def ukp_tab_new_def set_nil_def)

lemma kt_key_fresh: "kt_fresh (Suc n) t \<Longrightarrow> kt_fresh n (kt_key t n key v)"
  by (auto simp: kt_fresh_def kt_key_def nth_list_update)

lemma fresh_find:
  assumes "kt_fresh n t" "uplain key" "\<forall>i. n \<le> i \<and> i < 1024 \<longrightarrow> ukey (n_key (tnode t ! i)) \<noteq> ukey key"
  shows "ukp_tab_find t key = None"
proof -
  have "\<not> ukey_match key (n_key (tnode t ! i))" if "i < 1024" for i
  proof (cases "i < n")
    case True
    then have "itype (n_key (tnode t ! i)) = KTAP_TNIL" using assms(1) by (simp add: kt_fresh_def)
    then have "ukey (n_key (tnode t ! i)) \<noteq> ukey key" using assms(2) by (auto simp: ukey_def uplain_def is_number_def is_string_def)
    then show ?thesis using ukey_match_plain [OF assms(2)] by blast
  qed (use assms that ukey_match_plain in auto)
  then show ?thesis using assms(1) by (auto simp: ukp_tab_find_def kt_fresh_def find_None_iff)
qed

lemma fresh_set:
  assumes "kt_fresh (Suc n) t" "uplain key" "\<forall>i. n < i \<and> i < 1024 \<longrightarrow> ukey (n_key (tnode t ! i)) \<noteq> ukey key"
  shows "ukp_tab_set t key = Some (n, kt_key t n key (set_nil (n_val (tnode t ! n))))"
  using fresh_find [OF assms(1,2)] assms(1,3) by (simp add: ukp_tab_set_def ugrow_def kt_fresh_def kt_key_def Suc_le_eq)

lemma fixup_none: "\<forall>n\<in>set ns. \<not> is_number (n_val n) \<Longrightarrow> fixup_nodes s ns ks = Some ks"
  by (induction ns) (cases ks; auto)+

lemma fixup_append: "fixup_nodes s (ns @ ms) ks = Option.bind (fixup_nodes s ns ks) (fixup_nodes s ms)"
proof (induction ns arbitrary: ks)
  case (Cons n ns)
  then show ?case by (cases ks) (auto simp: Let_def split: option.split)
qed simp

lemma fixup_fresh:
  assumes "kt_fresh n t"
  shows "fixup_nodes s (tnode t) ks = fixup_nodes s (drop n (tnode t)) ks"
proof -
  have "\<not> is_number (n_val x)" if x: "x \<in> set (take n (tnode t))" for x
  proof -
    obtain i where "i < n" "x = tnode t ! i" using x assms by (auto simp: in_set_conv_nth kt_fresh_def)
    then show ?thesis using assms by (simp add: kt_fresh_def is_number_def)
  qed
  then have "fixup_nodes s (take n (tnode t)) ks = Some ks" using fixup_none by blast
  then show ?thesis using fixup_append [of s "take n (tnode t)" "drop n (tnode t)" ks] by simp
qed

section \<open>Emission into the main function\<close>

lemma emit_plain:
  assumes "fs_jpc fs = NO_JMP" "length (fs_bc fs) < fs_bclim fs"
  shows "bcemit_INS i fs = Inr (fs_pc fs, fs\<lparr>fs_bc := fs_bc fs @ [(i, fs_lastline fs)]\<rparr>)"
proof -
  have p: "patchval_loop n NO_JMP a b c fs = Inr ((), fs)" for n a b c fs by (cases n) (simp_all add: cret_def)
  have "fs\<lparr>fs_jpc := NO_JMP\<rparr> = fs" using assms(1) by (cases fs) simp
  then show ?thesis using assms by (simp add: bcemit_INS_def bc_room_def jmp_patchval_def cg_simps p)
qed

definition main_fs :: "ktap_tab \<Rightarrow> (bcins \<times> nat) list \<Rightarrow> u32 \<Rightarrow> u32 \<Rightarrow> nat \<Rightarrow> nat \<Rightarrow> u8 list \<Rightarrow> fstate" where
  "main_fs kt bc freereg nkn sz lastline vinfo =
     \<lparr>fs_kt = kt, fs_bc = bc, fs_lasttarget = 0, fs_jpc = NO_JMP, fs_freereg = freereg, fs_nactvar = 0,
      fs_nkn = nkn, fs_nkgc = 0, fs_base = 0, fs_bclim = 20, fs_sizebc = sz, fs_framesize = 1, fs_lastline = lastline, fs_vinfo = vinfo\<rparr>"

definition main_pf :: "fstate \<Rightarrow> u8 \<Rightarrow> pfunc" where
  "main_pf fs flags =
     \<lparr>pf_fs = fs, pf_bl = [\<lparr>bl_vstart = 0, bl_nactvar = 0, bl_flags = 0\<rparr>], pf_linedefined = 0, pf_vbase = 0, pf_flags = flags, pf_numparams = 0,
      pf_varmap = Map.empty, pf_uv = []\<rparr>"

text \<open>The parser within the main function, with no variable declared: constants, code, free register, number constants, flags.\<close>

definition in_main :: "pstate \<Rightarrow> ktap_tab \<Rightarrow> bcins list \<Rightarrow> u32 \<Rightarrow> u32 \<Rightarrow> u8 \<Rightarrow> bool" where
  "in_main s kt code freereg nkn flags \<longleftrightarrow>
     (\<exists>bc sz l vinfo. map fst bc = code \<and> ps_fs s = [main_pf (main_fs kt bc freereg nkn sz l vinfo) flags]) \<and>
     ps_vstack s = [] \<and> ps_vtop s = 0 \<and> ps_sizebc s = 20"

lemma in_main_kept: "in_main s kt code r n fl \<Longrightarrow> kept s s' \<Longrightarrow> in_main s' kt code r n fl"
  by (elim keptE) (fastforce simp: in_main_def main_fs_def main_pf_def)

lemma in_main_lex [simp]: "in_main (s\<lparr>ps_ls := ls\<rparr>) kt code r n fl = in_main s kt code r n fl"
  "in_main (s\<lparr>ps_tokval := tv\<rparr>) kt code r n fl = in_main s kt code r n fl"
  "in_main (s\<lparr>ps_strs := st\<rparr>) kt code r n fl = in_main s kt code r n fl"
  "in_main (s\<lparr>ps_level := lv\<rparr>) kt code r n fl = in_main s kt code r n fl"
  by (simp_all add: in_main_def)

text \<open>An operation of the code generator that is known on every such function.\<close>

lemma gen_main:
  assumes "in_main s kt code r n fl"
    "\<And>bc l. map fst bc = code \<Longrightarrow> \<exists>bc'. map fst bc' = code' \<and> m (main_fs kt bc r n 20 l []) = Inr (x, main_fs kt' bc' r' n' 20 l [])"
  shows "\<exists>fs. gen m s = Inr (x, s\<lparr>ps_fs := fs\<rparr>) \<and> in_main (s\<lparr>ps_fs := fs\<rparr>) kt' code' r' n' fl"
proof -
  obtain bc sz l vinfo where f: "map fst bc = code" "ps_fs s = [main_pf (main_fs kt bc r n sz l vinfo) fl]"
    and v: "ps_vstack s = []" "ps_vtop s = 0" "ps_sizebc s = 20" using assms(1) by (auto simp: in_main_def)
  let ?f = "main_pf (main_fs kt bc r n sz l vinfo) fl"
  have "share s ?f = main_fs kt bc r n 20 (ls_lastline (ps_ls s)) []" using v by (simp add: share_def main_pf_def main_fs_def)
  with assms(2) [OF f(1), of "ls_lastline (ps_ls s)"] obtain bc' where
    m: "map fst bc' = code'" "m (share s ?f) = Inr (x, main_fs kt' bc' r' n' 20 (ls_lastline (ps_ls s)) [])" by auto
  have "s\<lparr>ps_fs := fs, ps_sizebc := 20, ps_vstack := []\<rparr> = s\<lparr>ps_fs := fs\<rparr>" for fs using v by (cases s) simp
  then have "gen m s = Inr (x, s\<lparr>ps_fs := [main_pf (main_fs kt' bc' r' n' 20 (ls_lastline (ps_ls s)) []) fl]\<rparr>)"
    using f(2) m(2) v by (simp add: gen_def main_pf_def main_fs_def)
  moreover have "in_main (s\<lparr>ps_fs := [main_pf (main_fs kt' bc' r' n' 20 (ls_lastline (ps_ls s)) []) fl]\<rparr>) kt' code' r' n' fl"
    using m(1) v by (auto simp: in_main_def)
  ultimately show ?thesis by blast
qed

text \<open>A reserved word is scanned: its string is kept.\<close>

lemma keepstr_main:
  assumes "in_main s kt code r n fl" "kt_fresh (Suc k) kt" "ukp_str_new (pe_str (ps_env s)) (ps_strs s) w = Some (a, strs)"
    "\<forall>i. k < i \<and> i < 1024 \<longrightarrow> ukey (n_key (tnode kt ! i)) \<noteq> (KTAP_TSTR, a)"
  shows "\<exists>fs v. keepstr w s = Inr (a, s\<lparr>ps_strs := strs, ps_fs := fs\<rparr>) \<and> \<not> is_number v \<and>
     in_main (s\<lparr>ps_strs := strs, ps_fs := fs\<rparr>) (kt_key kt k \<lparr>itype = KTAP_TSTR, vbits = a\<rparr> v) code r n fl"
proof -
  let ?key = "\<lparr>itype = KTAP_TSTR, vbits = a\<rparr>"
  let ?nil = "set_nil (n_val (tnode kt ! k))"
  let ?v = "set_bool ?nil 1"
  have k: "k < length (tnode kt)" using assms(2) by (simp add: kt_fresh_def)
  have "ukp_tab_set kt ?key = Some (k, kt_key kt k ?key ?nil)"
    by (rule fresh_set [OF assms(2)]) (use assms(4) in \<open>auto simp: uplain_def is_string_def ukey_def\<close>)
  then have m: "kp_parse_keepstr a (main_fs kt bc r n 20 l []) = Inr ((), main_fs (kt_key kt k ?key ?v) bc r n 20 l [])" for bc l
    using k by (simp add: kp_parse_keepstr_def cg_simps main_fs_def kt_key_def Let_def is_nil_def set_nil_def)
  have i: "in_main (s\<lparr>ps_strs := strs\<rparr>) kt code r n fl" using assms(1) by simp
  obtain fs where fs: "gen (kp_parse_keepstr a) (s\<lparr>ps_strs := strs\<rparr>) = Inr ((), s\<lparr>ps_strs := strs, ps_fs := fs\<rparr>)"
    "in_main (s\<lparr>ps_strs := strs, ps_fs := fs\<rparr>) (kt_key kt k ?key ?v) code r n fl"
    using gen_main [OF i, of code "kp_parse_keepstr a" "()" "kt_key kt k ?key ?v" r n] m by auto
  have "\<not> is_number ?v" by (simp add: set_bool_def is_number_def KTAP_TFALSE_def KTAP_TNUM_def)
  moreover have "keepstr w s = Inr (a, s\<lparr>ps_strs := strs, ps_fs := fs\<rparr>)"
    using assms(3) fs(1) by (simp add: keepstr_def pthe_def pseq_def pbind_def pget_def pret_def pmod_def)
  ultimately show ?thesis using fs(2) by blast
qed

section \<open>A number into a register\<close>

definition short_num :: "int \<Rightarrow> bool" where "short_num z \<longleftrightarrow> 0 \<le> z \<and> z \<le> 0xffff"

definition load_ins :: "int \<Rightarrow> bcins" where
  "load_ins z = (if short_num z then BCINS_AD (op_of BC_KSHORT) 0 (word_of_int z) else BCINS_AD (op_of BC_KNUM) 0 0)"

definition load_kt :: "ktap_tab \<Rightarrow> nat \<Rightarrow> int \<Rightarrow> ktap_tab" where
  "load_kt kt k z = (if short_num z then kt else kt_key kt k (set_number (word_of_int z)) (set_number 0))"

lemma nobranch_num:
  assumes "is_num z v" "- (2 ^ 63) \<le> z" "z < 2 ^ 63" "kt_fresh (Suc k) kt" "length bc < 20"
    "\<forall>i. k < i \<and> i < 1024 \<longrightarrow> \<not> is_number (n_key (tnode kt ! i))"
  shows "expr_toreg_nobranch v 0 (main_fs kt bc r 0 20 l []) =
    Inr (v\<lparr>e_info := 0, e_k := VNONRELOC\<rparr>, main_fs (load_kt kt k z) (bc @ [(load_ins z, l)]) r (if short_num z then 0 else 1) 20 l [])"
proof -
  have nv: "expr_numberV v = word_of_int z" using num_value [OF assms(1)] .
  have s: "sint (word_of_int z :: u64) = z" using sint_long assms(2,3) by blast
  have emit: "bcemit_INS i (main_fs t bc r n 20 l []) = Inr (fs_pc (main_fs t bc r n 20 l []), main_fs t (bc @ [(i, l)]) r n 20 l [])" for i t n
    using emit_plain [of "main_fs t bc r n 20 l []" i] assms(5) by (simp add: main_fs_def)
  have k: "e_k v = VKNUM" using assms(1) by (simp add: is_num_def)
  show ?thesis
  proof (cases "short_num z")
    case True
    have "ucast (word_of_int z :: u64) = (word_of_int z :: u32)" by (rule bit_word_eqI) (simp add: bit_simps)
    then show ?thesis using True k nv s num_discharge [OF assms(1)] emit
      by (simp add: expr_toreg_nobranch_def cg_simps Let_def short_num_def load_ins_def load_kt_def)
  next
    case False
    let ?key = "set_number (word_of_int z)"
    have set: "ukp_tab_set kt ?key = Some (k, kt_key kt k ?key (set_nil (n_val (tnode kt ! k))))"
      by (rule fresh_set [OF assms(4)]) (use assms(6) in \<open>auto simp: uplain_def ukey_def is_number_def set_number_def\<close>)
    have "k < length (tnode kt)" using assms(4) by (simp add: kt_fresh_def)
    then have "const_num v (main_fs kt bc r 0 20 l []) = Inr (0, main_fs (load_kt kt k z) bc r 1 20 l [])"
      using set assms(1) False
      by (simp add: const_num_def kslot_def cg_simps main_fs_def is_num_def kt_key_def load_kt_def Let_def is_number_def set_nil_def)
    then show ?thesis using False k nv s num_discharge [OF assms(1)] emit
      by (auto simp: expr_toreg_nobranch_def cg_simps Let_def short_num_def load_ins_def)
  qed
qed

lemma toanyreg_num:
  assumes "is_num z v" "- (2 ^ 63) \<le> z" "z < 2 ^ 63" "kt_fresh (Suc k) kt" "length bc < 20"
    "\<forall>i. k < i \<and> i < 1024 \<longrightarrow> \<not> is_number (n_key (tnode kt ! i))"
  shows "\<exists>w. e_info w = 0 \<and> expr_toanyreg v (main_fs kt bc 0 0 20 l []) =
    Inr (w, main_fs (load_kt kt k z) (bc @ [(load_ins z, l)]) 1 (if short_num z then 0 else 1) 20 l [])"
proof -
  have k: "e_k v = VKNUM" "e_t v = NO_JMP" "e_f v = NO_JMP" using assms(1) by (auto simp: is_num_def)
  have res: "bcreg_reserve 1 (main_fs kt bc 0 0 20 l []) = Inr ((), main_fs kt bc 1 0 20 l [])"
    by (simp add: bcreg_reserve_def bcreg_bump_def cg_simps main_fs_def)
  have "fs_freereg (main_fs kt bc 1 0 20 l []) = 1" by (simp add: main_fs_def)
  then have "expr_tonextreg v (main_fs kt bc 0 0 20 l []) =
    Inr (v\<lparr>e_info := 0, e_k := VNONRELOC, e_t := NO_JMP, e_f := NO_JMP\<rparr>, main_fs (load_kt kt k z) (bc @ [(load_ins z, l)]) 1 (if short_num z then 0 else 1) 20 l [])"
    using k num_discharge [OF assms(1)] res nobranch_num [OF assms, of 1 l]
    by (simp add: expr_tonextreg_def expr_free_def expr_toreg_def expr_hasjump_def cg_simps Let_def)
  then show ?thesis using k num_discharge [OF assms(1)] by (simp add: expr_toanyreg_def cg_simps)
qed

section \<open>The statement\<close>

lemmas run_simps = pseq_def pbind_def pget_def pret_def pmod_def

lemma looking_lex: "looking s ts \<Longrightarrow> ps_ls s' = ps_ls s \<Longrightarrow> ps_tokval s' = ps_tokval s \<Longrightarrow> looking s' ts"
  by (simp add: looking_def cong: list.case_cong)

lemma in_main_top: "in_main s kt code r n fl \<Longrightarrow> ps_fs s \<noteq> []"
  by (auto simp: in_main_def)

lemma return_value:
  assumes "looking s (arith_toks 0 e)" "in_main s kt code 0 0 fl" "arith_val e = Some z" "unat (ps_level s) + arith_depth e < 200" "arith_depth e \<le> n"
    "kt_fresh (Suc k) kt" "length code < 18" "\<forall>i. k < i \<and> i < 1024 \<longrightarrow> \<not> is_number (n_key (tnode kt ! i))"
  shows "\<exists>s'. return_ins (expr_rec n) s = Inr (BCINS_AD (op_of BC_RET1) 0 2, s') \<and> looking s' [] \<and> ps_level s' = ps_level s \<and> ps_env s' = ps_env s \<and>
     in_main s' (load_kt kt k z) (code @ [load_ins z]) 1 (if short_num z then 0 else 1) fl"
proof -
  have "parsed (expr_rec n 0) [] z s"
    using climbs_parsed [OF arith_climbs _ _ _ in_main_top [OF assms(2)] assms(3) _ assms(4,5), of 0 "[]"] assms(1) by simp
  then obtain v s1 op where s1: "expr_rec n 0 s = Inr ((op, v), s1)" "is_num z v" "looking s1 []" "kept s s1"
    unfolding parsed_def by blast
  have i1: "in_main s1 kt code 0 0 fl" using in_main_kept [OF assms(2) s1(4)] .
  have t: "tok_of s1 = TK_eof" using s1(3) by (simp add: looking_def)
  have "pwhile (list_loop (expr_rec n)) (1, v) s1 = Inr ((1, v), s1)"
    using t by (simp add: pwhile_run list_loop_def lex_opt_def run_simps)
  then have el: "expr_list (expr_rec n) s = Inr ((1, v), s1)"
    using s1(1) by (simp add: expr_list_def call_expr_def run_simps)
  note r = arith_val_range [OF assms(3)]
  have "\<exists>bc'. map fst bc' = code @ [load_ins z] \<and> cbind (expr_toanyreg v) (\<lambda>w. cret (e_info w)) (main_fs kt bc 0 0 20 l []) =
       Inr (0, main_fs (load_kt kt k z) bc' 1 (if short_num z then 0 else 1) 20 l [])" if "map fst bc = code" for bc l
  proof -
    have "length bc < 20" using that assms(7) by auto
    then obtain w where "e_info w = 0" "expr_toanyreg v (main_fs kt bc 0 0 20 l []) =
       Inr (w, main_fs (load_kt kt k z) (bc @ [(load_ins z, l)]) 1 (if short_num z then 0 else 1) 20 l [])"
      using toanyreg_num [OF s1(2) _ _ assms(6) _ assms(8), of bc l] r by auto
    then show ?thesis using that by (intro exI [of _ "bc @ [(load_ins z, l)]"]) (simp add: cg_simps)
  qed
  from gen_main [OF i1 this] obtain fs where
    g: "gen (cbind (expr_toanyreg v) (\<lambda>w. cret (e_info w))) s1 = Inr (0, s1\<lparr>ps_fs := fs\<rparr>)"
      "in_main (s1\<lparr>ps_fs := fs\<rparr>) (load_kt kt k z) (code @ [load_ins z]) 1 (if short_num z then 0 else 1) fl" by auto
  obtain w where w: "gen (expr_toanyreg v) s1 = Inr (w, s1\<lparr>ps_fs := fs\<rparr>)" "e_info w = 0"
    using g(1) by (auto simp: gen_def cg_simps cg_error_fails pfail_def split: list.splits sum.splits)
  have "return_ins (expr_rec n) s = Inr (BCINS_AD (op_of BC_RET1) 0 2, s1\<lparr>ps_fs := fs\<rparr>)"
    using el w s1(2) by (simp add: return_ins_def run_simps is_num_def Let_def)
  moreover have "looking (s1\<lparr>ps_fs := fs\<rparr>) []" "ps_level s1 = ps_level s" "ps_env s1 = ps_env s"
    using s1(3) kept_fs [OF s1(4)] s1(4) by (auto elim: keptE)
  ultimately show ?thesis using g(2) by auto
qed

lemma return_stmt:
  assumes "looking s (Word w # arith_toks 0 e)" "tok_of s = TK_return" "in_main s kt code 0 0 2" "arith_val e = Some z"
    "unat (ps_level s) + arith_depth e < 200" "arith_depth e \<le> n"
    "kt_fresh (Suc k) kt" "length code < 18" "\<forall>i. k < i \<and> i < 1024 \<longrightarrow> \<not> is_number (n_key (tnode kt ! i))"
  shows "\<exists>s'. parse_return (expr_rec n) s = Inr ((), s') \<and> looking s' [] \<and> ps_level s' = ps_level s \<and> ps_env s' = ps_env s \<and>
     in_main s' (load_kt kt k z) (code @ [load_ins z, BCINS_AD (op_of BC_RET1) 0 2]) 1 (if short_num z then 0 else 1) 0x22"
proof -
  obtain s1 where s1: "p_next s = Inr ((), s1)" "looking s1 (arith_toks 0 e)" "kept s s1"
    using p_next_looking [OF assms(1) in_main_top [OF assms(3)]] arith_hd [of 0 e "[]"] by auto
  note i1 = in_main_kept [OF assms(3) s1(3)]
  then obtain bc sz l vinfo where f1: "map fst bc = code" "ps_fs s1 = [main_pf (main_fs kt bc 0 0 sz l vinfo) 2]" by (auto simp: in_main_def)
  let ?s2 = "s1\<lparr>ps_fs := [main_pf (main_fs kt bc 0 0 sz l vinfo) 0x22]\<rparr>"
  have fl: "set_fs (\<lambda>f. f\<lparr>pf_flags := pf_flags f OR PROTO_HAS_RETURN\<rparr>) s1 = Inr ((), ?s2)"
    using f1 by (simp add: set_fs_def run_simps main_pf_def)
  have i2: "in_main ?s2 kt code 0 0 0x22" using i1 f1(1) by (auto simp: in_main_def)
  have l2: "looking ?s2 (arith_toks 0 e)" using s1(2) by simp
  have "plain_token (hd (arith_toks 0 e))" using arith_hd [of 0 e "[]"] by simp
  moreover obtain t ts where tt: "arith_toks 0 e = t # ts" using arith_toks_nonempty [of 0 e] by (cases "arith_toks 0 e") auto
  ultimately have "fst (token_code t) \<notin> {TK_else, TK_elseif, TK_end, TK_until, TK_eof, c_rcur, c_semi}"
    using arith_first [of 0 e] by auto
  then have tok: "\<not> parse_isend (tok_of ?s2)" "tok_of ?s2 \<noteq> c_semi"
    using l2 tt by (auto simp: looking_def parse_isend_def)
  have "ps_level s1 = ps_level s" "ps_env s1 = ps_env s" using kept_fs [OF s1(3)] s1(3) by (auto elim: keptE)
  with return_value [OF l2 i2 assms(4) _ assms(6-9)] assms(5) obtain s3 where
    s3: "return_ins (expr_rec n) ?s2 = Inr (BCINS_AD (op_of BC_RET1) 0 2, s3)" "looking s3 []" "ps_level s3 = ps_level s" "ps_env s3 = ps_env s"
      "in_main s3 (load_kt kt k z) (code @ [load_ins z]) 1 (if short_num z then 0 else 1) 0x22" by auto
  let ?i = "BCINS_AD (op_of BC_RET1) 0 2"
  have "\<exists>bc'. map fst bc' = code @ [load_ins z, ?i] \<and> cbind (bcemit_INS ?i) (\<lambda>_. cret ()) (main_fs (load_kt kt k z) bc 1 (if short_num z then 0 else 1) 20 l []) =
       Inr ((), main_fs (load_kt kt k z) bc' 1 (if short_num z then 0 else 1) 20 l [])" if "map fst bc = code @ [load_ins z]" for bc l
  proof -
    have "length (map fst bc) = length code + 1" using that by simp
    then have "length bc < 20" using assms(8) by simp
    then show ?thesis using that emit_plain [of "main_fs (load_kt kt k z) bc 1 (if short_num z then 0 else 1) 20 l []" ?i]
      by (intro exI [of _ "bc @ [(?i, l)]"]) (auto simp: cg_simps main_fs_def)
  qed
  from gen_main [OF s3(5) this] obtain fs where
    g: "gen (cbind (bcemit_INS ?i) (\<lambda>_. cret ())) s3 = Inr ((), s3\<lparr>ps_fs := fs\<rparr>)"
      "in_main (s3\<lparr>ps_fs := fs\<rparr>) (load_kt kt k z) (code @ [load_ins z, ?i]) 1 (if short_num z then 0 else 1) 0x22" by auto
  obtain x where x: "gen (bcemit_INS ?i) s3 = Inr (x, s3\<lparr>ps_fs := fs\<rparr>)"
    using g(1) by (auto simp: gen_def cg_simps cg_error_fails pfail_def split: list.splits sum.splits)
  obtain f3 where f3: "ps_fs s3 = [f3]" "pf_flags f3 = 0x22" using s3(5) by (auto simp: in_main_def main_pf_def)
  have "parse_return (expr_rec n) s = Inr ((), s3\<lparr>ps_fs := fs\<rparr>)"
    using s1(1) fl tok s3(1) f3 x by (simp add: parse_return_def cur_fs_def run_simps)
  then show ?thesis using g(2) s3 by auto
qed

section \<open>The program\<close>

definition return_word :: "u8 list" where "return_word = bytes ''return''"

lemma return_code: "token_ok (Word return_word)" "kp_lex_init return_word = 41"
  by code_simp+

definition fresh_parser :: "pstate \<Rightarrow> u8 list \<Rightarrow> bool" where
  "fresh_parser s text \<longleftrightarrow> ps_fs s = [] \<and> ps_objs s = Map.empty \<and> ps_vstack s = [] \<and> ps_vtop s = 0 \<and> ps_sizebc s = 0 \<and>
     ps_strs s = ukp_str_resize \<and> ls_in (ps_ls s) = text \<and> ls_lookahead (ps_ls s) = TK_eof \<and> (\<forall>b. 200 \<le> pe_room (ps_env s) b)"

lemma start_main:
  assumes "ps_fs s = []" "ps_vstack s = []" "ps_vtop s = 0" "ps_sizebc s = 0"
  shows "\<exists>fs sz. pseq (fs_init 0) (pseq (set_fs (\<lambda>f. f\<lparr>pf_flags := PROTO_VARARG\<rparr>)) (pseq (fscope_begin 0) (gen (bcemit_AD BC_FUNCV 0 0)))) s =
       Inr (0, s\<lparr>ps_fs := fs, ps_sizebc := sz\<rparr>) \<and>
     in_main (s\<lparr>ps_fs := fs, ps_sizebc := sz\<rparr>) (ukp_tab_new (pe_node (ps_env s))) [BCINS_AD (op_of BC_FUNCV) 0 0] 0 0 2"
proof -
  let ?T = "ukp_tab_new (pe_node (ps_env s))" and ?i = "BCINS_AD (op_of BC_FUNCV) 0 0" and ?l = "ls_lastline (ps_ls s)"
  let ?F = "main_pf (main_fs ?T [(?i, ?l)] 0 0 20 ?l []) 2"
  have "pseq (fs_init 0) (pseq (set_fs (\<lambda>f. f\<lparr>pf_flags := PROTO_VARARG\<rparr>)) (pseq (fscope_begin 0) (gen (bcemit_AD BC_FUNCV 0 0)))) s =
      Inr (0, s\<lparr>ps_fs := [?F], ps_sizebc := 20, ps_vstack := []\<rparr>)"
    using assms
    by (simp add: run_simps fs_init_def set_fs_def fscope_begin_def gen_def share_def bcemit_INS_def cg_simps jmp_patchval_def bc_room_def
        KP_MAX_BCINS_def fs_pc_def main_pf_def main_fs_def)
  moreover have "s\<lparr>ps_fs := [?F], ps_sizebc := 20, ps_vstack := []\<rparr> = s\<lparr>ps_fs := [?F], ps_sizebc := 20\<rparr>" using assms(2) by (cases s) simp
  moreover have "in_main (s\<lparr>ps_fs := [?F], ps_sizebc := 20\<rparr>) ?T [?i] 0 0 2" using assms(2,3)
    unfolding in_main_def by (intro conjI exI [of _ "[(?i, ?l)]"] exI [of _ 20] exI [of _ ?l] exI [of _ "[]"]) simp_all
  ultimately show ?thesis by metis
qed

lemma first_word:
  assumes "in_main s kt code r n fl" "kt_fresh (Suc k) kt" "ukp_str_new (pe_str (ps_env s)) (ps_strs s) return_word = Some (a, strs)"
    "\<forall>i. k < i \<and> i < 1024 \<longrightarrow> ukey (n_key (tnode kt ! i)) \<noteq> (KTAP_TSTR, a)"
    "ls_in (ps_ls s) = print_tokens (Word return_word # ts)" "ls_lookahead (ps_ls s) = TK_eof"
  shows "\<exists>s' v. p_next s = Inr ((), s') \<and> looking s' (Word return_word # ts) \<and> ps_level s' = ps_level s \<and> ps_env s' = ps_env s \<and> \<not> is_number v \<and>
     in_main s' (kt_key kt k \<lparr>itype = KTAP_TSTR, vbits = a\<rparr> v) code r n fl"
proof -
  obtain ls1 where ls1: "kp_lex_next (ps_ls s) = Inr ls1" "ls_in ls1 = print_tokens ts" "ls_lookahead ls1 = TK_eof"
    "token_seen (Word return_word) (ls_tok ls1, ls_tokval ls1)"
    using next_token [OF return_code(1) print_tokens_ends _ assms(6)] assms(5) by (auto simp: print_tokens_Cons)
  then have t: "ls_tok ls1 = TK_return" "ls_tokval ls1 = TvStr return_word" by (simp_all add: token_seen_def return_code)
  let ?s = "s\<lparr>ps_ls := ls1\<rparr>"
  obtain fs v where k: "keepstr return_word ?s = Inr (a, ?s\<lparr>ps_strs := strs, ps_fs := fs\<rparr>)" "\<not> is_number v"
    "in_main (?s\<lparr>ps_strs := strs, ps_fs := fs\<rparr>) (kt_key kt k \<lparr>itype = KTAP_TSTR, vbits = a\<rparr> v) code r n fl"
    using keepstr_main [of ?s kt code r n fl k return_word a strs] assms by auto
  let ?s' = "?s\<lparr>ps_strs := strs, ps_fs := fs, ps_tokval := set_string a\<rparr>"
  have "p_next s = Inr ((), ?s')"
    using assms(6) ls1(1) t k(1) by (simp add: p_next_def plex_def scanned_def run_simps)
  moreover have "looking ?s' (Word return_word # ts)" using ls1 t by (simp add: looking_def return_code)
  ultimately show ?thesis using k(2,3) by (intro exI [of _ ?s'] exI [of _ v]) simp
qed

lemma return_chunk:
  assumes "looking s (Word return_word # arith_toks 0 e)" "in_main s kt code 0 0 2" "arith_val e = Some z"
    "ps_level s = 0" "arith_depth e < 199" "kt_fresh (Suc k) kt" "length code < 18" "\<forall>i. k < i \<and> i < 1024 \<longrightarrow> \<not> is_number (n_key (tnode kt ! i))"
  shows "\<exists>s'. chunk_rec 200 s = Inr ((), s') \<and> looking s' [] \<and> ps_env s' = ps_env s \<and>
     in_main s' (load_kt kt k z) (code @ [load_ins z, BCINS_AD (op_of BC_RET1) 0 2]) 0 (if short_num z then 0 else 1) 0x22"
proof -
  let ?E = "expr_rec 199" and ?C = "chunk_rec 199" and ?s = "s\<lparr>ps_level := 1\<rparr>"
  have tok: "tok_of s = TK_return" using assms(1) by (simp add: looking_def return_code)
  obtain s1 where s1: "parse_return ?E ?s = Inr ((), s1)" "looking s1 []" "ps_env s1 = ps_env s"
    "in_main s1 (load_kt kt k z) (code @ [load_ins z, BCINS_AD (op_of BC_RET1) 0 2]) 1 (if short_num z then 0 else 1) 0x22"
    using return_stmt [of ?s return_word e kt code z 199 k] assms tok by auto
  have "\<exists>bc'. map fst bc' = c \<and> cmod (\<lambda>fs. fs\<lparr>fs_freereg := fs_nactvar fs\<rparr>) (main_fs t bc 1 n 20 l []) = Inr ((), main_fs t bc' 0 n 20 l [])"
    if "map fst bc = c" for bc l c t n using that by (auto simp: cmod_def main_fs_def)
  from gen_main [OF s1(4) this] obtain fs where g: "genmod (\<lambda>fs. fs\<lparr>fs_freereg := fs_nactvar fs\<rparr>) s1 = Inr ((), s1\<lparr>ps_fs := fs\<rparr>)"
    "in_main (s1\<lparr>ps_fs := fs\<rparr>) (load_kt kt k z) (code @ [load_ins z, BCINS_AD (op_of BC_RET1) 0 2]) 0 (if short_num z then 0 else 1) 0x22" by auto
  have t1: "tok_of s1 = TK_eof" using s1(2) by (simp add: looking_def)
  have r1: "chunk_loop ?E ?C False ?s = Inr (Inl True, s1\<lparr>ps_fs := fs\<rparr>)"
    using tok s1(1) t1 g(1) by (simp add: chunk_loop_def parse_stmt_def parse_isend_def lex_opt_def run_simps Let_def)
  have r2: "chunk_loop ?E ?C True s' = Inr (Inr (), s')" for s' by (simp add: chunk_loop_def run_simps)
  have "ps_left ?s > 0" using tok by (simp add: ps_left_def Let_def)
  then obtain m where m: "Suc (ps_left ?s) = Suc (Suc m)" by (cases "ps_left ?s") auto
  have "pwhile (chunk_loop ?E ?C) False ?s = Inr ((), s1\<lparr>ps_fs := fs\<rparr>)"
    unfolding pwhile_run m by (simp add: pbind_def r1 r2 pret_def)
  then have "chunk_rec 200 s = Inr ((), s1\<lparr>ps_fs := fs, ps_level := ps_level s1 - 1\<rparr>)"
    using rec_Suc(2) [of 199] assms(4) by (simp add: parse_chunk_wrapped wrapped_run KP_MAX_XLEVEL_def pret_def word_le_nat_alt)
  then show ?thesis using g(2) s1(2,3) by auto
qed


text \<open>The end of the main function, whose last instruction returns.\<close>

lemma finish_ret:
  assumes "in_main s kt code 0 n 0x22" "code = c @ [BCINS_AD (op_of BC_RET1) 0 2]" "length code < 20"
  shows "\<exists>bc sz l vinfo. map fst bc = code \<and>
     fs_fixup_ret s = Inr ((), s\<lparr>ps_fs := [(main_pf (main_fs kt bc 0 n sz l vinfo) 0x22)\<lparr>pf_bl := []\<rparr>]\<rparr>)"
proof -
  obtain bc sz l vinfo where f: "map fst bc = code" "ps_fs s = [main_pf (main_fs kt bc 0 n sz l vinfo) 0x22]"
    and v: "ps_vstack s = []" "ps_vtop s = 0" "ps_sizebc s = 20" using assms(1) by (auto simp: in_main_def)
  have len: "length bc = Suc (length c)" using arg_cong [OF f(1), of length] assms(2) by simp
  have lc: "length c < 19" using assms(2,3) by simp
  have pc: "unat (1 + of_nat (length c) :: u32) = Suc (length c)" "unat (of_nat (length c) :: u32) = length c"
    using lc by (simp_all add: unsigned_of_nat unat_word_ariths take_bit_nat_eq_self)
  have ins: "fst (bc ! length c) = BCINS_AD (op_of BC_RET1) 0 2" using f(1) assms(2) len by (metis lessI nth_append_length nth_map)
  have op: "bc_op (BCINS_AD (op_of BC_RET1) 0 2) = op_of BC_RET1" by code_simp
  have ret: "bcopisret (op_of BC_RET1)" by (simp add: bcopisret_def)
  have z: "\<not> (1 + of_nat (length c) :: u32) \<le> 0" using pc(1) by (simp add: word_le_nat_alt)
  let ?L = "ls_lastline (ps_ls s)"
  let ?F = "\<lambda>bl. (main_pf (main_fs kt bc 0 n 20 ?L []) 0x22)\<lparr>pf_bl := bl\<rparr>"
  have e: "s\<lparr>ps_fs := x, ps_sizebc := 20, ps_vstack := []\<rparr> = s\<lparr>ps_fs := x\<rparr>" for x using v by (cases s) simp
  have "fs_fixup_ret s = Inr ((), s\<lparr>ps_fs := [?F []]\<rparr>)"
    using f(2) v z pc ins op ret len
    by (simp add: fs_fixup_ret_def cur_fs_def or_flags_def set_fs_def fscope_end_def var_remove_def run_simps gen_def share_def cg_simps
        main_pf_def main_fs_def fs_pc_def ins_at_def e Let_def)
  then show ?thesis using f(1) by blast
qed

lemma finish_vars:
  assumes "ps_fs s = [f]" "pf_uv f = []" "pf_vbase f = 0" "ps_vtop s = 0" "\<forall>b. 200 \<le> pe_room (ps_env s) b"
  shows "\<exists>ls. fs_prep_var s = Inr ((0, [0]), s\<lparr>ps_ls := ls\<rparr>)"
proof -
  let ?ju = "pe_byte (ps_env s)" and ?sb = "kp_buf_reset \<lparr>sb_mem = map (pe_byte (ps_env s)) [0..<pe_room (ps_env s) (ls_sb (ps_ls s))], sb_p = None\<rparr>"
  have ok: "sbuf_ok ?sb" "kp_buf_str ?sb = Some []" "sb_p ?sb = Some 0" using assms(5) by (simp_all add: kp_buf_reset_def sbuf_ok_def kp_buf_str_def)
  from kp_buf_putb_ok [OF ok(1) ok(2), where ju = ?ju and c = 0] obtain sb' where "kp_buf_putb ?ju ?sb 0 = Some sb'" "kp_buf_str sb' = Some [0]"
    using ok(2) by force
  then show ?thesis using assms ok
    by (auto simp: fs_prep_var_def cur_fs_def run_simps pthe_def Let_def)
qed


lemma finish_consts:
  assumes "ps_fs s = [f]" "pf_fs f = main_fs (load_kt kt k z) bc 0 (if short_num z then 0 else 1) sz l vinfo"
    "kt_fresh (Suc k) kt" "\<forall>i. k < i \<and> i < 1024 \<longrightarrow> \<not> is_number (n_val (tnode kt ! i))"
  shows "fs_fixup_k s = Inr (([], if short_num z then [] else [TNum (word_of_int z)]), s)"
proof -
  have len: "length (tnode kt) = 1024" "k < 1024" using assms(3) by (simp_all add: kt_fresh_def)
  have "\<not> is_number (n_val x)" if x: "x \<in> set (drop (Suc k) (tnode kt))" for x
  proof -
    obtain j where "j < length (drop (Suc k) (tnode kt))" "drop (Suc k) (tnode kt) ! j = x" using x by (auto simp: in_set_conv_nth)
    then have "x = tnode kt ! (Suc k + j)" "Suc k + j < 1024" using len by auto
    then show ?thesis using assms(4) by auto
  qed
  then have none: "fixup_nodes s (drop (Suc k) (tnode kt)) ks = Some ks" for ks using fixup_none by blast
  show ?thesis
  proof (cases "short_num z")
    case True
    have "fixup_nodes s (tnode kt) ([], []) = Some ([], [])" using fixup_fresh [OF assms(3)] none by simp
    then show ?thesis using True assms(1,2) by (simp add: fs_fixup_k_def cur_fs_def run_simps pthe_def main_fs_def load_kt_def Let_def)
  next
    case False
    let ?n = "(tnode kt ! k)\<lparr>n_key := set_number (word_of_int z), n_val := set_number 0\<rparr>"
    have "drop k (tnode (load_kt kt k z)) = ?n # drop (Suc k) (tnode kt)"
      using False len by (simp add: load_kt_def kt_key_def Cons_nth_drop_Suc [symmetric])
    then have "fixup_nodes s (tnode (load_kt kt k z)) ([], [None]) = Some ([], [Some (TNum (word_of_int z))])"
      using fixup_fresh [OF kt_key_fresh [OF assms(3), where key = "set_number (word_of_int z)" and v = "set_number 0"]] none False
      by (simp add: load_kt_def is_number_def set_number_def)
    then show ?thesis using False assms(1,2) by (simp add: fs_fixup_k_def cur_fs_def run_simps pthe_def main_fs_def Let_def)
  qed
qed

lemma line_bytes: "length bc \<le> Suc n \<Longrightarrow> length (fs_fixup_line bc first num) \<le> 4 * n"
proof -
  have "length (concat (map f xs)) \<le> 4 * length xs" if "\<And>x. length (f x) \<le> 4" for f :: "bcins \<times> nat \<Rightarrow> u8 list" and xs
    using that by (induction xs) (auto intro: add_mono)
  from this [of "\<lambda>(_, line). let delta = int line - int first in if num < 256 then [word_of_int delta]
       else if num < 65536 then le16 (word_of_int delta) else le32 (word_of_int delta)" "tl bc"]
  have "length (fs_fixup_line bc first num) \<le> 4 * length (tl bc)" unfolding fs_fixup_line_def by (simp add: Let_def le16_def le32_def split: prod.split)
  moreover assume "length bc \<le> Suc n"
  ultimately show ?thesis by simp
qed

lemma finish_main:
  assumes "in_main s (load_kt kt k z) code 0 (if short_num z then 0 else 1) 0x22" "code = c @ [BCINS_AD (op_of BC_RET1) 0 2]" "length code < 20"
    "kt_fresh (Suc k) kt" "\<forall>i. k < i \<and> i < 1024 \<longrightarrow> \<not> is_number (n_val (tnode kt ! i))" "\<forall>b. 200 \<le> pe_room (ps_env s) b"
  shows "\<exists>dbg s'. fs_finish line s = Inr (UProto PROTO_VARARG 0 1 [] [] (if short_num z then [] else [TNum (word_of_int z)]) (tl code) (Some dbg), s') \<and>
     length (snd (snd dbg)) \<le> 4 * length code"
proof -
  obtain bc sz l vinfo where r: "map fst bc = code"
    "fs_fixup_ret s = Inr ((), s\<lparr>ps_fs := [(main_pf (main_fs (load_kt kt k z) bc 0 (if short_num z then 0 else 1) sz l vinfo) 0x22)\<lparr>pf_bl := []\<rparr>]\<rparr>)"
    using finish_ret [OF assms(1-3)] by blast
  let ?f = "(main_pf (main_fs (load_kt kt k z) bc 0 (if short_num z then 0 else 1) sz l vinfo) 0x22)\<lparr>pf_bl := []\<rparr>"
  let ?s1 = "s\<lparr>ps_fs := [?f]\<rparr>"
  have "ps_vtop s = 0" using assms(1) by (simp add: in_main_def)
  then obtain ls where v: "fs_prep_var ?s1 = Inr ((0, [0]), ?s1\<lparr>ps_ls := ls\<rparr>)"
    using finish_vars [of ?s1 ?f] assms(6) by (auto simp: main_pf_def)
  let ?s2 = "?s1\<lparr>ps_ls := ls\<rparr>"
  have kk: "fs_fixup_k ?s2 = Inr (([], if short_num z then [] else [TNum (word_of_int z)]), ?s2)"
    by (rule finish_consts [OF _ _ assms(4,5)]) (auto simp: main_pf_def)
  obtain f0 where f0: "ps_fs s = [f0]" using assms(1) by (auto simp: in_main_def)
  have "length bc = length code" using arg_cong [OF r(1), of length] by simp
  then have "length (fs_fixup_line bc first num) + 1 \<le> 4 * length code" for first num
    using line_bytes [of bc "length code - 1" first num] assms(2) by simp
  then show ?thesis using f0 r(2) v kk
    by (auto simp: fs_finish_def cur_fs_def run_simps Let_def main_pf_def main_fs_def fs_fixup_uv1_def fs_fixup_bc_def map_tl r(1))
qed

lemma first_string: "\<exists>a strs. ukp_str_new al ukp_str_resize w = Some (a, strs) \<and> st_size strs = 1000 \<and> length (st_objs strs) = 1"
  by (simp add: ukp_str_new_def ukp_str_resize_def stringtable_search_def stringtable_insert_def)

lemma next_string: "st_size t = 1000 \<Longrightarrow> length (st_objs t) = 1 \<Longrightarrow> \<exists>a strs. ukp_str_new al t w = Some (a, strs)"
  by (auto simp: ukp_str_new_def stringtable_insert_def Let_def split: option.split)

lemma pseq_chain:
  assumes "pseq a (pseq b (pseq c d)) s = Inr (x, s')"
  shows "pseq a (pseq b (pseq c (pseq d m))) s = m s'"
  using assms by (auto simp: pseq_def pbind_def split: sum.splits)

text \<open>The prototype of \<^verbatim>\<open>return e\<close>: a vararg function with one register, the number constant the value needs when it does not fit an
  instruction, the instruction that loads the value and the one that returns it.\<close>

definition return_proto :: "int \<Rightarrow> u32 \<times> u32 \<times> u8 list \<Rightarrow> uproto" where
  "return_proto z dbg = UProto PROTO_VARARG 0 1 [] [] (if short_num z then [] else [TNum (word_of_int z)])
     [load_ins z, BCINS_AD (op_of BC_RET1) 0 2] (Some dbg)"

lemma return_compiled:
  assumes "fresh_parser s (print_tokens (Word return_word # arith_toks 0 e))" "arith_val e = Some z" "arith_depth e < 199"
  shows "\<exists>dbg s'. kp_parse chunk s = Inr (return_proto z dbg, s') \<and> length (snd (snd dbg)) \<le> 12"
proof -
  note fresh = assms(1) [unfolded fresh_parser_def]
  obtain a strs where str: "ukp_str_new (pe_str (ps_env s)) (ps_strs s) chunk = Some (a, strs)" "st_size strs = 1000" "length (st_objs strs) = 1"
    using first_string fresh by metis
  let ?s0 = "s\<lparr>ps_strs := strs, ps_ls := (ps_ls s)\<lparr>ls_chunkname := chunk\<rparr>, ps_level := 0\<rparr>"
  let ?T = "ukp_tab_new (pe_node (ps_env s))" and ?i = "BCINS_AD (op_of BC_FUNCV) 0 0"
  obtain fs sz where start: "pseq (fs_init 0) (pseq (set_fs (\<lambda>f. f\<lparr>pf_flags := PROTO_VARARG\<rparr>)) (pseq (fscope_begin 0) (gen (bcemit_AD BC_FUNCV 0 0)))) ?s0 =
       Inr (0, ?s0\<lparr>ps_fs := fs, ps_sizebc := sz\<rparr>)" "in_main (?s0\<lparr>ps_fs := fs, ps_sizebc := sz\<rparr>) ?T [?i] 0 0 2"
    using start_main [of ?s0] fresh by auto
  let ?s1 = "?s0\<lparr>ps_fs := fs, ps_sizebc := sz\<rparr>"
  obtain w strs' where ret: "ukp_str_new (pe_str (ps_env ?s1)) (ps_strs ?s1) return_word = Some (w, strs')" using next_string [OF str(2,3), of "pe_str (ps_env s)" return_word] by auto
  have f1024: "kt_fresh (Suc 1023) ?T" using new_fresh by simp
  have none: "\<forall>i. 1023 < i \<and> i < 1024 \<longrightarrow> ukey (n_key (tnode ?T ! i)) \<noteq> (KTAP_TSTR, w)" by (intro allI impI) linarith
  obtain s2 v where s2: "p_next ?s1 = Inr ((), s2)" "looking s2 (Word return_word # arith_toks 0 e)" "ps_level s2 = 0" "ps_env s2 = ps_env s" "\<not> is_number v"
    "in_main s2 (kt_key ?T 1023 \<lparr>itype = KTAP_TSTR, vbits = w\<rparr> v) [?i] 0 0 2"
    using first_word [OF start(2) f1024 ret none, of "arith_toks 0 e"] fresh by auto
  let ?T2 = "kt_key ?T 1023 \<lparr>itype = KTAP_TSTR, vbits = w\<rparr> v"
  have f: "kt_fresh (Suc 1022) ?T2" using kt_key_fresh [OF f1024] by simp
  have n: "length (tnode ?T) = 1024" using f1024 by (simp add: kt_fresh_def)
  have top: "\<forall>i. 1022 < i \<and> i < 1024 \<longrightarrow> \<not> is_number (n_key (tnode ?T2 ! i))" "\<forall>i. 1022 < i \<and> i < 1024 \<longrightarrow> \<not> is_number (n_val (tnode ?T2 ! i))"
  proof -
    have i: "i = 1023" if "1022 < i \<and> i < 1024" for i :: nat using that by linarith
    have "\<not> is_number (n_key (tnode ?T2 ! 1023))" "\<not> is_number (n_val (tnode ?T2 ! 1023))"
      using s2(5) n by (simp_all add: kt_key_def is_number_def)
    then show "\<forall>i. 1022 < i \<and> i < 1024 \<longrightarrow> \<not> is_number (n_key (tnode ?T2 ! i))" "\<forall>i. 1022 < i \<and> i < 1024 \<longrightarrow> \<not> is_number (n_val (tnode ?T2 ! i))"
      using i by metis+
  qed
  obtain s3 where s3: "chunk_rec 200 s2 = Inr ((), s3)" "looking s3 []" "ps_env s3 = ps_env s"
    "in_main s3 (load_kt ?T2 1022 z) ([?i] @ [load_ins z, BCINS_AD (op_of BC_RET1) 0 2]) 0 (if short_num z then 0 else 1) 0x22"
    using return_chunk [OF s2(2,6) assms(2) s2(3) assms(3) f _ top(1)] s2(4) by auto
  obtain dbg s' where fin: "fs_finish (ls_line (ps_ls s3)) s3 = Inr (UProto PROTO_VARARG 0 1 [] [] (if short_num z then [] else [TNum (word_of_int z)])
       [load_ins z, BCINS_AD (op_of BC_RET1) 0 2] (Some dbg), s')" "length (snd (snd dbg)) \<le> 12"
    using finish_main [OF s3(4) _ _ f top(2), of "[?i, load_ins z]" "ls_line (ps_ls s3)"] s3(3) fresh by auto
  have "tok_of s3 = TK_eof" using s3(2) by (simp add: looking_def)
  have "pseq (fs_init 0) (pseq (set_fs (\<lambda>f. f\<lparr>pf_flags := PROTO_VARARG\<rparr>)) (pseq (fscope_begin 0) (pseq (gen (bcemit_AD BC_FUNCV 0 0)) m))) ?s0 =
      m ?s1" for m :: "uproto parse"
    using pseq_chain [OF start(1), of m] .
  then show ?thesis using str(1) s2(1) s3(1) fin \<open>tok_of s3 = TK_eof\<close>
    by (cases dbg) (simp add: kp_parse_def pthe_def run_simps KP_MAX_XLEVEL_def return_proto_def)
qed

lemma ex_text: "print_tokens (Word return_word # arith_toks 0 ex_arith) = bytes '' return ( 5 - 2 ) * 3''"
  unfolding ex_arith_simps by code_simp

section \<open>Well-formed output\<close>

text \<open>C4: The output of the compiler is well formed.  When \<^verbatim>\<open>kp_parse\<close> returns a prototype, it and every function
  nested in it have a frame of 1 to 249 slots, at most 60 upvalues and 65536 constants of each sort, number constants that are numbers,
  and no flag of the compiler's own.\<close>

theorem compiled_wf:
  assumes "ps_fs s = []" "ps_objs s = Map.empty" "kp_parse chunkarg s = Inr (pt, s')"
  shows "proto_wf pt"
proof -
  obtain strs where r: "pseq (fs_init 0) (pseq (set_fs (\<lambda>f. f\<lparr>pf_flags := PROTO_VARARG\<rparr>)) (pseq (fscope_begin 0) (pseq (gen (bcemit_AD BC_FUNCV 0 0))
     (pseq p_next (pseq (chunk_rec (unat KP_MAX_XLEVEL)) (pbind p_tok (\<lambda>tok. if tok \<noteq> TK_eof then err_token TK_eof else pbind p_line fs_finish)))))))
     (s\<lparr>ps_strs := strs, ps_ls := (ps_ls s)\<lparr>ls_chunkname := chunkarg\<rparr>, ps_level := 0\<rparr>) = Inr (pt, s')"
    using assms(3) unfolding kp_parse_def by (cases "ukp_str_new (pe_str (ps_env s)) (ps_strs s) chunkarg") (auto simp: pthe_def pfail_def pbind_def [of "pfail e" for e])
  let ?m = "pseq (fs_init 0) (pseq (set_fs (\<lambda>f. f\<lparr>pf_flags := PROTO_VARARG\<rparr>)) (pseq (fscope_begin 0) (pseq (gen (bcemit_AD BC_FUNCV 0 0))
     (pseq p_next (chunk_rec (unat KP_MAX_XLEVEL))))))"
  have m: "safe ?m" by (intro safe_rules steady_rules main_safe.C_safe) (simp add: func_ok_def)
  obtain x s1 where s1: "?m (s\<lparr>ps_strs := strs, ps_ls := (ps_ls s)\<lparr>ls_chunkname := chunkarg\<rparr>, ps_level := 0\<rparr>) = Inr (x, s1)"
    "fs_finish (ls_line (ps_ls s1)) s1 = Inr (pt, s')"
    using r by (auto simp: pseq_def pbind_Inr err_token_def err_text_def pget_def pfail_def split: if_splits)
  have "parser_ok (s\<lparr>ps_strs := strs, ps_ls := (ps_ls s)\<lparr>ls_chunkname := chunkarg\<rparr>, ps_level := 0\<rparr>)"
    using assms(1,2) by (simp add: parser_ok_def)
  from fs_finish_wf [OF safeD [OF m this s1(1)] s1(2)] show ?thesis by simp
qed

theorem compiled_wf_witness:
  "\<exists>pt s'. kp_parse [109] (ex_start (bytes '' return ( 5 - 2 ) * 3'')) = Inr (pt, s') \<and> proto_wf pt"
proof -
  have f: "fresh_parser (ex_start (bytes '' return ( 5 - 2 ) * 3'')) (print_tokens (Word return_word # arith_toks 0 ex_arith))"
    unfolding ex_text by (simp add: fresh_parser_def ex_start_def ex_env_def)
  obtain pt s' where c: "kp_parse [109] (ex_start (bytes '' return ( 5 - 2 ) * 3'')) = Inr (pt, s')"
    using return_compiled [OF f ex_arith_simps(1)] ex_arith_simps(2) by fastforce
  have "ps_fs (ex_start t) = []" "ps_objs (ex_start t) = Map.empty" for t by (simp_all add: ex_start_def)
  from compiled_wf [OF this c] show ?thesis using c by blast
qed

end
