(* ===== verification/Ktap_Run.thy ===== *)
theory Ktap_Run
  imports Ktap_Compile Ktap_BcTrip Ktap_Vm_Calls
begin

text \<open>
  The compiled \<^verbatim>\<open>return\<close> statement in the dump, in the validator and in the interpreter.
\<close>

text \<open>A loaded prototype as the interpreter sees it: \<open>ks\<close> are the addresses of its collectable constants.\<close>

definition vm_image :: "lproto \<Rightarrow> addr list \<Rightarrow> vm_proto" where
  "vm_image lp ks = \<lparr>vp_flags = lp_flags lp, vp_numparams = lp_numparams lp, vp_framesize = lp_framesize lp, vp_code = lp_bc lp,
     vp_uv = lp_uv lp, vp_kgc = ks, vp_knum = lp_knum lp\<rparr>"

text \<open>The slot holds a closure of the prototype, and there is a slot above it.\<close>

definition closure_at :: "vm_state \<Rightarrow> int \<Rightarrow> addr \<Rightarrow> lproto \<Rightarrow> bool" where
  "closure_at vs func p lp \<longleftrightarrow> in_stack vs func \<and> in_stack vs (func + 1) \<and>
     (\<exists>a fn. vs_stack vs ! nat func = SVal (set_func a) \<and> vs_funcs vs a = Some fn \<and> fn_p fn = p) \<and> vs_protos vs p = Some (vm_image lp [])"

text \<open>The main thread before the program starts: the loaded prototype, an allocator that has memory, two slots.\<close>

definition vm_ready :: "vm_env \<Rightarrow> vm_state \<Rightarrow> addr \<Rightarrow> lproto \<Rightarrow> bool" where
  "vm_ready ve vs p lp \<longleftrightarrow> vs_main vs \<and> ve_alloc ve vs \<noteq> 0 \<and> in_stack vs (vs_top vs) \<and> in_stack vs (vs_top vs + 1) \<and>
     vs_protos vs p = Some (vm_image lp [])"

lemma return_loaded:
  assumes "proto_loaded strip g nm (return_proto z dbg) lp"
  shows "lp_bc lp = [func_header (return_proto z dbg), load_ins z, BCINS_AD (op_of BC_RET1) 0 2]"
    "lp_framesize lp = 1" "lp_knum lp = (if short_num z then [] else [set_number (word_of_int z)])"
  using assms by (auto simp: return_proto_def list_all2_Cons1 split: if_splits)

lemma return_proto_ok:
  assumes "length (snd (snd dbg)) \<le> 12"
  shows "proto_ok e strip (return_proto z dbg)" "proto_order (return_proto z dbg) = [return_proto z dbg]" "protos_strs [return_proto z dbg] = []"
    "chunk_fits strip (return_proto z dbg)"
proof -
  obtain first num d where [simp]: "dbg = (first, num, d)" by (cases dbg)
  have d: "length d \<le> 12" using assms by simp
  then show "proto_ok e strip (return_proto z dbg)"
    by (auto simp: proto_ok_def return_proto_def dbg_info_def size_pt_def ofs_dbg_def ofs_uv_def ofs_k_def bcread_varinfo_def body_bytes_def proto_head_def dbg_info_def
        bcwrite_uint32_def bcwrite_bytecode_def kgc_bytes_def knum_bytes_def le32_def le64_def)
  show "proto_order (return_proto z dbg) = [return_proto z dbg]" by (simp add: return_proto_def)
  show "protos_strs [return_proto z dbg] = []" by (simp add: return_proto_def protos_strs_def own_strs_def)
  show "chunk_fits strip (return_proto z dbg)" using d
    by (simp add: chunk_fits_def return_proto_def proto_head_def dbg_info_def kgc_bytes_def bcwrite_uint32_def bcwrite_bytecode_def)
qed

text \<open>Both instructions, in the interpreter: the value is in the first slot of the frame when it ends.\<close>

definition load_step :: "vm_frame \<Rightarrow> vm_state \<Rightarrow> int \<Rightarrow> vm_res" where
  "load_step f s z = vbind (vput s (fl_base f) (set_number (word_of_int z))) (vnext f)"

lemma load_exec:
  assumes "vs_protos s (fl_k f) = Some pt" "\<not> short_num z \<Longrightarrow> vp_knum pt = [set_number (word_of_int z)]"
  shows "vm_exec e f s (load_ins z) = load_step f s z"
proof (cases "short_num z")
  case True
  then have d: "(word_of_int z :: u32) < 65536" by (simp add: short_num_def word_less_def uint_word_of_int)
  note b = bc_fields_AD [of "op_of BC_KSHORT" 0, OF _ _ d, simplified]
  have "uint (word_of_int z :: u32) = z" using True by (simp add: short_num_def uint_word_of_int)
  then have "(ucast (word_of_int z :: u32) :: u64) = word_of_int z" by (metis of_int_uint)
  then show ?thesis using True b by (simp add: load_ins_def vm_exec_def op_returns_def step_const_def load_step_def RA_def)
next
  case False
  note b = bc_fields_AD [of "op_of BC_KNUM" 0 0, simplified]
  show ?thesis using False b assms
    by (simp add: load_ins_def vm_exec_def op_returns_def step_const_def load_step_def RA_def vknum_def set_number_def)
qed

lemma return_runs:
  assumes "closure_at vs func p lp" "proto_loaded strip g nm (return_proto z dbg) lp"
  shows "\<exists>vs'. kp_vm_call 2 ve vs func = Some (Inr vs') \<and> vget vs' (func + 1) = Inr (set_number (word_of_int z))"
proof -
  note l = return_loaded [OF assms(2)]
  obtain a fn where r: "in_stack vs func" "in_stack vs (func + 1)" "vs_stack vs ! nat func = SVal (set_func a)" "vs_funcs vs a = Some fn" "fn_p fn = p"
    "vs_protos vs p = Some (vm_image lp [])" using assms(1) unfolding closure_at_def by blast
  let ?f = "\<lparr>fl_loop = 0, fl_fn = a, fl_pt = p, fl_k = p, fl_pc = (p, 1), fl_base = func + 1, fl_func = func, fl_multres = 0\<rparr>"
  let ?s = "vs\<lparr>vs_stack := (vs_stack vs)[nat func := SFrame a None], vs_top := func + 2\<rparr>"
  have en: "vm_enter vs func = Inr (?f, ?s)"
    using r l(2) by (simp add: vm_enter_def vbits_at_def slot_bits_def set_func_def vfunc_def vproto_def vslot_set_def vm_image_def)
  let ?f1 = "?f\<lparr>fl_pc := (p, 2)\<rparr>"
  let ?s1 = "?s\<lparr>vs_stack := (vs_stack vs)[nat func := SFrame a None, nat (func + 1) := SVal (set_number (word_of_int z))]\<rparr>"
  have p: "vs_protos ?s p = Some (vm_image lp [])" using r by simp
  have "vm_exec ve ?f1 ?s (load_ins z) = load_step ?f1 ?s z"
    by (rule load_exec) (use p l(3) in \<open>auto simp: vm_image_def\<close>)
  then have st1: "vm_step ve ?f ?s = Inr (VNext ?f1 ?s1)"
    using r l(1) by (simp add: vm_step_def vfetch_def vm_image_def load_step_def vput_def vslot_set_def in_stack_def vnext_def add_pc_def)
  note b = bc_fields_AD [of "op_of BC_RET1" 0 2, simplified]
  have "nat func \<noteq> nat (func + 1)" using r(1) by (auto simp: in_stack_def nat_eq_iff)
  then have st2: "vm_step ve ?f1 ?s1 = Inr (VRet ?s1)"
    using r l(1) b by (simp add: vm_step_def vfetch_def vm_image_def vm_exec_def op_returns_def step_ret_def vframe_pc_def in_stack_def vret_def add_pc_def)
  have "kp_vm_call 2 ve vs func = Some (Inr ?s1)" using en st1 st2 by (simp add: kp_vm_call_def numeral_2_eq_2)
  moreover have "vget ?s1 (func + 1) = Inr (set_number (word_of_int z))" using r by (simp add: vget_def in_stack_def)
  ultimately show ?thesis by blast
qed

lemma return_called:
  assumes "vm_ready ve vs p lp" "proto_loaded strip g nm (return_proto z dbg) lp"
  shows "\<exists>vs'. kp_vm_call_proto 2 ve vs p = Some (Inr vs') \<and> vget vs' (vs_top vs + 1) = Inr (set_number (word_of_int z))"
proof -
  note r = assms(1) [unfolded vm_ready_def]
  let ?a = "ve_alloc ve vs"
  let ?vs = "vs\<lparr>vs_funcs := (vs_funcs vs)(?a \<mapsto> \<lparr>fn_p = p, fn_upvals = []\<rparr>), vs_stack := (vs_stack vs)[nat (vs_top vs) := SVal (set_func ?a)],
     vs_top := vs_top vs + 1\<rparr>"
  have "closure_at ?vs (vs_top vs) p lp" using r by (auto simp: closure_at_def in_stack_def)
  from return_runs [OF this assms(2), of ve] r show ?thesis
    by (simp add: kp_vm_call_proto_def func_new_empty_def Let_def vput_def vslot_set_def in_stack_def)
qed

lemma return_valid:
  assumes "vm_ready ve vs p lp" "proto_loaded strip g nm (return_proto z dbg) lp"
  shows "kp_vm_validate_code 1 vs p 0 = Inr (True, vs)"
proof -
  note l = return_loaded [OF assms(2)]
  have r: "in_stack vs (vs_top vs)" "vs_protos vs p = Some (vm_image lp [])" using assms(1) unfolding vm_ready_def by blast+
  have op: "unat (bc_op (load_ins z)) \<in> {BC_KSHORT, BC_KNUM}"
  proof (cases "short_num z")
    case True
    then have d: "(word_of_int z :: u32) < 65536" by (simp add: short_num_def word_less_def uint_word_of_int)
    show ?thesis using True bc_fields_AD [of "op_of BC_KSHORT" 0, OF _ _ d, simplified] by (simp add: load_ins_def)
  qed (use bc_fields_AD [of "op_of BC_KNUM" 0 0, simplified] in \<open>simp add: load_ins_def\<close>)
  have 1: "validate_instr c p b 1 vs = Inr (True, vs)" for c b
    using op l(1) r(2) by (auto simp: validate_instr_def vfetch_def vm_image_def)
  have 2: "validate_instr c p b 2 vs = Inr (True, vs)" for c b
    using bc_fields_AD [of "op_of BC_RET1" 0 2, simplified] l(1) r(2) by (simp add: validate_instr_def vfetch_def vm_image_def)
  have "[1..<length (lp_bc lp)] = [1, 2]" using l(1) by (simp add: upt_rec)
  then show ?thesis using 1 2 r l(2) by (auto simp add: vproto_def vm_image_def in_stack_def KP_MAX_SLOTS_def)
qed

definition ex_vm :: "lproto \<Rightarrow> vm_state" where
  "ex_vm lp = loop_state\<lparr>vs_protos := [2 \<mapsto> vm_image lp []]\<rparr>"

end
