(* ===== verification/Spec2Isabelle.thy ===== *)
theory Spec2Isabelle
  imports Ktap_Tab_Map Ktap_Fmt Ktap_Hist Ktap_BcTrip Ktap_Vm_Leaf Ktap_Vm_Calls Ktap_Lex_Correct Ktap_Codegen_Correct Ktap_Compile Ktap_Run
begin

text \<open>
  \<^bold>\<open>A verification of ktap.\<close>  The repository collects several programs for reading; this development is about
  ktap (\<^verbatim>\<open>src/ktap-master\<close>), a tracing language.  A script is compiled in user space
  (\<^verbatim>\<open>userspace/kp_lex.c\<close>, \<^verbatim>\<open>kp_parse.c\<close>), written as a byte code dump (\<^verbatim>\<open>kp_bcwrite.c\<close>) and sent to a kernel module, which
  loads it (\<^verbatim>\<open>runtime/kp_bcread.c\<close>), validates it and runs it on events (\<^verbatim>\<open>kp_vm.c\<close>, \<^verbatim>\<open>kp_events.c\<close>) with tables
  (\<^verbatim>\<open>kp_tab.c\<close>), interned strings (\<^verbatim>\<open>kp_str.c\<close>) and a memory pool (\<^verbatim>\<open>kp_mempool.c\<close>).

  \<^bold>\<open>Theories.\<close>
  \<^item> \<^verbatim>\<open>Ktap_Prelude\<close>: words, lists and options.
  \<^item> \<^verbatim>\<open>Ktap_Bytecode\<close> (\<^verbatim>\<open>include/ktap_bc.h\<close>): instruction fields and the opcode table; the constructors and accessors
    are inverse, the table decodes, the numbering relations hold that the code relies on.
  \<^item> \<^verbatim>\<open>Ktap_Values\<close> (\<^verbatim>\<open>ktap_types.h\<close>, \<^verbatim>\<open>kp_obj.c\<close>): a value is a tag and the 64 bits of the union.
  \<^item> \<^verbatim>\<open>Ktap_Mempool\<close>: the pool, the error path; a bound check that never fires.
  \<^item> \<^verbatim>\<open>Ktap_Str\<close>: comparison, hashing and interning; the string table implements the finite map from content to
    pointer, so equal content means equal pointers.  \<^verbatim>\<open>Ktap_Fmt\<close>: \<^verbatim>\<open>kp_str_fmt\<close> prints the pieces of its format.
  \<^item> \<^verbatim>\<open>Ktap_Tab\<close>: the hash tables with their array part.  \<^verbatim>\<open>Ktap_Tab_Correct\<close>: the invariant of the collision chains and
    that insertion keeps it.  \<^verbatim>\<open>Ktap_Tab_Map\<close>: a locale of finite-map interfaces and its interpretation on the tables;
    get, set and increment are lookup and update of the map, traversal visits every entry once, duplication
    keeps the map.  \<^verbatim>\<open>Ktap_Hist\<close>: the histogram, printed in descending order for any sort of the kernel that orders by its comparison.
  \<^item> \<^verbatim>\<open>Ktap_BcWrite\<close>: the writer, with the buffer it fills; what it sends, when the buffer is large enough, and constants that overflow it.
    \<^verbatim>\<open>Ktap_BcRead\<close>: the loader.  \<^verbatim>\<open>Ktap_BcTrip\<close>: what one writes the other loads,
    the loop of the loader ends on every input, the layout of a loaded prototype is disjoint, and two inputs it mishandles.
  \<^item> \<^verbatim>\<open>Ktap_Event\<close>: arguments of trace events, in the order of the declared fields, and of system calls.
  \<^item> \<^verbatim>\<open>Ktap_Vm\<close>: the interpreter, one function per group of instructions of \<^verbatim>\<open>kp_vm_call\<close>; its local variables are the
    record \<open>vm_frame\<close>, the thread and the objects it reaches the record \<open>vm_state\<close>.  \<^verbatim>\<open>Ktap_Validate\<close>: built-in
    functions, libraries, registry, script arguments, validation of code.
  \<^item> \<^verbatim>\<open>Ktap_Vm_Loop\<close>: conditions on outcomes, reachable configurations, the bound of the loop counter.
    \<^verbatim>\<open>Ktap_Vm_Leaf\<close>: checked code without calls stays in its frame, its constants, its upvalues and its code, and returns when its instructions cannot fault.
    \<^verbatim>\<open>Ktap_Vm_Calls\<close>: upvalues, validated code and its patches, results of C functions, call and return.
  \<^item> \<^verbatim>\<open>Ktap_Util\<close> (\<^verbatim>\<open>userspace/kp_util.c\<close>): buffers, character classes, strings and constant tables of the compiler, glob patterns.
    \<^verbatim>\<open>Ktap_Util_Correct\<close>: buffers hold what is put into them, strings are interned, a constant table is a finite map up to its second growth,
    \<^verbatim>\<open>strglobmatch\<close> decides the language of its patterns.
  \<^item> \<^verbatim>\<open>Ktap_Lex\<close> (\<^verbatim>\<open>kp_lex.c\<close>): the lexer.  \<^verbatim>\<open>Ktap_Lex_Correct\<close>: it ends on every text, and printed tokens are scanned back.
  \<^item> \<^verbatim>\<open>Ktap_Codegen\<close> (first half of \<^verbatim>\<open>kp_parse.c\<close>): constants, jump lists, registers, expression descriptors, emission and folding, on
    the record \<open>fstate\<close> of the function under construction.  \<^verbatim>\<open>Ktap_Codegen_Correct\<close>: jumps lead where they are patched to, constants
    keep their slots, folding and loading agree with the interpreter.
  \<^item> \<^verbatim>\<open>Ktap_Scope\<close>, \<^verbatim>\<open>Ktap_Parse\<close> (the rest of \<^verbatim>\<open>kp_parse.c\<close>): variables, upvalues, scopes and the finished prototype; the recursive descent over
    expressions and statements, as functions of a state and error monad on the record \<open>pstate\<close>.  The two functions of the mutual recursion,
    \<^verbatim>\<open>expr_binop\<close> and \<^verbatim>\<open>parse_chunk\<close>, are arguments of all others; \<open>expr_rec\<close> and \<open>chunk_rec\<close> tie the knot.
  \<^item> \<^verbatim>\<open>Ktap_Progress\<close>, \<^verbatim>\<open>Ktap_Parse_Ends\<close>: what every parsing function consumes, and that the recursive descent ends on every text.
    \<^verbatim>\<open>Ktap_Parse_Wf\<close>: frames and prototypes stay within their fields.  \<^verbatim>\<open>Ktap_Parse_Arith\<close>: precedence, association and folding of
    arithmetic.  \<^verbatim>\<open>Ktap_Compile\<close>: whole programs and the well-formedness of what the compiler returns.
    \<^verbatim>\<open>Ktap_Run\<close>: a compiled program through the dump, the validator and the interpreter.

  \<^bold>\<open>Conventions.\<close>  Machine integers are words of their width (LP64); a pointer to an object is an address in a map.
  A fault of the C code (a wild access, a division trap, an undefined shift) is \<open>None\<close> or a value of
  \<open>vm_fault\<close>; a walk or loop of the model that has used up its rounds is a value of its own where the
  code may run on (\<open>PFuel\<close>, \<open>PLoop\<close>, \<open>CgLoop\<close>, \<open>None\<close> of \<open>vm_run\<close> and of \<open>bcread_loop\<close>); an error the code reports is in the global state (\<open>kp_error\<close>) and in the result.
  What comes from outside is a parameter: the blocks the kernel allocates and their contents, the bytes around
  strings, user memory, the C functions of the libraries, the current task, the printed form of an event; for the compiler (\<open>penv\<close>)
  the addresses of new objects, the bytes of memory it has not written, and the result of \<^verbatim>\<open>kp_parse_events\<close>.
  Locks and interrupts are not part of the model: each operation runs alone.

  \<^bold>\<open>Bounds and fuel.\<close>  Walks along the chains of a table carry the number of nodes as fuel, which the invariants make enough: the properties of tables
  say that there is a result.  The loop of the loader has one round more than there are bytes, and by \<open>bcread_loop_terminates\<close> it ends within a quarter of that; \<open>vm_run\<close> the number of dispatches, and
  \<open>leaf_call_returns\<close> says how many are enough for checked code; the validator the depth of the kernel stack.  The recursion of the
  parser has 200 levels of fuel, the limit \<^verbatim>\<open>KP_MAX_XLEVEL\<close> that \<^verbatim>\<open>synlevel_begin\<close> enforces, and its loops one round more than
  the text that is left (\<open>ps_left\<close>); \<open>parse_descent_ends\<close> says that neither runs out.  Walks along jump lists have as many
  rounds as there are instructions; a cyclic list would use them up and give \<open>CgLoop\<close>, which is not excluded for whole programs.

  \<^bold>\<open>Not modelled.\<close>  Probe expressions (\<^verbatim>\<open>kp_parse_events.c\<close>, \<^verbatim>\<open>kp_symbol.c\<close>) read the file systems of the kernel and ELF files; their result is
  a parameter of the parser.  The command line, the listing of byte code and \<^verbatim>\<open>/proc/kallsyms\<close> are input and output.  The libraries are a
  parameter of the interpreter.  Event registration, the transport and the start and stop of the module are calls into the kernel.  The
  foreign function interface is an optional build with native calls.  The other programs of the collection
  (ovlfs, overlayfs, ab, weighttp, iotop, spserver, perf-tools) are unrelated to ktap.
\<close>

section \<open>From the text to the result\<close>

text \<open>
  C1: the whole way of a program.  A text that returns an arithmetic expression, printed with the parentheses it needs, whose value exists
  (no overflow, no division by zero), is compiled by \<^verbatim>\<open>kp_parse\<close>, written by \<^verbatim>\<open>kp_bcwrite\<close> and loaded by \<^verbatim>\<open>kp_bcread\<close>; in
  every main thread that holds the loaded prototype \<^verbatim>\<open>kp_vm_validate_code\<close> accepts it unchanged, and \<^verbatim>\<open>kp_vm_call_proto\<close> ends after two
  instructions with the value of the expression in the first slot of its frame.
\<close>

theorem script_runs:
  assumes "fresh_parser s (print_tokens (Word return_word # arith_toks 0 e))" "arith_val e = Some z" "arith_depth e < 199"
    "mem_total be" "arg_ok be (chunk_name strip chunk)" "str_budget g [chunk_name strip chunk]" "1 \<le> be_room be"
  shows "\<exists>pt s' dump lp g'. kp_parse chunk s = Inr (pt, s') \<and> kp_bcwrite ju pt chunk write_append [] strip = Some (0, dump) \<and>
     kp_bcread be g dump = Some (Some lp, g') \<and>
     (\<forall>ve vs p. vm_ready ve vs p lp \<longrightarrow> kp_vm_validate_code 1 vs p 0 = Inr (True, vs) \<and>
        (\<exists>vs'. kp_vm_call_proto 2 ve vs p = Some (Inr vs') \<and> vget vs' (vs_top vs + 1) = Inr (set_number (word_of_int z))))"
proof -
  obtain dbg s' where c: "kp_parse chunk s = Inr (return_proto z dbg, s')" "length (snd (snd dbg)) \<le> 12"
    using return_compiled [OF assms(1-3)] by blast
  note ok = return_proto_ok [OF c(2)]
  let ?dump = "bc_dump strip chunk (return_proto z dbg)"
  obtain lp g' where l: "kp_bcread be g ?dump = Some (Some lp, g')" "proto_loaded strip g' (lp_chunkname lp) (return_proto z dbg) lp"
    using bcread_dump [OF assms(4), of strip "return_proto z dbg" chunk g] ok assms(5-7) by auto
  have w: "kp_bcwrite ju (return_proto z dbg) chunk write_append [] strip = Some (0, ?dump)"
    using kp_bcwrite_fits [of strip "return_proto z dbg" chunk ju write_append "[]"] str_budget_name [OF assms(6)] ok
    by (auto dest: kp_bcwrite_append)
  show ?thesis using c(1) w l(1) return_valid [OF _ l(2)] return_called [OF _ l(2)] by blast
qed

theorem script_runs_witness:
  "\<exists>pt s' dump lp g'. kp_parse [109] (ex_start (bytes '' return ( 5 - 2 ) * 3'')) = Inr (pt, s') \<and> kp_bcwrite (\<lambda>_. 0) pt [109] write_append [] False = Some (0, dump) \<and>
     kp_bcread trip_env str_example dump = Some (Some lp, g') \<and> kp_vm_validate_code 1 (ex_vm lp) 2 0 = Inr (True, ex_vm lp) \<and>
     (\<exists>vs'. kp_vm_call_proto 2 (loop_env\<lparr>ve_alloc := (\<lambda>_. 7)\<rparr>) (ex_vm lp) 2 = Some (Inr vs') \<and> vget vs' 2 = Inr (set_number 9))"
proof -
  have f: "fresh_parser (ex_start (bytes '' return ( 5 - 2 ) * 3'')) (print_tokens (Word return_word # arith_toks 0 ex_arith))"
    unfolding ex_text by (simp add: fresh_parser_def ex_start_def ex_env_def)
  have b: "str_budget str_example [chunk_name False [109]]" using str_example_inv
    by (simp add: str_budget_def str_example_def kp_str_resize_def pool_example_def chunk_name_def)
  have a: "arg_ok trip_env (chunk_name False [109])" "1 \<le> be_room trip_env" by (simp_all add: arg_ok_def chunk_name_def trip_env_def)
  have v: "vm_ready (loop_env\<lparr>ve_alloc := (\<lambda>_. 7)\<rparr>) (ex_vm lp) 2 lp" "vs_top (ex_vm lp) = 1" for lp by (simp_all add: vm_ready_def ex_vm_def loop_state_def in_stack_def)
  show ?thesis
    using script_runs [OF f ex_arith_simps(1) _ trip_env_total a(1) b a(2)] v ex_arith_simps(2) by fastforce
qed

end
